(* ===== verification/Prelude.thy ===== *)
theory Prelude
  imports Main "HOL-Library.AList" "HOL-Library.List_Lexorder" "HOL-Library.Char_ord"
begin

text \<open>
  Shared vocabulary of the Portico gateway development: the representation of
  Go values (strings as lists of bytes, instants and durations as integers of
  nanoseconds, maps as association lists with distinct keys), the result type
  of fallible functions, and the generic lemmas the components share.  A Go
  string is a sequence of bytes and an Isabelle \<^typ>\<open>char\<close> is exactly one byte,
  so \<^typ>\<open>string\<close> is an exact model; byte-wise comparison is the lexicographic
  order of the library.
\<close>

named_theorems gate_simps \<open>equations and characterisations of the admission gates\<close>
named_theorems amap_simps \<open>laws of the association-list model of Go maps\<close>
named_theorems str_simps \<open>laws of the string routines\<close>

type_synonym time = int
type_synonym duration = int
type_synonym ('e, 'a) result = "'e + 'a"

subsection \<open>Results of fallible functions\<close>

fun res_bind :: "('e, 'a) result \<Rightarrow> ('a \<Rightarrow> ('e, 'b) result) \<Rightarrow> ('e, 'b) result" where
  "res_bind (Inl e) f = Inl e"
| "res_bind (Inr x) f = f x"

lemma res_bind_Inr_iff [simp]:
  "res_bind m f = Inr y \<longleftrightarrow> (\<exists>x. m = Inr x \<and> f x = Inr y)"
  by (cases m) auto

lemma res_bind_Inl_iff:
  "res_bind m f = Inl e \<longleftrightarrow> m = Inl e \<or> (\<exists>x. m = Inr x \<and> f x = Inl e)"
  by (cases m) auto

subsection \<open>Go maps as association lists\<close>

type_synonym ('k, 'v) amap = "('k \<times> 'v) list"

abbreviation aget :: "('k, 'v) amap \<Rightarrow> 'k \<Rightarrow> 'v option" where
  "aget m k \<equiv> map_of m k"

abbreviation aput :: "'k \<Rightarrow> 'v \<Rightarrow> ('k, 'v) amap \<Rightarrow> ('k, 'v) amap" where
  "aput k v m \<equiv> AList.update k v m"

abbreviation adel :: "'k \<Rightarrow> ('k, 'v) amap \<Rightarrow> ('k, 'v) amap" where
  "adel k m \<equiv> AList.delete k m"

abbreviation akeys :: "('k, 'v) amap \<Rightarrow> 'k list" where
  "akeys m \<equiv> map fst m"

definition amap_ok :: "('k, 'v) amap \<Rightarrow> bool" where
  "amap_ok m = distinct (akeys m)"

lemma amap_ok_Nil [simp, intro]: "amap_ok []"
  by (simp add: amap_ok_def)

lemma amap_ok_put [simp, intro]: "amap_ok m \<Longrightarrow> amap_ok (aput k v m)"
  by (simp add: amap_ok_def distinct_update)

lemma amap_ok_del [simp, intro]: "amap_ok m \<Longrightarrow> amap_ok (adel k m)"
  by (simp add: amap_ok_def distinct_delete)

lemma amap_ok_filter [simp, intro]: "amap_ok m \<Longrightarrow> amap_ok (filter P m)"
  by (simp add: amap_ok_def distinct_map_filter)

lemma aget_put [simp, amap_simps]:
  "aget (aput k v m) k' = (if k' = k then Some v else aget m k')"
  by (simp add: update_conv)

lemma aget_del [simp, amap_simps]:
  "aget (adel k m) k' = (if k' = k then None else aget m k')"
  by (simp add: delete_conv)

lemma aget_filter:
  assumes "amap_ok m"
  shows "aget (filter P m) k =
    (case aget m k of None \<Rightarrow> None | Some v \<Rightarrow> if P (k, v) then Some v else None)"
  using assms
proof (induction m)
  case (Cons kv m)
  have notin: "aget m (fst kv) = None"
    using Cons.prems by (auto simp: amap_ok_def map_of_eq_None_iff)
  have "amap_ok m"
    using Cons.prems by (simp add: amap_ok_def)
  from Cons.IH [OF this] notin show ?case
    by (cases kv) (auto split: option.splits)
qed simp

lemma aget_in_set: "aget m k = Some v \<Longrightarrow> (k, v) \<in> set m"
  by (rule map_of_SomeD)

lemma aget_iff_mem:
  "amap_ok m \<Longrightarrow> aget m k = Some v \<longleftrightarrow> (k, v) \<in> set m"
  by (simp add: amap_ok_def)

lemma akeys_put [simp]: "set (akeys (aput k v m)) = insert k (set (akeys m))"
  by (auto simp: update_keys)

lemma akeys_del [simp]: "set (akeys (adel k m)) = set (akeys m) - {k}"
  by (auto simp: delete_keys)

lemma length_adel_le: "length (adel k m) \<le> length m"
  by (induction m) auto

lemma length_adel_less: "k \<in> set (akeys m) \<Longrightarrow> length (adel k m) < length m"
proof (induction m)
  case (Cons kv m)
  then show ?case
    using length_adel_le [of k m] by (cases kv) (force simp: Suc_le_eq)
qed simp

lemma length_aput:
  "length (aput k v m) = (if k \<in> set (akeys m) then length m else Suc (length m))"
  by (induction m) auto

subsection \<open>Sums and lookups over lists\<close>

lemma find_Some_prop: "List.find P xs = Some x \<Longrightarrow> x \<in> set xs \<and> P x"
  by (auto simp: find_Some_iff)

lemma find_None_all: "List.find P xs = None \<longleftrightarrow> (\<forall>x \<in> set xs. \<not> P x)"
  by (auto simp: find_None_iff)

lemma distinct_map_key: "\<lbrakk> distinct (map f xs); x \<in> set xs; y \<in> set xs; f x = f y \<rbrakk> \<Longrightarrow> x = y"
  by (auto simp: distinct_map inj_on_def)

lemma find_key:
  assumes "distinct (map f xs)"
  shows "List.find (\<lambda>x. f x = k) xs = Some x \<longleftrightarrow> x \<in> set xs \<and> f x = k"
proof
  show "List.find (\<lambda>x. f x = k) xs = Some x \<Longrightarrow> x \<in> set xs \<and> f x = k"
    by (rule find_Some_prop)
next
  assume x: "x \<in> set xs \<and> f x = k"
  then obtain y where "List.find (\<lambda>x. f x = k) xs = Some y"
    by (cases "List.find (\<lambda>x. f x = k) xs") (auto simp: find_None_all)
  with x show "List.find (\<lambda>x. f x = k) xs = Some x"
    using distinct_map_key [OF assms, of x y] find_Some_prop [of "\<lambda>x. f x = k" xs y] by auto
qed

lemma find_append: "List.find P (xs @ ys) = (case List.find P xs of None \<Rightarrow> List.find P ys | Some x \<Rightarrow> Some x)"
  by (induction xs) auto

lemma find_map_keep: "(\<And>x. P (f x) = P x) \<Longrightarrow> List.find P (map f xs) = map_option f (List.find P xs)"
  by (induction xs) auto

lemma filter_unique:
  assumes "distinct xs" and "P x" and "\<forall>y \<in> set xs. P y \<longrightarrow> y = x"
  shows "filter P xs = (if x \<in> set xs then [x] else [])"
proof -
  have "filter P xs = filter (\<lambda>y. y = x) xs" using assms(2,3) by (intro filter_cong) auto
  also have "\<dots> = (if x \<in> set xs then [x] else [])" using assms(1) by (induction xs) auto
  finally show ?thesis .
qed

lemma length_filter_mono: "(\<And>x. \<lbrakk> x \<in> set xs; P x \<rbrakk> \<Longrightarrow> Q x) \<Longrightarrow> length (filter P xs) \<le> length (filter Q xs)"
  by (induction xs) (auto intro: le_SucI)

end
