(* ===== verification/Go_Strings.thy ===== *)
theory Go_Strings
  imports Prelude
begin

text \<open>
  The routines of the Go standard library packages \<open>strings\<close> and
  \<open>encoding/base64\<close> that the gateway calls, written out on lists of bytes:
  \<open>IndexByte\<close> with its result -1, prefix tests and trims, \<open>Cut\<close>, \<open>Split\<close> and
  the unpadded URL-safe base64 alphabet with the decoder's handling of line
  breaks and short final groups.
\<close>

subsection \<open>Package strings\<close>

fun index_byte :: "string \<Rightarrow> char \<Rightarrow> int" where
  "index_byte [] c = -1"
| "index_byte (x # xs) c =
    (if x = c then 0 else let i = index_byte xs c in if i < 0 then -1 else i + 1)"

fun has_prefix :: "string \<Rightarrow> string \<Rightarrow> bool" where
  "has_prefix s [] = True"
| "has_prefix [] (p # ps) = False"
| "has_prefix (c # s) (p # ps) = (c = p \<and> has_prefix s ps)"

fun index_str :: "string \<Rightarrow> string \<Rightarrow> int" where
  "index_str [] sub = (if sub = [] then 0 else -1)"
| "index_str (x # xs) sub =
    (if has_prefix (x # xs) sub then 0
     else let i = index_str xs sub in if i < 0 then -1 else i + 1)"

definition trim_prefix :: "string \<Rightarrow> string \<Rightarrow> string" where
  "trim_prefix s p = (if has_prefix s p then drop (length p) s else s)"

definition trim_left :: "string \<Rightarrow> char \<Rightarrow> string" where
  "trim_left s c = dropWhile (\<lambda>x. x = c) s"

definition cut_byte :: "string \<Rightarrow> char \<Rightarrow> string \<times> string \<times> bool" where
  "cut_byte s c =
    (let i = index_byte s c in
     if i \<ge> 0 then (take (nat i) s, drop (nat i + 1) s, True) else (s, '''', False))"

fun split_byte :: "string \<Rightarrow> char \<Rightarrow> string list" where
  "split_byte [] c = [[]]"
| "split_byte (x # xs) c =
    (if x = c then [] # split_byte xs c
     else case split_byte xs c of [] \<Rightarrow> [[x]] | y # ys \<Rightarrow> (x # y) # ys)"

subsection \<open>Package encoding/hex\<close>

definition hex_digit :: "nat \<Rightarrow> char" where
  "hex_digit n = ''0123456789abcdef'' ! (n mod 16)"

definition hex_encode :: "nat list \<Rightarrow> string" where
  "hex_encode bs = concat (map (\<lambda>b. [hex_digit (b div 16), hex_digit (b mod 16)]) bs)"

lemma hex_encode_eq_Nil [simp]: "hex_encode bs = [] \<longleftrightarrow> bs = []"
  by (cases bs) (simp_all add: hex_encode_def)

subsection \<open>White space\<close>

text \<open>The UTF-8 encodings of the runes \<open>unicode.IsSpace\<close> accepts; their lead bytes never occur inside
  another encoding, so scanning bytes agrees with scanning runes.\<close>

definition space_seqs :: "string list" where
  "space_seqs =
    [[CHR 0x09], [CHR 0x0A], [CHR 0x0B],
     [CHR 0x0C], [CHR 0x0D], [CHR 0x20],
     [CHR 0xC2, CHR 0x85], [CHR 0xC2, CHR 0xA0], [CHR 0xE1, CHR 0x9A, CHR 0x80],
     [CHR 0xE2, CHR 0x80, CHR 0x80], [CHR 0xE2, CHR 0x80, CHR 0x81], [CHR 0xE2, CHR 0x80, CHR 0x82],
     [CHR 0xE2, CHR 0x80, CHR 0x83], [CHR 0xE2, CHR 0x80, CHR 0x84], [CHR 0xE2, CHR 0x80, CHR 0x85],
     [CHR 0xE2, CHR 0x80, CHR 0x86], [CHR 0xE2, CHR 0x80, CHR 0x87], [CHR 0xE2, CHR 0x80, CHR 0x88],
     [CHR 0xE2, CHR 0x80, CHR 0x89], [CHR 0xE2, CHR 0x80, CHR 0x8A], [CHR 0xE2, CHR 0x80, CHR 0xA8],
     [CHR 0xE2, CHR 0x80, CHR 0xA9], [CHR 0xE2, CHR 0x80, CHR 0xAF], [CHR 0xE2, CHR 0x81, CHR 0x9F],
     [CHR 0xE3, CHR 0x80, CHR 0x80]]"

definition space_len :: "string list \<Rightarrow> string \<Rightarrow> nat" where
  "space_len seqs s = (case List.find (has_prefix s) seqs of None \<Rightarrow> 0 | Some q \<Rightarrow> length q)"

text \<open>The loops run at most once per byte; the first argument bounds them.\<close>

fun strip_spaces :: "nat \<Rightarrow> string list \<Rightarrow> string \<Rightarrow> string" where
  "strip_spaces 0 seqs s = s"
| "strip_spaces (Suc n) seqs s =
    (if space_len seqs s = 0 then s else strip_spaces n seqs (drop (space_len seqs s) s))"

definition trim_space :: "string \<Rightarrow> string" where
  "trim_space s =
    (let l = strip_spaces (length s) space_seqs s in
     rev (strip_spaces (length l) (map rev space_seqs) (rev l)))"

fun str_fields_loop :: "nat \<Rightarrow> string \<Rightarrow> string \<Rightarrow> string list" where
  "str_fields_loop 0 acc s = (if acc = [] then [] else [rev acc])"
| "str_fields_loop (Suc n) acc s =
    (case s of
       [] \<Rightarrow> (if acc = [] then [] else [rev acc])
     | c # cs \<Rightarrow>
         if space_len space_seqs s > 0
         then (if acc = [] then [] else [rev acc]) @ str_fields_loop n [] (drop (space_len space_seqs s) s)
         else str_fields_loop n (c # acc) cs)"

definition str_fields :: "string \<Rightarrow> string list" where
  "str_fields s = str_fields_loop (Suc (length s)) [] s"

lemma has_prefix_iff [str_simps]: "has_prefix s p \<longleftrightarrow> (\<exists>t. s = p @ t)"
  by (induction s p rule: has_prefix.induct) auto

lemma has_prefix_append [simp]: "has_prefix (p @ t) p"
  by (auto simp: has_prefix_iff)

lemma trim_prefix_append [simp]: "trim_prefix (p @ t) p = t"
  by (simp add: trim_prefix_def)

lemma index_byte_ge: "index_byte s c \<ge> -1"
  by (induction s c rule: index_byte.induct) (auto simp: Let_def)

lemma index_byte_neg: "index_byte s c < 0 \<longleftrightarrow> c \<notin> set s"
  by (induction s c rule: index_byte.induct) (auto simp: Let_def)

lemma index_byte_less: "index_byte s c < int (length s)"
  by (induction s c rule: index_byte.induct) (auto simp: Let_def)

lemma index_byte_append [simp]:
  "c \<notin> set a \<Longrightarrow> index_byte (a @ c # b) c = int (length a)"
  by (induction a) (auto simp: Let_def)

lemma index_byte_split:
  assumes "index_byte s c = i" and "i \<ge> 0"
  shows "s = take (nat i) s @ c # drop (nat i + 1) s \<and> c \<notin> set (take (nat i) s)"
  using assms
proof (induction s arbitrary: i)
  case (Cons x xs)
  show ?case
  proof (cases "x = c")
    case False
    with Cons.prems have ge: "index_byte xs c \<ge> 0" and i: "i = index_byte xs c + 1"
      by (auto simp: Let_def split: if_splits)
    have "nat i = Suc (nat (index_byte xs c))"
      using ge i by simp
    with Cons.IH [OF refl ge] False show ?thesis
      by simp
  qed (use Cons.prems in auto)
qed simp

lemma trim_left_head: "trim_left s c = [] \<or> hd (trim_left s c) \<noteq> c"
  by (induction s) (auto simp: trim_left_def)

lemma trim_left_fixed: "s = [] \<or> hd s \<noteq> c \<Longrightarrow> trim_left s c = s"
  by (cases s) (auto simp: trim_left_def)

lemma cut_byte_append [simp]: "c \<notin> set a \<Longrightarrow> cut_byte (a @ c # b) c = (a, b, True)"
  by (simp add: cut_byte_def)

lemma cut_byte_absent [simp]: "c \<notin> set s \<Longrightarrow> cut_byte s c = (s, '''', False)"
  using index_byte_neg [of s c] by (simp add: cut_byte_def)

subsection \<open>Package encoding/base64: RawURLEncoding\<close>

definition b64_url_alphabet :: string where
  "b64_url_alphabet = ''ABCDEFGHIJKLMNOPQRSTUVWXYZabcdefghijklmnopqrstuvwxyz0123456789-_''"

definition b64_char :: "nat \<Rightarrow> char" where
  "b64_char n = b64_url_alphabet ! (n mod 64)"

definition b64_val :: "char \<Rightarrow> nat option" where
  "b64_val c = (let i = index_byte b64_url_alphabet c in if i < 0 then None else Some (nat i))"

fun b64_encode_bytes :: "nat list \<Rightarrow> string" where
  "b64_encode_bytes [] = []"
| "b64_encode_bytes [a] = [b64_char (a div 4), b64_char ((a mod 4) * 16)]"
| "b64_encode_bytes [a, b] =
    [b64_char (a div 4), b64_char ((a mod 4) * 16 + b div 16), b64_char ((b mod 16) * 4)]"
| "b64_encode_bytes (a # b # c # rest) =
    b64_char (a div 4) # b64_char ((a mod 4) * 16 + b div 16) #
    b64_char ((b mod 16) * 4 + c div 64) # b64_char (c mod 64) # b64_encode_bytes rest"

fun b64_decode_vals :: "nat list \<Rightarrow> nat list option" where
  "b64_decode_vals [] = Some []"
| "b64_decode_vals [u] = None"
| "b64_decode_vals [u, v] = Some [u * 4 + v div 16]"
| "b64_decode_vals [u, v, w] = Some [u * 4 + v div 16, (v mod 16) * 16 + w div 4]"
| "b64_decode_vals (u # v # w # x # rest) =
    map_option (\<lambda>bs. (u * 4 + v div 16) # ((v mod 16) * 16 + w div 4) # ((w mod 4) * 64 + x) # bs)
      (b64_decode_vals rest)"

definition byte_of :: "char \<Rightarrow> nat" where
  "byte_of c = of_char c"

definition raw_url_encode :: "string \<Rightarrow> string" where
  "raw_url_encode s = b64_encode_bytes (map byte_of s)"

definition raw_url_decode :: "string \<Rightarrow> string option" where
  "raw_url_decode s =
    (let cs = filter (\<lambda>c. c \<noteq> CHR 0x0A \<and> c \<noteq> CHR 0x0D) s in
     if list_all (\<lambda>c. b64_val c \<noteq> None) cs
     then map_option (map char_of) (b64_decode_vals (map (\<lambda>c. the (b64_val c)) cs))
     else None)"

lemma b64_alphabet_check:
  "list_all (\<lambda>n. b64_val (b64_char n) = Some n
      \<and> b64_char n \<noteq> CHR 0x0A \<and> b64_char n \<noteq> CHR 0x0D \<and> b64_char n \<noteq> CHR ''/'') [0..<64]"
  by code_simp

lemma b64_char_facts:
  assumes "n < 64"
  shows "b64_val (b64_char n) = Some n" "b64_char n \<noteq> CHR 0x0A" "b64_char n \<noteq> CHR 0x0D"
    "b64_char n \<noteq> CHR ''/''"
  using b64_alphabet_check assms by (auto simp: list_all_iff)

lemma byte_of_less [simp]: "byte_of c < 256"
  using of_char_mod_256 [of c, where 'a = nat] by (simp add: byte_of_def)

lemma sextet_bound:
  assumes "m > 0" and "k * m = 64" and "y < (m::nat)"
  shows "x mod k * m + y < 64"
proof -
  have k: "k > 0" using assms(2) by (cases k) auto
  then have "Suc (x mod k) * m \<le> k * m" by (intro mult_le_mono1) (simp add: Suc_le_eq)
  then show ?thesis using assms by simp
qed

lemma sextet_parts:
  assumes "y < (m::nat)"
  shows "(x * m + y) div m = x" "(x * m + y) mod m = y"
  using assms by simp_all

lemma b64_encode_vals:
  assumes "\<forall>b \<in> set bs. b < 256"
  shows "\<exists>vs. (\<forall>v \<in> set vs. v < 64) \<and> b64_encode_bytes bs = map b64_char vs
    \<and> b64_decode_vals vs = Some bs"
  using assms
proof (induction bs rule: b64_encode_bytes.induct)
  case 1
  then show ?case by (intro exI [of _ "[]"]) simp
next
  case (2 a)
  then show ?case
    by (intro exI [of _ "[a div 4, (a mod 4) * 16]"]) auto
next
  case (3 a b)
  have *: "a < 256" "b < 256" using 3 by auto
  have "a mod 4 * 16 + b div 16 < 64" "b mod 16 * 4 + 0 < 64"
    by (rule sextet_bound; use * in simp)+
  moreover have "b div 16 < 16" using * by simp
  note sextet_parts [OF this, of "a mod 4"]
  ultimately show ?case
    using * by (intro exI [of _ "[a div 4, (a mod 4) * 16 + b div 16, (b mod 16) * 4]"]) auto
next
  case (4 a b c rest)
  then obtain vs where vs: "\<forall>v \<in> set vs. v < 64" "b64_encode_bytes rest = map b64_char vs"
      "b64_decode_vals vs = Some rest"
    by auto
  have *: "a < 256" "b < 256" "c < 256" using "4.prems" by auto
  have **: "a mod 4 * 16 + b div 16 < 64" "b mod 16 * 4 + c div 64 < 64"
    by (rule sextet_bound; use * in simp)+
  have "b div 16 < 16" "c div 64 < 4" using * by simp_all
  then have "(a mod 4 * 16 + b div 16) div 16 = a mod 4" "(a mod 4 * 16 + b div 16) mod 16 = b div 16"
    "(b mod 16 * 4 + c div 64) div 4 = b mod 16" "(b mod 16 * 4 + c div 64) mod 4 = c div 64"
    by (simp_all add: sextet_parts)
  moreover have "a div 4 < 64" using * by simp
  ultimately show ?case
    using * ** vs
    by (intro exI [of _ "a div 4 # ((a mod 4) * 16 + b div 16) # ((b mod 16) * 4 + c div 64)
          # (c mod 64) # vs"]) (auto simp: mult.commute)
qed

lemma char_of_byte_of [simp]: "char_of (byte_of c) = c"
  by (simp add: byte_of_def)

lemma raw_url_roundtrip [simp]: "raw_url_decode (raw_url_encode s) = Some s"
proof -
  obtain vs where vs: "\<forall>v \<in> set vs. v < 64"
      "b64_encode_bytes (map byte_of s) = map b64_char vs"
      "b64_decode_vals vs = Some (map byte_of s)"
    using b64_encode_vals [of "map byte_of s"] by auto
  have f: "filter (\<lambda>c. c \<noteq> CHR 0x0A \<and> c \<noteq> CHR 0x0D) (map b64_char vs) = map b64_char vs"
    using vs(1) by (auto simp: filter_id_conv b64_char_facts)
  have g: "map (\<lambda>c. the (b64_val c)) (map b64_char vs) = vs"
    using vs(1) by (simp add: map_idI b64_char_facts)
  have h: "list_all (\<lambda>c. b64_val c \<noteq> None) (map b64_char vs)"
    using vs(1) by (auto simp: list_all_iff b64_char_facts)
  show ?thesis
    using f g h vs(3) by (simp add: raw_url_decode_def raw_url_encode_def vs(2) Let_def map_idI)
qed

lemma raw_url_encode_no_slash: "CHR ''/'' \<notin> set (raw_url_encode s)"
proof -
  obtain vs where "\<forall>v \<in> set vs. v < 64" "raw_url_encode s = map b64_char vs"
    using b64_encode_vals [of "map byte_of s"] by (auto simp: raw_url_encode_def)
  then show ?thesis by (auto dest!: b64_char_facts(4))
qed

end
