(* ===== verification/Go_URL.thy ===== *)
theory Go_URL
  imports Go_Strings
begin

text \<open>
  The part of the Go standard library's \<open>net/url\<close> parser that the gateway
  observes: \<open>url.Parse\<close> reduced to its scheme and host, with every branch on
  which it reports an error (control bytes, a missing scheme, a colon in the
  first path segment, an invalid authority, an invalid percent escape).  The
  fields the gateway does not read (user, raw query, raw path) are not built.
\<close>

definition char_between :: "char \<Rightarrow> char \<Rightarrow> char \<Rightarrow> bool" where
  "char_between lo c hi = (byte_of lo \<le> byte_of c \<and> byte_of c \<le> byte_of hi)"

definition is_alpha :: "char \<Rightarrow> bool" where
  "is_alpha c = (char_between CHR ''a'' c CHR ''z'' \<or> char_between CHR ''A'' c CHR ''Z'')"

definition is_digit :: "char \<Rightarrow> bool" where
  "is_digit c = char_between CHR ''0'' c CHR ''9''"

definition is_hex :: "char \<Rightarrow> bool" where
  "is_hex c = (is_digit c \<or> char_between CHR ''a'' c CHR ''f'' \<or> char_between CHR ''A'' c CHR ''F'')"

definition unhex :: "char \<Rightarrow> nat" where
  "unhex c =
    (if is_digit c then byte_of c - byte_of (CHR ''0'')
     else if char_between CHR ''a'' c CHR ''f'' then byte_of c - byte_of (CHR ''a'') + 10
     else if char_between CHR ''A'' c CHR ''F'' then byte_of c - byte_of (CHR ''A'') + 10
     else 0)"

definition to_lower_byte :: "char \<Rightarrow> char" where
  "to_lower_byte c =
    (if char_between CHR ''A'' c CHR ''Z'' then char_of (byte_of c + 32) else c)"

definition contains_ctl_byte :: "string \<Rightarrow> bool" where
  "contains_ctl_byte s = (\<exists>c \<in> set s. byte_of c < 32 \<or> byte_of c = 127)"

definition scheme_tail_char :: "char \<Rightarrow> bool" where
  "scheme_tail_char c = (is_digit c \<or> c = CHR ''+'' \<or> c = CHR ''-'' \<or> c = CHR ''.'')"

text \<open>\<open>getScheme\<close>: the accumulated prefix (reversed) stands for the loop index.\<close>

fun get_scheme_loop :: "string \<Rightarrow> string \<Rightarrow> string \<Rightarrow> (string \<times> string) option" where
  "get_scheme_loop raw acc [] = Some ('''', raw)"
| "get_scheme_loop raw acc (c # cs) =
    (if is_alpha c then get_scheme_loop raw (c # acc) cs
     else if scheme_tail_char c then
       (if acc = [] then Some ('''', raw) else get_scheme_loop raw (c # acc) cs)
     else if c = CHR '':'' then
       (if acc = [] then None else Some (rev acc, cs))
     else Some ('''', raw))"

definition get_scheme :: "string \<Rightarrow> (string \<times> string) option" where
  "get_scheme raw = get_scheme_loop raw [] raw"

datatype encoding = EncodePath | EncodeHost | EncodeZone | EncodeUserPassword | EncodeFragment

definition host_needs_escape :: "char \<Rightarrow> bool" where
  "host_needs_escape c =
    (\<not> (is_alpha c \<or> is_digit c
        \<or> c \<in> set [CHR ''!'', CHR ''$'', CHR ''&'', CHR 0x27, CHR ''('', CHR '')'', CHR ''*'',
             CHR ''+'', CHR '','', CHR '';'', CHR ''='', CHR '':'', CHR ''['', CHR '']'',
             CHR ''<'', CHR ''>'', CHR 0x22, CHR ''-'', CHR ''_'', CHR ''.'', CHR ''~'']))"

text \<open>\<open>unescape\<close>: the decoded string, or \<open>None\<close> for an \<open>EscapeError\<close> or \<open>InvalidHostError\<close>.\<close>

fun unescape :: "encoding \<Rightarrow> string \<Rightarrow> string option" where
  "unescape m [] = Some []"
| "unescape m (c # cs) =
    (if c = CHR ''%'' then
       (case cs of
          h # l # rest \<Rightarrow>
            (if \<not> (is_hex h \<and> is_hex l) then None
             else if m = EncodeHost \<and> unhex h < 8 \<and> [h, l] \<noteq> ''25'' then None
             else if m = EncodeZone \<and> [h, l] \<noteq> ''25'' \<and> unhex h * 16 + unhex l \<noteq> 32
               \<and> host_needs_escape (char_of (unhex h * 16 + unhex l)) then None
             else map_option (\<lambda>t. char_of (unhex h * 16 + unhex l) # t) (unescape m rest))
        | _ \<Rightarrow> None)
     else if (m = EncodeHost \<or> m = EncodeZone) \<and> byte_of c < 128 \<and> host_needs_escape c then None
     else map_option (\<lambda>t. c # t) (unescape m cs))"

fun last_index_byte :: "string \<Rightarrow> char \<Rightarrow> int" where
  "last_index_byte [] c = -1"
| "last_index_byte (x # xs) c =
    (let i = last_index_byte xs c in if i \<ge> 0 then i + 1 else if x = c then 0 else -1)"

definition valid_optional_port :: "string \<Rightarrow> bool" where
  "valid_optional_port port =
    (case port of [] \<Rightarrow> True | c # ds \<Rightarrow> c = CHR '':'' \<and> list_all is_digit ds)"

subsection \<open>IPv6 literals between brackets (netip.ParseAddr)\<close>

definition ipv4_field_ok :: "string \<Rightarrow> bool" where
  "ipv4_field_ok f =
    (f \<noteq> [] \<and> length f \<le> 3 \<and> list_all is_digit f \<and> (length f > 1 \<longrightarrow> hd f \<noteq> CHR ''0'')
     \<and> foldl (\<lambda>a d. a * 10 + unhex d) 0 f \<le> 255)"

definition ipv4_fields_ok :: "string \<Rightarrow> bool" where
  "ipv4_fields_ok s =
    (let fs = split_byte s CHR ''.'' in length fs = 4 \<and> list_all ipv4_field_ok fs)"

text \<open>The group loop of \<open>parseIPv6\<close>: \<open>i\<close> bytes are filled, \<open>ell\<close> tells whether "::" was seen;
  the first argument is the number of groups the loop may still read.\<close>

fun ipv6_groups :: "nat \<Rightarrow> string \<Rightarrow> nat \<Rightarrow> bool \<Rightarrow> bool" where
  "ipv6_groups 0 s i ell = (s = [] \<and> \<not> ell)"
| "ipv6_groups (Suc n) s i ell =
    (let g = takeWhile is_hex s; rest = dropWhile is_hex s;
         done = (\<lambda>i ell. if i < 16 then ell else \<not> ell) in
     if g = [] \<or> length g > 4 then False
     else if rest \<noteq> [] \<and> hd rest = CHR ''.'' then
       ((ell \<or> i = 12) \<and> i + 4 \<le> 16 \<and> ipv4_fields_ok s \<and> done (i + 4) ell)
     else case rest of
            [] \<Rightarrow> done (i + 2) ell
          | c # t \<Rightarrow>
              (if c \<noteq> CHR '':'' \<or> t = [] then False
               else if hd t = CHR '':'' then
                 (if ell then False
                  else if tl t = [] then done (i + 2) True
                  else ipv6_groups n (tl t) (i + 2) True)
               else ipv6_groups n t (i + 2) ell))"

definition valid_ipv6 :: "string \<Rightarrow> bool" where
  "valid_ipv6 lit =
    (let (s, zone, found) = cut_byte lit CHR ''%'' in
     if \<not> (CHR '':'' \<in> set s) then False
     else if found \<and> zone = [] then False
     else if has_prefix s ''::'' then drop 2 s = [] \<or> ipv6_groups 8 (drop 2 s) 0 True
     else ipv6_groups 8 s 0 False)"

definition parse_bracket_host :: "string \<Rightarrow> int \<Rightarrow> string option" where
  "parse_bracket_host host ob =
    (let cb = last_index_byte host CHR '']'' in
     if cb < 0 then None
     else let colon_port = drop (nat cb + 1) host;
              hostname = drop (nat ob + 1) (take (nat cb) host);
              zone_at = index_str hostname ''%25'' in
       if \<not> valid_optional_port colon_port then None
       else case unescape EncodeHost colon_port of
              None \<Rightarrow> None
            | Some port \<Rightarrow>
                (let name = (if zone_at \<ge> 0
                   then (case unescape EncodeHost (take (nat zone_at) hostname) of
                           None \<Rightarrow> None
                         | Some h \<Rightarrow> map_option (\<lambda>z. h @ z)
                             (unescape EncodeZone (drop (nat zone_at) hostname)))
                   else unescape EncodeHost hostname) in
                 case name of
                   None \<Rightarrow> None
                 | Some n \<Rightarrow> if valid_ipv6 n then Some (''['' @ n @ '']'' @ port) else None))"

definition parse_host :: "string \<Rightarrow> string option" where
  "parse_host host =
    (let ob = last_index_byte host CHR ''[''; i = last_index_byte host CHR '':'' in
     if ob \<ge> 0 then parse_bracket_host host ob
     else if i \<ge> 0 \<and> \<not> valid_optional_port (drop (nat i) host) then None
     else unescape EncodeHost host)"

definition valid_userinfo :: "string \<Rightarrow> bool" where
  "valid_userinfo s =
    list_all (\<lambda>c. is_alpha c \<or> is_digit c
      \<or> c \<in> set [CHR ''-'', CHR ''.'', CHR ''_'', CHR '':'', CHR ''~'', CHR ''!'', CHR ''$'',
           CHR ''&'', CHR 0x27, CHR ''('', CHR '')'', CHR ''*'', CHR ''+'', CHR '','', CHR '';'',
           CHR ''='', CHR ''%'', CHR ''@'']) s"

definition parse_authority :: "string \<Rightarrow> string option" where
  "parse_authority authority =
    (let i = last_index_byte authority CHR ''@'' in
     if i < 0 then parse_host authority
     else case parse_host (drop (nat i + 1) authority) of
            None \<Rightarrow> None
          | Some h \<Rightarrow>
              (let ui = take (nat i) authority; (u, p, has_pw) = cut_byte ui CHR '':'' in
               if \<not> valid_userinfo ui then None
               else if unescape EncodeUserPassword u = None \<or> unescape EncodeUserPassword p = None
               then None else Some h))"

subsection \<open>url.Parse, reduced to scheme and host\<close>

definition url_parse_main :: "string \<Rightarrow> (string \<times> string) option" where
  "url_parse_main raw =
    (if contains_ctl_byte raw then None
     else if raw = ''*'' then Some ('''', '''')
     else case get_scheme raw of
       None \<Rightarrow> None
     | Some (sch, rest0) \<Rightarrow>
         (let scheme = map to_lower_byte sch;
              rest = fst (cut_byte rest0 CHR ''?'') in
          if \<not> has_prefix rest ''/'' \<and> scheme \<noteq> '''' then Some (scheme, '''')
          else if \<not> has_prefix rest ''/'' \<and> CHR '':'' \<in> set (fst (cut_byte rest CHR ''/'')) then None
          else if (scheme \<noteq> '''' \<or> \<not> has_prefix rest ''///'') \<and> has_prefix rest ''//'' then
            (let auth0 = drop 2 rest; i = index_byte auth0 CHR ''/'';
                 authority = (if i \<ge> 0 then take (nat i) auth0 else auth0);
                 path = (if i \<ge> 0 then drop (nat i) auth0 else '''') in
             case parse_authority authority of
               None \<Rightarrow> None
             | Some host \<Rightarrow>
                 if unescape EncodePath path = None then None else Some (scheme, host))
          else if unescape EncodePath rest = None then None
          else Some (scheme, '''')))"

definition url_parse :: "string \<Rightarrow> (string \<times> string) option" where
  "url_parse raw =
    (let (u, frag, found) = cut_byte raw CHR ''#'' in
     case url_parse_main u of
       None \<Rightarrow> None
     | Some r \<Rightarrow> if unescape EncodeFragment frag = None then None else Some r)"

subsection \<open>The scheme of an absolute URL\<close>

definition plain_scheme :: "string \<Rightarrow> bool" where
  "plain_scheme s =
    (s \<noteq> [] \<and> is_alpha (hd s) \<and> list_all (\<lambda>c. is_alpha c \<or> scheme_tail_char c) s)"

lemma get_scheme_loop_append:
  assumes "list_all (\<lambda>c. is_alpha c \<or> scheme_tail_char c) s" and "acc \<noteq> [] \<or> s = [] \<or> is_alpha (hd s)"
  shows "get_scheme_loop raw acc (s @ t) = get_scheme_loop raw (rev s @ acc) t"
  using assms
proof (induction s arbitrary: acc)
  case (Cons c s)
  then show ?case by auto
qed simp

lemma colon_not_scheme_char: "\<not> is_alpha CHR '':''" "\<not> scheme_tail_char CHR '':''"
  by (code_simp, code_simp)

lemma get_scheme_colon:
  assumes "plain_scheme s"
  shows "get_scheme (s @ CHR '':'' # t) = Some (s, t)"
  using assms get_scheme_loop_append [of s "[]" "s @ CHR '':'' # t" "CHR '':'' # t"]
  by (auto simp: get_scheme_def plain_scheme_def colon_not_scheme_char)

lemma url_parse_main_scheme:
  assumes "plain_scheme s" and "url_parse_main (s @ CHR '':'' # t) = Some (sch, h)"
  shows "sch = map to_lower_byte s"
proof -
  have "s @ CHR '':'' # t \<noteq> ''*''"
    using assms(1) by (cases s) (auto simp: plain_scheme_def)
  then show ?thesis
    using assms(2) get_scheme_colon [OF assms(1), of t]
    unfolding url_parse_main_def
    by (auto simp: Let_def split: if_splits option.splits)
qed

lemma hash_not_scheme_char: "\<not> is_alpha CHR ''#''" "\<not> scheme_tail_char CHR ''#''"
  by (code_simp, code_simp)

lemma cut_hash_colon:
  assumes "plain_scheme s"
  shows "\<exists>t'. fst (cut_byte (s @ CHR '':'' # t) CHR ''#'') = s @ CHR '':'' # t'"
proof (cases "CHR ''#'' \<in> set t")
  case True
  then obtain a b where t: "t = a @ CHR ''#'' # b" and "CHR ''#'' \<notin> set a"
    by (meson split_list_first)
  moreover have "CHR ''#'' \<notin> set s"
    using assms hash_not_scheme_char by (auto simp: plain_scheme_def list_all_iff)
  ultimately have "cut_byte ((s @ CHR '':'' # a) @ CHR ''#'' # b) CHR ''#'' = (s @ CHR '':'' # a, b, True)"
    by (intro cut_byte_append) auto
  then show ?thesis by (auto simp: t)
next
  case False
  moreover have "CHR ''#'' \<notin> set s"
    using assms hash_not_scheme_char by (auto simp: plain_scheme_def list_all_iff)
  ultimately have "cut_byte (s @ CHR '':'' # t) CHR ''#'' = (s @ CHR '':'' # t, '''', False)"
    by (intro cut_byte_absent) auto
  then show ?thesis by auto
qed

lemma url_parse_scheme:
  assumes "plain_scheme s" and "url_parse (s @ CHR '':'' # t) = Some (sch, h)"
  shows "sch = map to_lower_byte s"
proof -
  obtain t' where t': "fst (cut_byte (s @ CHR '':'' # t) CHR ''#'') = s @ CHR '':'' # t'"
    using cut_hash_colon [OF assms(1)] by blast
  then have "url_parse_main (s @ CHR '':'' # t') = Some (sch, h)"
    using assms(2) by (auto simp: url_parse_def Let_def split: prod.splits option.splits if_splits)
  then show ?thesis
    by (rule url_parse_main_scheme [OF assms(1)])
qed

end
