(* ===== verification/Namespace.thy ===== *)
theory Namespace
  imports Go_URL
begin

text \<open>
  Package \<open>internal/catalog/namespace\<close>: the qualified names under which the
  gateway publishes the tools, prompts and resources of the downstream
  servers.  Names are split at the first dot, so a valid server id (which has
  no dot and no slash) is recovered from every qualified name; resource URIs
  are rewritten into the gateway's own schemes and restored from them.
\<close>

subsection \<open>Server ids\<close>

definition server_id_head :: "char \<Rightarrow> bool" where
  "server_id_head c = (char_between CHR ''a'' c CHR ''z'' \<or> is_digit c)"

definition server_id_char :: "char \<Rightarrow> bool" where
  "server_id_char c = (server_id_head c \<or> c = CHR ''_'' \<or> c = CHR ''-'')"

text \<open>\<open>ValidateServerID\<close>: the anchored expression [a-z0-9][a-z0-9_-]{0,31}.\<close>

definition ValidateServerID :: "string \<Rightarrow> bool" where
  "ValidateServerID sid =
    (case sid of
       [] \<Rightarrow> False
     | c # cs \<Rightarrow> server_id_head c \<and> length cs \<le> 31 \<and> list_all server_id_char cs)"

subsection \<open>Tool and prompt names\<close>

definition JoinTool :: "string \<Rightarrow> string \<Rightarrow> string" where
  "JoinTool serverID toolName = serverID @ ''.'' @ toolName"

definition SplitTool :: "string \<Rightarrow> (string \<times> string) option" where
  "SplitTool qualified =
    (let i = index_byte qualified CHR ''.'' in
     if i \<le> 0 \<or> i = int (length qualified) - 1 then None
     else Some (take (nat i) qualified, drop (nat i + 1) qualified))"

definition RewritePromptName :: "string \<Rightarrow> string \<Rightarrow> string" where
  "RewritePromptName serverID original = serverID @ ''.'' @ original"

definition RestorePromptName :: "string \<Rightarrow> (string \<times> string) option" where
  "RestorePromptName qualified =
    (let i = index_byte qualified CHR ''.'' in
     if i \<le> 0 \<or> i = int (length qualified) - 1 then None
     else Some (take (nat i) qualified, drop (nat i + 1) qualified))"

subsection \<open>Resource URIs\<close>

definition ResourceScheme :: string where
  "ResourceScheme = ''mcp+server''"

definition UIScheme :: string where
  "UIScheme = ''ui''"

text \<open>The namespaced URI and the sandbox flag.\<close>

definition RewriteResourceURI :: "string \<Rightarrow> string \<Rightarrow> string \<times> bool" where
  "RewriteResourceURI serverID original =
    (if serverID = '''' \<or> original = '''' then (original, False)
     else let parsed = url_parse original in
       if (case parsed of Some (scheme, host) \<Rightarrow> scheme = ResourceScheme | None \<Rightarrow> False)
       then (original, False)
       else if (case parsed of
                  Some (scheme, host) \<Rightarrow> scheme = UIScheme \<and> host \<noteq> '''' \<and> host = serverID
                | None \<Rightarrow> False)
       then (original, True)
       else if has_prefix original ''ui://'' then
         (''ui://'' @ serverID @ ''/'' @ trim_left (trim_prefix original ''ui://'') CHR ''/'', True)
       else if has_prefix original ''file://'' then
         (ResourceScheme @ ''://'' @ serverID @ ''/file/''
            @ trim_left (trim_prefix original ''file://'') CHR ''/'', False)
       else if has_prefix original ''https://'' then
         (ResourceScheme @ ''://'' @ serverID @ ''/https/'' @ trim_prefix original ''https://'', False)
       else if has_prefix original ''http://'' then
         (ResourceScheme @ ''://'' @ serverID @ ''/http/'' @ trim_prefix original ''http://'', False)
       else (ResourceScheme @ ''://'' @ serverID @ ''/raw/'' @ raw_url_encode original, False))"

text \<open>\<open>None\<close> is the source's \<open>ok = false\<close>; the triple is (server, original, isUI).\<close>

definition restore_body :: "string \<Rightarrow> string \<Rightarrow> string option" where
  "restore_body kind body =
    (if kind = ''file'' then Some (''file:///'' @ body)
     else if kind = ''https'' then Some (''https://'' @ body)
     else if kind = ''http'' then Some (''http://'' @ body)
     else if kind = ''raw'' then raw_url_decode body
     else None)"

definition RestoreResourceURI :: "string \<Rightarrow> (string \<times> string \<times> bool) option" where
  "RestoreResourceURI rewritten =
    (if rewritten = '''' then None
     else if has_prefix rewritten ''ui://'' then
       (let rest = trim_prefix rewritten ''ui://''; i = index_byte rest CHR ''/'' in
        if i \<le> 0 then None
        else Some (take (nat i) rest, ''ui://'' @ drop (nat i + 1) rest, True))
     else if has_prefix rewritten (ResourceScheme @ ''://'') then
       (let rest = trim_prefix rewritten (ResourceScheme @ ''://''); i = index_byte rest CHR ''/'' in
        if i \<le> 0 then None
        else let serverID = take (nat i) rest; rest' = drop (nat i + 1) rest;
                 j = index_byte rest' CHR ''/'' in
          if j \<le> 0 then None
          else case restore_body (take (nat j) rest') (drop (nat j + 1) rest') of
                 None \<Rightarrow> None
               | Some original \<Rightarrow> Some (serverID, original, False))
     else None)"

subsection \<open>Name codecs\<close>

text \<open>
  The contract tools and prompts share: joining a well-formed server id with a
  non-empty local name is undone by splitting, and splitting succeeds only on
  joined names.  Clients of the codec obtain injectivity, so two servers never
  publish the same qualified name.
\<close>

locale name_codec =
  fixes valid :: "string \<Rightarrow> bool"
    and join :: "string \<Rightarrow> string \<Rightarrow> string"
    and split :: "string \<Rightarrow> (string \<times> string) option"
  assumes split_join: "valid s \<Longrightarrow> n \<noteq> '''' \<Longrightarrow> split (join s n) = Some (s, n)"
    and split_sound: "split q = Some (s, n) \<Longrightarrow> q = join s n \<and> s \<noteq> '''' \<and> n \<noteq> ''''"
begin

lemma join_inject:
  assumes "valid s" and "valid s'" and "n \<noteq> ''''" and "n' \<noteq> ''''" and "join s n = join s' n'"
  shows "s = s' \<and> n = n'"
proof -
  have "Some (s, n) = Some (s', n')"
    using split_join [OF assms(1,3)] split_join [OF assms(2,4)] by (simp only: assms(5))
  then show ?thesis by simp
qed

lemma servers_disjoint:
  assumes "valid s" and "valid s'" and "s \<noteq> s'" and "'''' \<notin> ns" and "'''' \<notin> ns'"
  shows "join s ` ns \<inter> join s' ` ns' = {}"
proof -
  have "s = s'" if "n \<in> ns" "n' \<in> ns'" "join s n = join s' n'" for n n'
  proof -
    from that(1,2) assms(4,5) have "n \<noteq> ''''" "n' \<noteq> ''''" by blast+
    from join_inject [OF assms(1,2) this that(3)] show ?thesis ..
  qed
  with assms(3) show ?thesis by blast
qed

lemma split_iff:
  assumes "valid s"
  shows "split q = Some (s, n) \<longleftrightarrow> q = join s n \<and> n \<noteq> ''''"
  using assms by (auto simp: split_join dest: split_sound)

end

lemma server_id_char_check:
  "\<not> server_id_char CHR ''.''" "\<not> server_id_char CHR ''/''" "\<not> server_id_char CHR ''|''"
  by (code_simp, code_simp, code_simp)

lemma ValidateServerID_chars:
  assumes "ValidateServerID s"
  shows "s \<noteq> ''''" "CHR ''.'' \<notin> set s" "CHR ''/'' \<notin> set s" "CHR ''|'' \<notin> set s" "length s \<le> 32"
proof -
  have all: "\<forall>c \<in> set s. server_id_char c"
    using assms by (auto simp: ValidateServerID_def server_id_char_def list_all_iff split: list.splits)
  then show "CHR ''.'' \<notin> set s" "CHR ''/'' \<notin> set s" "CHR ''|'' \<notin> set s"
    using server_id_char_check by blast+
  show "s \<noteq> ''''" "length s \<le> 32"
    using assms by (auto simp: ValidateServerID_def split: list.splits)
qed

lemma SplitTool_join:
  "s \<noteq> '''' \<Longrightarrow> CHR ''.'' \<notin> set s \<Longrightarrow> n \<noteq> '''' \<Longrightarrow> SplitTool (JoinTool s n) = Some (s, n)"
  by (auto simp: SplitTool_def JoinTool_def Let_def)

lemma SplitTool_sound:
  assumes "SplitTool q = Some (s, n)"
  shows "q = JoinTool s n" "s \<noteq> ''''" "n \<noteq> ''''" "CHR ''.'' \<notin> set s"
proof -
  define i where "i = index_byte q CHR ''.''"
  have i: "i > 0" "i \<noteq> int (length q) - 1" "s = take (nat i) q" "n = drop (nat i + 1) q"
    using assms by (auto simp: SplitTool_def i_def Let_def split: if_splits)
  have split: "q = take (nat i) q @ CHR ''.'' # drop (nat i + 1) q"
      "CHR ''.'' \<notin> set (take (nat i) q)"
    using index_byte_split [of q "CHR ''.''" i] i(1) by (auto simp: i_def)
  show "q = JoinTool s n" "CHR ''.'' \<notin> set s"
    using split i(3,4) by (simp_all add: JoinTool_def)
  have "i < int (length q)" using index_byte_less by (simp add: i_def)
  then show "s \<noteq> ''''" "n \<noteq> ''''" using i by auto
qed

lemma RestorePromptName_eq_SplitTool: "RestorePromptName = SplitTool"
  by (rule ext) (simp add: RestorePromptName_def SplitTool_def)

lemma RewritePromptName_eq_JoinTool: "RewritePromptName = JoinTool"
  by (intro ext) (simp add: RewritePromptName_def JoinTool_def)

interpretation tool_names: name_codec ValidateServerID JoinTool SplitTool
proof unfold_locales
  fix s n :: string
  assume "ValidateServerID s" "n \<noteq> ''''"
  then show "SplitTool (JoinTool s n) = Some (s, n)"
    by (simp add: SplitTool_join ValidateServerID_chars)
qed (auto dest: SplitTool_sound)

interpretation prompt_names: name_codec ValidateServerID RewritePromptName RestorePromptName
  unfolding RestorePromptName_eq_SplitTool RewritePromptName_eq_JoinTool
  by (rule tool_names.name_codec_axioms)

subsection \<open>Rewriting and restoring URIs\<close>

lemma plain_schemes:
  "plain_scheme ''https''" "plain_scheme ''http''" "plain_scheme ''file''" "plain_scheme ''ui''"
  by (code_simp, code_simp, code_simp, code_simp)

lemma lower_schemes:
  "map to_lower_byte ''https'' = ''https''" "map to_lower_byte ''http'' = ''http''"
  "map to_lower_byte ''file'' = ''file''" "map to_lower_byte ''ui'' = ''ui''"
  by (code_simp, code_simp, code_simp, code_simp)

lemma url_scheme_https: "url_parse (''https://'' @ t) = Some (sch, h) \<Longrightarrow> sch = ''https''"
  using url_parse_scheme [OF plain_schemes(1), of "''//'' @ t"] lower_schemes(1) by simp

lemma url_scheme_http: "url_parse (''http://'' @ t) = Some (sch, h) \<Longrightarrow> sch = ''http''"
  using url_parse_scheme [OF plain_schemes(2), of "''//'' @ t"] lower_schemes(2) by simp

lemma url_scheme_file: "url_parse (''file://'' @ t) = Some (sch, h) \<Longrightarrow> sch = ''file''"
  using url_parse_scheme [OF plain_schemes(3), of "''//'' @ t"] lower_schemes(3) by simp










subsection \<open>Properties\<close>

text \<open>For valid server ids and non-empty local names, splitting undoes joining for tools and
  for prompts, and two qualified names coincide only when server and local name both coincide:
  no downstream server can publish a name that routes to another one.\<close>

theorem qualified_names_round_trip:
  assumes "ValidateServerID s" and "ValidateServerID s'" and "n \<noteq> ''''" and "n' \<noteq> ''''"
  shows "SplitTool (JoinTool s n) = Some (s, n)
    \<and> RestorePromptName (RewritePromptName s n) = Some (s, n)
    \<and> (JoinTool s n = JoinTool s' n' \<longleftrightarrow> s = s' \<and> n = n')
    \<and> (RewritePromptName s n = RewritePromptName s' n' \<longleftrightarrow> s = s' \<and> n = n')"
proof (intro conjI)
  show "SplitTool (JoinTool s n) = Some (s, n)"
    using assms(1,3) by (rule tool_names.split_join)
  show "RestorePromptName (RewritePromptName s n) = Some (s, n)"
    using assms(1,3) by (rule prompt_names.split_join)
  show "JoinTool s n = JoinTool s' n' \<longleftrightarrow> s = s' \<and> n = n'"
    using tool_names.join_inject [OF assms] by blast
  show "RewritePromptName s n = RewritePromptName s' n' \<longleftrightarrow> s = s' \<and> n = n'"
    using prompt_names.join_inject [OF assms] by blast
qed

theorem qualified_names_round_trip_witness:
  "SplitTool (JoinTool ''github'' ''repo.list'') = Some (''github'', ''repo.list'')"
proof -
  have "ValidateServerID ''github''" "ValidateServerID ''fs''"
    by (code_simp, code_simp)
  then show ?thesis
    using qualified_names_round_trip [of "''github''" "''fs''" "''repo.list''" "''repo.list''"] by simp
qed

text \<open>The exclusion is real: a server \<open>docs\<close> that publishes \<open>ui://docs/x\<close> gets its URI back without the host.\<close>

lemma own_host_not_restored:
  "RewriteResourceURI ''docs'' ''ui://docs/x'' = (''ui://docs/x'', True) \<and>
   RestoreResourceURI ''ui://docs/x'' = Some (''docs'', ''ui://x'', True)"
  by (intro conjI; code_simp)



text \<open>Rewriting is not idempotent on every input, although the package comment says so: the
  "already namespaced" test runs through the URL parser, so a namespaced URI that carries an
  invalid percent escape is not recognised and is wrapped a second time.\<close>

theorem rewrite_not_idempotent:
  "\<exists>u. let v = fst (RewriteResourceURI ''docs'' u) in
     RestoreResourceURI v = Some (''docs'', u, False) \<and> fst (RewriteResourceURI ''docs'' v) \<noteq> v"
  by (rule exI [of _ "''https://h/%zz''"]) code_simp

end
