(* ===== verification/Profiles.thy ===== *)
theory Profiles
  imports Namespace
begin

text \<open>
  Package \<open>internal/profiles\<close> without its resolver: the stored agent profile
  (\<open>internal/storage/ifaces/agent_profiles.go\<close>), the resolved profile, the
  entitlement decisions every gating surface calls, the bridge routes and the
  materialised surface.  A Go \<open>*Profile\<close> is an option, \<open>None\<close> being nil.
\<close>

subsection \<open>Data\<close>

record MCPToA2ABridge =
  m2a_MCPTool :: string
  m2a_A2APeer :: string
  m2a_A2ATask :: string

record A2AToMCPBridge =
  a2m_A2ATask :: string
  a2m_MCPTool :: string

record AgentProfile =
  ap_TenantID :: string
  ap_ID :: string
  ap_Name :: string
  ap_Description :: string
  ap_AllowedMCPServers :: "string list"
  ap_AllowedTools :: "string list"
  ap_AllowedSkills :: "string list"
  ap_AllowedModelAliases :: "string list"
  ap_AllowedA2APeers :: "string list"
  ap_AllowedA2ATasks :: "string list"
  ap_MCPToA2ABridges :: "MCPToA2ABridge list"
  ap_A2AToMCPBridges :: "A2AToMCPBridge list"
  ap_Scopes :: "string list"
  ap_PolicyBundleRef :: string
  ap_ParentProfileID :: string
  ap_Enabled :: bool
  ap_CreatedAt :: string
  ap_UpdatedAt :: string

record Profile =
  p_TenantID :: string
  p_ID :: string
  p_Name :: string
  p_AllowedMCPServers :: "string list"
  p_AllowedTools :: "string list"
  p_AllowedSkills :: "string list"
  p_AllowedModelAliases :: "string list"
  p_AllowedA2APeers :: "string list"
  p_AllowedA2ATasks :: "string list"
  p_MCPToA2ABridges :: "MCPToA2ABridge list"
  p_A2AToMCPBridges :: "A2AToMCPBridge list"
  p_Scopes :: "string list"
  p_IsDefault :: bool

definition zero_AgentProfile :: AgentProfile where
  "zero_AgentProfile =
    \<lparr> ap_TenantID = '''', ap_ID = '''', ap_Name = '''', ap_Description = '''',
      ap_AllowedMCPServers = [], ap_AllowedTools = [], ap_AllowedSkills = [],
      ap_AllowedModelAliases = [], ap_AllowedA2APeers = [], ap_AllowedA2ATasks = [],
      ap_MCPToA2ABridges = [], ap_A2AToMCPBridges = [], ap_Scopes = [],
      ap_PolicyBundleRef = '''', ap_ParentProfileID = '''', ap_Enabled = False,
      ap_CreatedAt = '''', ap_UpdatedAt = '''' \<rparr>"

definition fromStore :: "AgentProfile \<Rightarrow> Profile" where
  "fromStore p =
    \<lparr> p_TenantID = ap_TenantID p, p_ID = ap_ID p, p_Name = ap_Name p,
      p_AllowedMCPServers = ap_AllowedMCPServers p, p_AllowedTools = ap_AllowedTools p,
      p_AllowedSkills = ap_AllowedSkills p, p_AllowedModelAliases = ap_AllowedModelAliases p,
      p_AllowedA2APeers = ap_AllowedA2APeers p, p_AllowedA2ATasks = ap_AllowedA2ATasks p,
      p_MCPToA2ABridges = ap_MCPToA2ABridges p, p_A2AToMCPBridges = ap_A2AToMCPBridges p,
      p_Scopes = ap_Scopes p, p_IsDefault = False \<rparr>"

definition DefaultProfile :: "string \<Rightarrow> Profile" where
  "DefaultProfile tenantID =
    \<lparr> p_TenantID = tenantID, p_ID = ''default'', p_Name = ''default'',
      p_AllowedMCPServers = [], p_AllowedTools = [], p_AllowedSkills = [],
      p_AllowedModelAliases = [], p_AllowedA2APeers = [], p_AllowedA2ATasks = [],
      p_MCPToA2ABridges = [], p_A2AToMCPBridges = [], p_Scopes = [], p_IsDefault = True \<rparr>"

subsection \<open>Entitlement decisions\<close>

fun contains :: "string list \<Rightarrow> string \<Rightarrow> bool" where
  "contains [] want = False"
| "contains (s # ss) want = (if s = want then True else contains ss want)"

fun BridgeForMCPTool :: "Profile option \<Rightarrow> string \<Rightarrow> MCPToA2ABridge option" where
  "BridgeForMCPTool None namespacedTool = None"
| "BridgeForMCPTool (Some p) namespacedTool =
    List.find (\<lambda>b. m2a_MCPTool b = namespacedTool) (p_MCPToA2ABridges p)"

fun BridgeForA2ATask :: "Profile option \<Rightarrow> string \<Rightarrow> A2AToMCPBridge option" where
  "BridgeForA2ATask None task = None"
| "BridgeForA2ATask (Some p) task =
    List.find (\<lambda>b. a2m_A2ATask b = task) (p_A2AToMCPBridges p)"

fun AllowsServer :: "Profile option \<Rightarrow> string \<Rightarrow> bool" where
  "AllowsServer None serverName = True"
| "AllowsServer (Some p) serverName =
    (if p_IsDefault p then True else contains (p_AllowedMCPServers p) serverName)"

fun AllowsTool :: "Profile option \<Rightarrow> string \<Rightarrow> bool" where
  "AllowsTool None namespacedTool = True"
| "AllowsTool (Some p) namespacedTool =
    (if p_IsDefault p then True
     else case SplitTool namespacedTool of
       None \<Rightarrow> False
     | Some (serverID, tool) \<Rightarrow>
         if \<not> contains (p_AllowedMCPServers p) serverID then False
         else if length (p_AllowedTools p) = 0 then True
         else contains (p_AllowedTools p) namespacedTool)"

fun AllowsSkill :: "Profile option \<Rightarrow> string \<Rightarrow> bool" where
  "AllowsSkill None skillID = True"
| "AllowsSkill (Some p) skillID =
    (if p_IsDefault p then True else contains (p_AllowedSkills p) skillID)"

fun AllowsAlias :: "Profile option \<Rightarrow> string \<Rightarrow> bool" where
  "AllowsAlias None a = True"
| "AllowsAlias (Some p) a =
    (if p_IsDefault p then True else contains (p_AllowedModelAliases p) a)"

fun AllowsA2APeer :: "Profile option \<Rightarrow> string \<Rightarrow> bool" where
  "AllowsA2APeer None peerName = True"
| "AllowsA2APeer (Some p) peerName =
    (if p_IsDefault p then True else contains (p_AllowedA2APeers p) peerName)"

fun AllowsA2ATask :: "Profile option \<Rightarrow> string \<Rightarrow> bool" where
  "AllowsA2ATask None namespacedTask = True"
| "AllowsA2ATask (Some p) namespacedTask =
    (if p_IsDefault p then True
     else let (peer, task, found) = cut_byte namespacedTask CHR ''.'' in
       if \<not> found then False
       else if \<not> contains (p_AllowedA2APeers p) peer then False
       else if length (p_AllowedA2ATasks p) = 0 then True
       else contains (p_AllowedA2ATasks p) namespacedTask)"

subsection \<open>Materialised surface\<close>

record LiveCatalog =
  live_Servers :: "string list"
  live_Skills :: "string list"
  live_Aliases :: "string list"

record Surface =
  sf_ProfileID :: string
  sf_IsDefault :: bool
  sf_Servers :: "string list"
  sf_Tools :: "string list"
  sf_Skills :: "string list"
  sf_Models :: "string list"

definition filterAllowed :: "string list \<Rightarrow> (string \<Rightarrow> bool) \<Rightarrow> string list" where
  "filterAllowed items allow = foldl (\<lambda>out it. if allow it then out @ [it] else out) [] items"

fun materializeTools :: "Profile option \<Rightarrow> string list" where
  "materializeTools None = []"
| "materializeTools (Some p) =
    (if length (p_AllowedTools p) = 0 then []
     else foldl (\<lambda>out t. if AllowsTool (Some p) t then out @ [t] else out) [] (p_AllowedTools p))"

definition Materialize :: "Profile option \<Rightarrow> LiveCatalog \<Rightarrow> Surface" where
  "Materialize p live =
    \<lparr> sf_ProfileID = (case p of None \<Rightarrow> '''' | Some q \<Rightarrow> p_ID q),
      sf_IsDefault = (case p of None \<Rightarrow> False | Some q \<Rightarrow> p_IsDefault q),
      sf_Servers = filterAllowed (live_Servers live) (AllowsServer p),
      sf_Tools = materializeTools p,
      sf_Skills = filterAllowed (live_Skills live) (AllowsSkill p),
      sf_Models = filterAllowed (live_Aliases live) (AllowsAlias p) \<rparr>"

subsection \<open>Characterisations\<close>

lemma contains_iff [simp, gate_simps]: "contains ss w \<longleftrightarrow> w \<in> set ss"
  by (induction ss) auto

lemma foldl_filter_append:
  "foldl (\<lambda>out it. if P it then out @ [it] else out) acc xs = acc @ filter P xs"
  by (induction xs arbitrary: acc) auto

lemma filterAllowed_eq [simp]: "filterAllowed items allow = filter allow items"
  by (simp add: filterAllowed_def foldl_filter_append)

lemma materializeTools_eq:
  "materializeTools (Some p) = filter (AllowsTool (Some p)) (p_AllowedTools p)"
  by (simp add: foldl_filter_append del: AllowsTool.simps)

definition restrictive :: "Profile option \<Rightarrow> bool" where
  "restrictive p = (case p of None \<Rightarrow> False | Some q \<Rightarrow> \<not> p_IsDefault q)"

lemma default_not_restrictive [simp]: "\<not> restrictive (Some (DefaultProfile t))"
  by (simp add: restrictive_def DefaultProfile_def)

lemma fromStore_restrictive [simp]: "restrictive (Some (fromStore ap))"
  by (simp add: restrictive_def fromStore_def)

lemma unrestricted_allows:
  assumes "\<not> restrictive p"
  shows "AllowsServer p x" "AllowsTool p x" "AllowsSkill p x" "AllowsAlias p x"
    "AllowsA2APeer p x" "AllowsA2ATask p x"
  using assms by (cases p; simp add: restrictive_def)+

lemma AllowsTool_restrictive:
  assumes "\<not> p_IsDefault p"
  shows "AllowsTool (Some p) q \<longleftrightarrow>
    (\<exists>s t. SplitTool q = Some (s, t) \<and> s \<in> set (p_AllowedMCPServers p)
       \<and> (p_AllowedTools p = [] \<or> q \<in> set (p_AllowedTools p)))"
  using assms by (auto split: option.splits)

lemma AllowsTool_imp_AllowsServer:
  assumes "AllowsTool p q" and "SplitTool q = Some (s, t)"
  shows "AllowsServer p s"
  using assms by (cases p) (auto split: if_splits)

lemma cut_byte_found: "cut_byte q c = (a, b, True) \<Longrightarrow> q = a @ c # b \<and> c \<notin> set a"
  using index_byte_split [of q c "index_byte q c"] by (auto simp: cut_byte_def Let_def split: if_splits)

lemma AllowsA2ATask_restrictive:
  assumes "\<not> p_IsDefault p"
  shows "AllowsA2ATask (Some p) q \<longleftrightarrow>
    (\<exists>a b. q = a @ ''.'' @ b \<and> CHR ''.'' \<notin> set a \<and> a \<in> set (p_AllowedA2APeers p)
       \<and> (p_AllowedA2ATasks p = [] \<or> q \<in> set (p_AllowedA2ATasks p)))"
proof (cases "CHR ''.'' \<in> set q")
  case True
  then obtain a b where q: "q = a @ CHR ''.'' # b" "CHR ''.'' \<notin> set a"
    by (meson split_list_first)
  have uniq: "a' = a" if "q = a' @ CHR ''.'' # b'" "CHR ''.'' \<notin> set a'" for a' b'
  proof -
    have "(a', b', True) = cut_byte q CHR ''.''"
      unfolding that(1) by (rule cut_byte_append [OF that(2), symmetric])
    also have "\<dots> = (a, b, True)"
      unfolding q(1) by (rule cut_byte_append [OF q(2)])
    finally show ?thesis by simp
  qed
  have "cut_byte q CHR ''.'' = (a, b, True)"
    using q by simp
  then have "AllowsA2ATask (Some p) q \<longleftrightarrow> a \<in> set (p_AllowedA2APeers p)
      \<and> (p_AllowedA2ATasks p = [] \<or> q \<in> set (p_AllowedA2ATasks p))"
    using assms by (auto simp: Let_def)
  also have "\<dots> \<longleftrightarrow> (\<exists>a b. q = a @ ''.'' @ b \<and> CHR ''.'' \<notin> set a \<and> a \<in> set (p_AllowedA2APeers p)
       \<and> (p_AllowedA2ATasks p = [] \<or> q \<in> set (p_AllowedA2ATasks p)))"
    using q uniq by (metis append_Cons append_Nil)
  finally show ?thesis .
next
  case False
  then show ?thesis using assms by (auto simp: Let_def)
qed

subsection \<open>Gates\<close>

text \<open>
  What every gating surface relies on: a decision function over optional
  profiles that admits everything when no restrictive profile is present and
  whose admissions under a restrictive profile are confined to the listed
  items.  The contract is interpreted on the five list-shaped decisions; its
  client fact is that materialising a surface is exact: an item is shown if and
  only if it is live and would be admitted.
\<close>

locale allow_gate =
  fixes allows :: "Profile option \<Rightarrow> string \<Rightarrow> bool"
    and listed :: "Profile \<Rightarrow> string list"
  assumes open_gate: "\<not> restrictive p \<Longrightarrow> allows p x"
    and closed_gate: "\<not> p_IsDefault q \<Longrightarrow> allows (Some q) x \<longleftrightarrow> x \<in> set (listed q)"
begin

lemma filter_exact:
  "x \<in> set (filterAllowed items (allows p)) \<longleftrightarrow> x \<in> set items \<and> allows p x"
  by auto

lemma filter_full: "\<not> restrictive p \<Longrightarrow> filterAllowed items (allows p) = items"
  by (auto simp: open_gate filter_id_conv)

lemma filter_restricted:
  "\<not> p_IsDefault p \<Longrightarrow>
    filterAllowed items (allows (Some p)) = filter (\<lambda>x. x \<in> set (listed p)) items"
  by (auto simp: closed_gate intro: filter_cong)

lemma empty_list_denies: "\<not> p_IsDefault p \<Longrightarrow> listed p = [] \<Longrightarrow> \<not> allows (Some p) x"
  by (simp add: closed_gate)

end

interpretation server_gate: allow_gate AllowsServer p_AllowedMCPServers
  by unfold_locales (auto simp: unrestricted_allows)

interpretation skill_gate: allow_gate AllowsSkill p_AllowedSkills
  by unfold_locales (auto simp: unrestricted_allows)

interpretation alias_gate: allow_gate AllowsAlias p_AllowedModelAliases
  by unfold_locales (auto simp: unrestricted_allows)

interpretation peer_gate: allow_gate AllowsA2APeer p_AllowedA2APeers
  by unfold_locales (auto simp: unrestricted_allows)

subsection \<open>Properties\<close>

text \<open>Under a restrictive profile a qualified tool is admitted exactly when its server is listed
  and the tool list is empty or names it, and every admitted tool's server is itself admitted.\<close>

theorem profile_tool_entitlement:
  assumes "\<not> p_IsDefault p" and "ValidateServerID s" and "t \<noteq> ''''"
  shows "(AllowsTool (Some p) (JoinTool s t) \<longleftrightarrow>
      AllowsServer (Some p) s \<and> (p_AllowedTools p = [] \<or> JoinTool s t \<in> set (p_AllowedTools p)))
    \<and> (\<forall>q. SplitTool q = None \<longrightarrow> \<not> AllowsTool (Some p) q)"
  using assms tool_names.split_join [OF assms(2,3)]
  by (auto simp: AllowsTool_restrictive server_gate.closed_gate)

theorem profile_tool_entitlement_witness:
  "AllowsTool (Some ((DefaultProfile ''acme'') \<lparr> p_IsDefault := False, p_AllowedMCPServers := [''github''] \<rparr>))
     (JoinTool ''github'' ''repo.list'')"
proof -
  have "ValidateServerID ''github''" by code_simp
  then show ?thesis
    using profile_tool_entitlement [of "(DefaultProfile ''acme'') \<lparr> p_IsDefault := False,
        p_AllowedMCPServers := [''github''] \<rparr>" "''github''" "''repo.list''"]
    by (simp add: DefaultProfile_def)
qed

text \<open>The materialised surface is exact.  It shows a server, skill or model if and only if it is
  live and the corresponding decision admits it, shows only declared tools the tool decision admits,
  and is the whole live catalogue when no restrictive profile applies.\<close>

theorem surface_is_exact:
  "(x \<in> set (sf_Servers (Materialize p live)) \<longleftrightarrow> x \<in> set (live_Servers live) \<and> AllowsServer p x)
   \<and> (y \<in> set (sf_Skills (Materialize p live)) \<longleftrightarrow> y \<in> set (live_Skills live) \<and> AllowsSkill p y)
   \<and> (z \<in> set (sf_Models (Materialize p live)) \<longleftrightarrow> z \<in> set (live_Aliases live) \<and> AllowsAlias p z)
   \<and> (t \<in> set (sf_Tools (Materialize p live)) \<longleftrightarrow>
        (\<exists>q. p = Some q \<and> t \<in> set (p_AllowedTools q)) \<and> AllowsTool p t)"
proof (intro conjI)
  show "x \<in> set (sf_Servers (Materialize p live)) \<longleftrightarrow> x \<in> set (live_Servers live) \<and> AllowsServer p x"
    unfolding Materialize_def by (simp only: Surface.simps server_gate.filter_exact)
  show "y \<in> set (sf_Skills (Materialize p live)) \<longleftrightarrow> y \<in> set (live_Skills live) \<and> AllowsSkill p y"
    unfolding Materialize_def by (simp only: Surface.simps skill_gate.filter_exact)
  show "z \<in> set (sf_Models (Materialize p live)) \<longleftrightarrow> z \<in> set (live_Aliases live) \<and> AllowsAlias p z"
    unfolding Materialize_def by (simp only: Surface.simps alias_gate.filter_exact)
  show "t \<in> set (sf_Tools (Materialize p live)) \<longleftrightarrow>
      (\<exists>q. p = Some q \<and> t \<in> set (p_AllowedTools q)) \<and> AllowsTool p t"
  proof (cases p)
    case (Some q)
    then show ?thesis
      unfolding Materialize_def
      by (simp add: materializeTools_eq del: AllowsTool.simps materializeTools.simps)
  qed (simp add: Materialize_def)
qed

text \<open>A stored profile with an empty A2A peer list admits no peer at all, although the field's
  comment in the storage interface reads "empty = all peers".\<close>

theorem empty_peer_list_denies_all:
  "ap_AllowedA2APeers ap = [] \<Longrightarrow> \<not> AllowsA2APeer (Some (fromStore ap)) peer"
  by (rule peer_gate.empty_list_denies) (simp_all add: fromStore_def)

theorem empty_peer_list_denies_all_witness:
  "\<not> AllowsA2APeer (Some (fromStore (zero_AgentProfile \<lparr> ap_ID := ''p1'' \<rparr>))) ''planner''"
  by (rule empty_peer_list_denies_all) (simp add: zero_AgentProfile_def)

end
