(* ===== verification/Sql_Tables.thy ===== *)
theory Sql_Tables
  imports Prelude
begin

text \<open>
  What the SQLite stores share: the errors they return, and the join tables
  that hold allowlists as rows (table, tenant, owner, item) with all columns
  in the primary key.  \<open>replaceAllowlist\<close> of the profile store and
  \<open>replaceVKAllowlist\<close> of the governance store are the same routine.
\<close>

datatype store_error = ErrNotFound | ErrArgs | ErrSQL

type_synonym 'tb allow_row = "'tb \<times> string \<times> string \<times> string"

text \<open>The insert loop of \<open>replaceAllowlist\<close>: empty items are skipped, a repeated item violates the
  primary key of the table.\<close>

fun insert_items ::
  "'tb \<Rightarrow> string \<Rightarrow> string \<Rightarrow> string list \<Rightarrow> 'tb allow_row list \<Rightarrow> (store_error, 'tb allow_row list) result"
where
  "insert_items tbl t p [] rows = Inr rows"
| "insert_items tbl t p (item # items) rows =
    (if item = '''' then insert_items tbl t p items rows
     else if (tbl, t, p, item) \<in> set rows then Inl ErrSQL
     else insert_items tbl t p items (rows @ [(tbl, t, p, item)]))"

definition replaceAllowlist ::
  "'tb \<Rightarrow> string \<Rightarrow> string \<Rightarrow> string list \<Rightarrow> 'tb allow_row list \<Rightarrow> (store_error, 'tb allow_row list) result"
where
  "replaceAllowlist tbl t p items rows =
    insert_items tbl t p items
      (filter (\<lambda>(tb, t', p', item). \<not> (tb = tbl \<and> t' = t \<and> p' = p)) rows)"

fun replace_all ::
  "string \<Rightarrow> string \<Rightarrow> ('tb \<times> string list) list \<Rightarrow> 'tb allow_row list \<Rightarrow> (store_error, 'tb allow_row list) result"
where
  "replace_all t p [] rows = Inr rows"
| "replace_all t p ((tbl, items) # als) rows =
    res_bind (replaceAllowlist tbl t p items rows) (replace_all t p als)"

subsection \<open>What the replacement leaves behind\<close>

definition slice :: "'tb \<Rightarrow> string \<Rightarrow> string \<Rightarrow> 'tb allow_row list \<Rightarrow> string list" where
  "slice tbl t p rows =
    map (\<lambda>(tb, t', p', item). item) (filter (\<lambda>(tb, t', p', item). tb = tbl \<and> t' = t \<and> p' = p) rows)"

lemma slice_append [simp]: "slice tbl t p (xs @ ys) = slice tbl t p xs @ slice tbl t p ys"
  by (simp add: slice_def)

lemma insert_items_rows:
  "insert_items tbl t p items rows = Inr rows' \<Longrightarrow>
    rows' = rows @ map (\<lambda>i. (tbl, t, p, i)) (filter (\<lambda>i. i \<noteq> '''') items)"
  by (induction tbl t p items rows rule: insert_items.induct) (auto split: if_splits)

lemma slice_inserted:
  "slice tbl' t' p' (map (\<lambda>i. (tbl, t, p, i)) items) =
    (if tbl' = tbl \<and> t' = t \<and> p' = p then items else [])"
  by (induction items) (auto simp: slice_def)

lemma slice_removed:
  "slice tbl' t' p' (filter (\<lambda>(tb, t0, p0, item). \<not> (tb = tbl \<and> t0 = t \<and> p0 = p)) rows) =
    (if tbl' = tbl \<and> t' = t \<and> p' = p then [] else slice tbl' t' p' rows)"
  by (induction rows) (auto simp: slice_def)

lemma replaceAllowlist_slice:
  "replaceAllowlist tbl t p items rows = Inr rows' \<Longrightarrow>
    slice tbl' t' p' rows' =
      (if tbl' = tbl \<and> t' = t \<and> p' = p then filter (\<lambda>i. i \<noteq> '''') items else slice tbl' t' p' rows)"
  unfolding replaceAllowlist_def
  by (drule insert_items_rows, simp only: slice_append slice_inserted slice_removed) simp

lemma replace_all_slice:
  assumes "replace_all t p als rows = Inr rows'" and "distinct (map fst als)"
  shows "slice tbl t' p' rows' =
    (case map_of als tbl of
       Some items \<Rightarrow> if t' = t \<and> p' = p then filter (\<lambda>i. i \<noteq> '''') items else slice tbl t' p' rows
     | None \<Rightarrow> slice tbl t' p' rows)"
  using assms
proof (induction t p als rows rule: replace_all.induct)
  case (2 t p tb items als rows)
  then obtain rows1 where r1: "replaceAllowlist tb t p items rows = Inr rows1"
      "replace_all t p als rows1 = Inr rows'"
    by auto
  have "map_of als tb = None"
    using "2.prems"(2) by (auto simp: map_of_eq_None_iff)
  then show ?case
    using "2.IH" [OF r1(2)] "2.prems"(2) replaceAllowlist_slice [OF r1(1)]
    by (auto split: option.splits)
qed simp

end
