(* ===== verification/Profile_Store.thy ===== *)
theory Profile_Store
  imports Profiles Sql_Tables
begin

text \<open>
  \<open>internal/storage/sqlite/agent_profile_store.go\<close>: the tables of migrations
  0020, 0025 and 0026 as lists of rows, and every store method as a function on
  them.  A transaction that fails leaves the tables as they were.  The column
  \<open>scopes\<close> holds the list itself (the JSON text is written and read by the same
  codec).  \<open>db_fault\<close> stands for a connection on which every statement fails.
  \<open>db_fk\<close> is the connection's \<open>PRAGMA foreign_keys\<close>, which SQLite keeps per
  connection and which only the text of migration 1 switches on, so a database
  that is opened again runs with it off (\<open>runMigrations\<close>).
\<close>

datatype allow_table =
  T_mcp_servers | T_tools | T_skills | T_models | T_a2a_peers | T_a2a_tasks

record profile_row =
  r_tenant :: string
  r_id :: string
  r_name :: string
  r_description :: string
  r_scopes :: "string list"
  r_policy_bundle_ref :: string
  r_parent_profile_id :: string
  r_enabled :: bool
  r_created_at :: string
  r_updated_at :: string

record profile_db =
  db_fault :: bool
  db_fk :: bool
  t_profiles :: "profile_row list"
  t_allow :: "allow_table allow_row list"
  t_m2a :: "(string \<times> string \<times> MCPToA2ABridge) list"
  t_a2m :: "(string \<times> string \<times> A2AToMCPBridge) list"
  t_bindings :: "((string \<times> string) \<times> string) list"

text \<open>\<open>Open\<close> and \<open>runMigrations\<close> as far as the pragma goes: the migrations already recorded in the
  file are skipped, and with migration 1 the statement that switches foreign keys on.\<close>

definition runMigrations_fk :: "nat list \<Rightarrow> bool" where
  "runMigrations_fk applied = (1 \<notin> set applied)"

subsection \<open>Reading\<close>

definition loadStringSlice :: "profile_db \<Rightarrow> allow_table \<Rightarrow> string \<Rightarrow> string \<Rightarrow> string list" where
  "loadStringSlice db tbl tenantID profileID =
    sort (map (\<lambda>(tb, t, p, item). item)
      (filter (\<lambda>(tb, t, p, item). tb = tbl \<and> t = tenantID \<and> p = profileID) (t_allow db)))"

definition loadMCPToA2ABridges :: "profile_db \<Rightarrow> string \<Rightarrow> string \<Rightarrow> MCPToA2ABridge list" where
  "loadMCPToA2ABridges db tenantID profileID =
    sort_key m2a_MCPTool (map (\<lambda>(t, p, b). b)
      (filter (\<lambda>(t, p, b). t = tenantID \<and> p = profileID) (t_m2a db)))"

definition loadA2AToMCPBridges :: "profile_db \<Rightarrow> string \<Rightarrow> string \<Rightarrow> A2AToMCPBridge list" where
  "loadA2AToMCPBridges db tenantID profileID =
    sort_key a2m_A2ATask (map (\<lambda>(t, p, b). b)
      (filter (\<lambda>(t, p, b). t = tenantID \<and> p = profileID) (t_a2m db)))"

definition scanProfile :: "profile_row \<Rightarrow> AgentProfile" where
  "scanProfile r = zero_AgentProfile
    \<lparr> ap_TenantID := r_tenant r, ap_ID := r_id r, ap_Name := r_name r,
      ap_Description := r_description r, ap_Scopes := r_scopes r,
      ap_PolicyBundleRef := r_policy_bundle_ref r, ap_ParentProfileID := r_parent_profile_id r,
      ap_Enabled := r_enabled r, ap_CreatedAt := r_created_at r, ap_UpdatedAt := r_updated_at r \<rparr>"

definition loadAllowlists :: "profile_db \<Rightarrow> AgentProfile \<Rightarrow> AgentProfile" where
  "loadAllowlists db p = p
    \<lparr> ap_AllowedMCPServers := loadStringSlice db T_mcp_servers (ap_TenantID p) (ap_ID p),
      ap_AllowedTools := loadStringSlice db T_tools (ap_TenantID p) (ap_ID p),
      ap_AllowedSkills := loadStringSlice db T_skills (ap_TenantID p) (ap_ID p),
      ap_AllowedModelAliases := loadStringSlice db T_models (ap_TenantID p) (ap_ID p),
      ap_AllowedA2APeers := loadStringSlice db T_a2a_peers (ap_TenantID p) (ap_ID p),
      ap_AllowedA2ATasks := loadStringSlice db T_a2a_tasks (ap_TenantID p) (ap_ID p),
      ap_MCPToA2ABridges := loadMCPToA2ABridges db (ap_TenantID p) (ap_ID p),
      ap_A2AToMCPBridges := loadA2AToMCPBridges db (ap_TenantID p) (ap_ID p) \<rparr>"

definition find_profile_row :: "profile_db \<Rightarrow> string \<Rightarrow> string \<Rightarrow> profile_row option" where
  "find_profile_row db t i = List.find (\<lambda>r. r_tenant r = t \<and> r_id r = i) (t_profiles db)"

definition store_Get :: "profile_db \<Rightarrow> string \<Rightarrow> string \<Rightarrow> (store_error, AgentProfile) result" where
  "store_Get db tenantID i =
    (if tenantID = '''' \<or> i = '''' then Inl ErrArgs
     else if db_fault db then Inl ErrSQL
     else case find_profile_row db tenantID i of
            None \<Rightarrow> Inl ErrNotFound
          | Some r \<Rightarrow> Inr (loadAllowlists db (scanProfile r)))"

definition store_List :: "profile_db \<Rightarrow> string \<Rightarrow> (store_error, AgentProfile list) result" where
  "store_List db tenantID =
    (if tenantID = '''' then Inl ErrArgs
     else if db_fault db then Inl ErrSQL
     else Inr (map (\<lambda>r. loadAllowlists db (scanProfile r))
            (sort_key r_name (filter (\<lambda>r. r_tenant r = tenantID) (t_profiles db)))))"

subsection \<open>Writing\<close>

definition m2a_complete :: "MCPToA2ABridge \<Rightarrow> bool" where
  "m2a_complete b = (m2a_MCPTool b \<noteq> '''' \<and> m2a_A2APeer b \<noteq> '''' \<and> m2a_A2ATask b \<noteq> '''')"

definition a2m_complete :: "A2AToMCPBridge \<Rightarrow> bool" where
  "a2m_complete b = (a2m_A2ATask b \<noteq> '''' \<and> a2m_MCPTool b \<noteq> '''')"

text \<open>\<open>replaceBridges\<close> for one direction: \<open>key\<close> is the primary-key column beside tenant and profile.\<close>

fun insert_bridges ::
  "('b \<Rightarrow> bool) \<Rightarrow> ('b \<Rightarrow> string) \<Rightarrow> string \<Rightarrow> string \<Rightarrow> 'b list \<Rightarrow> (string \<times> string \<times> 'b) list
    \<Rightarrow> (store_error, (string \<times> string \<times> 'b) list) result"
where
  "insert_bridges ok key t p [] rows = Inr rows"
| "insert_bridges ok key t p (b # bs) rows =
    (if \<not> ok b then insert_bridges ok key t p bs rows
     else if (\<exists>(t', p', b') \<in> set rows. t' = t \<and> p' = p \<and> key b' = key b) then Inl ErrSQL
     else insert_bridges ok key t p bs (rows @ [(t, p, b)]))"

definition replaceBridges ::
  "('b \<Rightarrow> bool) \<Rightarrow> ('b \<Rightarrow> string) \<Rightarrow> string \<Rightarrow> string \<Rightarrow> 'b list \<Rightarrow> (string \<times> string \<times> 'b) list
    \<Rightarrow> (store_error, (string \<times> string \<times> 'b) list) result"
where
  "replaceBridges ok key t p bs rows =
    insert_bridges ok key t p bs (filter (\<lambda>(t', p', b). \<not> (t' = t \<and> p' = p)) rows)"

definition upsert_row :: "profile_row \<Rightarrow> profile_row list \<Rightarrow> profile_row list" where
  "upsert_row new rows =
    (if (\<exists>r \<in> set rows. r_tenant r = r_tenant new \<and> r_id r = r_id new)
     then map (\<lambda>r. if r_tenant r = r_tenant new \<and> r_id r = r_id new
                   then new \<lparr> r_created_at := r_created_at r \<rparr> else r) rows
     else rows @ [new])"

definition name_taken :: "profile_row \<Rightarrow> profile_row list \<Rightarrow> bool" where
  "name_taken new rows =
    (\<exists>r \<in> set rows. r_tenant r = r_tenant new \<and> r_name r = r_name new \<and> r_id r \<noteq> r_id new)"

definition profile_row_of :: "string \<Rightarrow> string \<Rightarrow> AgentProfile \<Rightarrow> profile_row" where
  "profile_row_of createdAt now p =
    \<lparr> r_tenant = ap_TenantID p, r_id = ap_ID p, r_name = ap_Name p,
      r_description = ap_Description p, r_scopes = ap_Scopes p,
      r_policy_bundle_ref = ap_PolicyBundleRef p, r_parent_profile_id = ap_ParentProfileID p,
      r_enabled = ap_Enabled p, r_created_at = createdAt, r_updated_at = now \<rparr>"

text \<open>The six (table, column) pairs of \<open>Put\<close>, folded in order.\<close>

definition profile_allowlists :: "AgentProfile \<Rightarrow> (allow_table \<times> string list) list" where
  "profile_allowlists p =
    [(T_mcp_servers, ap_AllowedMCPServers p), (T_tools, ap_AllowedTools p),
     (T_skills, ap_AllowedSkills p), (T_models, ap_AllowedModelAliases p),
     (T_a2a_peers, ap_AllowedA2APeers p), (T_a2a_tasks, ap_AllowedA2ATasks p)]"

text \<open>The creation time \<open>Put\<close> sends: that of the existing row, if it has one.\<close>

definition createdAt_for :: "string \<Rightarrow> AgentProfile \<Rightarrow> profile_db \<Rightarrow> string" where
  "createdAt_for now p db =
    (let existingCreatedAt = (case find_profile_row db (ap_TenantID p) (ap_ID p) of
           None \<Rightarrow> '''' | Some r \<Rightarrow> r_created_at r) in
     if existingCreatedAt \<noteq> '''' then existingCreatedAt else now)"

definition store_Put ::
  "string \<Rightarrow> AgentProfile option \<Rightarrow> profile_db \<Rightarrow> (store_error, profile_db) result"
where
  "store_Put now po db =
    (case po of
       None \<Rightarrow> Inl ErrArgs
     | Some p \<Rightarrow>
        if ap_TenantID p = '''' \<or> ap_ID p = '''' \<or> ap_Name p = '''' then Inl ErrArgs
        else if db_fault db then Inl ErrSQL
        else
          let new = profile_row_of (createdAt_for now p db) now p in
          if name_taken new (t_profiles db) then Inl ErrSQL
          else res_bind (replace_all (ap_TenantID p) (ap_ID p) (profile_allowlists p) (t_allow db)) (\<lambda>al.
               res_bind (replaceBridges m2a_complete m2a_MCPTool (ap_TenantID p) (ap_ID p)
                 (ap_MCPToA2ABridges p) (t_m2a db)) (\<lambda>m2a.
               res_bind (replaceBridges a2m_complete a2m_A2ATask (ap_TenantID p) (ap_ID p)
                 (ap_A2AToMCPBridges p) (t_a2m db)) (\<lambda>a2m.
               Inr (db \<lparr> t_profiles := upsert_row new (t_profiles db), t_allow := al,
                         t_m2a := m2a, t_a2m := a2m \<rparr>)))))"

text \<open>The referential actions of the schema, which run only with foreign keys on.\<close>

definition cascade_profile :: "string \<Rightarrow> string \<Rightarrow> profile_db \<Rightarrow> profile_db" where
  "cascade_profile t i db =
    (if \<not> db_fk db then db
     else db \<lparr> t_allow := filter (\<lambda>(tb, t', p', item). \<not> (t' = t \<and> p' = i)) (t_allow db),
               t_m2a := filter (\<lambda>(t', p', b). \<not> (t' = t \<and> p' = i)) (t_m2a db),
               t_a2m := filter (\<lambda>(t', p', b). \<not> (t' = t \<and> p' = i)) (t_a2m db),
               t_bindings := filter (\<lambda>((t', sub), p'). \<not> (t' = t \<and> p' = i)) (t_bindings db) \<rparr>)"

definition store_Delete :: "string \<Rightarrow> string \<Rightarrow> profile_db \<Rightarrow> (store_error, profile_db) result" where
  "store_Delete tenantID i db =
    (if tenantID = '''' \<or> i = '''' then Inl ErrArgs
     else if db_fault db then Inl ErrSQL
     else if find_profile_row db tenantID i = None then Inl ErrNotFound
     else Inr (cascade_profile tenantID i
            (db \<lparr> t_profiles := filter (\<lambda>r. \<not> (r_tenant r = tenantID \<and> r_id r = i)) (t_profiles db) \<rparr>)))"

definition store_PutJWTBinding ::
  "string \<Rightarrow> string \<Rightarrow> string \<Rightarrow> profile_db \<Rightarrow> (store_error, profile_db) result"
where
  "store_PutJWTBinding tenantID jwtSub profileID db =
    (if tenantID = '''' \<or> jwtSub = '''' \<or> profileID = '''' then Inl ErrArgs
     else if db_fault db then Inl ErrSQL
     else if db_fk db \<and> find_profile_row db tenantID profileID = None then Inl ErrSQL
     else Inr (db \<lparr> t_bindings := aput (tenantID, jwtSub) profileID (t_bindings db) \<rparr>))"

definition store_DeleteJWTBinding ::
  "string \<Rightarrow> string \<Rightarrow> profile_db \<Rightarrow> (store_error, profile_db) result"
where
  "store_DeleteJWTBinding tenantID jwtSub db =
    (if tenantID = '''' \<or> jwtSub = '''' then Inl ErrArgs
     else if db_fault db then Inl ErrSQL
     else Inr (db \<lparr> t_bindings := adel (tenantID, jwtSub) (t_bindings db) \<rparr>))"

definition store_ResolveJWTBinding ::
  "profile_db \<Rightarrow> string \<Rightarrow> string \<Rightarrow> (store_error, AgentProfile) result"
where
  "store_ResolveJWTBinding db tenantID jwtSub =
    (if tenantID = '''' \<or> jwtSub = '''' then Inl ErrNotFound
     else if db_fault db then Inl ErrSQL
     else case aget (t_bindings db) (tenantID, jwtSub) of
            None \<Rightarrow> Inl ErrNotFound
          | Some profileID \<Rightarrow> store_Get db tenantID profileID)"

subsection \<open>What a successful write leaves in the tables\<close>

definition bridge_slice :: "string \<Rightarrow> string \<Rightarrow> (string \<times> string \<times> 'b) list \<Rightarrow> 'b list" where
  "bridge_slice t p rows = map (\<lambda>(t', p', b). b) (filter (\<lambda>(t', p', b). t' = t \<and> p' = p) rows)"

lemma loadStringSlice_slice: "loadStringSlice db tbl t p = sort (slice tbl t p (t_allow db))"
  by (simp add: loadStringSlice_def slice_def)

lemma loadMCPToA2ABridges_slice:
  "loadMCPToA2ABridges db t p = sort_key m2a_MCPTool (bridge_slice t p (t_m2a db))"
  by (simp add: loadMCPToA2ABridges_def bridge_slice_def)

lemma loadA2AToMCPBridges_slice:
  "loadA2AToMCPBridges db t p = sort_key a2m_A2ATask (bridge_slice t p (t_a2m db))"
  by (simp add: loadA2AToMCPBridges_def bridge_slice_def)

lemmas load_slices = loadStringSlice_slice loadMCPToA2ABridges_slice loadA2AToMCPBridges_slice

lemma bridge_slice_append [simp]:
  "bridge_slice t p (xs @ ys) = bridge_slice t p xs @ bridge_slice t p ys"
  by (simp add: bridge_slice_def)

lemma insert_bridges_rows:
  "insert_bridges ok key t p bs rows = Inr rows' \<Longrightarrow>
    rows' = rows @ map (\<lambda>b. (t, p, b)) (filter ok bs)"
  by (induction ok key t p bs rows rule: insert_bridges.induct) (auto split: if_splits)

lemma bridge_slice_inserted:
  "bridge_slice t' p' (map (\<lambda>b. (t, p, b)) bs) = (if t' = t \<and> p' = p then bs else [])"
  by (induction bs) (auto simp: bridge_slice_def)

lemma bridge_slice_removed:
  "bridge_slice t' p' (filter (\<lambda>(t0, p0, b). \<not> (t0 = t \<and> p0 = p)) rows) =
    (if t' = t \<and> p' = p then [] else bridge_slice t' p' rows)"
  by (induction rows) (auto simp: bridge_slice_def)

lemma replaceBridges_slice:
  "replaceBridges ok key t p bs rows = Inr rows' \<Longrightarrow>
    bridge_slice t' p' rows' =
      (if t' = t \<and> p' = p then filter ok bs else bridge_slice t' p' rows)"
  unfolding replaceBridges_def
  by (drule insert_bridges_rows,
      simp only: bridge_slice_append bridge_slice_inserted bridge_slice_removed) simp

lemma profile_allowlists_distinct [simp]: "distinct (map fst (profile_allowlists p))"
  by (simp add: profile_allowlists_def)

lemma find_profile_upsert:
  "List.find (\<lambda>r. r_tenant r = t \<and> r_id r = i) (upsert_row new rows) =
    (if t = r_tenant new \<and> i = r_id new
     then Some (case List.find (\<lambda>r. r_tenant r = t \<and> r_id r = i) rows of
                  None \<Rightarrow> new | Some r \<Rightarrow> new \<lparr> r_created_at := r_created_at r \<rparr>)
     else List.find (\<lambda>r. r_tenant r = t \<and> r_id r = i) rows)"
proof (cases "\<exists>r \<in> set rows. r_tenant r = r_tenant new \<and> r_id r = r_id new")
  case True
  define f where "f = (\<lambda>r. if r_tenant r = r_tenant new \<and> r_id r = r_id new
                   then new \<lparr> r_created_at := r_created_at r \<rparr> else r)"
  have keep: "List.find (\<lambda>r. r_tenant r = t \<and> r_id r = i) (map f rows) =
      map_option f (List.find (\<lambda>r. r_tenant r = t \<and> r_id r = i) rows)" for rows
    by (induction rows) (auto simp: f_def)
  have "upsert_row new rows = map f rows"
    using True by (simp add: upsert_row_def f_def)
  then have eq: "List.find (\<lambda>r. r_tenant r = t \<and> r_id r = i) (upsert_row new rows) =
      map_option f (List.find (\<lambda>r. r_tenant r = t \<and> r_id r = i) rows)"
    by (simp only: keep)
  show ?thesis
  proof (cases "List.find (\<lambda>r. r_tenant r = t \<and> r_id r = i) rows")
    case None
    with True have "\<not> (t = r_tenant new \<and> i = r_id new)"
      by (auto simp: find_None_iff)
    with None eq show ?thesis by auto
  next
    case (Some r)
    from find_Some_prop [OF this] have "r_tenant r = t" "r_id r = i" by simp_all
    with Some eq show ?thesis by (auto simp: f_def)
  qed
next
  case False
  then have none: "List.find (\<lambda>r. r_tenant r = r_tenant new \<and> r_id r = r_id new) rows = None"
    by (simp add: find_None_iff)
  have app: "List.find P (xs @ [y]) = (case List.find P xs of None \<Rightarrow> if P y then Some y else None
      | Some x \<Rightarrow> Some x)" for P and xs :: "profile_row list" and y
    by (induction xs) auto
  show ?thesis
    using False none by (auto simp: upsert_row_def app split: option.splits)
qed

text \<open>The profile as it reads back: blank allowlist entries and incomplete bridges are dropped and
  every list is in the order of its column.\<close>

definition stored_form :: "string \<Rightarrow> string \<Rightarrow> AgentProfile \<Rightarrow> AgentProfile" where
  "stored_form created now p = p
    \<lparr> ap_AllowedMCPServers := sort (filter (\<lambda>i. i \<noteq> '''') (ap_AllowedMCPServers p)),
      ap_AllowedTools := sort (filter (\<lambda>i. i \<noteq> '''') (ap_AllowedTools p)),
      ap_AllowedSkills := sort (filter (\<lambda>i. i \<noteq> '''') (ap_AllowedSkills p)),
      ap_AllowedModelAliases := sort (filter (\<lambda>i. i \<noteq> '''') (ap_AllowedModelAliases p)),
      ap_AllowedA2APeers := sort (filter (\<lambda>i. i \<noteq> '''') (ap_AllowedA2APeers p)),
      ap_AllowedA2ATasks := sort (filter (\<lambda>i. i \<noteq> '''') (ap_AllowedA2ATasks p)),
      ap_MCPToA2ABridges := sort_key m2a_MCPTool (filter m2a_complete (ap_MCPToA2ABridges p)),
      ap_A2AToMCPBridges := sort_key a2m_A2ATask (filter a2m_complete (ap_A2AToMCPBridges p)),
      ap_CreatedAt := created, ap_UpdatedAt := now \<rparr>"

definition put_created :: "string \<Rightarrow> AgentProfile \<Rightarrow> profile_db \<Rightarrow> string" where
  "put_created now p db =
    (case find_profile_row db (ap_TenantID p) (ap_ID p) of None \<Rightarrow> now | Some r \<Rightarrow> r_created_at r)"

lemma store_Put_cases:
  assumes "store_Put now (Some p) db = Inr db'"
  obtains al m2a a2m where
    "\<not> db_fault db" "ap_TenantID p \<noteq> ''''" "ap_ID p \<noteq> ''''" "ap_Name p \<noteq> ''''"
    "replace_all (ap_TenantID p) (ap_ID p) (profile_allowlists p) (t_allow db) = Inr al"
    "replaceBridges m2a_complete m2a_MCPTool (ap_TenantID p) (ap_ID p) (ap_MCPToA2ABridges p) (t_m2a db)
       = Inr m2a"
    "replaceBridges a2m_complete a2m_A2ATask (ap_TenantID p) (ap_ID p) (ap_A2AToMCPBridges p) (t_a2m db)
       = Inr a2m"
    "db' = db \<lparr> t_profiles := upsert_row (profile_row_of (createdAt_for now p db) now p) (t_profiles db),
       t_allow := al, t_m2a := m2a, t_a2m := a2m \<rparr>"
  using assms by (auto simp: store_Put_def Let_def split: if_splits)

lemma find_profile_row_Put:
  assumes "store_Put now (Some p) db = Inr db'"
  shows "find_profile_row db' t i =
    (if t = ap_TenantID p \<and> i = ap_ID p then Some (profile_row_of (put_created now p db) now p)
     else find_profile_row db t i)"
  using assms
  by (elim store_Put_cases)
     (auto simp: find_profile_row_def find_profile_upsert put_created_def createdAt_for_def profile_row_of_def
       split: option.splits)

lemma Put_slices:
  assumes "store_Put now (Some p) db = Inr db'"
  shows "slice tbl t i (t_allow db') =
      (if t = ap_TenantID p \<and> i = ap_ID p
       then filter (\<lambda>x. x \<noteq> '''') (the (map_of (profile_allowlists p) tbl))
       else slice tbl t i (t_allow db))"
    and "bridge_slice t i (t_m2a db') =
      (if t = ap_TenantID p \<and> i = ap_ID p then filter m2a_complete (ap_MCPToA2ABridges p)
       else bridge_slice t i (t_m2a db))"
    and "bridge_slice t i (t_a2m db') =
      (if t = ap_TenantID p \<and> i = ap_ID p then filter a2m_complete (ap_A2AToMCPBridges p)
       else bridge_slice t i (t_a2m db))"
proof -
  have mem: "map_of (profile_allowlists p) tbl \<noteq> None"
    by (cases tbl) (simp_all add: profile_allowlists_def)
  from assms show "slice tbl t i (t_allow db') =
      (if t = ap_TenantID p \<and> i = ap_ID p
       then filter (\<lambda>x. x \<noteq> '''') (the (map_of (profile_allowlists p) tbl))
       else slice tbl t i (t_allow db))"
    using mem by (elim store_Put_cases) (auto dest!: replace_all_slice [where tbl = tbl and t' = t and p' = i])
  from assms show "bridge_slice t i (t_m2a db') =
      (if t = ap_TenantID p \<and> i = ap_ID p then filter m2a_complete (ap_MCPToA2ABridges p)
       else bridge_slice t i (t_m2a db))"
    by (elim store_Put_cases) (simp add: replaceBridges_slice)
  from assms show "bridge_slice t i (t_a2m db') =
      (if t = ap_TenantID p \<and> i = ap_ID p then filter a2m_complete (ap_A2AToMCPBridges p)
       else bridge_slice t i (t_a2m db))"
    by (elim store_Put_cases) (simp add: replaceBridges_slice)
qed

lemma loadAllowlists_slices:
  "loadAllowlists db (scanProfile r) = (scanProfile r)
    \<lparr> ap_AllowedMCPServers := sort (slice T_mcp_servers (r_tenant r) (r_id r) (t_allow db)),
      ap_AllowedTools := sort (slice T_tools (r_tenant r) (r_id r) (t_allow db)),
      ap_AllowedSkills := sort (slice T_skills (r_tenant r) (r_id r) (t_allow db)),
      ap_AllowedModelAliases := sort (slice T_models (r_tenant r) (r_id r) (t_allow db)),
      ap_AllowedA2APeers := sort (slice T_a2a_peers (r_tenant r) (r_id r) (t_allow db)),
      ap_AllowedA2ATasks := sort (slice T_a2a_tasks (r_tenant r) (r_id r) (t_allow db)),
      ap_MCPToA2ABridges := sort_key m2a_MCPTool (bridge_slice (r_tenant r) (r_id r) (t_m2a db)),
      ap_A2AToMCPBridges := sort_key a2m_A2ATask (bridge_slice (r_tenant r) (r_id r) (t_a2m db)) \<rparr>"
  by (simp add: loadAllowlists_def scanProfile_def load_slices)

lemma store_Get_Put_same:
  assumes "store_Put now (Some p) db = Inr db'"
  shows "store_Get db' (ap_TenantID p) (ap_ID p) = Inr (stored_form (put_created now p db) now p)"
proof -
  have ok: "\<not> db_fault db'" "ap_TenantID p \<noteq> ''''" "ap_ID p \<noteq> ''''"
    using assms by (elim store_Put_cases; simp)+
  have "loadAllowlists db' (scanProfile (profile_row_of (put_created now p db) now p)) =
      stored_form (put_created now p db) now p"
    unfolding loadAllowlists_slices
    by (simp add: Put_slices [OF assms] profile_row_of_def scanProfile_def stored_form_def
        profile_allowlists_def zero_AgentProfile_def)
  then show ?thesis
    using ok by (simp add: store_Get_def find_profile_row_Put [OF assms])
qed

lemma find_profile_row_key:
  "find_profile_row db t i = Some r \<Longrightarrow> r_tenant r = t \<and> r_id r = i"
  unfolding find_profile_row_def by (drule find_Some_prop) simp

lemma store_Get_Put_other:
  assumes "store_Put now (Some p) db = Inr db'" and "(t, i) \<noteq> (ap_TenantID p, ap_ID p)"
  shows "store_Get db' t i = store_Get db t i"
proof -
  have fault: "db_fault db' = db_fault db"
    using assms(1) by (elim store_Put_cases) simp
  have "loadAllowlists db' (scanProfile r) = loadAllowlists db (scanProfile r)"
    if "find_profile_row db t i = Some r" for r
  proof -
    have "r_tenant r = t \<and> r_id r = i" using that by (rule find_profile_row_key)
    moreover have "slice tbl t i (t_allow db') = slice tbl t i (t_allow db)"
      "bridge_slice t i (t_m2a db') = bridge_slice t i (t_m2a db)"
      "bridge_slice t i (t_a2m db') = bridge_slice t i (t_a2m db)" for tbl
      unfolding Put_slices [OF assms(1)] using assms(2) by (simp_all only: prod.inject if_False)
    ultimately show ?thesis
      unfolding loadAllowlists_slices by (simp only:)
  qed
  then show ?thesis
    using assms(2) by (auto simp: store_Get_def fault find_profile_row_Put [OF assms(1)] split: option.splits)
qed

subsection \<open>The binding-store contract\<close>

text \<open>
  What the resolver relies on: \<open>ResolveJWTBinding\<close> either reports "no binding",
  or fails, or returns a profile of the tenant that was asked for.
\<close>

locale binding_store =
  fixes resolve :: "'db \<Rightarrow> string \<Rightarrow> string \<Rightarrow> (store_error, AgentProfile) result"
  assumes tenant_scoped: "resolve db t sub = Inr ap \<Longrightarrow> ap_TenantID ap = t"
    and empty_subject: "resolve db t '''' = Inl ErrNotFound"
begin

lemma resolved_profile_tenant: "resolve db t sub = Inr ap \<Longrightarrow> p_TenantID (fromStore ap) = t"
  by (simp add: fromStore_def tenant_scoped)

end

lemma store_Get_tenant: "store_Get db t i = Inr ap \<Longrightarrow> ap_TenantID ap = t \<and> ap_ID ap = i"
  by (auto simp: store_Get_def loadAllowlists_def scanProfile_def
      split: if_splits option.splits dest!: find_profile_row_key)

interpretation sqlite_bindings: binding_store store_ResolveJWTBinding
  by unfold_locales
    (auto simp: store_ResolveJWTBinding_def split: if_splits option.splits dest!: store_Get_tenant)

subsection \<open>Properties\<close>

text \<open>A successful \<open>Put\<close> is what the next \<open>Get\<close> reads (up to blank entries and column order,
  with the creation time of the first insert), and it changes no other profile of any tenant.\<close>

theorem profile_put_get:
  assumes "store_Put now (Some p) db = Inr db'"
  shows "store_Get db' (ap_TenantID p) (ap_ID p) = Inr (stored_form (put_created now p db) now p)
    \<and> (\<forall>t i. (t, i) = (ap_TenantID p, ap_ID p) \<or> store_Get db' t i = store_Get db t i)"
  using store_Get_Put_same [OF assms] store_Get_Put_other [OF assms] by blast

theorem profile_put_get_witness:
  "\<exists>db'. store_Get db' ''acme'' ''p1'' = Inr (stored_form ''t1'' ''t1''
     (zero_AgentProfile \<lparr> ap_TenantID := ''acme'', ap_ID := ''p1'', ap_Name := ''n'',
        ap_AllowedTools := [''gh.b'', ''gh.a''] \<rparr>))"
proof -
  define p where "p = zero_AgentProfile \<lparr> ap_TenantID := ''acme'', ap_ID := ''p1'', ap_Name := ''n'',
    ap_AllowedTools := [''gh.b'', ''gh.a''] \<rparr>"
  define db where "db = \<lparr> db_fault = False, db_fk = True, t_profiles = [], t_allow = [], t_m2a = [],
    t_a2m = [], t_bindings = [] \<rparr>"
  have "\<exists>db'. store_Put ''t1'' (Some p) db = Inr db'"
    by (simp add: p_def db_def zero_AgentProfile_def store_Put_def find_profile_row_def name_taken_def
        replaceBridges_def profile_allowlists_def replaceAllowlist_def)
  then obtain db' where put: "store_Put ''t1'' (Some p) db = Inr db'" ..
  have "put_created ''t1'' p db = ''t1''"
    by (simp add: put_created_def find_profile_row_def db_def)
  with profile_put_get [OF put] show ?thesis
    by (auto simp: p_def zero_AgentProfile_def)
qed

text \<open>C25: on a reopened database (migration 1 already recorded, so foreign keys stay off) deleting a
  profile keeps the JWT bindings that point at it, and a profile stored later under the same id
  is handed to the subjects bound to the deleted one.\<close>

theorem reopened_delete_keeps_bindings:
  assumes "db_fk db = runMigrations_fk applied" and "1 \<in> set applied"
    and "store_Delete t i db = Inr db1" and "aget (t_bindings db) (t, sub) = Some i" and "sub \<noteq> ''''"
    and "store_Put now (Some p) db1 = Inr db2" and "ap_TenantID p = t" and "ap_ID p = i"
  shows "store_ResolveJWTBinding db2 t sub = Inr (stored_form (put_created now p db1) now p)"
proof -
  have bind1: "t_bindings db1 = t_bindings db" "t \<noteq> ''''"
    using assms(1-3)
    by (auto simp: store_Delete_def cascade_profile_def runMigrations_fk_def split: if_splits)
  have bind2: "t_bindings db2 = t_bindings db1" "\<not> db_fault db2"
    using assms(6) by (elim store_Put_cases; simp)+
  show ?thesis
    using store_Get_Put_same [OF assms(6)] assms(4,5,7,8) bind1 bind2
    by (simp add: store_ResolveJWTBinding_def)
qed

theorem reopened_delete_keeps_bindings_witness:
  "\<exists>db2. store_ResolveJWTBinding db2 ''acme'' ''alice'' = Inr (stored_form ''t9'' ''t9''
     (zero_AgentProfile \<lparr> ap_TenantID := ''acme'', ap_ID := ''p1'', ap_Name := ''other'' \<rparr>))"
proof -
  define p where "p = zero_AgentProfile \<lparr> ap_TenantID := ''acme'', ap_ID := ''p1'', ap_Name := ''other'' \<rparr>"
  define r where "r = profile_row_of ''t1'' ''t1'' (p \<lparr> ap_Name := ''first'' \<rparr>)"
  define db where "db = \<lparr> db_fault = False, db_fk = False, t_profiles = [r], t_allow = [], t_m2a = [],
    t_a2m = [], t_bindings = [((''acme'', ''alice''), ''p1'')] \<rparr>"
  define db1 where "db1 = db \<lparr> t_profiles := [] \<rparr>"
  have del: "store_Delete ''acme'' ''p1'' db = Inr db1"
    by (simp add: store_Delete_def find_profile_row_def db1_def db_def r_def p_def profile_row_of_def
        zero_AgentProfile_def cascade_profile_def)
  have "\<exists>db2. store_Put ''t9'' (Some p) db1 = Inr db2"
    by (simp add: p_def db1_def db_def zero_AgentProfile_def store_Put_def name_taken_def
        replaceBridges_def profile_allowlists_def replaceAllowlist_def)
  then obtain db2 where put: "store_Put ''t9'' (Some p) db1 = Inr db2" ..
  have fk: "db_fk db = runMigrations_fk [1, 20]" and mem: "1 \<in> set [1, 20::nat]"
    and bound: "aget (t_bindings db) (''acme'', ''alice'') = Some ''p1''"
    and p: "ap_TenantID p = ''acme''" "ap_ID p = ''p1''"
    by (simp_all add: db_def runMigrations_fk_def p_def)
  have created: "put_created ''t9'' p db1 = ''t9''"
    by (simp add: put_created_def find_profile_row_def db1_def)
  from reopened_delete_keeps_bindings [OF fk mem del bound _ put p] show ?thesis
    unfolding created by (auto simp: p_def)
qed

end
