(* ===== verification/Governance_Store.thy ===== *)
theory Governance_Store
  imports Sql_Tables
begin

text \<open>
  \<open>internal/storage/sqlite/governance_store.go\<close>: customers, teams and virtual
  keys on the tables of migration 0021.  \<open>g_fault\<close> stands for a connection on
  which every statement fails, \<open>g_fk\<close> for its foreign-key enforcement.  Every
  method but \<open>LookupVirtualKeyByID\<close> filters on the tenant; the foreign key of
  a key's \<open>profile_id\<close> is checked against the profile ids in \<open>g_profiles\<close>.
\<close>

record Customer =
  c_TenantID :: string
  c_ID :: string
  c_Name :: string
  c_Description :: string
  c_WebhookURL :: string
  c_CreatedAt :: string
  c_UpdatedAt :: string

record Team =
  tm_TenantID :: string
  tm_ID :: string
  tm_CustomerID :: string
  tm_Name :: string
  tm_Description :: string
  tm_CreatedAt :: string
  tm_UpdatedAt :: string

record VirtualKey =
  vk_TenantID :: string
  vk_ID :: string
  vk_Name :: string
  vk_Salt :: "nat list"
  vk_HMAC :: "nat list"
  vk_ParentKind :: string
  vk_ParentID :: string
  vk_ProfileID :: string
  vk_Scopes :: "string list"
  vk_ProviderAllowlist :: "string list"
  vk_ModelAllowlist :: "string list"
  vk_MCPServerAllowlist :: "string list"
  vk_Enabled :: bool
  vk_CreatedAt :: string
  vk_RotatedAt :: string
  vk_RevokedAt :: string

datatype vk_table = T_vk_provider | T_vk_model | T_vk_mcp_server

record gov_db =
  g_fault :: bool
  g_fk :: bool
  g_profiles :: "(string \<times> string) list"
  g_customers :: "Customer list"
  g_teams :: "Team list"
  g_vks :: "VirtualKey list"
  g_allow :: "vk_table allow_row list"

subsection \<open>Customers\<close>

definition GetCustomer :: "gov_db \<Rightarrow> string \<Rightarrow> string \<Rightarrow> (store_error, Customer) result" where
  "GetCustomer db tenantID i =
    (if tenantID = '''' \<or> i = '''' then Inl ErrArgs
     else if g_fault db then Inl ErrSQL
     else case List.find (\<lambda>c. c_TenantID c = tenantID \<and> c_ID c = i) (g_customers db) of
            None \<Rightarrow> Inl ErrNotFound | Some c \<Rightarrow> Inr c)"

definition existingCreatedAt :: "string option \<Rightarrow> string \<Rightarrow> string" where
  "existingCreatedAt found def =
    (case found of None \<Rightarrow> def | Some createdAt \<Rightarrow> if createdAt = '''' then def else createdAt)"

definition PutCustomer :: "string \<Rightarrow> Customer \<Rightarrow> gov_db \<Rightarrow> (store_error, gov_db) result" where
  "PutCustomer now c db =
    (if c_TenantID c = '''' \<or> c_ID c = '''' \<or> c_Name c = '''' then Inl ErrArgs
     else if g_fault db then Inl ErrSQL
     else
       let same = (\<lambda>x. c_TenantID x = c_TenantID c \<and> c_ID x = c_ID c);
           createdAt = existingCreatedAt (map_option c_CreatedAt (List.find same (g_customers db))) now;
           new = c \<lparr> c_CreatedAt := createdAt, c_UpdatedAt := now \<rparr> in
       if (\<exists>x \<in> set (g_customers db). c_TenantID x = c_TenantID c \<and> c_Name x = c_Name c \<and> c_ID x \<noteq> c_ID c)
       then Inl ErrSQL
       else if List.find same (g_customers db) = None
       then Inr (db \<lparr> g_customers := g_customers db @ [new] \<rparr>)
       else Inr (db \<lparr> g_customers := map (\<lambda>x. if same x then new \<lparr> c_CreatedAt := c_CreatedAt x \<rparr> else x)
                   (g_customers db) \<rparr>))"

definition ListCustomers :: "gov_db \<Rightarrow> string \<Rightarrow> (store_error, Customer list) result" where
  "ListCustomers db tenantID =
    (if tenantID = '''' then Inl ErrArgs
     else if g_fault db then Inl ErrSQL
     else Inr (sort_key c_Name (filter (\<lambda>c. c_TenantID c = tenantID) (g_customers db))))"

definition DeleteCustomer :: "string \<Rightarrow> string \<Rightarrow> gov_db \<Rightarrow> (store_error, gov_db) result" where
  "DeleteCustomer tenantID i db =
    (if tenantID = '''' \<or> i = '''' then Inl ErrArgs
     else if g_fault db then Inl ErrSQL
     else
       let teams = map (\<lambda>tm. if tm_TenantID tm = tenantID \<and> tm_CustomerID tm = i
                             then tm \<lparr> tm_CustomerID := '''' \<rparr> else tm) (g_teams db);
           customers = filter (\<lambda>c. \<not> (c_TenantID c = tenantID \<and> c_ID c = i)) (g_customers db) in
       if length customers = length (g_customers db) then Inl ErrNotFound
       else Inr (db \<lparr> g_teams := teams, g_customers := customers \<rparr>))"

subsection \<open>Teams\<close>

definition GetTeam :: "gov_db \<Rightarrow> string \<Rightarrow> string \<Rightarrow> (store_error, Team) result" where
  "GetTeam db tenantID i =
    (if tenantID = '''' \<or> i = '''' then Inl ErrArgs
     else if g_fault db then Inl ErrSQL
     else case List.find (\<lambda>c. tm_TenantID c = tenantID \<and> tm_ID c = i) (g_teams db) of
            None \<Rightarrow> Inl ErrNotFound | Some c \<Rightarrow> Inr c)"

definition PutTeam :: "string \<Rightarrow> Team \<Rightarrow> gov_db \<Rightarrow> (store_error, gov_db) result" where
  "PutTeam now tm db =
    (if tm_TenantID tm = '''' \<or> tm_ID tm = '''' \<or> tm_Name tm = '''' then Inl ErrArgs
     else if g_fault db then Inl ErrSQL
     else
       let same = (\<lambda>x. tm_TenantID x = tm_TenantID tm \<and> tm_ID x = tm_ID tm);
           createdAt = existingCreatedAt (map_option tm_CreatedAt (List.find same (g_teams db))) now;
           new = tm \<lparr> tm_CreatedAt := createdAt, tm_UpdatedAt := now \<rparr> in
       if (\<exists>x \<in> set (g_teams db). tm_TenantID x = tm_TenantID tm \<and> tm_Name x = tm_Name tm \<and> tm_ID x \<noteq> tm_ID tm)
       then Inl ErrSQL
       else if g_fk db \<and> tm_CustomerID tm \<noteq> ''''
         \<and> \<not> (\<exists>c \<in> set (g_customers db). c_TenantID c = tm_TenantID tm \<and> c_ID c = tm_CustomerID tm)
       then Inl ErrSQL
       else if List.find same (g_teams db) = None
       then Inr (db \<lparr> g_teams := g_teams db @ [new] \<rparr>)
       else Inr (db \<lparr> g_teams := map (\<lambda>x. if same x then new \<lparr> tm_CreatedAt := tm_CreatedAt x \<rparr> else x)
                   (g_teams db) \<rparr>))"

definition ListTeams :: "gov_db \<Rightarrow> string \<Rightarrow> (store_error, Team list) result" where
  "ListTeams db tenantID =
    (if tenantID = '''' then Inl ErrArgs
     else if g_fault db then Inl ErrSQL
     else Inr (sort_key tm_Name (filter (\<lambda>c. tm_TenantID c = tenantID) (g_teams db))))"

definition DeleteTeam :: "string \<Rightarrow> string \<Rightarrow> gov_db \<Rightarrow> (store_error, gov_db) result" where
  "DeleteTeam tenantID i db =
    (if tenantID = '''' \<or> i = '''' then Inl ErrArgs
     else if g_fault db then Inl ErrSQL
     else
       let teams = filter (\<lambda>c. \<not> (tm_TenantID c = tenantID \<and> tm_ID c = i)) (g_teams db) in
       if length teams = length (g_teams db) then Inl ErrNotFound
       else Inr (db \<lparr> g_teams := teams \<rparr>))"

subsection \<open>Virtual keys\<close>

definition loadVKStringSlice :: "gov_db \<Rightarrow> vk_table \<Rightarrow> string \<Rightarrow> string \<Rightarrow> string list" where
  "loadVKStringSlice db tbl tenantID vkID = sort (slice tbl tenantID vkID (g_allow db))"

definition loadVKAllowlists :: "gov_db \<Rightarrow> VirtualKey \<Rightarrow> VirtualKey" where
  "loadVKAllowlists db vk = vk
    \<lparr> vk_ProviderAllowlist := loadVKStringSlice db T_vk_provider (vk_TenantID vk) (vk_ID vk),
      vk_ModelAllowlist := loadVKStringSlice db T_vk_model (vk_TenantID vk) (vk_ID vk),
      vk_MCPServerAllowlist := loadVKStringSlice db T_vk_mcp_server (vk_TenantID vk) (vk_ID vk) \<rparr>"

definition vk_allowlists :: "VirtualKey \<Rightarrow> (vk_table \<times> string list) list" where
  "vk_allowlists vk =
    [(T_vk_provider, vk_ProviderAllowlist vk), (T_vk_model, vk_ModelAllowlist vk),
     (T_vk_mcp_server, vk_MCPServerAllowlist vk)]"

definition same_vk :: "VirtualKey \<Rightarrow> VirtualKey \<Rightarrow> bool" where
  "same_vk vk x = (vk_TenantID x = vk_TenantID vk \<and> vk_ID x = vk_ID vk)"

definition upsert_vk :: "VirtualKey \<Rightarrow> VirtualKey list \<Rightarrow> VirtualKey list" where
  "upsert_vk new rows =
    (if List.find (same_vk new) rows = None then rows @ [new]
     else map (\<lambda>x. if same_vk new x then new \<lparr> vk_CreatedAt := vk_CreatedAt x \<rparr> else x) rows)"

text \<open>\<open>parent_kind\<close> has a CHECK constraint; the column \<open>profile_id\<close> is NULL for the empty string.\<close>

definition PutVirtualKey :: "string \<Rightarrow> VirtualKey \<Rightarrow> gov_db \<Rightarrow> (store_error, gov_db) result" where
  "PutVirtualKey now vk db =
    (if vk_TenantID vk = '''' \<or> vk_ID vk = '''' \<or> vk_Name vk = '''' then Inl ErrArgs
     else if length (vk_Salt vk) = 0 \<or> length (vk_HMAC vk) = 0 then Inl ErrArgs
     else if g_fault db then Inl ErrSQL
     else
       let createdAt = existingCreatedAt (map_option vk_CreatedAt (List.find (same_vk vk) (g_vks db))) now;
           parentKind = (if vk_ParentKind vk = '''' then ''none'' else vk_ParentKind vk);
           new = vk \<lparr> vk_ParentKind := parentKind, vk_CreatedAt := createdAt \<rparr> in
       if parentKind \<notin> set [''none'', ''team'', ''customer''] then Inl ErrSQL
       else if (\<exists>x \<in> set (g_vks db). vk_TenantID x = vk_TenantID vk \<and> vk_Name x = vk_Name vk \<and> vk_ID x \<noteq> vk_ID vk)
       then Inl ErrSQL
       else if g_fk db \<and> vk_ProfileID vk \<noteq> '''' \<and> (vk_TenantID vk, vk_ProfileID vk) \<notin> set (g_profiles db)
       then Inl ErrSQL
       else res_bind (replace_all (vk_TenantID vk) (vk_ID vk) (vk_allowlists vk) (g_allow db)) (\<lambda>al.
            Inr (db \<lparr> g_vks := upsert_vk new (g_vks db), g_allow := al \<rparr>)))"

definition GetVirtualKey :: "gov_db \<Rightarrow> string \<Rightarrow> string \<Rightarrow> (store_error, VirtualKey) result" where
  "GetVirtualKey db tenantID i =
    (if tenantID = '''' \<or> i = '''' then Inl ErrArgs
     else if g_fault db then Inl ErrSQL
     else case List.find (\<lambda>vk. vk_TenantID vk = tenantID \<and> vk_ID vk = i) (g_vks db) of
            None \<Rightarrow> Inl ErrNotFound | Some vk \<Rightarrow> Inr (loadVKAllowlists db vk))"

definition LookupVirtualKeyByID :: "gov_db \<Rightarrow> string \<Rightarrow> (store_error, VirtualKey) result" where
  "LookupVirtualKeyByID db i =
    (if i = '''' then Inl ErrNotFound
     else if g_fault db then Inl ErrSQL
     else case List.find (\<lambda>vk. vk_ID vk = i) (g_vks db) of
            None \<Rightarrow> Inl ErrNotFound | Some vk \<Rightarrow> Inr (loadVKAllowlists db vk))"

definition ListVirtualKeys :: "gov_db \<Rightarrow> string \<Rightarrow> (store_error, VirtualKey list) result" where
  "ListVirtualKeys db tenantID =
    (if tenantID = '''' then Inl ErrArgs
     else if g_fault db then Inl ErrSQL
     else Inr (map (loadVKAllowlists db)
            (sort_key vk_Name (filter (\<lambda>vk. vk_TenantID vk = tenantID) (g_vks db)))))"

definition DeleteVirtualKey :: "string \<Rightarrow> string \<Rightarrow> gov_db \<Rightarrow> (store_error, gov_db) result" where
  "DeleteVirtualKey tenantID i db =
    (if tenantID = '''' \<or> i = '''' then Inl ErrArgs
     else if g_fault db then Inl ErrSQL
     else
       let vks = filter (\<lambda>vk. \<not> (vk_TenantID vk = tenantID \<and> vk_ID vk = i)) (g_vks db) in
       if length vks = length (g_vks db) then Inl ErrNotFound
       else Inr (db \<lparr> g_vks := vks,
              g_allow := (if g_fk db
                then filter (\<lambda>(tb, t, v, item). \<not> (t = tenantID \<and> v = i)) (g_allow db)
                else g_allow db) \<rparr>))"

subsection \<open>What a stored key reads back as\<close>

definition vk_stored :: "string \<Rightarrow> VirtualKey \<Rightarrow> VirtualKey" where
  "vk_stored created vk = vk
    \<lparr> vk_ParentKind := (if vk_ParentKind vk = '''' then ''none'' else vk_ParentKind vk),
      vk_ProviderAllowlist := sort (filter (\<lambda>i. i \<noteq> '''') (vk_ProviderAllowlist vk)),
      vk_ModelAllowlist := sort (filter (\<lambda>i. i \<noteq> '''') (vk_ModelAllowlist vk)),
      vk_MCPServerAllowlist := sort (filter (\<lambda>i. i \<noteq> '''') (vk_MCPServerAllowlist vk)),
      vk_CreatedAt := created \<rparr>"

definition vk_ids_unique :: "gov_db \<Rightarrow> bool" where
  "vk_ids_unique db = distinct (map vk_ID (g_vks db))"

lemma find_append1:
  "List.find P (xs @ [y]) =
    (case List.find P xs of None \<Rightarrow> if P y then Some y else None | Some x \<Rightarrow> Some x)"
  by (induction xs) auto

lemma find_unique_key:
  assumes "distinct (map key xs)" and "x \<in> set xs"
  shows "List.find (\<lambda>y. key y = key x) xs = Some x"
  using assms by (induction xs) (auto simp: image_iff)

text \<open>The row of an upserted key, found by its id alone, when no other tenant has that id.\<close>

lemma find_upsert_vk:
  assumes "\<And>x. x \<in> set rows \<Longrightarrow> vk_ID x = vk_ID new \<Longrightarrow> vk_TenantID x = vk_TenantID new"
  shows "List.find (\<lambda>x. vk_ID x = vk_ID new) (upsert_vk new rows) =
    Some (case List.find (same_vk new) rows of
            None \<Rightarrow> new | Some x \<Rightarrow> new \<lparr> vk_CreatedAt := vk_CreatedAt x \<rparr>)"
proof -
  have eq: "List.find (\<lambda>x. vk_ID x = vk_ID new) rows = List.find (same_vk new) rows"
    using assms by (intro find_cong) (auto simp: same_vk_def)
  show ?thesis
  proof (cases "List.find (same_vk new) rows")
    case None
    then show ?thesis by (simp add: upsert_vk_def find_append1 eq)
  next
    case (Some x)
    from find_Some_prop [OF this] have "same_vk new x" by simp
    moreover have "List.find (\<lambda>x. vk_ID x = vk_ID new)
        (map (\<lambda>x. if same_vk new x then new \<lparr> vk_CreatedAt := vk_CreatedAt x \<rparr> else x) rows) =
      map_option (\<lambda>x. if same_vk new x then new \<lparr> vk_CreatedAt := vk_CreatedAt x \<rparr> else x)
        (List.find (\<lambda>x. vk_ID x = vk_ID new) rows)"
      by (rule find_map_keep) (auto simp: same_vk_def)
    ultimately show ?thesis
      using Some by (simp add: upsert_vk_def eq)
  qed
qed

lemma PutVirtualKey_cases:
  assumes "PutVirtualKey now vk db = Inr db'"
  obtains al created where
    "\<not> g_fault db" "vk_ID vk \<noteq> ''''" "vk_TenantID vk \<noteq> ''''"
    "replace_all (vk_TenantID vk) (vk_ID vk) (vk_allowlists vk) (g_allow db) = Inr al"
    "db' = db \<lparr> g_vks := upsert_vk (vk \<lparr> vk_ParentKind := (if vk_ParentKind vk = '''' then ''none'' else vk_ParentKind vk),
       vk_CreatedAt := created \<rparr>) (g_vks db), g_allow := al \<rparr>"
  using assms unfolding PutVirtualKey_def Let_def by (auto split: if_splits)

lemma Put_Lookup:
  assumes "PutVirtualKey now vk db = Inr db'"
    and "\<And>x. x \<in> set (g_vks db) \<Longrightarrow> vk_ID x = vk_ID vk \<Longrightarrow> vk_TenantID x = vk_TenantID vk"
  shows "\<exists>created. LookupVirtualKeyByID db' (vk_ID vk) = Inr (vk_stored created vk)"
proof -
  obtain al created where put:
    "\<not> g_fault db" "vk_ID vk \<noteq> ''''" "vk_TenantID vk \<noteq> ''''"
    "replace_all (vk_TenantID vk) (vk_ID vk) (vk_allowlists vk) (g_allow db) = Inr al"
    "db' = db \<lparr> g_vks := upsert_vk (vk \<lparr> vk_ParentKind := (if vk_ParentKind vk = '''' then ''none'' else vk_ParentKind vk),
       vk_CreatedAt := created \<rparr>) (g_vks db), g_allow := al \<rparr>"
    using assms(1) by (rule PutVirtualKey_cases)
  define new where "new = vk \<lparr> vk_ParentKind := (if vk_ParentKind vk = '''' then ''none'' else vk_ParentKind vk),
       vk_CreatedAt := created \<rparr>"
  have "List.find (\<lambda>x. vk_ID x = vk_ID new) (upsert_vk new (g_vks db)) =
      Some (case List.find (same_vk new) (g_vks db) of
            None \<Rightarrow> new | Some x \<Rightarrow> new \<lparr> vk_CreatedAt := vk_CreatedAt x \<rparr>)"
    by (rule find_upsert_vk) (use assms(2) in \<open>simp add: new_def\<close>)
  then obtain c where found: "List.find (\<lambda>x. vk_ID x = vk_ID vk) (g_vks db') = Some (new \<lparr> vk_CreatedAt := c \<rparr>)"
    using put(5) by (cases "List.find (same_vk new) (g_vks db)") (auto simp: new_def)
  have sl: "slice tbl (vk_TenantID vk) (vk_ID vk) (g_allow db') =
      filter (\<lambda>i. i \<noteq> '''') (the (map_of (vk_allowlists vk) tbl))" for tbl
    using replace_all_slice [OF put(4), of tbl "vk_TenantID vk" "vk_ID vk"] put(5)
    by (cases tbl) (simp_all add: vk_allowlists_def)
  have "loadVKAllowlists db' (new \<lparr> vk_CreatedAt := c \<rparr>) = vk_stored c vk"
    by (simp add: loadVKAllowlists_def loadVKStringSlice_def new_def sl vk_allowlists_def vk_stored_def)
  then show ?thesis
    using found put by (auto simp: LookupVirtualKeyByID_def)
qed

lemma GetVirtualKey_row:
  assumes "GetVirtualKey db t i = Inr vk"
  shows "vk_TenantID vk = t \<and> vk_ID vk = i \<and> (\<exists>x \<in> set (g_vks db). vk_ID x = i \<and> vk_TenantID x = t)"
  using assms
  by (auto simp: GetVirtualKey_def loadVKAllowlists_def split: if_splits option.splits dest!: find_Some_prop)

lemma LookupVirtualKeyByID_id: "LookupVirtualKeyByID db i = Inr vk \<Longrightarrow> vk_ID vk = i"
  by (auto simp: LookupVirtualKeyByID_def loadVKAllowlists_def split: if_splits option.splits dest!: find_Some_prop)

lemma unique_ids_tenant:
  assumes "vk_ids_unique db" and "x \<in> set (g_vks db)" and "y \<in> set (g_vks db)" and "vk_ID x = vk_ID y"
  shows "x = y"
  using assms by (auto simp: vk_ids_unique_def distinct_map inj_on_def)

end
