(* ===== verification/TTL_Cache.thy ===== *)
theory TTL_Cache
  imports Prelude
begin

text \<open>
  The contract of the gateway's expiring lookup caches (agent-profile resolver,
  virtual-key resolver): a hit is an unexpired entry, reading and evicting never
  add entries, and a write adds one entry that expires \<open>ttl\<close> later.  The client
  lemma is the staleness bound: when every entry was justified by evidence at
  the time it was written, a hit is justified by evidence at most \<open>ttl\<close> old.
\<close>

locale ttl_cache =
  fixes entries :: "'c \<Rightarrow> string \<rightharpoonup> ('v \<times> time)"
    and ttl :: "'c \<Rightarrow> duration"
    and get :: "time \<Rightarrow> string \<Rightarrow> 'c \<Rightarrow> 'v option \<times> 'c"
    and put :: "time \<Rightarrow> string \<Rightarrow> 'v \<Rightarrow> 'c \<Rightarrow> 'c"
  assumes get_hit: "get now k c = (Some v, c') \<Longrightarrow> \<exists>e. entries c k = Some (v, e) \<and> now \<le> e"
    and get_sub: "entries (snd (get now k c)) \<subseteq>\<^sub>m entries c"
    and put_sub: "entries (put now k v c) \<subseteq>\<^sub>m (entries c)(k \<mapsto> (v, now + ttl c))"
    and ttl_get: "ttl (snd (get now k c)) = ttl c"
    and ttl_put: "ttl (put now k v c) = ttl c"
begin

definition justified :: "(string \<Rightarrow> 'v \<Rightarrow> time \<Rightarrow> bool) \<Rightarrow> 'c \<Rightarrow> bool" where
  "justified E c = (\<forall>k v e. entries c k = Some (v, e) \<longrightarrow> E k v (e - ttl c))"

lemma justified_sub:
  assumes "justified E c" and "entries c' \<subseteq>\<^sub>m entries c" and "ttl c' = ttl c"
  shows "justified E c'"
  using assms by (auto simp: justified_def map_le_def dom_def)

lemma justified_get: "justified E c \<Longrightarrow> justified E (snd (get now k c))"
  by (rule justified_sub [OF _ get_sub ttl_get])

lemma justified_put:
  assumes "justified E c" and "E k v now"
  shows "justified E (put now k v c)"
  unfolding justified_def ttl_put
proof (intro allI impI)
  fix k' v' e
  assume "entries (put now k v c) k' = Some (v', e)"
  with put_sub [of now k v c] have "((entries c)(k \<mapsto> (v, now + ttl c))) k' = Some (v', e)"
    by (metis map_le_def domI)
  then show "E k' v' (e - ttl c)"
    using assms by (auto simp: justified_def split: if_splits)
qed

lemma hit_is_recent:
  assumes "justified E c" and "get now k c = (Some v, c')"
  shows "\<exists>t0. E k v t0 \<and> now \<le> t0 + ttl c"
proof -
  obtain e where "entries c k = Some (v, e)" "now \<le> e"
    using get_hit [OF assms(2)] by blast
  with assms(1) show ?thesis
    by (intro exI [of _ "e - ttl c"]) (simp add: justified_def)
qed

end

end
