(* ===== verification/Virtual_Keys.thy ===== *)
theory Virtual_Keys
  imports Governance_Store TTL_Cache Go_URL
begin

text \<open>
  Package \<open>internal/auth/virtual_keys\<close>: the token format, the lifecycle service
  and the caching resolver.  HMAC-SHA256 and the token hash are arguments
  (\<open>hmac\<close>, \<open>hash\<close>); random bytes and clock readings are inputs.  The three
  critical sections of \<open>Resolve\<close> (cache probe, store lookup with verification,
  cache insert) are separate definitions, so that interleavings with \<open>Revoke\<close>
  and \<open>InvalidateVK\<close> can be written down.
\<close>

subsection \<open>format.go\<close>

definition TokenPrefix :: string where
  "TokenPrefix = ''pk-portico-''"

definition vk_idPrefix :: string where
  "vk_idPrefix = ''vk_''"

definition base62 :: string where
  "base62 = ''0123456789ABCDEFGHIJKLMNOPQRSTUVWXYZabcdefghijklmnopqrstuvwxyz''"

definition NewID :: "nat list \<Rightarrow> string" where
  "NewID rnd = vk_idPrefix @ hex_encode rnd"

definition newSecret :: "nat list \<Rightarrow> string" where
  "newSecret rnd = map (\<lambda>v. base62 ! (v mod length base62)) rnd"

definition VerifyHMAC :: "(nat list \<Rightarrow> string \<Rightarrow> nat list) \<Rightarrow> nat list \<Rightarrow> nat list \<Rightarrow> string \<Rightarrow> bool" where
  "VerifyHMAC hmac salt storedHMAC secret = (hmac salt secret = storedHMAC)"

definition ComposeToken :: "string \<Rightarrow> string \<Rightarrow> string" where
  "ComposeToken i secret = TokenPrefix @ i @ ''.'' @ secret"

definition LooksLikeVK :: "string \<Rightarrow> bool" where
  "LooksLikeVK bearer = has_prefix bearer TokenPrefix"

definition ParseToken :: "string \<Rightarrow> (string \<times> string) option" where
  "ParseToken token =
    (if \<not> has_prefix token TokenPrefix then None
     else let rest = drop (length TokenPrefix) token; i = index_byte rest CHR ''.'' in
       if i \<le> 0 \<or> i \<ge> int (length rest) - 1 then None
       else let id' = take (nat i) rest; secret = drop (nat i + 1) rest in
         if \<not> has_prefix id' vk_idPrefix \<or> length id' \<le> length vk_idPrefix then None
         else if secret = '''' then None
         else Some (id', secret))"

subsection \<open>vk.go: the resolved key\<close>

record Resolved =
  rv_VKID :: string
  rv_TenantID :: string
  rv_Name :: string
  rv_Scopes :: "string list"
  rv_ProviderAllowlist :: "string list"
  rv_ModelAllowlist :: "string list"
  rv_MCPServerAllowlist :: "string list"
  rv_ProfileID :: string
  rv_ParentKind :: string
  rv_ParentID :: string

fun vk_allowed :: "string list \<Rightarrow> string \<Rightarrow> bool" where
  "vk_allowed ls v = (if length ls = 0 then True else v \<in> set ls)"

definition vk_HasScope :: "Resolved \<Rightarrow> string \<Rightarrow> bool" where
  "vk_HasScope r s = (s \<in> set (rv_Scopes r))"

definition vk_AllowsProvider :: "Resolved \<Rightarrow> string \<Rightarrow> bool" where
  "vk_AllowsProvider r driver = vk_allowed (rv_ProviderAllowlist r) driver"

definition vk_AllowsModel :: "Resolved \<Rightarrow> string \<Rightarrow> bool" where
  "vk_AllowsModel r a = vk_allowed (rv_ModelAllowlist r) a"

definition vk_AllowsServer :: "Resolved \<Rightarrow> string \<Rightarrow> bool" where
  "vk_AllowsServer r serverID = vk_allowed (rv_MCPServerAllowlist r) serverID"

subsection \<open>vk.go: lifecycle\<close>

record CreateParams =
  cp_TenantID :: string
  cp_Name :: string
  cp_Scopes :: "string list"
  cp_ProviderAllowlist :: "string list"
  cp_ModelAllowlist :: "string list"
  cp_MCPServerAllowlist :: "string list"
  cp_ProfileID :: string
  cp_ParentKind :: string
  cp_ParentID :: string

definition new_vk :: "(nat list \<Rightarrow> string \<Rightarrow> nat list) \<Rightarrow> CreateParams \<Rightarrow> string \<Rightarrow> string \<Rightarrow> nat list \<Rightarrow> VirtualKey" where
  "new_vk hmac p i secret salt =
    \<lparr> vk_TenantID = cp_TenantID p, vk_ID = i, vk_Name = cp_Name p, vk_Salt = salt,
      vk_HMAC = hmac salt secret,
      vk_ParentKind = (if cp_ParentKind p = '''' then ''none'' else cp_ParentKind p),
      vk_ParentID = cp_ParentID p, vk_ProfileID = cp_ProfileID p, vk_Scopes = cp_Scopes p,
      vk_ProviderAllowlist = cp_ProviderAllowlist p, vk_ModelAllowlist = cp_ModelAllowlist p,
      vk_MCPServerAllowlist = cp_MCPServerAllowlist p, vk_Enabled = True,
      vk_CreatedAt = '''', vk_RotatedAt = '''', vk_RevokedAt = '''' \<rparr>"

text \<open>\<open>rid\<close>, \<open>rsec\<close> and \<open>salt\<close> are the bytes read from \<open>crypto/rand\<close>; the result is the new store
  and the one-time token.\<close>

definition Create ::
  "(nat list \<Rightarrow> string \<Rightarrow> nat list) \<Rightarrow> string \<Rightarrow> nat list \<Rightarrow> nat list \<Rightarrow> nat list \<Rightarrow> CreateParams \<Rightarrow> gov_db
    \<Rightarrow> (store_error, gov_db \<times> string) result"
where
  "Create hmac now rid rsec salt p db =
    (if cp_TenantID p = '''' \<or> cp_Name p = '''' then Inl ErrArgs
     else let parentKind = (if cp_ParentKind p = '''' then ''none'' else cp_ParentKind p) in
       if parentKind \<noteq> ''none'' \<and> cp_ParentID p = '''' then Inl ErrArgs
       else let i = NewID rid; secret = newSecret rsec in
         res_bind (PutVirtualKey now (new_vk hmac p i secret salt) db)
           (\<lambda>db'. Inr (db', ComposeToken i secret)))"

definition Rotate ::
  "(nat list \<Rightarrow> string \<Rightarrow> nat list) \<Rightarrow> string \<Rightarrow> nat list \<Rightarrow> nat list \<Rightarrow> string \<Rightarrow> string \<Rightarrow> gov_db
    \<Rightarrow> (store_error, gov_db \<times> string) result"
where
  "Rotate hmac now rsec salt tenantID i db =
    res_bind (GetVirtualKey db tenantID i) (\<lambda>vk.
      let secret = newSecret rsec;
          vk' = vk \<lparr> vk_Salt := salt, vk_HMAC := hmac salt secret, vk_RotatedAt := now \<rparr> in
      res_bind (PutVirtualKey now vk' db) (\<lambda>db'. Inr (db', ComposeToken i secret)))"

definition Revoke :: "string \<Rightarrow> string \<Rightarrow> string \<Rightarrow> gov_db \<Rightarrow> (store_error, gov_db) result" where
  "Revoke now tenantID i db =
    res_bind (GetVirtualKey db tenantID i) (\<lambda>vk.
      PutVirtualKey now (vk \<lparr> vk_Enabled := False, vk_RevokedAt := now \<rparr>) db)"

subsection \<open>resolver.go\<close>

datatype vk_error = ErrUnknown | ErrRevoked | ErrVKStore store_error

record vk_entry =
  e_resolved :: Resolved
  e_vkID :: string
  e_expiresAt :: time

record vk_resolver =
  vr_ttl :: duration
  vr_cache :: "(string, vk_entry) amap"

definition vk_maxCacheEntries :: nat where
  "vk_maxCacheEntries = 4096"

definition NewVKResolver :: "duration \<Rightarrow> vk_resolver" where
  "NewVKResolver t = \<lparr> vr_ttl = (if t \<le> 0 then 60 * 10 ^ 9 else t), vr_cache = [] \<rparr>"

text \<open>First critical section: an unexpired entry is a hit, an expired one is deleted.\<close>

definition vk_probe :: "time \<Rightarrow> string \<Rightarrow> vk_resolver \<Rightarrow> Resolved option \<times> vk_resolver" where
  "vk_probe now h r =
    (case aget (vr_cache r) h of
       None \<Rightarrow> (None, r)
     | Some e \<Rightarrow>
         if now < e_expiresAt e then (Some (e_resolved e), r)
         else (None, r \<lparr> vr_cache := adel h (vr_cache r) \<rparr>))"

definition resolved_of :: "VirtualKey \<Rightarrow> Resolved" where
  "resolved_of vk =
    \<lparr> rv_VKID = vk_ID vk, rv_TenantID = vk_TenantID vk, rv_Name = vk_Name vk, rv_Scopes = vk_Scopes vk,
      rv_ProviderAllowlist = vk_ProviderAllowlist vk, rv_ModelAllowlist = vk_ModelAllowlist vk,
      rv_MCPServerAllowlist = vk_MCPServerAllowlist vk, rv_ProfileID = vk_ProfileID vk,
      rv_ParentKind = vk_ParentKind vk, rv_ParentID = vk_ParentID vk \<rparr>"

text \<open>The unlocked middle part: lookup by id, HMAC check, revocation check.\<close>

definition vk_verify ::
  "(nat list \<Rightarrow> string \<Rightarrow> nat list) \<Rightarrow> gov_db \<Rightarrow> string \<Rightarrow> string \<Rightarrow> (vk_error, Resolved) result"
where
  "vk_verify hmac db i secret =
    (case LookupVirtualKeyByID db i of
       Inl err \<Rightarrow> if err = ErrNotFound then Inl ErrUnknown else Inl (ErrVKStore err)
     | Inr vk \<Rightarrow>
         if \<not> VerifyHMAC hmac (vk_Salt vk) (vk_HMAC vk) secret then Inl ErrUnknown
         else if \<not> vk_Enabled vk \<or> vk_RevokedAt vk \<noteq> '''' then Inl ErrRevoked
         else Inr (resolved_of vk))"

text \<open>Go iterates over a map in unspecified order: \<open>its\<close> is the sequence of keys visited.\<close>

definition evictOneLocked :: "time \<Rightarrow> string list \<Rightarrow> (string, vk_entry) amap \<Rightarrow> (string, vk_entry) amap" where
  "evictOneLocked now its c =
    (case List.find (\<lambda>h. case aget c h of None \<Rightarrow> False | Some e \<Rightarrow> e_expiresAt e < now) its of
       Some h \<Rightarrow> adel h c
     | None \<Rightarrow> (case its of [] \<Rightarrow> c | h # hs \<Rightarrow> adel h c))"

text \<open>Last critical section.\<close>

definition vk_insert ::
  "((string, vk_entry) amap \<Rightarrow> string list) \<Rightarrow> time \<Rightarrow> string \<Rightarrow> Resolved \<Rightarrow> vk_resolver \<Rightarrow> vk_resolver"
where
  "vk_insert its now h res r =
    (let c = (if length (vr_cache r) \<ge> vk_maxCacheEntries
              then evictOneLocked now (its (vr_cache r)) (vr_cache r) else vr_cache r) in
     r \<lparr> vr_cache := aput h \<lparr> e_resolved = res, e_vkID = rv_VKID res, e_expiresAt = now + vr_ttl r \<rparr> c \<rparr>)"

definition vk_Resolve ::
  "(nat list \<Rightarrow> string \<Rightarrow> nat list) \<Rightarrow> (string \<Rightarrow> string) \<Rightarrow> ((string, vk_entry) amap \<Rightarrow> string list)
    \<Rightarrow> gov_db \<Rightarrow> time \<Rightarrow> time \<Rightarrow> string \<Rightarrow> vk_resolver \<Rightarrow> (vk_error, Resolved) result \<times> vk_resolver"
where
  "vk_Resolve hmac hash its db now1 now2 token r =
    (case ParseToken token of
       None \<Rightarrow> (Inl ErrUnknown, r)
     | Some (i, secret) \<Rightarrow>
         (case vk_probe now1 (hash token) r of
            (Some res, r1) \<Rightarrow> (Inr res, r1)
          | (None, r1) \<Rightarrow>
              (case vk_verify hmac db i secret of
                 Inl err \<Rightarrow> (Inl err, r1)
               | Inr res \<Rightarrow> (Inr res, vk_insert its now2 (hash token) res r1))))"

definition InvalidateVK :: "string \<Rightarrow> vk_resolver \<Rightarrow> vk_resolver" where
  "InvalidateVK vkID r = r \<lparr> vr_cache := filter (\<lambda>(h, e). e_vkID e \<noteq> vkID) (vr_cache r) \<rparr>"

subsection \<open>Token format\<close>

lemma ParseToken_Compose:
  assumes "has_prefix i vk_idPrefix" and "length i > length vk_idPrefix" and "CHR ''.'' \<notin> set i"
    and "secret \<noteq> ''''"
  shows "ParseToken (ComposeToken i secret) = Some (i, secret)"
proof -
  have "drop (length TokenPrefix) (ComposeToken i secret) = i @ CHR ''.'' # secret"
    by (simp add: ComposeToken_def)
  moreover have "has_prefix (ComposeToken i secret) TokenPrefix"
    by (simp add: ComposeToken_def)
  moreover have "i \<noteq> ''''" using assms(2) by auto
  ultimately show ?thesis
    using assms by (simp add: ParseToken_def Let_def)
qed

lemma hex_digit_check: "list_all (\<lambda>n. hex_digit n \<noteq> CHR ''.'') [0..<16]"
  by code_simp

lemma hex_digit_no_dot: "hex_digit n \<noteq> CHR ''.''"
proof -
  have "hex_digit n = hex_digit (n mod 16)" by (simp add: hex_digit_def)
  then show ?thesis using hex_digit_check by (simp add: list_all_iff)
qed

lemma NewID_ok:
  assumes "rnd \<noteq> []"
  shows "has_prefix (NewID rnd) vk_idPrefix" "length (NewID rnd) > length vk_idPrefix"
    "CHR ''.'' \<notin> set (NewID rnd)"
proof -
  show "has_prefix (NewID rnd) vk_idPrefix"
    by (simp add: NewID_def)
  show "length (NewID rnd) > length vk_idPrefix"
    using assms by (cases rnd) (simp_all add: NewID_def hex_encode_def)
  show "CHR ''.'' \<notin> set (NewID rnd)"
    using hex_digit_no_dot by (auto simp: NewID_def hex_encode_def vk_idPrefix_def) metis+
qed

subsection \<open>The cache\<close>

definition vk_entries :: "vk_resolver \<Rightarrow> string \<rightharpoonup> (Resolved \<times> time)" where
  "vk_entries r h = map_option (\<lambda>e. (e_resolved e, e_expiresAt e)) (aget (vr_cache r) h)"

lemma evictOneLocked_sub: "aget (evictOneLocked now its c) h = Some e \<Longrightarrow> aget c h = Some e"
  by (auto simp: evictOneLocked_def split: option.splits list.splits if_splits)

interpretation vk_cache: ttl_cache vk_entries vr_ttl vk_probe "vk_insert its" for its
proof
  fix now h c v c' k
  assume "vk_probe now k c = (Some v, c')"
  then show "\<exists>e. vk_entries c k = Some (v, e) \<and> now \<le> e"
    by (auto simp: vk_probe_def vk_entries_def split: option.splits if_splits)
next
  fix now h c
  show "vk_entries (snd (vk_probe now h c)) \<subseteq>\<^sub>m vk_entries c"
    by (auto simp: vk_probe_def vk_entries_def map_le_def split: option.splits)
next
  fix now h v c
  show "vk_entries (vk_insert its now h v c) \<subseteq>\<^sub>m (vk_entries c)(h \<mapsto> (v, now + vr_ttl c))"
    unfolding map_le_def
  proof
    fix k
    assume "k \<in> dom (vk_entries (vk_insert its now h v c))"
    then obtain e where e: "aget (vr_cache (vk_insert its now h v c)) k = Some e"
      by (auto simp: vk_entries_def)
    then have "k \<noteq> h \<Longrightarrow> aget (vr_cache c) k = Some e"
      by (auto simp: vk_insert_def Let_def split: if_splits dest: evictOneLocked_sub)
    with e show "vk_entries (vk_insert its now h v c) k = ((vk_entries c)(h \<mapsto> (v, now + vr_ttl c))) k"
      by (cases "k = h") (auto simp: vk_entries_def vk_insert_def Let_def)
  qed
qed (auto simp: vk_probe_def vk_insert_def Let_def split: option.splits)

definition vk_cache_bounded :: "vk_resolver \<Rightarrow> bool" where
  "vk_cache_bounded r = (amap_ok (vr_cache r) \<and> length (vr_cache r) \<le> vk_maxCacheEntries)"

lemma evictOneLocked_shrinks:
  assumes "set its = set (akeys c)" and "c \<noteq> []"
  shows "length (evictOneLocked now its c) < length c"
proof -
  let ?expired = "\<lambda>h. case aget c h of None \<Rightarrow> False | Some e \<Rightarrow> e_expiresAt e < now"
  obtain h0 hs where its: "its = h0 # hs"
    using assms by (cases its) auto
  have "\<exists>h \<in> set its. evictOneLocked now its c = adel h c"
  proof (cases "List.find ?expired its")
    case None
    then show ?thesis by (simp add: evictOneLocked_def its)
  next
    case (Some h)
    from find_Some_prop [OF this] Some show ?thesis
      by (auto simp: evictOneLocked_def)
  qed
  then obtain h where "h \<in> set its" "evictOneLocked now its c = adel h c"
    by blast
  then show ?thesis using assms(1) by (simp add: length_adel_less)
qed

lemma amap_ok_evict: "amap_ok c \<Longrightarrow> amap_ok (evictOneLocked now its c)"
  by (auto simp: evictOneLocked_def split: option.splits list.splits)

lemma vk_insert_bounded:
  assumes "vk_cache_bounded r" and "\<And>c. set (its c) = set (akeys c)"
  shows "vk_cache_bounded (vk_insert its now h res r)"
proof -
  have "length (evictOneLocked now (its (vr_cache r)) (vr_cache r)) < length (vr_cache r)"
    if "length (vr_cache r) \<ge> vk_maxCacheEntries"
    using that by (intro evictOneLocked_shrinks assms(2)) (auto simp: vk_maxCacheEntries_def)
  then show ?thesis
    using assms(1)
    by (auto simp: vk_cache_bounded_def vk_insert_def Let_def length_aput amap_ok_evict)
qed

lemma vk_probe_bounded: "vk_cache_bounded r \<Longrightarrow> vk_cache_bounded (snd (vk_probe now h r))"
  using length_adel_le [of h "vr_cache r"]
  by (auto simp: vk_cache_bounded_def vk_probe_def split: option.splits)

lemma vk_Resolve_state:
  "snd (vk_Resolve hmac hash its db now1 now2 token r) = r
   \<or> snd (vk_Resolve hmac hash its db now1 now2 token r) = snd (vk_probe now1 (hash token) r)
   \<or> (\<exists>i secret res. ParseToken token = Some (i, secret) \<and> vk_verify hmac db i secret = Inr res
       \<and> snd (vk_Resolve hmac hash its db now1 now2 token r) =
           vk_insert its now2 (hash token) res (snd (vk_probe now1 (hash token) r)))"
  by (auto simp: vk_Resolve_def split: option.splits prod.splits sum.splits)

lemma vk_verify_Inr:
  assumes "vk_verify hmac db i secret = Inr res"
  obtains vk where "LookupVirtualKeyByID db i = Inr vk" "hmac (vk_Salt vk) secret = vk_HMAC vk"
    "vk_Enabled vk" "vk_RevokedAt vk = ''''" "res = resolved_of vk" "rv_VKID res = i"
  using assms
  by (auto simp: vk_verify_def VerifyHMAC_def resolved_of_def dest: LookupVirtualKeyByID_id
      split: sum.splits if_splits)

text \<open>Entries are filed under the key id of the token they were verified for.\<close>

definition vk_cache_keyed :: "(string \<Rightarrow> string) \<Rightarrow> vk_resolver \<Rightarrow> bool" where
  "vk_cache_keyed hash r =
    (amap_ok (vr_cache r) \<and> (\<forall>h e. aget (vr_cache r) h = Some e \<longrightarrow>
       (\<exists>token i secret. h = hash token \<and> ParseToken token = Some (i, secret) \<and> e_vkID e = i)))"

lemma vk_keyed_lookup:
  assumes "vk_cache_keyed hash r" and "inj hash" and "ParseToken token = Some (i, secret)"
    and "aget (vr_cache r) (hash token) = Some e"
  shows "e_vkID e = i"
proof -
  from assms(1,4) obtain token' i' secret' where
    "hash token = hash token'" "ParseToken token' = Some (i', secret')" "e_vkID e = i'"
    unfolding vk_cache_keyed_def by blast
  with assms(2,3) show ?thesis by (auto simp: inj_eq)
qed

lemma vk_probe_keyed: "vk_cache_keyed hash r \<Longrightarrow> vk_cache_keyed hash (snd (vk_probe now h r))"
  by (auto simp: vk_cache_keyed_def vk_probe_def split: option.splits if_splits)

lemma vk_insert_keyed:
  assumes "vk_cache_keyed hash r" and "ParseToken token = Some (rv_VKID res, secret)"
  shows "vk_cache_keyed hash (vk_insert its now (hash token) res r)"
  unfolding vk_cache_keyed_def
proof (intro conjI allI impI)
  show "amap_ok (vr_cache (vk_insert its now (hash token) res r))"
    using assms(1) by (auto simp: vk_insert_def vk_cache_keyed_def Let_def amap_ok_evict)
  fix h e
  assume "aget (vr_cache (vk_insert its now (hash token) res r)) h = Some e"
  then consider "h = hash token" "e_vkID e = rv_VKID res" | "aget (vr_cache r) h = Some e"
    by (auto simp: vk_insert_def Let_def split: if_splits dest: evictOneLocked_sub)
  then show "\<exists>token i secret. h = hash token \<and> ParseToken token = Some (i, secret) \<and> e_vkID e = i"
    using assms by cases (auto simp: vk_cache_keyed_def)
qed

lemma vk_Resolve_keyed:
  assumes "vk_cache_keyed hash r"
  shows "vk_cache_keyed hash (snd (vk_Resolve hmac hash its db now1 now2 token r))"
  using vk_Resolve_state [of hmac hash its db now1 now2 token r] assms
  by (auto simp: vk_probe_keyed elim!: vk_verify_Inr intro!: vk_insert_keyed)

lemma InvalidateVK_lookup:
  assumes "amap_ok (vr_cache r)" and "aget (vr_cache (InvalidateVK vkID r)) h = Some e"
  shows "aget (vr_cache r) h = Some e \<and> e_vkID e \<noteq> vkID"
  using assms by (auto simp: InvalidateVK_def aget_filter split: option.splits if_splits)

lemma InvalidateVK_keyed: "vk_cache_keyed hash r \<Longrightarrow> vk_cache_keyed hash (InvalidateVK vkID r)"
  unfolding vk_cache_keyed_def
  by (auto dest: InvalidateVK_lookup simp: InvalidateVK_def [THEN arg_cong, of vr_cache])

text \<open>After a revocation has been stored, verification refuses every secret of the key.\<close>

lemma revoked_not_verified:
  assumes "vk_ids_unique db" and "Revoke now t i db = Inr db'"
  shows "vk_verify hmac db' i secret \<in> {Inl ErrUnknown, Inl ErrRevoked}"
proof -
  from assms(2) obtain vk where vk: "GetVirtualKey db t i = Inr vk"
    and put: "PutVirtualKey now (vk \<lparr> vk_Enabled := False, vk_RevokedAt := now \<rparr>) db = Inr db'"
    by (auto simp: Revoke_def)
  from GetVirtualKey_row [OF vk] obtain x where
    x: "vk_TenantID vk = t" "vk_ID vk = i" "x \<in> set (g_vks db)" "vk_ID x = i" "vk_TenantID x = t"
    by blast
  have "\<exists>created. LookupVirtualKeyByID db' (vk_ID (vk \<lparr> vk_Enabled := False, vk_RevokedAt := now \<rparr>)) =
      Inr (vk_stored created (vk \<lparr> vk_Enabled := False, vk_RevokedAt := now \<rparr>))"
    by (rule Put_Lookup [OF put]) (use x unique_ids_tenant [OF assms(1)] in auto)
  then show ?thesis
    using x(2) by (auto simp: vk_verify_def vk_stored_def)
qed

lemma probe_after_invalidate:
  assumes "vk_cache_keyed hash r" and "inj hash" and "ParseToken token = Some (i, secret)"
  shows "fst (vk_probe now (hash token) (InvalidateVK i r)) = None"
proof (cases "aget (vr_cache (InvalidateVK i r)) (hash token)")
  case (Some e)
  then have "aget (vr_cache r) (hash token) = Some e" "e_vkID e \<noteq> i"
    using InvalidateVK_lookup assms(1) by (auto simp: vk_cache_keyed_def)
  with vk_keyed_lookup [OF assms] show ?thesis by simp
qed (simp add: vk_probe_def)

lemma Resolve_miss:
  assumes "ParseToken token = Some (i, secret)" and "fst (vk_probe now1 (hash token) r) = None"
  shows "fst (vk_Resolve hmac hash its db now1 now2 token r) = vk_verify hmac db i secret"
  using assms by (cases "vk_probe now1 (hash token) r") (auto simp: vk_Resolve_def split: sum.splits)

text \<open>A resolver state whose entries were all verified against the store as it was when they were
  written; \<open>dbat t\<close> is the store at time \<open>t\<close>.\<close>

definition vk_evidence ::
  "(nat list \<Rightarrow> string \<Rightarrow> nat list) \<Rightarrow> (string \<Rightarrow> string) \<Rightarrow> (time \<Rightarrow> gov_db) \<Rightarrow> string \<Rightarrow> Resolved \<Rightarrow> time \<Rightarrow> bool"
where
  "vk_evidence hmac hash dbat h res t0 =
    (\<exists>token i secret. h = hash token \<and> ParseToken token = Some (i, secret)
       \<and> vk_verify hmac (dbat t0) i secret = Inr res)"

definition vk_justified ::
  "(nat list \<Rightarrow> string \<Rightarrow> nat list) \<Rightarrow> (string \<Rightarrow> string) \<Rightarrow> (time \<Rightarrow> gov_db) \<Rightarrow> vk_resolver \<Rightarrow> bool"
where
  "vk_justified hmac hash dbat r =
    (\<forall>h res e. vk_entries r h = Some (res, e) \<longrightarrow> vk_evidence hmac hash dbat h res (e - vr_ttl r))"

lemma vk_justified_eq: "vk_justified hmac hash dbat = vk_cache.justified (vk_evidence hmac hash dbat)"
  by (simp add: fun_eq_iff vk_justified_def vk_cache.justified_def)

lemma vk_evidenceI:
  "ParseToken token = Some (i, secret) \<Longrightarrow> vk_verify hmac (dbat t0) i secret = Inr res
    \<Longrightarrow> vk_evidence hmac hash dbat (hash token) res t0"
  unfolding vk_evidence_def by blast

lemma vk_Resolve_justified:
  assumes "vk_justified hmac hash dbat r"
  shows "vk_justified hmac hash dbat (snd (vk_Resolve hmac hash its (dbat now2) now1 now2 token r))"
  using vk_Resolve_state [of hmac hash its "dbat now2" now1 now2 token r] assms
  unfolding vk_justified_eq
  by (auto simp: vk_cache.justified_get intro!: vk_cache.justified_put vk_evidenceI)

lemma vk_Resolve_Inr:
  assumes "fst (vk_Resolve hmac hash its db now1 now2 token r) = Inr res"
  obtains i secret where "ParseToken token = Some (i, secret)"
    "fst (vk_probe now1 (hash token) r) = Some res \<or> vk_verify hmac db i secret = Inr res"
  using assms by (auto simp: vk_Resolve_def split: option.splits prod.splits sum.splits)

lemma Create_Lookup:
  assumes "Create hmac now rid rsec salt p db = Inr (db', token)"
    and "NewID rid \<notin> vk_ID ` set (g_vks db)"
  shows "\<exists>created. LookupVirtualKeyByID db' (NewID rid) =
      Inr (vk_stored created (new_vk hmac p (NewID rid) (newSecret rsec) salt))
    \<and> token = ComposeToken (NewID rid) (newSecret rsec)"
proof -
  from assms(1) have put: "PutVirtualKey now (new_vk hmac p (NewID rid) (newSecret rsec) salt) db = Inr db'"
    and token: "token = ComposeToken (NewID rid) (newSecret rsec)"
    by (auto simp: Create_def Let_def split: if_splits)
  have "\<exists>created. LookupVirtualKeyByID db' (vk_ID (new_vk hmac p (NewID rid) (newSecret rsec) salt)) =
      Inr (vk_stored created (new_vk hmac p (NewID rid) (newSecret rsec) salt))"
    by (rule Put_Lookup [OF put]) (use assms(2) in \<open>force simp: new_vk_def\<close>)
  then show ?thesis by (simp add: new_vk_def token)
qed

lemma vk_allowed_sorted: "vk_allowed (sort xs) v = vk_allowed xs v"
  by (metis length_sort set_sort vk_allowed.simps)

subsection \<open>A concrete key\<close>

text \<open>A store with one enabled key and a transparent stand-in for the MAC, used by the witnesses.\<close>

definition sample_hmac :: "nat list \<Rightarrow> string \<Rightarrow> nat list" where
  "sample_hmac salt secret = salt @ map byte_of secret"

definition sample_vk :: VirtualKey where
  "sample_vk =
    \<lparr> vk_TenantID = ''acme'', vk_ID = ''vk_1'', vk_Name = ''ci'', vk_Salt = [7],
      vk_HMAC = sample_hmac [7] ''s3cret'', vk_ParentKind = ''none'', vk_ParentID = '''',
      vk_ProfileID = '''', vk_Scopes = [''tools''], vk_ProviderAllowlist = [], vk_ModelAllowlist = [],
      vk_MCPServerAllowlist = [], vk_Enabled = True, vk_CreatedAt = ''t0'', vk_RotatedAt = '''',
      vk_RevokedAt = '''' \<rparr>"

definition sample_gov :: gov_db where
  "sample_gov =
    \<lparr> g_fault = False, g_fk = True, g_profiles = [], g_customers = [], g_teams = [],
      g_vks = [sample_vk], g_allow = [] \<rparr>"

definition revoked_gov :: gov_db where
  "revoked_gov = sample_gov \<lparr> g_vks := [sample_vk \<lparr> vk_Enabled := False, vk_RevokedAt := ''t1'' \<rparr>] \<rparr>"

lemmas sample_defs = sample_gov_def sample_vk_def sample_hmac_def revoked_gov_def

lemma sample_unique: "vk_ids_unique sample_gov"
  by (simp add: vk_ids_unique_def sample_gov_def)

lemma sample_token: "ParseToken ''pk-portico-vk_1.s3cret'' = Some (''vk_1'', ''s3cret'')"
  by code_simp

lemma sample_revoke: "Revoke ''t1'' ''acme'' ''vk_1'' sample_gov = Inr revoked_gov"
  by (simp add: Revoke_def GetVirtualKey_def PutVirtualKey_def loadVKAllowlists_def loadVKStringSlice_def
      slice_def vk_allowlists_def replaceAllowlist_def upsert_vk_def same_vk_def existingCreatedAt_def
      Let_def sample_defs)

lemma sample_verify: "vk_verify sample_hmac sample_gov ''vk_1'' ''s3cret'' = Inr (resolved_of sample_vk)"
  by (simp add: vk_verify_def LookupVirtualKeyByID_def VerifyHMAC_def loadVKAllowlists_def
      loadVKStringSlice_def slice_def resolved_of_def sample_defs)

lemma new_resolver_keyed: "vk_cache_keyed hash (NewVKResolver t)"
  by (simp add: vk_cache_keyed_def NewVKResolver_def)

subsection \<open>Properties\<close>

text \<open>C6: once \<open>Revoke\<close> has been stored and \<open>InvalidateVK\<close> has run, no token of that key is
  authenticated by a later \<open>Resolve\<close>, whatever the cache held before; the invariant on the cache
  that this rests on is kept.\<close>

theorem vk_revocation_effective:
  assumes "vk_ids_unique db" and "inj hash" and "vk_cache_keyed hash r"
    and "Revoke now t i db = Inr db'" and "ParseToken token = Some (i, secret)"
  shows "fst (vk_Resolve hmac hash its db' now1 now2 token (InvalidateVK i r))
      \<in> {Inl ErrUnknown, Inl ErrRevoked}
    \<and> vk_cache_keyed hash (snd (vk_Resolve hmac hash its db' now1 now2 token (InvalidateVK i r)))"
  using revoked_not_verified [OF assms(1,4)] probe_after_invalidate [OF assms(3,2,5)]
    vk_Resolve_keyed [OF InvalidateVK_keyed [OF assms(3)]]
  by (simp add: Resolve_miss [OF assms(5)])

theorem vk_revocation_effective_witness:
  "fst (vk_Resolve sample_hmac (\<lambda>x. x) akeys revoked_gov 5 5 ''pk-portico-vk_1.s3cret''
      (InvalidateVK ''vk_1'' (NewVKResolver 0))) \<in> {Inl ErrUnknown, Inl ErrRevoked}"
  using vk_revocation_effective [OF sample_unique _ new_resolver_keyed sample_revoke sample_token,
      of "\<lambda>x. x" sample_hmac akeys 5 5 0]
  by (simp add: inj_on_def)

text \<open>C7: a token that \<open>Resolve\<close> accepts was verified against the store no longer than \<open>ttl\<close> ago
  (at the latest state of the store on a miss), so a revocation elsewhere bites within \<open>ttl\<close>;
  the cache stays justified.\<close>

theorem vk_resolution_recent:
  assumes "vk_justified hmac hash dbat r" and "inj hash" and "0 \<le> vr_ttl r" and "now1 \<le> now2"
    and "vk_Resolve hmac hash its (dbat now2) now1 now2 token r = (Inr res, r')"
  shows "(\<exists>t0 i secret. ParseToken token = Some (i, secret)
      \<and> vk_verify hmac (dbat t0) i secret = Inr res \<and> now1 \<le> t0 + vr_ttl r)
    \<and> vk_justified hmac hash dbat r'"
proof
  have "fst (vk_Resolve hmac hash its (dbat now2) now1 now2 token r) = Inr res"
    by (simp add: assms(5))
  then obtain i secret where tok: "ParseToken token = Some (i, secret)"
    and "fst (vk_probe now1 (hash token) r) = Some res \<or> vk_verify hmac (dbat now2) i secret = Inr res"
    by (rule vk_Resolve_Inr)
  then show "\<exists>t0 i secret. ParseToken token = Some (i, secret)
      \<and> vk_verify hmac (dbat t0) i secret = Inr res \<and> now1 \<le> t0 + vr_ttl r"
  proof (elim disjE)
    assume "fst (vk_probe now1 (hash token) r) = Some res"
    then have "vk_probe now1 (hash token) r = (Some res, snd (vk_probe now1 (hash token) r))"
      by (metis prod.collapse)
    from vk_cache.hit_is_recent [OF assms(1) [unfolded vk_justified_eq] this] obtain t0 where
      "vk_evidence hmac hash dbat (hash token) res t0" "now1 \<le> t0 + vr_ttl r" by blast
    then show ?thesis
      using assms(2) by (auto simp: vk_evidence_def inj_eq)
  qed (use tok assms(3,4) in \<open>intro exI [of _ now2], auto\<close>)
next
  show "vk_justified hmac hash dbat r'"
    using vk_Resolve_justified [OF assms(1), of its now2 now1 token] by (simp add: assms(5))
qed

theorem vk_resolution_recent_witness:
  "\<exists>t0 i secret. ParseToken ''pk-portico-vk_1.s3cret'' = Some (i, secret)
     \<and> vk_verify sample_hmac sample_gov i secret = Inr (resolved_of sample_vk)
     \<and> 5 \<le> t0 + vr_ttl (NewVKResolver 0)"
proof -
  have just: "vk_justified sample_hmac (\<lambda>x. x) (\<lambda>t. sample_gov) (NewVKResolver 0)"
    by (simp add: vk_justified_def vk_entries_def NewVKResolver_def)
  have run: "vk_Resolve sample_hmac (\<lambda>x. x) akeys ((\<lambda>t. sample_gov) 6) 5 6 ''pk-portico-vk_1.s3cret''
      (NewVKResolver 0) = (Inr (resolved_of sample_vk),
        vk_insert akeys 6 ''pk-portico-vk_1.s3cret'' (resolved_of sample_vk) (NewVKResolver 0))"
    by (simp add: vk_Resolve_def sample_token sample_verify vk_probe_def NewVKResolver_def)
  have "inj (\<lambda>x::string. x)" "0 \<le> vr_ttl (NewVKResolver 0)" "(5::int) \<le> 6"
    by (simp_all add: inj_on_def NewVKResolver_def)
  from vk_resolution_recent [OF just this run] show ?thesis by simp
qed

text \<open>Without that sequencing the promise fails.  When the lookup of a \<open>Resolve\<close> precedes the
  revocation and its cache insert follows the invalidation, the revoked key keeps being
  authenticated from the cache until the entry expires, although verification already refuses it.\<close>

theorem vk_revocation_race:
  assumes "vk_ids_unique db" and "ParseToken token = Some (i, secret)"
    and "vk_verify hmac db i secret = Inr res" and "Revoke ts t i db = Inr db'"
    and "now' < now + vr_ttl r"
  shows "let r1 = snd (vk_probe now (hash token) r);
             r2 = InvalidateVK i r1;
             r3 = vk_insert its now (hash token) res r2
         in fst (vk_Resolve hmac hash its db' now' now' token r3) = Inr res
            \<and> vk_verify hmac db' i secret \<in> {Inl ErrUnknown, Inl ErrRevoked}"
proof -
  have "vr_ttl (snd (vk_probe now (hash token) r)) = vr_ttl r"
    by (rule vk_cache.ttl_get)
  then show ?thesis
    using assms(2,5) revoked_not_verified [OF assms(1,4), of hmac secret]
    by (simp add: Let_def vk_Resolve_def vk_probe_def [of now'] vk_insert_def InvalidateVK_def)
qed

theorem vk_revocation_race_witness:
  "fst (vk_Resolve sample_hmac (\<lambda>x. x) akeys revoked_gov 9 9 ''pk-portico-vk_1.s3cret''
      (vk_insert akeys 5 ''pk-portico-vk_1.s3cret'' (resolved_of sample_vk)
        (InvalidateVK ''vk_1'' (NewVKResolver 0)))) = Inr (resolved_of sample_vk)"
proof -
  have "(9::int) < 5 + vr_ttl (NewVKResolver 0)" by (simp add: NewVKResolver_def)
  moreover have "snd (vk_probe 5 ''pk-portico-vk_1.s3cret'' (NewVKResolver 0)) = NewVKResolver 0"
    by (simp add: vk_probe_def NewVKResolver_def)
  ultimately show ?thesis
    using vk_revocation_race [OF sample_unique sample_token sample_verify sample_revoke,
        of 9 5 "NewVKResolver 0" "\<lambda>x. x" akeys]
    by (simp add: Let_def)
qed

text \<open>A key that \<open>Create\<close> issued authenticates with the token it returned, as the tenant and with
  the scopes and allowlists it was created with (blank entries dropped), and any other secret is
  accepted for it only if it has the same HMAC under the key's salt.\<close>

theorem vk_create_authenticates:
  assumes "Create hmac now rid rsec salt p db = Inr (db', token)"
    and "rid \<noteq> []" and "rsec \<noteq> []" and "NewID rid \<notin> vk_ID ` set (g_vks db)"
  shows "\<exists>res. fst (vk_Resolve hmac hash its db' now1 now2 token (NewVKResolver ttl)) = Inr res
    \<and> rv_VKID res = NewID rid \<and> rv_TenantID res = cp_TenantID p \<and> rv_Scopes res = cp_Scopes p
    \<and> (\<forall>s. vk_AllowsServer res s = vk_allowed (filter (\<lambda>x. x \<noteq> '''') (cp_MCPServerAllowlist p)) s)
    \<and> (\<forall>m. vk_AllowsModel res m = vk_allowed (filter (\<lambda>x. x \<noteq> '''') (cp_ModelAllowlist p)) m)
    \<and> (\<forall>s' res'. vk_verify hmac db' (NewID rid) s' = Inr res' \<longrightarrow> hmac salt s' = hmac salt (newSecret rsec))"
proof -
  obtain created where look: "LookupVirtualKeyByID db' (NewID rid) =
      Inr (vk_stored created (new_vk hmac p (NewID rid) (newSecret rsec) salt))"
    and token: "token = ComposeToken (NewID rid) (newSecret rsec)"
    using Create_Lookup [OF assms(1,4)] by blast
  have parse: "ParseToken token = Some (NewID rid, newSecret rsec)"
    unfolding token by (rule ParseToken_Compose) (use NewID_ok [OF assms(2)] assms(3) in \<open>auto simp: newSecret_def\<close>)
  have miss: "fst (vk_probe now1 (hash token) (NewVKResolver ttl)) = None"
    by (simp add: vk_probe_def NewVKResolver_def)
  have ver: "vk_verify hmac db' (NewID rid) (newSecret rsec) =
      Inr (resolved_of (vk_stored created (new_vk hmac p (NewID rid) (newSecret rsec) salt)))"
    by (simp add: vk_verify_def look VerifyHMAC_def vk_stored_def new_vk_def)
  have other: "hmac salt s' = hmac salt (newSecret rsec)" if "vk_verify hmac db' (NewID rid) s' = Inr res'" for s' res'
    using that by (auto simp: vk_verify_def look VerifyHMAC_def vk_stored_def new_vk_def split: if_splits)
  show ?thesis
    unfolding Resolve_miss [where hash = hash, OF parse miss] ver
    using other
    by (auto simp: resolved_of_def vk_stored_def new_vk_def vk_AllowsServer_def vk_AllowsModel_def
        vk_allowed_sorted simp del: vk_allowed.simps)
qed

theorem vk_create_authenticates_witness:
  "\<exists>db' token res. fst (vk_Resolve sample_hmac (\<lambda>x. x) akeys db' 1 2 token (NewVKResolver 0)) = Inr res
     \<and> rv_TenantID res = ''acme'' \<and> rv_Scopes res = [''tools'']"
proof -
  define p where "p = \<lparr> cp_TenantID = ''acme'', cp_Name = ''bot'', cp_Scopes = [''tools''],
    cp_ProviderAllowlist = [], cp_ModelAllowlist = [], cp_MCPServerAllowlist = [''github''],
    cp_ProfileID = '''', cp_ParentKind = '''', cp_ParentID = '''' \<rparr>"
  have "\<exists>out. Create sample_hmac ''t2'' [1, 2] [3, 4] [9] p sample_gov = Inr out"
    by (simp add: Create_def PutVirtualKey_def new_vk_def p_def vk_allowlists_def replaceAllowlist_def
        sample_defs NewID_def vk_idPrefix_def Let_def)
  then obtain db' token where c: "Create sample_hmac ''t2'' [1, 2] [3, 4] [9] p sample_gov = Inr (db', token)"
    by (metis surj_pair)
  have "NewID [1, 2] \<notin> vk_ID ` set (g_vks sample_gov)"
    by (simp add: sample_defs NewID_def vk_idPrefix_def hex_encode_def hex_digit_def)
  with vk_create_authenticates [OF c, of "\<lambda>x. x" akeys 1 2 0] show ?thesis
    by (auto simp: p_def)
qed

end
