(* ===== verification/Tenant_Auth.thy ===== *)
theory Tenant_Auth
  imports Virtual_Keys Json
begin

text \<open>
  Request authentication: \<open>internal/auth/tenant\<close> (identity and middleware),
  \<open>internal/auth/scope\<close> and the validator of \<open>internal/auth/jwt\<close>.  The JWT
  library (\<open>golang-jwt/v5\<close>) is an argument: a record of its parser and claim
  accessors.  A middleware is a function from the request and the state it
  touches to the outcome (pass on with an identity, or reject with a status
  and code) and the new state.
\<close>

subsection \<open>context.go\<close>

record Identity =
  id_TenantID :: string
  id_UserID :: string
  id_Plan :: string
  id_Scopes :: "string list"
  id_Issuer :: string
  id_Subject :: string
  id_DevMode :: bool
  id_RawToken :: string

definition HasScope :: "Identity \<Rightarrow> string \<Rightarrow> bool" where
  "HasScope i s = (s \<in> set (id_Scopes i))"

subsection \<open>scope.go\<close>

definition ScopeAdmin :: string where
  "ScopeAdmin = ''admin''"

definition hasScopeOrAdmin :: "Identity \<Rightarrow> string \<Rightarrow> bool" where
  "hasScopeOrAdmin i s =
    (if s = '''' then True
     else if HasScope i s then True
     else if s \<noteq> ScopeAdmin \<and> HasScope i ScopeAdmin then True
     else False)"

datatype auth_outcome =
    Pass "Identity option" "Resolved option"
  | Reject nat string

definition scope_Require :: "string \<Rightarrow> Identity option \<Rightarrow> Resolved option \<Rightarrow> auth_outcome" where
  "scope_Require s ido vk =
    (case ido of
       None \<Rightarrow> Reject 401 ''unauthorized''
     | Some i \<Rightarrow> if \<not> hasScopeOrAdmin i s then Reject 403 ''permission_denied'' else Pass (Some i) vk)"

subsection \<open>jwt/validator.go\<close>

datatype pubkey = RSAKey | ECKey nat

record jwt_header =
  h_alg :: string
  h_kid :: string

record Claims =
  cl_Subject :: string
  cl_Issuer :: string
  cl_Audience :: "string list"
  cl_Tenant :: string
  cl_Plan :: string
  cl_Scopes :: "string list"
  cl_ExpiresAt :: "time option"
  cl_IssuedAt :: "time option"
  cl_Raw :: "(string \<times> json) list"

record JWTConfig =
  jc_Issuer :: string
  jc_Audiences :: "string list"
  jc_TenantClaim :: string
  jc_ScopeClaim :: string
  jc_RequiredScope :: string

text \<open>What the validator uses of the JWT library.  \<open>lib_parse\<close> receives the raw token and the key
  function and returns the claims of a valid token; it is built with the validator's algorithm list
  and issuer (\<open>WithValidMethods\<close>, \<open>WithIssuer\<close>).  \<open>lib_header\<close> is the header a raw token decodes to and
  \<open>lib_signed\<close> says that the raw token carries the claims under a signature the key verifies; the validator
  does not call these two, they name what the parser promises about the token it accepts.\<close>

record jwt_lib =
  lib_header :: "string \<Rightarrow> jwt_header option"
  lib_signed :: "string \<Rightarrow> pubkey \<Rightarrow> (string \<times> json) list \<Rightarrow> bool"
  lib_parse :: "string \<Rightarrow> (jwt_header \<Rightarrow> (string, pubkey) result) \<Rightarrow> (string, (string \<times> json) list) result"
  lib_audience :: "(string \<times> json) list \<Rightarrow> string list option"
  lib_expires :: "(string \<times> json) list \<Rightarrow> time option"
  lib_issued :: "(string \<times> json) list \<Rightarrow> time option"

definition allowedAlgs :: "string list" where
  "allowedAlgs = [''RS256'', ''RS384'', ''RS512'', ''ES256'', ''ES384'', ''ES512'']"

definition algAllowed :: "string \<Rightarrow> bool" where
  "algAllowed alg = (alg \<in> set allowedAlgs)"

definition curveMatches :: "nat \<Rightarrow> string \<Rightarrow> bool" where
  "curveMatches bits alg =
    (if alg = ''ES256'' then bits = 256
     else if alg = ''ES384'' then bits = 384
     else if alg = ''ES512'' then bits = 521
     else False)"

definition assertKeyAlg :: "pubkey \<Rightarrow> string \<Rightarrow> bool" where
  "assertKeyAlg k alg =
    (if alg \<in> set [''ES256'', ''ES384'', ''ES512'']
     then (case k of ECKey bits \<Rightarrow> curveMatches bits alg | RSAKey \<Rightarrow> True)
     else True)"

definition jwt_keyfunc :: "(string \<Rightarrow> (string, pubkey) result) \<Rightarrow> jwt_header \<Rightarrow> (string, pubkey) result" where
  "jwt_keyfunc lookup t =
    (if \<not> algAllowed (h_alg t) then Inl ''disallowed alg''
     else if h_kid t = '''' then Inl ''missing kid header''
     else res_bind (lookup (h_kid t)) (\<lambda>k.
       if \<not> assertKeyAlg k (h_alg t) then Inl ''alg does not match curve'' else Inr k))"

definition claim_or :: "string \<Rightarrow> string \<Rightarrow> string" where
  "claim_or c def = (if c = '''' then def else c)"

definition string_claim :: "(string \<times> json) list \<Rightarrow> string \<Rightarrow> string" where
  "string_claim mc k = (case as_string (map_of mc k) of None \<Rightarrow> '''' | Some s \<Rightarrow> s)"

definition scope_claim :: "(string \<times> json) list \<Rightarrow> string \<Rightarrow> string list" where
  "scope_claim mc k =
    (case map_of mc k of
       Some (JStr sv) \<Rightarrow> str_fields sv
     | Some (JArr sv) \<Rightarrow> strings_of sv
     | _ \<Rightarrow> [])"

definition jwt_Validate ::
  "jwt_lib \<Rightarrow> JWTConfig \<Rightarrow> (string \<Rightarrow> (string, pubkey) result) \<Rightarrow> string \<Rightarrow> (string, Claims) result"
where
  "jwt_Validate lib cfg lookup raw =
    (if raw = '''' then Inl ''empty token''
     else case lib_parse lib raw (jwt_keyfunc lookup) of
       Inl e \<Rightarrow> Inl e
     | Inr mc \<Rightarrow>
         let aud = (case lib_audience lib mc of None \<Rightarrow> [] | Some a \<Rightarrow> a) in
         if length (jc_Audiences cfg) > 0 \<and> \<not> (\<exists>want \<in> set (jc_Audiences cfg). want \<in> set aud)
         then Inl ''audience mismatch''
         else
           let tenant = string_claim mc (claim_or (jc_TenantClaim cfg) ''tenant'');
               scopes = scope_claim mc (claim_or (jc_ScopeClaim cfg) ''scope'') in
           if tenant = '''' then Inl ''tenant claim missing''
           else if jc_RequiredScope cfg \<noteq> '''' \<and> jc_RequiredScope cfg \<notin> set scopes
           then Inl ''missing required scope''
           else Inr \<lparr> cl_Subject = string_claim mc ''sub'', cl_Issuer = string_claim mc ''iss'',
                      cl_Audience = aud, cl_Tenant = tenant, cl_Plan = string_claim mc ''plan'',
                      cl_Scopes = scopes, cl_ExpiresAt = lib_expires lib mc,
                      cl_IssuedAt = lib_issued lib mc, cl_Raw = mc \<rparr>)"

subsection \<open>The tenant store\<close>

record Tenant =
  tn_ID :: string
  tn_DisplayName :: string
  tn_Plan :: string
  tn_RuntimeMode :: string
  tn_MaxConcurrentSessions :: int
  tn_MaxRequestsPerMinute :: int
  tn_AuditRetentionDays :: int
  tn_JWTIssuer :: string
  tn_JWTJWKSURL :: string
  tn_Status :: string
  tn_CreatedAt :: time
  tn_UpdatedAt :: time

record tenant_db =
  tdb_fault :: bool
  tdb_rows :: "(string, Tenant) amap"

definition tenant_Get :: "tenant_db \<Rightarrow> string \<Rightarrow> (store_error, Tenant) result" where
  "tenant_Get db i =
    (if tdb_fault db then Inl ErrSQL
     else case aget (tdb_rows db) i of None \<Rightarrow> Inl ErrNotFound | Some t \<Rightarrow> Inr t)"

definition tenant_List :: "tenant_db \<Rightarrow> (store_error, Tenant list) result" where
  "tenant_List db = (if tdb_fault db then Inl ErrSQL else Inr (map snd (sort_key fst (tdb_rows db))))"

definition or_default :: "int \<Rightarrow> int \<Rightarrow> int" where
  "or_default v d = (if v = 0 then d else v)"

text \<open>\<open>sqlnow\<close> is SQLite's clock; a zero creation time (\<open>zero\<close>) takes it as well.\<close>

definition tenant_Upsert :: "time \<Rightarrow> time \<Rightarrow> Tenant \<Rightarrow> tenant_db \<Rightarrow> (store_error, tenant_db) result" where
  "tenant_Upsert zero sqlnow t db =
    (if tn_ID t = '''' then Inl ErrArgs
     else if tdb_fault db then Inl ErrSQL
     else
       let created = (case aget (tdb_rows db) (tn_ID t) of
             Some old \<Rightarrow> tn_CreatedAt old
           | None \<Rightarrow> if tn_CreatedAt t = zero then sqlnow else tn_CreatedAt t);
           row = t \<lparr> tn_RuntimeMode := claim_or (tn_RuntimeMode t) ''shared_global'',
                     tn_Status := claim_or (tn_Status t) ''active'',
                     tn_MaxConcurrentSessions := or_default (tn_MaxConcurrentSessions t) 16,
                     tn_MaxRequestsPerMinute := or_default (tn_MaxRequestsPerMinute t) 600,
                     tn_AuditRetentionDays := or_default (tn_AuditRetentionDays t) 30,
                     tn_CreatedAt := created, tn_UpdatedAt := sqlnow \<rparr> in
       Inr (db \<lparr> tdb_rows := aput (tn_ID t) row (tdb_rows db) \<rparr>))"

definition tenant_Delete :: "string \<Rightarrow> tenant_db \<Rightarrow> (store_error, tenant_db) result" where
  "tenant_Delete i db =
    (if tdb_fault db then Inl ErrSQL
     else if aget (tdb_rows db) i = None then Inl ErrNotFound
     else Inr (db \<lparr> tdb_rows := adel i (tdb_rows db) \<rparr>))"

subsection \<open>middleware.go\<close>

definition isAlwaysAllowed :: "string \<Rightarrow> bool" where
  "isAlwaysAllowed path =
    (path \<in> set [''/healthz'', ''/readyz'', ''/favicon.svg'', ''/favicon.ico'', ''/robots.txt'']
     \<or> has_prefix path ''/_app/'')"

record auth_config =
  ac_Validator :: "(string \<Rightarrow> (string, Claims) result) option"
  ac_DevMode :: bool
  ac_DevTenant :: string
  ac_EnvTenant :: string
  ac_UseVK :: bool

record auth_state =
  as_tenants :: tenant_db
  as_gov :: gov_db
  as_vk :: vk_resolver

text \<open>The ambient inputs of one request: the MAC and hash, map iteration order, and clock readings.\<close>

record auth_env =
  ev_hmac :: "nat list \<Rightarrow> string \<Rightarrow> nat list"
  ev_hash :: "string \<Rightarrow> string"
  ev_its :: "(string, vk_entry) amap \<Rightarrow> string list"
  ev_now1 :: time
  ev_now2 :: time
  ev_zero :: time

definition devTenantFromEnv :: "string \<Rightarrow> string" where
  "devTenantFromEnv v = (if v \<noteq> '''' then v else ''dev'')"

definition firstNonEmpty :: "string list \<Rightarrow> string" where
  "firstNonEmpty ss = (case List.find (\<lambda>s. s \<noteq> '''') ss of None \<Rightarrow> '''' | Some s \<Rightarrow> s)"

definition ensureDevTenant :: "auth_env \<Rightarrow> string \<Rightarrow> tenant_db \<Rightarrow> tenant_db" where
  "ensureDevTenant ev i db =
    (if i = '''' then db
     else case tenant_Get db i of
       Inr t \<Rightarrow> db
     | Inl e \<Rightarrow>
         (case tenant_Upsert (ev_zero ev) (ev_now1 ev)
            \<lparr> tn_ID = i, tn_DisplayName = ''Development Tenant'', tn_Plan = ''enterprise'',
              tn_RuntimeMode = '''', tn_MaxConcurrentSessions = 0, tn_MaxRequestsPerMinute = 0,
              tn_AuditRetentionDays = 0, tn_JWTIssuer = '''', tn_JWTJWKSURL = '''', tn_Status = '''',
              tn_CreatedAt = ev_now1 ev, tn_UpdatedAt = ev_now1 ev \<rparr> db of
            Inl e \<Rightarrow> db | Inr db' \<Rightarrow> db'))"

definition vk_identity :: "Resolved \<Rightarrow> Identity" where
  "vk_identity r =
    \<lparr> id_TenantID = rv_TenantID r, id_UserID = ''vk:'' @ rv_VKID r, id_Plan = '''',
      id_Scopes = rv_Scopes r, id_Issuer = '''', id_Subject = ''vk:'' @ rv_VKID r,
      id_DevMode = False, id_RawToken = '''' \<rparr>"

definition dev_identity :: "string \<Rightarrow> Identity" where
  "dev_identity t =
    \<lparr> id_TenantID = t, id_UserID = ''dev'', id_Plan = ''enterprise'', id_Scopes = [''admin''],
      id_Issuer = '''', id_Subject = '''', id_DevMode = True, id_RawToken = '''' \<rparr>"

definition jwt_identity :: "Tenant \<Rightarrow> Claims \<Rightarrow> string \<Rightarrow> Identity" where
  "jwt_identity t c raw =
    \<lparr> id_TenantID = tn_ID t, id_UserID = cl_Subject c,
      id_Plan = firstNonEmpty [cl_Plan c, tn_Plan t], id_Scopes = cl_Scopes c,
      id_Issuer = cl_Issuer c, id_Subject = cl_Subject c, id_DevMode = False, id_RawToken = raw \<rparr>"

definition bearer_of :: "string \<Rightarrow> string" where
  "bearer_of authz = trim_space (trim_prefix authz ''Bearer '')"

definition auth_jwt :: "auth_config \<Rightarrow> string \<Rightarrow> auth_state \<Rightarrow> auth_outcome" where
  "auth_jwt cfg authz st =
    (case ac_Validator cfg of
       None \<Rightarrow> Reject 500 ''auth_misconfigured''
     | Some validate \<Rightarrow>
         if \<not> has_prefix authz ''Bearer '' then Reject 401 ''unauthorized''
         else case validate (bearer_of authz) of
           Inl e \<Rightarrow> Reject 401 ''unauthorized''
         | Inr claims \<Rightarrow>
             (case tenant_Get (as_tenants st) (cl_Tenant claims) of
                Inl e \<Rightarrow> Reject 401 ''unknown_tenant''
              | Inr t \<Rightarrow> Pass (Some (jwt_identity t claims (bearer_of authz))) None))"

definition dev_tenant_of :: "auth_config \<Rightarrow> string" where
  "dev_tenant_of cfg =
    (if ac_DevMode cfg \<and> ac_DevTenant cfg = '''' then devTenantFromEnv (ac_EnvTenant cfg) else ac_DevTenant cfg)"

definition tenant_Middleware ::
  "auth_config \<Rightarrow> auth_env \<Rightarrow> string \<Rightarrow> string \<Rightarrow> auth_state \<Rightarrow> auth_outcome \<times> auth_state"
where
  "tenant_Middleware cfg ev path authz st =
    (if isAlwaysAllowed path then (Pass None None, st)
     else if ac_UseVK cfg \<and> has_prefix authz ''Bearer '' \<and> LooksLikeVK (bearer_of authz) then
       (case vk_Resolve (ev_hmac ev) (ev_hash ev) (ev_its ev) (as_gov st) (ev_now1 ev) (ev_now2 ev)
               (bearer_of authz) (as_vk st) of
          (Inl err, vk') \<Rightarrow>
            (Reject 401 (if err = ErrRevoked then ''vk_revoked'' else ''vk_unknown''), st \<lparr> as_vk := vk' \<rparr>)
        | (Inr res, vk') \<Rightarrow> (Pass (Some (vk_identity res)) (Some res), st \<lparr> as_vk := vk' \<rparr>))
     else if ac_DevMode cfg then
       (Pass (Some (dev_identity (dev_tenant_of cfg))) None,
        st \<lparr> as_tenants := ensureDevTenant ev (dev_tenant_of cfg) (as_tenants st) \<rparr>)
     else (auth_jwt cfg authz st, st))"

subsection \<open>Facts about validation\<close>

lemma jwt_keyfunc_Inr:
  "jwt_keyfunc lookup hdr = Inr k \<longleftrightarrow>
    algAllowed (h_alg hdr) \<and> h_kid hdr \<noteq> '''' \<and> lookup (h_kid hdr) = Inr k \<and> assertKeyAlg k (h_alg hdr)"
  by (auto simp: jwt_keyfunc_def)

lemma jwt_Validate_Inr:
  assumes "jwt_Validate lib cfg lookup raw = Inr c"
  shows "\<exists>mc. lib_parse lib raw (jwt_keyfunc lookup) = Inr mc \<and> cl_Raw c = mc
    \<and> cl_Tenant c = string_claim mc (claim_or (jc_TenantClaim cfg) ''tenant'') \<and> cl_Tenant c \<noteq> ''''
    \<and> (jc_Audiences cfg = [] \<or> set (jc_Audiences cfg) \<inter> set (cl_Audience c) \<noteq> {})
    \<and> (jc_RequiredScope cfg = '''' \<or> jc_RequiredScope cfg \<in> set (cl_Scopes c))"
proof -
  obtain mc where mc: "lib_parse lib raw (jwt_keyfunc lookup) = Inr mc"
    using assms by (auto simp: jwt_Validate_def split: if_splits sum.splits)
  define aud where "aud = (case lib_audience lib mc of None \<Rightarrow> [] | Some a \<Rightarrow> a)"
  have "\<not> (length (jc_Audiences cfg) > 0 \<and> \<not> (\<exists>want \<in> set (jc_Audiences cfg). want \<in> set aud))"
    "cl_Audience c = aud"
    using assms mc by (simp_all add: jwt_Validate_def Let_def aud_def [symmetric] split: if_splits)
      (auto split: if_splits)
  then have "jc_Audiences cfg = [] \<or> set (jc_Audiences cfg) \<inter> set (cl_Audience c) \<noteq> {}"
    by auto
  moreover have "cl_Raw c = mc" "cl_Tenant c = string_claim mc (claim_or (jc_TenantClaim cfg) ''tenant'')"
    "cl_Tenant c \<noteq> ''''" "jc_RequiredScope cfg = '''' \<or> jc_RequiredScope cfg \<in> set (cl_Scopes c)"
    using assms mc by (auto simp: jwt_Validate_def Let_def split: if_splits)
  ultimately show ?thesis
    using mc by blast
qed

text \<open>
  The documented behaviour of the JWT library the validator rests on: a token
  is accepted only if the key function, called with the header of this very
  token, returned a key, and the signature over the returned claims verifies
  under that key.
\<close>

definition consults_keyfunc :: "jwt_lib \<Rightarrow> bool" where
  "consults_keyfunc L \<longleftrightarrow> (\<forall>raw kf mc. lib_parse L raw kf = Inr mc \<longrightarrow>
     (\<exists>hdr k. lib_header L raw = Some hdr \<and> kf hdr = Inr k \<and> lib_signed L raw k mc))"

lemma accepted_token_keyed:
  assumes "consults_keyfunc L" and "lib_parse L raw (jwt_keyfunc lookup) = Inr mc"
  shows "\<exists>hdr k. lib_header L raw = Some hdr \<and> jwt_keyfunc lookup hdr = Inr k \<and> lib_signed L raw k mc"
  using assms unfolding consults_keyfunc_def by blast

lemma assertKeyAlg_curve:
  "assertKeyAlg (ECKey bits) alg \<Longrightarrow> alg \<in> {''ES256'', ''ES384'', ''ES512''} \<Longrightarrow>
    (alg, bits) \<in> {(''ES256'', 256), (''ES384'', 384), (''ES512'', 521)}"
  by (auto simp: assertKeyAlg_def curveMatches_def split: if_splits)

text \<open>A library that decodes one fixed token, for the witness.\<close>

definition fixed_token_lib :: "jwt_header \<Rightarrow> (string \<times> json) list \<Rightarrow> jwt_lib" where
  "fixed_token_lib hdr mc = \<lparr> lib_header = (\<lambda>raw. Some hdr), lib_signed = (\<lambda>raw k m. m = mc),
     lib_parse = (\<lambda>raw kf. res_bind (kf hdr) (\<lambda>k. Inr mc)),
     lib_audience = (\<lambda>mc. None), lib_expires = (\<lambda>mc. None), lib_issued = (\<lambda>mc. None) \<rparr>"

lemma fixed_token_consults: "consults_keyfunc (fixed_token_lib hdr mc)"
  by (auto simp: consults_keyfunc_def fixed_token_lib_def)

definition tenants_keyed :: "tenant_db \<Rightarrow> bool" where
  "tenants_keyed db = (\<forall>k t. aget (tdb_rows db) k = Some t \<longrightarrow> tn_ID t = k)"

lemma tenant_Upsert_keyed:
  assumes "tenants_keyed db" and "tenant_Upsert zero sqlnow t db = Inr db'"
  shows "tenants_keyed db'"
  using assms by (auto simp: tenants_keyed_def tenant_Upsert_def Let_def split: if_splits)

lemma tenant_Delete_keyed: "tenants_keyed db \<Longrightarrow> tenant_Delete i db = Inr db' \<Longrightarrow> tenants_keyed db'"
  by (auto simp: tenants_keyed_def tenant_Delete_def split: if_splits)

lemma ensureDevTenant_keyed: "tenants_keyed db \<Longrightarrow> tenants_keyed (ensureDevTenant ev i db)"
  by (auto simp: ensureDevTenant_def split: sum.splits intro: tenant_Upsert_keyed)

lemma ensureDevTenant_registers:
  assumes "i \<noteq> ''''" and "\<not> tdb_fault db"
  shows "\<exists>t. tenant_Get (ensureDevTenant ev i db) i = Inr t"
  using assms by (auto simp: ensureDevTenant_def tenant_Get_def tenant_Upsert_def Let_def split: option.splits)

lemma tenant_Get_keyed: "tenants_keyed db \<Longrightarrow> tenant_Get db i = Inr t \<Longrightarrow> tn_ID t = i"
  by (auto simp: tenants_keyed_def tenant_Get_def split: if_splits option.splits)

lemma auth_jwt_Pass:
  assumes "auth_jwt cfg authz st = Pass ido vko"
  shows "\<exists>validate claims t. ac_Validator cfg = Some validate \<and> validate (bearer_of authz) = Inr claims
    \<and> tenant_Get (as_tenants st) (cl_Tenant claims) = Inr t
    \<and> ido = Some (jwt_identity t claims (bearer_of authz)) \<and> vko = None"
  using assms by (auto simp: auth_jwt_def split: option.splits if_splits sum.splits)

subsection \<open>Properties\<close>

text \<open>C8: every identity the middleware lets through comes from one of its three sources: a virtual
  key that \<open>Resolve\<close> accepted (tenant and scopes are the key's), dev mode, or a validated JWT
  whose tenant claim names a registered tenant (tenant and scopes are the token's).  Only the
  public paths pass without an identity.\<close>

theorem auth_identity_provenance:
  assumes "tenant_Middleware cfg ev path authz st = (Pass ido vko, st')" and "tenants_keyed (as_tenants st)"
  shows "(ido = None \<longleftrightarrow> isAlwaysAllowed path)
    \<and> (\<forall>i. ido = Some i \<longrightarrow>
        (\<exists>res. vko = Some res \<and> i = vk_identity res
           \<and> fst (vk_Resolve (ev_hmac ev) (ev_hash ev) (ev_its ev) (as_gov st) (ev_now1 ev) (ev_now2 ev)
                 (bearer_of authz) (as_vk st)) = Inr res)
        \<or> (ac_DevMode cfg \<and> vko = None \<and> i = dev_identity (dev_tenant_of cfg))
        \<or> (\<exists>validate claims t. vko = None \<and> ac_Validator cfg = Some validate
             \<and> validate (bearer_of authz) = Inr claims
             \<and> tenant_Get (as_tenants st) (cl_Tenant claims) = Inr t
             \<and> id_TenantID i = cl_Tenant claims \<and> id_Scopes i = cl_Scopes claims
             \<and> id_Subject i = cl_Subject claims))"
  using assms
  by (auto simp: tenant_Middleware_def jwt_identity_def
      split: if_splits prod.splits sum.splits dest!: auth_jwt_Pass dest: tenant_Get_keyed)

theorem auth_identity_provenance_witness:
  "\<exists>st'. tenant_Middleware \<lparr> ac_Validator = None, ac_DevMode = True, ac_DevTenant = '''',
        ac_EnvTenant = '''', ac_UseVK = False \<rparr>
      \<lparr> ev_hmac = sample_hmac, ev_hash = (\<lambda>x. x), ev_its = akeys, ev_now1 = 1, ev_now2 = 1, ev_zero = 0 \<rparr>
      ''/mcp'' '''' \<lparr> as_tenants = \<lparr> tdb_fault = False, tdb_rows = [] \<rparr>, as_gov = sample_gov,
        as_vk = NewVKResolver 0 \<rparr> = (Pass (Some (dev_identity ''dev'')) None, st')
    \<and> \<not> isAlwaysAllowed ''/mcp''"
proof -
  define cfg where "cfg = \<lparr> ac_Validator = None, ac_DevMode = True, ac_DevTenant = '''',
        ac_EnvTenant = '''', ac_UseVK = False \<rparr>"
  define ev where "ev = \<lparr> ev_hmac = sample_hmac, ev_hash = (\<lambda>x::string. x), ev_its = akeys,
    ev_now1 = 1, ev_now2 = 1, ev_zero = 0 \<rparr>"
  define st where "st = \<lparr> as_tenants = \<lparr> tdb_fault = False, tdb_rows = [] \<rparr>, as_gov = sample_gov,
    as_vk = NewVKResolver 0 \<rparr>"
  have "isAlwaysAllowed ''/mcp'' = False" by code_simp
  then obtain st' where run: "tenant_Middleware cfg ev ''/mcp'' '''' st = (Pass (Some (dev_identity ''dev'')) None, st')"
    by (auto simp: tenant_Middleware_def cfg_def dev_tenant_of_def devTenantFromEnv_def)
  moreover have "tenants_keyed (as_tenants st)"
    by (simp add: tenants_keyed_def st_def)
  ultimately show ?thesis
    using auth_identity_provenance [OF run] by (auto simp: cfg_def ev_def st_def)
qed

text \<open>C23: with a JWT library that calls the key function on the header of the token it parses and verifies
  the signature under the returned key, a token the validator accepts has in its own header an allowed
  (asymmetric) algorithm and a key id the key set knows; its claims are signed under that key, whose curve is
  the one of the algorithm when it is an elliptic-curve key used with an ES algorithm; the tenant is the
  non-empty tenant claim of the signed claims, an audience is matched when any is configured, and the
  required scope is carried.\<close>

theorem jwt_validation_sound:
  assumes "consults_keyfunc lib" and "jwt_Validate lib cfg lookup raw = Inr c"
  shows "(\<exists>hdr k. lib_header lib raw = Some hdr
           \<and> h_alg hdr \<in> {''RS256'', ''RS384'', ''RS512'', ''ES256'', ''ES384'', ''ES512''}
           \<and> h_kid hdr \<noteq> '''' \<and> lookup (h_kid hdr) = Inr k
           \<and> (\<forall>bits. k = ECKey bits \<and> h_alg hdr \<in> {''ES256'', ''ES384'', ''ES512''} \<longrightarrow>
                (h_alg hdr, bits) \<in> {(''ES256'', 256), (''ES384'', 384), (''ES512'', 521)})
           \<and> lib_signed lib raw k (cl_Raw c))
    \<and> cl_Tenant c = string_claim (cl_Raw c) (claim_or (jc_TenantClaim cfg) ''tenant'') \<and> cl_Tenant c \<noteq> ''''
    \<and> (jc_Audiences cfg = [] \<or> set (jc_Audiences cfg) \<inter> set (cl_Audience c) \<noteq> {})
    \<and> (jc_RequiredScope cfg = '''' \<or> jc_RequiredScope cfg \<in> set (cl_Scopes c))"
proof -
  obtain mc where mc: "lib_parse lib raw (jwt_keyfunc lookup) = Inr mc" and raw: "cl_Raw c = mc"
    and tenant: "cl_Tenant c = string_claim mc (claim_or (jc_TenantClaim cfg) ''tenant'')" "cl_Tenant c \<noteq> ''''"
    and rest: "jc_Audiences cfg = [] \<or> set (jc_Audiences cfg) \<inter> set (cl_Audience c) \<noteq> {}"
    "jc_RequiredScope cfg = '''' \<or> jc_RequiredScope cfg \<in> set (cl_Scopes c)"
    using jwt_Validate_Inr [OF assms(2)] by blast
  obtain hdr k where hdr: "lib_header lib raw = Some hdr" and kf: "jwt_keyfunc lookup hdr = Inr k"
    and signed: "lib_signed lib raw k (cl_Raw c)"
    using accepted_token_keyed [OF assms(1) mc] raw by blast
  have key: "h_alg hdr \<in> {''RS256'', ''RS384'', ''RS512'', ''ES256'', ''ES384'', ''ES512''}"
    "h_kid hdr \<noteq> ''''" "lookup (h_kid hdr) = Inr k" "assertKeyAlg k (h_alg hdr)"
    using kf by (simp_all add: jwt_keyfunc_Inr algAllowed_def allowedAlgs_def)
  have "\<forall>bits. k = ECKey bits \<and> h_alg hdr \<in> {''ES256'', ''ES384'', ''ES512''} \<longrightarrow>
      (h_alg hdr, bits) \<in> {(''ES256'', 256), (''ES384'', 384), (''ES512'', 521)}"
    using key(4) assertKeyAlg_curve by blast
  with hdr key signed tenant rest raw show ?thesis by blast
qed

theorem jwt_validation_sound_witness:
  "\<exists>c. jwt_Validate
      (fixed_token_lib \<lparr> h_alg = ''ES256'', h_kid = ''k1'' \<rparr>
          [(''tenant'', JStr ''acme''), (''scope'', JStr ''read write'')])
      \<lparr> jc_Issuer = '''', jc_Audiences = [], jc_TenantClaim = '''', jc_ScopeClaim = '''',
        jc_RequiredScope = ''write'' \<rparr>
      (\<lambda>kid. Inr (ECKey 256)) ''tok'' = Inr c \<and> cl_Tenant c \<noteq> ''''
      \<and> ''write'' \<in> set (cl_Scopes c)"
proof -
  define lib where "lib = fixed_token_lib \<lparr> h_alg = ''ES256'', h_kid = ''k1'' \<rparr>
          [(''tenant'', JStr ''acme''), (''scope'', JStr ''read write'')]"
  define cfg where "cfg = \<lparr> jc_Issuer = '''', jc_Audiences = [], jc_TenantClaim = '''', jc_ScopeClaim = '''',
        jc_RequiredScope = ''write'' \<rparr>"
  have lib: "consults_keyfunc lib"
    by (simp add: lib_def fixed_token_consults)
  have fl: "str_fields ''read write'' = [''read'', ''write'']" by code_simp
  have "\<exists>c. jwt_Validate lib cfg (\<lambda>kid. Inr (ECKey 256)) ''tok'' = Inr c"
    by (simp add: jwt_Validate_def lib_def cfg_def fixed_token_lib_def jwt_keyfunc_def algAllowed_def
        allowedAlgs_def assertKeyAlg_def curveMatches_def string_claim_def scope_claim_def claim_or_def
        Let_def fl)
  then obtain c where c: "jwt_Validate lib cfg (\<lambda>kid. Inr (ECKey 256)) ''tok'' = Inr c" ..
  have "cl_Tenant c \<noteq> ''''" "''write'' \<in> set (cl_Scopes c)"
    using jwt_validation_sound [OF lib c] unfolding cfg_def by simp_all metis
  with c show ?thesis
    unfolding lib_def cfg_def by blast
qed

end
