(* ===== verification/Profile_Resolver.thy ===== *)
theory Profile_Resolver
  imports Profile_Store Tenant_Auth
begin

text \<open>
  The caching resolver of \<open>internal/profiles/resolver.go\<close> and the request
  middleware of \<open>internal/dataplane/middleware/profile.go\<close>.  The resolver keeps
  a map of entries and the FIFO \<open>order\<close> of insertions; each method that takes
  the mutex is one atomic function on that state.
\<close>

subsection \<open>resolver.go\<close>

record Principal =
  pr_TenantID :: string
  pr_Subject :: string

record lruResolver =
  lr_ttl :: duration
  lr_maxItems :: int
  lr_cache :: "(string, Profile \<times> time) amap"
  lr_order :: "string list"

definition NewProfileResolver :: "duration \<Rightarrow> int \<Rightarrow> lruResolver" where
  "NewProfileResolver ttl maxItems =
    \<lparr> lr_ttl = (if ttl \<le> 0 then 60 * 10 ^ 9 else ttl),
      lr_maxItems = (if maxItems \<le> 0 then 1024 else maxItems), lr_cache = [], lr_order = [] \<rparr>"

definition resolver_key :: "string \<Rightarrow> string \<Rightarrow> string" where
  "resolver_key tenantID subject = tenantID @ ''|'' @ subject"

definition cached :: "time \<Rightarrow> string \<Rightarrow> lruResolver \<Rightarrow> Profile option \<times> lruResolver" where
  "cached now k r =
    (case aget (lr_cache r) k of
       None \<Rightarrow> (None, r)
     | Some (prof, expiresAt) \<Rightarrow>
         if now > expiresAt then (None, r \<lparr> lr_cache := adel k (lr_cache r) \<rparr>)
         else (Some prof, r))"

fun evict_oldest ::
  "int \<Rightarrow> (string, Profile \<times> time) amap \<Rightarrow> string list \<Rightarrow> (string, Profile \<times> time) amap \<times> string list"
where
  "evict_oldest maxItems c [] = (c, [])"
| "evict_oldest maxItems c (oldest # order) =
    (if int (length c) > maxItems then evict_oldest maxItems (adel oldest c) order
     else (c, oldest # order))"

definition putCache :: "time \<Rightarrow> string \<Rightarrow> Profile \<Rightarrow> lruResolver \<Rightarrow> lruResolver" where
  "putCache now k prof r =
    (let order = (if aget (lr_cache r) k = None then lr_order r @ [k] else lr_order r);
         c = aput k (prof, now + lr_ttl r) (lr_cache r);
         (c', order') = evict_oldest (lr_maxItems r) c order in
     r \<lparr> lr_cache := c', lr_order := order' \<rparr>)"

definition Invalidate :: "string \<Rightarrow> string \<Rightarrow> lruResolver \<Rightarrow> lruResolver" where
  "Invalidate tenantID profileID r =
    r \<lparr> lr_cache := filter (\<lambda>(k, prof, e).
          \<not> (p_TenantID prof = tenantID
             \<and> (profileID = '''' \<or> p_ID prof = profileID \<or> p_IsDefault prof))) (lr_cache r) \<rparr>"

definition profile_Resolve ::
  "(string \<Rightarrow> string \<Rightarrow> (store_error, AgentProfile) result) \<Rightarrow> time \<Rightarrow> time \<Rightarrow> Principal \<Rightarrow> lruResolver
    \<Rightarrow> (store_error, Profile) result \<times> lruResolver"
where
  "profile_Resolve binding now1 now2 p r =
    (if pr_TenantID p = '''' then (Inr (DefaultProfile ''''), r)
     else let k = resolver_key (pr_TenantID p) (pr_Subject p) in
       case cached now1 k r of
         (Some prof, r1) \<Rightarrow> (Inr prof, r1)
       | (None, r1) \<Rightarrow>
           if pr_Subject p = '''' then
             (Inr (DefaultProfile (pr_TenantID p)), putCache now2 k (DefaultProfile (pr_TenantID p)) r1)
           else case binding (pr_TenantID p) (pr_Subject p) of
             Inl err \<Rightarrow>
               if err = ErrNotFound
               then (Inr (DefaultProfile (pr_TenantID p)), putCache now2 k (DefaultProfile (pr_TenantID p)) r1)
               else (Inl err, r1)
           | Inr ap \<Rightarrow> (Inr (fromStore ap), putCache now2 k (fromStore ap) r1))"

subsection \<open>middleware/profile.go\<close>

definition intersectScopes :: "string list \<Rightarrow> string list \<Rightarrow> string list" where
  "intersectScopes have' allow = filter (\<lambda>s. s \<in> set allow) have'"

datatype profile_outcome =
    Serve "Identity option" "Profile option"
  | ProfileUnavailable

definition profile_subject :: "Identity \<Rightarrow> string" where
  "profile_subject i = (if id_Subject i = '''' then id_UserID i else id_Subject i)"

definition ProfileMiddleware ::
  "(string \<Rightarrow> string \<Rightarrow> (store_error, AgentProfile) result) \<Rightarrow> time \<Rightarrow> time \<Rightarrow> Identity option \<Rightarrow> lruResolver
    \<Rightarrow> profile_outcome \<times> lruResolver"
where
  "ProfileMiddleware binding now1 now2 ido r =
    (case ido of
       None \<Rightarrow> (Serve None None, r)
     | Some i \<Rightarrow>
         (case profile_Resolve binding now1 now2
             \<lparr> pr_TenantID = id_TenantID i, pr_Subject = profile_subject i \<rparr> r of
            (Inl err, r') \<Rightarrow> (ProfileUnavailable, r')
          | (Inr prof, r') \<Rightarrow>
              if \<not> p_IsDefault prof \<and> length (p_Scopes prof) > 0
              then (Serve (Some (i \<lparr> id_Scopes := intersectScopes (id_Scopes i) (p_Scopes prof) \<rparr>)) (Some prof), r')
              else (Serve (Some i) (Some prof), r')))"

subsection \<open>The cache keeps its contract\<close>

definition lr_entries :: "lruResolver \<Rightarrow> string \<rightharpoonup> (Profile \<times> time)" where
  "lr_entries r = map_of (lr_cache r)"

lemma evict_oldest_sub: "aget (fst (evict_oldest m c os)) k = Some v \<Longrightarrow> aget c k = Some v"
  by (induction m c os rule: evict_oldest.induct) (auto split: if_splits)

lemma putCache_lookup:
  "aget (lr_cache (putCache now k prof r)) k' = Some v \<Longrightarrow>
    (if k' = k then v = (prof, now + lr_ttl r) else aget (lr_cache r) k' = Some v)"
  by (auto simp: putCache_def Let_def split: prod.splits if_splits
      dest: evict_oldest_sub [where m = "lr_maxItems r", unfolded split_beta])
     (metis aget_put evict_oldest_sub fst_conv option.inject)+

interpretation profile_cache: ttl_cache lr_entries lr_ttl cached putCache
proof
  fix now k c v c'
  assume "cached now k c = (Some v, c')"
  then show "\<exists>e. lr_entries c k = Some (v, e) \<and> now \<le> e"
    by (auto simp: cached_def lr_entries_def split: option.splits if_splits)
next
  fix now k c
  show "lr_entries (snd (cached now k c)) \<subseteq>\<^sub>m lr_entries c"
    by (auto simp: cached_def lr_entries_def map_le_def split: option.splits)
next
  fix now k v c
  show "lr_entries (putCache now k v c) \<subseteq>\<^sub>m (lr_entries c)(k \<mapsto> (v, now + lr_ttl c))"
    unfolding map_le_def
  proof
    fix k'
    assume "k' \<in> dom (lr_entries (putCache now k v c))"
    then obtain e where "aget (lr_cache (putCache now k v c)) k' = Some e"
      by (auto simp: lr_entries_def)
    with putCache_lookup [OF this]
    show "lr_entries (putCache now k v c) k' = ((lr_entries c)(k \<mapsto> (v, now + lr_ttl c))) k'"
      by (auto simp: lr_entries_def split: if_splits)
  qed
qed (auto simp: cached_def putCache_def Let_def split: option.splits prod.splits)

text \<open>The invariant of the resolver: every cached key is in the insertion order, so eviction always
  finds a victim and the cache never exceeds its capacity.\<close>

definition resolver_inv :: "lruResolver \<Rightarrow> bool" where
  "resolver_inv r =
    (amap_ok (lr_cache r) \<and> set (akeys (lr_cache r)) \<subseteq> set (lr_order r)
     \<and> 0 < lr_maxItems r \<and> int (length (lr_cache r)) \<le> lr_maxItems r)"

lemma evict_oldest_inv:
  assumes "amap_ok c" and "set (akeys c) \<subseteq> set os" and "0 \<le> m"
  shows "case evict_oldest m c os of (c', os') \<Rightarrow>
    amap_ok c' \<and> set (akeys c') \<subseteq> set os' \<and> int (length c') \<le> m"
  using assms
proof (induction m c os rule: evict_oldest.induct)
  case (2 m c oldest order)
  have "set (akeys (adel oldest c)) \<subseteq> set order"
    using "2.prems"(2) by (auto simp: akeys_del [simplified])
  with 2 show ?case
    by (auto simp: Let_def split: prod.splits)
qed auto

lemma cached_inv: "resolver_inv r \<Longrightarrow> resolver_inv (snd (cached now k r))"
  using length_adel_le [of k "lr_cache r"] akeys_del [of k "lr_cache r"]
  by (auto simp: resolver_inv_def cached_def split: option.splits)

lemma putCache_inv:
  assumes "resolver_inv r"
  shows "resolver_inv (putCache now k prof r)"
proof -
  define order where "order = (if aget (lr_cache r) k = None then lr_order r @ [k] else lr_order r)"
  define c where "c = aput k (prof, now + lr_ttl r) (lr_cache r)"
  have "set (akeys c) \<subseteq> set order"
    using assms akeys_put [of k "(prof, now + lr_ttl r)" "lr_cache r"]
    by (auto simp: order_def c_def resolver_inv_def map_of_eq_None_iff)
  moreover have "amap_ok c" using assms by (auto simp: c_def resolver_inv_def)
  ultimately have "case evict_oldest (lr_maxItems r) c order of (c', os') \<Rightarrow>
      amap_ok c' \<and> set (akeys c') \<subseteq> set os' \<and> int (length c') \<le> lr_maxItems r"
    using assms by (intro evict_oldest_inv) (auto simp: resolver_inv_def)
  then show ?thesis
    using assms
    by (auto simp: putCache_def Let_def resolver_inv_def order_def [symmetric] c_def [symmetric]
        split: prod.splits)
qed

lemma Invalidate_inv: "resolver_inv r \<Longrightarrow> resolver_inv (Invalidate t p r)"
  by (auto simp: resolver_inv_def Invalidate_def
      intro: order_trans [OF of_nat_mono [OF length_filter_le]])

lemma profile_Resolve_state:
  "\<exists>prof. snd (profile_Resolve binding now1 now2 p r) \<in>
     {r, snd (cached now1 (resolver_key (pr_TenantID p) (pr_Subject p)) r),
      putCache now2 (resolver_key (pr_TenantID p) (pr_Subject p)) prof
        (snd (cached now1 (resolver_key (pr_TenantID p) (pr_Subject p)) r))}"
  by (auto simp: profile_Resolve_def Let_def split: prod.splits option.splits sum.splits)

lemma profile_Resolve_inv:
  assumes "resolver_inv r"
  shows "resolver_inv (snd (profile_Resolve binding now1 now2 p r))"
  using profile_Resolve_state [of binding now1 now2 p r] cached_inv [OF assms]
    putCache_inv [OF cached_inv [OF assms]] assms
  by auto

subsection \<open>Where a resolved profile comes from\<close>

text \<open>The answer of the store for a principal, with the defaulting rules of \<open>Resolve\<close>.\<close>

definition profile_answer ::
  "(string \<Rightarrow> string \<Rightarrow> (store_error, AgentProfile) result) \<Rightarrow> Principal \<Rightarrow> (store_error, Profile) result"
where
  "profile_answer binding p =
    (if pr_Subject p = '''' then Inr (DefaultProfile (pr_TenantID p))
     else case binding (pr_TenantID p) (pr_Subject p) of
       Inl err \<Rightarrow> if err = ErrNotFound then Inr (DefaultProfile (pr_TenantID p)) else Inl err
     | Inr ap \<Rightarrow> Inr (fromStore ap))"

lemma profile_Resolve_eq:
  assumes "pr_TenantID p \<noteq> ''''"
  shows "profile_Resolve binding now1 now2 p r =
    (let k = resolver_key (pr_TenantID p) (pr_Subject p) in
     case cached now1 k r of
       (Some prof, r1) \<Rightarrow> (Inr prof, r1)
     | (None, r1) \<Rightarrow>
         (case profile_answer binding p of
            Inl err \<Rightarrow> (Inl err, r1)
          | Inr prof \<Rightarrow> (Inr prof, putCache now2 k prof r1)))"
  using assms
  by (auto simp: profile_Resolve_def profile_answer_def Let_def
      split: prod.splits option.splits sum.splits if_splits)

definition profile_evidence ::
  "(time \<Rightarrow> string \<Rightarrow> string \<Rightarrow> (store_error, AgentProfile) result) \<Rightarrow> string \<Rightarrow> Profile \<Rightarrow> time \<Rightarrow> bool"
where
  "profile_evidence bindat k prof t0 =
    (\<exists>p. CHR ''|'' \<notin> set (pr_TenantID p) \<and> k = resolver_key (pr_TenantID p) (pr_Subject p)
       \<and> profile_answer (bindat t0) p = Inr prof)"

definition profile_justified ::
  "(time \<Rightarrow> string \<Rightarrow> string \<Rightarrow> (store_error, AgentProfile) result) \<Rightarrow> lruResolver \<Rightarrow> bool"
where
  "profile_justified bindat r =
    (\<forall>k prof e. lr_entries r k = Some (prof, e) \<longrightarrow> profile_evidence bindat k prof (e - lr_ttl r))"

lemma profile_justified_eq: "profile_justified bindat = profile_cache.justified (profile_evidence bindat)"
  by (simp add: fun_eq_iff profile_justified_def profile_cache.justified_def)

lemma resolver_key_inj:
  assumes "resolver_key t s = resolver_key t' s'" and "CHR ''|'' \<notin> set t" and "CHR ''|'' \<notin> set t'"
  shows "t = t' \<and> s = s'"
proof -
  have "cut_byte (resolver_key t s) CHR ''|'' = (t, s, True)"
    using cut_byte_append [OF assms(2), of s] by (simp add: resolver_key_def)
  moreover have "cut_byte (resolver_key t' s') CHR ''|'' = (t', s', True)"
    using cut_byte_append [OF assms(3), of s'] by (simp add: resolver_key_def)
  ultimately have "(t, s, True) = (t', s', True)"
    by (simp only: assms(1))
  then show ?thesis by simp
qed

lemma profile_evidenceI:
  "CHR ''|'' \<notin> set (pr_TenantID p) \<Longrightarrow> profile_answer (bindat t0) p = Inr prof
    \<Longrightarrow> profile_evidence bindat (resolver_key (pr_TenantID p) (pr_Subject p)) prof t0"
  unfolding profile_evidence_def by blast

lemma profile_evidenceD:
  assumes "profile_evidence bindat (resolver_key (pr_TenantID p) (pr_Subject p)) prof t0"
    and "CHR ''|'' \<notin> set (pr_TenantID p)"
  shows "profile_answer (bindat t0) p = Inr prof"
proof -
  from assms(1) obtain q where q: "CHR ''|'' \<notin> set (pr_TenantID q)"
      "resolver_key (pr_TenantID p) (pr_Subject p) = resolver_key (pr_TenantID q) (pr_Subject q)"
      "profile_answer (bindat t0) q = Inr prof"
    unfolding profile_evidence_def by blast
  have "p = q"
    using resolver_key_inj [OF q(2) assms(2) q(1)] by (intro Principal.equality) simp_all
  with q(3) show ?thesis by simp
qed

lemma profile_answer_tenant:
  assumes "profile_answer (store_ResolveJWTBinding db) p = Inr prof"
  shows "p_TenantID prof = pr_TenantID p"
  using assms
  by (auto simp: profile_answer_def DefaultProfile_def split: if_splits sum.splits
      dest: sqlite_bindings.resolved_profile_tenant)

lemma profile_Resolve_recent:
  assumes "profile_justified bindat r" and "pr_TenantID p \<noteq> ''''" and "CHR ''|'' \<notin> set (pr_TenantID p)"
    and "0 \<le> lr_ttl r" and "now1 \<le> now2"
    and "profile_Resolve (bindat now2) now1 now2 p r = (Inr prof, r')"
  shows "(\<exists>t0. profile_answer (bindat t0) p = Inr prof \<and> now1 \<le> t0 + lr_ttl r) \<and> profile_justified bindat r'"
proof -
  define k where "k = resolver_key (pr_TenantID p) (pr_Subject p)"
  obtain hit r1 where probe: "cached now1 k r = (hit, r1)" by (cases "cached now1 k r")
  have j1: "profile_justified bindat r1"
    using profile_cache.justified_get [OF assms(1) [unfolded profile_justified_eq], of now1 k] probe
    by (simp add: profile_justified_eq)
  show ?thesis
  proof (cases hit)
    case (Some v)
    then have v: "v = prof" "r' = r1"
      using assms(6) probe by (simp_all add: profile_Resolve_eq [OF assms(2)] k_def)
    from profile_cache.hit_is_recent [OF assms(1) [unfolded profile_justified_eq] probe [unfolded Some]]
    obtain t0 where "profile_evidence bindat k v t0" "now1 \<le> t0 + lr_ttl r" by blast
    with v j1 assms(3) show ?thesis
      by (auto simp: k_def dest: profile_evidenceD)
  next
    case None
    then have ans: "profile_answer (bindat now2) p = Inr prof" and r': "r' = putCache now2 k prof r1"
      using assms(6) probe by (auto simp: profile_Resolve_eq [OF assms(2)] k_def split: sum.splits)
    have "profile_justified bindat r'"
      unfolding r' profile_justified_eq
      by (rule profile_cache.justified_put)
         (use j1 profile_evidenceI [where bindat = bindat, OF assms(3) ans] in \<open>simp_all add: profile_justified_eq k_def\<close>)
    with ans assms(4,5) show ?thesis by (auto intro!: exI [of _ now2])
  qed
qed

text \<open>The insertion order after the same principal's entry has expired and been written again \<open>n\<close>
  times.\<close>

fun expire_and_put :: "nat \<Rightarrow> Principal \<Rightarrow> lruResolver \<Rightarrow> lruResolver" where
  "expire_and_put 0 p r = r"
| "expire_and_put (Suc n) p r =
    (let r' = expire_and_put n p r; now = int (Suc n) * (lr_ttl r + 1) in
     snd (profile_Resolve (\<lambda>t s. Inl ErrNotFound) now now p r'))"

subsection \<open>Properties\<close>

text \<open>A profile that \<open>Resolve\<close> returns for a principal is the store's answer for that principal
  no older than the TTL, and belongs to the principal's tenant; the cache stays justified and
  within its capacity.\<close>

theorem profile_resolution_recent:
  assumes "profile_justified (\<lambda>t. store_ResolveJWTBinding (dbat t)) r" and "resolver_inv r"
    and "pr_TenantID p \<noteq> ''''" and "CHR ''|'' \<notin> set (pr_TenantID p)" and "0 \<le> lr_ttl r" and "now1 \<le> now2"
    and "profile_Resolve (store_ResolveJWTBinding (dbat now2)) now1 now2 p r = (Inr prof, r')"
  shows "(\<exists>t0. profile_answer (store_ResolveJWTBinding (dbat t0)) p = Inr prof \<and> now1 \<le> t0 + lr_ttl r)
    \<and> p_TenantID prof = pr_TenantID p
    \<and> profile_justified (\<lambda>t. store_ResolveJWTBinding (dbat t)) r'
    \<and> resolver_inv r' \<and> int (length (lr_cache r')) \<le> lr_maxItems r'"
proof -
  note recent = profile_Resolve_recent [OF assms(1,3-7)]
  have "resolver_inv r'"
    using profile_Resolve_inv [OF assms(2), of "store_ResolveJWTBinding (dbat now2)" now1 now2 p]
    by (simp add: assms(7))
  with recent show ?thesis
    by (auto simp: resolver_inv_def dest: profile_answer_tenant)
qed

theorem profile_resolution_recent_witness:
  "\<exists>r'. profile_Resolve (store_ResolveJWTBinding \<lparr> db_fault = False, db_fk = True, t_profiles = [],
        t_allow = [], t_m2a = [], t_a2m = [], t_bindings = [] \<rparr>) 1 2
      \<lparr> pr_TenantID = ''acme'', pr_Subject = ''alice'' \<rparr> (NewProfileResolver 0 0)
      = (Inr (DefaultProfile ''acme''), r') \<and> resolver_inv r'"
proof -
  define db where "db = \<lparr> db_fault = False, db_fk = True, t_profiles = [],
        t_allow = [], t_m2a = [], t_a2m = [], t_bindings = [] \<rparr>"
  define p where "p = \<lparr> pr_TenantID = ''acme'', pr_Subject = ''alice'' \<rparr>"
  have j: "profile_justified (\<lambda>t. store_ResolveJWTBinding ((\<lambda>t. db) t)) (NewProfileResolver 0 0)"
    by (simp add: profile_justified_def lr_entries_def NewProfileResolver_def)
  have i: "resolver_inv (NewProfileResolver 0 0)"
    by (simp add: resolver_inv_def NewProfileResolver_def)
  have p: "pr_TenantID p \<noteq> ''''" "CHR ''|'' \<notin> set (pr_TenantID p)"
    "0 \<le> lr_ttl (NewProfileResolver 0 0)" "(1::int) \<le> 2"
    by (simp_all add: p_def NewProfileResolver_def)
  have "\<exists>r'. profile_Resolve (store_ResolveJWTBinding ((\<lambda>t. db) (2::int))) 1 2 p (NewProfileResolver 0 0)
      = (Inr (DefaultProfile ''acme''), r')"
    by (simp add: profile_Resolve_def store_ResolveJWTBinding_def p_def db_def cached_def NewProfileResolver_def)
  then obtain r' where run: "profile_Resolve (store_ResolveJWTBinding ((\<lambda>t. db) (2::int))) 1 2 p (NewProfileResolver 0 0)
      = (Inr (DefaultProfile ''acme''), r')" ..
  from profile_resolution_recent [OF j i p run] run show ?thesis
    by (auto simp: p_def db_def)
qed

text \<open>The profile middleware never broadens a request.  What it serves keeps the identity's
  tenant, its scopes are a subset of the token's (and of the profile's, when a restrictive profile
  lists scopes), and a store failure without a live cache entry is served as unavailable.\<close>

theorem profile_middleware_narrows:
  "case ProfileMiddleware binding now1 now2 (Some i) r of
     (Serve ido prof, r') \<Rightarrow>
       (\<exists>i' q. ido = Some i' \<and> prof = Some q \<and> id_TenantID i' = id_TenantID i
          \<and> set (id_Scopes i') \<subseteq> set (id_Scopes i)
          \<and> (p_IsDefault q \<or> p_Scopes q = [] \<or> set (id_Scopes i') \<subseteq> set (p_Scopes q))
          \<and> fst (profile_Resolve binding now1 now2
                \<lparr> pr_TenantID = id_TenantID i, pr_Subject = profile_subject i \<rparr> r) = Inr q)
   | (ProfileUnavailable, r') \<Rightarrow>
       (\<exists>err. fst (profile_Resolve binding now1 now2
                \<lparr> pr_TenantID = id_TenantID i, pr_Subject = profile_subject i \<rparr> r) = Inl err
          \<and> err \<noteq> ErrNotFound \<and> binding (id_TenantID i) (profile_subject i) = Inl err)"
  by (auto simp: ProfileMiddleware_def intersectScopes_def profile_Resolve_def Let_def
      split: prod.splits sum.splits if_splits option.splits)

text \<open>The insertion order is not bounded by the capacity.  An expired entry leaves its key in
  \<open>order\<close>, so one principal that keeps returning after its entry expired grows the slice by one
  element per round while the cache holds a single entry.\<close>

theorem resolver_order_unbounded:
  "let p = \<lparr> pr_TenantID = ''acme'', pr_Subject = ''alice'' \<rparr>;
       r = expire_and_put n p (NewProfileResolver 1 1024)
   in length (lr_order r) = n \<and> length (lr_cache r) \<le> 1"
proof -
  define p where "p = \<lparr> pr_TenantID = ''acme'', pr_Subject = ''alice'' \<rparr>"
  define k where "k = resolver_key ''acme'' ''alice''"
  define R where "R = NewProfileResolver 1 1024"
  define after where "after = (\<lambda>m. R \<lparr> lr_cache := (if m = 0 then [] else [(k, DefaultProfile ''acme'', int m * 2 + 1)]),
      lr_order := replicate m k \<rparr>)"
  have R: "lr_ttl R = 1" "lr_maxItems R = 1024" by (simp_all add: R_def NewProfileResolver_def)
  have "expire_and_put m p R = after m" for m
  proof (induction m)
    case 0
    then show ?case by (simp add: after_def R_def NewProfileResolver_def)
  next
    case (Suc m)
    have "snd (profile_Resolve (\<lambda>t s. Inl ErrNotFound) (int (Suc m) * 2) (int (Suc m) * 2) p (after m)) = after (Suc m)"
      by (cases m) (auto simp: profile_Resolve_def p_def cached_def putCache_def after_def R k_def Let_def
          replicate_append_same neq_Nil_conv split: prod.splits list.splits)
    with Suc show ?case by (simp add: R Let_def)
  qed
  then show ?thesis
    by (simp add: Let_def p_def [symmetric] R_def [symmetric] after_def)
qed

end
