(* ===== verification/Go_Path_Match.thy ===== *)
theory Go_Path_Match
  imports Go_Strings
begin

text \<open>
  \<open>path.Match\<close> of the Go standard library, as the policy engine and the skills
  catalogue call it: chunks between stars are matched by \<open>match_chunk\<close>, which
  goes on checking the pattern's syntax after a mismatch, so a malformed
  pattern is an error (\<open>None\<close>).  Every loop consumes at least one byte of the
  pattern or the name, so its length is enough fuel.
\<close>

subsection \<open>UTF-8 decoding\<close>

definition cont_byte :: "nat \<Rightarrow> bool" where
  "cont_byte b = (128 \<le> b \<and> b \<le> 191)"

text \<open>\<open>utf8.DecodeRuneInString\<close>: the rune and its width; an invalid encoding is U+FFFD of width 1.\<close>

definition decode_rune :: "string \<Rightarrow> nat \<times> nat" where
  "decode_rune s =
    (case map byte_of (take 4 s) of
       [] \<Rightarrow> (0xFFFD, 0)
     | b0 # bs \<Rightarrow>
         if b0 < 128 then (b0, 1)
         else if 0xC2 \<le> b0 \<and> b0 \<le> 0xDF \<and> length bs \<ge> 1 \<and> cont_byte (bs ! 0)
         then ((b0 mod 32) * 64 + bs ! 0 mod 64, 2)
         else if 0xE0 \<le> b0 \<and> b0 \<le> 0xEF \<and> length bs \<ge> 2 \<and> cont_byte (bs ! 0) \<and> cont_byte (bs ! 1)
           \<and> (b0 = 0xE0 \<longrightarrow> 0xA0 \<le> bs ! 0) \<and> (b0 = 0xED \<longrightarrow> bs ! 0 \<le> 0x9F)
         then ((b0 mod 16) * 4096 + (bs ! 0 mod 64) * 64 + bs ! 1 mod 64, 3)
         else if 0xF0 \<le> b0 \<and> b0 \<le> 0xF4 \<and> length bs \<ge> 3 \<and> cont_byte (bs ! 0) \<and> cont_byte (bs ! 1)
           \<and> cont_byte (bs ! 2) \<and> (b0 = 0xF0 \<longrightarrow> 0x90 \<le> bs ! 0) \<and> (b0 = 0xF4 \<longrightarrow> bs ! 0 \<le> 0x8F)
         then ((b0 mod 8) * 262144 + (bs ! 0 mod 64) * 4096 + (bs ! 1 mod 64) * 64 + bs ! 2 mod 64, 4)
         else (0xFFFD, 1))"

subsection \<open>Chunks\<close>

definition get_esc :: "string \<Rightarrow> (nat \<times> string) option" where
  "get_esc chunk =
    (if chunk = [] \<or> hd chunk = CHR ''-'' \<or> hd chunk = CHR '']'' then None
     else let c = (if hd chunk = CHR 0x5C then tl chunk else chunk) in
       if c = [] then None
       else let (r, n) = decode_rune c in
         if r = 0xFFFD \<and> n = 1 then None
         else if drop n c = [] then None
         else Some (r, drop n c))"

text \<open>The range loop of a character class: the rune, the ranges read so far, whether one matched;
  returns the match flag and the pattern after the closing bracket.\<close>

fun class_ranges :: "nat \<Rightarrow> nat \<Rightarrow> nat \<Rightarrow> bool \<Rightarrow> string \<Rightarrow> (bool \<times> string) option" where
  "class_ranges 0 r nrange m chunk = None"
| "class_ranges (Suc fuel) r nrange m chunk =
    (if chunk \<noteq> [] \<and> hd chunk = CHR '']'' \<and> nrange > 0 then Some (m, tl chunk)
     else case get_esc chunk of
       None \<Rightarrow> None
     | Some (lo, c1) \<Rightarrow>
         if hd c1 = CHR ''-'' then
           (case get_esc (tl c1) of
              None \<Rightarrow> None
            | Some (hi, c2) \<Rightarrow> class_ranges fuel r (Suc nrange) (m \<or> (lo \<le> r \<and> r \<le> hi)) c2)
         else class_ranges fuel r (Suc nrange) (m \<or> r = lo) c1)"

text \<open>\<open>matchChunk\<close>: \<open>None\<close> is \<open>ErrBadPattern\<close>, \<open>Some None\<close> a mismatch, \<open>Some (Some rest)\<close> a match.\<close>

fun match_chunk :: "nat \<Rightarrow> bool \<Rightarrow> string \<Rightarrow> string \<Rightarrow> string option option" where
  "match_chunk fuel failed [] s = Some (if failed then None else Some s)"
| "match_chunk 0 failed (c # cs) s = None"
| "match_chunk (Suc fuel) failed (c # cs) s =
    (let failed = (failed \<or> s = []) in
     if c = CHR ''['' then
       (let (r, n) = (if failed then (0, 0) else decode_rune s);
            s' = (if failed then s else drop n s);
            negated = (cs \<noteq> [] \<and> hd cs = CHR ''^'');
            body = (if negated then tl cs else cs) in
        case class_ranges (Suc (length body)) r 0 False body of
          None \<Rightarrow> None
        | Some (m, rest) \<Rightarrow> match_chunk fuel (failed \<or> m = negated) rest s')
     else if c = CHR ''?'' then
       match_chunk fuel (failed \<or> hd s = CHR ''/'') cs
         (if failed then s else drop (snd (decode_rune s)) s)
     else if c = CHR 0x5C then
       (case cs of
          [] \<Rightarrow> None
        | d # ds \<Rightarrow> match_chunk fuel (failed \<or> hd s \<noteq> d) ds (if failed then s else tl s))
     else match_chunk fuel (failed \<or> hd s \<noteq> c) cs (if failed then s else tl s))"

text \<open>\<open>scanChunk\<close> after the leading stars: the bytes before the next star outside brackets.\<close>

fun chunk_len :: "bool \<Rightarrow> string \<Rightarrow> nat" where
  "chunk_len inrange [] = 0"
| "chunk_len inrange (c # cs) =
    (if c = CHR 0x5C then (case cs of [] \<Rightarrow> 1 | d # ds \<Rightarrow> 2 + chunk_len inrange ds)
     else if c = CHR ''['' then Suc (chunk_len True cs)
     else if c = CHR '']'' then Suc (chunk_len False cs)
     else if c = CHR ''*'' \<and> \<not> inrange then 0
     else Suc (chunk_len inrange cs))"

definition scan_chunk :: "string \<Rightarrow> bool \<times> string \<times> string" where
  "scan_chunk pat =
    (let p = dropWhile (\<lambda>c. c = CHR ''*'') pat; n = chunk_len False p in
     (pat \<noteq> [] \<and> hd pat = CHR ''*'', take n p, drop n p))"

definition run_chunk :: "string \<Rightarrow> string \<Rightarrow> string option option" where
  "run_chunk chunk s = match_chunk (length chunk) False chunk s"

text \<open>Skipping bytes of the name under a star; \<open>lastc\<close> tells that no pattern is left.\<close>

fun star_loop :: "bool \<Rightarrow> string \<Rightarrow> string \<Rightarrow> string option option" where
  "star_loop lastc chunk [] = Some None"
| "star_loop lastc chunk (c # cs) =
    (if c = CHR ''/'' then Some None
     else case run_chunk chunk cs of
       None \<Rightarrow> None
     | Some (Some t) \<Rightarrow> if lastc \<and> t \<noteq> [] then star_loop lastc chunk cs else Some (Some t)
     | Some None \<Rightarrow> star_loop lastc chunk cs)"

text \<open>The check that the rest of a failed pattern is well formed.\<close>

fun rest_valid :: "nat \<Rightarrow> string \<Rightarrow> bool" where
  "rest_valid 0 pat = True"
| "rest_valid (Suc fuel) pat =
    (if pat = [] then True
     else case scan_chunk pat of (star, chunk, rest) \<Rightarrow>
       if run_chunk chunk '''' = None then False else rest_valid fuel rest)"

fun match_loop :: "nat \<Rightarrow> string \<Rightarrow> string \<Rightarrow> bool option" where
  "match_loop 0 pat name = Some (name = [])"
| "match_loop (Suc fuel) pat name =
    (if pat = [] then Some (name = [])
     else case scan_chunk pat of (star, chunk, rest) \<Rightarrow>
       if star \<and> chunk = [] then Some (CHR ''/'' \<notin> set name)
       else
         let failure = (if rest_valid (length rest) rest then Some False else None);
             try_star = (if star then
               (case star_loop (rest = []) chunk name of
                  None \<Rightarrow> None
                | Some (Some t) \<Rightarrow> match_loop fuel rest t
                | Some None \<Rightarrow> failure) else failure) in
         (case run_chunk chunk name of
            None \<Rightarrow> None
          | Some (Some t) \<Rightarrow> if t = [] \<or> rest \<noteq> [] then match_loop fuel rest t else try_star
          | Some None \<Rightarrow> try_star))"

definition path_match :: "string \<Rightarrow> string \<Rightarrow> bool option" where
  "path_match pat name = match_loop (Suc (length pat)) pat name"

subsection \<open>Patterns without meta characters\<close>

definition meta_char :: "char \<Rightarrow> bool" where
  "meta_char c = (c = CHR ''*'' \<or> c = CHR ''?'' \<or> c = CHR ''['' \<or> c = CHR '']'' \<or> c = CHR 0x5C)"

abbreviation plain_pattern :: "string \<Rightarrow> bool" where
  "plain_pattern p \<equiv> list_all (\<lambda>c. \<not> meta_char c) p"

lemma match_chunk_failed:
  "plain_pattern p \<Longrightarrow> length p \<le> n \<Longrightarrow> match_chunk n True p s = Some None"
  by (induction n True p s rule: match_chunk.induct) (auto simp: meta_char_def Let_def)

lemma match_chunk_plain:
  "plain_pattern p \<Longrightarrow> length p \<le> n \<Longrightarrow>
    match_chunk n False p s = Some (if has_prefix s p then Some (drop (length p) s) else None)"
proof (induction n False p s rule: match_chunk.induct)
  case (3 fuel c cs s)
  have cs: "plain_pattern cs" "length cs \<le> fuel" and c: "\<not> meta_char c"
    using "3.prems" by simp_all
  have step: "match_chunk (Suc fuel) False (c # cs) s =
      match_chunk fuel (s = [] \<or> hd s \<noteq> c) cs (if s = [] then s else tl s)"
    using c by (simp add: meta_char_def Let_def)
  show ?case
  proof (cases "s = [] \<or> hd s \<noteq> c")
    case True
    then show ?thesis
      unfolding step using match_chunk_failed [OF cs] by (cases s) auto
  next
    case False
    then obtain t where s: "s = c # t" by (cases s) auto
    have "match_chunk fuel False cs t = Some (if has_prefix t cs then Some (drop (length cs) t) else None)"
      using "3.hyps"(4) [of False] cs c by (auto simp: s meta_char_def)
    then show ?thesis unfolding step by (simp add: s)
  qed
qed auto

lemma chunk_len_plain: "plain_pattern p \<Longrightarrow> chunk_len False (p @ q) = length p + chunk_len False q"
  by (induction p) (auto simp: meta_char_def)

lemma plain_no_star: "plain_pattern p \<Longrightarrow> dropWhile (\<lambda>c. c = CHR ''*'') p = p"
  by (cases p) (auto simp: meta_char_def)

lemma scan_chunk_plain:
  "plain_pattern p \<Longrightarrow> p \<noteq> [] \<Longrightarrow> scan_chunk p = (False, p, [])"
  using chunk_len_plain [of p "[]"]
  by (cases p) (auto simp: scan_chunk_def plain_no_star Let_def meta_char_def)

lemma scan_chunk_plain_star:
  assumes "plain_pattern p" and "p \<noteq> []"
  shows "scan_chunk (p @ ''*'') = (False, p, ''*'')"
proof -
  have "dropWhile (\<lambda>c. c = CHR ''*'') (p @ ''*'') = p @ ''*''"
    using assms by (cases p) (auto simp: meta_char_def)
  moreover have "chunk_len False (p @ ''*'') = length p"
    using chunk_len_plain [OF assms(1), of "''*''"] by simp
  moreover have "hd (p @ ''*'') \<noteq> CHR ''*''"
    using assms by (cases p) (auto simp: meta_char_def)
  ultimately show ?thesis using assms(2) by (simp add: scan_chunk_def Let_def)
qed

lemma has_prefix_full: "has_prefix s p \<and> drop (length p) s = [] \<longleftrightarrow> s = p"
  by (auto simp: has_prefix_iff)

lemma path_match_plain: "plain_pattern p \<Longrightarrow> path_match p name = Some (name = p)"
proof (cases "p = []")
  case False
  assume p: "plain_pattern p"
  have run: "run_chunk p name = Some (if has_prefix name p then Some (drop (length p) name) else None)"
    using p by (simp add: run_chunk_def match_chunk_plain)
  obtain m where m: "length p = Suc m" using False by (cases p) auto
  show ?thesis
    using False p run has_prefix_full [of name p]
    by (auto simp: path_match_def scan_chunk_plain m)
qed (simp add: path_match_def)

lemma scan_star: "scan_chunk ''*'' = (True, '''', '''')"
  by code_simp

lemma path_match_prefix:
  assumes "plain_pattern p"
  shows "path_match (p @ ''*'') name = Some (has_prefix name p \<and> CHR ''/'' \<notin> set (drop (length p) name))"
proof (cases "p = []")
  case True
  then show ?thesis by (simp add: path_match_def scan_star)
next
  case False
  have run: "run_chunk p name = Some (if has_prefix name p then Some (drop (length p) name) else None)"
    using assms by (simp add: run_chunk_def match_chunk_plain)
  have nil: "run_chunk '''' '''' = Some (Some '''')"
    by (simp add: run_chunk_def)
  obtain m where m: "length p = Suc m" using False by (cases p) auto
  show ?thesis
    using False run nil
    by (auto simp: path_match_def scan_chunk_plain_star [OF assms False] scan_star m)
qed

end
