(* ===== verification/Skills.thy ===== *)
theory Skills
  imports Go_Path_Match Sql_Tables
begin

text \<open>
  The skills runtime: manifest types (\<open>internal/skills/manifest/types.go\<close>), the
  live catalogue with its change subscriptions (\<open>skills/runtime/catalog.go\<close>),
  and enablement (\<open>skills/runtime/enablement.go\<close>) over the SQLite store
  (\<open>storage/sqlite/skill_store.go\<close>).  Go iterates over the catalogue map in
  unspecified order; listings take the visited sequence as an argument.
\<close>

subsection \<open>Manifests and skills\<close>

record SkillPolicy =
  sp_RequiresApproval :: "string list"
  sp_RiskClasses :: "(string, string) amap"

record Binding =
  b_ServerDependencies :: "string list"
  b_RequiredTools :: "string list"
  b_OptionalTools :: "string list"
  b_Policy :: SkillPolicy
  b_UI :: "string option"
  b_Plans :: "string list"

record Manifest =
  mf_ID :: string
  mf_Title :: string
  mf_Version :: string
  mf_Spec :: string
  mf_Description :: string
  mf_Instructions :: string
  mf_Resources :: "string list"
  mf_Prompts :: "string list"
  mf_Binding :: Binding

definition AllTools :: "Manifest \<Rightarrow> string list" where
  "AllTools m = b_RequiredTools (mf_Binding m) @ b_OptionalTools (mf_Binding m)"

record Skill =
  sk_Manifest :: Manifest
  sk_Source :: "string option"
  sk_TenantID :: string

definition skill_Namespace :: "Skill \<Rightarrow> string" where
  "skill_Namespace s =
    (let i = index_byte (mf_ID (sk_Manifest s)) CHR ''.'' in
     if i > 0 then take (nat i) (mf_ID (sk_Manifest s)) else mf_ID (sk_Manifest s))"

definition skill_Name :: "Skill \<Rightarrow> string" where
  "skill_Name s =
    (let sid = mf_ID (sk_Manifest s); i = index_byte sid CHR ''.'' in
     if i > 0 \<and> i < int (length sid) - 1 then drop (nat i + 1) sid else sid)"

subsection \<open>Catalogue\<close>

datatype ChangeKind = ChangeAdded | ChangeUpdated | ChangeRemoved

type_synonym ChangeEvent = "ChangeKind \<times> Skill"

record Catalog =
  ct_skills :: "(string, Skill) amap"
  ct_subs :: "(nat \<times> ChangeEvent list) list"
  ct_subSize :: nat

definition NewCatalog :: Catalog where
  "NewCatalog = \<lparr> ct_skills = [], ct_subs = [], ct_subSize = 16 \<rparr>"

definition catalogKey :: "string \<Rightarrow> string \<Rightarrow> string" where
  "catalogKey tenantID i = (if tenantID = '''' then i else tenantID @ '':'' @ i)"

text \<open>One subscriber's buffered channel: a full buffer loses its oldest event.\<close>

definition send_drop_oldest :: "nat \<Rightarrow> ChangeEvent \<Rightarrow> ChangeEvent list \<Rightarrow> ChangeEvent list" where
  "send_drop_oldest cap ev ch =
    (if length ch < cap then ch @ [ev]
     else let ch' = drop 1 ch in if length ch' < cap then ch' @ [ev] else ch')"

definition publish :: "ChangeEvent \<Rightarrow> Catalog \<Rightarrow> Catalog" where
  "publish ev c = c \<lparr> ct_subs := map (\<lambda>(n, ch). (n, send_drop_oldest (ct_subSize c) ev ch)) (ct_subs c) \<rparr>"

definition catalog_Set :: "Skill \<Rightarrow> Catalog \<Rightarrow> Catalog" where
  "catalog_Set s c =
    (let k = catalogKey (sk_TenantID s) (mf_ID (sk_Manifest s));
         kind = (if aget (ct_skills c) k = None then ChangeAdded else ChangeUpdated) in
     publish (kind, s) (c \<lparr> ct_skills := aput k s (ct_skills c) \<rparr>))"

definition removeKey :: "string \<Rightarrow> string \<Rightarrow> Catalog \<Rightarrow> Catalog" where
  "removeKey i tenantID c =
    (let k = catalogKey tenantID i in
     case aget (ct_skills c) k of
       None \<Rightarrow> c
     | Some prev \<Rightarrow> publish (ChangeRemoved, prev) (c \<lparr> ct_skills := adel k (ct_skills c) \<rparr>))"

definition catalog_Remove :: "string \<Rightarrow> Catalog \<Rightarrow> Catalog" where
  "catalog_Remove i c = removeKey i '''' c"

definition RemoveForTenant :: "string \<Rightarrow> string \<Rightarrow> Catalog \<Rightarrow> Catalog" where
  "RemoveForTenant tenantID i c = removeKey i tenantID c"

definition from_source :: "string \<Rightarrow> string \<Rightarrow> Skill \<Rightarrow> bool" where
  "from_source tenantID name s =
    (sk_Source s = Some name
     \<and> \<not> (tenantID \<noteq> '''' \<and> sk_TenantID s \<noteq> '''' \<and> sk_TenantID s \<noteq> tenantID))"

definition RemoveBySource :: "string \<Rightarrow> string \<Rightarrow> Catalog \<Rightarrow> Catalog" where
  "RemoveBySource tenantID name c =
    (let removed = filter (from_source tenantID name) (map snd (ct_skills c)) in
     foldl (\<lambda>c s. publish (ChangeRemoved, s) c)
       (c \<lparr> ct_skills := filter (\<lambda>(k, s). \<not> from_source tenantID name s) (ct_skills c) \<rparr>) removed)"

definition catalog_Get :: "(string \<times> Skill) list \<Rightarrow> string \<Rightarrow> Catalog \<Rightarrow> Skill option" where
  "catalog_Get visited i c =
    (case aget (ct_skills c) i of
       Some s \<Rightarrow> Some s
     | None \<Rightarrow> map_option snd (List.find (\<lambda>(k, s). mf_ID (sk_Manifest s) = i) visited))"

definition GetForTenant :: "string \<Rightarrow> string \<Rightarrow> Catalog \<Rightarrow> Skill option" where
  "GetForTenant tenantID i c =
    (case (if tenantID \<noteq> '''' then aget (ct_skills c) (catalogKey tenantID i) else None) of
       Some s \<Rightarrow> Some s
     | None \<Rightarrow> aget (ct_skills c) i)"

text \<open>\<open>visited\<close> is the sequence of skills in the order the map iteration produced them.\<close>

definition catalog_List :: "Skill list \<Rightarrow> Skill list" where
  "catalog_List visited = sort_key (\<lambda>s. mf_ID (sk_Manifest s)) visited"

definition globsMatch :: "string list \<Rightarrow> string \<Rightarrow> bool" where
  "globsMatch patterns name =
    (if length patterns = 0 then True
     else \<exists>p \<in> set patterns. p = ''*'' \<or> path_match p name = Some True)"

definition planAllowed :: "string \<Rightarrow> string list \<Rightarrow> bool" where
  "planAllowed plan plans =
    (if length plans = 0 then True else if plan = '''' then True else plan \<in> set plans)"

definition ForTenant :: "string \<Rightarrow> string list \<Rightarrow> string \<Rightarrow> Skill list \<Rightarrow> Skill list" where
  "ForTenant tenantID globs plan visited =
    filter (\<lambda>s. globsMatch globs (mf_ID (sk_Manifest s))
        \<and> planAllowed plan (b_Plans (mf_Binding (sk_Manifest s)))
        \<and> \<not> (sk_TenantID s \<noteq> '''' \<and> tenantID \<noteq> '''' \<and> sk_TenantID s \<noteq> tenantID))
      (catalog_List visited)"

definition Subscribe :: "nat \<Rightarrow> Catalog \<Rightarrow> Catalog" where
  "Subscribe n c = c \<lparr> ct_subs := ct_subs c @ [(n, [])] \<rparr>"

definition Unsubscribe :: "nat \<Rightarrow> Catalog \<Rightarrow> Catalog" where
  "Unsubscribe n c = c \<lparr> ct_subs := filter (\<lambda>(m, ch). m \<noteq> n) (ct_subs c) \<rparr>"

subsection \<open>Enablement store\<close>

record SkillEnablement =
  se_TenantID :: string
  se_SessionID :: string
  se_SkillID :: string
  se_Enabled :: bool
  se_EnabledAt :: time

type_synonym skill_key = "string \<times> string \<times> string"

record skill_db =
  sdb_fault :: bool
  sdb_rows :: "(skill_key, bool \<times> time) amap"

definition skill_Set :: "SkillEnablement \<Rightarrow> skill_db \<Rightarrow> (store_error, skill_db) result" where
  "skill_Set e db =
    (if se_TenantID e = '''' \<or> se_SkillID e = '''' then Inl ErrArgs
     else if sdb_fault db then Inl ErrSQL
     else Inr (db \<lparr> sdb_rows := aput (se_TenantID e, se_SessionID e, se_SkillID e)
            (se_Enabled e, se_EnabledAt e) (sdb_rows db) \<rparr>))"

definition skill_Delete :: "string \<Rightarrow> string \<Rightarrow> string \<Rightarrow> skill_db \<Rightarrow> (store_error, skill_db) result" where
  "skill_Delete tenantID sessionID skillID db =
    (if tenantID = '''' \<or> skillID = '''' then Inl ErrArgs
     else if sdb_fault db then Inl ErrSQL
     else if aget (sdb_rows db) (tenantID, sessionID, skillID) = None then Inl ErrNotFound
     else Inr (db \<lparr> sdb_rows := adel (tenantID, sessionID, skillID) (sdb_rows db) \<rparr>))"

text \<open>\<open>Some enabled\<close> is \<open>found = true\<close>.\<close>

definition skill_Resolve :: "skill_db \<Rightarrow> string \<Rightarrow> string \<Rightarrow> string \<Rightarrow> (store_error, bool option) result" where
  "skill_Resolve db tenantID sessionID skillID =
    (if tenantID = '''' \<or> skillID = '''' then Inl ErrArgs
     else if sdb_fault db then Inl ErrSQL
     else case (if sessionID \<noteq> '''' then aget (sdb_rows db) (tenantID, sessionID, skillID) else None) of
            Some (en, at) \<Rightarrow> Inr (Some en)
          | None \<Rightarrow> Inr (map_option fst (aget (sdb_rows db) (tenantID, '''', skillID))))"

definition skill_row :: "skill_key \<times> bool \<times> time \<Rightarrow> SkillEnablement" where
  "skill_row kv = (case kv of ((t, s, k), en, at) \<Rightarrow>
    \<lparr> se_TenantID = t, se_SessionID = s, se_SkillID = k, se_Enabled = en, se_EnabledAt = at \<rparr>)"

definition skill_list :: "skill_db \<Rightarrow> string \<Rightarrow> string \<Rightarrow> SkillEnablement list" where
  "skill_list db tenantID sessionID =
    sort_key se_SkillID (filter (\<lambda>e. se_TenantID e = tenantID \<and> se_SessionID e = sessionID)
      (map skill_row (sdb_rows db)))"

definition skill_ListForSession :: "skill_db \<Rightarrow> string \<Rightarrow> string \<Rightarrow> (store_error, SkillEnablement list) result" where
  "skill_ListForSession db tenantID sessionID =
    (if tenantID = '''' \<or> sessionID = '''' then Inl ErrArgs
     else if sdb_fault db then Inl ErrSQL
     else Inr (skill_list db tenantID sessionID))"

definition skill_ListForTenant :: "skill_db \<Rightarrow> string \<Rightarrow> (store_error, SkillEnablement list) result" where
  "skill_ListForTenant db tenantID =
    (if tenantID = '''' then Inl ErrArgs
     else if sdb_fault db then Inl ErrSQL
     else Inr (skill_list db tenantID ''''))"

subsection \<open>Enablement\<close>

datatype EnablementMode = ModeOptIn | ModeAuto

text \<open>A wrapper without a store answers from the mode alone.\<close>

record Enablement =
  en_store :: "skill_db option"
  en_mode :: EnablementMode

definition IsEnabled :: "Enablement \<Rightarrow> string \<Rightarrow> string \<Rightarrow> string \<Rightarrow> (store_error, bool) result" where
  "IsEnabled e tenantID sessionID skillID =
    (case en_store e of
       None \<Rightarrow> Inr (en_mode e = ModeAuto)
     | Some db \<Rightarrow>
         if tenantID = '''' \<or> skillID = '''' then Inl ErrArgs
         else case skill_Resolve db tenantID sessionID skillID of
           Inl err \<Rightarrow> Inl err
         | Inr (Some enabled) \<Rightarrow> Inr enabled
         | Inr None \<Rightarrow> Inr (en_mode e = ModeAuto))"

definition enablement_Set ::
  "time \<Rightarrow> string \<Rightarrow> string \<Rightarrow> string \<Rightarrow> bool \<Rightarrow> Enablement \<Rightarrow> (store_error, Enablement) result"
where
  "enablement_Set now tenantID sessionID skillID enabled e =
    (case en_store e of
       None \<Rightarrow> Inl ErrArgs
     | Some db \<Rightarrow> res_bind (skill_Set \<lparr> se_TenantID = tenantID, se_SessionID = sessionID, se_SkillID = skillID,
           se_Enabled = enabled, se_EnabledAt = now \<rparr> db) (\<lambda>db'. Inr (e \<lparr> en_store := Some db' \<rparr>)))"

definition enablement_Delete ::
  "string \<Rightarrow> string \<Rightarrow> string \<Rightarrow> Enablement \<Rightarrow> (store_error, Enablement) result"
where
  "enablement_Delete tenantID sessionID skillID e =
    (case en_store e of
       None \<Rightarrow> Inl ErrArgs
     | Some db \<Rightarrow>
         (case skill_Delete tenantID sessionID skillID db of
            Inl ErrNotFound \<Rightarrow> Inr e
          | Inl err \<Rightarrow> Inl err
          | Inr db' \<Rightarrow> Inr (e \<lparr> en_store := Some db' \<rparr>)))"

definition enablement_ListForSession :: "Enablement \<Rightarrow> string \<Rightarrow> string \<Rightarrow> (store_error, SkillEnablement list) result" where
  "enablement_ListForSession e tenantID sessionID =
    (case en_store e of None \<Rightarrow> Inr [] | Some db \<Rightarrow> skill_ListForSession db tenantID sessionID)"

definition enablement_ListForTenant :: "Enablement \<Rightarrow> string \<Rightarrow> (store_error, SkillEnablement list) result" where
  "enablement_ListForTenant e tenantID =
    (case en_store e of None \<Rightarrow> Inr [] | Some db \<Rightarrow> skill_ListForTenant db tenantID)"

subsection \<open>Facts\<close>

text \<open>
  The rules of the enablement table as its clients use them: a rule can be set
  and read back at its scope, the session rule shadows the tenant rule, and
  rules of other keys are untouched.
\<close>

locale enablement_rules =
  fixes lookup :: "'db \<Rightarrow> skill_key \<Rightarrow> bool option"
    and set_rule :: "SkillEnablement \<Rightarrow> 'db \<Rightarrow> (store_error, 'db) result"
    and resolve :: "'db \<Rightarrow> string \<Rightarrow> string \<Rightarrow> string \<Rightarrow> (store_error, bool option) result"
  assumes set_lookup: "set_rule e db = Inr db' \<Longrightarrow>
      lookup db' key = (if key = (se_TenantID e, se_SessionID e, se_SkillID e) then Some (se_Enabled e) else lookup db key)"
    and set_keeps_resolving: "set_rule e db = Inr db' \<Longrightarrow> resolve db' t s k = Inr r \<Longrightarrow>
      r = (case (if s \<noteq> '''' then lookup db' (t, s, k) else None) of
             Some en \<Rightarrow> Some en | None \<Rightarrow> lookup db' (t, '''', k))"
    and set_resolves: "set_rule e db = Inr db' \<Longrightarrow> t \<noteq> '''' \<Longrightarrow> k \<noteq> '''' \<Longrightarrow> \<exists>r. resolve db' t s k = Inr r"
begin

lemma resolve_after_set:
  assumes "set_rule e db = Inr db'" and "t \<noteq> ''''" and "k \<noteq> ''''"
  shows "resolve db' t s k = Inr
    (if s \<noteq> '''' \<and> (t, s, k) = (se_TenantID e, se_SessionID e, se_SkillID e) then Some (se_Enabled e)
     else if s \<noteq> '''' \<and> lookup db (t, s, k) \<noteq> None then lookup db (t, s, k)
     else if (t, '''', k) = (se_TenantID e, se_SessionID e, se_SkillID e) then Some (se_Enabled e)
     else lookup db (t, '''', k))"
proof -
  obtain r where r: "resolve db' t s k = Inr r"
    using set_resolves [OF assms] by blast
  show ?thesis
    unfolding r set_keeps_resolving [OF assms(1) r] set_lookup [OF assms(1)]
    by (auto split: option.splits)
qed

end

definition skill_lookup :: "skill_db \<Rightarrow> skill_key \<Rightarrow> bool option" where
  "skill_lookup db k = map_option fst (aget (sdb_rows db) k)"

interpretation skill_rules: enablement_rules skill_lookup skill_Set skill_Resolve
proof
  fix e db db' key
  assume "skill_Set e db = Inr db'"
  then show "skill_lookup db' key =
      (if key = (se_TenantID e, se_SessionID e, se_SkillID e) then Some (se_Enabled e) else skill_lookup db key)"
    by (auto simp: skill_Set_def skill_lookup_def split: if_splits)
next
  fix e db db' t s k r
  assume "skill_Set e db = Inr db'" "skill_Resolve db' t s k = Inr r"
  then show "r = (case (if s \<noteq> '''' then skill_lookup db' (t, s, k) else None) of
             Some en \<Rightarrow> Some en | None \<Rightarrow> skill_lookup db' (t, '''', k))"
    by (auto simp: skill_Resolve_def skill_lookup_def split: if_splits option.splits)
next
  fix e db db' and t k s :: string
  assume "skill_Set e db = Inr db'" "t \<noteq> ''''" "k \<noteq> ''''"
  then show "\<exists>r. skill_Resolve db' t s k = Inr r"
    by (auto simp: skill_Set_def skill_Resolve_def split: if_splits option.splits)
qed

definition catalog_inv :: "Catalog \<Rightarrow> bool" where
  "catalog_inv c =
    (amap_ok (ct_skills c)
     \<and> (\<forall>k s. aget (ct_skills c) k = Some s \<longrightarrow> k = catalogKey (sk_TenantID s) (mf_ID (sk_Manifest s)))
     \<and> (\<forall>(n, ch) \<in> set (ct_subs c). length ch \<le> ct_subSize c))"

lemma send_drop_oldest_bound: "length ch \<le> n \<Longrightarrow> length (send_drop_oldest n ev ch) \<le> n"
  by (auto simp: send_drop_oldest_def Let_def)

lemma send_drop_oldest_last: "0 < n \<Longrightarrow> length ch \<le> n \<Longrightarrow> \<exists>old. send_drop_oldest n ev ch = old @ [ev]"
  by (auto simp: send_drop_oldest_def Let_def)

lemma publish_inv: "catalog_inv c \<Longrightarrow> catalog_inv (publish ev c)"
  by (auto simp: catalog_inv_def publish_def send_drop_oldest_bound split: prod.splits)

lemma publish_skills [simp]: "ct_skills (publish ev c) = ct_skills c"
  by (simp add: publish_def)

lemma foldl_publish_skills [simp]: "ct_skills (foldl (\<lambda>c s. publish (kd, s) c) c ss) = ct_skills c"
  by (induction ss arbitrary: c) auto

lemma foldl_publish_inv: "catalog_inv c \<Longrightarrow> catalog_inv (foldl (\<lambda>c s. publish (kd, s) c) c ss)"
  by (induction ss arbitrary: c) (auto simp: publish_inv)

lemma catalog_Set_inv: "catalog_inv c \<Longrightarrow> catalog_inv (catalog_Set s c)"
  unfolding catalog_Set_def Let_def by (rule publish_inv) (auto simp: catalog_inv_def)

lemma removeKey_inv: "catalog_inv c \<Longrightarrow> catalog_inv (removeKey i t c)"
  by (auto simp: removeKey_def Let_def split: option.splits intro!: publish_inv)
     (auto simp: catalog_inv_def)

lemma RemoveBySource_inv:
  assumes "catalog_inv c"
  shows "catalog_inv (RemoveBySource t n c)"
  unfolding RemoveBySource_def Let_def
  by (rule foldl_publish_inv)
     (use assms in \<open>auto simp: catalog_inv_def aget_filter split: option.splits if_splits\<close>)

lemma catalogKey_foreign:
  assumes "catalogKey t i = j" and "CHR '':'' \<notin> set j"
  shows "t = '''' \<and> i = j"
  using assms by (auto simp: catalogKey_def split: if_splits)

lemma catalogKey_tenant:
  assumes "catalogKey t i = catalogKey t' i'" and "t' \<noteq> ''''" and "CHR '':'' \<notin> set t" "CHR '':'' \<notin> set t'"
    and "CHR '':'' \<notin> set i"
  shows "t = t' \<and> i = i'"
proof (cases "t = ''''")
  case True
  then have "i = t' @ CHR '':'' # i'" using assms(1,2) by (simp add: catalogKey_def)
  with assms(5) show ?thesis by simp
next
  case False
  have "cut_byte (t @ CHR '':'' # i) CHR '':'' = (t, i, True)"
    "cut_byte (t' @ CHR '':'' # i') CHR '':'' = (t', i', True)"
    using cut_byte_append assms(3,4) by blast+
  moreover have "t @ CHR '':'' # i = t' @ CHR '':'' # i'"
    using assms(1,2) False by (simp add: catalogKey_def)
  ultimately have "(t, i, True) = (t', i', True)" by (simp only:)
  then show ?thesis by simp
qed

definition plain_names :: "Catalog \<Rightarrow> bool" where
  "plain_names c = (\<forall>k s. aget (ct_skills c) k = Some s \<longrightarrow>
     CHR '':'' \<notin> set (sk_TenantID s) \<and> CHR '':'' \<notin> set (mf_ID (sk_Manifest s)))"

lemma GetForTenant_scoped:
  assumes "catalog_inv c" and "plain_names c" and "CHR '':'' \<notin> set t" and "CHR '':'' \<notin> set i"
    and "GetForTenant t i c = Some s"
  shows "mf_ID (sk_Manifest s) = i \<and> sk_TenantID s \<in> {'''', t}"
proof -
  have key: "k = catalogKey (sk_TenantID s) (mf_ID (sk_Manifest s))"
    "CHR '':'' \<notin> set (sk_TenantID s)" "CHR '':'' \<notin> set (mf_ID (sk_Manifest s))"
    if "aget (ct_skills c) k = Some s" for k
    using that assms(1,2) by (auto simp: catalog_inv_def plain_names_def)
  from assms(5) consider
      (own) "t \<noteq> ''''" "aget (ct_skills c) (catalogKey t i) = Some s"
    | (bare) "aget (ct_skills c) i = Some s"
    by (auto simp: GetForTenant_def split: if_splits option.splits)
  then show ?thesis
  proof cases
    case own
    have "catalogKey (sk_TenantID s) (mf_ID (sk_Manifest s)) = catalogKey t i"
      using key(1) [OF own(2)] by (rule sym)
    from catalogKey_tenant [OF this own(1) key(2) [OF own(2)] assms(3) key(3) [OF own(2)]]
    show ?thesis by simp
  next
    case bare
    have "catalogKey (sk_TenantID s) (mf_ID (sk_Manifest s)) = i"
      using key(1) [OF bare] by (rule sym)
    from catalogKey_foreign [OF this assms(4)] show ?thesis by simp
  qed
qed

lemma IsEnabled_after_Set:
  assumes "enablement_Set now t s k en e = Inr e'" and "t' \<noteq> ''''" and "k' \<noteq> ''''"
  shows "\<exists>db. en_store e = Some db \<and> IsEnabled e' t' s' k' = Inr
    (case (if s' \<noteq> '''' then (if (t', s', k') = (t, s, k) then Some en else skill_lookup db (t', s', k')) else None) of
       Some b \<Rightarrow> b
     | None \<Rightarrow> (case (if (t', '''', k') = (t, s, k) then Some en else skill_lookup db (t', '''', k')) of
                 Some b \<Rightarrow> b | None \<Rightarrow> en_mode e = ModeAuto))"
proof -
  from assms(1) obtain db db' where store: "en_store e = Some db" "en_store e' = Some db'" "en_mode e' = en_mode e"
    and set: "skill_Set \<lparr> se_TenantID = t, se_SessionID = s, se_SkillID = k, se_Enabled = en, se_EnabledAt = now \<rparr> db
      = Inr db'"
    by (auto simp: enablement_Set_def split: option.splits)
  show ?thesis
    using skill_rules.resolve_after_set [OF set assms(2,3), of s'] assms(2,3) store
    by (auto simp: IsEnabled_def split: option.splits if_splits)
qed

subsection \<open>Properties\<close>

text \<open>A tenant's view of the skills catalogue holds only global skills and its own: both the
  filtered listing and the lookup by id return no skill of another tenant, and every catalogue
  operation keeps the invariant this rests on (and every subscriber's buffer within its size).\<close>

theorem skills_tenant_isolation:
  assumes "catalog_inv c" and "plain_names c" and "t \<noteq> ''''" and "CHR '':'' \<notin> set t"
  shows "(\<forall>s. s \<notin> set (ForTenant t globs plan visited) \<or> sk_TenantID s = '''' \<or> sk_TenantID s = t)
    \<and> (\<forall>i s. CHR '':'' \<in> set i \<or> GetForTenant t i c \<noteq> Some s \<or> sk_TenantID s = '''' \<or> sk_TenantID s = t)
    \<and> catalog_inv (catalog_Set sk c) \<and> catalog_inv (removeKey i t c) \<and> catalog_inv (RemoveBySource t n c)"
  using assms GetForTenant_scoped [OF assms(1,2,4)]
  by (auto simp: ForTenant_def catalog_Set_inv removeKey_inv RemoveBySource_inv)

theorem skills_tenant_isolation_witness:
  "catalog_inv (catalog_Set (\<lparr> sk_Manifest = \<lparr> mf_ID = ''gh.review'', mf_Title = '''', mf_Version = '''', mf_Spec = '''',
      mf_Description = '''', mf_Instructions = '''', mf_Resources = [], mf_Prompts = [],
      mf_Binding = \<lparr> b_ServerDependencies = [], b_RequiredTools = [], b_OptionalTools = [],
        b_Policy = \<lparr> sp_RequiresApproval = [], sp_RiskClasses = [] \<rparr>, b_UI = None, b_Plans = [] \<rparr> \<rparr>,
      sk_Source = None, sk_TenantID = ''acme'' \<rparr>) NewCatalog)"
proof -
  have "catalog_inv NewCatalog" "plain_names NewCatalog"
    by (simp_all add: catalog_inv_def plain_names_def NewCatalog_def)
  then show ?thesis
    using skills_tenant_isolation [of NewCatalog "''acme''"] by simp
qed

text \<open>Enablement follows session rule, then tenant rule, then mode: after a \<open>Set\<close> the answer for
  every principal and skill is the one this precedence gives on the old rules with the new rule
  added.\<close>

theorem enablement_precedence:
  assumes "enablement_Set now t s k en e = Inr e'" and "t' \<noteq> ''''" and "k' \<noteq> ''''"
  shows "\<exists>db. en_store e = Some db \<and> IsEnabled e' t' s' k' = Inr
    (case (if s' \<noteq> '''' then (if (t', s', k') = (t, s, k) then Some en else skill_lookup db (t', s', k')) else None) of
       Some b \<Rightarrow> b
     | None \<Rightarrow> (case (if (t', '''', k') = (t, s, k) then Some en else skill_lookup db (t', '''', k')) of
                 Some b \<Rightarrow> b | None \<Rightarrow> en_mode e = ModeAuto))"
  using assms by (rule IsEnabled_after_Set)

theorem enablement_precedence_witness:
  "\<exists>e'. enablement_Set 5 ''acme'' '''' ''gh.review'' True
      \<lparr> en_store = Some \<lparr> sdb_fault = False, sdb_rows = [((''acme'', ''s1'', ''gh.review''), False, 1)] \<rparr>,
        en_mode = ModeOptIn \<rparr> = Inr e'
    \<and> IsEnabled e' ''acme'' ''s1'' ''gh.review'' = Inr False
    \<and> IsEnabled e' ''acme'' ''s2'' ''gh.review'' = Inr True"
proof -
  define e where "e = \<lparr> en_store = Some \<lparr> sdb_fault = False, sdb_rows = [((''acme'', ''s1'', ''gh.review''), False, 1)] \<rparr>,
        en_mode = ModeOptIn \<rparr>"
  have "\<exists>e'. enablement_Set 5 ''acme'' '''' ''gh.review'' True e = Inr e'"
    by (simp add: enablement_Set_def skill_Set_def e_def)
  then obtain e' where set: "enablement_Set 5 ''acme'' '''' ''gh.review'' True e = Inr e'" ..
  then show ?thesis
    using enablement_precedence [OF set, of "''acme''" "''gh.review''" "''s1''"]
      enablement_precedence [OF set, of "''acme''" "''gh.review''" "''s2''"]
    by (auto simp: e_def skill_lookup_def)
qed

end
