(* ===== verification/Go_Time.thy ===== *)
theory Go_Time
  imports Go_Strings
begin

text \<open>
  Instants as the code prints and stores them.  An instant is the integer of
  nanoseconds since 1 January 1970 UTC; the stores keep timestamps with three
  fractional digits, which cuts an instant down to its millisecond, and error
  payloads carry RFC 3339 text.  The calendar is the proleptic Gregorian one,
  on days counted from the epoch.
\<close>

definition second :: duration where "second = 10 ^ 9"

definition millisecond :: duration where "millisecond = 10 ^ 6"

definition minute :: duration where "minute = 60 * second"

definition hour :: duration where "hour = 60 * minute"

lemma duration_pos [simp]: "0 < second" "0 < millisecond" "0 < minute" "0 < hour"
  by (simp_all add: second_def millisecond_def minute_def hour_def)

text \<open>\<open>t.UTC().Format("2006-01-02T15:04:05.000Z")\<close> followed by \<open>time.Parse\<close> of the same layout.\<close>

definition to_ms :: "time \<Rightarrow> time" where
  "to_ms t = t div millisecond * millisecond"

lemma to_ms_le: "to_ms t \<le> t"
  by (simp add: to_ms_def millisecond_def)

lemma to_ms_gt: "t - millisecond < to_ms t"
  using pos_mod_bound [of millisecond t] div_mult_mod_eq [of t millisecond]
  by (simp add: to_ms_def millisecond_def)

lemma to_ms_idem [simp]: "to_ms (to_ms t) = to_ms t"
  by (simp add: to_ms_def millisecond_def)

lemma to_ms_mono: "s \<le> t \<Longrightarrow> to_ms s \<le> to_ms t"
  by (simp add: to_ms_def millisecond_def zdiv_mono1)

subsection \<open>Decimal text\<close>

fun dec_nat :: "nat \<Rightarrow> string" where
  "dec_nat n = (if n < 10 then [''0123456789'' ! n] else dec_nat (n div 10) @ [''0123456789'' ! (n mod 10)])"

declare dec_nat.simps [simp del]

definition dec_int :: "int \<Rightarrow> string" where
  "dec_int i = (if i < 0 then ''-'' @ dec_nat (nat (- i)) else dec_nat (nat i))"

definition pad_to :: "nat \<Rightarrow> string \<Rightarrow> string" where
  "pad_to w s = replicate (w - length s) CHR ''0'' @ s"

subsection \<open>Dates\<close>

text \<open>Year, month (1 to 12) and day of a day number; the year starts in March inside the computation,
  so that the leap day is the last one.\<close>

definition civil_of_days :: "int \<Rightarrow> int \<times> int \<times> int" where
  "civil_of_days z0 =
    (let z = z0 + 719468;
         era = z div 146097;
         doe = z mod 146097;
         yoe = (doe - doe div 1460 + doe div 36524 - doe div 146096) div 365;
         doy = doe - (365 * yoe + yoe div 4 - yoe div 100);
         mp = (5 * doy + 2) div 153;
         d = doy - (153 * mp + 2) div 5 + 1;
         m = (if mp < 10 then mp + 3 else mp - 9);
         y = yoe + era * 400 in
     (if m \<le> 2 then y + 1 else y, m, d))"

definition days_of_civil :: "int \<Rightarrow> int \<Rightarrow> int \<Rightarrow> int" where
  "days_of_civil y0 m d =
    (let y = (if m \<le> 2 then y0 - 1 else y0);
         era = y div 400;
         yoe = y mod 400;
         doy = (153 * (if m > 2 then m - 3 else m + 9) + 2) div 5 + d - 1;
         doe = yoe * 365 + yoe div 4 - yoe div 100 + doy in
     era * 146097 + doe - 719468)"

definition rfc3339 :: "time \<Rightarrow> string" where
  "rfc3339 t =
    (let s = t div second; (y, m, d) = civil_of_days (s div 86400); r = s mod 86400 in
     pad_to 4 (dec_int y) @ ''-'' @ pad_to 2 (dec_int m) @ ''-'' @ pad_to 2 (dec_int d) @ ''T''
       @ pad_to 2 (dec_int (r div 3600)) @ '':'' @ pad_to 2 (dec_int (r mod 3600 div 60)) @ '':''
       @ pad_to 2 (dec_int (r mod 60)) @ ''Z'')"

lemma rfc3339_epoch: "rfc3339 0 = ''1970-01-01T00:00:00Z''"
  by code_simp

lemma rfc3339_leap_day: "rfc3339 (1709210096 * second) = ''2024-02-29T12:34:56Z''"
  by code_simp

end
