(* ===== verification/Registry_Spec.thy ===== *)
theory Registry_Spec
  imports Namespace Go_Time
begin

text \<open>
  \<open>internal/registry/spec.go\<close> and \<open>auth_spec.go\<close>: the definition of a
  registered MCP server, and \<open>Validate\<close>, which rejects malformed specs with the
  name of the offending field and fills in defaults.  Durations are integers of
  nanoseconds; a nil pointer is \<open>None\<close>.
\<close>

record OAuthExchangeSpec =
  ox_TokenURL :: string
  ox_ClientID :: string
  ox_ClientSecretRef :: string
  ox_Audience :: string
  ox_Scope :: string
  ox_GrantType :: string
  ox_SubjectTokenSrc :: string

record AuthSpec =
  au_Strategy :: string
  au_DefaultRiskClass :: string
  au_Env :: "string list"
  au_Headers :: "(string, string) amap"
  au_SecretRef :: string
  au_Exchange :: "OAuthExchangeSpec option"

record StdioSpec =
  st_Command :: string
  st_Args :: "string list"
  st_Env :: "string list"
  st_Cwd :: string
  st_StartTimeout :: duration

record HTTPSpec =
  ht_URL :: string
  ht_AuthHeader :: string
  ht_Timeout :: duration

record HealthSpec =
  he_PingInterval :: duration
  he_PingTimeout :: duration
  he_StartupGrace :: duration

record LifecycleSpec =
  lc_IdleTimeout :: duration
  lc_BackoffInitial :: duration
  lc_BackoffMax :: duration
  lc_MaxRestartAttempts :: int
  lc_CircuitOpenDuration :: duration
  lc_ShutdownGrace :: duration

record ResourceLimits =
  rl_MemoryMax :: string
  rl_CPUMillicores :: int
  rl_OpenFiles :: int
  rl_Processes :: int

record ServerSpec =
  ss_ID :: string
  ss_DisplayName :: string
  ss_Transport :: string
  ss_RuntimeMode :: string
  ss_Stdio :: "StdioSpec option"
  ss_HTTP :: "HTTPSpec option"
  ss_Health :: HealthSpec
  ss_Lifecycle :: LifecycleSpec
  ss_Limits :: ResourceLimits
  ss_Enabled :: "bool option"
  ss_Auth :: "AuthSpec option"

definition ValidModes :: "string list" where
  "ValidModes = [''shared_global'', ''per_tenant'', ''per_user'', ''per_session'', ''remote_static'']"

definition defaulted :: "int \<Rightarrow> int \<Rightarrow> int" where
  "defaulted v d = (if v = 0 then d else v)"

definition default_health :: "HealthSpec \<Rightarrow> HealthSpec" where
  "default_health h = h
    \<lparr> he_PingTimeout := defaulted (he_PingTimeout h) (5 * second),
      he_StartupGrace := defaulted (he_StartupGrace h) (5 * second) \<rparr>"

definition default_lifecycle :: "LifecycleSpec \<Rightarrow> LifecycleSpec" where
  "default_lifecycle l = l
    \<lparr> lc_BackoffInitial := defaulted (lc_BackoffInitial l) (500 * 10 ^ 6),
      lc_BackoffMax := defaulted (lc_BackoffMax l) (30 * second),
      lc_MaxRestartAttempts := defaulted (lc_MaxRestartAttempts l) 5,
      lc_CircuitOpenDuration := defaulted (lc_CircuitOpenDuration l) (300 * second),
      lc_ShutdownGrace := defaulted (lc_ShutdownGrace l) (5 * second) \<rparr>"

text \<open>The transport-specific part: the sub-spec must be present and gets its timeout default.\<close>

definition validate_transport :: "ServerSpec \<Rightarrow> (string, ServerSpec) result" where
  "validate_transport s =
    (if ss_Transport s = ''stdio'' then
       (case ss_Stdio s of
          None \<Rightarrow> Inl ''stdio.command''
        | Some st \<Rightarrow>
            if st_Command st = '''' then Inl ''stdio.command''
            else Inr (s \<lparr> ss_Stdio := Some (st \<lparr> st_StartTimeout := defaulted (st_StartTimeout st) (10 * second) \<rparr>) \<rparr>))
     else
       (case ss_HTTP s of
          None \<Rightarrow> Inl ''http.url''
        | Some h \<Rightarrow>
            if ht_URL h = '''' then Inl ''http.url''
            else if url_parse (ht_URL h) = None then Inl ''http.url''
            else Inr (s \<lparr> ss_HTTP := Some (h \<lparr> ht_Timeout := defaulted (ht_Timeout h) (30 * second) \<rparr>) \<rparr>)))"

definition defaulted_mode :: "ServerSpec \<Rightarrow> string" where
  "defaulted_mode s =
    (if ss_RuntimeMode s = '''' then (if ss_Transport s = ''http'' then ''remote_static'' else ''shared_global'')
     else ss_RuntimeMode s)"

definition spec_Validate :: "ServerSpec option \<Rightarrow> (string, ServerSpec) result" where
  "spec_Validate so =
    (case so of
       None \<Rightarrow> Inl ''spec''
     | Some s \<Rightarrow>
         if ss_ID s = '''' then Inl ''id''
         else if \<not> ValidateServerID (ss_ID s) then Inl ''id''
         else if ss_Transport s = '''' then Inl ''transport''
         else if ss_Transport s \<noteq> ''stdio'' \<and> ss_Transport s \<noteq> ''http'' then Inl ''transport''
         else let mode = defaulted_mode s in
           if mode \<notin> set ValidModes then Inl ''runtime_mode''
           else if ss_Transport s = ''stdio'' \<and> mode = ''remote_static'' then Inl ''runtime_mode''
           else if ss_Transport s = ''http'' \<and> mode \<noteq> ''remote_static'' then Inl ''runtime_mode''
           else res_bind (validate_transport
                  (s \<lparr> ss_DisplayName := (if ss_DisplayName s = '''' then ss_ID s else ss_DisplayName s),
                       ss_RuntimeMode := mode \<rparr>)) (\<lambda>s'.
                Inr (s' \<lparr> ss_Health := default_health (ss_Health s'),
                          ss_Lifecycle := default_lifecycle (ss_Lifecycle s') \<rparr>)))"

text \<open>The snapshot of a registered server the gateway works on: its spec and the row's enabled flag.\<close>

record registry_snapshot =
  sn_Spec :: ServerSpec
  sn_Enabled :: bool

subsection \<open>What a validated spec satisfies\<close>

definition spec_wf :: "ServerSpec \<Rightarrow> bool" where
  "spec_wf s =
    (ValidateServerID (ss_ID s) \<and> ss_DisplayName s \<noteq> ''''
     \<and> ((ss_Transport s = ''stdio'' \<and> ss_RuntimeMode s \<in> set ValidModes \<and> ss_RuntimeMode s \<noteq> ''remote_static''
          \<and> (\<exists>st. ss_Stdio s = Some st \<and> st_Command st \<noteq> '''' \<and> st_StartTimeout st \<noteq> 0))
        \<or> (ss_Transport s = ''http'' \<and> ss_RuntimeMode s = ''remote_static''
          \<and> (\<exists>h. ss_HTTP s = Some h \<and> ht_URL h \<noteq> '''' \<and> url_parse (ht_URL h) \<noteq> None \<and> ht_Timeout h \<noteq> 0)))
     \<and> he_PingTimeout (ss_Health s) \<noteq> 0 \<and> he_StartupGrace (ss_Health s) \<noteq> 0
     \<and> lc_BackoffInitial (ss_Lifecycle s) \<noteq> 0 \<and> lc_BackoffMax (ss_Lifecycle s) \<noteq> 0
     \<and> lc_MaxRestartAttempts (ss_Lifecycle s) \<noteq> 0 \<and> lc_CircuitOpenDuration (ss_Lifecycle s) \<noteq> 0
     \<and> lc_ShutdownGrace (ss_Lifecycle s) \<noteq> 0)"

lemma defaulted_nonzero [simp]: "d \<noteq> 0 \<Longrightarrow> defaulted v d \<noteq> 0"
  by (simp add: defaulted_def)

lemma defaulted_id [simp]: "v \<noteq> 0 \<Longrightarrow> defaulted v d = v"
  by (simp add: defaulted_def)

lemma second_pos [simp]: "second \<noteq> 0" "second > 0"
  by (simp_all add: second_def)

lemma validate_transport_Inr:
  assumes "validate_transport s = Inr s'"
  shows "(ss_Transport s = ''stdio'' \<and> (\<exists>st. ss_Stdio s' = Some st \<and> st_Command st \<noteq> '''' \<and> st_StartTimeout st \<noteq> 0)
          \<and> (\<exists>x. s' = s \<lparr> ss_Stdio := x \<rparr>))
    \<or> (ss_Transport s \<noteq> ''stdio'' \<and> (\<exists>h. ss_HTTP s' = Some h \<and> ht_URL h \<noteq> ''''
          \<and> url_parse (ht_URL h) \<noteq> None \<and> ht_Timeout h \<noteq> 0) \<and> (\<exists>x. s' = s \<lparr> ss_HTTP := x \<rparr>))"
  using assms by (auto simp: validate_transport_def split: if_splits option.splits)

lemma spec_Validate_wf:
  assumes "spec_Validate (Some s) = Inr s'"
  shows "spec_wf s'"
proof -
  define s1 where "s1 = s \<lparr> ss_DisplayName := (if ss_DisplayName s = '''' then ss_ID s else ss_DisplayName s),
      ss_RuntimeMode := defaulted_mode s \<rparr>"
  obtain s2 where chk: "ss_ID s \<noteq> ''''" "ValidateServerID (ss_ID s)"
      "ss_Transport s = ''stdio'' \<or> ss_Transport s = ''http''"
      "defaulted_mode s \<in> set ValidModes"
      "ss_Transport s = ''stdio'' \<longrightarrow> defaulted_mode s \<noteq> ''remote_static''"
      "ss_Transport s = ''http'' \<longrightarrow> defaulted_mode s = ''remote_static''"
    and vt: "validate_transport s1 = Inr s2"
    and s': "s' = s2 \<lparr> ss_Health := default_health (ss_Health s2), ss_Lifecycle := default_lifecycle (ss_Lifecycle s2) \<rparr>"
    using assms by (auto simp: spec_Validate_def s1_def Let_def split: if_splits)
  show ?thesis
    using validate_transport_Inr [OF vt] chk
    by (auto simp: s' s1_def spec_wf_def default_health_def default_lifecycle_def split: if_splits)
qed

lemma validate_transport_fixed:
  assumes "spec_wf s"
  shows "validate_transport s = Inr s"
proof (cases "ss_Transport s = ''stdio''")
  case True
  then obtain st where st: "ss_Stdio s = Some st" "st_Command st \<noteq> ''''" "st_StartTimeout st \<noteq> 0"
    using assms by (auto simp: spec_wf_def)
  then have "st \<lparr> st_StartTimeout := defaulted (st_StartTimeout st) (10 * second) \<rparr> = st" by simp
  with True st show ?thesis by (simp add: validate_transport_def)
next
  case False
  then obtain h where h: "ss_HTTP s = Some h" "ht_URL h \<noteq> ''''" "url_parse (ht_URL h) \<noteq> None" "ht_Timeout h \<noteq> 0"
    using assms by (auto simp: spec_wf_def)
  then have "h \<lparr> ht_Timeout := defaulted (ht_Timeout h) (30 * second) \<rparr> = h" by simp
  with False h show ?thesis by (simp add: validate_transport_def)
qed

lemma spec_Validate_fixed:
  assumes "spec_wf s"
  shows "spec_Validate (Some s) = Inr s"
proof -
  have chk: "ss_ID s \<noteq> ''''" "ValidateServerID (ss_ID s)" "ss_DisplayName s \<noteq> ''''"
    using assms ValidateServerID_chars(1) by (auto simp: spec_wf_def)
  have mode: "ss_RuntimeMode s \<noteq> ''''"
    using assms by (auto simp: spec_wf_def ValidModes_def)
  have same: "s \<lparr> ss_DisplayName := (if ss_DisplayName s = '''' then ss_ID s else ss_DisplayName s),
      ss_RuntimeMode := defaulted_mode s \<rparr> = s"
    using chk mode by (simp add: defaulted_mode_def)
  have hl: "s \<lparr> ss_Health := default_health (ss_Health s), ss_Lifecycle := default_lifecycle (ss_Lifecycle s) \<rparr> = s"
    using assms by (simp add: spec_wf_def default_health_def default_lifecycle_def)
  have modes: "defaulted_mode s \<in> set ValidModes"
    "ss_Transport s = ''stdio'' \<and> defaulted_mode s \<noteq> ''remote_static''
       \<or> ss_Transport s = ''http'' \<and> defaulted_mode s = ''remote_static''"
    using assms mode by (auto simp: spec_wf_def defaulted_mode_def ValidModes_def)
  show ?thesis
    unfolding spec_Validate_def option.case Let_def same
    using chk modes validate_transport_fixed [OF assms] by (auto simp: hl)
qed

subsection \<open>Properties\<close>

text \<open>C24: \<open>Validate\<close> accepts exactly the specs that its checks and defaults bring into normal form: an
  accepted spec is well formed (routable id, transport and runtime mode consistent, the sub-spec
  present, every timeout and backoff set), and validating it again changes nothing.\<close>

theorem spec_validation_normalises:
  assumes "spec_Validate (Some s) = Inr s'"
  shows "spec_wf s' \<and> ss_ID s' = ss_ID s \<and> spec_Validate (Some s') = Inr s'"
proof -
  have "ss_ID s' = ss_ID s"
    using assms
    by (auto simp: spec_Validate_def Let_def split: if_splits dest!: validate_transport_Inr)
  with spec_Validate_wf [OF assms] spec_Validate_fixed show ?thesis by blast
qed

definition sample_spec :: ServerSpec where
  "sample_spec =
    \<lparr> ss_ID = ''github'', ss_DisplayName = '''', ss_Transport = ''stdio'', ss_RuntimeMode = '''',
      ss_Stdio = Some \<lparr> st_Command = ''gh-mcp'', st_Args = [], st_Env = [], st_Cwd = '''', st_StartTimeout = 0 \<rparr>,
      ss_HTTP = None,
      ss_Health = \<lparr> he_PingInterval = 0, he_PingTimeout = 0, he_StartupGrace = 0 \<rparr>,
      ss_Lifecycle = \<lparr> lc_IdleTimeout = 0, lc_BackoffInitial = 0, lc_BackoffMax = 0, lc_MaxRestartAttempts = 0,
        lc_CircuitOpenDuration = 0, lc_ShutdownGrace = 0 \<rparr>,
      ss_Limits = \<lparr> rl_MemoryMax = '''', rl_CPUMillicores = 0, rl_OpenFiles = 0, rl_Processes = 0 \<rparr>,
      ss_Enabled = None, ss_Auth = None \<rparr>"

theorem spec_validation_normalises_witness:
  "\<exists>s'. spec_Validate (Some sample_spec) = Inr s' \<and> spec_wf s' \<and> spec_Validate (Some s') = Inr s'"
proof -
  have "ValidateServerID ''github''" by code_simp
  then have "\<exists>s'. spec_Validate (Some sample_spec) = Inr s'"
    by (simp add: spec_Validate_def sample_spec_def defaulted_mode_def ValidModes_def validate_transport_def Let_def)
  then obtain s' where run: "spec_Validate (Some sample_spec) = Inr s'" ..
  with spec_validation_normalises [OF run] show ?thesis by blast
qed

end
