(* ===== verification/Audit_Events.thy ===== *)
theory Audit_Events
  imports Json Go_Time
begin

text \<open>
  \<open>internal/audit/emitter.go\<close>: the events every component hands to the audit
  emitter, kept as the list of what was emitted.  Emission never fails and never
  changes the caller's result.
\<close>

record Event =
  ev_Type :: string
  ev_TenantID :: string
  ev_SessionID :: string
  ev_UserID :: string
  ev_Payload :: "(string, json) amap"

definition EventPolicyAllowed :: string where "EventPolicyAllowed = ''policy.allowed''"
definition EventPolicyDenied :: string where "EventPolicyDenied = ''policy.denied''"
definition EventToolCallStart :: string where "EventToolCallStart = ''tool_call.start''"
definition EventToolCallComplete :: string where "EventToolCallComplete = ''tool_call.complete''"
definition EventToolCallFailed :: string where "EventToolCallFailed = ''tool_call.failed''"
definition EventCredentialInjected :: string where "EventCredentialInjected = ''credential.injected''"
definition EventCredentialExchangeNG :: string where "EventCredentialExchangeNG = ''credential.exchange.failed''"
definition EventA2ADispatch :: string where "EventA2ADispatch = ''a2a.dispatch''"
definition EventAgentProfileViolation :: string where "EventAgentProfileViolation = ''agent_profile.violation''"
definition EventVKScopeViolation :: string where "EventVKScopeViolation = ''vk.scope_violation''"

end
