(* ===== verification/Approvals.thy ===== *)
theory Approvals
  imports Policy_Engine Audit_Events Sql_Tables "HOL-Library.Word"
begin

text \<open>
  The approval flow: \<open>internal/policy/approval/flow.go\<close>, its storage adapter and
  the SQLite table behind it (\<open>internal/storage/sqlite/approval_store.go\<close>).
  A call that needs an approval opens a pending row, asks the client when the
  session supports elicitation, and otherwise leaves the row to an operator; a
  resumed call may replay a decision taken before.

  The metadata column holds the JSON value itself rather than its text, with
  \<open>None\<close> for the empty column; SHA-256 is the parameter \<open>sha\<close>.  Waiting for the
  client takes minutes, in which operators and the sweeper run: \<open>re_wait\<close> is
  the effect of everyone else on the flow's state in that time.
\<close>

subsection \<open>The approvals table\<close>

definition StatusPending :: string where "StatusPending = ''pending''"
definition StatusApproved :: string where "StatusApproved = ''approved''"
definition StatusDenied :: string where "StatusDenied = ''denied''"
definition StatusExpired :: string where "StatusExpired = ''expired''"

lemmas status_defs = StatusPending_def StatusApproved_def StatusDenied_def StatusExpired_def

record ApprovalRecord =
  ar_ID :: string
  ar_TenantID :: string
  ar_SessionID :: string
  ar_UserID :: string
  ar_Tool :: string
  ar_ArgsSummary :: string
  ar_RiskClass :: string
  ar_Status :: string
  ar_CreatedAt :: time
  ar_DecidedAt :: "time option"
  ar_ExpiresAt :: time
  ar_MetadataJSON :: "json option"

text \<open>\<open>ad_fault\<close> is a connection on which every statement fails, \<open>ad_fk\<close> its foreign-key enforcement;
  rows are in rowid order.\<close>

record appr_db =
  ad_fault :: bool
  ad_fk :: bool
  ad_tenants :: "string list"
  ad_rows :: "ApprovalRecord list"

text \<open>What a row reads back as: empty strings pass through NULL unchanged, instants lose their
  sub-millisecond part.\<close>

definition stored :: "ApprovalRecord \<Rightarrow> ApprovalRecord" where
  "stored a = a \<lparr> ar_CreatedAt := to_ms (ar_CreatedAt a),
                  ar_DecidedAt := map_option to_ms (ar_DecidedAt a),
                  ar_ExpiresAt := to_ms (ar_ExpiresAt a) \<rparr>"

definition row_at :: "string \<Rightarrow> string \<Rightarrow> ApprovalRecord \<Rightarrow> bool" where
  "row_at t i r = (ar_TenantID r = t \<and> ar_ID r = i)"

text \<open>\<open>INSERT OR REPLACE\<close>: the primary key is the id alone.\<close>

definition sql_Insert :: "ApprovalRecord \<Rightarrow> appr_db \<Rightarrow> (store_error, appr_db) result" where
  "sql_Insert a db =
    (if ar_TenantID a = '''' \<or> ar_ID a = '''' then Inl ErrArgs
     else if ad_fault db then Inl ErrSQL
     else if ad_fk db \<and> ar_TenantID a \<notin> set (ad_tenants db) then Inl ErrSQL
     else Inr (db \<lparr> ad_rows := filter (\<lambda>r. ar_ID r \<noteq> ar_ID a) (ad_rows db) @ [stored a] \<rparr>))"

definition set_status :: "string \<Rightarrow> time \<Rightarrow> ApprovalRecord \<Rightarrow> ApprovalRecord" where
  "set_status st at r = r \<lparr> ar_Status := st, ar_DecidedAt := Some (to_ms at) \<rparr>"

definition sql_UpdateStatus ::
  "string \<Rightarrow> string \<Rightarrow> string \<Rightarrow> time \<Rightarrow> appr_db \<Rightarrow> (store_error, appr_db) result"
where
  "sql_UpdateStatus tenantID i st decidedAt db =
    (if ad_fault db then Inl ErrSQL
     else if filter (row_at tenantID i) (ad_rows db) = [] then Inl ErrNotFound
     else Inr (db \<lparr> ad_rows := map (\<lambda>r. if row_at tenantID i r then set_status st decidedAt r else r)
                 (ad_rows db) \<rparr>))"

definition sql_Get :: "appr_db \<Rightarrow> string \<Rightarrow> string \<Rightarrow> (store_error, ApprovalRecord) result" where
  "sql_Get db tenantID i =
    (if ad_fault db then Inl ErrSQL
     else case List.find (row_at tenantID i) (ad_rows db) of None \<Rightarrow> Inl ErrNotFound | Some r \<Rightarrow> Inr r)"

definition sql_ListPending :: "appr_db \<Rightarrow> string \<Rightarrow> (store_error, ApprovalRecord list) result" where
  "sql_ListPending db tenantID =
    (if ad_fault db then Inl ErrSQL
     else Inr (sort_key (\<lambda>r. - ar_CreatedAt r)
       (filter (\<lambda>r. ar_TenantID r = tenantID \<and> ar_Status r = StatusPending) (ad_rows db))))"

definition overdue :: "time \<Rightarrow> ApprovalRecord \<Rightarrow> bool" where
  "overdue cutoff r = (ar_Status r = StatusPending \<and> ar_ExpiresAt r < to_ms cutoff)"

definition sql_ExpireOlderThan :: "time \<Rightarrow> appr_db \<Rightarrow> (store_error, nat \<times> appr_db) result" where
  "sql_ExpireOlderThan cutoff db =
    (if ad_fault db then Inl ErrSQL
     else Inr (length (filter (overdue cutoff) (ad_rows db)),
               db \<lparr> ad_rows := map (\<lambda>r. if overdue cutoff r then set_status StatusExpired cutoff r else r)
                 (ad_rows db) \<rparr>))"

subsection \<open>flow.go: types and helpers\<close>

record Approval =
  apv_ID :: string
  apv_TenantID :: string
  apv_SessionID :: string
  apv_UserID :: string
  apv_Tool :: string
  apv_ArgsSummary :: string
  apv_RiskClass :: string
  apv_Status :: string
  apv_CreatedAt :: time
  apv_DecidedAt :: "time option"
  apv_ExpiresAt :: time
  apv_Metadata :: "(string, json) amap"

record Outcome =
  oc_Approval :: "Approval option"
  oc_Decision :: string

definition oc_Approved :: "Outcome \<Rightarrow> bool" where
  "oc_Approved out = (oc_Decision out = StatusApproved)"

definition oc_FallbackRequired :: "Outcome \<Rightarrow> bool" where
  "oc_FallbackRequired out = (oc_Decision out = ''fallback_required'')"

record CallContext =
  cc_Tool :: string
  cc_Arguments :: string
  cc_SkillID :: string
  cc_RiskClass :: string
  cc_ApprovalID :: string

record ElicitationCreateParams =
  el_Message :: string
  el_RequestedSchema :: string
  el_Meta :: json

record ElicitationCreateResult =
  er_Action :: string
  er_Content :: "json option"

datatype appr_error = FlowNotConfigured | NilStorePanic | InvalidStatus string | StoreFailed store_error

text \<open>The adapter between the flow's rows and the table's.  An empty metadata map leaves the column
  empty; a column that is not an object leaves the map empty; of a repeated key the last one counts.\<close>

definition approvalToRecord :: "Approval \<Rightarrow> ApprovalRecord" where
  "approvalToRecord a =
    \<lparr> ar_ID = apv_ID a, ar_TenantID = apv_TenantID a, ar_SessionID = apv_SessionID a, ar_UserID = apv_UserID a,
      ar_Tool = apv_Tool a, ar_ArgsSummary = apv_ArgsSummary a, ar_RiskClass = apv_RiskClass a,
      ar_Status = apv_Status a, ar_CreatedAt = apv_CreatedAt a, ar_DecidedAt = apv_DecidedAt a,
      ar_ExpiresAt = apv_ExpiresAt a,
      ar_MetadataJSON = (if length (apv_Metadata a) > 0 then Some (JObj (apv_Metadata a)) else None) \<rparr>"

definition unmarshal_map :: "json option \<Rightarrow> (string, json) amap" where
  "unmarshal_map j =
    (case j of Some (JObj kvs) \<Rightarrow> fold (\<lambda>(k, v) m. aput k v m) kvs [] | _ \<Rightarrow> [])"

definition recordToApproval :: "ApprovalRecord \<Rightarrow> Approval" where
  "recordToApproval r =
    \<lparr> apv_ID = ar_ID r, apv_TenantID = ar_TenantID r, apv_SessionID = ar_SessionID r, apv_UserID = ar_UserID r,
      apv_Tool = ar_Tool r, apv_ArgsSummary = ar_ArgsSummary r, apv_RiskClass = ar_RiskClass r,
      apv_Status = ar_Status r, apv_CreatedAt = ar_CreatedAt r, apv_DecidedAt = ar_DecidedAt r,
      apv_ExpiresAt = ar_ExpiresAt r, apv_Metadata = unmarshal_map (ar_MetadataJSON r) \<rparr>"

definition approval_Insert :: "Approval \<Rightarrow> appr_db \<Rightarrow> (store_error, appr_db) result" where
  "approval_Insert a db = sql_Insert (approvalToRecord a) db"

definition approval_Get :: "appr_db \<Rightarrow> string \<Rightarrow> string \<Rightarrow> (store_error, Approval) result" where
  "approval_Get db tenantID i = res_bind (sql_Get db tenantID i) (\<lambda>r. Inr (recordToApproval r))"

definition approval_ListPending :: "appr_db \<Rightarrow> string \<Rightarrow> (store_error, Approval list) result" where
  "approval_ListPending db tenantID = res_bind (sql_ListPending db tenantID) (\<lambda>rs. Inr (map recordToApproval rs))"

definition summarizeArgs :: "string \<Rightarrow> string" where
  "summarizeArgs args =
    (if length args = 0 then ''''
     else if length args > 1024 then take 1024 args @ [CHR 0xE2, CHR 0x80, CHR 0xA6]
     else args)"

definition argsHash :: "(string \<Rightarrow> nat list) \<Rightarrow> string \<Rightarrow> string" where
  "argsHash sha args = hex_encode (sha args)"

text \<open>Decoding into a struct with the one field \<open>approve\<close>: names match without regard to case, a null
  leaves the field, a value of another type is an error, later members win.\<close>

definition ascii_lower :: "char \<Rightarrow> char" where
  "ascii_lower c = (let n = (of_char c :: nat) in if 65 \<le> n \<and> n \<le> 90 then char_of (n + 32) else c)"

definition equal_fold :: "string \<Rightarrow> string \<Rightarrow> bool" where
  "equal_fold a b = (map ascii_lower a = map ascii_lower b)"

fun decode_approve :: "(string \<times> json) list \<Rightarrow> bool \<Rightarrow> (string, bool) result" where
  "decode_approve [] acc = Inr acc"
| "decode_approve ((k, v) # kvs) acc =
    (if equal_fold k ''approve'' then
       (case v of
          JBool b \<Rightarrow> decode_approve kvs b
        | JNull \<Rightarrow> decode_approve kvs acc
        | _ \<Rightarrow> Inl ''cannot unmarshal into field of type bool'')
     else decode_approve kvs acc)"

definition extractApprovePayload :: "json option \<Rightarrow> (string, bool) result" where
  "extractApprovePayload raw =
    (case raw of
       None \<Rightarrow> Inr False
     | Some (JObj kvs) \<Rightarrow> decode_approve kvs False
     | Some JNull \<Rightarrow> Inr False
     | Some _ \<Rightarrow> Inl ''cannot unmarshal into value of type struct'')"

definition approve_schema :: string where
  "approve_schema = concat (map (\<lambda>l. l @ [CHR 0x0A])
     [''{'',
      ''  \"type\": \"object\",'',
      ''  \"properties\": {'',
      ''    \"approve\": {\"type\": \"boolean\", \"title\": \"Approve this action?\"},'',
      ''    \"note\":    {\"type\": \"string\", \"title\": \"Optional reason\"}'',
      ''  },'',
      ''  \"required\": [\"approve\"]'']) @ ''}''"

definition buildElicitationParams :: "Approval \<Rightarrow> Decision \<Rightarrow> ElicitationCreateParams" where
  "buildElicitationParams a dec =
    \<lparr> el_Message = ''Approve calling '' @ d_Tool dec @ ''? Risk: '' @ d_RiskClass dec @ ''.'',
      el_RequestedSchema = approve_schema,
      el_Meta = JObj [(''portico'', JObj
        [(''approval_id'', JStr (apv_ID a)), (''args_summary'', JStr (apv_ArgsSummary a)),
         (''expires_at'', JStr (rfc3339 (apv_ExpiresAt a))), (''risk_class'', JStr (apv_RiskClass a)),
         (''skill_id'', case aget (apv_Metadata a) ''skill_id'' of None \<Rightarrow> JNull | Some v \<Rightarrow> v),
         (''tool'', JStr (apv_Tool a))])] \<rparr>"

subsection \<open>flow.go: the flow\<close>

record Flow =
  fl_store :: "appr_db option"
  fl_sender :: "(string \<Rightarrow> ElicitationCreateParams \<Rightarrow> duration \<Rightarrow> (string, ElicitationCreateResult) result) option"
  fl_sessions :: "(string \<Rightarrow> bool) option"
  fl_idC :: "64 word"
  fl_audit :: "Event list"

record run_env =
  re_now :: time
  re_idNow :: time
  re_decided :: time
  re_wait :: "Flow \<Rightarrow> Flow"

definition flow_emit :: "string \<Rightarrow> Approval \<Rightarrow> (string, json) amap \<Rightarrow> Flow \<Rightarrow> Flow" where
  "flow_emit evType a extra f =
    f \<lparr> fl_audit := fl_audit f @
      [\<lparr> ev_Type = evType, ev_TenantID = apv_TenantID a, ev_SessionID = apv_SessionID a, ev_UserID = apv_UserID a,
         ev_Payload = fold (\<lambda>(k, v) m. aput k v m) extra
           [(''approval_id'', JStr (apv_ID a)), (''tool'', JStr (apv_Tool a)), (''risk_class'', JStr (apv_RiskClass a)),
            (''skill_id'', case aget (apv_Metadata a) ''skill_id'' of None \<Rightarrow> JNull | Some v \<Rightarrow> v)] \<rparr>] \<rparr>"

text \<open>\<open>time.Now().UnixNano()\<close> is a signed 64-bit count.\<close>

definition orGenerateID :: "string \<Rightarrow> time \<Rightarrow> Flow \<Rightarrow> string \<times> Flow" where
  "orGenerateID supplied idNow f =
    (if supplied \<noteq> '''' then (supplied, f)
     else let c = fl_idC f + 1 in
       (''apr_'' @ dec_int (sint (word_of_int idNow :: 64 word)) @ ''_'' @ dec_nat (unat c), f \<lparr> fl_idC := c \<rparr>))"

definition replay_identity :: "(string \<Rightarrow> nat list) \<Rightarrow> Decision \<Rightarrow> CallContext \<Rightarrow> Approval \<Rightarrow> bool" where
  "replay_identity sha dec call existing =
    (case (as_string (aget (apv_Metadata existing) ''args_hash''), as_string (aget (apv_Metadata existing) ''skill_id'')) of
       (Some storedHash, Some storedSkill) \<Rightarrow>
         \<not> (apv_Tool existing \<noteq> d_Tool dec \<or> storedHash = '''' \<or> storedHash \<noteq> argsHash sha (cc_Arguments call)
            \<or> storedSkill \<noteq> cc_SkillID call)
     | _ \<Rightarrow> False)"

definition replayDecision ::
  "(string \<Rightarrow> nat list) \<Rightarrow> string \<Rightarrow> Decision \<Rightarrow> CallContext \<Rightarrow> appr_db \<Rightarrow> Flow \<Rightarrow> Outcome option \<times> Flow"
where
  "replayDecision sha tenantID dec call db f =
    (case approval_Get db tenantID (cc_ApprovalID call) of
       Inl err \<Rightarrow> (None, f)
     | Inr existing \<Rightarrow>
         if \<not> replay_identity sha dec call existing then (None, f)
         else if apv_Status existing = StatusApproved
         then (Some \<lparr> oc_Approval = Some existing, oc_Decision = StatusApproved \<rparr>,
               flow_emit ''approval.replayed'' existing [(''tool'', JStr (apv_Tool existing))] f)
         else if apv_Status existing = StatusDenied
         then (Some \<lparr> oc_Approval = Some existing, oc_Decision = StatusDenied \<rparr>, f)
         else if apv_Status existing = StatusExpired
         then (Some \<lparr> oc_Approval = Some existing, oc_Decision = StatusExpired \<rparr>, f)
         else (None, f))"

definition run_timeout :: "Decision \<Rightarrow> duration" where
  "run_timeout dec = (if d_ApprovalTimeout dec \<le> 0 then 300 * second else d_ApprovalTimeout dec)"

definition new_approval ::
  "(string \<Rightarrow> nat list) \<Rightarrow> time \<Rightarrow> string \<Rightarrow> string \<Rightarrow> string \<Rightarrow> string \<Rightarrow> Decision \<Rightarrow> CallContext \<Rightarrow> Approval"
where
  "new_approval sha now i tenantID sessionID userID dec call =
    \<lparr> apv_ID = i, apv_TenantID = tenantID, apv_SessionID = sessionID, apv_UserID = userID,
      apv_Tool = d_Tool dec, apv_ArgsSummary = summarizeArgs (cc_Arguments call), apv_RiskClass = cc_RiskClass call,
      apv_Status = StatusPending, apv_CreatedAt = now, apv_DecidedAt = None, apv_ExpiresAt = now + run_timeout dec,
      apv_Metadata = [(''args_hash'', JStr (argsHash sha (cc_Arguments call))), (''skill_id'', JStr (cc_SkillID call))] \<rparr>"

text \<open>The decision after the client answered or failed to: the status is written, an error of the
  store is dropped.\<close>

definition conclude ::
  "string \<Rightarrow> Approval \<Rightarrow> string \<Rightarrow> time \<Rightarrow> string \<Rightarrow> (string, json) amap \<Rightarrow> Flow \<Rightarrow> Outcome \<times> Flow"
where
  "conclude tenantID a st decided evType extra f =
    (let store' = (case fl_store f of
           None \<Rightarrow> None
         | Some db \<Rightarrow> (case sql_UpdateStatus tenantID (apv_ID a) st decided db of Inl err \<Rightarrow> Some db | Inr db' \<Rightarrow> Some db'));
         a' = a \<lparr> apv_Status := st, apv_DecidedAt := Some decided \<rparr> in
     (\<lparr> oc_Approval = Some a', oc_Decision = st \<rparr>, flow_emit evType a' extra (f \<lparr> fl_store := store' \<rparr>)))"

definition answer_status :: "ElicitationCreateResult \<Rightarrow> string" where
  "answer_status res =
    (if er_Action res = ''accept''
     then (if extractApprovePayload (er_Content res) = Inr True then StatusApproved else StatusDenied)
     else if er_Action res = ''reject'' \<or> er_Action res = ''cancel'' then StatusDenied
     else StatusExpired)"

definition after_elicit ::
  "string \<Rightarrow> Approval \<Rightarrow> time \<Rightarrow> (string, ElicitationCreateResult) result \<Rightarrow> Flow \<Rightarrow> Outcome \<times> Flow"
where
  "after_elicit tenantID a decided answer f =
    (case answer of
       Inl err \<Rightarrow> conclude tenantID a StatusExpired decided ''approval.expired'' [(''reason'', JStr err)] f
     | Inr res \<Rightarrow>
         if er_Action res = ''accept''
         then conclude tenantID a (answer_status res) decided ''approval.decided''
                [(''decision'', JStr (answer_status res))] f
         else if er_Action res = ''reject'' \<or> er_Action res = ''cancel''
         then conclude tenantID a (answer_status res) decided ''approval.decided''
                [(''client_action'', JStr (er_Action res)), (''decision'', JStr StatusDenied)] f
         else conclude tenantID a (answer_status res) decided ''approval.expired''
                [(''action'', JStr (er_Action res)), (''reason'', JStr ''unknown_action'')] f)"

text \<open>The flow from the opening of a fresh pending row.\<close>

definition run_fresh ::
  "(string \<Rightarrow> nat list) \<Rightarrow> run_env \<Rightarrow> string \<Rightarrow> string \<Rightarrow> string \<Rightarrow> Decision \<Rightarrow> CallContext \<Rightarrow> appr_db \<Rightarrow> Flow
    \<Rightarrow> (appr_error, Outcome) result \<times> Flow"
where
  "run_fresh sha env tenantID sessionID userID dec call db f =
    (let (i, f1) = orGenerateID (cc_ApprovalID call) (re_idNow env) f;
         a = new_approval sha (re_now env) i tenantID sessionID userID dec call in
     case approval_Insert a db of
       Inl err \<Rightarrow> (Inl (StoreFailed err), f1)
     | Inr db' \<Rightarrow>
         let f2 = flow_emit ''approval.pending'' a [] (f1 \<lparr> fl_store := Some db' \<rparr>);
             hasElicit = (case fl_sessions f of None \<Rightarrow> False | Some has \<Rightarrow> has sessionID) in
         (case fl_sender f of
            None \<Rightarrow> (Inr \<lparr> oc_Approval = Some a, oc_Decision = ''fallback_required'' \<rparr>, f2)
          | Some elicit \<Rightarrow>
              if \<not> hasElicit then (Inr \<lparr> oc_Approval = Some a, oc_Decision = ''fallback_required'' \<rparr>, f2)
              else (case after_elicit tenantID a (re_decided env)
                           (elicit sessionID (buildElicitationParams a dec) (run_timeout dec)) (re_wait env f2) of
                      (out, f3) \<Rightarrow> (Inr out, f3))))"

definition Run ::
  "(string \<Rightarrow> nat list) \<Rightarrow> run_env \<Rightarrow> string \<Rightarrow> string \<Rightarrow> string \<Rightarrow> Decision \<Rightarrow> CallContext \<Rightarrow> Flow
    \<Rightarrow> (appr_error, Outcome) result \<times> Flow"
where
  "Run sha env tenantID sessionID userID dec call f =
    (case fl_store f of
       None \<Rightarrow> (Inl FlowNotConfigured, f)
     | Some db \<Rightarrow>
         (case (if cc_ApprovalID call \<noteq> '''' then replayDecision sha tenantID dec call db f else (None, f)) of
            (Some out, f') \<Rightarrow> (Inr out, f')
          | (None, f') \<Rightarrow> run_fresh sha env tenantID sessionID userID dec call db f'))"

definition ResolveManually ::
  "time \<Rightarrow> string \<Rightarrow> string \<Rightarrow> string \<Rightarrow> string \<Rightarrow> Flow \<Rightarrow> (appr_error, Approval) result \<times> Flow"
where
  "ResolveManually now tenantID i st actorUserID f =
    (if st \<noteq> StatusApproved \<and> st \<noteq> StatusDenied then (Inl (InvalidStatus st), f)
     else case fl_store f of
       None \<Rightarrow> (Inl NilStorePanic, f)
     | Some db \<Rightarrow>
         (case sql_UpdateStatus tenantID i st now db of
            Inl err \<Rightarrow> (Inl (StoreFailed err), f)
          | Inr db' \<Rightarrow>
              (case approval_Get db' tenantID i of
                 Inl err \<Rightarrow> (Inl (StoreFailed err), f \<lparr> fl_store := Some db' \<rparr>)
               | Inr a \<Rightarrow> (Inr a, flow_emit ''approval.decided'' a
                   [(''decision'', JStr st), (''decided_by'', JStr actorUserID), (''channel'', JStr ''manual'')]
                   (f \<lparr> fl_store := Some db' \<rparr>)))))"

definition Sweep :: "time \<Rightarrow> Flow \<Rightarrow> (appr_error, nat) result \<times> Flow" where
  "Sweep now f =
    (case fl_store f of
       None \<Rightarrow> (Inr 0, f)
     | Some db \<Rightarrow>
         (case sql_ExpireOlderThan now db of
            Inl err \<Rightarrow> (Inl (StoreFailed err), f)
          | Inr (n, db') \<Rightarrow> (Inr n, f \<lparr> fl_store := Some db' \<rparr>)))"

subsection \<open>The contract of the approval store\<close>

text \<open>What the flow relies on: an inserted row is read back (as the store keeps it), other ids are left
  alone by an insertion, an update succeeds exactly on a row that can be read and marks that row only.\<close>

locale approval_contract =
  fixes ins :: "'r \<Rightarrow> 's \<Rightarrow> ('e, 's) result"
    and upd :: "string \<Rightarrow> string \<Rightarrow> string \<Rightarrow> time \<Rightarrow> 's \<Rightarrow> ('e, 's) result"
    and look :: "'s \<Rightarrow> string \<Rightarrow> string \<Rightarrow> ('e, 'r) result"
    and save :: "'r \<Rightarrow> 'r"
    and mark :: "string \<Rightarrow> time \<Rightarrow> 'r \<Rightarrow> 'r"
    and tenant_of :: "'r \<Rightarrow> string"
    and id_of :: "'r \<Rightarrow> string"
  assumes ins_look: "ins r s = Inr s' \<Longrightarrow> look s' (tenant_of r) (id_of r) = Inr (save r)"
    and ins_frame: "ins r s = Inr s' \<Longrightarrow> i \<noteq> id_of r \<Longrightarrow> look s' t i = look s t i"
    and upd_ok: "look s t i = Inr r \<Longrightarrow> \<exists>s'. upd t i st at s = Inr s'"
    and upd_known: "upd t i st at s = Inr s' \<Longrightarrow> \<exists>r. look s t i = Inr r"
    and upd_look: "upd t i st at s = Inr s' \<Longrightarrow> look s t' i' = Inr r \<Longrightarrow>
      look s' t' i' = Inr (if t' = t \<and> i' = i then mark st at r else r)"
    and upd_miss: "upd t i st at s = Inr s' \<Longrightarrow> look s t' i' = Inl err \<Longrightarrow> look s' t' i' = Inl err"
begin

lemma insert_then_decide:
  assumes "ins r s = Inr s1"
  shows "\<exists>s2. upd (tenant_of r) (id_of r) st at s1 = Inr s2
    \<and> look s2 (tenant_of r) (id_of r) = Inr (mark st at (save r))"
proof -
  note here = ins_look [OF assms]
  obtain s2 where u: "upd (tenant_of r) (id_of r) st at s1 = Inr s2"
    using upd_ok [OF here] by blast
  with upd_look [OF u here] show ?thesis by simp
qed

lemma decide_row:
  assumes "look s t i = Inr r"
  shows "\<exists>s'. upd t i st at s = Inr s' \<and> look s' t i = Inr (mark st at r)"
  using upd_ok [OF assms, of st at] upd_look [OF _ assms, of t i st at] by auto

lemma last_decision_stands:
  assumes "upd t i st1 at1 s = Inr s1" and "upd t i st2 at2 s1 = Inr s2"
  shows "\<exists>r. look s t i = Inr r \<and> look s2 t i = Inr (mark st2 at2 (mark st1 at1 r))"
proof -
  obtain r where r: "look s t i = Inr r" using upd_known [OF assms(1)] by blast
  have "look s1 t i = Inr (mark st1 at1 r)" using upd_look [OF assms(1) r] by simp
  from upd_look [OF assms(2) this] r show ?thesis by simp
qed

end

lemma find_row_map:
  "(\<And>r. P (g r) = P r) \<Longrightarrow> List.find P (map g rs) = map_option g (List.find P rs)"
  by (induction rs) auto

lemma find_row_other:
  "List.find (row_at t i) (filter (\<lambda>r. ar_ID r \<noteq> i') rows) =
    (if i = i' then None else List.find (row_at t i) rows)"
  by (induction rows) (auto simp: row_at_def [abs_def])

lemma stored_sel [simp]:
  "ar_ID (stored r) = ar_ID r" "ar_TenantID (stored r) = ar_TenantID r" "ar_Status (stored r) = ar_Status r"
  "ar_Tool (stored r) = ar_Tool r" "ar_MetadataJSON (stored r) = ar_MetadataJSON r"
  by (simp_all add: stored_def)

lemma set_status_sel [simp]:
  "ar_ID (set_status st at r) = ar_ID r" "ar_TenantID (set_status st at r) = ar_TenantID r"
  "ar_Status (set_status st at r) = st" "ar_Tool (set_status st at r) = ar_Tool r"
  "ar_MetadataJSON (set_status st at r) = ar_MetadataJSON r"
  by (simp_all add: set_status_def)

lemma row_at_set_status [simp]: "row_at t i (set_status st at r) = row_at t i r"
  by (simp add: row_at_def)

lemma sql_Get_Inr:
  "sql_Get db t i = Inr r \<longleftrightarrow> \<not> ad_fault db \<and> List.find (row_at t i) (ad_rows db) = Some r"
  by (simp add: sql_Get_def split: option.splits)

lemma sql_Get_Inl:
  "sql_Get db t i = Inl e \<longleftrightarrow> ad_fault db \<and> e = ErrSQL
    \<or> \<not> ad_fault db \<and> List.find (row_at t i) (ad_rows db) = None \<and> e = ErrNotFound"
  by (auto simp: sql_Get_def split: option.splits)

lemma sql_UpdateStatus_Inr:
  "sql_UpdateStatus t i st at db = Inr db' \<longleftrightarrow>
    \<not> ad_fault db \<and> List.find (row_at t i) (ad_rows db) \<noteq> None
    \<and> db' = db \<lparr> ad_rows := map (\<lambda>r. if row_at t i r then set_status st at r else r) (ad_rows db) \<rparr>"
  by (auto simp: sql_UpdateStatus_def find_None_iff filter_empty_conv)

lemma sql_Insert_Inr:
  "sql_Insert a db = Inr db' \<longleftrightarrow>
    ar_TenantID a \<noteq> '''' \<and> ar_ID a \<noteq> '''' \<and> \<not> ad_fault db
    \<and> (ad_fk db \<longrightarrow> ar_TenantID a \<in> set (ad_tenants db))
    \<and> db' = db \<lparr> ad_rows := filter (\<lambda>r. ar_ID r \<noteq> ar_ID a) (ad_rows db) @ [stored a] \<rparr>"
  by (auto simp: sql_Insert_def)

lemma find_row_update:
  "List.find (row_at t' i') (map (\<lambda>r. if row_at t i r then set_status st at r else r) rows) =
    map_option (\<lambda>r. if row_at t i r then set_status st at r else r) (List.find (row_at t' i') rows)"
  by (rule find_row_map) simp

interpretation sqlite_approvals:
  approval_contract sql_Insert sql_UpdateStatus sql_Get stored set_status ar_TenantID ar_ID
proof unfold_locales
  fix r :: ApprovalRecord and s s' :: appr_db
  assume "sql_Insert r s = Inr s'"
  then show "sql_Get s' (ar_TenantID r) (ar_ID r) = Inr (stored r)"
    by (auto simp: sql_Insert_Inr sql_Get_Inr find_append find_row_other) (simp_all add: row_at_def)
next
  fix r :: ApprovalRecord and s s' :: appr_db and t i :: string
  assume "sql_Insert r s = Inr s'" and "i \<noteq> ar_ID r"
  then have "ad_fault s' = ad_fault s"
    and "List.find (row_at t i) (ad_rows s') = List.find (row_at t i) (ad_rows s)"
    by (auto simp: sql_Insert_Inr find_append find_row_other row_at_def split: option.splits)
  then show "sql_Get s' t i = sql_Get s t i" by (simp add: sql_Get_def)
next
  fix s :: appr_db and t i st :: string and at :: time and r :: ApprovalRecord
  assume "sql_Get s t i = Inr r"
  then show "\<exists>s'. sql_UpdateStatus t i st at s = Inr s'"
    by (simp add: sql_Get_Inr sql_UpdateStatus_Inr)
next
  fix s s' :: appr_db and t i st :: string and at :: time
  assume "sql_UpdateStatus t i st at s = Inr s'"
  then show "\<exists>r. sql_Get s t i = Inr r"
    by (auto simp: sql_Get_Inr sql_UpdateStatus_Inr)
next
  fix s s' :: appr_db and t i st t' i' :: string and at :: time and r :: ApprovalRecord
  assume "sql_UpdateStatus t i st at s = Inr s'" and r: "sql_Get s t' i' = Inr r"
  moreover have "row_at t i r \<longleftrightarrow> t' = t \<and> i' = i"
    using r by (auto simp: sql_Get_Inr row_at_def dest: find_Some_prop)
  ultimately show "sql_Get s' t' i' = Inr (if t' = t \<and> i' = i then set_status st at r else r)"
    by (simp add: sql_UpdateStatus_Inr sql_Get_Inr find_row_update)
next
  fix s s' :: appr_db and t i st t' i' :: string and at :: time and err :: store_error
  assume "sql_UpdateStatus t i st at s = Inr s'" and "sql_Get s t' i' = Inl err"
  then show "sql_Get s' t' i' = Inl err"
    by (auto simp: sql_UpdateStatus_Inr sql_Get_Inl find_row_update)
qed

subsection \<open>Facts about the flow\<close>

lemma flow_emit_sel [simp]:
  "fl_store (flow_emit ev a x f) = fl_store f" "fl_sender (flow_emit ev a x f) = fl_sender f"
  "fl_sessions (flow_emit ev a x f) = fl_sessions f"
  by (simp_all add: flow_emit_def)

lemma orGenerateID_sel [simp]:
  "fl_store (snd (orGenerateID s n f)) = fl_store f" "fl_sender (snd (orGenerateID s n f)) = fl_sender f"
  "fl_sessions (snd (orGenerateID s n f)) = fl_sessions f"
  by (simp_all add: orGenerateID_def Let_def)

lemma replayDecision_Some:
  assumes "replayDecision sha t dec call db f = (Some out, f')"
  obtains existing where "approval_Get db t (cc_ApprovalID call) = Inr existing"
    "replay_identity sha dec call existing" "oc_Approval out = Some existing" "oc_Decision out = apv_Status existing"
    "apv_Status existing \<in> {StatusApproved, StatusDenied, StatusExpired}" "fl_store f' = fl_store f"
  using assms by (auto simp: replayDecision_def split: sum.splits if_splits)

lemma replayDecision_None:
  "replayDecision sha t dec call db f = (None, f') \<Longrightarrow> f' = f"
  by (auto simp: replayDecision_def split: sum.splits if_splits)

lemma replayDecision_decided:
  assumes "approval_Get db t (cc_ApprovalID call) = Inr existing" and "replay_identity sha dec call existing"
    and "apv_Status existing \<in> {StatusApproved, StatusDenied, StatusExpired}"
  shows "\<exists>f'. replayDecision sha t dec call db f =
    (Some \<lparr> oc_Approval = Some existing, oc_Decision = apv_Status existing \<rparr>, f') \<and> fl_store f' = fl_store f"
  using assms by (auto simp: replayDecision_def status_defs)

lemma replay_identity_iff:
  "replay_identity sha dec call a \<longleftrightarrow>
    apv_Tool a = d_Tool dec
    \<and> aget (apv_Metadata a) ''args_hash'' = Some (JStr (argsHash sha (cc_Arguments call)))
    \<and> argsHash sha (cc_Arguments call) \<noteq> ''''
    \<and> aget (apv_Metadata a) ''skill_id'' = Some (JStr (cc_SkillID call))"
proof -
  have as: "as_string v = Some x \<longleftrightarrow> v = Some (JStr x)" for v x
    by (cases v rule: as_string.cases) auto
  show ?thesis
    by (auto simp: replay_identity_def as split: option.splits)
qed

lemma conclude_result [simp]:
  "oc_Decision (fst (conclude t a st at ev x f)) = st"
  by (simp add: conclude_def Let_def)

lemma answer_status_approved:
  "answer_status res = StatusApproved \<longleftrightarrow>
    er_Action res = ''accept'' \<and> extractApprovePayload (er_Content res) = Inr True"
  by (simp add: answer_status_def status_defs)

lemma after_elicit_decision:
  "oc_Decision (fst (after_elicit t a at answer f)) =
    (case answer of Inl err \<Rightarrow> StatusExpired | Inr res \<Rightarrow> answer_status res)"
  by (simp add: after_elicit_def answer_status_def split: sum.splits)

lemma answer_status_range: "answer_status res \<in> {StatusApproved, StatusDenied, StatusExpired}"
  by (simp add: answer_status_def)

text \<open>The two ways a fresh run ends: the client was asked, or the row is left to an operator.\<close>

lemma run_fresh_cases:
  assumes "run_fresh sha env t sess u dec call db f = (Inr out, f')"
  obtains
    (fallback) i f1 a db' where "orGenerateID (cc_ApprovalID call) (re_idNow env) f = (i, f1)"
      "a = new_approval sha (re_now env) i t sess u dec call" "approval_Insert a db = Inr db'"
      "oc_Approval out = Some a" "oc_FallbackRequired out" "fl_store f' = Some db'"
  | (asked) i elicit has a where
      "a = new_approval sha (re_now env) i t sess u dec call"
      "fl_sender f = Some elicit" "fl_sessions f = Some has" "has sess"
      "oc_Decision out = (case elicit sess (buildElicitationParams a dec) (run_timeout dec) of
         Inl err \<Rightarrow> StatusExpired | Inr res \<Rightarrow> answer_status res)"
proof -
  obtain i f1 where gen: "orGenerateID (cc_ApprovalID call) (re_idNow env) f = (i, f1)"
    by fastforce
  define a where "a = new_approval sha (re_now env) i t sess u dec call"
  note run = assms [unfolded run_fresh_def, simplified gen Let_def split_conv, folded a_def]
  then obtain db' where ins: "approval_Insert a db = Inr db'"
    by (auto split: sum.splits)
  show thesis
  proof (cases "(\<exists>elicit. fl_sender f = Some elicit) \<and> (\<exists>has. fl_sessions f = Some has \<and> has sess)")
    case True
    then obtain elicit has where e: "fl_sender f = Some elicit" "fl_sessions f = Some has" "has sess" by blast
    with run ins have "out = fst (after_elicit t a (re_decided env)
        (elicit sess (buildElicitationParams a dec) (run_timeout dec))
        (re_wait env (flow_emit ''approval.pending'' a [] (f1 \<lparr> fl_store := Some db' \<rparr>))))"
      by (auto split: prod.splits)
    then have "oc_Decision out = (case elicit sess (buildElicitationParams a dec) (run_timeout dec) of
         Inl err \<Rightarrow> StatusExpired | Inr res \<Rightarrow> answer_status res)"
      by (simp add: after_elicit_decision)
    with e show thesis by (rule asked [OF a_def])
  next
    case False
    with run ins have "oc_Approval out = Some a" "oc_FallbackRequired out" "fl_store f' = Some db'"
      by (auto simp: oc_FallbackRequired_def split: option.splits)
    then show thesis by (rule fallback [OF gen a_def ins])
  qed
qed

lemma Run_cases:
  assumes "Run sha env t sess u dec call f = (Inr out, f')"
  obtains
    (replayed) db existing where "fl_store f = Some db" "cc_ApprovalID call \<noteq> ''''"
      "approval_Get db t (cc_ApprovalID call) = Inr existing" "replay_identity sha dec call existing"
      "oc_Decision out = apv_Status existing" "apv_Status existing \<in> {StatusApproved, StatusDenied, StatusExpired}"
  | (fresh) db where "fl_store f = Some db" "run_fresh sha env t sess u dec call db f = (Inr out, f')"
proof -
  obtain db where db: "fl_store f = Some db"
    using assms by (auto simp: Run_def split: option.splits)
  show thesis
  proof (cases "run_fresh sha env t sess u dec call db f = (Inr out, f')")
    case True
    then show thesis by (rule fresh [OF db])
  next
    case False
    then have "cc_ApprovalID call \<noteq> ''''" "replayDecision sha t dec call db f = (Some out, f')"
      using assms db by (auto simp: Run_def split: prod.splits option.splits if_splits dest: replayDecision_None)
    then show thesis
      by (elim replayDecision_Some) (auto intro: replayed [OF db])
  qed
qed

lemma new_approval_record:
  "approvalToRecord (new_approval sha now i t sess u dec call) =
    \<lparr> ar_ID = i, ar_TenantID = t, ar_SessionID = sess, ar_UserID = u, ar_Tool = d_Tool dec,
      ar_ArgsSummary = summarizeArgs (cc_Arguments call), ar_RiskClass = cc_RiskClass call,
      ar_Status = StatusPending, ar_CreatedAt = now, ar_DecidedAt = None, ar_ExpiresAt = now + run_timeout dec,
      ar_MetadataJSON = Some (JObj [(''args_hash'', JStr (argsHash sha (cc_Arguments call))),
                                    (''skill_id'', JStr (cc_SkillID call))]) \<rparr>"
  by (simp add: approvalToRecord_def new_approval_def)

lemma resolved_row_identity:
  assumes "argsHash sha (cc_Arguments call) \<noteq> ''''" and "d_Tool dec' = d_Tool dec"
    and "cc_Arguments call' = cc_Arguments call" and "cc_SkillID call' = cc_SkillID call"
  shows "replay_identity sha dec' call'
    (recordToApproval (set_status st at (stored (approvalToRecord (new_approval sha now i t sess u dec call)))))"
  using assms
  by (simp add: replay_identity_iff recordToApproval_def new_approval_record unmarshal_map_def)

lemma ResolveManually_row:
  assumes "fl_store f = Some db" and "sql_Get db t i = Inr r" and "st \<in> {StatusApproved, StatusDenied}"
  obtains db' f' where "ResolveManually at t i st actor f = (Inr (recordToApproval (set_status st at r)), f')"
    "fl_store f' = Some db'" "sql_Get db' t i = Inr (set_status st at r)"
proof -
  obtain db' where "sql_UpdateStatus t i st at db = Inr db'" "sql_Get db' t i = Inr (set_status st at r)"
    using sqlite_approvals.decide_row [OF assms(2)] by blast
  then show thesis
    using assms(1,3) by (intro that) (auto simp: ResolveManually_def approval_Get_def status_defs)
qed

lemma Run_replays_decided:
  assumes "fl_store f = Some db" and "sql_Get db t (cc_ApprovalID call) = Inr r" and "cc_ApprovalID call \<noteq> ''''"
    and "replay_identity sha dec call (recordToApproval r)"
    and "ar_Status r \<in> {StatusApproved, StatusDenied, StatusExpired}"
  shows "\<exists>f'. Run sha env t sess u dec call f =
      (Inr \<lparr> oc_Approval = Some (recordToApproval r), oc_Decision = ar_Status r \<rparr>, f') \<and> fl_store f' = Some db"
proof -
  have st: "apv_Status (recordToApproval r) = ar_Status r" by (simp add: recordToApproval_def)
  obtain f' where "replayDecision sha t dec call db f =
      (Some \<lparr> oc_Approval = Some (recordToApproval r), oc_Decision = ar_Status r \<rparr>, f')" "fl_store f' = fl_store f"
    using replayDecision_decided [of db t call "recordToApproval r" sha dec f] assms(2,4,5)
    by (auto simp: approval_Get_def st)
  then show ?thesis using assms(1,3) by (simp add: Run_def)
qed

subsection \<open>Properties\<close>

text \<open>C2: soundness of a grant.  When the flow answers \<open>approved\<close>, either the caller named an approval of
  its own tenant that was approved before for the same tool, the same argument digest and the same
  skill, or the session's client was asked about this very call and accepted with \<open>approve: true\<close>.\<close>

theorem approval_grant_sound:
  assumes "Run sha env t sess u dec call f = (Inr out, f')" and "oc_Approved out"
  shows "(\<exists>db r. fl_store f = Some db \<and> sql_Get db t (cc_ApprovalID call) = Inr r
            \<and> ar_Status r = StatusApproved \<and> ar_Tool r = d_Tool dec
            \<and> aget (unmarshal_map (ar_MetadataJSON r)) ''args_hash'' = Some (JStr (argsHash sha (cc_Arguments call)))
            \<and> aget (unmarshal_map (ar_MetadataJSON r)) ''skill_id'' = Some (JStr (cc_SkillID call)))
       \<or> (\<exists>elicit has i res. fl_sender f = Some elicit \<and> fl_sessions f = Some has \<and> has sess
            \<and> elicit sess (buildElicitationParams (new_approval sha (re_now env) i t sess u dec call) dec)
                (run_timeout dec) = Inr res
            \<and> er_Action res = ''accept'' \<and> extractApprovePayload (er_Content res) = Inr True)"
  using assms(1)
proof (cases rule: Run_cases)
  case (replayed db existing)
  then show ?thesis
    using assms(2) by (auto simp: approval_Get_def oc_Approved_def replay_identity_iff recordToApproval_def)
next
  case (fresh db)
  from fresh(2) show ?thesis
  proof (cases rule: run_fresh_cases)
    case fallback
    then show ?thesis using assms(2) by (simp add: oc_Approved_def oc_FallbackRequired_def status_defs)
  next
    case (asked i elicit has a)
    then obtain res where res: "elicit sess (buildElicitationParams a dec) (run_timeout dec) = Inr res"
        "answer_status res = StatusApproved"
      using assms(2) by (auto simp: oc_Approved_def status_defs split: sum.splits)
    show ?thesis
      using asked(2-4) res(1) [unfolded asked(1)] res(2) [unfolded answer_status_approved] by blast
  qed
qed

definition sample_decision :: Decision where
  "sample_decision = zero_Decision \<lparr> d_Allow := True, d_Tool := ''github.merge'', d_ServerID := ''github'',
     d_SkillID := ''ns.skill'', d_RiskClass := RiskDestructive, d_RequiresApproval := True \<rparr>"

definition sample_call :: "string \<Rightarrow> CallContext" where
  "sample_call i = \<lparr> cc_Tool = ''github.merge'', cc_Arguments = ''{}'', cc_SkillID = ''ns.skill'',
     cc_RiskClass = RiskDestructive, cc_ApprovalID = i \<rparr>"

definition sample_env :: run_env where
  "sample_env = \<lparr> re_now = 10 * second, re_idNow = 10 * second, re_decided = 20 * second, re_wait = (\<lambda>f. f) \<rparr>"

definition sample_sha :: "string \<Rightarrow> nat list" where
  "sample_sha x = 7 # map of_char x"

definition sample_flow :: "(string \<Rightarrow> ElicitationCreateParams \<Rightarrow> duration \<Rightarrow> (string, ElicitationCreateResult) result) option \<Rightarrow> Flow"
where
  "sample_flow sender = \<lparr> fl_store = Some \<lparr> ad_fault = False, ad_fk = True, ad_tenants = [''acme''], ad_rows = [] \<rparr>,
     fl_sender = sender, fl_sessions = Some (\<lambda>s. True), fl_idC = 0, fl_audit = [] \<rparr>"

definition accepting :: "string \<Rightarrow> ElicitationCreateParams \<Rightarrow> duration \<Rightarrow> (string, ElicitationCreateResult) result" where
  "accepting s p d = Inr \<lparr> er_Action = ''accept'', er_Content = Some (JObj [(''approve'', JBool True)]) \<rparr>"

theorem approval_grant_sound_witness:
  "\<exists>out f'. Run sample_sha sample_env ''acme'' ''s1'' ''u1'' sample_decision (sample_call ''a1'') (sample_flow (Some accepting))
      = (Inr out, f') \<and> oc_Approved out
    \<and> extractApprovePayload (Some (JObj [(''approve'', JBool True)])) = Inr True"
proof -
  have ok: "oc_Approved (projr (fst (Run sample_sha sample_env ''acme'' ''s1'' ''u1'' sample_decision (sample_call ''a1'')
      (sample_flow (Some accepting)))))"
    and run: "isl (fst (Run sample_sha sample_env ''acme'' ''s1'' ''u1'' sample_decision (sample_call ''a1'')
      (sample_flow (Some accepting)))) = False"
    by code_simp+
  then obtain out f' where r: "Run sample_sha sample_env ''acme'' ''s1'' ''u1'' sample_decision (sample_call ''a1'')
      (sample_flow (Some accepting)) = (Inr out, f')"
    by (metis isl_def prod.collapse sum.exhaust_sel)
  with ok have ok': "oc_Approved out" by simp
  have "sql_Get \<lparr> ad_fault = False, ad_fk = True, ad_tenants = [''acme''], ad_rows = [] \<rparr> ''acme'' x = Inl ErrNotFound" for x
    by (simp add: sql_Get_def)
  with approval_grant_sound [OF r ok'] have "extractApprovePayload (Some (JObj [(''approve'', JBool True)])) = Inr True"
    by (auto simp: sample_flow_def accepting_def)
  with r ok' show ?thesis by blast
qed

text \<open>C20: the out-of-band path end to end.  A run that asks for the fallback leaves a pending row under
  the id it reports; when an operator of the tenant then approves or denies that id, a resumed call
  with the same tool, arguments and skill gets exactly the operator's decision, without another
  prompt and without touching the table.  Neither the time of the decision nor the time of the resumed
  call is bounded: the replay window the documentation speaks of is not in the code.\<close>

theorem approval_fallback_round_trip:
  assumes "Run sha env t sess u dec call f = (Inr out, f1)" and "oc_FallbackRequired out"
    and "sha (cc_Arguments call) \<noteq> []" and "st \<in> {StatusApproved, StatusDenied}"
    and "d_Tool dec' = d_Tool dec" and "cc_Arguments call' = cc_Arguments call"
    and "cc_SkillID call' = cc_SkillID call"
  shows "\<exists>a db1 r. oc_Approval out = Some a \<and> fl_store f1 = Some db1
      \<and> sql_Get db1 t (apv_ID a) = Inr r \<and> ar_Status r = StatusPending
      \<and> ar_ExpiresAt r = to_ms (re_now env + run_timeout dec)
      \<and> (\<exists>a2 f2. ResolveManually at t (apv_ID a) st actor f1 = (Inr a2, f2)
          \<and> (\<exists>out' f3. Run sha env' t sess' u' dec' (call' \<lparr> cc_ApprovalID := apv_ID a \<rparr>) f2 = (Inr out', f3)
               \<and> oc_Decision out' = st \<and> fl_store f3 = fl_store f2))"
proof -
  obtain db where db: "fl_store f = Some db" and fresh: "run_fresh sha env t sess u dec call db f = (Inr out, f1)"
    using assms(1)
    by (cases rule: Run_cases) (use assms(2) in \<open>auto simp: oc_FallbackRequired_def status_defs\<close>)
  from fresh obtain i a db1 where a: "a = new_approval sha (re_now env) i t sess u dec call"
    and ins: "approval_Insert a db = Inr db1" and out: "oc_Approval out = Some a" "fl_store f1 = Some db1"
  proof (cases rule: run_fresh_cases)
    case (asked i elicit has a)
    then have "oc_Decision out \<in> {StatusApproved, StatusDenied, StatusExpired}"
      using answer_status_range by (auto split: sum.splits)
    then show thesis using assms(2) by (simp add: oc_FallbackRequired_def status_defs)
  qed (rule that)
  define r where "r = stored (approvalToRecord a)"
  have key: "ar_TenantID (approvalToRecord a) = t" "ar_ID (approvalToRecord a) = i" "apv_ID a = i"
    by (simp_all add: a new_approval_record) (simp add: new_approval_def)
  note ins' = ins [unfolded approval_Insert_def]
  have r: "sql_Get db1 t i = Inr r"
    using sqlite_approvals.ins_look [OF ins'] by (simp add: key r_def)
  have "i \<noteq> ''''" using ins' by (simp add: sql_Insert_Inr key)
  obtain db2 f2 where f2: "ResolveManually at t i st actor f1 = (Inr (recordToApproval (set_status st at r)), f2)"
    "fl_store f2 = Some db2" "sql_Get db2 t i = Inr (set_status st at r)"
    using ResolveManually_row [OF out(2) r assms(4)] by blast
  have "replay_identity sha dec' (call' \<lparr> cc_ApprovalID := i \<rparr>) (recordToApproval (set_status st at r))"
    unfolding r_def a using assms(3,5-7)
    by (intro resolved_row_identity) (simp_all add: argsHash_def)
  then obtain f3 where "Run sha env' t sess' u' dec' (call' \<lparr> cc_ApprovalID := i \<rparr>) f2 =
      (Inr \<lparr> oc_Approval = Some (recordToApproval (set_status st at r)), oc_Decision = st \<rparr>, f3)"
      "fl_store f3 = Some db2"
    using Run_replays_decided [OF f2(2), of t "call' \<lparr> cc_ApprovalID := i \<rparr>" "set_status st at r" sha dec' env' sess' u']
      f2(3) \<open>i \<noteq> ''''\<close> assms(4) by auto
  moreover have "ar_Status r = StatusPending" "ar_ExpiresAt r = to_ms (re_now env + run_timeout dec)"
    by (simp_all add: r_def a new_approval_record stored_def)
  ultimately show ?thesis
    using out r f2(1,2) by (intro exI [of _ a] exI [of _ db1] exI [of _ r]) (auto simp: key)
qed

theorem approval_fallback_round_trip_witness:
  "\<exists>out f1 a a2 f2 out' f3.
     Run sample_sha sample_env ''acme'' ''s1'' ''u1'' sample_decision (sample_call ''a1'') (sample_flow None) = (Inr out, f1)
     \<and> oc_Approval out = Some a
     \<and> ResolveManually 0 ''acme'' (apv_ID a) StatusApproved ''ops'' f1 = (Inr a2, f2)
     \<and> Run sample_sha sample_env ''acme'' ''s2'' ''u1'' sample_decision (sample_call ''a1'' \<lparr> cc_ApprovalID := apv_ID a \<rparr>) f2
         = (Inr out', f3)
     \<and> oc_Decision out' = StatusApproved"
proof -
  have ok: "oc_FallbackRequired (projr (fst (Run sample_sha sample_env ''acme'' ''s1'' ''u1'' sample_decision
      (sample_call ''a1'') (sample_flow None))))"
    and run: "isl (fst (Run sample_sha sample_env ''acme'' ''s1'' ''u1'' sample_decision (sample_call ''a1'')
      (sample_flow None))) = False"
    by code_simp+
  then obtain out f1 where r: "Run sample_sha sample_env ''acme'' ''s1'' ''u1'' sample_decision (sample_call ''a1'')
      (sample_flow None) = (Inr out, f1)"
    by (metis isl_def prod.collapse sum.exhaust_sel)
  with ok have "oc_FallbackRequired out" by simp
  moreover have "sample_sha (cc_Arguments (sample_call ''a1'')) \<noteq> []" by (simp add: sample_sha_def)
  ultimately obtain a a2 f2 out' f3 where "oc_Approval out = Some a"
    "ResolveManually 0 ''acme'' (apv_ID a) StatusApproved ''ops'' f1 = (Inr a2, f2)"
    "Run sample_sha sample_env ''acme'' ''s2'' ''u1'' sample_decision (sample_call ''a1'' \<lparr> cc_ApprovalID := apv_ID a \<rparr>) f2
       = (Inr out', f3)" "oc_Decision out' = StatusApproved"
    using approval_fallback_round_trip [OF r, of StatusApproved sample_decision "sample_call ''a1''" 0 "''ops''" sample_env "''s2''" "''u1''"]
    by blast
  with r show ?thesis by blast
qed

lemma find_row_expire:
  "List.find (row_at t i) (map (\<lambda>r. if overdue c r then set_status st at r else r) rows) =
    map_option (\<lambda>r. if overdue c r then set_status st at r else r) (List.find (row_at t i) rows)"
  by (rule find_row_map) simp

lemma set_status_expired_not_overdue: "\<not> overdue c (set_status StatusExpired at r)"
  by (simp add: overdue_def status_defs)

text \<open>The sweep.  Sweeping at an instant succeeds unless the database fails, reports the number of
  rows it expired, leaves no pending approval whose expiry lies before that instant, and changes
  nothing but the overdue pending rows: decided approvals and pending ones still in time read as before.\<close>

theorem sweep_expires_exactly_overdue:
  assumes "fl_store f = Some db" and "\<not> ad_fault db"
  shows "\<exists>n db'. Sweep now f = (Inr n, f \<lparr> fl_store := Some db' \<rparr>)
    \<and> n = length (filter (overdue now) (ad_rows db))
    \<and> filter (overdue now) (ad_rows db') = []
    \<and> (\<forall>t i. sql_Get db' t i = (case sql_Get db t i of Inl e \<Rightarrow> Inl e
          | Inr r \<Rightarrow> Inr (if ar_Status r = StatusPending \<and> ar_ExpiresAt r < to_ms now
                         then set_status StatusExpired now r else r)))"
proof -
  define db' where "db' = db \<lparr> ad_rows := map (\<lambda>r. if overdue now r then set_status StatusExpired now r else r)
    (ad_rows db) \<rparr>"
  have "Sweep now f = (Inr (length (filter (overdue now) (ad_rows db))), f \<lparr> fl_store := Some db' \<rparr>)"
    using assms by (simp add: Sweep_def sql_ExpireOlderThan_def db'_def)
  moreover have "filter (overdue now) (ad_rows db') = []"
    by (auto simp: db'_def filter_empty_conv set_status_expired_not_overdue)
  moreover have "sql_Get db' t i = (case sql_Get db t i of Inl e \<Rightarrow> Inl e
      | Inr r \<Rightarrow> Inr (if ar_Status r = StatusPending \<and> ar_ExpiresAt r < to_ms now
                     then set_status StatusExpired now r else r))" for t i
    using assms(2) by (simp add: db'_def sql_Get_def find_row_expire flip: overdue_def split: option.splits)
  ultimately show ?thesis by blast
qed

definition sample_row :: "string \<Rightarrow> time \<Rightarrow> ApprovalRecord" where
  "sample_row st expires =
    \<lparr> ar_ID = ''a1'', ar_TenantID = ''acme'', ar_SessionID = ''s1'', ar_UserID = ''u1'', ar_Tool = ''github.merge'',
      ar_ArgsSummary = ''{}'', ar_RiskClass = RiskDestructive, ar_Status = st, ar_CreatedAt = 0, ar_DecidedAt = None,
      ar_ExpiresAt = expires, ar_MetadataJSON = None \<rparr>"

definition sample_db :: "ApprovalRecord list \<Rightarrow> appr_db" where
  "sample_db rows = \<lparr> ad_fault = False, ad_fk = True, ad_tenants = [''acme'', ''evil''], ad_rows = rows \<rparr>"

theorem sweep_expires_exactly_overdue_witness:
  "\<exists>n db'. Sweep (10 * second) (sample_flow None \<lparr> fl_store := Some (sample_db [sample_row StatusPending (5 * second)]) \<rparr>)
      = (Inr n, sample_flow None \<lparr> fl_store := Some db' \<rparr>) \<and> n = 1
    \<and> sql_Get db' ''acme'' ''a1'' = Inr (set_status StatusExpired (10 * second) (sample_row StatusPending (5 * second)))"
proof -
  have get: "sql_Get (sample_db [sample_row StatusPending (5 * second)]) ''acme'' ''a1'' =
      Inr (sample_row StatusPending (5 * second))"
    by (simp add: sql_Get_def sample_db_def sample_row_def row_at_def)
  have due: "overdue (10 * second) (sample_row StatusPending (5 * second))"
    by (simp add: overdue_def sample_row_def second_def to_ms_def millisecond_def)
  have nf: "\<not> ad_fault (sample_db [sample_row StatusPending (5 * second)])" by (simp add: sample_db_def)
  show ?thesis
    using sweep_expires_exactly_overdue
      [of "sample_flow None \<lparr> fl_store := Some (sample_db [sample_row StatusPending (5 * second)]) \<rparr>", OF _ nf, of "10 * second"]
      get due by (auto simp: sample_db_def overdue_def)
qed

text \<open>A decision is not final.  \<open>ResolveManually\<close> is meant for pending approvals, but the update has
  no guard on the current status: an approval in any state, denied and expired ones included, is
  turned into an approved one, which the replay window then honours.\<close>

theorem resolve_overrides_any_status:
  assumes "fl_store f = Some db" and "sql_Get db t i = Inr r"
  shows "\<exists>a f'. ResolveManually at t i StatusApproved actor f = (Inr a, f') \<and> apv_Status a = StatusApproved
    \<and> apv_Tool a = ar_Tool r"
proof -
  obtain f' where "ResolveManually at t i StatusApproved actor f = (Inr (recordToApproval (set_status StatusApproved at r)), f')"
    using ResolveManually_row [OF assms, of StatusApproved at actor] by blast
  then show ?thesis by (simp add: recordToApproval_def)
qed

theorem resolve_overrides_any_status_witness:
  "\<exists>a f'. ResolveManually 0 ''acme'' ''a1'' StatusApproved ''ops''
      (sample_flow None \<lparr> fl_store := Some (sample_db [sample_row StatusDenied 0]) \<rparr>) = (Inr a, f')
    \<and> apv_Status a = StatusApproved"
  using resolve_overrides_any_status [of "sample_flow None \<lparr> fl_store := Some (sample_db [sample_row StatusDenied 0]) \<rparr>"
      "sample_db [sample_row StatusDenied 0]" "''acme''" "''a1''" "sample_row StatusDenied 0" 0 "''ops''"]
  by (auto simp: sql_Get_def sample_db_def sample_row_def row_at_def)

text \<open>Ids are shared by all tenants.  The store promises insertions idempotent per tenant and id,
  but the key of the table is the id alone: inserting an approval whose id another tenant uses
  deletes that tenant's row.\<close>

theorem insert_replaces_foreign_row:
  assumes "sql_Get db t i = Inr r" and "ar_ID a = i" and "ar_TenantID a \<noteq> t" and "sql_Insert a db = Inr db'"
  shows "sql_Get db' t i = Inl ErrNotFound"
  using assms by (auto simp: sql_Insert_Inr sql_Get_Inl find_append find_row_other row_at_def sql_Get_Inr)

theorem insert_replaces_foreign_row_witness:
  "\<exists>db'. sql_Insert (sample_row StatusPending 0 \<lparr> ar_TenantID := ''evil'' \<rparr>) (sample_db [sample_row StatusApproved 0]) = Inr db'
    \<and> sql_Get db' ''acme'' ''a1'' = Inl ErrNotFound"
proof -
  have g: "sql_Get (sample_db [sample_row StatusApproved 0]) ''acme'' ''a1'' = Inr (sample_row StatusApproved 0)"
    by (simp add: sql_Get_def sample_db_def sample_row_def row_at_def)
  obtain db' where "sql_Insert (sample_row StatusPending 0 \<lparr> ar_TenantID := ''evil'' \<rparr>)
      (sample_db [sample_row StatusApproved 0]) = Inr db'"
    by (simp add: sql_Insert_def sample_db_def sample_row_def)
  then show ?thesis
    using insert_replaces_foreign_row [OF g, of "sample_row StatusPending 0 \<lparr> ar_TenantID := ''evil'' \<rparr>" db']
    by (auto simp: sample_row_def)
qed

end
