(* ===== verification/Egress.thy ===== *)
theory Egress
  imports Prelude
begin

text \<open>
  The contract every outbound path of the gateway has to meet: one step appends
  at most one call to the trace of outbound calls, and only a call the gates
  permit in the state the step starts from.  The lemmas lift it to histories.
\<close>

locale governed_egress =
  fixes step :: "'op \<Rightarrow> 's \<Rightarrow> 's"
    and trace :: "'s \<Rightarrow> 'call list"
    and permitted :: "'op \<Rightarrow> 's \<Rightarrow> 'call \<Rightarrow> bool"
  assumes step_trace:
    "trace (step x s) = trace s \<or> (\<exists>c. trace (step x s) = trace s @ [c] \<and> permitted x s c)"
begin

definition steps :: "'op list \<Rightarrow> 's \<Rightarrow> 's" where
  "steps = fold step"

lemma steps_simps [simp]: "steps [] s = s" "steps (x # xs) s = steps xs (step x s)"
  by (simp_all add: steps_def)

lemma steps_append [simp]: "steps (xs @ ys) s = steps ys (steps xs s)"
  by (simp add: steps_def)

lemma trace_extends: "\<exists>new. trace (steps xs s) = trace s @ new \<and> length new \<le> length xs"
proof (induction xs arbitrary: s)
  case (Cons x xs)
  obtain new where new: "trace (steps xs (step x s)) = trace (step x s) @ new" "length new \<le> length xs"
    using Cons.IH by blast
  from step_trace [of x s] show ?case
  proof
    assume "trace (step x s) = trace s"
    with new show ?thesis by (intro exI [of _ new]) simp
  next
    assume "\<exists>c. trace (step x s) = trace s @ [c] \<and> permitted x s c"
    then obtain c where "trace (step x s) = trace s @ [c]" by blast
    with new show ?thesis by (intro exI [of _ "c # new"]) simp
  qed
qed simp

lemma call_permitted:
  "c \<in> set (trace (steps xs s)) \<Longrightarrow>
    c \<in> set (trace s) \<or> (\<exists>pre x post. xs = pre @ x # post \<and> permitted x (steps pre s) c)"
proof (induction xs rule: rev_induct)
  case (snoc x xs)
  have here: "xs @ [x] = xs @ x # []" by simp
  show ?case
  proof (cases "c \<in> set (trace (steps xs s))")
    case True
    then show ?thesis using snoc.IH by (metis append.assoc append_Cons)
  next
    case False
    then have "permitted x (steps xs s) c"
      using step_trace [of x "steps xs s"] snoc.prems by auto
    then show ?thesis using here by blast
  qed
qed simp

end

end
