(* ===== verification/A2A_Dispatch.thy ===== *)
theory A2A_Dispatch
  imports Profiles Audit_Events Sql_Tables Egress
begin

text \<open>
  Outbound Agent-to-Agent calls: the table of registered peers
  (\<open>internal/storage/sqlite/a2a_peer_store.go\<close>), the pool that caches one client
  per tenant and peer (\<open>internal/a2a/southbound/manager/pool.go\<close>) and the governed
  dispatch path (\<open>internal/a2a/dispatch/dispatch.go\<close>).  A southbound client is a
  value of type \<open>'c\<close>; the factory that builds it and its wire calls are
  arguments.  \<open>aa_sent\<close> records every request handed to a client.
\<close>

subsection \<open>The peer table\<close>

record A2APeer =
  pe_TenantID :: string
  pe_ID :: string
  pe_Name :: string
  pe_Endpoint :: string
  pe_EgressAuthRef :: string
  pe_AgentCardJSON :: string
  pe_Enabled :: bool
  pe_CreatedAt :: string
  pe_UpdatedAt :: string

record peer_db =
  pd_fault :: bool
  pd_peers :: "A2APeer list"

definition peer_at :: "string \<Rightarrow> string \<Rightarrow> A2APeer \<Rightarrow> bool" where
  "peer_at t i p = (pe_TenantID p = t \<and> pe_ID p = i)"

definition PutPeer :: "string \<Rightarrow> A2APeer \<Rightarrow> peer_db \<Rightarrow> (store_error, peer_db) result" where
  "PutPeer now p db =
    (if pe_TenantID p = '''' \<or> pe_ID p = '''' \<or> pe_Name p = '''' \<or> pe_Endpoint p = '''' then Inl ErrArgs
     else if pd_fault db then Inl ErrSQL
     else
       let same = peer_at (pe_TenantID p) (pe_ID p);
           createdAt = (case List.find same (pd_peers db) of None \<Rightarrow> now
                        | Some q \<Rightarrow> if pe_CreatedAt q = '''' then now else pe_CreatedAt q);
           new = p \<lparr> pe_CreatedAt := createdAt, pe_UpdatedAt := now \<rparr> in
       if (\<exists>q \<in> set (pd_peers db). pe_TenantID q = pe_TenantID p \<and> pe_Name q = pe_Name p \<and> pe_ID q \<noteq> pe_ID p)
       then Inl ErrSQL
       else if List.find same (pd_peers db) = None
       then Inr (db \<lparr> pd_peers := pd_peers db @ [new] \<rparr>)
       else Inr (db \<lparr> pd_peers := map (\<lambda>q. if same q then new \<lparr> pe_CreatedAt := pe_CreatedAt q \<rparr> else q)
                   (pd_peers db) \<rparr>))"

definition GetPeer :: "peer_db \<Rightarrow> string \<Rightarrow> string \<Rightarrow> (store_error, A2APeer) result" where
  "GetPeer db tenantID i =
    (if tenantID = '''' \<or> i = '''' then Inl ErrArgs
     else if pd_fault db then Inl ErrSQL
     else case List.find (peer_at tenantID i) (pd_peers db) of None \<Rightarrow> Inl ErrNotFound | Some p \<Rightarrow> Inr p)"

definition ListPeers :: "peer_db \<Rightarrow> string \<Rightarrow> (store_error, A2APeer list) result" where
  "ListPeers db tenantID =
    (if tenantID = '''' then Inl ErrArgs
     else if pd_fault db then Inl ErrSQL
     else Inr (sort_key pe_Name (filter (\<lambda>p. pe_TenantID p = tenantID) (pd_peers db))))"

definition DeletePeer :: "string \<Rightarrow> string \<Rightarrow> peer_db \<Rightarrow> (store_error, peer_db) result" where
  "DeletePeer tenantID i db =
    (if tenantID = '''' \<or> i = '''' then Inl ErrArgs
     else if pd_fault db then Inl ErrSQL
     else if List.find (peer_at tenantID i) (pd_peers db) = None then Inl ErrNotFound
     else Inr (db \<lparr> pd_peers := filter (\<lambda>p. \<not> peer_at tenantID i p) (pd_peers db) \<rparr>))"

subsection \<open>The client pool\<close>

record a2a_error =
  ae_Code :: int
  ae_Message :: string
  ae_Data :: "json option"

datatype sb_error = PeerStore store_error | PeerDisabled | PeerRPC a2a_error | SbOther string

definition pool_key :: "string \<Rightarrow> string \<Rightarrow> string" where
  "pool_key tenantID peerID = tenantID @ [CHR 0x00] @ peerID"

definition pool_Acquire ::
  "(A2APeer \<Rightarrow> (string, 'c) result) \<Rightarrow> peer_db \<Rightarrow> string \<Rightarrow> string \<Rightarrow> (string, 'c) amap
    \<Rightarrow> (sb_error, 'c) result \<times> (string, 'c) amap"
where
  "pool_Acquire factory db tenantID peerID clients =
    (if tenantID = '''' \<or> peerID = '''' then (Inl (SbOther ''manager: acquire requires tenant_id and peer_id''), clients)
     else case GetPeer db tenantID peerID of
       Inl err \<Rightarrow> (Inl (PeerStore err), clients)
     | Inr peer \<Rightarrow>
         if \<not> pe_Enabled peer then (Inl PeerDisabled, clients)
         else (case aget clients (pool_key tenantID peerID) of
                 Some c \<Rightarrow> (Inr c, clients)
               | None \<Rightarrow>
                   (case factory peer of
                      Inl err \<Rightarrow> (Inl (SbOther err), clients)
                    | Inr c \<Rightarrow> (Inr c, aput (pool_key tenantID peerID) c clients))))"

definition pool_Invalidate :: "string \<Rightarrow> string \<Rightarrow> (string, 'c) amap \<Rightarrow> (string, 'c) amap" where
  "pool_Invalidate tenantID peerID clients = adel (pool_key tenantID peerID) clients"

text \<open>The first close error is reported, every client is closed.\<close>

definition pool_CloseAll :: "('c \<Rightarrow> string option) \<Rightarrow> (string, 'c) amap \<Rightarrow> string option \<times> (string, 'c) amap" where
  "pool_CloseAll closec clients =
    (fold (\<lambda>(k, c) first. case first of Some e \<Rightarrow> Some e | None \<Rightarrow> closec c) clients None, [])"

subsection \<open>Governed dispatch\<close>

definition NewA2AError :: "int \<Rightarrow> string \<Rightarrow> a2a_error" where
  "NewA2AError code msg = \<lparr> ae_Code = code, ae_Message = msg, ae_Data = None \<rparr>"

datatype a2a_request = MessageSend json | TasksGet string | TasksCancel string

fun method_name :: "a2a_request \<Rightarrow> string" where
  "method_name (MessageSend p) = ''message/send''"
| "method_name (TasksGet i) = ''tasks/get''"
| "method_name (TasksCancel i) = ''tasks/cancel''"

fun request_task :: "a2a_request \<Rightarrow> string" where
  "request_task (MessageSend p) = ''''"
| "request_task (TasksGet i) = i"
| "request_task (TasksCancel i) = i"

record 'c a2a_wire =
  aw_factory :: "A2APeer \<Rightarrow> (string, 'c) result"
  aw_call :: "'c \<Rightarrow> a2a_request \<Rightarrow> (sb_error, json) result"
  aw_emits :: bool
  aw_errtext :: "store_error \<Rightarrow> string"

record 'c a2a_state =
  aa_db :: peer_db
  aa_clients :: "(string, 'c) amap"
  aa_audit :: "Event list"
  aa_sent :: "('c \<times> string \<times> string \<times> a2a_request) list"

definition a2a_emit :: "bool \<Rightarrow> string \<Rightarrow> string \<Rightarrow> (string, json) amap \<Rightarrow> 'c a2a_state \<Rightarrow> 'c a2a_state" where
  "a2a_emit on evType tenantID payload st =
    (if \<not> on then st
     else st \<lparr> aa_audit := aa_audit st @ [\<lparr> ev_Type = evType, ev_TenantID = tenantID, ev_SessionID = '''',
                                          ev_UserID = '''', ev_Payload = payload \<rparr>] \<rparr>)"

definition auditDispatch :: "bool \<Rightarrow> string \<Rightarrow> A2APeer \<Rightarrow> a2a_request \<Rightarrow> 'c a2a_state \<Rightarrow> 'c a2a_state" where
  "auditDispatch on tenantID peer rq st =
    a2a_emit on EventA2ADispatch tenantID
      ([(''peer_id'', JStr (pe_ID peer)), (''peer'', JStr (pe_Name peer)), (''method'', JStr (method_name rq))]
       @ (if request_task rq \<noteq> '''' then [(''task_id'', JStr (request_task rq))] else [])) st"

definition violation_payload :: "string \<Rightarrow> string \<Rightarrow> (string, json) amap" where
  "violation_payload profileID peerName =
    [(''profile_id'', JStr profileID), (''peer'', JStr peerName), (''reason'', JStr ''peer_outside_profile'')]"

text \<open>\<open>errtext\<close> is the text of a database error.\<close>

definition mapErr :: "(store_error \<Rightarrow> string) \<Rightarrow> sb_error \<Rightarrow> a2a_error" where
  "mapErr errtext err =
    (case err of
       PeerRPC pe \<Rightarrow> pe
     | PeerDisabled \<Rightarrow> NewA2AError (- 32004) ''a2a peer is disabled''
     | PeerStore ErrNotFound \<Rightarrow> NewA2AError (- 32602) ''unknown a2a peer''
     | PeerStore e \<Rightarrow> NewA2AError (- 32603) (errtext e)
     | SbOther msg \<Rightarrow> NewA2AError (- 32603) msg)"

definition resolveAndEnforce ::
  "bool \<Rightarrow> Profile option \<Rightarrow> string \<Rightarrow> string \<Rightarrow> 'c a2a_state \<Rightarrow> (a2a_error, A2APeer) result \<times> 'c a2a_state"
where
  "resolveAndEnforce on prof tenantID peerID st =
    (case GetPeer (aa_db st) tenantID peerID of
       Inl err \<Rightarrow>
         if err = ErrNotFound then (Inl (NewA2AError (- 32602) ''unknown a2a peer''), st)
         else (Inl (NewA2AError (- 32603) ''a2a peer lookup failed''), st)
     | Inr peer \<Rightarrow>
         (case prof of
            None \<Rightarrow> (Inr peer, st)
          | Some p \<Rightarrow>
              if \<not> p_IsDefault p \<and> \<not> AllowsA2APeer prof (pe_Name peer)
              then (Inl \<lparr> ae_Code = - 32010, ae_Message = ''agent profile violation'',
                          ae_Data = Some (JObj (violation_payload (p_ID p) (pe_Name peer))) \<rparr>,
                    a2a_emit on EventAgentProfileViolation tenantID (violation_payload (p_ID p) (pe_Name peer)) st)
              else (Inr peer, st)))"

text \<open>\<open>SendMessage\<close>, \<open>GetTask\<close> and \<open>CancelTask\<close> differ in the client method they call.\<close>

definition a2a_dispatch ::
  "'c a2a_wire \<Rightarrow> Profile option \<Rightarrow> string \<Rightarrow> string \<Rightarrow> a2a_request \<Rightarrow> 'c a2a_state
    \<Rightarrow> (a2a_error, json) result \<times> 'c a2a_state"
where
  "a2a_dispatch w prof tenantID peerID rq st =
    (case resolveAndEnforce (aw_emits w) prof tenantID peerID st of
       (Inl aerr, st1) \<Rightarrow> (Inl aerr, st1)
     | (Inr peer, st1) \<Rightarrow>
         (case pool_Acquire (aw_factory w) (aa_db st1) tenantID peerID (aa_clients st1) of
            (Inl err, cs) \<Rightarrow> (Inl (mapErr (aw_errtext w) err), st1 \<lparr> aa_clients := cs \<rparr>)
          | (Inr c, cs) \<Rightarrow>
              let st2 = st1 \<lparr> aa_clients := cs, aa_sent := aa_sent st1 @ [(c, tenantID, peerID, rq)] \<rparr> in
              (case aw_call w c rq of
                 Inl err \<Rightarrow> (Inl (mapErr (aw_errtext w) err), st2)
               | Inr res \<Rightarrow> (Inr res, auditDispatch (aw_emits w) tenantID peer rq st2))))"

definition SendMessage where
  "SendMessage w prof tenantID peerID params st = a2a_dispatch w prof tenantID peerID (MessageSend params) st"

definition GetTask where
  "GetTask w prof tenantID peerID task st = a2a_dispatch w prof tenantID peerID (TasksGet task) st"

definition CancelTask where
  "CancelTask w prof tenantID peerID task st = a2a_dispatch w prof tenantID peerID (TasksCancel task) st"

definition SendMessageByPeerName ::
  "'c a2a_wire \<Rightarrow> Profile option \<Rightarrow> string \<Rightarrow> string \<Rightarrow> json \<Rightarrow> 'c a2a_state
    \<Rightarrow> (a2a_error, json) result \<times> 'c a2a_state"
where
  "SendMessageByPeerName w prof tenantID peerName params st =
    (case ListPeers (aa_db st) tenantID of
       Inl err \<Rightarrow> (Inl (NewA2AError (- 32603) ''a2a peer lookup failed''), st)
     | Inr peers \<Rightarrow>
         (case List.find (\<lambda>p. pe_Name p = peerName) peers of
            Some p \<Rightarrow> SendMessage w prof tenantID (pe_ID p) params st
          | None \<Rightarrow> (Inl (NewA2AError (- 32602) (''unknown a2a peer: '' @ peerName)), st)))"

subsection \<open>Histories of the A2A side\<close>

datatype 'c a2a_op =
    Dispatch "Profile option" string string a2a_request
  | ByName "Profile option" string string json
  | Put string A2APeer
  | Delete string string
  | Invalidate string string

definition keep_db :: "('e, peer_db) result \<Rightarrow> 'c a2a_state \<Rightarrow> 'c a2a_state" where
  "keep_db r st = (case r of Inl e \<Rightarrow> st | Inr db \<Rightarrow> st \<lparr> aa_db := db \<rparr>)"

fun a2a_step :: "'c a2a_wire \<Rightarrow> 'c a2a_op \<Rightarrow> 'c a2a_state \<Rightarrow> 'c a2a_state" where
  "a2a_step w (Dispatch prof t i rq) st = snd (a2a_dispatch w prof t i rq st)"
| "a2a_step w (ByName prof t name params) st = snd (SendMessageByPeerName w prof t name params st)"
| "a2a_step w (Put now p) st = keep_db (PutPeer now p (aa_db st)) st"
| "a2a_step w (Delete t i) st = keep_db (DeletePeer t i (aa_db st)) st"
| "a2a_step w (Invalidate t i) st = st \<lparr> aa_clients := pool_Invalidate t i (aa_clients st) \<rparr>"

text \<open>What may go out on an operation: a request to an enabled peer of the tenant whose name the
  profile admits, in the state of the tables at that moment.\<close>

definition peer_open :: "Profile option \<Rightarrow> string \<Rightarrow> string \<Rightarrow> 'c a2a_state \<Rightarrow> bool" where
  "peer_open prof t i st =
    (\<exists>peer. GetPeer (aa_db st) t i = Inr peer \<and> pe_Enabled peer \<and> AllowsA2APeer prof (pe_Name peer))"

fun a2a_permitted :: "'c a2a_op \<Rightarrow> 'c a2a_state \<Rightarrow> ('c \<times> string \<times> string \<times> a2a_request) \<Rightarrow> bool" where
  "a2a_permitted (Dispatch prof t i rq) st (c, t', i', rq') =
    (t' = t \<and> i' = i \<and> rq' = rq \<and> peer_open prof t i st)"
| "a2a_permitted (ByName prof t name params) st (c, t', i', rq') =
    (t' = t \<and> rq' = MessageSend params \<and> peer_open prof t i' st)"
| "a2a_permitted _ st call = False"

lemma a2a_emit_sel [simp]:
  "aa_db (a2a_emit on ev t p st) = aa_db st" "aa_clients (a2a_emit on ev t p st) = aa_clients st"
  "aa_sent (a2a_emit on ev t p st) = aa_sent st"
  by (simp_all add: a2a_emit_def)

lemma auditDispatch_sel [simp]:
  "aa_db (auditDispatch on t p rq st) = aa_db st" "aa_clients (auditDispatch on t p rq st) = aa_clients st"
  "aa_sent (auditDispatch on t p rq st) = aa_sent st"
  by (simp_all add: auditDispatch_def)

lemma resolveAndEnforce_sel:
  assumes "resolveAndEnforce on prof t i st = (r, st')"
  shows "aa_db st' = aa_db st" "aa_clients st' = aa_clients st" "aa_sent st' = aa_sent st"
  using assms by (auto simp: resolveAndEnforce_def split: sum.splits option.splits if_splits)

lemma resolveAndEnforce_Inr:
  assumes "resolveAndEnforce on prof t i st = (Inr peer, st')"
  shows "GetPeer (aa_db st) t i = Inr peer \<and> AllowsA2APeer prof (pe_Name peer)"
  using assms by (cases prof) (auto simp: resolveAndEnforce_def split: sum.splits if_splits)

lemma pool_Acquire_Inr:
  assumes "pool_Acquire factory db t i cs = (Inr c, cs')"
  obtains peer where "GetPeer db t i = Inr peer" "pe_Enabled peer" "aget cs' (pool_key t i) = Some c"
    "cs' = cs \<or> cs' = aput (pool_key t i) c cs \<and> factory peer = Inr c"
  using assms by (auto simp: pool_Acquire_def split: if_splits sum.splits option.splits)

lemma pool_Acquire_Inl: "pool_Acquire factory db t i cs = (Inl e, cs') \<Longrightarrow> cs' = cs"
  by (auto simp: pool_Acquire_def split: if_splits sum.splits option.splits)

text \<open>The two ways a dispatch ends: refused before any client is used, or one request handed over.\<close>

lemma a2a_dispatch_cases:
  obtains
    (refused) e where "fst (a2a_dispatch w prof t i rq st) = Inl e"
      "aa_sent (snd (a2a_dispatch w prof t i rq st)) = aa_sent st"
      "aa_clients (snd (a2a_dispatch w prof t i rq st)) = aa_clients st"
      "aa_db (snd (a2a_dispatch w prof t i rq st)) = aa_db st"
  | (sent) c peer where "GetPeer (aa_db st) t i = Inr peer" "pe_Enabled peer" "AllowsA2APeer prof (pe_Name peer)"
      "aa_sent (snd (a2a_dispatch w prof t i rq st)) = aa_sent st @ [(c, t, i, rq)]"
      "aget (aa_clients (snd (a2a_dispatch w prof t i rq st))) (pool_key t i) = Some c"
      "aa_clients (snd (a2a_dispatch w prof t i rq st)) = aa_clients st
       \<or> aa_clients (snd (a2a_dispatch w prof t i rq st)) = aput (pool_key t i) c (aa_clients st) \<and> aw_factory w peer = Inr c"
      "aa_db (snd (a2a_dispatch w prof t i rq st)) = aa_db st"
proof -
  obtain r st1 where re: "resolveAndEnforce (aw_emits w) prof t i st = (r, st1)" by fastforce
  note sel = resolveAndEnforce_sel [OF re]
  show thesis
  proof (cases r)
    case (Inl e)
    then show thesis using re sel by (intro refused [of e]) (simp_all add: a2a_dispatch_def)
  next
    case (Inr peer)
    note peer = resolveAndEnforce_Inr [OF re [unfolded Inr]]
    obtain a cs where acq: "pool_Acquire (aw_factory w) (aa_db st1) t i (aa_clients st1) = (a, cs)" by fastforce
    show thesis
    proof (cases a)
      case Inl: (Inl e)
      then show thesis using re Inr sel acq pool_Acquire_Inl [OF acq [unfolded Inl]]
        by (intro refused [of "mapErr (aw_errtext w) e"]) (simp_all add: a2a_dispatch_def)
    next
      case c: (Inr c)
      obtain peer' where "GetPeer (aa_db st) t i = Inr peer'" "pe_Enabled peer'" "aget cs (pool_key t i) = Some c"
          "cs = aa_clients st \<or> cs = aput (pool_key t i) c (aa_clients st) \<and> aw_factory w peer' = Inr c"
        using pool_Acquire_Inr [OF acq [unfolded c]] sel by metis
      then show thesis using re Inr sel acq c peer
        by (intro sent [of peer' c]) (auto simp: a2a_dispatch_def Let_def split: sum.splits)
    qed
  qed
qed

lemma SendMessageByPeerName_cases:
  obtains
    (unknown) e where "SendMessageByPeerName w prof t name params st = (Inl e, st)"
  | (found) peer where "pe_Name peer = name" "peer \<in> set (pd_peers (aa_db st))" "pe_TenantID peer = t"
      "SendMessageByPeerName w prof t name params st = a2a_dispatch w prof t (pe_ID peer) (MessageSend params) st"
proof (cases "\<exists>peers peer. ListPeers (aa_db st) t = Inr peers \<and> List.find (\<lambda>p. pe_Name p = name) peers = Some peer")
  case True
  then obtain peers peer where "ListPeers (aa_db st) t = Inr peers" "List.find (\<lambda>p. pe_Name p = name) peers = Some peer"
    by blast
  then show thesis
    by (intro found [of peer])
      (auto simp: SendMessageByPeerName_def SendMessage_def ListPeers_def split: if_splits dest: find_Some_prop)
next
  case False
  then have "\<exists>e. SendMessageByPeerName w prof t name params st = (Inl e, st)"
    by (auto simp: SendMessageByPeerName_def split: sum.splits)
  then show thesis using unknown by blast
qed

lemma a2a_dispatch_egress:
  "aa_sent (snd (a2a_dispatch w prof t i rq st)) = aa_sent st
   \<or> (\<exists>c. aa_sent (snd (a2a_dispatch w prof t i rq st)) = aa_sent st @ [(c, t, i, rq)] \<and> peer_open prof t i st)"
  by (rule a2a_dispatch_cases [of w prof t i rq st]) (auto simp: peer_open_def)

interpretation a2a_egress: governed_egress "a2a_step w" aa_sent a2a_permitted
proof unfold_locales
  fix x s
  show "aa_sent (a2a_step w x s) = aa_sent s
    \<or> (\<exists>c. aa_sent (a2a_step w x s) = aa_sent s @ [c] \<and> a2a_permitted x s c)"
  proof (cases x)
    case (Dispatch prof t i rq)
    then show ?thesis using a2a_dispatch_egress [of w prof t i rq s] by auto
  next
    case (ByName prof t name params)
    show ?thesis
      using ByName a2a_dispatch_egress [of w prof t _ "MessageSend params" s]
      by (rule_tac SendMessageByPeerName_cases [of w prof t name params s]) auto
  qed (auto simp: keep_db_def split: sum.splits)
qed

subsection \<open>The pool keeps tenants apart\<close>

text \<open>Every cached client was built from a peer record of the tenant and id in its key; tenant ids
  carry no NUL, so keys cannot be confused.\<close>

definition no_nul :: "string \<Rightarrow> bool" where
  "no_nul t = (CHR 0x00 \<notin> set t)"

definition pool_ok :: "'c a2a_wire \<Rightarrow> 'c a2a_state \<Rightarrow> bool" where
  "pool_ok w st =
    ((\<forall>p \<in> set (pd_peers (aa_db st)). no_nul (pe_TenantID p))
     \<and> (\<forall>k c. aget (aa_clients st) k = Some c \<longrightarrow>
          (\<exists>p. aw_factory w p = Inr c \<and> no_nul (pe_TenantID p) \<and> k = pool_key (pe_TenantID p) (pe_ID p))))"

fun op_ok :: "'c a2a_op \<Rightarrow> bool" where
  "op_ok (Put now p) = no_nul (pe_TenantID p)"
| "op_ok _ = True"

lemma pool_key_eq:
  "no_nul t \<Longrightarrow> no_nul t' \<Longrightarrow> pool_key t i = pool_key t' i' \<longleftrightarrow> t = t' \<and> i = i'"
  unfolding pool_key_def no_nul_def
proof (induction t arbitrary: t')
  case Nil
  then show ?case by (cases t') auto
next
  case (Cons c t)
  then show ?case by (cases t') auto
qed

lemma GetPeer_Inr:
  "GetPeer db t i = Inr p \<Longrightarrow> p \<in> set (pd_peers db) \<and> pe_TenantID p = t \<and> pe_ID p = i"
  by (auto simp: GetPeer_def peer_at_def split: if_splits option.splits dest: find_Some_prop)

lemma PutPeer_tenants:
  "PutPeer now p db = Inr db' \<Longrightarrow> q \<in> set (pd_peers db') \<Longrightarrow>
    pe_TenantID q = pe_TenantID p \<or> (\<exists>q' \<in> set (pd_peers db). pe_TenantID q = pe_TenantID q')"
  by (auto simp: PutPeer_def Let_def split: if_splits)

lemma pool_ok_dispatch:
  assumes "pool_ok w st"
  shows "pool_ok w (snd (a2a_dispatch w prof t i rq st))"
proof (rule a2a_dispatch_cases [of w prof t i rq st])
  fix c peer
  assume peer: "GetPeer (aa_db st) t i = Inr peer"
    and cs: "aa_clients (snd (a2a_dispatch w prof t i rq st)) = aa_clients st
       \<or> aa_clients (snd (a2a_dispatch w prof t i rq st)) = aput (pool_key t i) c (aa_clients st) \<and> aw_factory w peer = Inr c"
    and db: "aa_db (snd (a2a_dispatch w prof t i rq st)) = aa_db st"
  have "no_nul t" using GetPeer_Inr [OF peer] assms by (auto simp: pool_ok_def)
  then have new: "\<exists>p. aw_factory w p = Inr c \<and> no_nul (pe_TenantID p) \<and> pool_key t i = pool_key (pe_TenantID p) (pe_ID p)"
    if "aw_factory w peer = Inr c" using that GetPeer_Inr [OF peer] by blast
  show ?thesis using assms cs db new by (auto simp: pool_ok_def split: if_splits)
qed (use assms in \<open>simp add: pool_ok_def\<close>)

lemma pool_ok_step:
  assumes "pool_ok w st" and "op_ok x"
  shows "pool_ok w (a2a_step w x st)"
proof (cases x)
  case (ByName prof t name params)
  then show ?thesis
    using assms(1) pool_ok_dispatch [OF assms(1)]
    by (rule_tac SendMessageByPeerName_cases [of w prof t name params st]) auto
next
  case (Put now p)
  then show ?thesis
    using assms by (auto simp: keep_db_def pool_ok_def split: sum.splits dest: PutPeer_tenants)
next
  case (Delete t i)
  then show ?thesis
    using assms(1) by (auto simp: keep_db_def pool_ok_def DeletePeer_def split: sum.splits if_splits)
next
  case (Invalidate t i)
  then show ?thesis using assms(1) by (auto simp: pool_ok_def pool_Invalidate_def)
qed (use assms pool_ok_dispatch in simp)

lemma pool_ok_run:
  "pool_ok w st \<Longrightarrow> (\<forall>x \<in> set xs. op_ok x) \<Longrightarrow> pool_ok w (fold (a2a_step w) xs st)"
  by (induction xs arbitrary: st) (simp_all add: pool_ok_step)

text \<open>A request handed over on behalf of a tenant goes to a client built for that tenant's peer.\<close>

lemma sent_client_own_peer:
  assumes "pool_ok w st" and "aa_sent (snd (a2a_dispatch w prof t i rq st)) = aa_sent st @ [(c, t, i, rq)]"
  shows "\<exists>p. aw_factory w p = Inr c \<and> pe_TenantID p = t \<and> pe_ID p = i"
proof (rule a2a_dispatch_cases [of w prof t i rq st])
  fix c' peer
  assume peer: "GetPeer (aa_db st) t i = Inr peer"
    and s: "aa_sent (snd (a2a_dispatch w prof t i rq st)) = aa_sent st @ [(c', t, i, rq)]"
    and g: "aget (aa_clients (snd (a2a_dispatch w prof t i rq st))) (pool_key t i) = Some c'"
  have "no_nul t" using GetPeer_Inr [OF peer] assms(1) by (auto simp: pool_ok_def)
  moreover obtain p where "aw_factory w p = Inr c'" "no_nul (pe_TenantID p)"
      "pool_key t i = pool_key (pe_TenantID p) (pe_ID p)"
    using pool_ok_dispatch [OF assms(1), of prof t i rq] g unfolding pool_ok_def by blast
  ultimately show ?thesis using assms(2) s pool_key_eq by auto
qed (use assms(2) in simp)

subsection \<open>Properties\<close>

text \<open>The governed A2A envelope over whole histories.  Whatever sequence of dispatches, bridge calls,
  registry edits and cache invalidations runs from an empty trace, every request that reached a
  southbound client did so on behalf of a caller whose profile admits the peer, at a moment when the
  peer was registered for that tenant and enabled.\<close>

theorem a2a_history_governed:
  assumes "aa_sent st = []" and "(c, t, i, rq) \<in> set (aa_sent (fold (a2a_step w) ops st))"
  shows "\<exists>pre x post prof peer. ops = pre @ x # post
    \<and> (x = Dispatch prof t i rq \<or> (\<exists>name params. x = ByName prof t name params \<and> rq = MessageSend params))
    \<and> GetPeer (aa_db (fold (a2a_step w) pre st)) t i = Inr peer \<and> pe_Enabled peer
    \<and> AllowsA2APeer prof (pe_Name peer)"
proof -
  obtain pre x post where x: "ops = pre @ x # post"
      "a2a_permitted x (fold (a2a_step w) pre st) (c, t, i, rq)"
    using a2a_egress.call_permitted [of "(c, t, i, rq)" w ops st] assms
    by (auto simp: a2a_egress.steps_def)
  show ?thesis
  proof (cases x)
    case (Dispatch prof t' i' rq')
    then show ?thesis using x by (auto simp: peer_open_def)
  next
    case (ByName prof t' name params)
    then show ?thesis using x by (fastforce simp: peer_open_def)
  qed (use x in auto)
qed

definition sample_peer :: A2APeer where
  "sample_peer = \<lparr> pe_TenantID = ''acme'', pe_ID = ''p1'', pe_Name = ''research'', pe_Endpoint = ''https://r'',
     pe_EgressAuthRef = '''', pe_AgentCardJSON = '''', pe_Enabled = True, pe_CreatedAt = '''', pe_UpdatedAt = '''' \<rparr>"

definition sample_wire :: "A2APeer a2a_wire" where
  "sample_wire = \<lparr> aw_factory = Inr, aw_call = (\<lambda>c rq. Inr JNull), aw_emits = True, aw_errtext = (\<lambda>e. '''') \<rparr>"

definition sample_a2a :: "A2APeer a2a_state" where
  "sample_a2a = \<lparr> aa_db = \<lparr> pd_fault = False, pd_peers = [sample_peer] \<rparr>, aa_clients = [], aa_audit = [], aa_sent = [] \<rparr>"

theorem a2a_history_governed_witness:
  "(sample_peer, ''acme'', ''p1'', TasksGet ''t1'') \<in>
     set (aa_sent (fold (a2a_step sample_wire) [Dispatch None ''acme'' ''p1'' (TasksGet ''t1'')] sample_a2a))
   \<and> (\<exists>peer. GetPeer (aa_db sample_a2a) ''acme'' ''p1'' = Inr peer \<and> pe_Enabled peer)"
proof -
  have run: "(sample_peer, ''acme'', ''p1'', TasksGet ''t1'') \<in>
     set (aa_sent (fold (a2a_step sample_wire) [Dispatch None ''acme'' ''p1'' (TasksGet ''t1'')] sample_a2a))"
    by code_simp
  have empty: "aa_sent sample_a2a = []" by (simp add: sample_a2a_def)
  from a2a_history_governed [OF empty run] run show ?thesis
    by (auto simp: append_eq_Cons_conv Cons_eq_append_conv)
qed

text \<open>Tenant isolation of the client pool.  In every history whose registered tenants have
  NUL-free ids, a request dispatched for a tenant and peer is handed to a client that was built from
  a peer record of exactly that tenant and peer, so egress credentials never cross tenants.\<close>

theorem a2a_pool_tenant_isolation:
  assumes "aa_clients st = []" and "\<forall>p \<in> set (pd_peers (aa_db st)). no_nul (pe_TenantID p)"
    and "\<forall>x \<in> set ops. op_ok x"
    and "aa_sent (snd (a2a_dispatch w prof t i rq (fold (a2a_step w) ops st))) =
      aa_sent (fold (a2a_step w) ops st) @ [(c, t, i, rq)]"
  shows "\<exists>p. aw_factory w p = Inr c \<and> pe_TenantID p = t \<and> pe_ID p = i"
proof -
  have "pool_ok w st" using assms(1,2) by (simp add: pool_ok_def)
  from sent_client_own_peer [OF pool_ok_run [OF this assms(3)] assms(4)] show ?thesis .
qed

theorem a2a_pool_tenant_isolation_witness:
  "\<exists>p. aw_factory sample_wire p = Inr sample_peer \<and> pe_TenantID p = ''acme'' \<and> pe_ID p = ''p1''"
proof (rule a2a_pool_tenant_isolation [where st = sample_a2a and ops = "[Invalidate ''acme'' ''p1'']"
      and prof = None and rq = "TasksGet ''t1''"])
  show "aa_clients sample_a2a = []" by (simp add: sample_a2a_def)
  show "\<forall>p \<in> set (pd_peers (aa_db sample_a2a)). no_nul (pe_TenantID p)"
    by (simp add: sample_a2a_def sample_peer_def no_nul_def)
  show "\<forall>x \<in> set [Invalidate ''acme'' ''p1''] . op_ok x" by simp
  show "aa_sent (snd (a2a_dispatch sample_wire None ''acme'' ''p1'' (TasksGet ''t1'')
        (fold (a2a_step sample_wire) [Invalidate ''acme'' ''p1''] sample_a2a))) =
      aa_sent (fold (a2a_step sample_wire) [Invalidate ''acme'' ''p1''] sample_a2a)
        @ [(sample_peer, ''acme'', ''p1'', TasksGet ''t1'')]"
    by code_simp
qed

end
