(* ===== verification/Secret_Refs.thy ===== *)
theory Secret_Refs
  imports Registry_Spec
begin

text \<open>
  Credentials: the placeholders \<open>{{secret:name}}\<close> and \<open>{{env:NAME}}\<close>, their
  expansion for the environment of a stdio server
  (\<open>internal/runtime/process/env.go\<close>), and the injection strategies of
  \<open>internal/secrets/inject\<close>.  A vault is a function from tenant and name to a
  value or an error, \<open>None\<close> when no vault is configured; the token exchanger and
  the process environment are functions as well.  The patterns are
  deterministic, so their matcher is a left-to-right parser; \<open>\s\<close> is the ASCII
  class of Go's regular expressions.
\<close>

type_synonym vault = "string \<Rightarrow> string \<Rightarrow> (string, string) result"

datatype inject_error =
    NotImplemented
  | MissingSeparator string
  | VaultNotConfigured
  | SecretLookup string string
  | EnvNotSet string
  | UnknownPlaceholder string
  | ForKey string inject_error
  | NoSubjectToken
  | ExchangerNotConfigured
  | ExchangeFailed string

subsection \<open>Placeholders\<close>

definition re_space :: "char \<Rightarrow> bool" where
  "re_space c = (c \<in> set [CHR 0x09, CHR 0x0A, CHR 0x0C, CHR 0x0D, CHR '' ''])"

definition name_char :: "char \<Rightarrow> bool" where
  "name_char c =
    (let n = (of_char c :: nat) in
     65 \<le> n \<and> n \<le> 90 \<or> 97 \<le> n \<and> n \<le> 122 \<or> 48 \<le> n \<and> n \<le> 57 \<or> c \<in> set ''_.-'')"

definition skip_space :: "string \<Rightarrow> string" where
  "skip_space s = dropWhile re_space s"

definition expect :: "string \<Rightarrow> string \<Rightarrow> string option" where
  "expect p s = (if has_prefix s p then Some (drop (length p) s) else None)"

fun expect_kind :: "string list \<Rightarrow> string \<Rightarrow> (string \<times> string) option" where
  "expect_kind [] s = None"
| "expect_kind (k # ks) s =
    (case expect k s of Some r \<Rightarrow> Some (k, r) | None \<Rightarrow> expect_kind ks s)"

definition match_name :: "string \<Rightarrow> (string \<times> string) option" where
  "match_name s =
    (let name = takeWhile name_char s in
     if name = [] then None
     else case expect ''}}'' (skip_space (dropWhile name_char s)) of
            None \<Rightarrow> None | Some rest \<Rightarrow> Some (name, rest))"

text \<open>A match at the head of the text: its kind, its name and what follows it.\<close>

definition match_ref :: "string list \<Rightarrow> string \<Rightarrow> (string \<times> string \<times> string) option" where
  "match_ref kinds s =
    (case expect ''{{'' s of None \<Rightarrow> None
     | Some r1 \<Rightarrow> (case expect_kind kinds (skip_space r1) of None \<Rightarrow> None
     | Some (kind, r2) \<Rightarrow> (case expect '':'' (skip_space r2) of None \<Rightarrow> None
     | Some r3 \<Rightarrow> (case match_name (skip_space r3) of None \<Rightarrow> None
     | Some (name, rest) \<Rightarrow> Some (kind, name, rest)))))"

lemma expect_length: "expect p s = Some r \<Longrightarrow> length r \<le> length s"
  by (auto simp: expect_def split: if_splits)

lemma skip_space_length: "length (skip_space s) \<le> length s"
  by (simp add: skip_space_def length_dropWhile_le)

lemma expect_kind_length: "expect_kind ks s = Some (k, r) \<Longrightarrow> length r \<le> length s"
  by (induction ks) (auto split: option.splits dest: expect_length)

lemma match_name_length:
  assumes "match_name s = Some (name, rest)"
  shows "length rest \<le> length s"
proof -
  from assms have "expect ''}}'' (skip_space (dropWhile name_char s)) = Some rest"
    by (auto simp: match_name_def Let_def split: if_splits option.splits)
  then show ?thesis
    using expect_length skip_space_length [of "dropWhile name_char s"] length_dropWhile_le [of name_char s]
    by (meson le_trans)
qed

lemma match_ref_length:
  assumes "match_ref kinds s = Some (kind, name, rest)"
  shows "length rest < length s"
proof -
  from assms obtain r1 r2 r3 where
    r: "expect ''{{'' s = Some r1" "expect_kind kinds (skip_space r1) = Some (kind, r2)"
       "expect '':'' (skip_space r2) = Some r3" "match_name (skip_space r3) = Some (name, rest)"
    by (auto simp: match_ref_def split: option.splits)
  have "length r1 < length s"
    using r(1) by (cases s) (auto simp: expect_def split: if_splits)
  then show ?thesis
    using expect_kind_length [OF r(2)] expect_length [OF r(3)] match_name_length [OF r(4)]
      skip_space_length [of r1] skip_space_length [of r2] skip_space_length [of r3] by linarith
qed

fun has_ref :: "string list \<Rightarrow> string \<Rightarrow> bool" where
  "has_ref kinds [] = False"
| "has_ref kinds (c # s) = (match_ref kinds (c # s) \<noteq> None \<or> has_ref kinds s)"

text \<open>Leftmost, non-overlapping replacement; the first failing lookup is the result.\<close>

function expand ::
  "string list \<Rightarrow> (string \<Rightarrow> string \<Rightarrow> (inject_error, string) result) \<Rightarrow> string \<Rightarrow> (inject_error, string) result"
where
  "expand kinds get [] = Inr []"
| "expand kinds get (c # s) =
    (case match_ref kinds (c # s) of
       Some (kind, name, rest) \<Rightarrow>
         res_bind (get kind name) (\<lambda>val. res_bind (expand kinds get rest) (\<lambda>out. Inr (val @ out)))
     | None \<Rightarrow> res_bind (expand kinds get s) (\<lambda>out. Inr (c # out)))"
  by pat_completeness auto
termination
  by (relation "measure (\<lambda>(kinds, get, s). length s)") (auto dest: match_ref_length)

subsection \<open>internal/secrets/inject\<close>

definition vault_get :: "vault \<Rightarrow> string \<Rightarrow> string \<Rightarrow> string \<Rightarrow> (inject_error, string) result" where
  "vault_get v tenantID kind name =
    (case v tenantID name of Inl e \<Rightarrow> Inl (SecretLookup name e) | Inr val \<Rightarrow> Inr val)"

definition resolveSecretRefs :: "vault option \<Rightarrow> string \<Rightarrow> string \<Rightarrow> (inject_error, string) result" where
  "resolveSecretRefs vault tenantID s =
    (if \<not> has_ref [''secret''] s then Inr s
     else case vault of
       None \<Rightarrow> Inl VaultNotConfigured
     | Some v \<Rightarrow> expand [''secret''] (vault_get v tenantID) s)"

definition splitKV :: "string \<Rightarrow> (string \<times> string) option" where
  "splitKV kv =
    (let i = index_byte kv CHR ''='' in
     if i \<ge> 0 then Some (take (nat i) kv, drop (nat i + 1) kv) else None)"

record PrepRequest =
  pq_TenantID :: string
  pq_UserID :: string
  pq_SessionID :: string
  pq_SubjectToken :: string
  pq_ServerSpec :: "ServerSpec option"

record PrepTarget =
  pt_Env :: "(string, string) amap"
  pt_Headers :: "(string, string) amap"

datatype injector =
    EnvInjector "vault option"
  | HTTPHeaderInjector "vault option"
  | SecretRefInjector "vault option"
  | ShimInjector
  | OAuthInjector "(string \<Rightarrow> string \<Rightarrow> string \<Rightarrow> (string, string) result) option"

fun inj_Strategy :: "injector \<Rightarrow> string" where
  "inj_Strategy (EnvInjector v) = ''env_inject''"
| "inj_Strategy (HTTPHeaderInjector v) = ''http_header_inject''"
| "inj_Strategy (SecretRefInjector v) = ''secret_reference''"
| "inj_Strategy ShimInjector = ''credential_shim''"
| "inj_Strategy (OAuthInjector ex) = ''oauth2_token_exchange''"

fun env_pairs :: "vault option \<Rightarrow> string \<Rightarrow> string list \<Rightarrow> (string, string) amap \<Rightarrow> (inject_error, (string, string) amap) result" where
  "env_pairs v t [] m = Inr m"
| "env_pairs v t (kv # kvs) m =
    (case splitKV kv of
       None \<Rightarrow> Inl (MissingSeparator kv)
     | Some (key, val) \<Rightarrow>
         (case resolveSecretRefs v t val of
            Inl e \<Rightarrow> Inl (ForKey key e)
          | Inr resolved \<Rightarrow> env_pairs v t kvs (aput key resolved m)))"

fun header_pairs :: "vault option \<Rightarrow> string \<Rightarrow> (string \<times> string) list \<Rightarrow> (string, string) amap \<Rightarrow> (inject_error, (string, string) amap) result" where
  "header_pairs v t [] m = Inr m"
| "header_pairs v t ((k, val) # hs) m =
    (case resolveSecretRefs v t val of
       Inl e \<Rightarrow> Inl (ForKey k e)
     | Inr resolved \<Rightarrow> header_pairs v t hs (aput k resolved m))"

fun inj_Apply :: "injector \<Rightarrow> PrepRequest \<Rightarrow> PrepTarget \<Rightarrow> (inject_error, PrepTarget) result" where
  "inj_Apply (EnvInjector v) req target =
    (case pq_ServerSpec req of None \<Rightarrow> Inr target
     | Some spec \<Rightarrow> (case ss_Auth spec of None \<Rightarrow> Inr target
     | Some auth \<Rightarrow> (if length (au_Env auth) = 0 then Inr target
         else res_bind (env_pairs v (pq_TenantID req) (au_Env auth) (pt_Env target))
                (\<lambda>m. Inr (target \<lparr> pt_Env := m \<rparr>)))))"
| "inj_Apply (HTTPHeaderInjector v) req target =
    (case pq_ServerSpec req of None \<Rightarrow> Inr target
     | Some spec \<Rightarrow> (case ss_Auth spec of None \<Rightarrow> Inr target
     | Some auth \<Rightarrow> (if length (au_Headers auth) = 0 then Inr target
         else res_bind (header_pairs v (pq_TenantID req) (au_Headers auth) (pt_Headers target))
                (\<lambda>m. Inr (target \<lparr> pt_Headers := m \<rparr>)))))"
| "inj_Apply (SecretRefInjector v) req target =
    (case pq_ServerSpec req of None \<Rightarrow> Inr target
     | Some spec \<Rightarrow> (case ss_Auth spec of None \<Rightarrow> Inr target
     | Some auth \<Rightarrow> (if au_SecretRef auth = '''' then Inr target
         else case v of None \<Rightarrow> Inl VaultNotConfigured
         | Some vlt \<Rightarrow> res_bind (vault_get vlt (pq_TenantID req) ''secret'' (au_SecretRef auth))
             (\<lambda>val. Inr (target \<lparr> pt_Headers := aput ''Authorization'' (''Bearer '' @ val) (pt_Headers target) \<rparr>)))))"
| "inj_Apply ShimInjector req target = Inl NotImplemented"
| "inj_Apply (OAuthInjector ex) req target =
    (case ex of None \<Rightarrow> Inl ExchangerNotConfigured
     | Some exchange \<Rightarrow>
         if pq_SubjectToken req = '''' then Inl NoSubjectToken
         else (case exchange (pq_TenantID req) (pq_UserID req) (pq_SubjectToken req) of
                 Inl e \<Rightarrow> Inl (ExchangeFailed e)
               | Inr tok \<Rightarrow> Inr (target \<lparr> pt_Headers := aput ''Authorization'' (''Bearer '' @ tok) (pt_Headers target) \<rparr>)))"

text \<open>The strategy registry; registering a strategy twice panics, modelled as \<open>None\<close>.\<close>

definition inject_Register :: "injector \<Rightarrow> (string, injector) amap \<Rightarrow> (string, injector) amap option" where
  "inject_Register i byName =
    (if aget byName (inj_Strategy i) \<noteq> None then None else Some (aput (inj_Strategy i) i byName))"

definition inject_Get :: "(string, injector) amap \<Rightarrow> string \<Rightarrow> injector option" where
  "inject_Get byName strategy = aget byName strategy"

subsection \<open>internal/runtime/process/env.go\<close>

fun hasUnknownPlaceholder :: "string \<Rightarrow> bool" where
  "hasUnknownPlaceholder (a # b # s) = (a = CHR ''{'' \<and> b = CHR ''{'' \<or> hasUnknownPlaceholder (b # s))"
| "hasUnknownPlaceholder _ = False"

definition resolver_get ::
  "vault option \<Rightarrow> (string \<Rightarrow> string option) \<Rightarrow> string \<Rightarrow> string \<Rightarrow> string \<Rightarrow> (inject_error, string) result"
where
  "resolver_get vault lookupEnv tenantID kind name =
    (if kind = ''secret'' then
       (case vault of None \<Rightarrow> Inl (SecretLookup name ''no vault configured; set PORTICO_VAULT_KEY'')
        | Some v \<Rightarrow> vault_get v tenantID kind name)
     else if kind = ''env'' then (case lookupEnv name of None \<Rightarrow> Inl (EnvNotSet name) | Some val \<Rightarrow> Inr val)
     else Inl (UnknownPlaceholder kind))"

definition resolveOne ::
  "vault option \<Rightarrow> (string \<Rightarrow> string option) \<Rightarrow> string \<Rightarrow> string \<Rightarrow> (inject_error, string) result"
where
  "resolveOne vault lookupEnv tenantID inp =
    res_bind (expand [''secret'', ''env''] (resolver_get vault lookupEnv tenantID) inp)
      (\<lambda>out. if hasUnknownPlaceholder out then Inl (UnknownPlaceholder inp) else Inr out)"

fun resolver_Resolve ::
  "vault option \<Rightarrow> (string \<Rightarrow> string option) \<Rightarrow> string \<Rightarrow> string list \<Rightarrow> (inject_error, string list) result"
where
  "resolver_Resolve vault lookupEnv tenantID [] = Inr []"
| "resolver_Resolve vault lookupEnv tenantID (kv # env) =
    (let eq = index_byte kv CHR ''='' in
     if eq < 0 then Inl (MissingSeparator kv)
     else case resolveOne vault lookupEnv tenantID (drop (nat eq + 1) kv) of
       Inl e \<Rightarrow> Inl (ForKey (take (nat eq) kv) e)
     | Inr resolved \<Rightarrow>
         res_bind (resolver_Resolve vault lookupEnv tenantID env)
           (\<lambda>out. Inr ((take (nat eq) kv @ ''='' @ resolved) # out)))"

subsection \<open>Facts\<close>

lemma expand_cong:
  "(\<And>kind name. get kind name = get' kind name) \<Longrightarrow> expand kinds get s = expand kinds get' s"
  by (induction kinds get s rule: expand.induct) (auto split: option.splits)

lemma expect_append [simp]: "expect p (p @ s) = Some s"
  by (simp add: expect_def)

lemma name_char_props:
  assumes "name_char c"
  shows "\<not> re_space c" "c \<noteq> CHR ''}''"
  using assms by (auto simp: name_char_def re_space_def Let_def)

lemma skip_space_name: "name \<noteq> [] \<Longrightarrow> list_all name_char name \<Longrightarrow> skip_space (name @ s) = name @ s"
  by (cases name) (auto simp: skip_space_def name_char_props)

lemma match_name_ref:
  assumes "name \<noteq> []" and "list_all name_char name"
  shows "match_name (name @ ''}}'' @ post) = Some (name, post)"
proof -
  have brace: "\<not> name_char CHR ''}''" "\<not> re_space CHR ''}''" by code_simp+
  have "takeWhile name_char (name @ ''}}'' @ post) = name" "dropWhile name_char (name @ ''}}'' @ post) = ''}}'' @ post"
    using assms(2) brace(1) by (auto simp: takeWhile_append dropWhile_append list_all_iff)
  then show ?thesis
    using assms(1) brace(2) by (simp add: match_name_def skip_space_def expect_def)
qed

lemma match_ref_secret:
  assumes "name \<noteq> []" and "list_all name_char name" and "''secret'' \<in> set kinds" and "set kinds \<subseteq> {''secret'', ''env''}"
  shows "match_ref kinds (''{{secret:'' @ name @ ''}}'' @ post) = Some (''secret'', name, post)"
proof -
  have kind: "expect_kind kinds (''secret:'' @ name @ ''}}'' @ post) = Some (''secret'', '':'' @ name @ ''}}'' @ post)"
    using assms(3,4)
    by (induction kinds) (auto simp: expect_def split: option.splits)
  have sp: "skip_space (''secret:'' @ name @ ''}}'' @ post) = ''secret:'' @ name @ ''}}'' @ post"
    "skip_space ('':'' @ name @ ''}}'' @ post) = '':'' @ name @ ''}}'' @ post"
    by (simp_all add: skip_space_def re_space_def)
  have "expect ''{{'' (''{{secret:'' @ name @ ''}}'' @ post) = Some (''secret:'' @ name @ ''}}'' @ post)"
    by (simp add: expect_def)
  moreover have "expect '':'' ('':'' @ name @ ''}}'' @ post) = Some (name @ ''}}'' @ post)"
    by (simp add: expect_def)
  ultimately show ?thesis
    unfolding match_ref_def
    by (simp only: sp kind option.simps prod.case skip_space_name [OF assms(1,2)] match_name_ref [OF assms(1,2)])
qed

lemma match_ref_brace: "c \<noteq> CHR ''{'' \<Longrightarrow> match_ref kinds (c # s) = None"
  by (auto simp: match_ref_def expect_def)

lemma expand_plain_prefix:
  assumes "CHR ''{'' \<notin> set pre"
  shows "expand kinds get (pre @ s) = res_bind (expand kinds get s) (\<lambda>out. Inr (pre @ out))"
  using assms
proof (induction pre)
  case Nil
  then show ?case by (cases "expand kinds get s") auto
next
  case (Cons c pre)
  then have "match_ref kinds (c # pre @ s) = None"
    by (intro match_ref_brace) auto
  then show ?case
    using Cons by (cases "expand kinds get s") auto
qed

lemma expand_plain: "CHR ''{'' \<notin> set s \<Longrightarrow> expand kinds get s = Inr s"
  using expand_plain_prefix [of s kinds get "[]"] by simp

lemma has_ref_plain_prefix: "CHR ''{'' \<notin> set pre \<Longrightarrow> has_ref kinds (pre @ s) = has_ref kinds s"
  by (induction pre) (auto simp: match_ref_brace)

lemma expand_secret:
  assumes "name \<noteq> []" and "list_all name_char name" and "''secret'' \<in> set kinds" and "set kinds \<subseteq> {''secret'', ''env''}"
  shows "expand kinds get (''{{secret:'' @ name @ ''}}'' @ post) =
    res_bind (get ''secret'' name) (\<lambda>val. res_bind (expand kinds get post) (\<lambda>out. Inr (val @ out)))"
  using match_ref_secret [OF assms, of post] by simp

lemma has_ref_secret:
  assumes "name \<noteq> []" and "list_all name_char name"
  shows "has_ref [''secret''] (''{{secret:'' @ name @ ''}}'' @ post)"
  using match_ref_secret [OF assms, of "[''secret'']" post] by simp

lemma vault_get_cong: "(\<And>n. v t n = v' t n) \<Longrightarrow> vault_get v t kind n = vault_get v' t kind n"
  by (simp add: vault_get_def)

lemma resolveSecretRefs_cong:
  assumes "\<And>n. v t n = v' t n"
  shows "resolveSecretRefs (Some v) t s = resolveSecretRefs (Some v') t s"
proof -
  have "vault_get v t = vault_get v' t" using assms by (intro ext) (simp add: vault_get_def)
  then show ?thesis by (simp add: resolveSecretRefs_def)
qed

lemma env_pairs_cong:
  "(\<And>n. v t n = v' t n) \<Longrightarrow> env_pairs (Some v) t kvs m = env_pairs (Some v') t kvs m"
  by (induction kvs arbitrary: m)
    (auto simp: resolveSecretRefs_cong [of v t v'] split: option.splits sum.splits)

lemma header_pairs_cong:
  "(\<And>n. v t n = v' t n) \<Longrightarrow> header_pairs (Some v) t hs m = header_pairs (Some v') t hs m"
  by (induction hs arbitrary: m)
    (auto simp: resolveSecretRefs_cong [of v t v'] split: sum.splits)

lemma resolver_Resolve_cong:
  assumes "\<And>n. v t n = v' t n"
  shows "resolver_Resolve (Some v) le t env = resolver_Resolve (Some v') le t env"
proof -
  have "resolver_get (Some v) le t = resolver_get (Some v') le t"
    using assms by (intro ext) (simp add: resolver_get_def vault_get_def)
  then have one: "resolveOne (Some v) le t s = resolveOne (Some v') le t s" for s
    by (simp add: resolveOne_def)
  show ?thesis by (induction env) (simp_all add: one Let_def split: sum.splits)
qed

subsection \<open>Properties\<close>

text \<open>Credentials are tenant-scoped.  Two vaults that agree on the secrets of the requesting tenant
  are indistinguishable to every vault-backed injection strategy and to the environment resolver of
  stdio servers: no secret of another tenant can influence what is injected.\<close>

theorem injection_tenant_scoped:
  assumes "\<And>n. v (pq_TenantID req) n = v' (pq_TenantID req) n"
  shows "inj_Apply (EnvInjector (Some v)) req target = inj_Apply (EnvInjector (Some v')) req target
    \<and> inj_Apply (HTTPHeaderInjector (Some v)) req target = inj_Apply (HTTPHeaderInjector (Some v')) req target
    \<and> inj_Apply (SecretRefInjector (Some v)) req target = inj_Apply (SecretRefInjector (Some v')) req target
    \<and> resolver_Resolve (Some v) le (pq_TenantID req) env = resolver_Resolve (Some v') le (pq_TenantID req) env"
proof -
  let ?t = "pq_TenantID req"
  have get: "vault_get v ?t k n = vault_get v' ?t k n" for k n
    using assms by (simp add: vault_get_def)
  have "inj_Apply (EnvInjector (Some v)) req target = inj_Apply (EnvInjector (Some v')) req target"
    by (simp add: env_pairs_cong [of v ?t v', OF assms] split: option.split)
  moreover have "inj_Apply (HTTPHeaderInjector (Some v)) req target = inj_Apply (HTTPHeaderInjector (Some v')) req target"
    by (simp add: header_pairs_cong [of v ?t v', OF assms] split: option.split)
  moreover have "inj_Apply (SecretRefInjector (Some v)) req target = inj_Apply (SecretRefInjector (Some v')) req target"
    by (simp add: get split: option.split)
  ultimately show ?thesis using resolver_Resolve_cong [of v ?t v' le env, OF assms] by blast
qed

definition sample_vault :: "string \<Rightarrow> vault" where
  "sample_vault other t n =
    (if t = ''acme'' \<and> n = ''tok'' then Inr ''s3cret'' else if t = ''evil'' then Inr other else Inl ''not found'')"

definition sample_request :: PrepRequest where
  "sample_request = \<lparr> pq_TenantID = ''acme'', pq_UserID = ''u1'', pq_SessionID = ''s1'', pq_SubjectToken = '''',
     pq_ServerSpec = None \<rparr>"

theorem injection_tenant_scoped_witness:
  "resolver_Resolve (Some (sample_vault ''a'')) (\<lambda>n. None) ''acme'' [''TOKEN={{secret:tok}}''] = Inr [''TOKEN=s3cret'']
   \<and> resolver_Resolve (Some (sample_vault ''a'')) (\<lambda>n. None) ''acme'' [''TOKEN={{secret:tok}}''] =
     resolver_Resolve (Some (sample_vault ''b'')) (\<lambda>n. None) ''acme'' [''TOKEN={{secret:tok}}'']"
proof
  show "resolver_Resolve (Some (sample_vault ''a'')) (\<lambda>n. None) ''acme'' [''TOKEN={{secret:tok}}''] = Inr [''TOKEN=s3cret'']"
    by code_simp
  have "sample_vault ''a'' (pq_TenantID sample_request) n = sample_vault ''b'' (pq_TenantID sample_request) n" for n
    by (simp add: sample_vault_def sample_request_def)
  from injection_tenant_scoped [of "sample_vault ''a''" sample_request "sample_vault ''b''", OF this,
      of _ "\<lambda>n. None" "[''TOKEN={{secret:tok}}'']"]
  show "resolver_Resolve (Some (sample_vault ''a'')) (\<lambda>n. None) ''acme'' [''TOKEN={{secret:tok}}''] =
     resolver_Resolve (Some (sample_vault ''b'')) (\<lambda>n. None) ''acme'' [''TOKEN={{secret:tok}}'']"
    by (simp only: sample_request_def PrepRequest.simps)
qed

text \<open>Expansion of a placeholder.  A reference to a secret the tenant has is replaced by exactly the
  secret's value, with the text before and after it unchanged; text without braces passes through
  untouched even when no vault is configured, and a reference then is an error.\<close>

theorem secret_reference_expansion:
  assumes "name \<noteq> ''''" and "list_all name_char name" and "v t name = Inr val"
    and "CHR ''{'' \<notin> set pre" and "CHR ''{'' \<notin> set post"
  shows "resolveSecretRefs (Some v) t (pre @ ''{{secret:'' @ name @ ''}}'' @ post) = Inr (pre @ val @ post)
    \<and> resolveSecretRefs None t (pre @ post) = Inr (pre @ post)
    \<and> resolveSecretRefs None t (pre @ ''{{secret:'' @ name @ ''}}'' @ post) = Inl VaultNotConfigured"
proof -
  have ref: "has_ref [''secret''] (pre @ ''{{secret:'' @ name @ ''}}'' @ post)"
    unfolding has_ref_plain_prefix [OF assms(4)] by (rule has_ref_secret [OF assms(1,2)])
  have "expand [''secret''] (vault_get v t) (''{{secret:'' @ name @ ''}}'' @ post) = Inr (val @ post)"
    using assms(3,5) by (subst expand_secret [OF assms(1,2)]) (simp_all add: vault_get_def expand_plain)
  then have "expand [''secret''] (vault_get v t) (pre @ ''{{secret:'' @ name @ ''}}'' @ post) = Inr (pre @ val @ post)"
    unfolding expand_plain_prefix [OF assms(4)] by simp
  moreover have "\<not> has_ref [''secret''] (pre @ post)"
    using has_ref_plain_prefix [OF assms(4), of "[''secret'']" post]
      has_ref_plain_prefix [OF assms(5), of "[''secret'']" "[]"] by simp
  ultimately show ?thesis
    using ref by (simp add: resolveSecretRefs_def del: append_Cons)
qed

theorem secret_reference_expansion_witness:
  "resolveSecretRefs (Some (sample_vault ''x'')) ''acme'' (''Bearer '' @ ''{{secret:'' @ ''tok'' @ ''}}'' @ ''!'') = Inr (''Bearer '' @ ''s3cret'' @ ''!'')"
proof -
  have "list_all name_char ''tok''" by code_simp
  then show ?thesis
    using secret_reference_expansion [of "''tok''" "sample_vault ''x''" "''acme''" "''s3cret''" "''Bearer ''" "''!''"]
    by (simp add: sample_vault_def)
qed

text \<open>The check for leftover braces runs on the text after substitution, so it also sees the secrets.
  A stored secret whose value contains two adjacent opening braces makes the environment of the
  server unresolvable, with an error that blames the (well-formed) placeholder.\<close>

theorem braces_in_secret_rejected:
  assumes "name \<noteq> ''''" and "list_all name_char name" and "v t name = Inr val" and "hasUnknownPlaceholder val"
  shows "resolveOne (Some v) le t (''{{secret:'' @ name @ ''}}'') = Inl (UnknownPlaceholder (''{{secret:'' @ name @ ''}}''))"
proof -
  have "expand [''secret'', ''env''] (resolver_get (Some v) le t) (''{{secret:'' @ name @ ''}}'' @ []) = Inr val"
    using assms(3) by (subst expand_secret [OF assms(1,2)]) (simp_all add: resolver_get_def vault_get_def)
  then show ?thesis using assms(4) by (simp add: resolveOne_def)
qed

theorem braces_in_secret_rejected_witness:
  "resolveOne (Some (\<lambda>t n. Inr ''a{{b'')) (\<lambda>n. None) ''acme'' (''{{secret:'' @ ''tok'' @ ''}}'')
    = Inl (UnknownPlaceholder (''{{secret:'' @ ''tok'' @ ''}}''))"
proof -
  have "list_all name_char ''tok''" by code_simp
  then show ?thesis
    using braces_in_secret_rejected [of "''tok''" "\<lambda>t n. Inr ''a{{b''" "''acme''" "''a{{b''" "\<lambda>n. None"] by simp
qed

end
