(* ===== verification/Gateway.thy ===== *)
theory Gateway
  imports Approvals A2A_Dispatch Secret_Refs Virtual_Keys
begin

text \<open>
  The MCP gateway: the policy pipeline (\<open>internal/server/mcpgw/policy_pipeline.go\<close>),
  the profile and virtual-key gates (\<open>agent_profile.go\<close>, \<open>vk_allowlist.go\<close>), the
  bridge to A2A peers (\<open>a2a_bridge.go\<close>), the southbound manager
  (\<open>internal/mcp/southbound/manager/manager.go\<close>) and the dispatcher that puts them
  in order (\<open>dispatcher.go\<close>).  The request context is a record of what the
  middleware resolved.  The supervisor's clients and the registry are functions;
  \<open>gs_calls\<close> records every tool call handed to a southbound client, \<open>gs_ticks\<close>
  the supervisor's bookkeeping calls.
\<close>

subsection \<open>Protocol values\<close>

record rpc_error =
  rp_Code :: int
  rp_Message :: string
  rp_Data :: "json option"

definition NewError :: "int \<Rightarrow> string \<Rightarrow> (string, json) amap \<Rightarrow> rpc_error" where
  "NewError code msg data =
    \<lparr> rp_Code = code, rp_Message = msg, rp_Data = (if data = [] then None else Some (JObj data)) \<rparr>"

definition ErrApprovalRequired :: int where "ErrApprovalRequired = - 32001"
definition ErrUpstreamUnavailable :: int where "ErrUpstreamUnavailable = - 32002"
definition ErrPolicyDenied :: int where "ErrPolicyDenied = - 32003"
definition ErrToolNotEnabled :: int where "ErrToolNotEnabled = - 32004"
definition ErrAgentProfileViolation :: int where "ErrAgentProfileViolation = - 32006"
definition ErrVKScopeViolation :: int where "ErrVKScopeViolation = - 32007"
definition ErrInternalError :: int where "ErrInternalError = - 32603"

record CallToolParams =
  ctp_Name :: string
  ctp_Arguments :: string
  ctp_Meta :: "json option"

record Session =
  ses_ID :: string
  ses_TenantID :: string
  ses_UserID :: string
  ses_SubjectToken :: string
  ses_CodeMode :: bool

record request_ctx =
  cx_Profile :: "Profile option"
  cx_VK :: "Resolved option"
  cx_ResumeApprovalID :: string

subsection \<open>The southbound manager\<close>

record AcquireRequest =
  aq_TenantID :: string
  aq_UserID :: string
  aq_SessionID :: string
  aq_ServerID :: string
  aq_AuthEnv :: "(string, string) amap"
  aq_AuthHeaders :: "(string, string) amap"

datatype call_error = CallRPC rpc_error | CallTransport string

type_synonym sb_client = "string \<Rightarrow> string \<Rightarrow> json option \<Rightarrow> (call_error, json) result"

datatype mgr_error = MgrStore store_error | MgrOther string

record Manager =
  mg_reg :: "(string \<Rightarrow> string \<Rightarrow> (store_error, registry_snapshot) result) option"
  mg_sup :: "(ServerSpec \<Rightarrow> AcquireRequest \<Rightarrow> (string, sb_client) result) option"

definition mgr_Get :: "Manager \<Rightarrow> string \<Rightarrow> string \<Rightarrow> (mgr_error, registry_snapshot) result" where
  "mgr_Get m tenantID serverID =
    (case mg_reg m of
       None \<Rightarrow> Inl (MgrOther ''manager: registry not configured'')
     | Some get \<Rightarrow> (case get tenantID serverID of Inl e \<Rightarrow> Inl (MgrStore e) | Inr snap \<Rightarrow> Inr snap))"

definition mgr_Acquire :: "Manager \<Rightarrow> AcquireRequest \<Rightarrow> (mgr_error, sb_client) result" where
  "mgr_Acquire m req =
    (case mg_sup m of
       None \<Rightarrow> Inl (MgrOther ''manager: supervisor not configured'')
     | Some spawn \<Rightarrow>
         res_bind (mgr_Get m (aq_TenantID req) (aq_ServerID req))
           (\<lambda>snap. if \<not> sn_Enabled snap then Inl (MgrOther ''manager: server is disabled'')
             else case spawn (sn_Spec snap) req of Inl e \<Rightarrow> Inl (MgrOther e) | Inr c \<Rightarrow> Inr c))"

subsection \<open>State of the gateway\<close>

record sb_call =
  sc_TenantID :: string
  sc_UserID :: string
  sc_SessionID :: string
  sc_ServerID :: string
  sc_Tool :: string
  sc_Arguments :: string
  sc_Headers :: "(string, string) amap"
  sc_Env :: "(string, string) amap"

record 'c gw_state =
  gs_flow :: "Flow option"
  gs_audit :: "Event list"
  gs_calls :: "sb_call list"
  gs_ticks :: "AcquireRequest list"
  gs_a2a :: "'c a2a_state"

record PolicyPipeline =
  pp_engine :: "Engine option"
  pp_injectors :: "(string, injector) amap option"
  pp_registry :: "(string \<Rightarrow> string \<Rightarrow> (store_error, registry_snapshot) result) option"

datatype pipe_error = EngineNotConfigured | EngineErr string | FlowErr appr_error | NilApprovalPanic

record 'c Dispatcher =
  dp_manager :: "Manager option"
  dp_policy :: "PolicyPipeline option"
  dp_emits :: bool
  dp_bridge :: "'c a2a_wire option"

text \<open>The surroundings of one call: clocks and effects of the approval wait, SHA-256, the measured
  duration, and the texts of the errors that end up in messages.\<close>

record call_env =
  ce_run :: run_env
  ce_sha :: "string \<Rightarrow> nat list"
  ce_dur :: duration
  ce_pipeText :: "pipe_error \<Rightarrow> string"
  ce_injText :: "inject_error \<Rightarrow> string"
  ce_mgrText :: "mgr_error \<Rightarrow> string"

definition sess_event :: "string \<Rightarrow> Session \<Rightarrow> (string, json) amap \<Rightarrow> Event" where
  "sess_event evType sess payload =
    \<lparr> ev_Type = evType, ev_TenantID = ses_TenantID sess, ev_SessionID = ses_ID sess, ev_UserID = ses_UserID sess,
      ev_Payload = payload \<rparr>"

definition gw_emit :: "Event \<Rightarrow> 'c gw_state \<Rightarrow> 'c gw_state" where
  "gw_emit e st = st \<lparr> gs_audit := gs_audit st @ [e] \<rparr>"

subsection \<open>policy_pipeline.go\<close>

record PipelineResult =
  pr_Decision :: Decision
  pr_Outcome :: Outcome
  pr_PrepTarget :: "PrepTarget option"
  pr_StructuredError :: "rpc_error option"

definition zero_Outcome :: Outcome where
  "zero_Outcome = \<lparr> oc_Approval = None, oc_Decision = '''' \<rparr>"

definition policyDeniedError :: "Decision \<Rightarrow> rpc_error" where
  "policyDeniedError dec =
    NewError ErrPolicyDenied ''policy denied''
      ([(''tool'', JStr (d_Tool dec)), (''reason'', JStr (d_Reason dec))]
       @ (if d_SkillID dec \<noteq> '''' then [(''skill_id'', JStr (d_SkillID dec))] else [])
       @ (if d_RiskClass dec \<noteq> '''' then [(''risk_class'', JStr (d_RiskClass dec))] else []))"

definition approvalRequiredError :: "Decision \<Rightarrow> Approval \<Rightarrow> rpc_error" where
  "approvalRequiredError dec a =
    NewError ErrApprovalRequired ''approval_required''
      ([(''tool'', JStr (d_Tool dec)), (''risk_class'', JStr (d_RiskClass dec)),
        (''approval_id'', JStr (apv_ID a)), (''expires_at'', JStr (rfc3339 (apv_ExpiresAt a))),
        (''args_summary'', JStr (apv_ArgsSummary a))]
       @ (if d_SkillID dec \<noteq> '''' then [(''skill_id'', JStr (d_SkillID dec))] else []))"

fun envKeys :: "string list \<Rightarrow> string list" where
  "envKeys [] = []"
| "envKeys (kv # env) =
    (let i = index_byte kv CHR ''='' in (if i \<ge> 0 then [take (nat i) kv] else []) @ envKeys env)"

definition redactScope :: "AuthSpec \<Rightarrow> (string, json) amap" where
  "redactScope a =
    [(''strategy'', JStr (au_Strategy a))]
    @ (if length (au_Env a) > 0 then [(''env_keys'', JArr (map JStr (envKeys (au_Env a))))] else [])
    @ (if length (au_Headers a) > 0 then [(''header_keys'', JArr (map JStr (akeys (au_Headers a))))] else [])
    @ (if au_SecretRef a \<noteq> '''' then [(''secret_ref'', JStr (au_SecretRef a))] else [])
    @ (case au_Exchange a of None \<Rightarrow> [] | Some ex \<Rightarrow> [(''audience'', JStr (ox_Audience ex))])"

datatype cred_error = NoStrategy string | ApplyFailed inject_error

definition empty_target :: PrepTarget where
  "empty_target = \<lparr> pt_Env = [], pt_Headers = [] \<rparr>"

definition resolveCredentials ::
  "call_env \<Rightarrow> PolicyPipeline \<Rightarrow> Session \<Rightarrow> Decision \<Rightarrow> 'c gw_state \<Rightarrow> (cred_error, PrepTarget) result \<times> 'c gw_state"
where
  "resolveCredentials env p sess dec st =
    (case pp_injectors p of None \<Rightarrow> (Inr empty_target, st)
     | Some injectors \<Rightarrow> (case pp_registry p of None \<Rightarrow> (Inr empty_target, st)
     | Some reg \<Rightarrow> (case reg (ses_TenantID sess) (d_ServerID dec) of Inl e \<Rightarrow> (Inr empty_target, st)
     | Inr snap \<Rightarrow> (case ss_Auth (sn_Spec snap) of None \<Rightarrow> (Inr empty_target, st)
     | Some auth \<Rightarrow>
         if au_Strategy auth = '''' then (Inr empty_target, st)
         else (case inject_Get injectors (au_Strategy auth) of
                 None \<Rightarrow> (Inl (NoStrategy (au_Strategy auth)), st)
               | Some i \<Rightarrow>
                   (case inj_Apply i \<lparr> pq_TenantID = ses_TenantID sess, pq_UserID = ses_UserID sess,
                          pq_SessionID = ses_ID sess, pq_SubjectToken = ses_SubjectToken sess,
                          pq_ServerSpec = Some (sn_Spec snap) \<rparr> empty_target of
                      Inl e \<Rightarrow> (Inl (ApplyFailed e),
                        gw_emit (sess_event EventCredentialExchangeNG sess
                          [(''strategy'', JStr (au_Strategy auth)), (''server_id'', JStr (ss_ID (sn_Spec snap))),
                           (''error'', JStr (ce_injText env e))]) st)
                    | Inr target \<Rightarrow> (Inr target,
                        gw_emit (sess_event EventCredentialInjected sess
                          [(''strategy'', JStr (au_Strategy auth)), (''server_id'', JStr (ss_ID (sn_Spec snap))),
                           (''scope'', JObj (redactScope auth))]) st)))))))"

definition cred_text :: "call_env \<Rightarrow> cred_error \<Rightarrow> string" where
  "cred_text env e =
    (case e of NoStrategy s \<Rightarrow> ''inject: no implementation registered for strategy '' @ s
     | ApplyFailed ie \<Rightarrow> ce_injText env ie)"

text \<open>The last stage, reached by an allowed call whose approval, if any, was granted.\<close>

definition pipe_credentials ::
  "call_env \<Rightarrow> PolicyPipeline \<Rightarrow> Session \<Rightarrow> Decision \<Rightarrow> Outcome \<Rightarrow> 'c gw_state \<Rightarrow> PipelineResult \<times> 'c gw_state"
where
  "pipe_credentials env p sess dec out st =
    (case resolveCredentials env p sess dec st of
       (Inl e, st') \<Rightarrow>
         (\<lparr> pr_Decision = dec \<lparr> d_Allow := False, d_Reason := ''credential_lookup_failed'' \<rparr>,
            pr_Outcome = out, pr_PrepTarget = None,
            pr_StructuredError = Some (NewError ErrPolicyDenied ''credential resolution failed''
              [(''tool'', JStr (d_Tool dec)), (''error'', JStr (cred_text env e))]) \<rparr>, st')
     | (Inr target, st') \<Rightarrow>
         (\<lparr> pr_Decision = dec, pr_Outcome = out, pr_PrepTarget = Some target, pr_StructuredError = None \<rparr>, st'))"

definition denied_result :: "Decision \<Rightarrow> Outcome \<Rightarrow> rpc_error \<Rightarrow> PipelineResult" where
  "denied_result dec out err =
    \<lparr> pr_Decision = dec, pr_Outcome = out, pr_PrepTarget = None, pr_StructuredError = Some err \<rparr>"

definition approval_gate ::
  "call_env \<Rightarrow> PolicyPipeline \<Rightarrow> request_ctx \<Rightarrow> Session \<Rightarrow> CallToolParams \<Rightarrow> Decision \<Rightarrow> Flow \<Rightarrow> 'c gw_state
    \<Rightarrow> (pipe_error, PipelineResult) result \<times> 'c gw_state"
where
  "approval_gate env p ctx sess params dec flow st =
    (case Run (ce_sha env) (ce_run env) (ses_TenantID sess) (ses_ID sess) (ses_UserID sess) dec
            \<lparr> cc_Tool = d_Tool dec, cc_Arguments = ctp_Arguments params, cc_SkillID = d_SkillID dec,
              cc_RiskClass = d_RiskClass dec, cc_ApprovalID = cx_ResumeApprovalID ctx \<rparr> flow of
       (Inl e, flow') \<Rightarrow> (Inl (FlowErr e), st \<lparr> gs_flow := Some flow' \<rparr>)
     | (Inr out, flow') \<Rightarrow>
         let st' = st \<lparr> gs_flow := Some flow' \<rparr> in
         if oc_FallbackRequired out
         then (case oc_Approval out of
                 Some a \<Rightarrow> (Inr (denied_result (dec \<lparr> d_Allow := False \<rparr>) out (approvalRequiredError dec a)), st')
               | None \<Rightarrow> (Inl NilApprovalPanic, st'))
         else if \<not> oc_Approved out
         then let reason = (if oc_Decision out = StatusExpired then ''approval_timeout'' else ''user_denied'');
                  dec' = dec \<lparr> d_Allow := False, d_Reason := reason \<rparr> in
              (Inr (denied_result dec' out (policyDeniedError dec')), st')
         else (case pipe_credentials env p sess dec out st' of (r, st'') \<Rightarrow> (Inr r, st'')))"

definition pipeline_Evaluate ::
  "call_env \<Rightarrow> PolicyPipeline \<Rightarrow> request_ctx \<Rightarrow> Session \<Rightarrow> CallToolParams \<Rightarrow> 'c gw_state
    \<Rightarrow> (pipe_error, PipelineResult) result \<times> 'c gw_state"
where
  "pipeline_Evaluate env p ctx sess params st =
    (case pp_engine p of
       None \<Rightarrow> (Inl EngineNotConfigured, st)
     | Some engine \<Rightarrow>
         (case EvaluateToolCall engine (ses_TenantID sess) (ses_ID sess) (ctp_Name params) of
            Inl e \<Rightarrow> (Inl (EngineErr e), st)
          | Inr dec \<Rightarrow>
              if \<not> d_Allow dec
              then (Inr (denied_result dec zero_Outcome (policyDeniedError dec)),
                    gw_emit (sess_event EventPolicyDenied sess
                      [(''tool'', JStr (d_Tool dec)), (''reason'', JStr (d_Reason dec))]) st)
              else
                let st1 = gw_emit (sess_event EventPolicyAllowed sess
                      [(''tool'', JStr (d_Tool dec)), (''risk_class'', JStr (d_RiskClass dec)),
                       (''requires_approval'', JBool (d_RequiresApproval dec)), (''skill_id'', JStr (d_SkillID dec))]) st in
                (case gs_flow st1 of
                   Some flow \<Rightarrow>
                     if d_RequiresApproval dec then approval_gate env p ctx sess params dec flow st1
                     else (case pipe_credentials env p sess dec zero_Outcome st1 of (r, st2) \<Rightarrow> (Inr r, st2))
                 | None \<Rightarrow> (case pipe_credentials env p sess dec zero_Outcome st1 of (r, st2) \<Rightarrow> (Inr r, st2)))))"

text \<open>The whole-execution gate of Code Mode.\<close>

definition ApproveExecution ::
  "call_env \<Rightarrow> Session \<Rightarrow> string \<Rightarrow> string \<Rightarrow> 'c gw_state \<Rightarrow> (appr_error, Outcome) result \<times> 'c gw_state"
where
  "ApproveExecution env sess args approvalID st =
    (case gs_flow st of
       None \<Rightarrow> (Inl FlowNotConfigured, st)
     | Some flow \<Rightarrow>
         (case Run (ce_sha env) (ce_run env) (ses_TenantID sess) (ses_ID sess) (ses_UserID sess)
                 (zero_Decision \<lparr> d_Tool := ''mcp.executeToolCode'', d_RiskClass := RiskExternalSideEffect,
                                  d_RequiresApproval := True \<rparr>)
                 \<lparr> cc_Tool = ''mcp.executeToolCode'', cc_Arguments = args, cc_SkillID = '''',
                   cc_RiskClass = RiskExternalSideEffect, cc_ApprovalID = approvalID \<rparr> flow of
            (r, flow') \<Rightarrow> (r, st \<lparr> gs_flow := Some flow' \<rparr>)))"

subsection \<open>agent_profile.go and vk_allowlist.go\<close>

definition filterToolsByProfile :: "Profile option \<Rightarrow> ('t \<Rightarrow> string) \<Rightarrow> 't list \<Rightarrow> 't list" where
  "filterToolsByProfile prof name_of tools =
    (case prof of None \<Rightarrow> tools
     | Some p \<Rightarrow> if p_IsDefault p then tools else filter (\<lambda>t. AllowsTool prof (name_of t)) tools)"

definition emitAgentProfileViolation :: "bool \<Rightarrow> Session \<Rightarrow> Profile \<Rightarrow> string \<Rightarrow> string \<Rightarrow> 'c gw_state \<Rightarrow> 'c gw_state" where
  "emitAgentProfileViolation on sess p tool reason st =
    (if \<not> on then st
     else gw_emit (sess_event EventAgentProfileViolation sess
       [(''profile_id'', JStr (p_ID p)), (''tool'', JStr tool), (''reason'', JStr reason)]) st)"

definition checkToolAllowedByProfile ::
  "bool \<Rightarrow> Profile option \<Rightarrow> Session \<Rightarrow> string \<Rightarrow> 'c gw_state \<Rightarrow> rpc_error option \<times> 'c gw_state"
where
  "checkToolAllowedByProfile on prof sess tool st =
    (case prof of
       None \<Rightarrow> (None, st)
     | Some p \<Rightarrow>
         if p_IsDefault p \<or> AllowsTool prof tool then (None, st)
         else (Some (NewError ErrAgentProfileViolation ''agent profile violation''
                 [(''profile_id'', JStr (p_ID p)), (''tool'', JStr tool), (''reason'', JStr ''tool_outside_profile'')]),
               emitAgentProfileViolation on sess p tool ''tool_outside_profile'' st))"

definition checkServerAllowedByVK ::
  "bool \<Rightarrow> Resolved option \<Rightarrow> Session \<Rightarrow> string \<Rightarrow> 'c gw_state \<Rightarrow> rpc_error option \<times> 'c gw_state"
where
  "checkServerAllowedByVK on vk sess serverID st =
    (case vk of
       None \<Rightarrow> (None, st)
     | Some v \<Rightarrow>
         if vk_AllowsServer v serverID then (None, st)
         else
           let data = [(''vk_id'', JStr (rv_VKID v)), (''server_id'', JStr serverID),
                       (''reason'', JStr ''server_outside_vk_allowlist'')] in
           (Some (NewError ErrVKScopeViolation ''virtual key scope violation'' data),
            if on then gw_emit (sess_event EventVKScopeViolation sess data) st else st))"

subsection \<open>a2a_bridge.go\<close>

text \<open>The part of the message that carries the arguments: an object becomes a data part, anything else
  a text part; \<open>parse\<close> is the JSON parser, \<open>None\<close> on malformed text.\<close>

definition mcpArgsToA2APart :: "(string \<Rightarrow> json option) \<Rightarrow> string \<Rightarrow> json" where
  "mcpArgsToA2APart parse args =
    (if length args = 0 then JObj [(''kind'', JStr ''data''), (''data'', JObj [])]
     else case parse args of
       Some (JObj m) \<Rightarrow> JObj [(''kind'', JStr ''data''), (''data'', JObj m)]
     | Some JNull \<Rightarrow> JObj [(''kind'', JStr ''data''), (''data'', JNull)]
     | _ \<Rightarrow> JObj [(''kind'', JStr ''text''), (''text'', JStr args)])"

definition bridge_message :: "(string \<Rightarrow> json option) \<Rightarrow> MCPToA2ABridge \<Rightarrow> CallToolParams \<Rightarrow> string \<Rightarrow> json" where
  "bridge_message parse bridge params reqID =
    JObj [(''message'', JObj [(''role'', JStr ''user''),
            (''messageId'', JStr (if reqID \<noteq> '''' then ''mcp-bridge-'' @ reqID else ''mcp-bridge'')),
            (''kind'', JStr ''message''), (''parts'', JArr [mcpArgsToA2APart parse (ctp_Arguments params)])]),
          (''metadata'', JObj [(''a2a_task'', JStr (m2a_A2ATask bridge)), (''bridged_from_mcp_tool'', JStr (ctp_Name params))])]"

definition emitBridge ::
  "bool \<Rightarrow> Session \<Rightarrow> string \<Rightarrow> MCPToA2ABridge \<Rightarrow> duration \<Rightarrow> a2a_error option \<Rightarrow> 'c gw_state \<Rightarrow> 'c gw_state"
where
  "emitBridge on sess mcpTool bridge dur aerr st =
    (if \<not> on then st
     else gw_emit (sess_event (if aerr = None then EventA2ADispatch else EventToolCallFailed) sess
       ([(''mcp_tool'', JStr mcpTool), (''a2a_peer'', JStr (m2a_A2APeer bridge)), (''a2a_task'', JStr (m2a_A2ATask bridge)),
         (''duration_ms'', JNum (dec_int (dur div millisecond)))]
        @ (case aerr of None \<Rightarrow> [] | Some e \<Rightarrow> [(''error_code'', JNum (dec_int (ae_Code e)))]))) st)"

definition bridged_result :: "(json \<Rightarrow> string) \<Rightarrow> json \<Rightarrow> json" where
  "bridged_result print raw =
    JObj [(''content'', JArr [JObj [(''type'', JStr ''text''), (''text'', JStr (print raw))]]), (''structuredContent'', raw)]"

record json_text =
  jt_parse :: "string \<Rightarrow> json option"
  jt_print :: "json \<Rightarrow> string"

text \<open>\<open>None\<close> when no bridge applies, otherwise the outcome of the bridged call.\<close>

definition tryMCPToA2ABridge ::
  "json_text \<Rightarrow> call_env \<Rightarrow> 'c Dispatcher \<Rightarrow> request_ctx \<Rightarrow> Session \<Rightarrow> CallToolParams \<Rightarrow> string \<Rightarrow> 'c gw_state
    \<Rightarrow> (rpc_error, json) result option \<times> 'c gw_state"
where
  "tryMCPToA2ABridge jt env d ctx sess params reqID st =
    (case dp_bridge d of None \<Rightarrow> (None, st)
     | Some w \<Rightarrow> (case BridgeForMCPTool (cx_Profile ctx) (ctp_Name params) of None \<Rightarrow> (None, st)
     | Some bridge \<Rightarrow> (case cx_Profile ctx of None \<Rightarrow> (None, st)
     | Some p \<Rightarrow>
         let task = m2a_A2APeer bridge @ ''.'' @ m2a_A2ATask bridge in
         if \<not> p_IsDefault p \<and> \<not> AllowsA2ATask (cx_Profile ctx) task
         then (Some (Inl (NewError ErrAgentProfileViolation ''agent profile violation''
                 [(''profile_id'', JStr (p_ID p)), (''a2a_task'', JStr task), (''reason'', JStr ''a2a_task_outside_profile'')])),
               emitAgentProfileViolation (dp_emits d) sess p task ''a2a_task_outside_profile'' st)
         else (case SendMessageByPeerName w (cx_Profile ctx) (ses_TenantID sess) (m2a_A2APeer bridge)
                      (bridge_message (jt_parse jt) bridge params reqID) (gs_a2a st) of
                 (Inl aerr, a2a) \<Rightarrow>
                   (Some (Inl (NewError ErrUpstreamUnavailable (ae_Message aerr)
                      [(''a2a_code'', JNum (dec_int (ae_Code aerr))), (''peer'', JStr (m2a_A2APeer bridge)),
                       (''a2a_task'', JStr (m2a_A2ATask bridge))])),
                    emitBridge (dp_emits d) sess (ctp_Name params) bridge (ce_dur env) (Some aerr) (st \<lparr> gs_a2a := a2a \<rparr>))
               | (Inr raw, a2a) \<Rightarrow>
                   (Some (Inr (bridged_result (jt_print jt) raw)),
                    emitBridge (dp_emits d) sess (ctp_Name params) bridge (ce_dur env) None (st \<lparr> gs_a2a := a2a \<rparr>))))))"

subsection \<open>dispatcher.go: the governed envelope of a tool call\<close>

definition extractProgressToken :: "json option \<Rightarrow> json option" where
  "extractProgressToken meta =
    (case meta of Some (JObj kvs) \<Rightarrow> aget (unmarshal_map meta) ''progressToken'' | _ \<Rightarrow> None)"

definition emitToolCall ::
  "bool \<Rightarrow> Session \<Rightarrow> string \<Rightarrow> CallToolParams \<Rightarrow> string \<Rightarrow> PipelineResult option \<Rightarrow> duration \<Rightarrow> string option
    \<Rightarrow> 'c gw_state \<Rightarrow> 'c gw_state"
where
  "emitToolCall on sess evType params serverID prep dur err st =
    (if \<not> on then st
     else gw_emit (sess_event evType sess
       ([(''tool'', JStr (ctp_Name params)), (''server_id'', JStr serverID)]
        @ (case prep of None \<Rightarrow> []
           | Some pr \<Rightarrow>
               (if d_SkillID (pr_Decision pr) \<noteq> '''' then [(''skill_id'', JStr (d_SkillID (pr_Decision pr)))] else [])
               @ (if d_RiskClass (pr_Decision pr) \<noteq> '''' then [(''risk_class'', JStr (d_RiskClass (pr_Decision pr)))] else []))
        @ (if dur > 0 then [(''duration_ms'', JNum (dec_int (dur div millisecond)))] else [])
        @ (case err of None \<Rightarrow> [] | Some e \<Rightarrow> [(''error'', JStr e)]))) st)"

definition acquire_request :: "Session \<Rightarrow> string \<Rightarrow> PrepTarget option \<Rightarrow> AcquireRequest" where
  "acquire_request sess serverID target =
    \<lparr> aq_TenantID = ses_TenantID sess, aq_UserID = ses_UserID sess, aq_SessionID = ses_ID sess, aq_ServerID = serverID,
      aq_AuthEnv = (case target of None \<Rightarrow> [] | Some tg \<Rightarrow> pt_Env tg),
      aq_AuthHeaders = (case target of None \<Rightarrow> [] | Some tg \<Rightarrow> pt_Headers tg) \<rparr>"

definition server_data :: "string \<Rightarrow> (string, json) amap" where
  "server_data serverID = [(''server_id'', JStr serverID)]"

text \<open>From the manager lookup on: acquire a client, call it, account for the call.\<close>

definition southbound_call ::
  "call_env \<Rightarrow> 'c Dispatcher \<Rightarrow> Manager \<Rightarrow> Session \<Rightarrow> CallToolParams \<Rightarrow> string \<Rightarrow> string \<Rightarrow> PipelineResult option
    \<Rightarrow> 'c gw_state \<Rightarrow> (rpc_error, json) result \<times> 'c gw_state"
where
  "southbound_call env d m sess params serverID toolName prep st =
    (case mgr_Get m (ses_TenantID sess) serverID of
       Inl e \<Rightarrow>
         if e = MgrStore ErrNotFound then (Inl (NewError ErrToolNotEnabled ''unknown server'' (server_data serverID)), st)
         else (Inl (NewError ErrUpstreamUnavailable (ce_mgrText env e) (server_data serverID)), st)
     | Inr snap \<Rightarrow>
         let target = (case prep of None \<Rightarrow> None | Some pr \<Rightarrow> pr_PrepTarget pr);
             req = acquire_request sess serverID target in
         (case mgr_Acquire m req of
            Inl e \<Rightarrow> (Inl (NewError ErrUpstreamUnavailable (ce_mgrText env e) (server_data serverID)), st)
          | Inr client \<Rightarrow>
              let st1 = emitToolCall (dp_emits d) sess EventToolCallStart params serverID prep 0 None st;
                  st2 = st1 \<lparr> gs_calls := gs_calls st1 @
                    [\<lparr> sc_TenantID = ses_TenantID sess, sc_UserID = ses_UserID sess, sc_SessionID = ses_ID sess,
                       sc_ServerID = serverID, sc_Tool = toolName, sc_Arguments = ctp_Arguments params,
                       sc_Headers = aq_AuthHeaders req, sc_Env = aq_AuthEnv req \<rparr>] \<rparr> in
              (case client toolName (ctp_Arguments params) (extractProgressToken (ctp_Meta params)) of
                 Inl (CallRPC pe) \<Rightarrow>
                   (Inl pe, emitToolCall (dp_emits d) sess EventToolCallFailed params serverID prep (ce_dur env) (Some (rp_Message pe)) st2)
               | Inl (CallTransport msg) \<Rightarrow>
                   (Inl (NewError ErrUpstreamUnavailable msg (server_data serverID)),
                    emitToolCall (dp_emits d) sess EventToolCallFailed params serverID prep (ce_dur env) (Some msg) st2)
               | Inr res \<Rightarrow>
                   (Inr res,
                    (let st3 = emitToolCall (dp_emits d) sess EventToolCallComplete params serverID prep (ce_dur env) None st2 in
                     st3 \<lparr> gs_ticks := gs_ticks st3 @ [acquire_request sess serverID None] \<rparr>)))))"

text \<open>From the manager check on: policy, approval and credentials, then the southbound stage.\<close>

definition policy_stage ::
  "call_env \<Rightarrow> 'c Dispatcher \<Rightarrow> request_ctx \<Rightarrow> Session \<Rightarrow> CallToolParams \<Rightarrow> string \<Rightarrow> string \<Rightarrow> 'c gw_state
    \<Rightarrow> (rpc_error, json) result \<times> 'c gw_state"
where
  "policy_stage env d ctx sess params serverID toolName st =
    (case dp_manager d of
       None \<Rightarrow> (Inl (NewError ErrUpstreamUnavailable ''manager not configured'' []), st)
     | Some m \<Rightarrow>
         (case dp_policy d of
            None \<Rightarrow> southbound_call env d m sess params serverID toolName None st
          | Some p \<Rightarrow>
              (case pipeline_Evaluate env p ctx sess params st of
                 (Inl e, st') \<Rightarrow> (Inl (NewError ErrInternalError (ce_pipeText env e) []), st')
               | (Inr prep, st') \<Rightarrow>
                   (case pr_StructuredError prep of
                      Some serr \<Rightarrow> (Inl serr, st')
                    | None \<Rightarrow> southbound_call env d m sess params serverID toolName (Some prep) st'))))"

definition dispatchToolCall ::
  "json_text \<Rightarrow> call_env \<Rightarrow> 'c Dispatcher \<Rightarrow> request_ctx \<Rightarrow> Session \<Rightarrow> CallToolParams \<Rightarrow> string \<Rightarrow> 'c gw_state
    \<Rightarrow> (rpc_error, json) result \<times> 'c gw_state"
where
  "dispatchToolCall jt env d ctx sess params reqID st =
    (case SplitTool (ctp_Name params) of
       None \<Rightarrow> (Inl (NewError ErrToolNotEnabled ''tool name must be qualified as <server>.<tool>''
                 [(''name'', JStr (ctp_Name params))]), st)
     | Some (serverID, toolName) \<Rightarrow>
         (case tryMCPToA2ABridge jt env d ctx sess params reqID st of
            (Some res, st1) \<Rightarrow> (res, st1)
          | (None, st1) \<Rightarrow>
              (case checkToolAllowedByProfile (dp_emits d) (cx_Profile ctx) sess (ctp_Name params) st1 of
                 (Some perr, st2) \<Rightarrow> (Inl perr, st2)
               | (None, st2) \<Rightarrow>
                   (case checkServerAllowedByVK (dp_emits d) (cx_VK ctx) sess serverID st2 of
                      (Some perr, st3) \<Rightarrow> (Inl perr, st3)
                    | (None, st3) \<Rightarrow>
                        policy_stage env d ctx sess params serverID toolName st3))))"

definition isCodeModeMetaTool :: "string \<Rightarrow> bool" where
  "isCodeModeMetaTool name =
    (name \<in> set [''mcp.listToolFiles'', ''mcp.readToolFile'', ''mcp.getToolDocs'', ''mcp.executeToolCode''])"

subsection \<open>What each stage leaves alone\<close>

lemma gw_emit_sel [simp]:
  "gs_flow (gw_emit e st) = gs_flow st" "gs_calls (gw_emit e st) = gs_calls st"
  "gs_ticks (gw_emit e st) = gs_ticks st" "gs_a2a (gw_emit e st) = gs_a2a st"
  "gs_audit (gw_emit e st) = gs_audit st @ [e]"
  by (simp_all add: gw_emit_def)

definition same_egress :: "'c gw_state \<Rightarrow> 'c gw_state \<Rightarrow> bool" where
  "same_egress st st' = (gs_calls st' = gs_calls st \<and> gs_a2a st' = gs_a2a st \<and> gs_ticks st' = gs_ticks st)"

lemma same_egress_simps [simp]:
  "same_egress st st" "same_egress st (gw_emit e st') = same_egress st st'"
  "same_egress st (st' \<lparr> gs_flow := f \<rparr>) = same_egress st st'"
  by (simp_all add: same_egress_def)

lemma same_egress_trans: "same_egress a b \<Longrightarrow> same_egress b c \<Longrightarrow> same_egress a c"
  by (simp add: same_egress_def)

lemma snd_case_keep [simp]: "snd (case x of (r, s) \<Rightarrow> (f r, s)) = snd x"
  by (cases x) simp

lemma profile_gate_cases:
  obtains (refused) e where "fst (checkToolAllowedByProfile on prof sess tool st) = Some e"
      "same_egress st (snd (checkToolAllowedByProfile on prof sess tool st))"
  | (passed) "checkToolAllowedByProfile on prof sess tool st = (None, st)" "AllowsTool prof tool"
proof (cases prof)
  case None
  then show thesis by (intro passed) (simp_all add: checkToolAllowedByProfile_def)
next
  case (Some p)
  then show thesis
    by (cases "p_IsDefault p \<or> AllowsTool prof tool")
      (auto intro: passed refused simp: checkToolAllowedByProfile_def emitAgentProfileViolation_def)
qed

definition vk_admits :: "Resolved option \<Rightarrow> string \<Rightarrow> bool" where
  "vk_admits vk serverID = (case vk of None \<Rightarrow> True | Some v \<Rightarrow> vk_AllowsServer v serverID)"

lemma vk_gate_cases:
  obtains (refused) e where "fst (checkServerAllowedByVK on vk sess sv st) = Some e"
      "same_egress st (snd (checkServerAllowedByVK on vk sess sv st))"
  | (passed) "checkServerAllowedByVK on vk sess sv st = (None, st)" "vk_admits vk sv"
proof (cases vk)
  case None
  then show thesis by (intro passed) (simp_all add: checkServerAllowedByVK_def vk_admits_def)
next
  case (Some v)
  then show thesis
    by (cases "vk_AllowsServer v sv")
      (auto intro: passed refused simp: checkServerAllowedByVK_def vk_admits_def Let_def)
qed

lemma resolveCredentials_egress: "same_egress st (snd (resolveCredentials env p sess dec st))"
  by (simp add: resolveCredentials_def split: option.split sum.split)

lemma resolveCredentials_flow: "gs_flow (snd (resolveCredentials env p sess dec st)) = gs_flow st"
  by (simp add: resolveCredentials_def split: option.split sum.split)

lemma pipe_credentials_egress: "same_egress st (snd (pipe_credentials env p sess dec out st))"
  using resolveCredentials_egress [of st env p sess dec]
  by (auto simp: pipe_credentials_def split: prod.split sum.split)

lemma approval_gate_egress: "same_egress st (snd (approval_gate env p ctx sess params dec flow st))"
proof -
  obtain r flow' where run: "Run (ce_sha env) (ce_run env) (ses_TenantID sess) (ses_ID sess) (ses_UserID sess) dec
      \<lparr> cc_Tool = d_Tool dec, cc_Arguments = ctp_Arguments params, cc_SkillID = d_SkillID dec,
        cc_RiskClass = d_RiskClass dec, cc_ApprovalID = cx_ResumeApprovalID ctx \<rparr> flow = (r, flow')"
    by fastforce
  have "same_egress st (snd (pipe_credentials env p sess dec out (st \<lparr> gs_flow := Some flow' \<rparr>)))" for out
    by (rule same_egress_trans [OF _ pipe_credentials_egress]) simp
  then show ?thesis
    by (auto simp: approval_gate_def run Let_def split: sum.split option.split)
qed

lemma pipeline_egress: "same_egress st (snd (pipeline_Evaluate env p ctx sess params st))"
proof -
  have "same_egress st (snd (pipe_credentials env p sess dec out (gw_emit e st)))" for dec out e
    by (rule same_egress_trans [OF _ pipe_credentials_egress]) simp
  moreover have "same_egress st (snd (approval_gate env p ctx sess params dec flow (gw_emit e st)))" for dec flow e
    by (rule same_egress_trans [OF _ approval_gate_egress]) simp
  ultimately show ?thesis
    by (auto simp: pipeline_Evaluate_def Let_def split: sum.split option.split)
qed

subsection \<open>What a passed pipeline guarantees\<close>

definition call_context :: "request_ctx \<Rightarrow> CallToolParams \<Rightarrow> Decision \<Rightarrow> CallContext" where
  "call_context ctx params dec =
    \<lparr> cc_Tool = d_Tool dec, cc_Arguments = ctp_Arguments params, cc_SkillID = d_SkillID dec,
      cc_RiskClass = d_RiskClass dec, cc_ApprovalID = cx_ResumeApprovalID ctx \<rparr>"

text \<open>An approval is granted when none is needed, when no flow is configured, or when the flow run for
  this call answered \<open>approved\<close>.\<close>

definition approval_granted ::
  "call_env \<Rightarrow> request_ctx \<Rightarrow> Session \<Rightarrow> CallToolParams \<Rightarrow> Decision \<Rightarrow> Flow option \<Rightarrow> bool"
where
  "approval_granted env ctx sess params dec flow =
    (\<not> d_RequiresApproval dec
     \<or> (case flow of None \<Rightarrow> True
        | Some f \<Rightarrow> \<exists>out f'. Run (ce_sha env) (ce_run env) (ses_TenantID sess) (ses_ID sess) (ses_UserID sess) dec
              (call_context ctx params dec) f = (Inr out, f') \<and> oc_Approved out))"

lemma pipe_credentials_passed:
  assumes "pipe_credentials env p sess dec out st = (r, st')" and "pr_StructuredError r = None"
  shows "\<exists>target. resolveCredentials env p sess dec st = (Inr target, st') \<and> pr_PrepTarget r = Some target"
  using assms by (auto simp: pipe_credentials_def split: prod.splits sum.splits)

text \<open>Credentials depend on the pipeline, the session and the decision only.\<close>

lemma resolveCredentials_state:
  "fst (resolveCredentials env p sess dec st) = fst (resolveCredentials env p sess dec st2)"
  by (simp add: resolveCredentials_def split: option.split sum.split)

lemma approval_gate_passed:
  assumes "approval_gate env p ctx sess params dec flow st = (Inr r, st')" and "pr_StructuredError r = None"
  shows "(\<exists>out f'. Run (ce_sha env) (ce_run env) (ses_TenantID sess) (ses_ID sess) (ses_UserID sess) dec
           (call_context ctx params dec) flow = (Inr out, f') \<and> oc_Approved out)
    \<and> (\<exists>target. fst (resolveCredentials env p sess dec st) = Inr target \<and> pr_PrepTarget r = Some target)"
proof -
  obtain ro flow' where run: "Run (ce_sha env) (ce_run env) (ses_TenantID sess) (ses_ID sess) (ses_UserID sess) dec
      (call_context ctx params dec) flow = (ro, flow')"
    by fastforce
  note gate = assms(1) [unfolded approval_gate_def, folded call_context_def, unfolded run]
  from gate obtain out where out: "ro = Inr out" by (cases ro) auto
  have "oc_Approved out" and "pipe_credentials env p sess dec out (st \<lparr> gs_flow := Some flow' \<rparr>) = (r, st')"
    using gate assms(2) out
    by (auto simp: Let_def denied_result_def split: if_splits option.splits prod.splits)
  with run out pipe_credentials_passed [OF _ assms(2)] show ?thesis
    using resolveCredentials_state [of env p sess dec st "st \<lparr> gs_flow := Some flow' \<rparr>"] by fastforce
qed

lemma pipeline_passed:
  assumes "pipeline_Evaluate env p ctx sess params st = (Inr r, st')" and "pr_StructuredError r = None"
  obtains engine dec target where "pp_engine p = Some engine"
    "EvaluateToolCall engine (ses_TenantID sess) (ses_ID sess) (ctp_Name params) = Inr dec" "d_Allow dec"
    "approval_granted env ctx sess params dec (gs_flow st)"
    "fst (resolveCredentials env p sess dec st) = Inr target" "pr_PrepTarget r = Some target"
proof -
  obtain engine where e: "pp_engine p = Some engine"
    using assms(1) by (auto simp: pipeline_Evaluate_def split: option.splits)
  obtain dec where dec: "EvaluateToolCall engine (ses_TenantID sess) (ses_ID sess) (ctp_Name params) = Inr dec"
    using assms(1) e by (auto simp: pipeline_Evaluate_def split: sum.splits)
  have allow: "d_Allow dec"
    using assms e dec by (auto simp: pipeline_Evaluate_def denied_result_def split: if_splits)
  define st1 where "st1 = gw_emit (sess_event EventPolicyAllowed sess
      [(''tool'', JStr (d_Tool dec)), (''risk_class'', JStr (d_RiskClass dec)),
       (''requires_approval'', JBool (d_RequiresApproval dec)), (''skill_id'', JStr (d_SkillID dec))]) st"
  have flow: "gs_flow st1 = gs_flow st" by (simp add: st1_def)
  note run = assms(1) [unfolded pipeline_Evaluate_def e option.case dec sum.case Let_def, folded st1_def, unfolded flow]
  note same = resolveCredentials_state [of env p sess dec st st1]
  show thesis
  proof (cases "d_RequiresApproval dec \<and> gs_flow st \<noteq> None")
    case True
    then obtain f where f: "gs_flow st = Some f" by blast
    with run True allow have "approval_gate env p ctx sess params dec f st1 = (Inr r, st')" by simp
    from approval_gate_passed [OF this assms(2)] f same that [OF e dec allow] show thesis
      by (auto simp: approval_granted_def)
  next
    case False
    with run allow have "pipe_credentials env p sess dec zero_Outcome st1 = (r, st')"
      by (auto split: option.splits prod.splits)
    from pipe_credentials_passed [OF this assms(2)] False same that [OF e dec allow] show thesis
      by (auto simp: approval_granted_def split: option.splits)
  qed
qed

end
