(* ===== verification/Gateway_Safety.thy ===== *)
theory Gateway_Safety
  imports Gateway
begin

text \<open>
  What the gates of the dispatcher achieve together, over single calls and over
  whole histories of calls: which tool calls can reach a southbound server,
  which bridged calls can reach an A2A peer, and that every southbound call is
  on the audit record.
\<close>

declare AllowsA2ATask.simps [simp del] AllowsTool.simps [simp del]

subsection \<open>One tool call\<close>

text \<open>All gates in conjunction, in the state before the call.\<close>

definition pipeline_admits ::
  "call_env \<Rightarrow> PolicyPipeline option \<Rightarrow> request_ctx \<Rightarrow> Session \<Rightarrow> CallToolParams \<Rightarrow> Flow option \<Rightarrow> PrepTarget option \<Rightarrow> bool"
where
  "pipeline_admits env pol ctx sess params flow target =
    (case pol of
       None \<Rightarrow> target = None
     | Some p \<Rightarrow> \<exists>engine dec tg. pp_engine p = Some engine
         \<and> EvaluateToolCall engine (ses_TenantID sess) (ses_ID sess) (ctp_Name params) = Inr dec \<and> d_Allow dec
         \<and> approval_granted env ctx sess params dec flow
         \<and> (\<forall>st :: unit gw_state. fst (resolveCredentials env p sess dec st) = Inr tg) \<and> target = Some tg)"

definition server_open :: "Manager option \<Rightarrow> string \<Rightarrow> string \<Rightarrow> bool" where
  "server_open mgr t sv = (\<exists>m snap. mgr = Some m \<and> mgr_Get m t sv = Inr snap \<and> sn_Enabled snap)"

definition call_admitted ::
  "call_env \<Rightarrow> 'c Dispatcher \<Rightarrow> request_ctx \<Rightarrow> Session \<Rightarrow> CallToolParams \<Rightarrow> Flow option \<Rightarrow> sb_call \<Rightarrow> bool"
where
  "call_admitted env d ctx sess params flow c =
    (\<exists>target. SplitTool (ctp_Name params) = Some (sc_ServerID c, sc_Tool c)
     \<and> sc_TenantID c = ses_TenantID sess \<and> sc_Arguments c = ctp_Arguments params
     \<and> AllowsTool (cx_Profile ctx) (ctp_Name params)
     \<and> vk_admits (cx_VK ctx) (sc_ServerID c)
     \<and> pipeline_admits env (dp_policy d) ctx sess params flow target
     \<and> sc_Headers c = (case target of None \<Rightarrow> [] | Some tg \<Rightarrow> pt_Headers tg)
     \<and> server_open (dp_manager d) (ses_TenantID sess) (sc_ServerID c))"

lemma emitToolCall_sel [simp]:
  "gs_calls (emitToolCall on sess ev params sv prep dur err st) = gs_calls st"
  "gs_flow (emitToolCall on sess ev params sv prep dur err st) = gs_flow st"
  "gs_a2a (emitToolCall on sess ev params sv prep dur err st) = gs_a2a st"
  "gs_ticks (emitToolCall on sess ev params sv prep dur err st) = gs_ticks st"
  by (simp_all add: emitToolCall_def)

lemma mgr_Acquire_enabled:
  "mgr_Acquire m req = Inr c \<Longrightarrow> \<exists>snap. mgr_Get m (aq_TenantID req) (aq_ServerID req) = Inr snap \<and> sn_Enabled snap"
  by (auto simp: mgr_Acquire_def split: option.splits if_splits)

text \<open>The last stage either refuses without a trace or makes exactly one call.\<close>

lemma southbound_call_cases:
  obtains
    (refused) e where "southbound_call env d m sess params sv tool prep st = (Inl e, st)"
  | (called) c snap where "mgr_Get m (ses_TenantID sess) sv = Inr snap" "sn_Enabled snap"
      "gs_calls (snd (southbound_call env d m sess params sv tool prep st)) = gs_calls st @ [c]"
      "gs_a2a (snd (southbound_call env d m sess params sv tool prep st)) = gs_a2a st"
      "sc_TenantID c = ses_TenantID sess" "sc_ServerID c = sv" "sc_Tool c = tool" "sc_Arguments c = ctp_Arguments params"
      "sc_Headers c = (case prep of None \<Rightarrow> [] | Some pr \<Rightarrow> case pr_PrepTarget pr of None \<Rightarrow> [] | Some tg \<Rightarrow> pt_Headers tg)"
proof (cases "mgr_Get m (ses_TenantID sess) sv")
  case (Inl e)
  then have "\<exists>e. southbound_call env d m sess params sv tool prep st = (Inl e, st)"
    by (simp add: southbound_call_def)
  then show thesis using refused by blast
next
  case (Inr snap)
  define req where "req = acquire_request sess sv (case prep of None \<Rightarrow> None | Some pr \<Rightarrow> pr_PrepTarget pr)"
  note call = southbound_call_def [of env d m sess params sv tool prep st, unfolded Inr sum.case Let_def, folded req_def]
  show thesis
  proof (cases "mgr_Acquire m req")
    case Inl: (Inl e)
    show thesis by (rule refused) (simp add: call Inl)
  next
    case client: (Inr client)
    define c where "c = \<lparr> sc_TenantID = ses_TenantID sess, sc_UserID = ses_UserID sess, sc_SessionID = ses_ID sess,
        sc_ServerID = sv, sc_Tool = tool, sc_Arguments = ctp_Arguments params,
        sc_Headers = aq_AuthHeaders req, sc_Env = aq_AuthEnv req \<rparr>"
    have "gs_calls (snd (southbound_call env d m sess params sv tool prep st)) = gs_calls st @ [c]"
      "gs_a2a (snd (southbound_call env d m sess params sv tool prep st)) = gs_a2a st"
      by (simp_all add: call client c_def split: sum.split call_error.split)
    moreover have "sn_Enabled snap"
      using mgr_Acquire_enabled [OF client] Inr by (auto simp: req_def acquire_request_def)
    ultimately show thesis
      using Inr by (intro called [of snap c]) (auto simp: c_def req_def acquire_request_def split: option.split)
  qed
qed

lemma bridge_calls: "gs_calls (snd (tryMCPToA2ABridge jt env d ctx sess params reqID st)) = gs_calls st"
  by (simp add: tryMCPToA2ABridge_def emitBridge_def emitAgentProfileViolation_def Let_def
      split: option.split prod.split sum.split)

lemma bridge_none: "tryMCPToA2ABridge jt env d ctx sess params reqID st = (None, st') \<Longrightarrow> st' = st"
  by (auto simp: tryMCPToA2ABridge_def Let_def split: option.splits prod.splits sum.splits if_splits)

text \<open>The policy stage answers by itself, or hands over to the southbound stage with everything granted.\<close>

lemma policy_stage_cases:
  obtains
    (gated) e where "fst (policy_stage env d ctx sess params sv tool st) = Inl e"
      "same_egress st (snd (policy_stage env d ctx sess params sv tool st))"
  | (forwarded) m prep st4 where "dp_manager d = Some m" "same_egress st st4"
      "pipeline_admits env (dp_policy d) ctx sess params (gs_flow st)
         (case prep of None \<Rightarrow> None | Some pr \<Rightarrow> pr_PrepTarget pr)"
      "policy_stage env d ctx sess params sv tool st = southbound_call env d m sess params sv tool prep st4"
proof (cases "dp_manager d")
  case None
  then show thesis by (intro gated) (auto simp: policy_stage_def)
next
  case m: (Some m)
  note ps = policy_stage_def [of env d ctx sess params sv tool st, unfolded m option.case]
  show thesis
  proof (cases "dp_policy d")
    case None
    then show thesis by (intro forwarded [OF m, of st None]) (simp_all add: ps pipeline_admits_def)
  next
    case p: (Some p)
    obtain r st4 where ev: "pipeline_Evaluate env p ctx sess params st = (r, st4)" by fastforce
    have eg: "same_egress st st4" using pipeline_egress [of st env p ctx sess params] ev by simp
    note ps = ps [unfolded p option.case ev prod.case]
    show thesis
    proof (cases "\<exists>prep. r = Inr prep \<and> pr_StructuredError prep = None")
      case True
      then obtain prep where prep: "r = Inr prep" "pr_StructuredError prep = None" by blast
      obtain engine dec target where pass: "pp_engine p = Some engine"
          "EvaluateToolCall engine (ses_TenantID sess) (ses_ID sess) (ctp_Name params) = Inr dec" "d_Allow dec"
          "approval_granted env ctx sess params dec (gs_flow st)"
          "fst (resolveCredentials env p sess dec st) = Inr target" "pr_PrepTarget prep = Some target"
        by (rule pipeline_passed [OF ev [unfolded prep(1)] prep(2)])
      have "fst (resolveCredentials env p sess dec st') = Inr target" for st' :: "unit gw_state"
        using pass(5) resolveCredentials_state [of env p sess dec st st'] by simp
      then show thesis
        by (intro forwarded [OF m eg, of "Some prep"]) (use pass prep p ps in \<open>auto simp: pipeline_admits_def\<close>)
    next
      case False
      with eg show thesis by (cases r) (auto intro!: gated simp: ps split: option.splits)
    qed
  qed
qed

text \<open>The stages of \<open>dispatchToolCall\<close>.\<close>

lemma dispatch_cases:
  obtains
    (unqualified) e where "dispatchToolCall jt env d ctx sess params reqID st = (Inl e, st)"
  | (bridged) res st1 where "tryMCPToA2ABridge jt env d ctx sess params reqID st = (Some res, st1)"
      "dispatchToolCall jt env d ctx sess params reqID st = (res, st1)"
  | (gated) e where "fst (dispatchToolCall jt env d ctx sess params reqID st) = Inl e"
      "same_egress st (snd (dispatchToolCall jt env d ctx sess params reqID st))"
  | (admitted) sv tool where "SplitTool (ctp_Name params) = Some (sv, tool)"
      "AllowsTool (cx_Profile ctx) (ctp_Name params)" "vk_admits (cx_VK ctx) sv"
      "dispatchToolCall jt env d ctx sess params reqID st = policy_stage env d ctx sess params sv tool st"
proof (cases "SplitTool (ctp_Name params)")
  case None
  then show thesis by (intro unqualified) (auto simp: dispatchToolCall_def)
next
  case (Some svt)
  obtain sv tool where svt: "SplitTool (ctp_Name params) = Some (sv, tool)" using Some by (cases svt) auto
  obtain br st1 where br: "tryMCPToA2ABridge jt env d ctx sess params reqID st = (br, st1)" by fastforce
  note dc = dispatchToolCall_def [of jt env d ctx sess params reqID st, unfolded svt option.case prod.case br]
  show thesis
  proof (cases br)
    case Some: (Some res)
    with br dc show thesis by (intro bridged) simp_all
  next
    case None
    then have "st1 = st" using br bridge_none by blast
    note dc = dc [unfolded None option.case this]
    show thesis
    proof (rule profile_gate_cases [of "dp_emits d" "cx_Profile ctx" sess "ctp_Name params" st])
      fix e assume "fst (checkToolAllowedByProfile (dp_emits d) (cx_Profile ctx) sess (ctp_Name params) st) = Some e"
        and "same_egress st (snd (checkToolAllowedByProfile (dp_emits d) (cx_Profile ctx) sess (ctp_Name params) st))"
      then show thesis by (intro gated [of e]) (auto simp: dc split: prod.split)
    next
      assume prof: "checkToolAllowedByProfile (dp_emits d) (cx_Profile ctx) sess (ctp_Name params) st = (None, st)"
        "AllowsTool (cx_Profile ctx) (ctp_Name params)"
      note dc = dc [unfolded prof(1) prod.case option.case]
      show thesis
      proof (rule vk_gate_cases [of "dp_emits d" "cx_VK ctx" sess sv st])
        fix e assume "fst (checkServerAllowedByVK (dp_emits d) (cx_VK ctx) sess sv st) = Some e"
          and "same_egress st (snd (checkServerAllowedByVK (dp_emits d) (cx_VK ctx) sess sv st))"
        then show thesis by (intro gated [of e]) (auto simp: dc split: prod.split)
      qed (rule admitted [OF svt prof(2)], simp_all add: dc)
    qed
  qed
qed

lemma policy_stage_egress:
  assumes "SplitTool (ctp_Name params) = Some (sv, tool)"
    and "AllowsTool (cx_Profile ctx) (ctp_Name params)" and "vk_admits (cx_VK ctx) sv"
  shows "gs_a2a (snd (policy_stage env d ctx sess params sv tool st)) = gs_a2a st
    \<and> (gs_calls (snd (policy_stage env d ctx sess params sv tool st)) = gs_calls st
       \<or> (\<exists>c. gs_calls (snd (policy_stage env d ctx sess params sv tool st)) = gs_calls st @ [c]
            \<and> call_admitted env d ctx sess params (gs_flow st) c))"
proof (rule policy_stage_cases [of env d ctx sess params sv tool st])
  fix m prep st4
  assume a: "dp_manager d = Some m" "same_egress st st4"
      "pipeline_admits env (dp_policy d) ctx sess params (gs_flow st)
         (case prep of None \<Rightarrow> None | Some pr \<Rightarrow> pr_PrepTarget pr)"
      "policy_stage env d ctx sess params sv tool st = southbound_call env d m sess params sv tool prep st4"
  show ?thesis
  proof (rule southbound_call_cases [of env d m sess params sv tool prep st4])
    fix e assume "southbound_call env d m sess params sv tool prep st4 = (Inl e, st4)"
    then show ?thesis using a(2,4) by (simp add: same_egress_def)
  next
    fix c snap
    assume c: "mgr_Get m (ses_TenantID sess) sv = Inr snap" "sn_Enabled snap"
      "gs_calls (snd (southbound_call env d m sess params sv tool prep st4)) = gs_calls st4 @ [c]"
      "gs_a2a (snd (southbound_call env d m sess params sv tool prep st4)) = gs_a2a st4"
      "sc_TenantID c = ses_TenantID sess" "sc_ServerID c = sv" "sc_Tool c = tool" "sc_Arguments c = ctp_Arguments params"
      "sc_Headers c = (case prep of None \<Rightarrow> [] | Some pr \<Rightarrow> case pr_PrepTarget pr of None \<Rightarrow> [] | Some tg \<Rightarrow> pt_Headers tg)"
    have "call_admitted env d ctx sess params (gs_flow st) c"
      unfolding call_admitted_def
      by (rule exI [of _ "case prep of None \<Rightarrow> None | Some pr \<Rightarrow> pr_PrepTarget pr"])
        (use assms a c in \<open>auto simp: server_open_def split: option.splits\<close>)
    then show ?thesis using a(2,4) c(3,4) by (auto simp: same_egress_def)
  qed
qed (auto simp: same_egress_def)

lemma dispatch_egress:
  "gs_calls (snd (dispatchToolCall jt env d ctx sess params reqID st)) = gs_calls st
   \<or> (\<exists>c. gs_calls (snd (dispatchToolCall jt env d ctx sess params reqID st)) = gs_calls st @ [c]
        \<and> call_admitted env d ctx sess params (gs_flow st) c)"
proof (rule dispatch_cases [of jt env d ctx sess params reqID st])
  fix sv tool
  assume "SplitTool (ctp_Name params) = Some (sv, tool)" "AllowsTool (cx_Profile ctx) (ctp_Name params)"
    "vk_admits (cx_VK ctx) sv"
    "dispatchToolCall jt env d ctx sess params reqID st = policy_stage env d ctx sess params sv tool st"
  then show ?thesis using policy_stage_egress [of params sv tool ctx env d sess st] by simp
qed (use bridge_calls [of jt env d ctx sess params reqID st] in \<open>auto simp: same_egress_def\<close>)

subsection \<open>Bridged calls\<close>

text \<open>What may reach a peer through a tool call: the profile bridges the tool, admits the task, and the
  A2A gates admit the peer.\<close>

definition bridge_admitted ::
  "'c Dispatcher \<Rightarrow> request_ctx \<Rightarrow> Session \<Rightarrow> CallToolParams \<Rightarrow> 'c a2a_state \<Rightarrow> ('c \<times> string \<times> string \<times> a2a_request) \<Rightarrow> bool"
where
  "bridge_admitted d ctx sess params a2a call =
    (\<exists>bridge i msg c. BridgeForMCPTool (cx_Profile ctx) (ctp_Name params) = Some bridge
       \<and> AllowsA2ATask (cx_Profile ctx) (m2a_A2APeer bridge @ ''.'' @ m2a_A2ATask bridge)
       \<and> call = (c, ses_TenantID sess, i, MessageSend msg) \<and> peer_open (cx_Profile ctx) (ses_TenantID sess) i a2a)"

lemma byname_egress:
  "aa_sent (snd (SendMessageByPeerName w prof t name msg a2a)) = aa_sent a2a
   \<or> (\<exists>c i. aa_sent (snd (SendMessageByPeerName w prof t name msg a2a)) = aa_sent a2a @ [(c, t, i, MessageSend msg)]
        \<and> peer_open prof t i a2a)"
  using a2a_dispatch_egress [of w prof t _ "MessageSend msg" a2a]
  by (rule_tac SendMessageByPeerName_cases [of w prof t name msg a2a]) auto

lemma bridge_egress:
  "aa_sent (gs_a2a (snd (tryMCPToA2ABridge jt env d ctx sess params reqID st))) = aa_sent (gs_a2a st)
   \<or> (\<exists>c. aa_sent (gs_a2a (snd (tryMCPToA2ABridge jt env d ctx sess params reqID st))) = aa_sent (gs_a2a st) @ [c]
        \<and> bridge_admitted d ctx sess params (gs_a2a st) c)"
proof (cases "\<exists>w bridge p. dp_bridge d = Some w \<and> BridgeForMCPTool (cx_Profile ctx) (ctp_Name params) = Some bridge
    \<and> cx_Profile ctx = Some p \<and> (p_IsDefault p \<or> AllowsA2ATask (cx_Profile ctx) (m2a_A2APeer bridge @ ''.'' @ m2a_A2ATask bridge))")
  case True
  then obtain w bridge p where b: "dp_bridge d = Some w" "BridgeForMCPTool (cx_Profile ctx) (ctp_Name params) = Some bridge"
    "cx_Profile ctx = Some p" "p_IsDefault p \<or> AllowsA2ATask (cx_Profile ctx) (m2a_A2APeer bridge @ ''.'' @ m2a_A2ATask bridge)"
    by blast
  have task: "AllowsA2ATask (cx_Profile ctx) (m2a_A2APeer bridge @ ''.'' @ m2a_A2ATask bridge)"
    using b(4) by (cases "p_IsDefault p") (simp add: b(3) AllowsA2ATask.simps, blast)
  have sent: "aa_sent (gs_a2a (snd (tryMCPToA2ABridge jt env d ctx sess params reqID st))) =
      aa_sent (snd (SendMessageByPeerName w (cx_Profile ctx) (ses_TenantID sess) (m2a_A2APeer bridge)
        (bridge_message (jt_parse jt) bridge params reqID) (gs_a2a st)))"
    using b(1-3) task by (simp add: tryMCPToA2ABridge_def emitBridge_def Let_def split: prod.split sum.split)
  show ?thesis
    unfolding sent bridge_admitted_def
    using byname_egress [of w "cx_Profile ctx" "ses_TenantID sess" "m2a_A2APeer bridge"
        "bridge_message (jt_parse jt) bridge params reqID" "gs_a2a st"] b(2) task by blast
next
  case False
  then have "gs_a2a (snd (tryMCPToA2ABridge jt env d ctx sess params reqID st)) = gs_a2a st"
    by (auto simp: tryMCPToA2ABridge_def emitAgentProfileViolation_def Let_def split: option.splits)
  then show ?thesis by simp
qed

lemma dispatch_bridge_egress:
  "aa_sent (gs_a2a (snd (dispatchToolCall jt env d ctx sess params reqID st))) = aa_sent (gs_a2a st)
   \<or> (\<exists>c. aa_sent (gs_a2a (snd (dispatchToolCall jt env d ctx sess params reqID st))) = aa_sent (gs_a2a st) @ [c]
        \<and> bridge_admitted d ctx sess params (gs_a2a st) c)"
proof (rule dispatch_cases [of jt env d ctx sess params reqID st])
  fix sv tool
  assume "SplitTool (ctp_Name params) = Some (sv, tool)" "AllowsTool (cx_Profile ctx) (ctp_Name params)"
    "vk_admits (cx_VK ctx) sv"
    "dispatchToolCall jt env d ctx sess params reqID st = policy_stage env d ctx sess params sv tool st"
  then show ?thesis using policy_stage_egress [of params sv tool ctx env d sess st] by simp
qed (use bridge_egress [of jt env d ctx sess params reqID st] in \<open>auto simp: same_egress_def\<close>)

subsection \<open>Histories of tool calls\<close>

record call_op =
  op_env :: call_env
  op_ctx :: request_ctx
  op_sess :: Session
  op_params :: CallToolParams
  op_reqID :: string

definition gw_step :: "json_text \<Rightarrow> 'c Dispatcher \<Rightarrow> call_op \<Rightarrow> 'c gw_state \<Rightarrow> 'c gw_state" where
  "gw_step jt d x st = snd (dispatchToolCall jt (op_env x) d (op_ctx x) (op_sess x) (op_params x) (op_reqID x) st)"

interpretation mcp_egress: governed_egress "gw_step jt d" gs_calls
  "\<lambda>x st. call_admitted (op_env x) d (op_ctx x) (op_sess x) (op_params x) (gs_flow st)"
  by unfold_locales (simp add: gw_step_def dispatch_egress)

interpretation bridge_egress: governed_egress "gw_step jt d" "\<lambda>st. aa_sent (gs_a2a st)"
  "\<lambda>x st. bridge_admitted d (op_ctx x) (op_sess x) (op_params x) (gs_a2a st)"
  by unfold_locales (unfold gw_step_def, rule dispatch_bridge_egress)

subsection \<open>The audit record\<close>

definition starts :: "'c gw_state \<Rightarrow> nat" where
  "starts st = length (filter (\<lambda>e. ev_Type e = EventToolCallStart) (gs_audit st))"

definition completions :: "'c gw_state \<Rightarrow> nat" where
  "completions st = length (filter (\<lambda>e. ev_Type e = EventToolCallComplete) (gs_audit st))"

definition accounted :: "'c gw_state \<Rightarrow> bool" where
  "accounted st = (starts st = length (gs_calls st) \<and> completions st = length (gs_ticks st))"

lemmas event_names = EventPolicyAllowed_def EventPolicyDenied_def EventToolCallStart_def EventToolCallComplete_def
  EventToolCallFailed_def EventCredentialInjected_def EventCredentialExchangeNG_def EventA2ADispatch_def
  EventAgentProfileViolation_def EventVKScopeViolation_def

lemma accounted_emit:
  "ev_Type e \<notin> {EventToolCallStart, EventToolCallComplete} \<Longrightarrow> accounted (gw_emit e st) = accounted st"
  by (simp add: accounted_def starts_def completions_def)

lemma accounted_keep [simp]:
  "accounted (st \<lparr> gs_flow := f \<rparr>) = accounted st" "accounted (st \<lparr> gs_a2a := a \<rparr>) = accounted st"
  by (simp_all add: accounted_def starts_def completions_def)

lemma accounted_sess_event:
  "ty \<notin> {EventToolCallStart, EventToolCallComplete} \<Longrightarrow> accounted (gw_emit (sess_event ty sess p) st) = accounted st"
  by (simp add: accounted_emit sess_event_def)

lemma accounted_credentials: "accounted (snd (resolveCredentials env p sess dec st)) = accounted st"
  by (simp add: resolveCredentials_def accounted_sess_event event_names split: option.split sum.split)

lemma accounted_pipe: "accounted (snd (pipe_credentials env p sess dec out st)) = accounted st"
  using accounted_credentials [of env p sess dec st]
  by (auto simp: pipe_credentials_def split: prod.split sum.split)

lemma accounted_gate: "accounted (snd (approval_gate env p ctx sess params dec flow st)) = accounted st"
  by (simp add: approval_gate_def Let_def accounted_pipe split: prod.split sum.split option.split)

lemma accounted_pipeline: "accounted (snd (pipeline_Evaluate env p ctx sess params st)) = accounted st"
  by (simp add: pipeline_Evaluate_def Let_def accounted_pipe accounted_gate accounted_sess_event event_names
      split: sum.split option.split)

lemma accounted_profile: "accounted (snd (checkToolAllowedByProfile on prof sess tool st)) = accounted st"
  by (simp add: checkToolAllowedByProfile_def emitAgentProfileViolation_def accounted_sess_event event_names
      split: option.split)

lemma accounted_vk: "accounted (snd (checkServerAllowedByVK on vk sess sv st)) = accounted st"
  by (simp add: checkServerAllowedByVK_def Let_def accounted_sess_event event_names split: option.split)

lemma accounted_bridge: "accounted (snd (tryMCPToA2ABridge jt env d ctx sess params reqID st)) = accounted st"
  by (simp add: tryMCPToA2ABridge_def emitBridge_def emitAgentProfileViolation_def Let_def accounted_sess_event event_names
      split: option.split prod.split sum.split)

lemma accounted_southbound:
  assumes "accounted st" and "dp_emits d"
  shows "accounted (snd (southbound_call env d m sess params sv tool prep st))"
  using assms
  by (simp add: southbound_call_def Let_def accounted_def starts_def completions_def emitToolCall_def sess_event_def
      event_names split: sum.split call_error.split)

lemma accounted_policy_stage:
  assumes "accounted st" and "dp_emits d"
  shows "accounted (snd (policy_stage env d ctx sess params sv tool st))"
proof -
  have "accounted st4" if "pipeline_Evaluate env p ctx sess params st = (r, st4)" for p r st4
    using accounted_pipeline [of env p ctx sess params st] that assms(1) by simp
  then show ?thesis
    using assms by (auto simp: policy_stage_def intro: accounted_southbound split: option.split prod.split sum.split)
qed

lemma accounted_dispatch:
  assumes "accounted st" and "dp_emits d"
  shows "accounted (snd (dispatchToolCall jt env d ctx sess params reqID st))"
proof -
  have b: "accounted st1" if "tryMCPToA2ABridge jt env d ctx sess params reqID st = (r, st1)" for r st1
    using accounted_bridge [of jt env d ctx sess params reqID st] assms(1) that by simp
  have p: "accounted st2" if "checkToolAllowedByProfile on prof sess tool st1 = (r, st2)" "accounted st1"
    for on prof tool r st1 st2
    using accounted_profile [of on prof sess tool st1] that by simp
  have v: "accounted st3" if "checkServerAllowedByVK on vk sess sv st2 = (r, st3)" "accounted st2" for on vk r sv st2 st3
    using accounted_vk [of on vk sess sv st2] that by simp
  show ?thesis
    using assms by (auto simp: dispatchToolCall_def split: option.split prod.split)
      (blast intro: b p v accounted_policy_stage)+
qed

lemma accounted_run:
  "accounted st \<Longrightarrow> dp_emits d \<Longrightarrow> accounted (fold (gw_step jt d) ops st)"
  by (induction ops arbitrary: st) (simp_all add: gw_step_def accounted_dispatch)

subsection \<open>A concrete gateway\<close>

lemma length_one_ex: "length xs = 1 \<Longrightarrow> \<exists>x. xs = [x]"
  by (cases xs) auto

lemma length_one_ex4: "length xs = 1 \<Longrightarrow> \<exists>a b c e. (a, b, c, e) \<in> set xs"
  by (cases xs) auto

lemma single_history: "[y] = pre @ x # post \<Longrightarrow> pre = [] \<and> x = y \<and> post = []"
  by (cases pre) auto

definition demo_manager :: Manager where
  "demo_manager =
    \<lparr> mg_reg = Some (\<lambda>t sv. if t = ''acme'' \<and> sv = ''db'' then Inr \<lparr> sn_Spec = sample_spec, sn_Enabled = True \<rparr>
                         else Inl ErrNotFound),
      mg_sup = Some (\<lambda>spec req. Inr (\<lambda>tool args token. Inr JNull)) \<rparr>"

definition demo_dispatcher :: "A2APeer Dispatcher" where
  "demo_dispatcher =
    \<lparr> dp_manager = Some demo_manager,
      dp_policy = Some \<lparr> pp_engine = Some (drop_engine []), pp_injectors = None, pp_registry = None \<rparr>,
      dp_emits = True, dp_bridge = Some sample_wire \<rparr>"

definition demo_state :: "A2APeer gw_state" where
  "demo_state = \<lparr> gs_flow = Some (sample_flow (Some accepting)), gs_audit = [], gs_calls = [], gs_ticks = [],
     gs_a2a = sample_a2a \<rparr>"

definition demo_env :: call_env where
  "demo_env = \<lparr> ce_run = sample_env, ce_sha = sample_sha, ce_dur = 0, ce_pipeText = (\<lambda>e. ''''),
     ce_injText = (\<lambda>e. ''''), ce_mgrText = (\<lambda>e. '''') \<rparr>"

definition demo_profile :: Profile where
  "demo_profile = (fromStore zero_AgentProfile) \<lparr> p_AllowedA2APeers := [''research''],
     p_MCPToA2ABridges := [\<lparr> m2a_MCPTool = ''db.ask'', m2a_A2APeer = ''research'', m2a_A2ATask = ''review'' \<rparr>] \<rparr>"

definition demo_op :: "Profile option \<Rightarrow> string \<Rightarrow> call_op" where
  "demo_op prof tool =
    \<lparr> op_env = demo_env, op_ctx = \<lparr> cx_Profile = prof, cx_VK = None, cx_ResumeApprovalID = ''a1'' \<rparr>,
      op_sess = \<lparr> ses_ID = ''s1'', ses_TenantID = ''acme'', ses_UserID = ''u1'', ses_SubjectToken = '''', ses_CodeMode = False \<rparr>,
      op_params = \<lparr> ctp_Name = tool, ctp_Arguments = ''{}'', ctp_Meta = None \<rparr>, op_reqID = '''' \<rparr>"

definition demo_json :: json_text where
  "demo_json = \<lparr> jt_parse = (\<lambda>s. None), jt_print = (\<lambda>j. '''') \<rparr>"

abbreviation demo_run :: "call_op list \<Rightarrow> A2APeer gw_state" where
  "demo_run ops \<equiv> fold (gw_step demo_json demo_dispatcher) ops demo_state"

subsection \<open>Properties\<close>

text \<open>C1: the governed envelope.  Over any history of tool calls that starts without southbound calls, every
  call that reached a southbound server belongs to an earlier request of the same tenant whose
  qualified name splits into that server and tool, whose agent profile admits the tool, whose virtual
  key admits the server, whose server was registered and enabled for the tenant, and, with a policy
  pipeline, for which the engine allowed the call, the required approval was granted in the state the
  request started from, and the credentials sent were the ones resolved for that tenant.\<close>

theorem southbound_calls_governed:
  assumes "gs_calls st = []" and "c \<in> set (gs_calls (fold (gw_step jt d) ops st))"
  shows "\<exists>pre x post target. ops = pre @ x # post
    \<and> sc_TenantID c = ses_TenantID (op_sess x) \<and> sc_Arguments c = ctp_Arguments (op_params x)
    \<and> SplitTool (ctp_Name (op_params x)) = Some (sc_ServerID c, sc_Tool c)
    \<and> AllowsTool (cx_Profile (op_ctx x)) (ctp_Name (op_params x))
    \<and> (\<forall>v. cx_VK (op_ctx x) = Some v \<longrightarrow> vk_AllowsServer v (sc_ServerID c))
    \<and> server_open (dp_manager d) (ses_TenantID (op_sess x)) (sc_ServerID c)
    \<and> pipeline_admits (op_env x) (dp_policy d) (op_ctx x) (op_sess x) (op_params x)
        (gs_flow (fold (gw_step jt d) pre st)) target
    \<and> sc_Headers c = (case target of None \<Rightarrow> [] | Some tg \<Rightarrow> pt_Headers tg)"
proof -
  obtain pre x post where x: "ops = pre @ x # post" and adm: "call_admitted (op_env x) d (op_ctx x) (op_sess x) (op_params x)
      (gs_flow (fold (gw_step jt d) pre st)) c"
    using mcp_egress.call_permitted [of c jt d ops st] assms by (auto simp: mcp_egress.steps_def)
  from adm show ?thesis
    by (intro exI [of _ pre] exI [of _ x] exI [of _ post])
      (use x in \<open>auto simp: call_admitted_def vk_admits_def\<close>)
qed

theorem southbound_calls_governed_witness:
  "\<exists>c. gs_calls (demo_run [demo_op None ''db.drop'']) = [c]
     \<and> sc_TenantID c = ''acme'' \<and> SplitTool ''db.drop'' = Some (sc_ServerID c, sc_Tool c)"
proof -
  have "length (gs_calls (demo_run [demo_op None ''db.drop''])) = 1" by code_simp
  from length_one_ex [OF this] obtain c where c: "gs_calls (demo_run [demo_op None ''db.drop'']) = [c]" by (rule exE)
  have init: "gs_calls demo_state = []" by (simp add: demo_state_def)
  have mem: "c \<in> set (gs_calls (demo_run [demo_op None ''db.drop'']))" by (simp only: c list.set, rule insertI1)
  from southbound_calls_governed [OF init mem] obtain pre x post
    where "[demo_op None ''db.drop''] = pre @ x # post" "sc_TenantID c = ses_TenantID (op_sess x)"
      "SplitTool (ctp_Name (op_params x)) = Some (sc_ServerID c, sc_Tool c)"
    by blast
  then have "sc_TenantID c = ''acme''" "SplitTool ''db.drop'' = Some (sc_ServerID c, sc_Tool c)"
    using single_history by (fastforce simp: demo_op_def)+
  with c show ?thesis by blast
qed

text \<open>C3: bridged calls.  Over any history of tool calls, every request that reached an A2A peer through a
  bridge was sent for the caller's own tenant, under a profile that bridges the called tool, admits
  the bridged task and admits the peer, which was registered and enabled at that moment.\<close>

theorem bridged_calls_governed:
  assumes "aa_sent (gs_a2a st) = []" and "(c, t, i, rq) \<in> set (aa_sent (gs_a2a (fold (gw_step jt d) ops st)))"
  shows "\<exists>pre x post bridge peer. ops = pre @ x # post \<and> t = ses_TenantID (op_sess x)
    \<and> BridgeForMCPTool (cx_Profile (op_ctx x)) (ctp_Name (op_params x)) = Some bridge
    \<and> AllowsA2ATask (cx_Profile (op_ctx x)) (m2a_A2APeer bridge @ ''.'' @ m2a_A2ATask bridge)
    \<and> GetPeer (aa_db (gs_a2a (fold (gw_step jt d) pre st))) t i = Inr peer \<and> pe_Enabled peer
    \<and> AllowsA2APeer (cx_Profile (op_ctx x)) (pe_Name peer)"
proof -
  obtain pre x post where x: "ops = pre @ x # post" and adm: "bridge_admitted d (op_ctx x) (op_sess x) (op_params x)
      (gs_a2a (fold (gw_step jt d) pre st)) (c, t, i, rq)"
    using bridge_egress.call_permitted [of "(c, t, i, rq)" jt d ops st] assms
    by (auto simp: bridge_egress.steps_def)
  from adm obtain bridge peer where "BridgeForMCPTool (cx_Profile (op_ctx x)) (ctp_Name (op_params x)) = Some bridge"
    "AllowsA2ATask (cx_Profile (op_ctx x)) (m2a_A2APeer bridge @ ''.'' @ m2a_A2ATask bridge)" "t = ses_TenantID (op_sess x)"
    "GetPeer (aa_db (gs_a2a (fold (gw_step jt d) pre st))) t i = Inr peer" "pe_Enabled peer"
    "AllowsA2APeer (cx_Profile (op_ctx x)) (pe_Name peer)"
    unfolding bridge_admitted_def peer_open_def by blast
  with x show ?thesis by blast
qed

theorem bridged_calls_governed_witness:
  "\<exists>c t i rq. (c, t, i, rq) \<in> set (aa_sent (gs_a2a (demo_run [demo_op (Some demo_profile) ''db.ask''])))
     \<and> t = ''acme''"
proof -
  have "length (aa_sent (gs_a2a (demo_run [demo_op (Some demo_profile) ''db.ask'']))) = 1" by code_simp
  from length_one_ex4 [OF this] obtain c t i rq
    where c: "(c, t, i, rq) \<in> set (aa_sent (gs_a2a (demo_run [demo_op (Some demo_profile) ''db.ask''])))"
    by (elim exE)
  have "aa_sent (gs_a2a demo_state) = []" by (simp add: demo_state_def sample_a2a_def)
  from bridged_calls_governed [OF this c] obtain pre x post
    where "[demo_op (Some demo_profile) ''db.ask''] = pre @ x # post" "t = ses_TenantID (op_sess x)" by blast
  then have "t = ''acme''" using single_history by (fastforce simp: demo_op_def)
  with c show ?thesis by blast
qed

text \<open>C21: the audit record is complete.  With an emitter installed, after any history of tool calls there is
  exactly one start event per southbound call and one completion event per supervisor tick; refused,
  bridged and denied calls contribute to neither.\<close>

theorem southbound_calls_audited:
  assumes "accounted st" and "dp_emits d"
  shows "starts (fold (gw_step jt d) ops st) = length (gs_calls (fold (gw_step jt d) ops st))
    \<and> completions (fold (gw_step jt d) ops st) = length (gs_ticks (fold (gw_step jt d) ops st))"
  using accounted_run [OF assms, of jt ops] by (simp add: accounted_def)

theorem southbound_calls_audited_witness:
  "starts (demo_run [demo_op None ''db.drop'', demo_op None ''nodot'']) =
     length (gs_calls (demo_run [demo_op None ''db.drop'', demo_op None ''nodot'']))"
proof -
  have "accounted demo_state" "dp_emits demo_dispatcher"
    by (simp_all add: demo_state_def demo_dispatcher_def accounted_def starts_def completions_def)
  from southbound_calls_audited [OF this, of demo_json "[demo_op None ''db.drop'', demo_op None ''nodot'']"]
  show ?thesis by (rule conjunct1)
qed

text \<open>The names of the Code Mode meta-tools are qualified names: outside a Code Mode session they are not
  rejected for their shape but looked up as tools of a server named \<open>mcp\<close>.\<close>

lemma meta_tools_are_qualified:
  "isCodeModeMetaTool ''mcp.executeToolCode'' \<and> SplitTool ''mcp.executeToolCode'' = Some (''mcp'', ''executeToolCode'')"
  by code_simp

end
