(* ===== verification/Log_Ring.thy ===== *)
theory Log_Ring
  imports Namespace "HOL-Library.Sublist"
begin

text \<open>
  \<open>internal/runtime/process/log_ring.go\<close>: the per-process ring of log lines, its
  subscribers and the registry of rings.  A subscriber's channel has capacity
  64; it is modelled by the lines waiting in it and by whether it is closed.
  Sending on a closed channel is a panic, which is \<open>None\<close>.  The zero instant is
  \<open>None\<close>, and lies before every other.  \<open>Publish\<close> releases the ring's lock between
  recording a line and sending it, so it is also given in these two parts.
\<close>

record LogLine =
  ll_At :: "time option"
  ll_Stream :: string
  ll_Text :: string

record log_subscriber =
  ls_ch :: "LogLine list"
  ls_closed :: bool
  ls_since :: "time option"

record LogRing =
  lr_maxBytes :: int
  lr_bytes :: int
  lr_buf :: "LogLine list"
  lr_subs :: "nat list"
  lr_closed :: bool
  lr_chans :: "(nat, log_subscriber) amap"

definition DefaultLogRingBytes :: int where "DefaultLogRingBytes = 1048576"

definition NewLogRing :: "int \<Rightarrow> LogRing" where
  "NewLogRing maxBytes =
    \<lparr> lr_maxBytes = (if maxBytes \<le> 0 then DefaultLogRingBytes else maxBytes), lr_bytes = 0, lr_buf = [],
      lr_subs = [], lr_closed = False, lr_chans = [] \<rparr>"

definition text_len :: "LogLine \<Rightarrow> int" where
  "text_len l = int (length (ll_Text l))"

text \<open>The eviction loop of \<open>appendLocked\<close>.\<close>

fun evict :: "int \<Rightarrow> int \<Rightarrow> LogLine list \<Rightarrow> int \<times> LogLine list" where
  "evict maxBytes bytes [] = (bytes, [])"
| "evict maxBytes bytes (l # buf) =
    (if bytes > maxBytes then evict maxBytes (bytes - text_len l) buf else (bytes, l # buf))"

definition appendLocked :: "LogLine \<Rightarrow> LogRing \<Rightarrow> LogRing" where
  "appendLocked line r =
    (let (bytes, buf) = evict (lr_maxBytes r) (lr_bytes r + text_len line) (lr_buf r @ [line]) in
     r \<lparr> lr_bytes := bytes, lr_buf := buf \<rparr>)"

definition before_opt :: "time option \<Rightarrow> time option \<Rightarrow> bool" where
  "before_opt a b = (case (a, b) of (Some x, Some y) \<Rightarrow> x < y | (None, Some y) \<Rightarrow> True | (_, None) \<Rightarrow> False)"

definition sub_buffer :: nat where "sub_buffer = 64"

text \<open>A non-blocking send: a full buffer drops the line, a closed channel panics.\<close>

definition try_send :: "LogLine \<Rightarrow> log_subscriber \<Rightarrow> log_subscriber option" where
  "try_send line s =
    (if ls_closed s then None
     else if length (ls_ch s) < sub_buffer then Some (s \<lparr> ls_ch := ls_ch s @ [line] \<rparr>)
     else Some s)"

definition ring_record :: "time \<Rightarrow> LogLine \<Rightarrow> LogRing \<Rightarrow> LogRing \<times> LogLine \<times> nat list" where
  "ring_record now line0 r =
    (let line = (if ll_At line0 = None then line0 \<lparr> ll_At := Some now \<rparr> else line0) in
     if lr_closed r then (r, line, []) else (appendLocked line r, line, lr_subs r))"

fun ring_fanout :: "LogLine \<Rightarrow> nat list \<Rightarrow> LogRing \<Rightarrow> LogRing option" where
  "ring_fanout line [] r = Some r"
| "ring_fanout line (c # cs) r =
    (case aget (lr_chans r) c of
       None \<Rightarrow> ring_fanout line cs r
     | Some s \<Rightarrow>
         if before_opt (ll_At line) (ls_since s) then ring_fanout line cs r
         else case try_send line s of
                None \<Rightarrow> None
              | Some s' \<Rightarrow> ring_fanout line cs (r \<lparr> lr_chans := aput c s' (lr_chans r) \<rparr>))"

definition ring_Publish :: "time \<Rightarrow> LogLine \<Rightarrow> LogRing \<Rightarrow> LogRing option" where
  "ring_Publish now line r = (let (r', line', cs) = ring_record now line r in ring_fanout line' cs r')"

definition endsWithNewline :: "string \<Rightarrow> bool" where
  "endsWithNewline s = (s \<noteq> [] \<and> last s = CHR 0x0A)"

definition PublishLog :: "time \<Rightarrow> string \<Rightarrow> string \<Rightarrow> LogRing \<Rightarrow> LogRing option" where
  "PublishLog now stream txt r =
    (if txt = '''' then Some r
     else ring_Publish now \<lparr> ll_At = Some now, ll_Stream = stream,
            ll_Text = (if endsWithNewline txt then txt else txt @ [CHR 0x0A]) \<rparr> r)"

definition ring_Snapshot :: "time option \<Rightarrow> LogRing \<Rightarrow> LogLine list" where
  "ring_Snapshot since r = filter (\<lambda>l. \<not> (since \<noteq> None \<and> before_opt (ll_At l) since)) (lr_buf r)"

text \<open>The replay loop of \<open>Subscribe\<close>: the \<open>break\<close> leaves the \<open>select\<close>, not the loop.\<close>

fun replay :: "time option \<Rightarrow> LogLine list \<Rightarrow> LogLine list \<Rightarrow> LogLine list" where
  "replay since [] ch = ch"
| "replay since (l # ls) ch =
    (if since \<noteq> None \<and> before_opt (ll_At l) since then replay since ls ch
     else if length ch < sub_buffer then replay since ls (ch @ [l])
     else replay since ls ch)"

definition ring_Subscribe :: "nat \<Rightarrow> time option \<Rightarrow> LogRing \<Rightarrow> LogRing" where
  "ring_Subscribe c since r =
    (if lr_closed r
     then r \<lparr> lr_chans := aput c \<lparr> ls_ch = [], ls_closed = True, ls_since = since \<rparr> (lr_chans r) \<rparr>
     else r \<lparr> lr_chans := aput c \<lparr> ls_ch = replay since (lr_buf r) [], ls_closed = False, ls_since = since \<rparr>
                (lr_chans r),
              lr_subs := lr_subs r @ [c] \<rparr>)"

definition close_chan :: "nat \<Rightarrow> (nat, log_subscriber) amap \<Rightarrow> (nat, log_subscriber) amap" where
  "close_chan c m = (case aget m c of None \<Rightarrow> m | Some s \<Rightarrow> aput c (s \<lparr> ls_closed := True \<rparr>) m)"

text \<open>The cleanup goroutine of \<open>Subscribe\<close>, when its context is cancelled.\<close>

definition ring_cancel :: "nat \<Rightarrow> LogRing \<Rightarrow> LogRing" where
  "ring_cancel c r =
    (if c \<in> set (lr_subs r)
     then r \<lparr> lr_subs := filter (\<lambda>x. x \<noteq> c) (lr_subs r), lr_chans := close_chan c (lr_chans r) \<rparr>
     else r)"

definition ring_Close :: "LogRing \<Rightarrow> LogRing" where
  "ring_Close r =
    (if lr_closed r then r
     else r \<lparr> lr_closed := True, lr_subs := [], lr_chans := fold close_chan (lr_subs r) (lr_chans r) \<rparr>)"

subsection \<open>The registry of rings\<close>

type_synonym LogRingRegistry = "(string, LogRing) amap"

definition ring_key :: "string \<Rightarrow> string \<Rightarrow> string" where
  "ring_key tenantID serverID = tenantID @ ''|'' @ serverID"

definition ring_Acquire :: "string \<Rightarrow> string \<Rightarrow> LogRingRegistry \<Rightarrow> LogRing \<times> LogRingRegistry" where
  "ring_Acquire tenantID serverID g =
    (case aget g (ring_key tenantID serverID) of
       Some r \<Rightarrow> (r, g)
     | None \<Rightarrow> (NewLogRing 0, aput (ring_key tenantID serverID) (NewLogRing 0) g))"

definition ring_Get :: "string \<Rightarrow> string \<Rightarrow> LogRingRegistry \<Rightarrow> LogRing option" where
  "ring_Get tenantID serverID g = aget g (ring_key tenantID serverID)"

text \<open>The ring that leaves the registry is returned in the state its remaining holders see.\<close>

definition ring_Drop :: "string \<Rightarrow> string \<Rightarrow> LogRingRegistry \<Rightarrow> LogRing option \<times> LogRingRegistry" where
  "ring_Drop tenantID serverID g =
    (let k = ring_key tenantID serverID in (map_option ring_Close (aget g k), adel k g))"

definition rings_CloseAll :: "LogRingRegistry \<Rightarrow> LogRing list \<times> LogRingRegistry" where
  "rings_CloseAll g = (map (\<lambda>(k, r). ring_Close r) g, [])"

definition LogsFor :: "nat \<Rightarrow> string \<Rightarrow> string \<Rightarrow> time option \<Rightarrow> LogRingRegistry \<Rightarrow> LogRingRegistry" where
  "LogsFor c tenantID serverID since g =
    (let (r, g') = ring_Acquire tenantID serverID g in
     aput (ring_key tenantID serverID) (ring_Subscribe c since r) g')"

subsection \<open>Eviction\<close>

definition total_len :: "LogLine list \<Rightarrow> int" where
  "total_len ls = sum_list (map text_len ls)"

lemma total_len_simps [simp]:
  "total_len [] = 0" "total_len (l # ls) = text_len l + total_len ls"
  "total_len (xs @ ys) = total_len xs + total_len ys"
  by (simp_all add: total_len_def)

lemma text_len_nonneg [simp]: "0 \<le> text_len l"
  by (simp add: text_len_def)

lemma total_len_nonneg [simp]: "0 \<le> total_len ls"
  by (induction ls) simp_all

lemma total_len_suffix: "suffix xs ys \<Longrightarrow> total_len xs \<le> total_len ys"
  by (auto elim!: suffixE)

text \<open>The reference: among the suffixes of the history that fit, the longest.\<close>

definition longest_fitting :: "int \<Rightarrow> LogLine list \<Rightarrow> LogLine list \<Rightarrow> bool" where
  "longest_fitting maxBytes history buf =
    (suffix buf history \<and> total_len buf \<le> maxBytes
     \<and> (\<forall>other. suffix other history \<and> total_len other \<le> maxBytes \<longrightarrow> length other \<le> length buf))"

lemma longest_fitting_unique:
  "longest_fitting m h a \<Longrightarrow> longest_fitting m h b \<Longrightarrow> a = b"
  unfolding longest_fitting_def by (metis suffix_length_suffix le_antisym order_refl suffix_order.antisym)

lemma evict_longest:
  assumes "0 \<le> maxBytes" and "evict maxBytes (total_len buf) buf = (b, buf')"
  shows "b = total_len buf' \<and> longest_fitting maxBytes buf buf'"
  using assms(2)
proof (induction buf)
  case Nil
  then show ?case using assms(1) by (simp add: longest_fitting_def)
next
  case (Cons l buf)
  show ?case
  proof (cases "total_len (l # buf) > maxBytes")
    case True
    then have "evict maxBytes (total_len buf) buf = (b, buf')"
      using Cons.prems by simp
    from Cons.IH [OF this] True show ?thesis
      by (auto simp: longest_fitting_def suffix_Cons)
  next
    case False
    then show ?thesis
      using Cons.prems by (auto simp: longest_fitting_def dest: suffix_length_le)
  qed
qed

lemma suffix_append_same: "suffix xs (zs @ ys) \<Longrightarrow> length xs \<le> length ys \<Longrightarrow> suffix xs ys"
  by (metis suffix_length_suffix suffixI)

lemma longest_fitting_extend:
  assumes "longest_fitting m h buf" and "longest_fitting m (buf @ [l]) buf'"
  shows "longest_fitting m (h @ [l]) buf'"
proof -
  have "length other \<le> length buf'" if other: "suffix other (h @ [l])" "total_len other \<le> m" for other
  proof (cases other rule: rev_exhaust)
    case (snoc xs y)
    with other have y: "y = l" "suffix xs h" "total_len xs \<le> m"
      using text_len_nonneg [of y] by (auto simp del: text_len_nonneg)
    then have "length xs \<le> length buf"
      using assms(1) by (simp add: longest_fitting_def)
    then have "suffix xs buf"
      using y(2) assms(1) by (metis longest_fitting_def suffix_length_suffix)
    then have "suffix other (buf @ [l])" by (simp add: snoc y)
    with other(2) assms(2) show ?thesis by (simp add: longest_fitting_def)
  qed simp
  moreover have "suffix buf' (h @ [l])"
    using assms by (auto simp: longest_fitting_def intro: suffix_order.trans)
  ultimately show ?thesis using assms(2) by (auto simp: longest_fitting_def)
qed

definition ring_inv :: "LogLine list \<Rightarrow> LogRing \<Rightarrow> bool" where
  "ring_inv history r =
    (0 < lr_maxBytes r \<and> lr_bytes r = total_len (lr_buf r) \<and> longest_fitting (lr_maxBytes r) history (lr_buf r))"

lemma appendLocked_inv:
  assumes "ring_inv history r"
  shows "ring_inv (history @ [l]) (appendLocked l r) \<and> lr_maxBytes (appendLocked l r) = lr_maxBytes r"
proof -
  obtain b buf where e: "evict (lr_maxBytes r) (lr_bytes r + text_len l) (lr_buf r @ [l]) = (b, buf)"
    by fastforce
  then have "evict (lr_maxBytes r) (total_len (lr_buf r @ [l])) (lr_buf r @ [l]) = (b, buf)"
    using assms by (simp add: ring_inv_def)
  from evict_longest [OF _ this] assms have "b = total_len buf \<and> longest_fitting (lr_maxBytes r) (lr_buf r @ [l]) buf"
    by (simp add: ring_inv_def)
  with assms e show ?thesis
    by (auto simp: ring_inv_def appendLocked_def intro: longest_fitting_extend)
qed

lemma fold_append_inv:
  "ring_inv history r \<Longrightarrow>
    ring_inv (history @ ls) (fold appendLocked ls r) \<and> lr_maxBytes (fold appendLocked ls r) = lr_maxBytes r"
proof (induction ls arbitrary: history r)
  case (Cons l ls)
  from appendLocked_inv [OF Cons.prems, of l] Cons.IH [of "history @ [l]" "appendLocked l r"]
  show ?case by simp
qed simp

lemma NewLogRing_inv: "ring_inv [] (NewLogRing n)"
  by (auto simp: ring_inv_def NewLogRing_def DefaultLogRingBytes_def longest_fitting_def)

subsection \<open>Replay\<close>

lemma replay_take:
  "length ch \<le> sub_buffer \<Longrightarrow>
    replay since ls ch = take sub_buffer (ch @ filter (\<lambda>l. \<not> (since \<noteq> None \<and> before_opt (ll_At l) since)) ls)"
  by (induction since ls ch rule: replay.induct) auto

lemma Subscribe_replays_oldest:
  "\<not> lr_closed r \<Longrightarrow>
    aget (lr_chans (ring_Subscribe c since r)) c =
      Some \<lparr> ls_ch = take sub_buffer (ring_Snapshot since r), ls_closed = False, ls_since = since \<rparr>"
  by (simp add: ring_Subscribe_def ring_Snapshot_def replay_take)

subsection \<open>Sending\<close>

definition subs_open :: "LogRing \<Rightarrow> bool" where
  "subs_open r = (\<forall>c \<in> set (lr_subs r). \<exists>s. aget (lr_chans r) c = Some s \<and> \<not> ls_closed s)"

lemma ring_fanout_ok:
  assumes "\<forall>c \<in> set cs. \<exists>s. aget (lr_chans r) c = Some s \<and> \<not> ls_closed s"
  shows "\<exists>r'. ring_fanout line cs r = Some r' \<and> lr_subs r' = lr_subs r \<and> lr_buf r' = lr_buf r
    \<and> lr_closed r' = lr_closed r
    \<and> (\<forall>c s. aget (lr_chans r) c = Some s \<longrightarrow> (\<exists>s'. aget (lr_chans r') c = Some s' \<and> ls_closed s' = ls_closed s))"
  using assms
proof (induction line cs r rule: ring_fanout.induct)
  case (2 line c cs r)
  then obtain s where s: "aget (lr_chans r) c = Some s" "\<not> ls_closed s" by auto
  show ?case
  proof (cases "before_opt (ll_At line) (ls_since s)")
    case True
    with "2.IH"(2) [OF s(1)] "2.prems" s show ?thesis by simp
  next
    case False
    obtain s' where s': "try_send line s = Some s'" "\<not> ls_closed s'"
      using s(2) by (cases "length (ls_ch s) < sub_buffer") (auto simp: try_send_def)
    let ?r = "r \<lparr> lr_chans := aput c s' (lr_chans r) \<rparr>"
    have "\<forall>c \<in> set cs. \<exists>s. aget (lr_chans ?r) c = Some s \<and> \<not> ls_closed s"
      using "2.prems" s' by auto
    from "2.IH"(3) [OF s(1) False s'(1) this] obtain r' where r': "ring_fanout line cs ?r = Some r'"
        "lr_subs r' = lr_subs r" "lr_buf r' = lr_buf r" "lr_closed r' = lr_closed r"
        "\<And>c x. aget (lr_chans ?r) c = Some x \<Longrightarrow> \<exists>y. aget (lr_chans r') c = Some y \<and> ls_closed y = ls_closed x"
      by auto
    have keep: "\<exists>y. aget (lr_chans r') d = Some y \<and> ls_closed y = ls_closed x" if "aget (lr_chans r) d = Some x" for d x
      using r'(5) [of d] that s s' by (cases "d = c") auto
    have "ring_fanout line (c # cs) r = Some r'" using s(1) s'(1) r'(1) False by simp
    with r'(2-4) keep show ?thesis by blast
  qed
qed auto

text \<open>Run without interruption, a publication never panics: every registered subscriber is open.\<close>

lemma Publish_total:
  assumes "subs_open r"
  shows "\<exists>r'. ring_Publish now line r = Some r' \<and> subs_open r' \<and> lr_closed r' = lr_closed r"
proof -
  obtain r1 l cs where rec: "ring_record now line r = (r1, l, cs)" by (metis prod_cases3)
  have same: "lr_chans r1 = lr_chans r" "lr_subs r1 = lr_subs r" "lr_closed r1 = lr_closed r" "set cs \<subseteq> set (lr_subs r)"
    using rec by (auto simp: ring_record_def appendLocked_def Let_def split: if_splits prod.splits)
  then have "\<forall>c \<in> set cs. \<exists>s. aget (lr_chans r1) c = Some s \<and> \<not> ls_closed s"
    using assms by (auto simp: subs_open_def)
  from ring_fanout_ok [OF this, of l] obtain r' where "ring_fanout l cs r1 = Some r'" "lr_subs r' = lr_subs r1"
      "lr_closed r' = lr_closed r1"
      "\<And>c s. aget (lr_chans r1) c = Some s \<Longrightarrow> \<exists>s'. aget (lr_chans r') c = Some s' \<and> ls_closed s' = ls_closed s"
    by auto
  with same assms rec show ?thesis
    by (fastforce simp: ring_Publish_def subs_open_def)
qed

text \<open>A subscriber that goes away while a publication is between its two parts leaves a closed channel
  in the list of receivers, and the publication panics.\<close>

theorem publish_races_with_cancel:
  assumes "\<not> lr_closed r" and "lr_subs r = [c]" and "aget (lr_chans r) c = Some s" and "ls_since s = None"
    and "ring_record now line r = (r1, line', cs)"
  shows "ring_fanout line' cs (ring_cancel c r1) = None"
proof -
  have "cs = [c]" "lr_subs r1 = [c]" "lr_chans r1 = lr_chans r"
    using assms(1,2,5) by (auto simp: ring_record_def appendLocked_def Let_def split: prod.splits)
  then show ?thesis
    using assms(3,4) by (simp add: ring_cancel_def close_chan_def try_send_def before_opt_def split: option.splits)
qed

lemma takeWhile_stop: "x \<notin> set xs \<Longrightarrow> takeWhile (\<lambda>c. c \<noteq> x) (xs @ x # ys) = xs"
  by (induction xs) auto

subsection \<open>Properties\<close>

text \<open>The byte-bounded ring is equivalent to its specification.  After any sequence of lines the
  incrementally maintained buffer of a ring is the longest suffix of everything appended whose text
  fits the byte cap (there is only one), and the running byte count is its exact size.\<close>

theorem log_ring_keeps_longest_tail:
  "let r = fold appendLocked ls (NewLogRing n) in
   longest_fitting (lr_maxBytes r) ls (lr_buf r) \<and> lr_bytes r = total_len (lr_buf r) \<and> lr_bytes r \<le> lr_maxBytes r
   \<and> lr_maxBytes r = (if n \<le> 0 then DefaultLogRingBytes else n)"
proof -
  have "lr_maxBytes (fold appendLocked ls (NewLogRing n)) = lr_maxBytes (NewLogRing n)"
    using fold_append_inv [OF NewLogRing_inv] by blast
  moreover have "ring_inv ls (fold appendLocked ls (NewLogRing n))"
    using fold_append_inv [OF NewLogRing_inv, of ls n] by simp
  ultimately show ?thesis
    by (auto simp: Let_def ring_inv_def longest_fitting_def NewLogRing_def)
qed

text \<open>Rings are never shared between tenants.  For registered server ids the key of a ring determines
  both the tenant and the server, even though it is built by joining two strings.\<close>

theorem log_ring_key_injective:
  assumes "ValidateServerID s" and "ValidateServerID s'"
  shows "ring_key t s = ring_key t' s' \<longleftrightarrow> t = t' \<and> s = s'"
proof
  have nobar: "CHR ''|'' \<notin> set s" "CHR ''|'' \<notin> set s'"
    using assms by (simp_all add: ValidateServerID_chars)
  assume "ring_key t s = ring_key t' s'"
  then have eq: "rev s @ CHR ''|'' # rev t = rev s' @ CHR ''|'' # rev t'"
    by (metis append_Cons append_Nil append_assoc ring_key_def rev.simps(2) rev_append)
  have "rev s = takeWhile (\<lambda>c. c \<noteq> CHR ''|'') (rev s @ CHR ''|'' # rev t)"
    using nobar by (simp add: takeWhile_stop)
  also have "\<dots> = rev s'"
    using nobar unfolding eq by (simp add: takeWhile_stop)
  finally show "t = t' \<and> s = s'" using eq by simp
qed simp

theorem log_ring_key_injective_witness:
  "ring_key ''a|b'' ''gh'' \<noteq> ring_key ''a'' ''gh''"
proof -
  have "ValidateServerID ''gh''" by code_simp
  from log_ring_key_injective [OF this this, of "''a|b''" "''a''"] show ?thesis by simp
qed

end
