(* ===== verification/Registry_Store.thy ===== *)
theory Registry_Store
  imports Registry_Spec Sql_Tables
begin

text \<open>
  \<open>internal/storage/sqlite/registry_store.go\<close> on the tables of migrations 0001
  and 0002: the registered servers, keyed by (tenant, id), and the supervisor's
  instance rows, keyed by id, with a foreign key into the servers table that
  deletes them with their server.  \<open>rg_fault\<close> stands for a connection on which
  every statement fails, \<open>rg_fk\<close> for its foreign-key enforcement, and
  \<open>rg_tenants\<close> for the ids of the tenants table.  The \<open>spec_json\<close> column is
  represented by what it decodes to, \<open>None\<close> for text that is not the JSON of a
  spec.  The zero instant of Go is \<open>None\<close>.
\<close>

record ServerRecord =
  sr_TenantID :: string
  sr_ID :: string
  sr_DisplayName :: string
  sr_Transport :: string
  sr_RuntimeMode :: string
  sr_Spec :: "ServerSpec option"
  sr_Enabled :: bool
  sr_Status :: string
  sr_StatusDetail :: string
  sr_SchemaHash :: string
  sr_LastError :: string
  sr_CreatedAt :: "time option"
  sr_UpdatedAt :: "time option"

record InstanceRecord =
  ir_ID :: string
  ir_TenantID :: string
  ir_ServerID :: string
  ir_UserID :: string
  ir_SessionID :: string
  ir_PID :: int
  ir_StartedAt :: "time option"
  ir_LastCallAt :: "time option"
  ir_State :: string
  ir_RestartCount :: int
  ir_LastError :: string
  ir_SchemaHash :: string

record reg_db =
  rg_fault :: bool
  rg_fk :: bool
  rg_tenants :: "string list"
  rg_servers :: "ServerRecord list"
  rg_instances :: "InstanceRecord list"

definition same_server :: "string \<Rightarrow> string \<Rightarrow> ServerRecord \<Rightarrow> bool" where
  "same_server tenantID i r = (sr_TenantID r = tenantID \<and> sr_ID r = i)"

subsection \<open>Servers\<close>

definition GetServer :: "reg_db \<Rightarrow> string \<Rightarrow> string \<Rightarrow> (store_error, ServerRecord) result" where
  "GetServer db tenantID i =
    (if tenantID = '''' \<or> i = '''' then Inl ErrArgs
     else if rg_fault db then Inl ErrSQL
     else case List.find (same_server tenantID i) (rg_servers db) of
            None \<Rightarrow> Inl ErrNotFound | Some r \<Rightarrow> Inr r)"

definition ListServers :: "reg_db \<Rightarrow> string \<Rightarrow> (store_error, ServerRecord list) result" where
  "ListServers db tenantID =
    (if tenantID = '''' then Inl ErrArgs
     else if rg_fault db then Inl ErrSQL
     else Inr (sort_key sr_ID (filter (\<lambda>r. sr_TenantID r = tenantID) (rg_servers db))))"

text \<open>The columns an upsert writes: timestamps are cut to the millisecond, the creation time of an
  existing row stays, and \<open>updated_at\<close> is always the clock of the database.\<close>

definition server_row :: "time \<Rightarrow> ServerRecord option \<Rightarrow> ServerRecord \<Rightarrow> ServerRecord" where
  "server_row now old r = r
    \<lparr> sr_CreatedAt := (case old of Some o' \<Rightarrow> sr_CreatedAt o'
        | None \<Rightarrow> (case sr_CreatedAt r of None \<Rightarrow> Some (to_ms now) | Some t \<Rightarrow> Some (to_ms t))),
      sr_UpdatedAt := Some (to_ms now) \<rparr>"

definition replace_where :: "('a \<Rightarrow> bool) \<Rightarrow> 'a \<Rightarrow> 'a list \<Rightarrow> 'a list" where
  "replace_where P x xs = (if \<exists>y \<in> set xs. P y then map (\<lambda>y. if P y then x else y) xs else xs @ [x])"

definition UpsertServer :: "time \<Rightarrow> ServerRecord \<Rightarrow> reg_db \<Rightarrow> (store_error, reg_db) result" where
  "UpsertServer now r db =
    (if sr_TenantID r = '''' \<or> sr_ID r = '''' then Inl ErrArgs
     else if rg_fault db \<or> (rg_fk db \<and> sr_TenantID r \<notin> set (rg_tenants db)) then Inl ErrSQL
     else let same = same_server (sr_TenantID r) (sr_ID r) in
       Inr (db \<lparr> rg_servers := replace_where same
                  (server_row now (List.find same (rg_servers db)) r) (rg_servers db) \<rparr>))"

definition DeleteServer :: "string \<Rightarrow> string \<Rightarrow> reg_db \<Rightarrow> (store_error, reg_db) result" where
  "DeleteServer tenantID i db =
    (if tenantID = '''' \<or> i = '''' then Inl ErrArgs
     else if rg_fault db then Inl ErrSQL
     else if \<not> (\<exists>r \<in> set (rg_servers db). same_server tenantID i r) then Inl ErrNotFound
     else Inr (db
       \<lparr> rg_servers := filter (\<lambda>r. \<not> same_server tenantID i r) (rg_servers db),
         rg_instances := (if rg_fk db
           then filter (\<lambda>x. \<not> (ir_TenantID x = tenantID \<and> ir_ServerID x = i)) (rg_instances db)
           else rg_instances db) \<rparr>))"

definition UpdateServerStatus ::
  "time \<Rightarrow> string \<Rightarrow> string \<Rightarrow> string \<Rightarrow> string \<Rightarrow> reg_db \<Rightarrow> (store_error, reg_db) result" where
  "UpdateServerStatus now tenantID i status detail db =
    (if tenantID = '''' \<or> i = '''' then Inl ErrArgs
     else if rg_fault db then Inl ErrSQL
     else if \<not> (\<exists>r \<in> set (rg_servers db). same_server tenantID i r) then Inl ErrNotFound
     else Inr (db \<lparr> rg_servers := map (\<lambda>r. if same_server tenantID i r
         then r \<lparr> sr_Status := status, sr_StatusDetail := detail, sr_UpdatedAt := Some (to_ms now) \<rparr> else r)
         (rg_servers db) \<rparr>))"

subsection \<open>Instances\<close>

text \<open>On conflict the identity columns and \<open>started_at\<close> of the row are kept.\<close>

definition instance_row :: "time \<Rightarrow> InstanceRecord option \<Rightarrow> InstanceRecord \<Rightarrow> InstanceRecord" where
  "instance_row now old i =
    (let lastCall = map_option to_ms (ir_LastCallAt i) in
     case old of
       None \<Rightarrow> i \<lparr> ir_StartedAt := (case ir_StartedAt i of None \<Rightarrow> Some (to_ms now) | Some t \<Rightarrow> Some (to_ms t)),
                   ir_LastCallAt := lastCall \<rparr>
     | Some x \<Rightarrow> x \<lparr> ir_PID := ir_PID i, ir_LastCallAt := lastCall, ir_State := ir_State i,
                     ir_RestartCount := ir_RestartCount i, ir_LastError := ir_LastError i,
                     ir_SchemaHash := ir_SchemaHash i \<rparr>)"

definition UpsertInstance :: "time \<Rightarrow> InstanceRecord \<Rightarrow> reg_db \<Rightarrow> (store_error, reg_db) result" where
  "UpsertInstance now i db =
    (if ir_ID i = '''' \<or> ir_TenantID i = '''' \<or> ir_ServerID i = '''' then Inl ErrArgs
     else let same = (\<lambda>x. ir_ID x = ir_ID i); old = List.find same (rg_instances db) in
       if rg_fault db then Inl ErrSQL
       else if old = None \<and> rg_fk db
          \<and> \<not> (\<exists>r \<in> set (rg_servers db). same_server (ir_TenantID i) (ir_ServerID i) r) then Inl ErrSQL
       else Inr (db \<lparr> rg_instances := replace_where same (instance_row now old i) (rg_instances db) \<rparr>))"

definition DeleteInstance :: "string \<Rightarrow> string \<Rightarrow> reg_db \<Rightarrow> (store_error, reg_db) result" where
  "DeleteInstance tenantID i db =
    (if tenantID = '''' \<or> i = '''' then Inl ErrArgs
     else if rg_fault db then Inl ErrSQL
     else if \<not> (\<exists>x \<in> set (rg_instances db). ir_TenantID x = tenantID \<and> ir_ID x = i) then Inl ErrNotFound
     else Inr (db \<lparr> rg_instances :=
           filter (\<lambda>x. \<not> (ir_TenantID x = tenantID \<and> ir_ID x = i)) (rg_instances db) \<rparr>))"

text \<open>\<open>ORDER BY started_at DESC\<close>; the column is never null.\<close>

definition started_key :: "InstanceRecord \<Rightarrow> int" where
  "started_key x = (case ir_StartedAt x of None \<Rightarrow> 0 | Some t \<Rightarrow> - t)"

definition ListInstances :: "reg_db \<Rightarrow> string \<Rightarrow> string \<Rightarrow> (store_error, InstanceRecord list) result" where
  "ListInstances db tenantID serverID =
    (if tenantID = '''' \<or> serverID = '''' then Inl ErrArgs
     else if rg_fault db then Inl ErrSQL
     else Inr (sort_key started_key
            (filter (\<lambda>x. ir_TenantID x = tenantID \<and> ir_ServerID x = serverID) (rg_instances db))))"

subsection \<open>Lookup and update\<close>

lemma find_replace_where:
  assumes "P x"
  shows "List.find P (replace_where P x xs) = Some x"
proof (cases "\<exists>y \<in> set xs. P y")
  case True
  then have "List.find P (map (\<lambda>y. if P y then x else y) xs) = Some x"
    using assms by (induction xs) auto
  with True show ?thesis by (simp add: replace_where_def)
next
  case False
  then have "List.find P (xs @ [x]) = Some x"
    using assms by (induction xs) auto
  with False show ?thesis by (simp add: replace_where_def)
qed

lemma find_replace_other:
  assumes "\<And>y. P y \<Longrightarrow> \<not> Q y" and "P x"
  shows "List.find Q (replace_where P x xs) = List.find Q xs"
proof -
  have "List.find Q (map (\<lambda>y. if P y then x else y) xs) = List.find Q xs"
    using assms by (induction xs) auto
  moreover have "List.find Q (xs @ [x]) = List.find Q xs"
    using assms by (induction xs) auto
  ultimately show ?thesis by (simp add: replace_where_def)
qed

lemma find_filter_disjoint:
  "(\<And>y. Q y \<Longrightarrow> \<not> P y) \<Longrightarrow> List.find Q (filter (\<lambda>y. \<not> P y) xs) = List.find Q xs"
  by (induction xs) auto

lemma find_filter_same: "List.find P (filter (\<lambda>y. \<not> P y) xs) = None"
  by (induction xs) auto

lemma same_server_row [simp]:
  "same_server t i (server_row now old r) = same_server t i r"
  by (simp add: same_server_def server_row_def)

lemma GetServer_UpsertServer:
  assumes "UpsertServer now r db = Inr db'"
  shows "GetServer db' (sr_TenantID r) (sr_ID r) =
    Inr (server_row now (List.find (same_server (sr_TenantID r) (sr_ID r)) (rg_servers db)) r)"
proof -
  have "same_server (sr_TenantID r) (sr_ID r) r" by (simp add: same_server_def)
  then show ?thesis
    using assms by (auto simp: UpsertServer_def GetServer_def Let_def find_replace_where split: if_splits)
qed

lemma GetServer_UpsertServer_other:
  assumes "UpsertServer now r db = Inr db'" and "(t, i) \<noteq> (sr_TenantID r, sr_ID r)"
  shows "GetServer db' t i = GetServer db t i"
proof -
  let ?same = "same_server (sr_TenantID r) (sr_ID r)"
  let ?row = "server_row now (List.find ?same (rg_servers db)) r"
  have db': "db' = db \<lparr> rg_servers := replace_where ?same ?row (rg_servers db) \<rparr>"
    using assms(1) by (simp add: UpsertServer_def Let_def split: if_splits)
  have "?same ?row" by (simp add: same_server_def server_row_def)
  moreover have "\<not> same_server t i y" if "?same y" for y
    using that assms(2) by (auto simp: same_server_def)
  ultimately have "List.find (same_server t i) (rg_servers db') = List.find (same_server t i) (rg_servers db)"
    by (simp add: db' find_replace_other)
  then show ?thesis by (simp add: GetServer_def db')
qed

lemma GetServer_DeleteServer:
  assumes "DeleteServer t i db = Inr db'"
  shows "GetServer db' t i = Inl ErrNotFound"
  using assms find_filter_same [of "same_server t i" "rg_servers db"]
  by (auto simp: DeleteServer_def GetServer_def split: if_splits)

lemma GetServer_DeleteServer_other:
  assumes "DeleteServer t i db = Inr db'" and "(t', i') \<noteq> (t, i)"
  shows "GetServer db' t' i' = GetServer db t' i'"
proof -
  have "List.find (same_server t' i') (filter (\<lambda>r. \<not> same_server t i r) (rg_servers db)) =
      List.find (same_server t' i') (rg_servers db)"
    using assms(2) by (intro find_filter_disjoint) (auto simp: same_server_def)
  then show ?thesis
    using assms(1) by (auto simp: DeleteServer_def GetServer_def split: if_splits)
qed

subsection \<open>Referential integrity\<close>

definition reg_wf :: "reg_db \<Rightarrow> bool" where
  "reg_wf db =
    (distinct (map (\<lambda>r. (sr_TenantID r, sr_ID r)) (rg_servers db))
     \<and> distinct (map ir_ID (rg_instances db))
     \<and> (\<forall>x \<in> set (rg_instances db).
          \<exists>r \<in> set (rg_servers db). same_server (ir_TenantID x) (ir_ServerID x) r)
     \<and> (\<forall>r \<in> set (rg_servers db). sr_TenantID r \<in> set (rg_tenants db)))"

end
