(* ===== verification/Server_Registry.thy ===== *)
theory Server_Registry
  imports Registry_Store
begin

text \<open>
  \<open>internal/registry/registry.go\<close>, \<open>apply.go\<close> and \<open>reactor.go\<close>: tenant-scoped
  mutations of the registered servers and the change events they broadcast.  A
  subscription is a channel of capacity 32, modelled as the list of events in
  it, oldest first; a full channel loses its oldest event.  The clock is an
  argument of the operations that read it.
\<close>

record Snapshot =
  snap_Spec :: ServerSpec
  snap_Record :: ServerRecord

datatype ServerChangeKind = ChangeAdded | ChangeUpdated | ChangeRemoved

record ServerChange =
  ce_Kind :: ServerChangeKind
  ce_TenantID :: string
  ce_ServerID :: string
  ce_Old :: "Snapshot option"
  ce_New :: "Snapshot option"

record Registry =
  rs_store :: reg_db
  rs_subscribers :: "(nat, ServerChange list) amap"

datatype registry_error =
    RegStore store_error
  | RegDecode string string
  | RegTenantRequired
  | RegIDsRequired
  | RegInvalid string
  | RegExists string string
  | RegSpecRequired
  | RegIDRequired

definition lift_store :: "(store_error, 'a) result \<Rightarrow> (registry_error, 'a) result" where
  "lift_store r = (case r of Inl e \<Rightarrow> Inl (RegStore e) | Inr x \<Rightarrow> Inr x)"

subsection \<open>Change events\<close>

definition sub_capacity :: nat where "sub_capacity = 32"

definition reg_send :: "ServerChange \<Rightarrow> ServerChange list \<Rightarrow> ServerChange list" where
  "reg_send ev q = (if length q < sub_capacity then q @ [ev] else tl q @ [ev])"

definition reg_publish :: "ServerChange \<Rightarrow> Registry \<Rightarrow> Registry" where
  "reg_publish ev r = r \<lparr> rs_subscribers := map (\<lambda>(c, q). (c, reg_send ev q)) (rs_subscribers r) \<rparr>"

definition reg_Subscribe :: "nat \<Rightarrow> Registry \<Rightarrow> Registry" where
  "reg_Subscribe c r = r \<lparr> rs_subscribers := aput c [] (rs_subscribers r) \<rparr>"

definition reg_Unsubscribe :: "nat \<Rightarrow> Registry \<Rightarrow> Registry" where
  "reg_Unsubscribe c r = r \<lparr> rs_subscribers := adel c (rs_subscribers r) \<rparr>"

definition reg_CloseAll :: "Registry \<Rightarrow> Registry" where
  "reg_CloseAll r = r \<lparr> rs_subscribers := [] \<rparr>"

subsection \<open>Reading\<close>

definition recordToSnapshot :: "ServerRecord \<Rightarrow> (registry_error, Snapshot) result" where
  "recordToSnapshot rec =
    (case sr_Spec rec of
       None \<Rightarrow> Inl (RegDecode (sr_TenantID rec) (sr_ID rec))
     | Some spec \<Rightarrow> Inr \<lparr> snap_Spec = spec, snap_Record = rec \<rparr>)"

definition reg_Get :: "Registry \<Rightarrow> string \<Rightarrow> string \<Rightarrow> (registry_error, Snapshot) result" where
  "reg_Get r tenantID i = res_bind (lift_store (GetServer (rs_store r) tenantID i)) recordToSnapshot"

definition snap_opt :: "ServerRecord \<Rightarrow> Snapshot option" where
  "snap_opt rec = (case recordToSnapshot rec of Inl e \<Rightarrow> None | Inr s \<Rightarrow> Some s)"

definition reg_List :: "Registry \<Rightarrow> string \<Rightarrow> (registry_error, Snapshot list) result" where
  "reg_List r tenantID =
    res_bind (lift_store (ListServers (rs_store r) tenantID)) (\<lambda>recs. Inr (List.map_filter snap_opt recs))"

subsection \<open>Mutations\<close>

definition record_of_spec :: "string \<Rightarrow> ServerSpec \<Rightarrow> ServerRecord option \<Rightarrow> time \<Rightarrow> ServerRecord" where
  "record_of_spec tenantID spec old now =
    \<lparr> sr_TenantID = tenantID, sr_ID = ss_ID spec, sr_DisplayName = ss_DisplayName spec,
      sr_Transport = ss_Transport spec, sr_RuntimeMode = ss_RuntimeMode spec, sr_Spec = Some spec,
      sr_Enabled = (case ss_Enabled spec of None \<Rightarrow> True | Some b \<Rightarrow> b),
      sr_Status = (case old of None \<Rightarrow> ''unknown'' | Some o' \<Rightarrow> sr_Status o'),
      sr_StatusDetail = (case old of None \<Rightarrow> '''' | Some o' \<Rightarrow> sr_StatusDetail o'),
      sr_SchemaHash = (case old of None \<Rightarrow> '''' | Some o' \<Rightarrow> sr_SchemaHash o'),
      sr_LastError = (case old of None \<Rightarrow> '''' | Some o' \<Rightarrow> sr_LastError o'),
      sr_CreatedAt = (case old of None \<Rightarrow> None | Some o' \<Rightarrow> sr_CreatedAt o'),
      sr_UpdatedAt = Some now \<rparr>"

definition ok_opt :: "('e, 'a) result \<Rightarrow> 'a option" where
  "ok_opt r = (case r of Inl e \<Rightarrow> None | Inr x \<Rightarrow> Some x)"

definition reg_Upsert ::
  "time \<Rightarrow> string \<Rightarrow> ServerSpec option \<Rightarrow> Registry \<Rightarrow> (registry_error, Snapshot \<times> Registry) result" where
  "reg_Upsert now tenantID spec r =
    (if tenantID = '''' then Inl RegTenantRequired
     else case spec_Validate spec of
       Inl fld \<Rightarrow> Inl (RegInvalid fld)
     | Inr s \<Rightarrow>
         let old = ok_opt (GetServer (rs_store r) tenantID (ss_ID s));
             rec = record_of_spec tenantID s old now in
         res_bind (lift_store (UpsertServer now rec (rs_store r))) (\<lambda>db.
         res_bind (recordToSnapshot rec) (\<lambda>snap.
           Inr (snap, reg_publish
             \<lparr> ce_Kind = (if old = None then ChangeAdded else ChangeUpdated), ce_TenantID = tenantID,
               ce_ServerID = ss_ID s, ce_Old = Option.bind old snap_opt, ce_New = Some snap \<rparr>
             (r \<lparr> rs_store := db \<rparr>)))))"

definition reg_Delete :: "string \<Rightarrow> string \<Rightarrow> Registry \<Rightarrow> (registry_error, Registry) result" where
  "reg_Delete tenantID i r =
    (if tenantID = '''' \<or> i = '''' then Inl RegIDsRequired
     else res_bind (lift_store (GetServer (rs_store r) tenantID i)) (\<lambda>old.
          res_bind (lift_store (DeleteServer tenantID i (rs_store r))) (\<lambda>db.
            Inr (reg_publish
              \<lparr> ce_Kind = ChangeRemoved, ce_TenantID = tenantID, ce_ServerID = i,
                ce_Old = snap_opt old, ce_New = None \<rparr>
              (r \<lparr> rs_store := db \<rparr>)))))"

definition reg_SetEnabled ::
  "time \<Rightarrow> string \<Rightarrow> string \<Rightarrow> bool \<Rightarrow> Registry \<Rightarrow> (registry_error, Snapshot \<times> Registry) result" where
  "reg_SetEnabled now tenantID i enabled r =
    res_bind (lift_store (GetServer (rs_store r) tenantID i)) (\<lambda>rec.
      if sr_Enabled rec = enabled then res_bind (recordToSnapshot rec) (\<lambda>snap. Inr (snap, r))
      else
        let rec' = rec \<lparr> sr_Enabled := enabled,
              sr_Status := (if \<not> enabled then ''disabled''
                            else if sr_Status rec = ''disabled'' then ''unknown'' else sr_Status rec),
              sr_UpdatedAt := Some now \<rparr> in
        res_bind (lift_store (UpsertServer now rec' (rs_store r))) (\<lambda>db.
        res_bind (recordToSnapshot rec') (\<lambda>snap.
          Inr (snap, reg_publish
            \<lparr> ce_Kind = ChangeUpdated, ce_TenantID = tenantID, ce_ServerID = i, ce_Old = None, ce_New = Some snap \<rparr>
            (r \<lparr> rs_store := db \<rparr>)))))"

definition reg_UpdateStatus ::
  "time \<Rightarrow> string \<Rightarrow> string \<Rightarrow> string \<Rightarrow> string \<Rightarrow> Registry \<Rightarrow> (store_error, Registry) result" where
  "reg_UpdateStatus now tenantID i status detail r =
    res_bind (UpdateServerStatus now tenantID i status detail (rs_store r)) (\<lambda>db. Inr (r \<lparr> rs_store := db \<rparr>))"

definition reg_UpsertInstance :: "time \<Rightarrow> InstanceRecord \<Rightarrow> Registry \<Rightarrow> (store_error, Registry) result" where
  "reg_UpsertInstance now i r =
    res_bind (UpsertInstance now i (rs_store r)) (\<lambda>db. Inr (r \<lparr> rs_store := db \<rparr>))"

definition reg_DeleteInstance :: "string \<Rightarrow> string \<Rightarrow> Registry \<Rightarrow> (store_error, Registry) result" where
  "reg_DeleteInstance tenantID i r =
    res_bind (DeleteInstance tenantID i (rs_store r)) (\<lambda>db. Inr (r \<lparr> rs_store := db \<rparr>))"

definition reg_Restart ::
  "time \<Rightarrow> string \<Rightarrow> string \<Rightarrow> Registry \<Rightarrow> (registry_error, Snapshot \<times> Registry) result" where
  "reg_Restart now tenantID serverID r =
    res_bind (lift_store (GetServer (rs_store r) tenantID serverID)) (\<lambda>rec0.
      let rec = rec0 \<lparr> sr_UpdatedAt := Some now \<rparr> in
      res_bind (lift_store (UpsertServer now rec (rs_store r))) (\<lambda>db.
      res_bind (recordToSnapshot rec) (\<lambda>snap.
        Inr (snap, reg_publish
          \<lparr> ce_Kind = ChangeUpdated, ce_TenantID = tenantID, ce_ServerID = serverID,
            ce_Old = None, ce_New = Some snap \<rparr>
          (r \<lparr> rs_store := db \<rparr>)))))"

datatype MutOp = MutOpCreate | MutOpUpdate | MutOpDelete | MutOpRestart

record Mutation =
  mu_Op :: MutOp
  mu_Server :: "ServerSpec option"
  mu_ServerID :: string

definition mutation_id :: "Mutation \<Rightarrow> string" where
  "mutation_id m =
    (if mu_ServerID m = '''' then (case mu_Server m of None \<Rightarrow> '''' | Some s \<Rightarrow> ss_ID s) else mu_ServerID m)"

definition reg_Apply ::
  "time \<Rightarrow> string \<Rightarrow> Mutation \<Rightarrow> Registry \<Rightarrow> (registry_error, Snapshot option \<times> Registry) result" where
  "reg_Apply now tenantID m r =
    (if tenantID = '''' then Inl RegTenantRequired
     else case mu_Op m of
       MutOpCreate \<Rightarrow>
         (case mu_Server m of
            None \<Rightarrow> Inl RegSpecRequired
          | Some s \<Rightarrow>
              if ok_opt (GetServer (rs_store r) tenantID (ss_ID s)) \<noteq> None then Inl (RegExists (ss_ID s) tenantID)
              else res_bind (reg_Upsert now tenantID (Some s) r) (\<lambda>(snap, r'). Inr (Some snap, r')))
     | MutOpUpdate \<Rightarrow>
         (case mu_Server m of
            None \<Rightarrow> Inl RegSpecRequired
          | Some s \<Rightarrow> res_bind (reg_Upsert now tenantID (Some s) r) (\<lambda>(snap, r'). Inr (Some snap, r')))
     | MutOpDelete \<Rightarrow>
         (if mutation_id m = '''' then Inl RegIDRequired
          else res_bind (reg_Delete tenantID (mutation_id m) r) (\<lambda>r'. Inr (None, r')))
     | MutOpRestart \<Rightarrow>
         (if mutation_id m = '''' then Inl RegIDRequired
          else res_bind (reg_Restart now tenantID (mutation_id m) r) (\<lambda>(snap, r'). Inr (Some snap, r'))))"

subsection \<open>Subscriptions as bounded logs\<close>

definition last_n :: "nat \<Rightarrow> 'a list \<Rightarrow> 'a list" where
  "last_n n xs = drop (length xs - n) xs"

lemma length_last_n [simp]: "length (last_n n xs) = min n (length xs)"
  by (simp add: last_n_def)

lemma reg_send_last_n:
  "reg_send ev (last_n sub_capacity evs) = last_n sub_capacity (evs @ [ev])"
proof (cases "length evs < sub_capacity")
  case True
  then show ?thesis by (simp add: reg_send_def last_n_def)
next
  case False
  then have "Suc (length evs) - sub_capacity = Suc (length evs - sub_capacity)" by simp
  moreover have "Suc 0 - sub_capacity = 0" by (simp add: sub_capacity_def)
  ultimately show ?thesis using False by (simp add: reg_send_def last_n_def drop_Suc tl_drop)
qed

lemma fold_reg_send:
  "fold reg_send evs (last_n sub_capacity pre) = last_n sub_capacity (pre @ evs)"
  by (induction evs arbitrary: pre) (simp_all add: reg_send_last_n)

lemma reg_send_mem: "ev \<in> set (reg_send ev q)"
  by (simp add: reg_send_def)

lemma reg_send_room: "length q < sub_capacity \<Longrightarrow> reg_send ev q = q @ [ev]"
  by (simp add: reg_send_def)

lemma reg_publish_store [simp]: "rs_store (reg_publish ev r) = rs_store r"
  by (simp add: reg_publish_def)

lemma reg_publish_sub:
  "aget (rs_subscribers (reg_publish ev r)) c = map_option (reg_send ev) (aget (rs_subscribers r) c)"
proof -
  have "map_of (map (\<lambda>(c, q). (c, reg_send ev q)) m) c = map_option (reg_send ev) (map_of m c)" for m
    by (induction m) auto
  then show ?thesis by (simp add: reg_publish_def)
qed

subsection \<open>What a mutation does\<close>

lemma lift_store_Inr [simp]: "lift_store x = Inr y \<longleftrightarrow> x = Inr y"
  by (auto simp: lift_store_def split: sum.splits)

lemma recordToSnapshot_Inr:
  "recordToSnapshot rec = Inr snap \<longleftrightarrow> snap_Record snap = rec \<and> sr_Spec rec = Some (snap_Spec snap)"
  by (cases snap) (auto simp: recordToSnapshot_def split: option.splits)

text \<open>The contract of a successful write of a row: the row read back carries what was written, every
  other row is untouched, and one event announces the change to every subscriber.\<close>

definition announced :: "string \<Rightarrow> ServerChange \<Rightarrow> Registry \<Rightarrow> Registry \<Rightarrow> bool" where
  "announced tenantID ev r r' =
    (rs_subscribers r' = rs_subscribers (reg_publish ev r)
     \<and> ce_TenantID ev = tenantID
     \<and> (\<forall>t i. (t, i) \<noteq> (tenantID, ce_ServerID ev) \<longrightarrow> reg_Get r' t i = reg_Get r t i)
     \<and> (case ce_New ev of
          None \<Rightarrow> ce_Kind ev = ChangeRemoved \<and> reg_Get r' tenantID (ce_ServerID ev) = Inl (RegStore ErrNotFound)
        | Some snap \<Rightarrow> ce_Kind ev \<noteq> ChangeRemoved
            \<and> (\<exists>got. reg_Get r' tenantID (ce_ServerID ev) = Inr got \<and> snap_Spec got = snap_Spec snap
                 \<and> sr_Enabled (snap_Record got) = sr_Enabled (snap_Record snap)
                 \<and> sr_Status (snap_Record got) = sr_Status (snap_Record snap))))"

lemma announced_write:
  assumes "UpsertServer now rec (rs_store r) = Inr db" and "recordToSnapshot rec = Inr snap"
    and "sr_TenantID rec = tenantID" and "sr_ID rec = i" and "kind \<noteq> ChangeRemoved"
  shows "announced tenantID
      \<lparr> ce_Kind = kind, ce_TenantID = tenantID, ce_ServerID = i, ce_Old = old, ce_New = Some snap \<rparr> r
      (reg_publish \<lparr> ce_Kind = kind, ce_TenantID = tenantID, ce_ServerID = i, ce_Old = old, ce_New = Some snap \<rparr>
        (r \<lparr> rs_store := db \<rparr>))"
proof -
  let ?row = "server_row now (List.find (same_server tenantID i) (rg_servers (rs_store r))) rec"
  have "GetServer db tenantID i = Inr ?row"
    using GetServer_UpsertServer [OF assms(1)] assms(3,4) by simp
  moreover have "recordToSnapshot ?row = Inr (snap \<lparr> snap_Record := ?row \<rparr>)"
    using assms(2) by (simp add: recordToSnapshot_Inr server_row_def)
  moreover have "GetServer db t j = GetServer (rs_store r) t j" if "(t, j) \<noteq> (tenantID, i)" for t j
    using GetServer_UpsertServer_other [OF assms(1)] that assms(3,4) by simp
  moreover have "snap_Record snap = rec" using assms(2) by (simp add: recordToSnapshot_Inr)
  ultimately show ?thesis
    using assms(5) by (simp add: announced_def reg_Get_def lift_store_def server_row_def reg_publish_def)
qed

lemma reg_Upsert_announced:
  assumes "reg_Upsert now tenantID spec r = Inr (snap, r')"
  shows "\<exists>ev. announced tenantID ev r r' \<and> ce_New ev = Some snap"
proof -
  from assms obtain s db old where
      up: "UpsertServer now (record_of_spec tenantID s old now) (rs_store r) = Inr db"
      and sn: "recordToSnapshot (record_of_spec tenantID s old now) = Inr snap"
      and r': "r' = reg_publish \<lparr> ce_Kind = (if old = None then ChangeAdded else ChangeUpdated),
          ce_TenantID = tenantID, ce_ServerID = ss_ID s, ce_Old = Option.bind old snap_opt, ce_New = Some snap \<rparr>
          (r \<lparr> rs_store := db \<rparr>)"
    by (auto simp: reg_Upsert_def Let_def split: if_splits sum.splits)
  show ?thesis
    unfolding r'
    by (intro exI conjI, rule announced_write [OF up sn]) (simp_all add: record_of_spec_def)
qed

lemma reg_Restart_announced:
  assumes "reg_Restart now tenantID i r = Inr (snap, r')"
  shows "\<exists>ev. announced tenantID ev r r' \<and> ce_New ev = Some snap"
proof -
  from assms obtain rec db where
      get: "GetServer (rs_store r) tenantID i = Inr rec"
      and up: "UpsertServer now (rec \<lparr> sr_UpdatedAt := Some now \<rparr>) (rs_store r) = Inr db"
      and sn: "recordToSnapshot (rec \<lparr> sr_UpdatedAt := Some now \<rparr>) = Inr snap"
      and r': "r' = reg_publish \<lparr> ce_Kind = ChangeUpdated, ce_TenantID = tenantID, ce_ServerID = i,
            ce_Old = None, ce_New = Some snap \<rparr> (r \<lparr> rs_store := db \<rparr>)"
    by (auto simp: reg_Restart_def Let_def)
  have "sr_TenantID rec = tenantID \<and> sr_ID rec = i"
    using get by (auto simp: GetServer_def same_server_def split: if_splits option.splits dest!: find_Some_prop)
  then show ?thesis
    unfolding r' using announced_write [OF up sn, of tenantID i ChangeUpdated None] by fastforce
qed

lemma reg_Delete_announced:
  assumes "reg_Delete tenantID i r = Inr r'"
  shows "\<exists>ev. announced tenantID ev r r' \<and> ce_New ev = None"
proof -
  from assms obtain old db where
      del: "DeleteServer tenantID i (rs_store r) = Inr db"
      and r': "r' = reg_publish \<lparr> ce_Kind = ChangeRemoved, ce_TenantID = tenantID, ce_ServerID = i,
            ce_Old = snap_opt old, ce_New = None \<rparr> (r \<lparr> rs_store := db \<rparr>)"
    by (auto simp: reg_Delete_def split: if_splits)
  show ?thesis
    unfolding r' using GetServer_DeleteServer [OF del] GetServer_DeleteServer_other [OF del]
    by (intro exI [of _ "\<lparr> ce_Kind = ChangeRemoved, ce_TenantID = tenantID, ce_ServerID = i,
            ce_Old = snap_opt old, ce_New = None \<rparr>"])
      (simp add: announced_def reg_Get_def lift_store_def reg_publish_def)
qed

subsection \<open>Properties\<close>

text \<open>Every accepted registry mutation is visible and announced.  The row of the mutated server reads
  back as the returned snapshot (spec, enabled flag, status), or as absent after a delete; no other
  server of any tenant changes; and every subscriber receives exactly one event, whose kind tells a
  removal from a write and which carries that snapshot.\<close>

theorem registry_mutation_announced:
  assumes "reg_Apply now tenantID m r = Inr (so, r')"
  shows "\<exists>ev. announced tenantID ev r r' \<and> ce_New ev = so"
  using assms
  by (cases "mu_Op m")
    (auto simp: reg_Apply_def split: if_splits option.splits
      dest!: reg_Upsert_announced reg_Restart_announced reg_Delete_announced)

definition sample_registry :: Registry where
  "sample_registry =
    \<lparr> rs_store = \<lparr> rg_fault = False, rg_fk = True, rg_tenants = [''acme''], rg_servers = [], rg_instances = [] \<rparr>,
      rs_subscribers = [(0, [])] \<rparr>"

theorem registry_mutation_announced_witness:
  "\<exists>snap r' ev. reg_Apply 0 ''acme'' \<lparr> mu_Op = MutOpCreate, mu_Server = Some sample_spec, mu_ServerID = '''' \<rparr>
       sample_registry = Inr (Some snap, r')
     \<and> announced ''acme'' ev sample_registry r' \<and> ce_New ev = Some snap"
proof -
  have "ValidateServerID ''github''" by code_simp
  then have "\<exists>s. spec_Validate (Some sample_spec) = Inr s \<and> ss_ID s = ''github''"
    by (simp add: spec_Validate_def sample_spec_def defaulted_mode_def ValidModes_def validate_transport_def Let_def)
  then obtain s where s: "spec_Validate (Some sample_spec) = Inr s" "ss_ID s = ''github''" by blast
  then have "\<exists>snap r'. reg_Apply 0 ''acme''
      \<lparr> mu_Op = MutOpCreate, mu_Server = Some sample_spec, mu_ServerID = '''' \<rparr> sample_registry = Inr (Some snap, r')"
    by (simp add: reg_Apply_def reg_Upsert_def sample_registry_def GetServer_def ok_opt_def UpsertServer_def
        record_of_spec_def recordToSnapshot_def sample_spec_def Let_def)
  then obtain snap r' where run: "reg_Apply 0 ''acme''
      \<lparr> mu_Op = MutOpCreate, mu_Server = Some sample_spec, mu_ServerID = '''' \<rparr> sample_registry = Inr (Some snap, r')"
    by blast
  from registry_mutation_announced [OF run] run show ?thesis by blast
qed

text \<open>A subscription is a bounded log of the most recent changes.  Whatever was published to a
  subscriber that has not yet consumed anything, its channel holds exactly the last 32 events in
  publication order; a consumer that falls further behind silently misses the oldest ones.\<close>

theorem subscription_keeps_latest:
  "aget (rs_subscribers (fold reg_publish evs (reg_Subscribe c r))) c = Some (last_n sub_capacity evs)"
proof -
  have "aget (rs_subscribers (fold reg_publish evs x)) c =
      map_option (fold reg_send evs) (aget (rs_subscribers x) c)" for x
    by (induction evs arbitrary: x) (simp_all add: reg_publish_sub option.map_comp o_def option.map_id0)
  then show ?thesis
    using fold_reg_send [of evs "[]"] by (simp add: reg_Subscribe_def last_n_def)
qed

end
