(* ===== verification/Supervisor.thy ===== *)
theory Supervisor
  imports Registry_Store Secret_Refs
begin

text \<open>
  \<open>internal/runtime/process\<close>: \<open>supervisor.go\<close>, \<open>idle.go\<close>, \<open>health.go\<close> and the
  bookkeeping of \<open>notif_pump.go\<close>.  Instances live on a heap, because goroutines
  keep pointers to instances that have left the map; a client is a handle, and
  the table of open clients records the configuration each was started with.
  What the operating system and the peer decide is an argument: whether a
  client with a given configuration starts, what a probe returns, the clock,
  the random instance id.  Calls into the registry never influence the
  supervisor, so an operation appends them to a log instead.
\<close>

datatype inst_state =
  StateStarting | StateRunning | StateIdle | StateStopping | StateCrashed | StateBackoff | StateCircuitOpen

fun state_name :: "inst_state \<Rightarrow> string" where
  "state_name StateStarting = ''starting''"
| "state_name StateRunning = ''running''"
| "state_name StateIdle = ''idle''"
| "state_name StateStopping = ''stopping''"
| "state_name StateCrashed = ''crashed''"
| "state_name StateBackoff = ''backoff''"
| "state_name StateCircuitOpen = ''circuit_open''"

record InstanceKey =
  ik_TenantID :: string
  ik_ServerID :: string
  ik_UserID :: string
  ik_SessionID :: string

record AcquireOpts =
  ao_TenantID :: string
  ao_UserID :: string
  ao_SessionID :: string
  ao_AuthEnv :: "(string, string) amap"

datatype sup_error =
    NilSpec
  | IdentityRequired string
  | UnsupportedMode string
  | CircuitOpenUntil string time
  | UnexpectedState string inst_state
  | UnsupportedTransport string
  | CommandRequired string
  | URLRequired string
  | EnvUnresolved string inject_error
  | StartFailed string
  | ProbesFailed string
  | NoInstance

definition KeyForMode :: "string \<Rightarrow> string \<Rightarrow> AcquireOpts \<Rightarrow> (sup_error, InstanceKey) result" where
  "KeyForMode mode serverID opts =
    (let key = \<lparr> ik_TenantID = ao_TenantID opts, ik_ServerID = serverID, ik_UserID = '''', ik_SessionID = '''' \<rparr> in
     if mode = ''shared_global'' \<or> mode = ''remote_static'' then Inr (key \<lparr> ik_TenantID := ''_global'' \<rparr>)
     else if mode = ''per_tenant'' then
       (if ao_TenantID opts = '''' then Inl (IdentityRequired mode) else Inr key)
     else if mode = ''per_user'' then
       (if ao_TenantID opts = '''' \<or> ao_UserID opts = '''' then Inl (IdentityRequired mode)
        else Inr (key \<lparr> ik_UserID := ao_UserID opts \<rparr>))
     else if mode = ''per_session'' then
       (if ao_TenantID opts = '''' \<or> ao_SessionID opts = '''' then Inl (IdentityRequired mode)
        else Inr (key \<lparr> ik_UserID := ao_UserID opts, ik_SessionID := ao_SessionID opts \<rparr>))
     else Inl (UnsupportedMode mode))"

subsection \<open>Idle timers\<close>

text \<open>\<open>it_timer\<close> is \<open>None\<close> while no timer exists, \<open>Some None\<close> for one that has gone off, and
  \<open>Some (Some d)\<close> for one that goes off at \<open>d\<close>.\<close>

record IdleTimer =
  it_timeout :: duration
  it_timer :: "time option option"
  it_stopped :: bool
  it_fired :: bool

definition NewIdleTimer :: "duration \<Rightarrow> IdleTimer" where
  "NewIdleTimer timeout = \<lparr> it_timeout = timeout, it_timer = None, it_stopped = False, it_fired = False \<rparr>"

definition idle_Start :: "time \<Rightarrow> IdleTimer \<Rightarrow> IdleTimer" where
  "idle_Start now t =
    (if it_timeout t \<le> 0 \<or> it_timer t \<noteq> None \<or> it_stopped t then t
     else t \<lparr> it_timer := Some (Some (now + it_timeout t)) \<rparr>)"

definition idle_Tick :: "time \<Rightarrow> IdleTimer \<Rightarrow> IdleTimer" where
  "idle_Tick now t =
    (if it_timeout t \<le> 0 \<or> it_stopped t \<or> it_fired t then t
     else t \<lparr> it_timer := Some (Some (now + it_timeout t)) \<rparr>)"

definition idle_Stop :: "IdleTimer \<Rightarrow> IdleTimer" where
  "idle_Stop t = t \<lparr> it_stopped := True, it_timer := None \<rparr>"

text \<open>The timer goes off at its deadline and runs \<open>fire\<close>; the boolean tells whether the callback runs.\<close>

definition idle_fire :: "time \<Rightarrow> IdleTimer \<Rightarrow> bool \<times> IdleTimer" where
  "idle_fire now t =
    (case it_timer t of
       Some (Some d) \<Rightarrow>
         if now < d then (False, t)
         else if it_stopped t \<or> it_fired t then (False, t \<lparr> it_timer := Some None \<rparr>)
         else (True, t \<lparr> it_timer := Some None, it_fired := True \<rparr>)
     | _ \<Rightarrow> (False, t))"

subsection \<open>State\<close>

datatype client_config =
    StdioConfig string string "string list" "string list" string duration
  | HTTPConfig string string string duration

record supervised =
  in_id :: string
  in_key :: InstanceKey
  in_spec :: ServerSpec
  in_tenantID :: string
  in_authEnv :: "(string, string) amap"
  in_state :: inst_state
  in_client :: "nat option"
  in_startedAt :: "time option"
  in_lastCallAt :: "time option"
  in_lastError :: "sup_error option"
  in_restartCount :: int
  in_circuitUntil :: time
  in_idle :: "IdleTimer option"

datatype registry_call =
    CallUpsertInstance InstanceRecord
  | CallUpdateStatus string string string string
  | CallDeleteInstance string string

record supervisor =
  sv_heap :: "(nat, supervised) amap"
  sv_instances :: "(InstanceKey, nat) amap"
  sv_starting :: "InstanceKey list"
  sv_clients :: "(nat, client_config) amap"
  sv_fresh :: nat
  sv_probes :: "(string, nat option) amap"
  sv_sink :: bool
  sv_pumps :: "string list"
  sv_stopped :: bool
  sv_calls :: "registry_call list"

record sup_env =
  se_start :: "client_config \<Rightarrow> string option"
  se_traceparent :: string
  se_vault :: "vault option"
  se_lookupEnv :: "string \<Rightarrow> string option"
  se_error_text :: "sup_error \<Rightarrow> string"
  se_newID :: string

definition upd :: "nat \<Rightarrow> (supervised \<Rightarrow> supervised) \<Rightarrow> supervisor \<Rightarrow> supervisor" where
  "upd p f s = (case aget (sv_heap s) p of None \<Rightarrow> s | Some i \<Rightarrow> s \<lparr> sv_heap := aput p (f i) (sv_heap s) \<rparr>)"

definition close_client :: "nat option \<Rightarrow> supervisor \<Rightarrow> supervisor" where
  "close_client c s = (case c of None \<Rightarrow> s | Some h \<Rightarrow> s \<lparr> sv_clients := adel h (sv_clients s) \<rparr>)"

definition call_registry :: "registry_call \<Rightarrow> supervisor \<Rightarrow> supervisor" where
  "call_registry c s = s \<lparr> sv_calls := sv_calls s @ [c] \<rparr>"

subsection \<open>Bookkeeping\<close>

definition persistInstance :: "sup_env \<Rightarrow> supervised \<Rightarrow> sup_error option \<Rightarrow> supervisor \<Rightarrow> supervisor" where
  "persistInstance env i lastErr =
    call_registry (CallUpsertInstance
      \<lparr> ir_ID = in_id i, ir_TenantID = ik_TenantID (in_key i), ir_ServerID = ik_ServerID (in_key i),
        ir_UserID = ik_UserID (in_key i), ir_SessionID = ik_SessionID (in_key i), ir_PID = 0,
        ir_StartedAt = in_startedAt i, ir_LastCallAt = in_lastCallAt i, ir_State = state_name (in_state i),
        ir_RestartCount = in_restartCount i,
        ir_LastError = (case lastErr of Some e \<Rightarrow> se_error_text env e
          | None \<Rightarrow> (case in_lastError i of None \<Rightarrow> '''' | Some e \<Rightarrow> se_error_text env e)),
        ir_SchemaHash = '''' \<rparr>)"

definition publishStatus :: "ServerSpec \<Rightarrow> string \<Rightarrow> string \<Rightarrow> supervisor \<Rightarrow> supervisor" where
  "publishStatus spec status detail = call_registry (CallUpdateStatus ''_global'' (ss_ID spec) status detail)"

text \<open>\<open>HealthChecker.Track\<close>: one probe goroutine per instance id, unless probing is disabled.\<close>

definition health_Track :: "supervised \<Rightarrow> supervisor \<Rightarrow> supervisor" where
  "health_Track i s =
    (if he_PingInterval (ss_Health (in_spec i)) \<le> 0 \<or> sv_stopped s \<or> aget (sv_probes s) (in_id i) \<noteq> None then s
     else s \<lparr> sv_probes := aput (in_id i) (Some 0) (sv_probes s) \<rparr>)"

definition health_Untrack :: "string \<Rightarrow> supervisor \<Rightarrow> supervisor" where
  "health_Untrack i s = s \<lparr> sv_probes := adel i (sv_probes s) \<rparr>"

text \<open>\<open>NotifPump.Track\<close>: one forwarding goroutine per instance id, once a sink is installed.\<close>

definition notif_Track :: "supervised \<Rightarrow> supervisor \<Rightarrow> supervisor" where
  "notif_Track i s =
    (if \<not> sv_sink s \<or> in_client i = None \<or> sv_stopped s \<or> in_id i \<in> set (sv_pumps s) then s
     else s \<lparr> sv_pumps := sv_pumps s @ [in_id i] \<rparr>)"

definition notif_Untrack :: "string \<Rightarrow> supervisor \<Rightarrow> supervisor" where
  "notif_Untrack i s = s \<lparr> sv_pumps := filter (\<lambda>x. x \<noteq> i) (sv_pumps s) \<rparr>"

definition SetNotifSink :: "supervisor \<Rightarrow> supervisor" where
  "SetNotifSink s =
    fold (\<lambda>(k, p) s. case aget (sv_heap s) p of None \<Rightarrow> s | Some i \<Rightarrow> notif_Track i s)
      (sv_instances s) (s \<lparr> sv_sink := True \<rparr>)"

subsection \<open>Starting clients\<close>

definition stdio_env :: "sup_env \<Rightarrow> supervised \<Rightarrow> StdioSpec \<Rightarrow> string list" where
  "stdio_env env i st =
    st_Env st @ map (\<lambda>(k, v). k @ ''='' @ v) (in_authEnv i)
    @ (if se_traceparent env = '''' then []
       else [''MCP_TRACEPARENT='' @ se_traceparent env, ''TRACEPARENT='' @ se_traceparent env])"

definition spawnStdio :: "sup_env \<Rightarrow> supervised \<Rightarrow> (sup_error, client_config) result" where
  "spawnStdio env i =
    (case ss_Stdio (in_spec i) of
       None \<Rightarrow> Inl (CommandRequired (ss_ID (in_spec i)))
     | Some st \<Rightarrow>
         if st_Command st = '''' then Inl (CommandRequired (ss_ID (in_spec i)))
         else case resolver_Resolve (se_vault env) (se_lookupEnv env) (in_tenantID i) (stdio_env env i st) of
           Inl e \<Rightarrow> Inl (EnvUnresolved (ss_ID (in_spec i)) e)
         | Inr resolved \<Rightarrow>
             Inr (StdioConfig (ss_ID (in_spec i)) (st_Command st) (st_Args st) resolved (st_Cwd st)
                    (st_StartTimeout st)))"

definition spawnHTTP :: "supervised \<Rightarrow> (sup_error, client_config) result" where
  "spawnHTTP i =
    (case ss_HTTP (in_spec i) of
       None \<Rightarrow> Inl (URLRequired (ss_ID (in_spec i)))
     | Some h \<Rightarrow>
         if ht_URL h = '''' then Inl (URLRequired (ss_ID (in_spec i)))
         else Inr (HTTPConfig (ss_ID (in_spec i)) (ht_URL h) (ht_AuthHeader h) (ht_Timeout h)))"

definition client_for :: "sup_env \<Rightarrow> supervised \<Rightarrow> (sup_error, client_config) result" where
  "client_for env i =
    (if ss_Transport (in_spec i) = ''stdio'' then spawnStdio env i
     else if ss_Transport (in_spec i) = ''http'' then spawnHTTP i
     else Inl (UnsupportedTransport (ss_Transport (in_spec i))))"

definition spawnClient :: "sup_env \<Rightarrow> supervised \<Rightarrow> supervisor \<Rightarrow> (sup_error, nat) result \<times> supervisor" where
  "spawnClient env i s =
    (case client_for env i of
       Inl e \<Rightarrow> (Inl e, s)
     | Inr cfg \<Rightarrow>
         (case se_start env cfg of
            Some e \<Rightarrow> (Inl (StartFailed e), s)
          | None \<Rightarrow> (Inr (sv_fresh s),
              s \<lparr> sv_clients := aput (sv_fresh s) cfg (sv_clients s), sv_fresh := Suc (sv_fresh s) \<rparr>)))"

subsection \<open>Starting and restarting instances\<close>

definition new_instance ::
  "sup_env \<Rightarrow> InstanceKey \<Rightarrow> ServerSpec \<Rightarrow> string \<Rightarrow> (string, string) amap \<Rightarrow> supervised" where
  "new_instance env key spec tenantID authEnv =
    \<lparr> in_id = se_newID env, in_key = key, in_spec = spec, in_tenantID = tenantID, in_authEnv = authEnv,
      in_state = StateStarting, in_client = None, in_startedAt = None, in_lastCallAt = None,
      in_lastError = None, in_restartCount = 0, in_circuitUntil = 0,
      in_idle = (if lc_IdleTimeout (ss_Lifecycle spec) > 0
                 then Some (NewIdleTimer (lc_IdleTimeout (ss_Lifecycle spec))) else None) \<rparr>"

text \<open>\<open>startNew\<close> after the client's start was attempted.\<close>

definition start_finish ::
  "sup_env \<Rightarrow> time \<Rightarrow> supervised \<Rightarrow> (sup_error, nat) result \<Rightarrow> supervisor \<Rightarrow> supervisor" where
  "start_finish env now i res s =
    (case res of
       Inl e \<Rightarrow> persistInstance env (i \<lparr> in_state := StateCrashed, in_lastError := Some e \<rparr>) (Some e) s
     | Inr h \<Rightarrow>
         let i' = i \<lparr> in_client := Some h, in_state := StateRunning, in_startedAt := Some now,
                      in_idle := map_option (idle_Start now) (in_idle i) \<rparr>;
             p = sv_fresh s in
         notif_Track i' (health_Track i'
           (publishStatus (in_spec i) ''healthy'' ''''
             (persistInstance env i' None
               (s \<lparr> sv_heap := aput p i' (sv_heap s), sv_instances := aput (in_key i) p (sv_instances s),
                    sv_fresh := Suc p \<rparr>)))))"

definition startNew ::
  "sup_env \<Rightarrow> time \<Rightarrow> InstanceKey \<Rightarrow> ServerSpec \<Rightarrow> string \<Rightarrow> (string, string) amap \<Rightarrow> supervisor \<Rightarrow>
   (sup_error, nat) result \<times> supervisor" where
  "startNew env now key spec tenantID authEnv s =
    (let i = new_instance env key spec tenantID authEnv; (res, s') = spawnClient env i s in
     (res, start_finish env now i res s'))"

definition restart_begin :: "nat \<Rightarrow> string \<Rightarrow> supervisor \<Rightarrow> supervisor" where
  "restart_begin p callerTenantID s =
    (case aget (sv_heap s) p of
       None \<Rightarrow> s
     | Some i \<Rightarrow>
         upd p (\<lambda>i. i \<lparr> in_client := None, in_state := StateStarting,
                       in_tenantID := (if callerTenantID = '''' then in_tenantID i else callerTenantID) \<rparr>)
           (close_client (in_client i) s))"

definition failed_restart :: "time \<Rightarrow> sup_error \<Rightarrow> supervised \<Rightarrow> supervised" where
  "failed_restart now e i =
    (let n = in_restartCount i + 1; max = lc_MaxRestartAttempts (ss_Lifecycle (in_spec i)) in
     if max > 0 \<and> n \<ge> max
     then i \<lparr> in_restartCount := n, in_lastError := Some e, in_state := StateCircuitOpen,
              in_circuitUntil := now + lc_CircuitOpenDuration (ss_Lifecycle (in_spec i)) \<rparr>
     else i \<lparr> in_restartCount := n, in_lastError := Some e, in_state := StateBackoff \<rparr>)"

definition restarted :: "time \<Rightarrow> nat \<Rightarrow> supervised \<Rightarrow> supervised" where
  "restarted now h i = i
    \<lparr> in_client := Some h, in_state := StateRunning, in_startedAt := Some now, in_restartCount := 0,
      in_lastError := None, in_idle := map_option (idle_Start now) (in_idle i) \<rparr>"

definition restart_finish ::
  "sup_env \<Rightarrow> time \<Rightarrow> nat \<Rightarrow> (sup_error, nat) result \<Rightarrow> supervisor \<Rightarrow> supervisor" where
  "restart_finish env now p res s =
    (case aget (sv_heap s) p of
       None \<Rightarrow> s
     | Some i \<Rightarrow>
         (case res of
            Inl e \<Rightarrow>
              let i' = failed_restart now e i in
              persistInstance env i' (Some e)
                (publishStatus (in_spec i) (if in_state i' = StateCircuitOpen then ''circuit_open'' else ''unhealthy'')
                  (se_error_text env e) (upd p (\<lambda>i. i') s))
          | Inr h \<Rightarrow>
              let i' = restarted now h i in
              notif_Track i' (health_Track i' (publishStatus (in_spec i) ''healthy'' '''' (persistInstance env i' None
                (upd p (\<lambda>i. i') s))))))"

definition sup_restart ::
  "sup_env \<Rightarrow> time \<Rightarrow> nat \<Rightarrow> string \<Rightarrow> supervisor \<Rightarrow> (sup_error, nat) result \<times> supervisor" where
  "sup_restart env now p callerTenantID s =
    (let s1 = restart_begin p callerTenantID s in
     case aget (sv_heap s1) p of
       None \<Rightarrow> (Inl NoInstance, s)
     | Some i \<Rightarrow> let (res, s2) = spawnClient env i s1 in (res, restart_finish env now p res s2))"

subsection \<open>Acquire\<close>

definition tickIdle :: "time \<Rightarrow> nat \<Rightarrow> supervisor \<Rightarrow> supervisor" where
  "tickIdle now p = upd p (\<lambda>i. i \<lparr> in_lastCallAt := Some now, in_idle := map_option (idle_Tick now) (in_idle i) \<rparr>)"

datatype readiness = Ready "nat option" | NeedsRestart | Refused sup_error

text \<open>What \<open>ensureRunning\<close> decides on the state it read under the instance lock.\<close>

definition readiness_of :: "time \<Rightarrow> supervised \<Rightarrow> readiness" where
  "readiness_of now i =
    (case in_state i of
       StateRunning \<Rightarrow> Ready (in_client i)
     | StateCircuitOpen \<Rightarrow>
         if now < in_circuitUntil i then Refused (CircuitOpenUntil (ss_ID (in_spec i)) (in_circuitUntil i))
         else NeedsRestart
     | StateStarting \<Rightarrow> Refused (UnexpectedState (ss_ID (in_spec i)) StateStarting)
     | _ \<Rightarrow> NeedsRestart)"

definition ensureRunning ::
  "sup_env \<Rightarrow> time \<Rightarrow> time \<Rightarrow> nat \<Rightarrow> string \<Rightarrow> supervisor \<Rightarrow> (sup_error, nat option) result \<times> supervisor" where
  "ensureRunning env now later p callerTenantID s =
    (case aget (sv_heap s) p of
       None \<Rightarrow> (Inl NoInstance, s)
     | Some i \<Rightarrow>
         (case readiness_of now i of
            Ready c \<Rightarrow> (Inr c, tickIdle now p s)
          | Refused e \<Rightarrow> (Inl e, s)
          | NeedsRestart \<Rightarrow>
              let (res, s') = sup_restart env later p callerTenantID s in
              (case res of Inl e \<Rightarrow> Inl e | Inr h \<Rightarrow> Inr (Some h), s')))"

definition sup_Acquire ::
  "sup_env \<Rightarrow> time \<Rightarrow> time \<Rightarrow> ServerSpec option \<Rightarrow> AcquireOpts \<Rightarrow> supervisor \<Rightarrow>
   (sup_error, nat option) result \<times> supervisor" where
  "sup_Acquire env now later spec opts s =
    (case spec of
       None \<Rightarrow> (Inl NilSpec, s)
     | Some sp \<Rightarrow>
         (case KeyForMode (ss_RuntimeMode sp) (ss_ID sp) opts of
            Inl e \<Rightarrow> (Inl e, s)
          | Inr key \<Rightarrow>
              (case aget (sv_instances s) key of
                 Some p \<Rightarrow> ensureRunning env now later p (ao_TenantID opts) s
               | None \<Rightarrow>
                   let (res, s') = startNew env later key sp (ao_TenantID opts) (ao_AuthEnv opts) s in
                   (case res of Inl e \<Rightarrow> Inl e | Inr h \<Rightarrow> Inr (Some h), s'))))"

subsection \<open>Going idle, crashing, stopping\<close>

definition markIdle :: "nat \<Rightarrow> supervisor \<Rightarrow> supervisor" where
  "markIdle p s =
    (case aget (sv_heap s) p of
       None \<Rightarrow> s
     | Some i \<Rightarrow>
         if in_state i \<noteq> StateRunning then s
         else publishStatus (in_spec i) ''unknown'' ''idle'' (notif_Untrack (in_id i) (health_Untrack (in_id i)
                (upd p (\<lambda>i. i \<lparr> in_state := StateIdle, in_client := None \<rparr>) (close_client (in_client i) s)))))"

text \<open>The timer of an instance goes off.\<close>

definition timer_fires :: "time \<Rightarrow> nat \<Rightarrow> supervisor \<Rightarrow> supervisor" where
  "timer_fires now p s =
    (case aget (sv_heap s) p of
       None \<Rightarrow> s
     | Some i \<Rightarrow>
         (case in_idle i of
            None \<Rightarrow> s
          | Some t \<Rightarrow>
              let (cb, t') = idle_fire now t; s' = upd p (\<lambda>i. i \<lparr> in_idle := Some t' \<rparr>) s in
              if cb then markIdle p s' else s'))"

definition markCrashed :: "sup_env \<Rightarrow> nat \<Rightarrow> sup_error option \<Rightarrow> supervisor \<Rightarrow> supervisor" where
  "markCrashed env p lastErr s =
    (case aget (sv_heap s) p of
       None \<Rightarrow> s
     | Some i \<Rightarrow>
         if in_state i \<noteq> StateRunning then s
         else
           let i' = i \<lparr> in_state := StateCrashed, in_client := None,
                 in_lastError := (case lastErr of None \<Rightarrow> in_lastError i | Some e \<Rightarrow> Some e),
                 in_idle := map_option idle_Stop (in_idle i) \<rparr> in
           persistInstance env i' lastErr (publishStatus (in_spec i) ''unhealthy'' ''health probes failed''
             (notif_Untrack (in_id i) (health_Untrack (in_id i) (upd p (\<lambda>i. i') (close_client (in_client i) s))))))"

definition healthFailThreshold :: nat where "healthFailThreshold = 3"

text \<open>One tick of the probe goroutine of an instance; \<open>ping\<close> is the answer of the client.\<close>

definition probe_tick :: "sup_env \<Rightarrow> nat \<Rightarrow> string option \<Rightarrow> supervisor \<Rightarrow> supervisor" where
  "probe_tick env p ping s =
    (case aget (sv_heap s) p of
       None \<Rightarrow> s
     | Some i \<Rightarrow>
         (case aget (sv_probes s) (in_id i) of
            Some (Some failures) \<Rightarrow>
              let set_failures = (\<lambda>v. s \<lparr> sv_probes := aput (in_id i) v (sv_probes s) \<rparr>) in
              if in_state i \<in> {StateStopping, StateCrashed, StateBackoff, StateCircuitOpen} then set_failures None
              else if in_client i = None then set_failures (Some 0)
              else (case ping of
                 None \<Rightarrow> set_failures (Some 0)
               | Some e \<Rightarrow>
                   if failures + 1 \<ge> healthFailThreshold
                   then markCrashed env p (Some (ProbesFailed e)) (set_failures None)
                   else set_failures (Some (failures + 1)))
          | _ \<Rightarrow> s))"

definition sup_Stop :: "InstanceKey \<Rightarrow> supervisor \<Rightarrow> bool \<times> supervisor" where
  "sup_Stop key s =
    (case aget (sv_instances s) key of
       None \<Rightarrow> (False, s)
     | Some p \<Rightarrow>
         let s1 = s \<lparr> sv_instances := adel key (sv_instances s) \<rparr> in
         (case aget (sv_heap s) p of
            None \<Rightarrow> (True, s1)
          | Some i \<Rightarrow>
              (True, call_registry (CallDeleteInstance (in_tenantID i) (in_id i))
                (close_client (in_client i) (notif_Untrack (in_id i) (health_Untrack (in_id i)
                  (upd p (\<lambda>i. i \<lparr> in_state := StateStopping, in_client := None,
                                 in_idle := map_option idle_Stop (in_idle i) \<rparr>) s1)))))))"

definition drain_keys :: "string \<Rightarrow> string \<Rightarrow> supervisor \<Rightarrow> InstanceKey list" where
  "drain_keys tenantID serverID s =
    filter (\<lambda>k. ik_ServerID k = serverID
        \<and> \<not> (ik_TenantID k \<noteq> ''_global'' \<and> tenantID \<noteq> '''' \<and> ik_TenantID k \<noteq> tenantID))
      (akeys (sv_instances s))"

definition drainServer :: "string \<Rightarrow> string \<Rightarrow> supervisor \<Rightarrow> supervisor" where
  "drainServer tenantID serverID s =
    fold (\<lambda>k s. snd (sup_Stop k s)) (drain_keys tenantID serverID s) s"

text \<open>The loop of \<open>StopAll\<close> over the instances it took out of the map; their state is left as it is.\<close>

definition stop_one :: "nat \<Rightarrow> supervisor \<Rightarrow> supervisor" where
  "stop_one p s =
    (case aget (sv_heap s) p of
       None \<Rightarrow> s
     | Some i \<Rightarrow>
         call_registry (CallDeleteInstance (in_tenantID i) (in_id i)) (close_client (in_client i)
           (upd p (\<lambda>i. i \<lparr> in_client := None, in_idle := map_option idle_Stop (in_idle i) \<rparr>) s)))"

definition StopAll :: "supervisor \<Rightarrow> supervisor" where
  "StopAll s = fold (\<lambda>(k, p). stop_one p) (sv_instances s) (s \<lparr> sv_probes := [], sv_pumps := [], sv_stopped := True, sv_instances := [] \<rparr>)"

definition sup_Tick :: "sup_env \<Rightarrow> time \<Rightarrow> InstanceKey \<Rightarrow> supervisor \<Rightarrow> supervisor" where
  "sup_Tick env now key s =
    (case aget (sv_instances s) key of
       None \<Rightarrow> s
     | Some p \<Rightarrow>
         let s' = tickIdle now p s in
         (case aget (sv_heap s') p of None \<Rightarrow> s' | Some i \<Rightarrow> persistInstance env i None s'))"

end
