(* ===== verification/Supervisor_Safety.thy ===== *)
theory Supervisor_Safety
  imports Supervisor
begin

text \<open>
  The lifecycle of southbound clients: no client is leaked, lost or shared, the
  circuit breaker opens and closes as configured, instance keys separate
  identities, and drains are exact.  Bookkeeping (registry calls, probes,
  pumps) does not touch the part of the state these properties are about.
\<close>

definition core ::
  "supervisor \<Rightarrow> (nat, supervised) amap \<times> (InstanceKey, nat) amap \<times> (nat, client_config) amap \<times> nat" where
  "core s = (sv_heap s, sv_instances s, sv_clients s, sv_fresh s)"

lemma core_bookkeeping [simp]:
  "core (call_registry c s) = core s" "core (persistInstance env i e s) = core s"
  "core (publishStatus spec st d s) = core s" "core (health_Track i s) = core s"
  "core (health_Untrack x s) = core s" "core (notif_Track i s) = core s" "core (notif_Untrack x s) = core s"
  by (simp_all add: core_def call_registry_def persistInstance_def publishStatus_def health_Track_def
      health_Untrack_def notif_Track_def notif_Untrack_def)

lemma core_probes [simp]: "core (s \<lparr> sv_probes := x \<rparr>) = core s"
  by (simp add: core_def)

lemma core_upd:
  "core (upd p f s) = (case core s of (h, rest) \<Rightarrow>
     (case aget h p of None \<Rightarrow> h | Some i \<Rightarrow> aput p (f i) h, rest))"
  by (simp add: core_def upd_def split: option.split)

definition closing :: "nat option \<Rightarrow> (nat, client_config) amap \<Rightarrow> (nat, client_config) amap" where
  "closing c cl = (case c of None \<Rightarrow> cl | Some h \<Rightarrow> adel h cl)"

lemma closing_None [simp]: "closing None cl = cl"
  by (simp add: closing_def)

lemma core_close:
  "core (close_client c s) = (case core s of (h, m, cl, n) \<Rightarrow>
     (h, m, closing c cl, n))"
  by (simp add: core_def close_client_def closing_def split: option.split)

lemma instances_basic [simp]:
  "sv_instances (upd p f s) = sv_instances s" "sv_instances (close_client c s) = sv_instances s"
  "sv_instances (call_registry x s) = sv_instances s" "sv_instances (persistInstance env i e s) = sv_instances s"
  "sv_instances (publishStatus sp st d s) = sv_instances s" "sv_instances (health_Track i s) = sv_instances s"
  "sv_instances (health_Untrack y s) = sv_instances s" "sv_instances (notif_Track i s) = sv_instances s"
  "sv_instances (notif_Untrack y s) = sv_instances s"
  by (simp_all add: upd_def close_client_def call_registry_def persistInstance_def publishStatus_def health_Track_def
      health_Untrack_def notif_Track_def notif_Untrack_def split: option.split)

lemma heap_basic [simp]:
  "sv_heap (close_client c s) = sv_heap s"
  "sv_heap (call_registry x s) = sv_heap s" "sv_heap (persistInstance env i e s) = sv_heap s"
  "sv_heap (publishStatus sp st d s) = sv_heap s" "sv_heap (health_Track i s) = sv_heap s"
  "sv_heap (health_Untrack y s) = sv_heap s" "sv_heap (notif_Track i s) = sv_heap s"
  "sv_heap (notif_Untrack y s) = sv_heap s"
  by (simp_all add: close_client_def call_registry_def persistInstance_def publishStatus_def health_Track_def
      health_Untrack_def notif_Track_def notif_Untrack_def split: option.split)

lemma core_eqD:
  "core s = core s' \<Longrightarrow> sv_heap s = sv_heap s' \<and> sv_instances s = sv_instances s' \<and> sv_clients s = sv_clients s'
    \<and> sv_fresh s = sv_fresh s'"
  by (simp add: core_def)

subsection \<open>The invariant\<close>

text \<open>\<open>held\<close> is the set of clients some instance owns.  The invariant is stated with a set \<open>F\<close> of clients
  that are started but not yet handed to an instance, so that it also describes the middle of an
  operation; between operations \<open>F\<close> is empty.\<close>

definition held :: "(nat \<rightharpoonup> supervised) \<Rightarrow> nat set" where
  "held H = {h. \<exists>p i. H p = Some i \<and> in_client i = Some h}"

definition installed_ok :: "InstanceKey \<Rightarrow> supervised \<Rightarrow> bool" where
  "installed_ok k i = (in_key i = k \<and> in_state i \<noteq> StateStopping \<and> (in_state i = StateRunning \<longleftrightarrow> in_client i \<noteq> None))"

definition installs :: "(nat \<rightharpoonup> supervised) \<Rightarrow> (InstanceKey \<rightharpoonup> nat) \<Rightarrow> bool" where
  "installs H M = (\<forall>k p. M k = Some p \<longrightarrow> (\<exists>i. H p = Some i \<and> installed_ok k i))"

definition owners :: "(nat \<rightharpoonup> supervised) \<Rightarrow> (InstanceKey \<rightharpoonup> nat) \<Rightarrow> bool" where
  "owners H M = (\<forall>p i. H p = Some i \<longrightarrow> in_client i \<noteq> None \<longrightarrow> M (in_key i) = Some p)"

definition sole_owner :: "(nat \<rightharpoonup> supervised) \<Rightarrow> bool" where
  "sole_owner H = (\<forall>p q i j h. H p = Some i \<longrightarrow> H q = Some j \<longrightarrow> in_client i = Some h \<longrightarrow> in_client j = Some h \<longrightarrow> p = q)"

definition exact :: "nat set \<Rightarrow> (nat \<rightharpoonup> supervised) \<Rightarrow> nat set \<Rightarrow> bool" where
  "exact F H D = (held H \<union> F = D \<and> held H \<inter> F = {})"

definition bounded :: "(nat \<rightharpoonup> supervised) \<Rightarrow> nat set \<Rightarrow> nat \<Rightarrow> bool" where
  "bounded H D n = ((\<forall>p i. H p = Some i \<longrightarrow> p < n) \<and> (\<forall>h \<in> D. h < n))"

abbreviation heap :: "supervisor \<Rightarrow> nat \<rightharpoonup> supervised" where "heap s \<equiv> aget (sv_heap s)"
abbreviation insts :: "supervisor \<Rightarrow> InstanceKey \<rightharpoonup> nat" where "insts s \<equiv> aget (sv_instances s)"
abbreviation clients :: "supervisor \<Rightarrow> nat \<rightharpoonup> client_config" where "clients s \<equiv> aget (sv_clients s)"

definition sup_inv :: "nat set \<Rightarrow> supervisor \<Rightarrow> bool" where
  "sup_inv F s =
    (amap_ok (sv_instances s) \<and> installs (heap s) (insts s) \<and> owners (heap s) (insts s) \<and> sole_owner (heap s)
     \<and> exact F (heap s) (dom (clients s)) \<and> bounded (heap s) (dom (clients s)) (sv_fresh s))"

definition no_start :: "supervisor \<Rightarrow> bool" where
  "no_start s = (\<forall>p i. heap s p = Some i \<longrightarrow> in_state i \<noteq> StateStarting)"

lemma core_inv: "core s = core s' \<Longrightarrow> sup_inv F s = sup_inv F s'" "core s = core s' \<Longrightarrow> no_start s = no_start s'"
  using core_eqD [of s s'] by (simp_all add: sup_inv_def no_start_def)

lemma installed_get:
  assumes "sup_inv F s" and "insts s k = Some p"
  obtains i where "heap s p = Some i" and "installed_ok k i"
  using assms unfolding sup_inv_def installs_def by blast

lemma held_open: "sup_inv F s \<Longrightarrow> heap s p = Some i \<Longrightarrow> in_client i = Some h \<Longrightarrow> h \<in> dom (clients s)"
  unfolding sup_inv_def exact_def held_def by blast

lemma fresh_unused:
  assumes "sup_inv F s"
  shows "heap s (sv_fresh s) = None" and "sv_fresh s \<notin> dom (clients s)" and "sv_fresh s \<notin> held (heap s)" and "sv_fresh s \<notin> F"
proof -
  have b: "\<And>p i. heap s p = Some i \<Longrightarrow> p < sv_fresh s" "\<And>h. h \<in> dom (clients s) \<Longrightarrow> h < sv_fresh s"
    and e: "held (heap s) \<union> F = dom (clients s)"
    using assms by (auto simp: sup_inv_def bounded_def exact_def)
  show "heap s (sv_fresh s) = None" using b(1) by (cases "heap s (sv_fresh s)") auto
  show "sv_fresh s \<notin> dom (clients s)" "sv_fresh s \<notin> held (heap s)" "sv_fresh s \<notin> F"
    using b(2) [of "sv_fresh s"] e by blast+
qed

lemma held_if: "held (\<lambda>q. if q = p then Some i' else H q) = set_option (in_client i') \<union> held (H(p := None))"
proof (rule set_eqI)
  fix h
  show "h \<in> held (\<lambda>q. if q = p then Some i' else H q) \<longleftrightarrow> h \<in> set_option (in_client i') \<union> held (H(p := None))"
    unfolding held_def by (cases "in_client i' = Some h") (auto split: if_splits)
qed

lemma held_split: "H p = Some i \<Longrightarrow> held H = set_option (in_client i) \<union> held (H(p := None))"
  using held_if [of p i H] by (simp add: fun_upd_idem flip: fun_upd_def)

lemma held_disjoint: "sole_owner H \<Longrightarrow> H p = Some i \<Longrightarrow> set_option (in_client i) \<inter> held (H(p := None)) = {}"
  unfolding sole_owner_def held_def by (auto split: if_splits)

text \<open>A new value of an instance that keeps its client.\<close>

lemma inv_keep_client:
  assumes "sup_inv F s" and "heap s p = Some i" and "in_client i' = in_client i" and "in_key i' = in_key i"
    and "in_state i' = in_state i"
  shows "sup_inv F (s \<lparr> sv_heap := aput p i' (sv_heap s) \<rparr>)"
proof -
  let ?H = "\<lambda>q. if q = p then Some i' else heap s q"
  have "held ?H = held (heap s)"
    using held_split [of "heap s", OF assms(2)] assms(3) by (simp add: held_if)
  moreover have "installs ?H (insts s)"
    using assms unfolding sup_inv_def installs_def installed_ok_def by fastforce
  moreover have "owners ?H (insts s)"
    using assms unfolding sup_inv_def owners_def by (auto split: if_splits)
  moreover have "sole_owner ?H"
    using assms unfolding sup_inv_def sole_owner_def by (auto split: if_splits)
  moreover have "bounded ?H (dom (clients s)) (sv_fresh s)"
    using assms(1,2) unfolding sup_inv_def bounded_def by (auto split: if_splits)
  ultimately show ?thesis
    using assms(1) unfolding sup_inv_def exact_def by (simp add: fun_eq_iff update_conv' fun_upd_def)
qed

text \<open>An instance gives up its client, which is closed.\<close>

lemma release_own:
  assumes "sole_owner H" and "exact F H (dom (aget cl))" and "bounded H (dom (aget cl)) n" and "H p = Some i"
    and "in_client i' = None"
  shows "sole_owner (\<lambda>q. if q = p then Some i' else H q)
    \<and> exact F (\<lambda>q. if q = p then Some i' else H q) (dom (aget (closing (in_client i) cl)))
    \<and> bounded (\<lambda>q. if q = p then Some i' else H q) (dom (aget (closing (in_client i) cl))) n"
proof -
  let ?H = "\<lambda>q. if q = p then Some i' else H q"
  have dom': "dom (aget (closing (in_client i) cl)) = dom (aget cl) - set_option (in_client i)"
    by (auto simp: closing_def split: option.splits if_splits)
  have held': "held ?H = held H - set_option (in_client i)"
    using held_split [of H, OF assms(4)] held_disjoint [OF assms(1,4)] assms(5) unfolding held_if by auto
  have "set_option (in_client i) \<inter> F = {}"
    using assms(2,4) unfolding exact_def held_def by auto
  then have "exact F ?H (dom (aget cl) - set_option (in_client i))"
    using assms(2) unfolding exact_def held' by blast
  moreover have "sole_owner ?H"
    using assms(1,5) unfolding sole_owner_def by (auto split: if_splits)
  moreover have "bounded ?H (dom (aget cl) - set_option (in_client i)) n"
    using assms(3,4) unfolding bounded_def by (auto split: if_splits)
  ultimately show ?thesis unfolding dom' by blast
qed

lemma inv_release:
  assumes "sup_inv F s" and "heap s p = Some i" and "in_client i' = None" and "in_key i' = in_key i"
    and "in_state i' \<noteq> StateRunning" and "in_state i' \<noteq> StateStopping"
    and "core s' = (aput p i' (sv_heap s), sv_instances s, closing (in_client i) (sv_clients s), sv_fresh s)"
  shows "sup_inv F s'"
proof -
  let ?H = "\<lambda>q. if q = p then Some i' else heap s q"
  have s': "heap s' = ?H" "sv_instances s' = sv_instances s" "sv_clients s' = closing (in_client i) (sv_clients s)"
    "sv_fresh s' = sv_fresh s"
    using assms(7) by (auto simp: core_def fun_eq_iff)
  have "installs ?H (insts s)"
    using assms(1-6) unfolding sup_inv_def installs_def installed_ok_def by fastforce
  moreover have "owners ?H (insts s)"
    using assms(1-3) unfolding sup_inv_def owners_def by (auto split: if_splits)
  ultimately show ?thesis
    using assms(1) release_own [of "heap s" F "sv_clients s" "sv_fresh s", OF _ _ _ assms(2,3)]
    unfolding sup_inv_def s' by simp
qed

text \<open>An instance takes over a client in flight.\<close>

lemma inv_hand_over:
  assumes "sup_inv F s" and "h \<in> F" and "heap s p = Some i" and "insts s (in_key i) = Some p" and "in_client i = None"
    and "in_client i' = Some h" and "in_key i' = in_key i" and "in_state i' = StateRunning"
    and "core s' = (aput p i' (sv_heap s), sv_instances s, sv_clients s, sv_fresh s)"
  shows "sup_inv (F - {h}) s'"
proof -
  let ?H = "\<lambda>q. if q = p then Some i' else heap s q"
  have s': "heap s' = ?H" "sv_instances s' = sv_instances s" "sv_fresh s' = sv_fresh s" "sv_clients s' = sv_clients s"
    using assms(9) by (auto simp: core_def fun_eq_iff)
  have ex: "exact F (heap s) (dom (clients s))" using assms(1) by (simp add: sup_inv_def)
  have held': "held ?H = insert h (held (heap s))"
    using held_split [of "heap s", OF assms(3)] assms(5,6) by (simp add: held_if)
  have "installs ?H (insts s)"
    using assms unfolding sup_inv_def installs_def installed_ok_def by fastforce
  moreover have "owners ?H (insts s)"
    using assms unfolding sup_inv_def owners_def by (auto split: if_splits)
  moreover have "h \<notin> held (heap s)" using ex assms(2) unfolding exact_def by blast
  then have "sole_owner ?H"
    using assms(1,6) unfolding sup_inv_def sole_owner_def held_def by (auto split: if_splits)
  moreover have "exact (F - {h}) ?H (dom (clients s))"
    using ex assms(2) \<open>h \<notin> held (heap s)\<close> unfolding exact_def held' by blast
  moreover have "bounded ?H (dom (clients s)) (sv_fresh s)"
    using assms(1,3) unfolding sup_inv_def bounded_def by (auto split: if_splits)
  ultimately show ?thesis
    using assms(1) unfolding sup_inv_def s' by simp
qed

text \<open>A started client joins the ones in flight.\<close>

lemma inv_spawn:
  assumes "sup_inv F s" and "core s' = (sv_heap s, sv_instances s, aput (sv_fresh s) cfg (sv_clients s), Suc (sv_fresh s))"
  shows "sup_inv (insert (sv_fresh s) F) s'"
proof -
  have s': "sv_heap s' = sv_heap s" "sv_instances s' = sv_instances s" "sv_fresh s' = Suc (sv_fresh s)"
    "dom (clients s') = insert (sv_fresh s) (dom (clients s))"
    using assms(2) by (auto simp: core_def split: if_splits)
  have "bounded (heap s) (insert (sv_fresh s) (dom (clients s))) (Suc (sv_fresh s))"
    using assms(1) unfolding sup_inv_def bounded_def by (metis insert_iff less_Suc_eq)
  moreover have "exact (insert (sv_fresh s) F) (heap s) (insert (sv_fresh s) (dom (clients s)))"
    using assms(1) fresh_unused [OF assms(1)] unfolding sup_inv_def exact_def by blast
  ultimately show ?thesis
    using assms(1) unfolding sup_inv_def s' by simp
qed

text \<open>A new instance, with a client in flight, enters the map.\<close>

lemma inv_install:
  assumes "sup_inv F s" and "h \<in> F" and "insts s (in_key i) = None" and "in_client i = Some h" and "in_state i = StateRunning"
    and "core s' = (aput (sv_fresh s) i (sv_heap s), aput (in_key i) (sv_fresh s) (sv_instances s), sv_clients s, Suc (sv_fresh s))"
  shows "sup_inv (F - {h}) s'"
proof -
  let ?H = "\<lambda>q. if q = sv_fresh s then Some i else heap s q"
  let ?M = "\<lambda>k. if k = in_key i then Some (sv_fresh s) else insts s k"
  have s': "heap s' = ?H" "insts s' = ?M" "sv_fresh s' = Suc (sv_fresh s)" "sv_clients s' = sv_clients s"
    "sv_instances s' = aput (in_key i) (sv_fresh s) (sv_instances s)"
    using assms(6) by (auto simp: core_def fun_eq_iff)
  have ex: "exact F (heap s) (dom (clients s))" using assms(1) by (simp add: sup_inv_def)
  note fr = fresh_unused [OF assms(1)]
  have held': "held ?H = insert h (held (heap s))"
    using assms(4) fun_upd_idem [of "heap s", OF fr(1)] by (simp add: held_if)
  have nh: "h \<notin> held (heap s)" using ex assms(2) unfolding exact_def by blast
  have new: "q \<noteq> sv_fresh s" if "insts s k = Some q" for k q
    by (rule installed_get [OF assms(1) that]) (use fr(1) in auto)
  have "installed_ok (in_key i) i" using assms(4,5) by (simp add: installed_ok_def)
  then have "installs ?H ?M"
    using assms(1) new unfolding sup_inv_def installs_def by (auto split: if_splits)
  moreover have "owners (heap s) (insts s)" using assms(1) by (simp add: sup_inv_def)
  then have "owners ?H ?M"
    unfolding owners_def using assms(3) by (metis option.distinct(1) option.inject)
  moreover have "sole_owner ?H"
    using assms(1,4) nh unfolding sup_inv_def sole_owner_def held_def by (auto split: if_splits)
  moreover have "exact (F - {h}) ?H (dom (clients s))"
    using ex assms(2) nh unfolding exact_def held' by blast
  moreover have "bounded ?H (dom (clients s)) (Suc (sv_fresh s))"
    using assms(1) unfolding sup_inv_def bounded_def by (metis less_Suc_eq)
  moreover have "amap_ok (sv_instances s')" using assms(1) unfolding s'(5) sup_inv_def by simp
  ultimately show ?thesis unfolding sup_inv_def s'(1-4) by simp
qed

text \<open>An instance leaves the map and its client is closed.\<close>

lemma inv_uninstall:
  assumes "sup_inv F s" and "insts s k = Some p" and "heap s p = Some i" and "in_client i' = None"
    and "core s' = (aput p i' (sv_heap s), adel k (sv_instances s), closing (in_client i) (sv_clients s), sv_fresh s)"
  shows "sup_inv F s'"
proof -
  let ?H = "\<lambda>q. if q = p then Some i' else heap s q"
  let ?M = "\<lambda>x. if x = k then None else insts s x"
  have inst: "installs (heap s) (insts s)" using assms(1) by (simp add: sup_inv_def)
  have s': "heap s' = ?H" "insts s' = ?M" "sv_instances s' = adel k (sv_instances s)"
    "sv_clients s' = closing (in_client i) (sv_clients s)" "sv_fresh s' = sv_fresh s"
    using assms(5) by (auto simp: core_def fun_eq_iff)
  have key: "in_key i = k" using inst assms(2,3) unfolding installs_def installed_ok_def by force
  have other: "q \<noteq> p" if "insts s x = Some q" "x \<noteq> k" for x q
    using inst that key assms(3) unfolding installs_def installed_ok_def by force
  have "installs ?H ?M"
    using inst other unfolding installs_def by (auto split: if_splits)
  moreover have "owners ?H ?M"
    using assms(1,2,4) unfolding sup_inv_def owners_def by (fastforce split: if_splits)
  moreover have "amap_ok (sv_instances s')" using assms(1) unfolding s'(3) sup_inv_def by simp
  ultimately show ?thesis
    using assms(1) release_own [of "heap s" F "sv_clients s" "sv_fresh s", OF _ _ _ assms(3,4)]
    unfolding sup_inv_def s'(1,2,4,5) by simp
qed

subsection \<open>Every operation keeps the invariant\<close>

lemma aget_upd: "heap (upd p f s) q = (if q = p then map_option f (heap s p) else heap s q)"
  by (simp add: upd_def split: option.split)

lemma spawnClient_cases:
  assumes "spawnClient env i s = (res, s')"
  obtains (failed) e where "res = Inl e" "s' = s"
  | (started) cfg where "res = Inr (sv_fresh s)" "client_for env i = Inr cfg" "se_start env cfg = None"
      "s' = s \<lparr> sv_clients := aput (sv_fresh s) cfg (sv_clients s), sv_fresh := Suc (sv_fresh s) \<rparr>"
proof (cases "\<exists>cfg. client_for env i = Inr cfg \<and> se_start env cfg = None")
  case True
  then obtain cfg where cfg: "client_for env i = Inr cfg" "se_start env cfg = None" by blast
  show ?thesis by (rule started [OF _ cfg]) (use assms cfg in \<open>simp_all add: spawnClient_def\<close>)
next
  case False
  have "\<exists>e. res = Inl e \<and> s' = s"
    using assms False by (auto simp: spawnClient_def split: sum.splits option.splits)
  then show ?thesis using failed by blast
qed

lemma startNew_inv:
  assumes "sup_inv {} s" and "insts s key = None" and "startNew env now key spec t ae s = (res, s')"
  shows "sup_inv {} s'"
proof -
  let ?i = "new_instance env key spec t ae"
  obtain s1 where sp: "spawnClient env ?i s = (res, s1)" and s': "s' = start_finish env now ?i res s1"
    using assms(3) by (auto simp: startNew_def Let_def split: prod.splits)
  from sp show ?thesis
  proof (cases rule: spawnClient_cases)
    case (failed e)
    then have "core s' = core s" by (simp add: s' start_finish_def)
    with assms(1) show ?thesis using core_inv(1) by blast
  next
    case (started cfg)
    have s1: "sup_inv {sv_fresh s} s1"
      by (rule inv_spawn [OF assms(1)]) (simp add: started core_def)
    define i' where "i' = ?i \<lparr> in_client := Some (sv_fresh s), in_state := StateRunning,
        in_startedAt := Some now, in_idle := map_option (idle_Start now) (in_idle ?i) \<rparr>"
    have key: "in_key ?i = key" "in_key i' = key" by (simp_all add: i'_def new_instance_def)
    have "core s' = (aput (sv_fresh s1) i' (sv_heap s1), aput (in_key i') (sv_fresh s1) (sv_instances s1),
        sv_clients s1, Suc (sv_fresh s1))"
      by (simp add: s' start_finish_def started(1) Let_def key flip: i'_def) (simp add: core_def)
    from inv_install [OF s1 singletonI _ _ _ this] show ?thesis
      using assms(2) key by (simp add: i'_def started(4))
  qed
qed

lemma sup_restart_inv:
  assumes "sup_inv {} s" and "insts s k = Some p" and "sup_restart env now p t s = (res, s')"
  shows "sup_inv {} s'"
proof -
  obtain i where i: "heap s p = Some i" "in_key i = k"
    using installed_get [OF assms(1,2)] unfolding installed_ok_def by metis
  define j where "j = i \<lparr> in_client := None, in_state := StateStarting,
      in_tenantID := (if t = '''' then in_tenantID i else t) \<rparr>"
  let ?s1 = "restart_begin p t s"
  have c1: "core ?s1 = (aput p j (sv_heap s), sv_instances s, closing (in_client i) (sv_clients s), sv_fresh s)"
    using i(1) by (simp add: restart_begin_def core_upd core_close j_def) (simp add: core_def)
  have inv1: "sup_inv {} ?s1"
    by (rule inv_release [OF assms(1) i(1) _ _ _ _ c1]) (simp_all add: j_def)
  have j: "heap ?s1 p = Some j" "insts ?s1 (in_key j) = Some p"
    using c1 i(2) assms(2) by (simp_all add: core_def j_def)
  obtain s2 where sp: "spawnClient env j ?s1 = (res, s2)" and s': "s' = restart_finish env now p res s2"
    using assms(3) j(1) by (auto simp: sup_restart_def Let_def split: prod.splits)
  from sp show ?thesis
  proof (cases rule: spawnClient_cases)
    case (failed e)
    let ?j = "failed_restart now e j"
    have "core s' = (aput p ?j (sv_heap ?s1), sv_instances ?s1, closing (in_client j) (sv_clients ?s1), sv_fresh ?s1)"
      using j(1) by (simp add: s' failed restart_finish_def Let_def core_upd) (simp add: core_def j_def)
    then show ?thesis
      by (rule inv_release [OF inv1 j(1), rotated -1]) (simp_all add: failed_restart_def j_def Let_def)
  next
    case (started cfg)
    have s2: "sup_inv {sv_fresh ?s1} s2"
      by (rule inv_spawn [OF inv1]) (simp add: started core_def)
    have "core s' = (aput p (restarted now (sv_fresh ?s1) j) (sv_heap s2), sv_instances s2, sv_clients s2, sv_fresh s2)"
      using j(1) by (simp add: s' started restart_finish_def Let_def core_upd) (simp add: core_def)
    from inv_hand_over [OF s2 singletonI _ _ _ _ _ _ this, of j] show ?thesis
      using j by (simp add: started(4)) (simp add: restarted_def j_def)
  qed
qed

lemma inv_keep_core:
  assumes "sup_inv F s" and "heap s p = Some i" and "in_client i' = in_client i" and "in_key i' = in_key i"
    and "in_state i' = in_state i" and "core s' = (aput p i' (sv_heap s), sv_instances s, sv_clients s, sv_fresh s)"
  shows "sup_inv F s'"
proof -
  have "core s' = core (s \<lparr> sv_heap := aput p i' (sv_heap s) \<rparr>)" using assms(6) by (simp add: core_def)
  with inv_keep_client [OF assms(1-5)] show ?thesis using core_inv(1) by blast
qed

lemma upd_inv:
  assumes "sup_inv F s" and "\<And>i. in_client (f i) = in_client i" and "\<And>i. in_key (f i) = in_key i"
    and "\<And>i. in_state (f i) = in_state i"
  shows "sup_inv F (upd p f s)"
proof (cases "heap s p")
  case None
  then show ?thesis using assms(1) by (simp add: upd_def)
next
  case (Some i)
  show ?thesis
    by (rule inv_keep_core [OF assms(1) Some assms(2) assms(3) assms(4)]) (simp add: core_def upd_def Some)
qed

lemma tickIdle_inv: "sup_inv F s \<Longrightarrow> sup_inv F (tickIdle now p s)"
  unfolding tickIdle_def by (rule upd_inv) simp_all

lemma ensureRunning_inv:
  assumes "sup_inv {} s" and "insts s k = Some p" and "ensureRunning env now later p t s = (res, s')"
  shows "sup_inv {} s'"
proof -
  obtain i where i: "heap s p = Some i" using installed_get [OF assms(1,2)] by blast
  show ?thesis
  proof (cases "readiness_of now i")
    case NeedsRestart
    obtain r s1 where "sup_restart env later p t s = (r, s1)" by fastforce
    with NeedsRestart i assms show ?thesis
      using sup_restart_inv [OF assms(1,2)] by (auto simp: ensureRunning_def split: sum.splits)
  qed (use i assms tickIdle_inv in \<open>auto simp: ensureRunning_def\<close>)
qed

lemma sup_Acquire_inv:
  assumes "sup_inv {} s" and "sup_Acquire env now later spec opts s = (res, s')"
  shows "sup_inv {} s'"
proof (cases "\<exists>sp key. spec = Some sp \<and> KeyForMode (ss_RuntimeMode sp) (ss_ID sp) opts = Inr key")
  case True
  then obtain sp key where sp: "spec = Some sp" "KeyForMode (ss_RuntimeMode sp) (ss_ID sp) opts = Inr key" by blast
  show ?thesis
  proof (cases "insts s key")
    case None
    obtain r s1 where r: "startNew env later key sp (ao_TenantID opts) (ao_AuthEnv opts) s = (r, s1)" by fastforce
    with assms(2) sp None have "s' = s1" by (auto simp: sup_Acquire_def split: sum.splits)
    with startNew_inv [OF assms(1) None r] show ?thesis by simp
  next
    case (Some p)
    with assms(2) sp have "ensureRunning env now later p (ao_TenantID opts) s = (res, s')" by (simp add: sup_Acquire_def)
    with ensureRunning_inv [OF assms(1) Some] show ?thesis by blast
  qed
next
  case False
  then have "s' = s" using assms(2) by (auto simp: sup_Acquire_def split: option.splits sum.splits)
  with assms(1) show ?thesis by simp
qed

lemma markIdle_inv:
  assumes "sup_inv F s"
  shows "sup_inv F (markIdle p s)"
proof (cases "\<exists>i. heap s p = Some i \<and> in_state i = StateRunning")
  case True
  then obtain i where i: "heap s p = Some i" "in_state i = StateRunning" by blast
  show ?thesis
    by (rule inv_release [OF assms i(1), of "i \<lparr> in_state := StateIdle, in_client := None \<rparr>"])
      (simp_all add: markIdle_def i core_upd core_close, simp add: core_def i)
next
  case False
  then show ?thesis using assms by (auto simp: markIdle_def split: option.splits)
qed

lemma timer_fires_inv: "sup_inv F s \<Longrightarrow> sup_inv F (timer_fires now p s)"
  unfolding timer_fires_def by (auto simp: Let_def split: option.splits prod.splits intro!: markIdle_inv upd_inv)

lemma markCrashed_inv:
  assumes "sup_inv F s"
  shows "sup_inv F (markCrashed env p e s)"
proof (cases "\<exists>i. heap s p = Some i \<and> in_state i = StateRunning")
  case True
  then obtain i where i: "heap s p = Some i" "in_state i = StateRunning" by blast
  show ?thesis
    by (rule inv_release [OF assms i(1), of "i \<lparr> in_state := StateCrashed, in_client := None,
          in_lastError := (case e of None \<Rightarrow> in_lastError i | Some e \<Rightarrow> Some e),
          in_idle := map_option idle_Stop (in_idle i) \<rparr>"])
      (simp_all add: markCrashed_def Let_def i core_upd core_close, simp add: core_def i)
next
  case False
  then show ?thesis using assms by (auto simp: markCrashed_def split: option.splits)
qed

lemma probe_tick_inv:
  assumes "sup_inv F s"
  shows "sup_inv F (probe_tick env p ping s)"
proof -
  have "sup_inv F (s \<lparr> sv_probes := x \<rparr>)" for x
    using assms core_inv(1) [OF core_probes] by blast
  then show ?thesis
    using assms by (auto simp: probe_tick_def Let_def split: option.splits intro: markCrashed_inv)
qed

lemma sup_Stop_inv:
  assumes "sup_inv F s"
  shows "sup_inv F (snd (sup_Stop k s))"
proof (cases "insts s k")
  case None
  then show ?thesis using assms by (simp add: sup_Stop_def)
next
  case (Some p)
  obtain i where i: "heap s p = Some i" using installed_get [OF assms Some] by blast
  show ?thesis
    by (rule inv_uninstall [OF assms Some i, of "i \<lparr> in_state := StateStopping, in_client := None,
          in_idle := map_option idle_Stop (in_idle i) \<rparr>"])
      (simp_all add: sup_Stop_def Let_def Some i core_upd core_close, simp add: core_def i)
qed

lemma drainServer_inv: "sup_inv F s \<Longrightarrow> sup_inv F (drainServer t sid s)"
proof -
  have "sup_inv F s \<Longrightarrow> sup_inv F (fold (\<lambda>k s. snd (sup_Stop k s)) ks s)" for ks
    by (induction ks arbitrary: s) (auto intro: sup_Stop_inv)
  then show "sup_inv F s \<Longrightarrow> sup_inv F (drainServer t sid s)" by (simp add: drainServer_def)
qed

lemma sup_Tick_inv: "sup_inv F s \<Longrightarrow> sup_inv F (sup_Tick env now k s)"
  using tickIdle_inv [of F s now] core_inv(1) [OF core_bookkeeping(2)]
  by (auto simp: sup_Tick_def Let_def split: option.splits)

lemma SetNotifSink_core [simp]: "core (SetNotifSink s) = core s"
proof -
  have "core (fold (\<lambda>(k, p) s. case heap s p of None \<Rightarrow> s | Some i \<Rightarrow> notif_Track i s) xs s) = core s" for xs :: "(InstanceKey \<times> nat) list" and s
    by (induction xs arbitrary: s) (auto split: option.split)
  moreover have "core (s \<lparr> sv_sink := True \<rparr>) = core s" by (simp add: core_def)
  ultimately show ?thesis by (simp only: SetNotifSink_def)
qed

text \<open>Shutdown: once every instance that held a client has been visited, none is open.\<close>

lemma stop_one_core:
  "heap s p = Some i \<Longrightarrow> core (stop_one p s) =
    (aput p (i \<lparr> in_client := None, in_idle := map_option idle_Stop (in_idle i) \<rparr>) (sv_heap s), sv_instances s,
     closing (in_client i) (sv_clients s), sv_fresh s)"
  by (simp add: stop_one_def core_upd core_close) (simp add: core_def)

lemma stop_all_fold:
  assumes "sole_owner (heap s)" and "exact {} (heap s) (dom (clients s))" and "bounded (heap s) (dom (clients s)) (sv_fresh s)"
    and "\<And>p i. heap s p = Some i \<Longrightarrow> in_client i \<noteq> None \<Longrightarrow> p \<in> snd ` set kps" and "sv_instances s = []"
  shows "sup_inv {} (fold (\<lambda>(k, p). stop_one p) kps s) \<and> dom (clients (fold (\<lambda>(k, p). stop_one p) kps s)) = {}"
  using assms
proof (induction kps arbitrary: s)
  case Nil
  then have none: "in_client i = None" if "heap s p = Some i" for p i using that by fastforce
  then have "held (heap s) = {}" unfolding held_def by force
  moreover have "owners (heap s) (insts s)" "installs (heap s) (insts s)"
    using none Nil.prems(5) unfolding owners_def installs_def by (auto dest: none)
  ultimately show ?case using Nil.prems unfolding sup_inv_def exact_def by simp
next
  case (Cons kp kps)
  obtain k p where kp: "kp = (k, p)" by fastforce
  show ?case
  proof (cases "heap s p")
    case None
    with Cons.prems(4) have "\<And>q i. heap s q = Some i \<Longrightarrow> in_client i \<noteq> None \<Longrightarrow> q \<in> snd ` set kps"
      by (fastforce simp: kp)
    moreover have "stop_one p s = s" using None by (simp add: stop_one_def)
    ultimately show ?thesis using Cons.IH [OF Cons.prems(1-3)] Cons.prems(5) by (simp add: kp)
  next
    case (Some i)
    let ?i = "i \<lparr> in_client := None, in_idle := map_option idle_Stop (in_idle i) \<rparr>" and ?s = "stop_one p s"
    have s: "heap ?s = (\<lambda>q. if q = p then Some ?i else heap s q)" "sv_instances ?s = []"
      "sv_clients ?s = closing (in_client i) (sv_clients s)" "sv_fresh ?s = sv_fresh s"
      using stop_one_core [OF Some] Cons.prems(5) by (auto simp: core_def fun_eq_iff)
    have own: "sole_owner (heap ?s)" "exact {} (heap ?s) (dom (clients ?s))" "bounded (heap ?s) (dom (clients ?s)) (sv_fresh ?s)"
      using release_own [OF Cons.prems(1-3) Some, of ?i] unfolding s by simp_all
    have "q \<in> snd ` set kps" if "heap ?s q = Some j" "in_client j \<noteq> None" for q j
      using that Cons.prems(4) [of q j] unfolding s kp by (auto split: if_splits)
    from Cons.IH [OF own this s(2)] show ?thesis by (simp add: kp)
  qed
qed

lemma StopAll_inv:
  assumes "sup_inv {} s"
  shows "sup_inv {} (StopAll s) \<and> dom (clients (StopAll s)) = {} \<and> sv_instances (StopAll s) = []"
proof -
  let ?s = "s \<lparr> sv_probes := [], sv_pumps := [], sv_stopped := True, sv_instances := [] \<rparr>"
  have own: "sole_owner (heap ?s)" "exact {} (heap ?s) (dom (clients ?s))" "bounded (heap ?s) (dom (clients ?s)) (sv_fresh ?s)"
    using assms by (simp_all add: sup_inv_def)
  have holders: "p \<in> snd ` set (sv_instances s)" if "heap ?s p = Some i" "in_client i \<noteq> None" for p i
    using assms that unfolding sup_inv_def owners_def by (force dest: map_of_SomeD)
  have none: "sv_instances (fold (\<lambda>(k, p). stop_one p) kps x) = sv_instances x" for kps :: "(InstanceKey \<times> nat) list" and x
  proof (induction kps arbitrary: x)
    case (Cons kp kps)
    have "sv_instances (stop_one p x) = sv_instances x" for p
      by (cases "heap x p") (use stop_one_core [of x p] in \<open>simp_all add: stop_one_def core_def\<close>)
    with Cons show ?case by (cases kp) simp
  qed simp
  have "sv_instances ?s = []" by simp
  from stop_all_fold [OF own holders this] show ?thesis
    unfolding StopAll_def none by simp
qed

subsection \<open>No instance is left half-started\<close>

lemma no_start_put:
  assumes "no_start s" and "sv_heap s' = aput p i (sv_heap s)" and "in_state i \<noteq> StateStarting"
  shows "no_start s'"
  using assms by (simp add: no_start_def)

lemma no_start_upd:
  "no_start s \<Longrightarrow> (\<And>i. heap s p = Some i \<Longrightarrow> in_state i \<noteq> StateStarting \<Longrightarrow> in_state (f i) \<noteq> StateStarting) \<Longrightarrow>
    no_start (upd p f s)"
  by (auto simp: no_start_def aget_upd split: if_splits)

lemma no_start_core:
  "no_start (close_client c s) = no_start s" "no_start (call_registry x s) = no_start s"
  "no_start (persistInstance env i e s) = no_start s" "no_start (publishStatus sp st d s) = no_start s"
  "no_start (health_Track i s) = no_start s" "no_start (health_Untrack y s) = no_start s"
  "no_start (notif_Track i s) = no_start s" "no_start (notif_Untrack y s) = no_start s"
  "no_start (s \<lparr> sv_probes := z \<rparr>) = no_start s" "no_start (s \<lparr> sv_instances := m \<rparr>) = no_start s"
  by (simp_all add: no_start_def close_client_def call_registry_def persistInstance_def publishStatus_def
      health_Track_def health_Untrack_def notif_Track_def notif_Untrack_def split: option.split)

lemma failed_restart_state: "in_state (failed_restart now e i) \<in> {StateCircuitOpen, StateBackoff}"
  by (simp add: failed_restart_def Let_def)

lemma sup_restart_heap:
  assumes "heap s p = Some i" and "sup_restart env now p t s = (res, s')"
  shows "\<exists>i'. heap s' = (\<lambda>q. if q = p then Some i' else heap s q)
    \<and> in_state i' = (case res of Inl e \<Rightarrow> in_state i' | Inr h \<Rightarrow> StateRunning) \<and> in_state i' \<noteq> StateStarting
    \<and> in_client i' = (case res of Inl e \<Rightarrow> None | Inr h \<Rightarrow> Some h)"
proof -
  define j where "j = i \<lparr> in_client := None, in_state := StateStarting,
      in_tenantID := (if t = '''' then in_tenantID i else t) \<rparr>"
  let ?s1 = "restart_begin p t s"
  have h1: "sv_heap ?s1 = aput p j (sv_heap s)"
    using assms(1) by (simp add: restart_begin_def upd_def close_client_def j_def split: option.split)
  then have j: "heap ?s1 p = Some j" by simp
  obtain s2 where sp: "spawnClient env j ?s1 = (res, s2)" and s': "s' = restart_finish env now p res s2"
    using assms(2) j by (auto simp: sup_restart_def Let_def split: prod.splits)
  have h2: "sv_heap s2 = sv_heap ?s1"
    using sp by (cases rule: spawnClient_cases) auto
  define i' where "i' = (case res of Inl e \<Rightarrow> failed_restart now e j | Inr h \<Rightarrow> restarted now h j)"
  have "sv_heap s' = aput p i' (sv_heap s2)"
    using j h2 by (cases res) (simp_all add: s' i'_def restart_finish_def Let_def upd_def persistInstance_def
        publishStatus_def call_registry_def health_Track_def notif_Track_def)
  then have "heap s' = (\<lambda>q. if q = p then Some i' else heap s q)" by (auto simp: h2 h1 fun_eq_iff)
  moreover have "in_client (failed_restart now e j) = None" for e
    by (simp add: failed_restart_def Let_def j_def)
  moreover have "in_state (failed_restart now e j) \<noteq> StateStarting" for e
    using failed_restart_state [of now e j] by auto
  ultimately show ?thesis by (cases res) (auto simp: i'_def restarted_def)
qed

lemma no_start_Acquire:
  assumes "sup_inv {} s" and "no_start s" and "sup_Acquire env now later spec opts s = (res, s')"
  shows "no_start s'"
proof (cases "\<exists>sp key. spec = Some sp \<and> KeyForMode (ss_RuntimeMode sp) (ss_ID sp) opts = Inr key")
  case True
  then obtain sp key where sp: "spec = Some sp" "KeyForMode (ss_RuntimeMode sp) (ss_ID sp) opts = Inr key" by blast
  show ?thesis
  proof (cases "insts s key")
    case None
    let ?i = "new_instance env key sp (ao_TenantID opts) (ao_AuthEnv opts)"
    obtain r s1 where r: "spawnClient env ?i s = (r, s1)" by fastforce
    then have "s' = start_finish env later ?i r s1"
      using assms(3) sp None by (auto simp: sup_Acquire_def startNew_def Let_def split: sum.splits)
    moreover have "sv_heap s1 = sv_heap s" using r by (cases rule: spawnClient_cases) auto
    ultimately show ?thesis
      using assms(2) unfolding start_finish_def
      by (cases r) (auto simp: Let_def no_start_core, auto simp: no_start_def split: if_splits)
  next
    case (Some p)
    obtain i where i: "heap s p = Some i" using installed_get [OF assms(1) Some] by blast
    have run: "ensureRunning env now later p (ao_TenantID opts) s = (res, s')"
      using Some assms(3) sp by (simp add: sup_Acquire_def)
    show ?thesis
    proof (cases "readiness_of now i")
      case NeedsRestart
      obtain r s1 where r: "sup_restart env later p (ao_TenantID opts) s = (r, s1)" by fastforce
      with NeedsRestart run i have "s' = s1" by (auto simp: ensureRunning_def split: sum.splits)
      with sup_restart_heap [OF i r] assms(2) show ?thesis by (auto simp: no_start_def split: if_splits)
    qed (use run i assms(2) in \<open>auto simp: ensureRunning_def tickIdle_def intro!: no_start_upd\<close>)
  qed
next
  case False
  then have "s' = s" using assms(3) by (auto simp: sup_Acquire_def split: option.splits sum.splits)
  with assms(2) show ?thesis by simp
qed

lemma no_start_markIdle: "no_start s \<Longrightarrow> no_start (markIdle p s)"
  by (auto simp: markIdle_def no_start_core split: option.splits intro!: no_start_upd)

lemma no_start_markCrashed: "no_start s \<Longrightarrow> no_start (markCrashed env p e s)"
  by (auto simp: markCrashed_def no_start_core Let_def split: option.splits intro!: no_start_upd)

lemma no_start_timer: "no_start s \<Longrightarrow> no_start (timer_fires now p s)"
  by (auto simp: timer_fires_def Let_def split: option.splits prod.splits intro!: no_start_markIdle no_start_upd)

lemma no_start_probe: "no_start s \<Longrightarrow> no_start (probe_tick env p ping s)"
  by (auto simp: probe_tick_def Let_def no_start_core split: option.splits intro!: no_start_markCrashed)

lemma no_start_Stop: "no_start s \<Longrightarrow> no_start (snd (sup_Stop k s))"
  by (auto simp: sup_Stop_def Let_def no_start_core split: option.splits intro!: no_start_upd)

lemma no_start_drain: "no_start s \<Longrightarrow> no_start (drainServer t sid s)"
proof -
  have "no_start s \<Longrightarrow> no_start (fold (\<lambda>k s. snd (sup_Stop k s)) ks s)" for ks
    by (induction ks arbitrary: s) (auto intro: no_start_Stop)
  then show "no_start s \<Longrightarrow> no_start (drainServer t sid s)" by (simp add: drainServer_def)
qed

lemma no_start_Tick: "no_start s \<Longrightarrow> no_start (sup_Tick env now k s)"
  by (auto simp: sup_Tick_def Let_def no_start_core tickIdle_def split: option.splits intro!: no_start_upd)

lemma no_start_StopAll: "no_start s \<Longrightarrow> no_start (StopAll s)"
proof -
  have one: "no_start x \<Longrightarrow> no_start (stop_one p x)" for p x
    by (auto simp: stop_one_def no_start_core split: option.splits intro!: no_start_upd)
  have "no_start x \<Longrightarrow> no_start (fold (\<lambda>(k, p). stop_one p) kps x)" for kps :: "(InstanceKey \<times> nat) list" and x
    by (induction kps arbitrary: x) (auto intro: one)
  moreover assume "no_start s"
  then have "no_start (s \<lparr> sv_probes := [], sv_pumps := [], sv_stopped := True, sv_instances := [] \<rparr>)"
    by (simp add: no_start_def)
  ultimately show "no_start (StopAll s)" unfolding StopAll_def by blast
qed

subsection \<open>Runs of the supervisor\<close>

datatype sup_op =
    DoAcquire sup_env time time "ServerSpec option" AcquireOpts
  | DoTimer time nat
  | DoProbe sup_env nat "string option"
  | DoStop InstanceKey
  | DoDrain string string
  | DoTick sup_env time InstanceKey
  | DoSetSink
  | DoStopAll

fun sup_exec :: "sup_op \<Rightarrow> supervisor \<Rightarrow> supervisor" where
  "sup_exec (DoAcquire env now later spec opts) s = snd (sup_Acquire env now later spec opts s)"
| "sup_exec (DoTimer now p) s = timer_fires now p s"
| "sup_exec (DoProbe env p ping) s = probe_tick env p ping s"
| "sup_exec (DoStop k) s = snd (sup_Stop k s)"
| "sup_exec (DoDrain t sid) s = drainServer t sid s"
| "sup_exec (DoTick env now k) s = sup_Tick env now k s"
| "sup_exec DoSetSink s = SetNotifSink s"
| "sup_exec DoStopAll s = StopAll s"

definition NewSupervisor :: supervisor where
  "NewSupervisor =
    \<lparr> sv_heap = [], sv_instances = [], sv_starting = [], sv_clients = [], sv_fresh = 0, sv_probes = [],
      sv_sink = False, sv_pumps = [], sv_stopped = False, sv_calls = [] \<rparr>"

inductive sup_reachable :: "supervisor \<Rightarrow> bool" where
  init: "sup_reachable NewSupervisor"
| exec: "sup_reachable s \<Longrightarrow> sup_reachable (sup_exec op s)"

lemma sup_exec_inv:
  assumes "sup_inv {} s" and "no_start s"
  shows "sup_inv {} (sup_exec op s) \<and> no_start (sup_exec op s)"
proof (cases op)
  case (DoAcquire env now later spec opts)
  then show ?thesis
    using sup_Acquire_inv [OF assms(1)] no_start_Acquire [OF assms] by (metis prod.collapse sup_exec.simps(1))
next
  case DoSetSink
  then show ?thesis using assms core_inv [OF SetNotifSink_core] by simp
qed (use assms in \<open>auto intro: timer_fires_inv no_start_timer probe_tick_inv no_start_probe sup_Stop_inv no_start_Stop
      drainServer_inv no_start_drain sup_Tick_inv no_start_Tick no_start_StopAll dest: StopAll_inv\<close>)

lemma sup_reachable_inv: "sup_reachable s \<Longrightarrow> sup_inv {} s \<and> no_start s"
proof (induction rule: sup_reachable.induct)
  case init
  show ?case
    by (simp add: NewSupervisor_def sup_inv_def no_start_def installs_def owners_def sole_owner_def exact_def held_def
        bounded_def)
next
  case (exec s op)
  then show ?case using sup_exec_inv by blast
qed

text \<open>What \<open>Acquire\<close> hands out is owned by the installed instance of the key.\<close>

lemma Acquire_returns_owned:
  assumes "sup_inv {} s" and "sup_Acquire env now later spec opts s = (Inr c, s')"
  shows "\<exists>sp key p i h. spec = Some sp \<and> KeyForMode (ss_RuntimeMode sp) (ss_ID sp) opts = Inr key \<and> c = Some h
    \<and> insts s' key = Some p \<and> heap s' p = Some i \<and> in_state i = StateRunning \<and> in_client i = Some h"
proof -
  from assms(2) obtain sp key where sp: "spec = Some sp" "KeyForMode (ss_RuntimeMode sp) (ss_ID sp) opts = Inr key"
    by (auto simp: sup_Acquire_def split: option.splits sum.splits)
  show ?thesis
  proof (cases "insts s key")
    case None
    let ?i = "new_instance env key sp (ao_TenantID opts) (ao_AuthEnv opts)"
    obtain r s1 where r: "spawnClient env ?i s = (r, s1)" by fastforce
    then have s': "s' = start_finish env later ?i r s1" and c: "(case r of Inl e \<Rightarrow> Inl e | Inr h \<Rightarrow> Inr (Some h)) = Inr c"
      using assms(2) sp None by (auto simp: sup_Acquire_def startNew_def Let_def split: sum.splits)
    from r show ?thesis
    proof (cases rule: spawnClient_cases)
      case (started cfg)
      let ?i' = "?i \<lparr> in_client := Some (sv_fresh s), in_state := StateRunning, in_startedAt := Some later,
          in_idle := map_option (idle_Start later) (in_idle ?i) \<rparr>"
      have "core s' = core (s1 \<lparr> sv_heap := aput (sv_fresh s1) ?i' (sv_heap s1),
          sv_instances := aput (in_key ?i) (sv_fresh s1) (sv_instances s1), sv_fresh := Suc (sv_fresh s1) \<rparr>)"
        by (simp add: s' start_finish_def started Let_def)
      then have "insts s' key = Some (sv_fresh s1) \<and> heap s' (sv_fresh s1) = Some ?i'"
        by (simp add: core_def new_instance_def)
      then show ?thesis using sp c started(1) by (intro exI [of _ sp]) auto
    qed (use c in simp)
  next
    case (Some p)
    obtain i where i: "heap s p = Some i" "installed_ok key i" using installed_get [OF assms(1) Some] by blast
    have run: "ensureRunning env now later p (ao_TenantID opts) s = (Inr c, s')"
      using Some assms(2) sp by (simp add: sup_Acquire_def)
    show ?thesis
    proof (cases "readiness_of now i")
      case (Ready x)
      then have "in_state i = StateRunning" "x = in_client i"
        by (auto simp: readiness_of_def split: inst_state.splits if_splits)
      moreover have "heap s' p = Some (i \<lparr> in_lastCallAt := Some now, in_idle := map_option (idle_Tick now) (in_idle i) \<rparr>)"
        and "insts s' key = Some p" and "c = x"
        using run i(1) Ready Some by (auto simp: ensureRunning_def tickIdle_def upd_def)
      ultimately show ?thesis using sp i(2) by (auto simp: installed_ok_def)
    next
      case NeedsRestart
      obtain r s1 where r: "sup_restart env later p (ao_TenantID opts) s = (r, s1)" by fastforce
      with NeedsRestart run i have s1: "s' = s1" "(case r of Inl e \<Rightarrow> Inl e | Inr h \<Rightarrow> Inr (Some h)) = Inr c"
        by (auto simp: ensureRunning_def split: sum.splits)
      then obtain h where h: "r = Inr h" "c = Some h" by (cases r) auto
      have "heap s' p \<noteq> None" using sup_restart_heap [OF i(1) r] s1 by auto
      moreover have "insts s' key = Some p"
      proof -
        have "sv_instances (restart_begin p t x) = sv_instances x" for t x
          by (simp add: restart_begin_def upd_def close_client_def split: option.split)
        moreover have "sv_instances (snd (spawnClient env j x)) = sv_instances x" for j x
          by (simp add: spawnClient_def split: option.split sum.split)
        moreover have "sv_instances (restart_finish env later p r' x) = sv_instances x" for r' x
          by (simp add: restart_finish_def Let_def upd_def persistInstance_def publishStatus_def call_registry_def
              health_Track_def notif_Track_def split: option.split sum.split)
        ultimately have "sv_instances s1 = sv_instances s"
          using r by (auto simp: sup_restart_def Let_def split: option.splits prod.splits)
            (metis snd_conv)+
        with Some s1 show ?thesis by simp
      qed
      ultimately show ?thesis using sup_restart_heap [OF i(1) r] sp h s1 by auto
    next
      case (Refused e)
      then show ?thesis using run i(1) by (simp add: ensureRunning_def)
    qed
  qed
qed

subsection \<open>Keys, drains and the circuit breaker\<close>

lemma KeyForMode_Inr:
  assumes "KeyForMode mode sid opts = Inr k"
  shows "ik_ServerID k = sid
    \<and> (mode \<in> {''shared_global'', ''remote_static''} \<longrightarrow> ik_TenantID k = ''_global'' \<and> ik_UserID k = '''' \<and> ik_SessionID k = '''')
    \<and> (mode \<notin> {''shared_global'', ''remote_static''} \<longrightarrow> ik_TenantID k = ao_TenantID opts \<and> ao_TenantID opts \<noteq> '''')
    \<and> (mode = ''per_tenant'' \<longrightarrow> ik_UserID k = '''' \<and> ik_SessionID k = '''')
    \<and> (mode = ''per_user'' \<longrightarrow> ik_UserID k = ao_UserID opts \<and> ao_UserID opts \<noteq> '''' \<and> ik_SessionID k = '''')
    \<and> (mode = ''per_session'' \<longrightarrow> ik_UserID k = ao_UserID opts \<and> ik_SessionID k = ao_SessionID opts \<and> ao_SessionID opts \<noteq> '''')
    \<and> mode \<in> set ValidModes"
  using assms by (auto simp: KeyForMode_def Let_def ValidModes_def split: if_splits)

lemma sup_Stop_instances: "insts (snd (sup_Stop k s)) x = (if x = k then None else insts s x)"
  by (auto simp: sup_Stop_def Let_def call_registry_def close_client_def notif_Untrack_def health_Untrack_def upd_def
      split: option.split)

lemma sup_Stop_heap:
  assumes "sup_inv F s" and "insts s x = Some p" and "x \<noteq> k"
  shows "heap (snd (sup_Stop k s)) p = heap s p"
proof (cases "insts s k")
  case None
  then show ?thesis by (simp add: sup_Stop_def)
next
  case (Some q)
  obtain i j where "heap s p = Some i" "in_key i = x" "heap s q = Some j" "in_key j = k"
    using assms(1,2) Some unfolding sup_inv_def installs_def installed_ok_def by metis
  with assms(3) have "q \<noteq> p" by auto
  with Some show ?thesis
    by (simp add: sup_Stop_def Let_def call_registry_def close_client_def notif_Untrack_def health_Untrack_def aget_upd
        split: option.split)
qed

lemma drain_fold:
  assumes "sup_inv F s"
  shows "insts (fold (\<lambda>k s. snd (sup_Stop k s)) ks s) x = (if x \<in> set ks then None else insts s x)
    \<and> (\<forall>p. x \<notin> set ks \<longrightarrow> insts s x = Some p \<longrightarrow> heap (fold (\<lambda>k s. snd (sup_Stop k s)) ks s) p = heap s p)"
  using assms
proof (induction ks arbitrary: s)
  case (Cons k ks)
  from Cons.IH [OF sup_Stop_inv [OF Cons.prems], of k] show ?case
    using sup_Stop_heap [OF Cons.prems, of x _ k] by (auto simp: sup_Stop_instances)
qed simp

definition affected :: "string \<Rightarrow> string \<Rightarrow> InstanceKey \<Rightarrow> bool" where
  "affected tenantID serverID k =
    (ik_ServerID k = serverID \<and> (ik_TenantID k = ''_global'' \<or> tenantID = '''' \<or> ik_TenantID k = tenantID))"

lemma drain_keys_mem:
  "x \<in> set (drain_keys t sid s) \<longleftrightarrow> affected t sid x \<and> insts s x \<noteq> None"
  by (auto simp: drain_keys_def affected_def map_of_eq_None_iff)

lemma readiness_Refused:
  "in_state i = StateCircuitOpen \<Longrightarrow> now < in_circuitUntil i \<Longrightarrow>
    readiness_of now i = Refused (CircuitOpenUntil (ss_ID (in_spec i)) (in_circuitUntil i))"
  by (simp add: readiness_of_def)

lemma restart_with:
  assumes "heap s p = Some i"
  shows "sup_restart env now p t s =
    (let j = i \<lparr> in_client := None, in_state := StateStarting, in_tenantID := (if t = '''' then in_tenantID i else t) \<rparr>;
         (res, s2) = spawnClient env j (restart_begin p t s) in
     (res, restart_finish env now p res s2))"
proof -
  have "heap (restart_begin p t s) p = Some (i \<lparr> in_client := None, in_state := StateStarting,
      in_tenantID := (if t = '''' then in_tenantID i else t) \<rparr>)"
    using assms by (simp add: restart_begin_def upd_def close_client_def split: option.split)
  then show ?thesis by (simp add: sup_restart_def Let_def)
qed

text \<open>A start that fails for every configuration, and what an acquisition then does.\<close>

definition start_fails :: "sup_env \<Rightarrow> bool" where
  "start_fails env = (\<forall>cfg. se_start env cfg \<noteq> None)"

lemma spawn_fails:
  assumes "start_fails env"
  shows "\<exists>e. spawnClient env j s = (Inl e, s)"
proof (cases "client_for env j")
  case (Inr cfg)
  have "se_start env cfg \<noteq> None" using assms unfolding start_fails_def by blast
  then obtain e where "se_start env cfg = Some e" by blast
  with Inr show ?thesis by (simp add: spawnClient_def)
qed (simp add: spawnClient_def)

lemma restart_finish_failed:
  assumes "heap s p = Some i"
  shows "heap (restart_finish env now p (Inl e) s) p = Some (failed_restart now e i)
    \<and> sv_instances (restart_finish env now p (Inl e) s) = sv_instances s"
  using assms by (simp add: restart_finish_def Let_def persistInstance_def publishStatus_def call_registry_def upd_def)

lemma restart_begin_heap:
  assumes "heap s p = Some i"
  shows "heap (restart_begin p t s) p = Some (i \<lparr> in_client := None, in_state := StateStarting,
      in_tenantID := (if t = '''' then in_tenantID i else t) \<rparr>)
    \<and> sv_instances (restart_begin p t s) = sv_instances s"
  using assms by (simp add: restart_begin_def upd_def close_client_def split: option.split)

lemma Acquire_restarts:
  assumes "KeyForMode (ss_RuntimeMode sp) (ss_ID sp) opts = Inr key" and "insts s key = Some p" and "heap s p = Some i"
    and "readiness_of now i = NeedsRestart"
  shows "sup_Acquire env now later (Some sp) opts s =
    (let (res, s') = sup_restart env later p (ao_TenantID opts) s in
     (case res of Inl e \<Rightarrow> Inl e | Inr h \<Rightarrow> Inr (Some h), s'))"
  using assms by (simp add: sup_Acquire_def ensureRunning_def)

lemma Acquire_fails_step:
  assumes "KeyForMode (ss_RuntimeMode sp) (ss_ID sp) opts = Inr key" and "insts s key = Some p" and "heap s p = Some i"
    and "readiness_of now i = NeedsRestart" and "start_fails env"
  shows "\<exists>e i'. sup_Acquire env now later (Some sp) opts s = (Inl e, snd (sup_Acquire env now later (Some sp) opts s))
    \<and> heap (snd (sup_Acquire env now later (Some sp) opts s)) p = Some (failed_restart later e i')
    \<and> insts (snd (sup_Acquire env now later (Some sp) opts s)) key = Some p
    \<and> in_spec i' = in_spec i \<and> in_restartCount i' = in_restartCount i"
proof -
  let ?t = "ao_TenantID opts"
  define j where "j = i \<lparr> in_client := None, in_state := StateStarting,
      in_tenantID := (if ?t = '''' then in_tenantID i else ?t) \<rparr>"
  let ?s1 = "restart_begin p ?t s"
  obtain e where e: "spawnClient env j ?s1 = (Inl e, ?s1)" using spawn_fails [OF assms(5)] by blast
  have b: "heap ?s1 p = Some j" "sv_instances ?s1 = sv_instances s"
    using restart_begin_heap [OF assms(3), of ?t] by (simp_all add: j_def)
  have "sup_restart env later p ?t s = (Inl e, restart_finish env later p (Inl e) ?s1)"
    using restart_with [OF assms(3), of env later ?t] e by (simp add: j_def Let_def)
  then have run: "sup_Acquire env now later (Some sp) opts s = (Inl e, restart_finish env later p (Inl e) ?s1)"
    using Acquire_restarts [OF assms(1-4), of env later] by simp
  show ?thesis
    unfolding run snd_conv using restart_finish_failed [OF b(1), of env later e] b(2) assms(2)
    by (intro exI [of _ e] exI [of _ j]) (simp add: j_def)
qed

lemma failed_restart_fields:
  "in_restartCount (failed_restart now e i) = in_restartCount i + 1" "in_spec (failed_restart now e i) = in_spec i"
  "in_state (failed_restart now e i) =
    (if lc_MaxRestartAttempts (ss_Lifecycle (in_spec i)) > 0
        \<and> in_restartCount i + 1 \<ge> lc_MaxRestartAttempts (ss_Lifecycle (in_spec i)) then StateCircuitOpen else StateBackoff)"
  "in_state (failed_restart now e i) = StateCircuitOpen \<Longrightarrow>
    in_circuitUntil (failed_restart now e i) = now + lc_CircuitOpenDuration (ss_Lifecycle (in_spec i))"
  by (auto simp: failed_restart_def Let_def)

text \<open>The instance as a restart on behalf of a caller sees it.\<close>

definition caller_view :: "string \<Rightarrow> supervised \<Rightarrow> supervised" where
  "caller_view t i = i \<lparr> in_tenantID := (if t = '''' then in_tenantID i else t) \<rparr>"

lemma client_for_cong:
  assumes "in_spec i = in_spec j" and "in_authEnv i = in_authEnv j" and "in_tenantID i = in_tenantID j"
  shows "client_for env i = client_for env j"
  unfolding client_for_def spawnStdio_def spawnHTTP_def stdio_env_def assms ..

lemma restart_succeeds:
  assumes "heap s p = Some i" and "client_for env (caller_view t i) = Inr cfg" and "se_start env cfg = None"
  shows "\<exists>h s'. sup_restart env now p t s = (Inr h, s') \<and> clients s' h = Some cfg
    \<and> (\<exists>i'. heap s' p = Some i' \<and> in_state i' = StateRunning \<and> in_client i' = Some h \<and> in_restartCount i' = 0)"
proof -
  define j where "j = i \<lparr> in_client := None, in_state := StateStarting, in_tenantID := (if t = '''' then in_tenantID i else t) \<rparr>"
  let ?s1 = "restart_begin p t s"
  let ?s2 = "?s1 \<lparr> sv_clients := aput (sv_fresh ?s1) cfg (sv_clients ?s1), sv_fresh := Suc (sv_fresh ?s1) \<rparr>"
  have "client_for env j = Inr cfg"
    using assms(2) client_for_cong [of j "caller_view t i" env] by (simp add: j_def caller_view_def)
  then have sp: "spawnClient env j ?s1 = (Inr (sv_fresh ?s1), ?s2)"
    using assms(3) by (simp add: spawnClient_def)
  have b: "heap ?s1 p = Some j" using restart_begin_heap [OF assms(1), of t] by (simp add: j_def)
  let ?s' = "restart_finish env now p (Inr (sv_fresh ?s1)) ?s2"
  have "core ?s' = (aput p (restarted now (sv_fresh ?s1) j) (sv_heap ?s1), sv_instances ?s1, sv_clients ?s2, sv_fresh ?s2)"
    using b by (simp add: restart_finish_def Let_def core_upd) (simp add: core_def)
  then have "clients ?s' (sv_fresh ?s1) = Some cfg \<and> heap ?s' p = Some (restarted now (sv_fresh ?s1) j)"
    by (simp add: core_def)
  moreover have "sup_restart env now p t s = (Inr (sv_fresh ?s1), ?s')"
    using restart_with [OF assms(1), of env now t] sp by (simp add: j_def Let_def)
  ultimately show ?thesis by (auto simp: restarted_def)
qed

definition attempts ::
  "ServerSpec \<Rightarrow> AcquireOpts \<Rightarrow> (sup_env \<times> time \<times> time) list \<Rightarrow> supervisor \<Rightarrow> supervisor" where
  "attempts sp opts as s = fold (\<lambda>(env, now, later) s. snd (sup_Acquire env now later (Some sp) opts s)) as s"

lemma attempts_backoff:
  assumes "KeyForMode (ss_RuntimeMode sp) (ss_ID sp) opts = Inr key" and "insts s key = Some p" and "heap s p = Some i"
    and "in_state i \<in> {StateIdle, StateCrashed, StateBackoff}" and "\<forall>(env, now, later) \<in> set as. start_fails env"
    and "in_restartCount i + int (length as) < lc_MaxRestartAttempts (ss_Lifecycle (in_spec i))"
  shows "\<exists>i'. heap (attempts sp opts as s) p = Some i' \<and> insts (attempts sp opts as s) key = Some p
    \<and> in_spec i' = in_spec i \<and> in_restartCount i' = in_restartCount i + int (length as)
    \<and> in_state i' \<in> {StateIdle, StateCrashed, StateBackoff}"
  using assms
proof (induction as arbitrary: s i)
  case Nil
  then show ?case by (simp add: attempts_def)
next
  case (Cons a as)
  obtain env now later where a: "a = (env, now, later)" by (metis prod_cases3)
  let ?s = "snd (sup_Acquire env now later (Some sp) opts s)"
  have "readiness_of now i = NeedsRestart" using Cons.prems(4) by (auto simp: readiness_of_def)
  moreover have "start_fails env" using Cons.prems(5) by (simp add: a)
  ultimately obtain e j where st: "heap ?s p = Some (failed_restart later e j)" "insts ?s key = Some p"
      "in_spec j = in_spec i" "in_restartCount j = in_restartCount i"
    using Acquire_fails_step [OF Cons.prems(1-3)] by blast
  have "in_state (failed_restart later e j) = StateBackoff"
    using Cons.prems(6) st(3,4) by (simp add: failed_restart_fields)
  with Cons.IH [OF Cons.prems(1) st(2,1)] Cons.prems(5,6) st(3,4) show ?case
    by (simp add: attempts_def a failed_restart_fields add.assoc)
qed

end
