(* ===== verification/Supervisor_Lifecycle.thy ===== *)
theory Supervisor_Lifecycle
  imports Supervisor_Safety
begin

text \<open>
  What the supervisor promises to its callers: ownership of clients, the circuit
  breaker, isolation of instance keys, exact drains, the probe loop against its
  reference, and idle timeouts.
\<close>

subsection \<open>Probes and idle timers\<close>

text \<open>The reference for the probe loop: three failures in a row.\<close>

definition three_in_a_row :: "string option list \<Rightarrow> bool" where
  "three_in_a_row pings = (\<exists>a e1 e2 e3 b. pings = a @ [Some e1, Some e2, Some e3] @ b)"

fun streak :: "nat \<Rightarrow> string option list \<Rightarrow> bool" where
  "streak n [] = False"
| "streak n (None # ps) = streak 0 ps"
| "streak n (Some e # ps) = (n + 1 \<ge> healthFailThreshold \<or> streak (n + 1) ps)"

lemma three_in_a_row_Nil [simp]: "\<not> three_in_a_row []"
  by (simp add: three_in_a_row_def)

lemma three_in_a_row_Cons:
  "three_in_a_row (x # ps) \<longleftrightarrow> (\<exists>e1 e2 e3 b. x # ps = [Some e1, Some e2, Some e3] @ b) \<or> three_in_a_row ps"
proof
  assume "three_in_a_row (x # ps)"
  then obtain a e1 e2 e3 b where eq: "x # ps = a @ [Some e1, Some e2, Some e3] @ b" by (auto simp: three_in_a_row_def)
  show "(\<exists>e1 e2 e3 b. x # ps = [Some e1, Some e2, Some e3] @ b) \<or> three_in_a_row ps"
  proof (cases a)
    case Nil
    with eq show ?thesis by auto
  next
    case (Cons y l)
    with eq have "ps = l @ [Some e1, Some e2, Some e3] @ b" by simp
    then show ?thesis unfolding three_in_a_row_def by blast
  qed
next
  assume "(\<exists>e1 e2 e3 b. x # ps = [Some e1, Some e2, Some e3] @ b) \<or> three_in_a_row ps"
  then show "three_in_a_row (x # ps)"
    unfolding three_in_a_row_def by (metis append_Cons append_Nil)
qed

lemma streak_replicate: "n < healthFailThreshold \<Longrightarrow> streak n ps = three_in_a_row (replicate n (Some e) @ ps)"
proof (induction n ps rule: streak.induct)
  case (1 n)
  then have "n = 0 \<or> n = 1 \<or> n = 2" by (auto simp: healthFailThreshold_def)
  then show ?case by (auto simp: three_in_a_row_Cons numeral_2_eq_2)
next
  case (2 n ps)
  then have "n = 0 \<or> n = 1 \<or> n = 2" by (auto simp: healthFailThreshold_def)
  with 2 show ?case by (auto simp: three_in_a_row_Cons numeral_2_eq_2 healthFailThreshold_def)
next
  case (3 n e' ps)
  then have "n = 0 \<or> n = 1 \<or> n = 2" by (auto simp: healthFailThreshold_def)
  with 3 show ?case
    by (auto simp: three_in_a_row_Cons numeral_2_eq_2 healthFailThreshold_def)
qed

lemma probe_tick_crashed:
  assumes "heap s p = Some i" and "aget (sv_probes s) (in_id i) = None"
  shows "probe_tick env p ping s = s"
  using assms by (simp add: probe_tick_def)

lemma probes_fold_none:
  "heap s p = Some i \<Longrightarrow> aget (sv_probes s) (in_id i) = None \<Longrightarrow> fold (probe_tick env p) pings s = s"
  by (induction pings) (simp_all add: probe_tick_crashed)

lemma probe_tick_live:
  assumes "heap s p = Some i" and "in_state i = StateRunning" and "in_client i = Some h"
    and "aget (sv_probes s) (in_id i) = Some (Some n)"
  shows "probe_tick env p ping s =
    (case ping of
       None \<Rightarrow> s \<lparr> sv_probes := aput (in_id i) (Some 0) (sv_probes s) \<rparr>
     | Some e \<Rightarrow>
         if n + 1 \<ge> healthFailThreshold
         then markCrashed env p (Some (ProbesFailed e)) (s \<lparr> sv_probes := aput (in_id i) None (sv_probes s) \<rparr>)
         else s \<lparr> sv_probes := aput (in_id i) (Some (n + 1)) (sv_probes s) \<rparr>)"
  using assms by (simp add: probe_tick_def Let_def split: option.split)

lemma markCrashed_running:
  assumes "heap s p = Some i" and "in_state i = StateRunning"
  shows "\<exists>i'. heap (markCrashed env p e s) p = Some i' \<and> in_state i' = StateCrashed \<and> in_id i' = in_id i \<and> in_client i' = None
    \<and> aget (sv_probes (markCrashed env p e s)) (in_id i) = None"
  using assms
  by (simp add: markCrashed_def Let_def persistInstance_def publishStatus_def call_registry_def notif_Untrack_def
      health_Untrack_def upd_def close_client_def split: option.split)

lemma probes_streak:
  assumes "heap s p = Some i" and "in_state i = StateRunning" and "in_client i = Some h"
    and "aget (sv_probes s) (in_id i) = Some (Some n)"
  shows "\<exists>i'. heap (fold (probe_tick env p) pings s) p = Some i'
    \<and> in_state i' = (if streak n pings then StateCrashed else StateRunning)"
  using assms
proof (induction n pings arbitrary: s rule: streak.induct)
  case (3 n e ps)
  show ?case
  proof (cases "n + 1 \<ge> healthFailThreshold")
    case True
    let ?s = "markCrashed env p (Some (ProbesFailed e)) (s \<lparr> sv_probes := aput (in_id i) None (sv_probes s) \<rparr>)"
    have "heap (s \<lparr> sv_probes := aput (in_id i) None (sv_probes s) \<rparr>) p = Some i" using "3.prems"(1) by simp
    from markCrashed_running [OF this "3.prems"(2)] obtain i' where i': "heap ?s p = Some i'" "in_state i' = StateCrashed"
        "aget (sv_probes ?s) (in_id i') = None" by metis
    have "probe_tick env p (Some e) s = ?s" using True by (simp add: probe_tick_live [OF "3.prems"])
    with i' True show ?thesis using probes_fold_none [OF i'(1,3)] by simp
  next
    case False
    let ?s = "s \<lparr> sv_probes := aput (in_id i) (Some (n + 1)) (sv_probes s) \<rparr>"
    have "probe_tick env p (Some e) s = ?s" using False by (simp add: probe_tick_live [OF "3.prems"])
    with "3.IH" [of ?s] "3.prems" False show ?thesis by simp
  qed
qed (simp_all add: probe_tick_live)

text \<open>A timer that has fired or been stopped never runs its callback again, whatever is called on it.\<close>

definition spent :: "IdleTimer \<Rightarrow> bool" where
  "spent t = (it_fired t \<or> it_stopped t)"

lemma spent_stable:
  assumes "spent t"
  shows "spent (idle_Start now t)" "spent (idle_Tick now t)" "spent (idle_Stop t)" "spent (snd (idle_fire now t))"
    "\<not> fst (idle_fire now t)"
  using assms by (auto simp: spent_def idle_Start_def idle_Tick_def idle_Stop_def idle_fire_def split: option.splits)

lemma idle_fire_spends: "fst (idle_fire now t) \<Longrightarrow> spent (snd (idle_fire now t))"
  by (auto simp: spent_def idle_fire_def split: option.splits if_splits)

subsection \<open>Properties\<close>

text \<open>C26: clients are never leaked, lost or shared.  In every state the supervisor can reach by a sequence
  of acquisitions, idle timeouts, health probes, stops, drains and shutdown, a client process or
  connection is open exactly if one installed instance that is running owns it, no two instances own
  the same one, and no instance is left half-started; an acquisition that succeeds returns the open
  client of the instance installed under the caller's key.\<close>

theorem supervisor_owns_clients:
  assumes "sup_reachable s"
  shows "(\<forall>h. h \<in> dom (clients s) \<longleftrightarrow>
      (\<exists>!p. \<exists>i. heap s p = Some i \<and> insts s (in_key i) = Some p \<and> in_state i = StateRunning \<and> in_client i = Some h))
    \<and> no_start s
    \<and> (\<forall>c s'. sup_Acquire env now later spec opts s = (Inr c, s') \<longrightarrow>
        (\<exists>h sp key p. c = Some h \<and> h \<in> dom (clients s') \<and> spec = Some sp
           \<and> KeyForMode (ss_RuntimeMode sp) (ss_ID sp) opts = Inr key \<and> insts s' key = Some p
           \<and> map_option in_client (heap s' p) = Some (Some h)))"
proof (intro conjI allI impI)
  have inv: "sup_inv {} s" and ns: "no_start s" using sup_reachable_inv [OF assms] by blast+
  show "no_start s" by (rule ns)
  fix h
  let ?own = "\<lambda>p. \<exists>i. heap s p = Some i \<and> insts s (in_key i) = Some p \<and> in_state i = StateRunning \<and> in_client i = Some h"
  have open_iff: "h \<in> dom (clients s) \<longleftrightarrow> (\<exists>p i. heap s p = Some i \<and> in_client i = Some h)"
    using inv unfolding sup_inv_def exact_def held_def by blast
  have run: "insts s (in_key i) = Some p \<and> in_state i = StateRunning" if "heap s p = Some i" "in_client i = Some h" for p i
  proof -
    have "insts s (in_key i) = Some p" using inv that unfolding sup_inv_def owners_def by blast
    moreover from installed_get [OF inv this] have "in_state i = StateRunning"
      using that by (metis installed_ok_def option.distinct(1) option.inject)
    ultimately show ?thesis by blast
  qed
  have uniq: "p = q" if "?own p" "?own q" for p q
    using inv that unfolding sup_inv_def sole_owner_def by blast
  show "h \<in> dom (clients s) \<longleftrightarrow> (\<exists>!p. ?own p)"
    using open_iff run uniq by blast
next
  fix c s'
  assume acq: "sup_Acquire env now later spec opts s = (Inr c, s')"
  have inv: "sup_inv {} s" using sup_reachable_inv [OF assms] by blast
  have inv': "sup_inv {} s'" by (rule sup_Acquire_inv [OF inv acq])
  from Acquire_returns_owned [OF inv acq] obtain sp key p i h where
    own: "spec = Some sp" "KeyForMode (ss_RuntimeMode sp) (ss_ID sp) opts = Inr key" "c = Some h"
      "insts s' key = Some p" "heap s' p = Some i" "in_client i = Some h" by blast
  then have "h \<in> dom (clients s')" using held_open [OF inv'] by blast
  with own show "\<exists>h sp key p. c = Some h \<and> h \<in> dom (clients s') \<and> spec = Some sp
      \<and> KeyForMode (ss_RuntimeMode sp) (ss_ID sp) opts = Inr key \<and> insts s' key = Some p
      \<and> map_option in_client (heap s' p) = Some (Some h)"
    by auto
qed

definition working_env :: sup_env where
  "working_env = \<lparr> se_start = (\<lambda>cfg. None), se_traceparent = '''', se_vault = None, se_lookupEnv = (\<lambda>n. None),
     se_error_text = (\<lambda>e. ''''), se_newID = ''inst_1'' \<rparr>"

definition sample_stdio :: "string \<Rightarrow> string \<Rightarrow> ServerSpec" where
  "sample_stdio cmd mode = sample_spec
    \<lparr> ss_RuntimeMode := mode,
      ss_Stdio := Some \<lparr> st_Command = cmd, st_Args = [], st_Env = [], st_Cwd = '''', st_StartTimeout = 0 \<rparr>,
      ss_Lifecycle := \<lparr> lc_IdleTimeout = 60, lc_BackoffInitial = 0, lc_BackoffMax = 0, lc_MaxRestartAttempts = 2,
        lc_CircuitOpenDuration = 300, lc_ShutdownGrace = 0 \<rparr> \<rparr>"

definition sample_opts :: "string \<Rightarrow> AcquireOpts" where
  "sample_opts t = \<lparr> ao_TenantID = t, ao_UserID = ''u'', ao_SessionID = ''s'', ao_AuthEnv = [] \<rparr>"

lemmas acquire_eval =
  sup_Acquire_def KeyForMode_def startNew_def new_instance_def spawnClient_def client_for_def spawnStdio_def
  stdio_env_def start_finish_def persistInstance_def publishStatus_def call_registry_def health_Track_def
  notif_Track_def ensureRunning_def readiness_of_def sup_restart_def restart_begin_def restart_finish_def
  failed_restart_def restarted_def upd_def close_client_def tickIdle_def idle_Start_def idle_Tick_def NewIdleTimer_def
  working_env_def sample_stdio_def sample_opts_def sample_spec_def NewSupervisor_def Let_def

theorem supervisor_owns_clients_witness:
  "\<exists>s. sup_reachable NewSupervisor
     \<and> sup_Acquire working_env 0 0 (Some (sample_stdio ''gh-mcp'' ''per_tenant'')) (sample_opts ''acme'') NewSupervisor = (Inr (Some 0), s)
     \<and> 0 \<in> dom (clients s)"
proof -
  have "\<exists>s. sup_Acquire working_env 0 0 (Some (sample_stdio ''gh-mcp'' ''per_tenant'')) (sample_opts ''acme'') NewSupervisor
      = (Inr (Some 0), s)"
    by (simp add: acquire_eval)
  then obtain s where s: "sup_Acquire working_env 0 0 (Some (sample_stdio ''gh-mcp'' ''per_tenant'')) (sample_opts ''acme'')
      NewSupervisor = (Inr (Some 0), s)" ..
  from supervisor_owns_clients [OF sup_reachable.init, of working_env 0 0
      "Some (sample_stdio ''gh-mcp'' ''per_tenant'')" "sample_opts ''acme''"] s
  have "0 \<in> dom (clients s)" by blast
  with s sup_reachable.init show ?thesis by blast
qed

text \<open>C27: the circuit breaker opens after exactly the configured number of failures, blocks, and recovers.
  An installed instance that is down with \<open>n\<close> failed restarts behind it makes at most
  \<open>MaxRestartAttempts - n\<close> further attempts: the last of them opens the circuit until the configured
  duration has passed.  While it is open an acquisition fails without any attempt and without changing
  the state; once it has passed, an acquisition whose start succeeds returns a client, and the
  instance is running with its failure count cleared.\<close>

theorem circuit_breaker:
  fixes now later :: time
  assumes "KeyForMode (ss_RuntimeMode sp) (ss_ID sp) opts = Inr key" and "insts s key = Some p" and "heap s p = Some i"
    and "in_state i \<in> {StateIdle, StateCrashed, StateBackoff}" and "\<forall>(env, now, later) \<in> set as. start_fails env"
    and "in_restartCount i + int (length as) + 1 = lc_MaxRestartAttempts (ss_Lifecycle (in_spec i))"
    and "0 \<le> in_restartCount i" and "start_fails env"
  defines "s1 \<equiv> attempts sp opts (as @ [(env, now, later)]) s"
  shows "\<exists>i1. heap s1 p = Some i1 \<and> in_state i1 = StateCircuitOpen
    \<and> in_circuitUntil i1 = later + lc_CircuitOpenDuration (ss_Lifecycle (in_spec i))
    \<and> (\<forall>env' now' later'. now' < in_circuitUntil i1 \<longrightarrow>
         sup_Acquire env' now' later' (Some sp) opts s1 = (Inl (CircuitOpenUntil (ss_ID (in_spec i)) (in_circuitUntil i1)), s1))
    \<and> (\<forall>env' now' later' cfg. in_circuitUntil i1 \<le> now' \<longrightarrow>
         client_for env' (caller_view (ao_TenantID opts) i1) = Inr cfg \<longrightarrow> se_start env' cfg = None \<longrightarrow>
         (\<exists>h s2 i2. sup_Acquire env' now' later' (Some sp) opts s1 = (Inr (Some h), s2) \<and> clients s2 h = Some cfg
            \<and> heap s2 p = Some i2 \<and> in_state i2 = StateRunning \<and> in_client i2 = Some h \<and> in_restartCount i2 = 0))"
proof -
  let ?s0 = "attempts sp opts as s"
  obtain i0 where i0: "heap ?s0 p = Some i0" "insts ?s0 key = Some p" "in_spec i0 = in_spec i"
      "in_restartCount i0 = in_restartCount i + int (length as)" "in_state i0 \<in> {StateIdle, StateCrashed, StateBackoff}"
    using attempts_backoff [OF assms(1-5)] assms(6) by auto
  have "readiness_of now i0 = NeedsRestart" using i0(5) by (auto simp: readiness_of_def)
  from Acquire_fails_step [OF assms(1) i0(2,1) this assms(8), of later]
  obtain e j where st: "heap s1 p = Some (failed_restart later e j)" "insts s1 key = Some p"
      "in_spec j = in_spec i" "in_restartCount j = in_restartCount i + int (length as)"
    using i0(3,4) by (auto simp: s1_def attempts_def)
  let ?i1 = "failed_restart later e j"
  have co: "in_state ?i1 = StateCircuitOpen"
    using assms(6,7) st(3,4) by (simp add: failed_restart_fields)
  have until: "in_circuitUntil ?i1 = later + lc_CircuitOpenDuration (ss_Lifecycle (in_spec i))"
    using failed_restart_fields(4) [OF co] st(3) by simp
  have blocked: "sup_Acquire env' now' later' (Some sp) opts s1 = (Inl (CircuitOpenUntil (ss_ID (in_spec i)) (in_circuitUntil ?i1)), s1)"
    if "now' < in_circuitUntil ?i1" for env' now' later'
    using assms(1) st readiness_Refused [OF co that] by (simp add: sup_Acquire_def ensureRunning_def failed_restart_fields)
  have recovers: "\<exists>h s2 i2. sup_Acquire env' now' later' (Some sp) opts s1 = (Inr (Some h), s2) \<and> clients s2 h = Some cfg
      \<and> heap s2 p = Some i2 \<and> in_state i2 = StateRunning \<and> in_client i2 = Some h \<and> in_restartCount i2 = 0"
    if "in_circuitUntil ?i1 \<le> now'" "client_for env' (caller_view (ao_TenantID opts) ?i1) = Inr cfg" "se_start env' cfg = None"
    for env' now' later' cfg
  proof -
    have "readiness_of now' ?i1 = NeedsRestart" using that(1) co by (simp add: readiness_of_def)
    note acq = Acquire_restarts [OF assms(1) st(2,1) this, of env' later']
    from restart_succeeds [OF st(1) that(2,3), of later'] obtain h s2 i2 where
      "sup_restart env' later' p (ao_TenantID opts) s1 = (Inr h, s2)" "clients s2 h = Some cfg" "heap s2 p = Some i2"
      "in_state i2 = StateRunning" "in_client i2 = Some h" "in_restartCount i2 = 0" by blast
    with acq show ?thesis by (intro exI [of _ h] exI [of _ s2] exI [of _ i2]) simp
  qed
  show ?thesis using st(1) co until blocked recovers by blast
qed


definition failing_env :: sup_env where
  "failing_env = working_env \<lparr> se_start := (\<lambda>cfg. Some ''exec format error'') \<rparr>"

definition idle_state :: supervisor where
  "idle_state = timer_fires 100 1
     (snd (sup_Acquire working_env 0 0 (Some (sample_stdio ''gh-mcp'' ''per_tenant'')) (sample_opts ''acme'') NewSupervisor))"

theorem circuit_breaker_witness:
  "\<exists>i1. heap (attempts (sample_stdio ''gh-mcp'' ''per_tenant'') (sample_opts ''acme'')
        [(failing_env, 101, 101), (failing_env, 102, 103)] idle_state) 1 = Some i1
     \<and> in_state i1 = StateCircuitOpen \<and> in_circuitUntil i1 = 403"
proof -
  let ?sp = "sample_stdio ''gh-mcp'' ''per_tenant''" and ?o = "sample_opts ''acme''"
  obtain key where key: "KeyForMode (ss_RuntimeMode ?sp) (ss_ID ?sp) ?o = Inr key"
    by (simp add: KeyForMode_def sample_stdio_def sample_opts_def)
  have fails: "start_fails failing_env" by (simp add: start_fails_def failing_env_def)
  have "insts idle_state key = Some 1 \<and> (\<exists>i. heap idle_state 1 = Some i \<and> in_state i = StateIdle
      \<and> in_restartCount i = 0 \<and> in_spec i = ?sp)"
    using key
    by (simp add: idle_state_def timer_fires_def idle_fire_def markIdle_def notif_Untrack_def health_Untrack_def acquire_eval)
  then obtain i where i: "insts idle_state key = Some 1" "heap idle_state 1 = Some i" "in_state i = StateIdle"
      "in_restartCount i = 0" "in_spec i = ?sp" by blast
  have "lc_MaxRestartAttempts (ss_Lifecycle ?sp) = 2" "lc_CircuitOpenDuration (ss_Lifecycle ?sp) = 300"
    by (simp_all add: sample_stdio_def)
  then show ?thesis
    using circuit_breaker [OF key i(1,2), of "[(failing_env, 101, 101)]" failing_env 102 103] i(3-5) fails
    by auto
qed

lemma KeyForMode_isolating:
  assumes "KeyForMode m sid opts = Inr k" and "m \<notin> {''shared_global'', ''remote_static''}"
  shows "m = ''per_tenant'' \<and> k = \<lparr> ik_TenantID = ao_TenantID opts, ik_ServerID = sid, ik_UserID = '''', ik_SessionID = '''' \<rparr>
    \<or> m = ''per_user'' \<and> ao_UserID opts \<noteq> ''''
        \<and> k = \<lparr> ik_TenantID = ao_TenantID opts, ik_ServerID = sid, ik_UserID = ao_UserID opts, ik_SessionID = '''' \<rparr>
    \<or> m = ''per_session'' \<and> ao_SessionID opts \<noteq> ''''
        \<and> k = \<lparr> ik_TenantID = ao_TenantID opts, ik_ServerID = sid, ik_UserID = ao_UserID opts,
                ik_SessionID = ao_SessionID opts \<rparr>"
  using assms by (simp add: KeyForMode_def Let_def split: if_splits)

text \<open>Instance keys isolate identities.  Under the runtime modes that are not shared, two acquisitions
  reach the same instance only if they ask for the same server, in the same mode, for the same tenant,
  and for the same user (per user) or the same user and session (per session).\<close>

theorem instance_keys_isolate:
  assumes "KeyForMode m sid o1 = Inr k" and "KeyForMode m' sid' o2 = Inr k"
    and "m \<notin> {''shared_global'', ''remote_static''}" and "m' \<notin> {''shared_global'', ''remote_static''}"
  shows "sid = sid' \<and> m = m' \<and> ao_TenantID o1 = ao_TenantID o2
    \<and> (m = ''per_user'' \<longrightarrow> ao_UserID o1 = ao_UserID o2)
    \<and> (m = ''per_session'' \<longrightarrow> ao_UserID o1 = ao_UserID o2 \<and> ao_SessionID o1 = ao_SessionID o2)"
  using KeyForMode_isolating [OF assms(1,3)] KeyForMode_isolating [OF assms(2,4)]
  by (elim disjE conjE) simp_all

theorem instance_keys_isolate_witness:
  "\<exists>k. KeyForMode ''per_session'' ''github'' (sample_opts ''acme'') = Inr k \<and> ik_SessionID k = ''s''
     \<and> (\<forall>o2. KeyForMode ''per_session'' ''github'' o2 = Inr k \<longrightarrow> ao_TenantID o2 = ''acme'' \<and> ao_SessionID o2 = ''s'')"
proof -
  obtain k where k: "KeyForMode ''per_session'' ''github'' (sample_opts ''acme'') = Inr k" "ik_SessionID k = ''s''"
    by (simp add: KeyForMode_def sample_opts_def)
  have "ao_TenantID o2 = ''acme'' \<and> ao_SessionID o2 = ''s''" if "KeyForMode ''per_session'' ''github'' o2 = Inr k" for o2
    using instance_keys_isolate [OF k(1) that] by (simp add: sample_opts_def)
  with k show ?thesis by blast
qed

text \<open>A change of a server drains exactly its instances.  After the supervisor reacts to an update or a
  removal, no instance of that server is installed for the tenant (nor a shared one), every other
  instance is untouched, and exactly the clients of the remaining instances are open.\<close>

theorem drain_is_exact:
  fixes t sid :: string
  assumes "sup_reachable s"
  defines "s' \<equiv> drainServer t sid s"
  shows "(\<forall>k. insts s' k = (if affected t sid k then None else insts s k))
    \<and> (\<forall>k p. insts s' k = Some p \<longrightarrow> heap s' p = heap s p)
    \<and> (\<forall>h. h \<in> dom (clients s') \<longleftrightarrow>
         (\<exists>k p i. insts s k = Some p \<and> \<not> affected t sid k \<and> heap s p = Some i \<and> in_client i = Some h))"
proof -
  have inv: "sup_inv {} s" using sup_reachable_inv [OF assms(1)] by blast
  have inv': "sup_inv {} s'" unfolding s'_def by (rule drainServer_inv [OF inv])
  note fold = drain_fold [OF inv, of "drain_keys t sid s", folded drainServer_def s'_def]
  have m: "insts s' k = (if affected t sid k then None else insts s k)" for k
    using fold [of k] by (auto simp: drain_keys_mem)
  have h: "heap s' p = heap s p" if "insts s' k = Some p" for k p
    using fold [of k] m [of k] that by (auto simp: drain_keys_mem split: if_splits)
  have "h \<in> dom (clients s') \<longleftrightarrow> (\<exists>p i. heap s' p = Some i \<and> in_client i = Some h)" for h
    using inv' unfolding sup_inv_def exact_def held_def by blast
  moreover have "insts s' (in_key i) = Some p" if "heap s' p = Some i" "in_client i = Some h" for p i h
    using inv' that unfolding sup_inv_def owners_def by blast
  ultimately have "h \<in> dom (clients s') \<longleftrightarrow> (\<exists>k p i. insts s' k = Some p \<and> heap s' p = Some i \<and> in_client i = Some h)" for h
    by blast
  also have "(\<exists>k p i. insts s' k = Some p \<and> heap s' p = Some i \<and> in_client i = Some h) \<longleftrightarrow>
      (\<exists>k p i. insts s k = Some p \<and> \<not> affected t sid k \<and> heap s p = Some i \<and> in_client i = Some h)" for h
    using m h by (metis option.distinct(1))
  finally show ?thesis using m h by blast
qed

theorem drain_is_exact_witness:
  "sup_reachable idle_state \<and> insts (drainServer ''acme'' ''github'' idle_state) = (\<lambda>k. None)"
proof -
  have r: "sup_reachable idle_state"
    using sup_reachable.exec [OF sup_reachable.exec [OF sup_reachable.init, of "DoAcquire working_env 0 0
        (Some (sample_stdio ''gh-mcp'' ''per_tenant'')) (sample_opts ''acme'')"], of "DoTimer 100 1"]
    by (simp add: idle_state_def)
  have "insts idle_state k = None \<or> affected ''acme'' ''github'' k" for k
    by (auto simp: idle_state_def timer_fires_def idle_fire_def markIdle_def notif_Untrack_def health_Untrack_def
        acquire_eval affected_def)
  with drain_is_exact [OF r, of "''acme''" "''github''"] r show ?thesis by (auto simp: fun_eq_iff)
qed

text \<open>The probe loop is equivalent to its specification.  The counter-based loop of the health checker
  marks a running instance as crashed exactly if the answers to its probes contain three failures in a
  row.\<close>

theorem health_probe_threshold:
  assumes "heap s p = Some i" and "in_state i = StateRunning" and "in_client i = Some h"
    and "aget (sv_probes s) (in_id i) = Some (Some 0)"
  shows "map_option in_state (heap (fold (probe_tick env p) pings s) p) =
    Some (if three_in_a_row pings then StateCrashed else StateRunning)"
proof -
  have "streak 0 pings = three_in_a_row pings"
    using streak_replicate [of 0 pings] by (simp add: healthFailThreshold_def)
  with probes_streak [OF assms, of env pings] show ?thesis by auto
qed

definition probed_state :: supervisor where
  "probed_state = snd (sup_Acquire working_env 0 0 (Some ((sample_stdio ''gh-mcp'' ''per_tenant'')
      \<lparr> ss_Health := \<lparr> he_PingInterval = 10, he_PingTimeout = 5, he_StartupGrace = 5 \<rparr> \<rparr>)) (sample_opts ''acme'') NewSupervisor)"

theorem health_probe_threshold_witness:
  "map_option in_state (heap (fold (probe_tick working_env 1) [Some ''x'', None, Some ''x'', Some ''y'', Some ''z''] probed_state) 1)
    = Some StateCrashed"
proof -
  have "\<exists>i h. heap probed_state 1 = Some i \<and> in_state i = StateRunning \<and> in_client i = Some h
      \<and> aget (sv_probes probed_state) (in_id i) = Some (Some 0)"
    by (simp add: probed_state_def acquire_eval)
  then obtain i h where "heap probed_state 1 = Some i" "in_state i = StateRunning" "in_client i = Some h"
      "aget (sv_probes probed_state) (in_id i) = Some (Some 0)" by blast
  from health_probe_threshold [OF this, of working_env "[Some ''x'', None, Some ''x'', Some ''y'', Some ''z'']"]
  show ?thesis by (simp add: three_in_a_row_Cons)
qed

subsection \<open>Where the code falls short of its comments\<close>

text \<open>The first idle timeout closes the client.  The instance's only timer is then spent, so the client
  of a later restart is never closed by inactivity.\<close>

theorem idle_timeout_once:
  assumes "heap s p = Some i" and "in_state i = StateRunning" and "in_client i = Some h" and "in_idle i = Some t"
    and "it_timer t = Some (Some d)" and "\<not> spent t" and "d \<le> now"
  defines "s1 \<equiv> timer_fires now p s"
  shows "\<exists>i1 t1. heap s1 p = Some i1 \<and> in_state i1 = StateIdle \<and> clients s1 h = None \<and> in_idle i1 = Some t1 \<and> spent t1"
proof -
  let ?i = "i \<lparr> in_idle := Some (t \<lparr> it_timer := Some None, it_fired := True \<rparr>) \<rparr>"
  have "idle_fire now t = (True, t \<lparr> it_timer := Some None, it_fired := True \<rparr>)"
    using assms(5-7) by (simp add: idle_fire_def spent_def)
  then have "s1 = markIdle p (upd p (\<lambda>i. i \<lparr> in_idle := Some (t \<lparr> it_timer := Some None, it_fired := True \<rparr>) \<rparr>) s)"
    using assms(1,4) by (simp add: s1_def timer_fires_def)
  then show ?thesis
    using assms(1-3) by (simp add: markIdle_def upd_def publishStatus_def call_registry_def notif_Untrack_def
        health_Untrack_def close_client_def spent_def)
qed

theorem restart_never_rearms:
  assumes "heap s p = Some i" and "in_idle i = Some t" and "spent t"
  shows "timer_fires now p s = upd p (\<lambda>i. i \<lparr> in_idle := Some (snd (idle_fire now t)) \<rparr>) s
    \<and> (\<exists>t'. in_idle (restarted later h i) = Some t' \<and> spent t')"
proof -
  obtain x where "idle_fire now t = (False, x)"
    using spent_stable(5) [OF assms(3)] by (metis prod.collapse)
  then have "timer_fires now p s = upd p (\<lambda>i. i \<lparr> in_idle := Some (snd (idle_fire now t)) \<rparr>) s"
    using assms(1,2) by (simp add: timer_fires_def)
  then show ?thesis using assms(2) spent_stable(1) [OF assms(3)] by (simp add: restarted_def)
qed

text \<open>The key of the shared modes ignores the tenant, although specs are registered per tenant: while the
  first tenant's instance is running, any other tenant that registers a shared server under the same id
  is handed the first tenant's client, whatever its own spec says.\<close>

theorem shared_instance_ignores_caller:
  assumes "ss_RuntimeMode sp \<in> {''shared_global'', ''remote_static''}" and "ss_ID sp = sid"
    and "insts s \<lparr> ik_TenantID = ''_global'', ik_ServerID = sid, ik_UserID = '''', ik_SessionID = '''' \<rparr> = Some p"
    and "heap s p = Some i" and "in_state i = StateRunning"
  shows "fst (sup_Acquire env now later (Some sp) opts s) = Inr (in_client i)"
  using assms by (auto simp: sup_Acquire_def KeyForMode_def ensureRunning_def readiness_of_def)

text \<open>The delay of the backoff policy is not applied: an instance in backoff restarts at once.\<close>

lemma backoff_restarts_at_once: "in_state i = StateBackoff \<Longrightarrow> readiness_of now i = NeedsRestart"
  by (simp add: readiness_of_def)

text \<open>Status is always published for the synthetic tenant, so no row of a real tenant ever carries it.\<close>

lemma published_status_lost:
  assumes "\<forall>r \<in> set (rg_servers db). sr_TenantID r \<noteq> ''_global''"
  shows "\<exists>e. UpdateServerStatus now ''_global'' sid status detail db = Inl e"
  using assms by (auto simp: UpdateServerStatus_def same_server_def)

lemma shared_instance_not_persisted:
  assumes "\<forall>r \<in> set (rg_servers db). sr_TenantID r \<noteq> ''_global''" and "rg_fk db" and "ir_TenantID x = ''_global''"
    and "\<forall>y \<in> set (rg_instances db). ir_ID y \<noteq> ir_ID x"
  shows "\<exists>e. UpsertInstance now x db = Inl e"
  using assms by (auto simp: UpsertInstance_def same_server_def Let_def find_None_iff)

end
