(* ===== verification/Server_Fleet.thy ===== *)
theory Server_Fleet
  imports Server_Registry Supervisor_Lifecycle
begin

text \<open>
  The registry, the reactor that consumes its change events, the supervisor and
  the southbound manager (\<open>internal/mcp/southbound/manager/manager.go\<close>) together:
  how a change of a server's definition reaches the running instances.  The
  reactor is the subscriber \<open>0\<close> of the registry.

  An acquisition reads the definition from the registry first and installs the
  started instance later, without a lock in between: it is two steps here, and
  between them anything else may happen.  The second step looks the key up,
  starts the client and installs the instance at once; what the lookup found
  does not change before the installation but by a stop, because the key is
  claimed (\<open>Supervisor_Concurrency\<close>).
\<close>

record manager_request =
  mr_TenantID :: string
  mr_UserID :: string
  mr_SessionID :: string
  mr_ServerID :: string
  mr_AuthEnv :: "(string, string) amap"

text \<open>An acquisition under way: the request, the snapshot it has read, and whether the reactor has drained the
  server since.\<close>

record acquisition =
  ac_req :: manager_request
  ac_snap :: Snapshot
  ac_drained :: bool

text \<open>The last field records the keys whose instance was installed by an acquisition that a drain had overtaken,
  until the next drain of that server.  No operation reads it, nor the flag of an acquisition.\<close>

record fleet =
  fl_reg :: Registry
  fl_sup :: supervisor
  fl_inflight :: "acquisition list"
  fl_missed :: "InstanceKey list"

subsection \<open>The calls of the supervisor into the registry\<close>

text \<open>Errors of these calls are logged and dropped.\<close>

definition apply_call :: "time \<Rightarrow> registry_call \<Rightarrow> Registry \<Rightarrow> Registry" where
  "apply_call now c r =
    (case c of
       CallUpsertInstance rec \<Rightarrow> (case reg_UpsertInstance now rec r of Inl e \<Rightarrow> r | Inr r' \<Rightarrow> r')
     | CallUpdateStatus t i status detail \<Rightarrow> (case reg_UpdateStatus now t i status detail r of Inl e \<Rightarrow> r | Inr r' \<Rightarrow> r')
     | CallDeleteInstance t i \<Rightarrow> (case reg_DeleteInstance t i r of Inl e \<Rightarrow> r | Inr r' \<Rightarrow> r'))"

definition flush :: "time \<Rightarrow> fleet \<Rightarrow> fleet" where
  "flush now fl = fl
    \<lparr> fl_reg := fold (apply_call now) (sv_calls (fl_sup fl)) (fl_reg fl),
      fl_sup := (fl_sup fl) \<lparr> sv_calls := [] \<rparr> \<rparr>"

subsection \<open>Reactor\<close>

definition OnUpdated :: "Snapshot option \<Rightarrow> supervisor \<Rightarrow> supervisor" where
  "OnUpdated newSnap s =
    (case newSnap of None \<Rightarrow> s
     | Some snap \<Rightarrow> drainServer (sr_TenantID (snap_Record snap)) (ss_ID (snap_Spec snap)) s)"

definition OnRemoved :: "Snapshot option \<Rightarrow> supervisor \<Rightarrow> supervisor" where
  "OnRemoved oldSnap s =
    (case oldSnap of None \<Rightarrow> s
     | Some snap \<Rightarrow> drainServer (sr_TenantID (snap_Record snap)) (ss_ID (snap_Spec snap)) s)"

definition reactor_dispatch :: "ServerChange \<Rightarrow> supervisor \<Rightarrow> supervisor" where
  "reactor_dispatch ev s =
    (case ce_Kind ev of
       ChangeAdded \<Rightarrow> s
     | ChangeUpdated \<Rightarrow> OnUpdated (ce_New ev) s
     | ChangeRemoved \<Rightarrow> OnRemoved (ce_Old ev) s)"

text \<open>The servers an event makes the reactor drain.\<close>

definition drains :: "ServerChange \<Rightarrow> string \<Rightarrow> string \<Rightarrow> bool" where
  "drains ev t i =
    (case ce_Kind ev of
       ChangeAdded \<Rightarrow> False
     | ChangeUpdated \<Rightarrow> (\<exists>snap. ce_New ev = Some snap \<and> sr_TenantID (snap_Record snap) = t \<and> ss_ID (snap_Spec snap) = i)
     | ChangeRemoved \<Rightarrow> (\<exists>snap. ce_Old ev = Some snap \<and> sr_TenantID (snap_Record snap) = t \<and> ss_ID (snap_Spec snap) = i))"

lemma drains_code [code]:
  "drains ev t i =
    (case ce_Kind ev of
       ChangeAdded \<Rightarrow> False
     | ChangeUpdated \<Rightarrow> (case ce_New ev of None \<Rightarrow> False | Some snap \<Rightarrow> sr_TenantID (snap_Record snap) = t \<and> ss_ID (snap_Spec snap) = i)
     | ChangeRemoved \<Rightarrow> (case ce_Old ev of None \<Rightarrow> False | Some snap \<Rightarrow> sr_TenantID (snap_Record snap) = t \<and> ss_ID (snap_Spec snap) = i))"
  by (simp add: drains_def split: ServerChangeKind.split option.split)

definition pending :: "fleet \<Rightarrow> ServerChange list" where
  "pending fl = (case aget (rs_subscribers (fl_reg fl)) 0 of None \<Rightarrow> [] | Some q \<Rightarrow> q)"

text \<open>What a drain does to the two history fields.\<close>

definition note_drain :: "ServerChange \<Rightarrow> fleet \<Rightarrow> fleet" where
  "note_drain ev fl = fl
    \<lparr> fl_inflight := map (\<lambda>a. if drains ev (mr_TenantID (ac_req a)) (mr_ServerID (ac_req a)) then a \<lparr> ac_drained := True \<rparr> else a)
        (fl_inflight fl),
      fl_missed := filter (\<lambda>k. \<not> drains ev (ik_TenantID k) (ik_ServerID k)) (fl_missed fl) \<rparr>"

definition react :: "time \<Rightarrow> fleet \<Rightarrow> fleet" where
  "react now fl =
    (case pending fl of
       [] \<Rightarrow> fl
     | ev # evs \<Rightarrow> flush now ((note_drain ev fl)
         \<lparr> fl_reg := (fl_reg fl) \<lparr> rs_subscribers := aput 0 evs (rs_subscribers (fl_reg fl)) \<rparr>,
           fl_sup := reactor_dispatch ev (fl_sup fl) \<rparr>))"

subsection \<open>Manager\<close>

datatype manager_error = MgrRegistry registry_error | MgrDisabled | MgrSupervisor sup_error

definition opts_of :: "manager_request \<Rightarrow> AcquireOpts" where
  "opts_of req = \<lparr> ao_TenantID = mr_TenantID req, ao_UserID = mr_UserID req, ao_SessionID = mr_SessionID req,
     ao_AuthEnv = mr_AuthEnv req \<rparr>"

text \<open>\<open>Acquire\<close> up to the call of the supervisor, and that call with the snapshot that was read.\<close>

definition manager_read :: "manager_request \<Rightarrow> Registry \<Rightarrow> (manager_error, Snapshot) result" where
  "manager_read req r =
    (case reg_Get r (mr_TenantID req) (mr_ServerID req) of
       Inl e \<Rightarrow> Inl (MgrRegistry e)
     | Inr snap \<Rightarrow> if \<not> sr_Enabled (snap_Record snap) then Inl MgrDisabled else Inr snap)"

definition manager_start ::
  "sup_env \<Rightarrow> time \<Rightarrow> time \<Rightarrow> manager_request \<Rightarrow> Snapshot \<Rightarrow> fleet \<Rightarrow> (manager_error, nat option) result \<times> fleet" where
  "manager_start env now later req snap fl =
    (let (res, s) = sup_Acquire env now later (Some (snap_Spec snap)) (opts_of req) (fl_sup fl) in
     (case res of Inl e \<Rightarrow> Inl (MgrSupervisor e) | Inr c \<Rightarrow> Inr c, flush later (fl \<lparr> fl_sup := s \<rparr>)))"

text \<open>The whole of \<open>Acquire\<close> when nothing happens in between.\<close>

definition manager_Acquire ::
  "sup_env \<Rightarrow> time \<Rightarrow> time \<Rightarrow> manager_request \<Rightarrow> fleet \<Rightarrow> (manager_error, nat option) result \<times> fleet" where
  "manager_Acquire env now later req fl =
    (case manager_read req (fl_reg fl) of
       Inl e \<Rightarrow> (Inl e, fl)
     | Inr snap \<Rightarrow> manager_start env now later req snap fl)"

definition acquire_begin :: "manager_request \<Rightarrow> Snapshot \<Rightarrow> fleet \<Rightarrow> fleet" where
  "acquire_begin req snap fl =
    fl \<lparr> fl_inflight := \<lparr> ac_req = req, ac_snap = snap, ac_drained = False \<rparr> # fl_inflight fl \<rparr>"

definition missed_keys :: "acquisition \<Rightarrow> supervisor \<Rightarrow> InstanceKey list" where
  "missed_keys a s =
    (let sp = snap_Spec (ac_snap a) in
     case KeyForMode (ss_RuntimeMode sp) (ss_ID sp) (opts_of (ac_req a)) of
       Inl e \<Rightarrow> []
     | Inr k \<Rightarrow> if ac_drained a \<and> aget (sv_instances s) k = None then [k] else [])"

definition acquire_finish :: "sup_env \<Rightarrow> time \<Rightarrow> time \<Rightarrow> acquisition \<Rightarrow> fleet \<Rightarrow> fleet" where
  "acquire_finish env now later a fl =
    (snd (manager_start env now later (ac_req a) (ac_snap a) fl))
      \<lparr> fl_inflight := remove1 a (fl_inflight fl), fl_missed := missed_keys a (fl_sup fl) @ fl_missed fl \<rparr>"

definition manager_Tick :: "sup_env \<Rightarrow> time \<Rightarrow> manager_request \<Rightarrow> fleet \<Rightarrow> fleet" where
  "manager_Tick env now req fl =
    (case reg_Get (fl_reg fl) (mr_TenantID req) (mr_ServerID req) of
       Inl e \<Rightarrow> fl
     | Inr snap \<Rightarrow>
         (case KeyForMode (ss_RuntimeMode (snap_Spec snap)) (ss_ID (snap_Spec snap)) (opts_of req) of
            Inl e \<Rightarrow> fl
          | Inr key \<Rightarrow> flush now (fl \<lparr> fl_sup := sup_Tick env now key (fl_sup fl) \<rparr>)))"

subsection \<open>Steps of the fleet\<close>

text \<open>\<open>mutate\<close> asks for room in the reactor's channel: the reactor keeps up.\<close>

inductive fleet_step :: "fleet \<Rightarrow> fleet \<Rightarrow> bool" where
  mutate: "reg_Apply now t m (fl_reg fl) = Inr (so, r) \<Longrightarrow> length (pending fl) < sub_capacity \<Longrightarrow>
    fleet_step fl (fl \<lparr> fl_reg := r \<rparr>)"
| enable: "reg_SetEnabled now t i b (fl_reg fl) = Inr (snap, r) \<Longrightarrow> length (pending fl) < sub_capacity \<Longrightarrow>
    fleet_step fl (fl \<lparr> fl_reg := r \<rparr>)"
| react: "fleet_step fl (react now fl)"
| read: "manager_read req (fl_reg fl) = Inr snap \<Longrightarrow> fleet_step fl (acquire_begin req snap fl)"
| start: "a \<in> set (fl_inflight fl) \<Longrightarrow> fleet_step fl (acquire_finish env now later a fl)"
| tick: "fleet_step fl (manager_Tick env now req fl)"
| timer: "fleet_step fl (flush now (fl \<lparr> fl_sup := timer_fires now p (fl_sup fl) \<rparr>))"
| probe: "fleet_step fl (flush now (fl \<lparr> fl_sup := probe_tick env p ping (fl_sup fl) \<rparr>))"

definition init_fleet :: "string list \<Rightarrow> bool \<Rightarrow> fleet" where
  "init_fleet tenants fk =
    \<lparr> fl_reg = \<lparr> rs_store = \<lparr> rg_fault = False, rg_fk = fk, rg_tenants = tenants, rg_servers = [], rg_instances = [] \<rparr>,
                 rs_subscribers = [(0, [])] \<rparr>,
      fl_sup = NewSupervisor, fl_inflight = [], fl_missed = [] \<rparr>"

definition fleet_reach :: "fleet \<Rightarrow> bool" where
  "fleet_reach fl = (\<exists>tenants fk. fleet_step\<^sup>*\<^sup>* (init_fleet tenants fk) fl)"

subsection \<open>Definitions survive the supervisor\<close>

text \<open>Installed instances of the new state were installed before, with the same spec.\<close>

definition spec_stable :: "supervisor \<Rightarrow> supervisor \<Rightarrow> bool" where
  "spec_stable s s' = (\<forall>k p i'. insts s' k = Some p \<longrightarrow> heap s' p = Some i' \<longrightarrow>
     (\<exists>i. insts s k = Some p \<and> heap s p = Some i \<and> in_spec i = in_spec i'))"

lemma spec_stable_refl [simp]: "spec_stable s s"
  by (simp add: spec_stable_def)

lemma spec_stable_trans: "spec_stable s s' \<Longrightarrow> spec_stable s' s'' \<Longrightarrow> spec_stable s s''"
  unfolding spec_stable_def by metis

lemma spec_stable_put:
  assumes "heap s p = Some i" and "in_spec i' = in_spec i" and "sv_heap s' = aput p i' (sv_heap s)"
    and "\<And>k q. insts s' k = Some q \<Longrightarrow> insts s k = Some q"
  shows "spec_stable s s'"
  using assms(1,2,4) unfolding spec_stable_def assms(3) by auto

lemma spec_stable_upd:
  assumes "\<And>i. in_spec (f i) = in_spec i"
  shows "spec_stable s (upd p f s)"
proof (cases "heap s p")
  case (Some i)
  show ?thesis by (rule spec_stable_put [OF Some assms]) (simp_all add: upd_def Some)
qed (simp add: upd_def)

lemma spec_stable_same:
  assumes "sv_heap s' = sv_heap x" and "sv_instances s' = sv_instances x" and "spec_stable s x"
  shows "spec_stable s s'"
  using assms by (simp add: spec_stable_def)

lemma spec_stable_tickIdle: "spec_stable s (tickIdle now p s)"
  unfolding tickIdle_def by (rule spec_stable_upd) simp

lemma spec_stable_Tick: "spec_stable s (sup_Tick env now k s)"
proof (cases "insts s k")
  case (Some p)
  show ?thesis
    by (rule spec_stable_same [OF _ _ spec_stable_tickIdle [of s now p]])
      (simp_all add: sup_Tick_def Some Let_def split: option.split)
qed (simp add: sup_Tick_def)

lemma spec_stable_markIdle: "spec_stable s (markIdle p s)"
proof (cases "\<exists>i. heap s p = Some i \<and> in_state i = StateRunning")
  case True
  then obtain i where i: "heap s p = Some i" "in_state i = StateRunning" by blast
  show ?thesis
    by (rule spec_stable_put [OF i(1), of "i \<lparr> in_state := StateIdle, in_client := None \<rparr>"])
      (simp_all add: markIdle_def i upd_def)
qed (auto simp: markIdle_def split: option.split)

lemma spec_stable_timer: "spec_stable s (timer_fires now p s)"
proof (cases "\<exists>i t. heap s p = Some i \<and> in_idle i = Some t")
  case True
  then obtain i t where i: "heap s p = Some i" "in_idle i = Some t" by blast
  obtain cb t' where f: "idle_fire now t = (cb, t')" by fastforce
  have u: "spec_stable s (upd p (\<lambda>i. i \<lparr> in_idle := Some t' \<rparr>) s)" by (rule spec_stable_upd) simp
  show ?thesis
    using u spec_stable_trans [OF u spec_stable_markIdle] by (simp add: timer_fires_def i f Let_def)
qed (auto simp: timer_fires_def split: option.split)

lemma spec_stable_probe: "spec_stable s (probe_tick env p ping s)"
proof (cases "heap s p")
  case (Some i)
  have pr: "spec_stable s (s \<lparr> sv_probes := x \<rparr>)" for x by (simp add: spec_stable_def)
  have "spec_stable y (markCrashed env p e y)" for y e
  proof (cases "\<exists>i. heap y p = Some i \<and> in_state i = StateRunning")
    case True
    then obtain i where i: "heap y p = Some i" "in_state i = StateRunning" by blast
    show ?thesis
      by (rule spec_stable_put [OF i(1), of "i \<lparr> in_state := StateCrashed, in_client := None,
            in_lastError := (case e of None \<Rightarrow> in_lastError i | Some e \<Rightarrow> Some e),
            in_idle := map_option idle_Stop (in_idle i) \<rparr>"])
        (simp_all add: markCrashed_def i upd_def Let_def)
  qed (auto simp: markCrashed_def split: option.split)
  then have "spec_stable s (markCrashed env p e (s \<lparr> sv_probes := x \<rparr>))" for e x
    using spec_stable_trans [OF pr] by blast
  with pr Some show ?thesis by (simp add: probe_tick_def Let_def split: option.split)
qed (simp add: probe_tick_def)

lemma spec_stable_drain: "sup_inv F s \<Longrightarrow> spec_stable s (drainServer t sid s)"
proof -
  assume inv: "sup_inv F s"
  show ?thesis
    unfolding spec_stable_def drainServer_def
    using drain_fold [OF inv, of "drain_keys t sid s"] by (metis option.distinct(1))
qed

lemma restart_spec:
  assumes "heap s p = Some i" and "sup_restart env now p t s = (res, s')"
  shows "spec_stable s s'"
proof -
  define j where "j = i \<lparr> in_client := None, in_state := StateStarting,
      in_tenantID := (if t = '''' then in_tenantID i else t) \<rparr>"
  let ?s1 = "restart_begin p t s"
  have h1: "sv_heap ?s1 = aput p j (sv_heap s)" "sv_instances ?s1 = sv_instances s"
    using assms(1) by (simp_all add: restart_begin_def upd_def j_def)
  then have j: "heap ?s1 p = Some j" by simp
  obtain s2 where sp: "spawnClient env j ?s1 = (res, s2)" and s': "s' = restart_finish env now p res s2"
    using assms(2) j by (auto simp: sup_restart_def Let_def split: prod.splits)
  have h2: "sv_heap s2 = sv_heap ?s1" "sv_instances s2 = sv_instances ?s1"
    using sp by (cases rule: spawnClient_cases; simp)+
  define i' where "i' = (case res of Inl e \<Rightarrow> failed_restart now e j | Inr h \<Rightarrow> restarted now h j)"
  have "in_spec i' = in_spec i"
    by (simp add: i'_def failed_restart_fields restarted_def j_def split: sum.split)
  moreover have "sv_heap s' = aput p i' (sv_heap s2)" "sv_instances s' = sv_instances s"
    using j h2 h1 by (cases res; simp add: s' i'_def restart_finish_def Let_def upd_def)+
  ultimately show ?thesis
    using assms(1) unfolding spec_stable_def by (auto simp: h2 h1)
qed

text \<open>An acquisition installs at most one instance, with the spec it was given.\<close>

lemma Acquire_spec:
  assumes "sup_inv {} s" and "sup_Acquire env now later (Some sp) opts s = (res, s')"
    and "insts s' k = Some p" and "heap s' p = Some i'"
  shows "(\<exists>i. insts s k = Some p \<and> heap s p = Some i \<and> in_spec i = in_spec i')
    \<or> (KeyForMode (ss_RuntimeMode sp) (ss_ID sp) opts = Inr k \<and> in_spec i' = sp \<and> insts s k = None)"
proof (cases "\<exists>key. KeyForMode (ss_RuntimeMode sp) (ss_ID sp) opts = Inr key")
  case True
  then obtain key where key: "KeyForMode (ss_RuntimeMode sp) (ss_ID sp) opts = Inr key" by blast
  show ?thesis
  proof (cases "insts s key")
    case None
    let ?i = "new_instance env key sp (ao_TenantID opts) (ao_AuthEnv opts)"
    obtain r s1 where r: "spawnClient env ?i s = (r, s1)" by fastforce
    then have s': "s' = start_finish env later ?i r s1"
      using assms(2) key None by (auto simp: sup_Acquire_def startNew_def Let_def split: sum.splits)
    have h1: "sv_heap s1 = sv_heap s" "sv_instances s1 = sv_instances s" "sv_fresh s \<le> sv_fresh s1"
      using r by (cases rule: spawnClient_cases; simp)+
    have ki: "in_key ?i = key" "in_spec ?i = sp" by (simp_all add: new_instance_def)
    have old: "q < sv_fresh s" if "insts s x = Some q" for x q
      by (rule installed_get [OF assms(1) that]) (use assms(1) in \<open>auto simp: sup_inv_def bounded_def\<close>)
    show ?thesis
    proof (cases r)
      case (Inl e)
      with assms(3,4) show ?thesis by (simp add: s' start_finish_def h1)
    next
      case (Inr h)
      with assms(3,4) show ?thesis
        using old [of k p] h1(3) key None
        by (auto simp: s' start_finish_def h1(1,2) ki Let_def split: if_splits)
    qed
  next
    case (Some q)
    obtain i where i: "heap s q = Some i" using installed_get [OF assms(1) Some] by blast
    have run: "ensureRunning env now later q (ao_TenantID opts) s = (res, s')"
      using Some assms(2) key by (simp add: sup_Acquire_def)
    have "spec_stable s s'"
    proof (cases "readiness_of now i")
      case NeedsRestart
      obtain r s1 where r: "sup_restart env later q (ao_TenantID opts) s = (r, s1)" by fastforce
      with NeedsRestart run i have "s' = s1" by (auto simp: ensureRunning_def split: sum.splits)
      with restart_spec [OF i r] show ?thesis by simp
    qed (use run i spec_stable_tickIdle in \<open>auto simp: ensureRunning_def\<close>)
    with assms(3,4) show ?thesis unfolding spec_stable_def by blast
  qed
next
  case False
  then have "s' = s" using assms(2) by (auto simp: sup_Acquire_def split: sum.splits)
  with assms(3,4) show ?thesis by blast
qed

subsection \<open>The registry keeps definitions well formed\<close>

text \<open>Every row decodes, and its spec carries the row's id.\<close>

definition rows_ok :: "Registry \<Rightarrow> bool" where
  "rows_ok r = (\<forall>row \<in> set (rg_servers (rs_store r)). \<exists>sp. sr_Spec row = Some sp \<and> ss_ID sp = sr_ID row)"

lemma GetServer_row: "GetServer db t i = Inr row \<Longrightarrow> row \<in> set (rg_servers db) \<and> sr_TenantID row = t \<and> sr_ID row = i"
  by (auto simp: GetServer_def same_server_def split: if_splits option.splits dest!: find_Some_prop)

lemma reg_Get_row:
  assumes "rows_ok r" and "GetServer (rs_store r) t i = Inr row"
  shows "\<exists>sp. reg_Get r t i = Inr \<lparr> snap_Spec = sp, snap_Record = row \<rparr> \<and> snap_opt row = Some \<lparr> snap_Spec = sp, snap_Record = row \<rparr>
    \<and> sr_Spec row = Some sp \<and> ss_ID sp = i \<and> sr_TenantID row = t \<and> sr_ID row = i"
  using assms GetServer_row [OF assms(2)]
  by (auto simp: rows_ok_def reg_Get_def lift_store_def recordToSnapshot_def snap_opt_def)

lemma set_replace_where: "set (replace_where P x xs) \<subseteq> insert x (set xs)"
  by (auto simp: replace_where_def)

lemma rows_ok_upsert:
  assumes "rows_ok r" and "UpsertServer now rec (rs_store r) = Inr db" and "sr_Spec rec = Some sp" and "ss_ID sp = sr_ID rec"
  shows "rows_ok (r \<lparr> rs_store := db \<rparr>)"
proof -
  let ?same = "same_server (sr_TenantID rec) (sr_ID rec)"
  have "rg_servers db = replace_where ?same (server_row now (List.find ?same (rg_servers (rs_store r))) rec) (rg_servers (rs_store r))"
    using assms(2) by (auto simp: UpsertServer_def Let_def split: if_splits)
  then have "set (rg_servers db) \<subseteq> insert (server_row now (List.find ?same (rg_servers (rs_store r))) rec) (set (rg_servers (rs_store r)))"
    using set_replace_where by metis
  then show ?thesis using assms(1,3,4) by (auto simp: rows_ok_def server_row_def)
qed

lemma rows_ok_publish [simp]: "rows_ok (reg_publish ev r) = rows_ok r"
  by (simp add: rows_ok_def)

text \<open>What a change tells the reactor: either it drains the instances of the changed server, or the
  server was not registered before.\<close>

definition tells :: "ServerChange \<Rightarrow> Registry \<Rightarrow> Registry \<Rightarrow> bool" where
  "tells ev r r' =
    (rs_subscribers r' = rs_subscribers (reg_publish ev r) \<and> rows_ok r'
     \<and> (\<forall>t i. reg_Get r' t i = reg_Get r t i \<or> drains ev t i \<or> (\<exists>e. reg_Get r t i = Inl e)))"

lemma write_tells:
  assumes "rows_ok r" and "UpsertServer now rec (rs_store r) = Inr db" and "sr_Spec rec = Some sp" and "ss_ID sp = sr_ID rec"
    and "ce_Kind ev = ChangeUpdated \<or> ce_Kind ev = ChangeAdded \<and> (\<exists>e. GetServer (rs_store r) (sr_TenantID rec) (sr_ID rec) = Inl e)"
    and "ce_New ev = Some \<lparr> snap_Spec = sp, snap_Record = rec \<rparr>"
  shows "tells ev r (reg_publish ev (r \<lparr> rs_store := db \<rparr>))"
proof -
  have "reg_Get (r \<lparr> rs_store := db \<rparr>) t i = reg_Get r t i \<or> drains ev t i \<or> (\<exists>e. reg_Get r t i = Inl e)" for t i
  proof (cases "(t, i) = (sr_TenantID rec, sr_ID rec)")
    case True
    with assms(3-6) show ?thesis by (auto simp: drains_def reg_Get_def lift_store_def)
  next
    case False
    then show ?thesis using GetServer_UpsertServer_other [OF assms(2)] by (simp add: reg_Get_def)
  qed
  moreover have "reg_Get (reg_publish ev (r \<lparr> rs_store := db \<rparr>)) = reg_Get (r \<lparr> rs_store := db \<rparr>)"
    by (simp add: reg_Get_def fun_eq_iff)
  moreover have "rs_subscribers (reg_publish ev (r \<lparr> rs_store := db \<rparr>)) = rs_subscribers (reg_publish ev r)"
    by (simp add: reg_publish_def)
  ultimately show ?thesis using rows_ok_upsert [OF assms(1-4)] by (simp add: tells_def)
qed

lemma Upsert_tells:
  assumes "rows_ok r" and "reg_Upsert now t spec r = Inr (snap, r')"
  shows "\<exists>ev. tells ev r r'"
proof -
  from assms(2) obtain s where "spec_Validate spec = Inr s" "t \<noteq> ''''"
    by (auto simp: reg_Upsert_def split: if_splits sum.splits)
  define old where "old = ok_opt (GetServer (rs_store r) t (ss_ID s))"
  from assms(2) \<open>spec_Validate spec = Inr s\<close> obtain db where
      up: "UpsertServer now (record_of_spec t s old now) (rs_store r) = Inr db"
      and sn: "recordToSnapshot (record_of_spec t s old now) = Inr snap"
      and r': "r' = reg_publish \<lparr> ce_Kind = (if old = None then ChangeAdded else ChangeUpdated),
          ce_TenantID = t, ce_ServerID = ss_ID s, ce_Old = Option.bind old snap_opt, ce_New = Some snap \<rparr>
          (r \<lparr> rs_store := db \<rparr>)"
    by (auto simp: reg_Upsert_def Let_def old_def [symmetric] split: if_splits sum.splits)
  have f: "sr_Spec (record_of_spec t s old now) = Some s" "ss_ID s = sr_ID (record_of_spec t s old now)"
    "sr_TenantID (record_of_spec t s old now) = t"
    by (simp_all add: record_of_spec_def)
  have "snap = \<lparr> snap_Spec = s, snap_Record = record_of_spec t s old now \<rparr>"
    using sn f(1) by (simp add: recordToSnapshot_def)
  moreover have "old = None \<Longrightarrow> \<exists>e. GetServer (rs_store r) t (ss_ID s) = Inl e"
    unfolding old_def by (auto simp: ok_opt_def split: sum.splits)
  ultimately have "tells \<lparr> ce_Kind = (if old = None then ChangeAdded else ChangeUpdated), ce_TenantID = t,
      ce_ServerID = ss_ID s, ce_Old = Option.bind old snap_opt, ce_New = Some snap \<rparr> r r'"
    unfolding r' by (intro write_tells [OF assms(1) up f(1,2)]) (simp_all add: f(2) [symmetric] f(3))
  then show ?thesis ..
qed

lemma Restart_tells:
  assumes "rows_ok r" and "reg_Restart now t i r = Inr (snap, r')"
  shows "\<exists>ev. tells ev r r'"
proof -
  from assms(2) obtain rec db where
      get: "GetServer (rs_store r) t i = Inr rec"
      and up: "UpsertServer now (rec \<lparr> sr_UpdatedAt := Some now \<rparr>) (rs_store r) = Inr db"
      and sn: "recordToSnapshot (rec \<lparr> sr_UpdatedAt := Some now \<rparr>) = Inr snap"
      and r': "r' = reg_publish \<lparr> ce_Kind = ChangeUpdated, ce_TenantID = t, ce_ServerID = i,
            ce_Old = None, ce_New = Some snap \<rparr> (r \<lparr> rs_store := db \<rparr>)"
    by (auto simp: reg_Restart_def Let_def)
  obtain sp where sp: "sr_Spec rec = Some sp" "ss_ID sp = sr_ID rec"
    using reg_Get_row [OF assms(1) get] by auto
  have "snap = \<lparr> snap_Spec = sp, snap_Record = rec \<lparr> sr_UpdatedAt := Some now \<rparr> \<rparr>"
    using sn sp(1) by (simp add: recordToSnapshot_def)
  then have "tells \<lparr> ce_Kind = ChangeUpdated, ce_TenantID = t, ce_ServerID = i, ce_Old = None, ce_New = Some snap \<rparr> r r'"
    unfolding r' using sp by (intro write_tells [OF assms(1) up, of sp]) simp_all
  then show ?thesis ..
qed

lemma SetEnabled_tells:
  assumes "rows_ok r" and "reg_SetEnabled now t i b r = Inr (snap, r')"
  shows "r' = r \<or> (\<exists>ev. tells ev r r')"
proof (cases "r' = r")
  case False
  from assms(2) obtain rec where get: "GetServer (rs_store r) t i = Inr rec" by (auto simp: reg_SetEnabled_def)
  define rec' where "rec' = rec \<lparr> sr_Enabled := b,
      sr_Status := (if \<not> b then ''disabled'' else if sr_Status rec = ''disabled'' then ''unknown'' else sr_Status rec),
      sr_UpdatedAt := Some now \<rparr>"
  from assms(2) get False obtain db where
      up: "UpsertServer now rec' (rs_store r) = Inr db" and sn: "recordToSnapshot rec' = Inr snap"
      and r': "r' = reg_publish \<lparr> ce_Kind = ChangeUpdated, ce_TenantID = t, ce_ServerID = i,
            ce_Old = None, ce_New = Some snap \<rparr> (r \<lparr> rs_store := db \<rparr>)"
    by (auto simp: reg_SetEnabled_def Let_def rec'_def [symmetric] split: if_splits)
  obtain sp where sp: "sr_Spec rec' = Some sp" "ss_ID sp = sr_ID rec'"
    using reg_Get_row [OF assms(1) get] by (auto simp: rec'_def)
  have "snap = \<lparr> snap_Spec = sp, snap_Record = rec' \<rparr>"
    using sn sp(1) by (simp add: recordToSnapshot_def)
  then have "tells \<lparr> ce_Kind = ChangeUpdated, ce_TenantID = t, ce_ServerID = i, ce_Old = None, ce_New = Some snap \<rparr> r r'"
    unfolding r' using sp by (intro write_tells [OF assms(1) up, of sp]) simp_all
  then show ?thesis by blast
qed simp

lemma Delete_tells:
  assumes "rows_ok r" and "reg_Delete t i r = Inr r'"
  shows "\<exists>ev. tells ev r r'"
proof -
  from assms(2) obtain old db where
      get: "GetServer (rs_store r) t i = Inr old" and del: "DeleteServer t i (rs_store r) = Inr db"
      and r': "r' = reg_publish \<lparr> ce_Kind = ChangeRemoved, ce_TenantID = t, ce_ServerID = i,
            ce_Old = snap_opt old, ce_New = None \<rparr> (r \<lparr> rs_store := db \<rparr>)"
    by (auto simp: reg_Delete_def split: if_splits)
  let ?ev = "\<lparr> ce_Kind = ChangeRemoved, ce_TenantID = t, ce_ServerID = i, ce_Old = snap_opt old, ce_New = None \<rparr>"
  have dr: "drains ?ev t i"
    using reg_Get_row [OF assms(1) get] by (auto simp: drains_def)
  have "set (rg_servers db) \<subseteq> set (rg_servers (rs_store r))"
    using del by (auto simp: DeleteServer_def split: if_splits)
  then have ok: "rows_ok r'" using assms(1) unfolding r' rows_ok_def by auto
  have get': "reg_Get r' t' i' = reg_Get r t' i' \<or> drains ?ev t' i'" for t' i'
  proof (cases "(t', i') = (t, i)")
    case True
    with dr show ?thesis by simp
  next
    case False
    then show ?thesis using GetServer_DeleteServer_other [OF del False] by (simp add: r' reg_Get_def)
  qed
  have "rs_subscribers r' = rs_subscribers (reg_publish ?ev r)" by (simp add: r' reg_publish_def)
  with get' ok have "tells ?ev r r'" by (auto simp: tells_def)
  then show ?thesis by blast
qed

lemma Apply_tells:
  assumes "rows_ok r" and "reg_Apply now t m r = Inr (so, r')"
  shows "\<exists>ev. tells ev r r'"
  using assms(2)
  by (cases "mu_Op m")
    (auto simp: reg_Apply_def split: if_splits option.splits
      dest!: Upsert_tells [OF assms(1)] Restart_tells [OF assms(1)] Delete_tells [OF assms(1)])

subsection \<open>Stale instances are always about to be drained\<close>

text \<open>The calls of the supervisor change neither definitions nor subscriptions.\<close>

definition same_defs :: "Registry \<Rightarrow> Registry \<Rightarrow> bool" where
  "same_defs r r' =
    (rs_subscribers r' = rs_subscribers r \<and> (rows_ok r \<longrightarrow> rows_ok r')
     \<and> (\<forall>t i. map_option snap_Spec (ok_opt (reg_Get r' t i)) = map_option snap_Spec (ok_opt (reg_Get r t i))))"

lemma same_defs_refl [simp]: "same_defs r r"
  by (simp add: same_defs_def)

lemma same_defs_trans: "same_defs r r' \<Longrightarrow> same_defs r' r'' \<Longrightarrow> same_defs r r''"
  by (simp add: same_defs_def)

lemma find_map_status:
  assumes "\<And>x. P (f x) = P x"
  shows "List.find P (map f xs) = map_option f (List.find P xs)"
  using assms by (induction xs) auto

lemma same_defs_status:
  assumes "reg_UpdateStatus now t i status detail r = Inr r'"
  shows "same_defs r r'"
proof -
  let ?f = "\<lambda>row. if same_server t i row then row \<lparr> sr_Status := status, sr_StatusDetail := detail, sr_UpdatedAt := Some (to_ms now) \<rparr> else row"
  have r': "r' = r \<lparr> rs_store := (rs_store r) \<lparr> rg_servers := map ?f (rg_servers (rs_store r)) \<rparr> \<rparr>"
    using assms by (auto simp: reg_UpdateStatus_def UpdateServerStatus_def split: if_splits)
  have find: "List.find (same_server t' i') (map ?f rows) = map_option ?f (List.find (same_server t' i') rows)" for t' i' rows
    by (rule find_map_status) (simp add: same_server_def)
  have "rows_ok r \<Longrightarrow> rows_ok r'" by (auto simp: rows_ok_def r')
  moreover have "map_option snap_Spec (ok_opt (reg_Get r' t' i')) = map_option snap_Spec (ok_opt (reg_Get r t' i'))" for t' i'
    by (auto simp: r' reg_Get_def GetServer_def lift_store_def recordToSnapshot_def ok_opt_def find
        split: option.splits sum.splits)
  ultimately show ?thesis by (simp add: same_defs_def r')
qed

lemma same_defs_instances: "same_defs r (r \<lparr> rs_store := (rs_store r) \<lparr> rg_instances := x \<rparr> \<rparr>)"
  by (simp add: same_defs_def rows_ok_def reg_Get_def GetServer_def)

lemma same_defs_call: "same_defs r (apply_call now c r)"
proof (cases c)
  case (CallUpsertInstance rec)
  have "\<exists>x. r' = r \<lparr> rs_store := (rs_store r) \<lparr> rg_instances := x \<rparr> \<rparr>" if "reg_UpsertInstance now rec r = Inr r'" for r'
    using that by (auto simp: reg_UpsertInstance_def UpsertInstance_def Let_def split: if_splits)
  with CallUpsertInstance same_defs_instances show ?thesis by (auto simp: apply_call_def split: sum.split)
next
  case (CallUpdateStatus t i st d)
  with same_defs_status show ?thesis by (auto simp: apply_call_def split: sum.split)
next
  case (CallDeleteInstance t i)
  have "\<exists>x. r' = r \<lparr> rs_store := (rs_store r) \<lparr> rg_instances := x \<rparr> \<rparr>" if "reg_DeleteInstance t i r = Inr r'" for r'
    using that by (auto simp: reg_DeleteInstance_def DeleteInstance_def split: if_splits)
  with CallDeleteInstance same_defs_instances show ?thesis by (auto simp: apply_call_def split: sum.split)
qed

lemma same_defs_calls: "same_defs r (fold (apply_call now) cs r)"
  by (induction cs arbitrary: r) (auto intro: same_defs_trans [OF same_defs_call])

definition registered :: "Registry \<Rightarrow> string \<Rightarrow> string \<Rightarrow> ServerSpec \<Rightarrow> bool" where
  "registered r t i sp = (map_option snap_Spec (ok_opt (reg_Get r t i)) = Some sp)"

definition current :: "Registry \<Rightarrow> InstanceKey \<Rightarrow> ServerSpec \<Rightarrow> bool" where
  "current r k sp = registered r (ik_TenantID k) (ik_ServerID k) sp"

text \<open>A definition is covered when it is the registered one or a drain of its server is waiting.\<close>

definition covered :: "fleet \<Rightarrow> string \<Rightarrow> string \<Rightarrow> ServerSpec \<Rightarrow> bool" where
  "covered fl t i sp \<longleftrightarrow> registered (fl_reg fl) t i sp \<or> (\<exists>ev \<in> set (pending fl). drains ev t i)"

definition up_to_date :: "fleet \<Rightarrow> bool" where
  "up_to_date fl =
    (\<forall>k p i. insts (fl_sup fl) k = Some p \<longrightarrow> heap (fl_sup fl) p = Some i \<longrightarrow> ik_TenantID k \<noteq> ''_global'' \<longrightarrow>
       covered fl (ik_TenantID k) (ik_ServerID k) (in_spec i) \<or> k \<in> set (fl_missed fl))"

definition inflight_ok :: "fleet \<Rightarrow> bool" where
  "inflight_ok fl =
    (\<forall>a \<in> set (fl_inflight fl). ss_ID (snap_Spec (ac_snap a)) = mr_ServerID (ac_req a) \<and>
       (ac_drained a \<or> covered fl (mr_TenantID (ac_req a)) (mr_ServerID (ac_req a)) (snap_Spec (ac_snap a))))"

definition fleet_inv :: "fleet \<Rightarrow> bool" where
  "fleet_inv fl =
    (sup_inv {} (fl_sup fl) \<and> no_start (fl_sup fl) \<and> rows_ok (fl_reg fl) \<and> aget (rs_subscribers (fl_reg fl)) 0 \<noteq> None
     \<and> up_to_date fl \<and> inflight_ok fl)"

lemma registered_same: "same_defs r r' \<Longrightarrow> registered r' t i sp = registered r t i sp"
  by (simp add: same_defs_def registered_def)

lemma pending_same: "same_defs (fl_reg fl) r \<Longrightarrow> pending (fl \<lparr> fl_reg := r \<rparr>) = pending fl"
  by (simp add: same_defs_def pending_def)

lemma covered_reg: "fl_reg fl' = fl_reg fl \<Longrightarrow> covered fl' t i sp = covered fl t i sp"
  by (simp add: covered_def pending_def)

lemma covered_same: "same_defs (fl_reg fl) (fl_reg fl') \<Longrightarrow> covered fl' t i sp = covered fl t i sp"
  by (simp add: covered_def pending_def registered_same) (simp add: same_defs_def)

lemma fleet_fields:
  "fl_sup (fl \<lparr> fl_reg := r \<rparr>) = fl_sup fl" "fl_missed (fl \<lparr> fl_reg := r \<rparr>) = fl_missed fl"
  "fl_inflight (fl \<lparr> fl_reg := r \<rparr>) = fl_inflight fl" "fl_sup (fl \<lparr> fl_sup := s \<rparr>) = s"
  "fl_missed (fl \<lparr> fl_sup := s \<rparr>) = fl_missed fl" "fl_inflight (fl \<lparr> fl_sup := s \<rparr>) = fl_inflight fl"
  by simp_all

text \<open>A step of the supervisor alone.\<close>

lemma fleet_inv_sup:
  assumes "fleet_inv fl" and "sup_inv {} s" and "no_start s" and "spec_stable (fl_sup fl) s"
  shows "fleet_inv (fl \<lparr> fl_sup := s \<rparr>)"
proof -
  have cov: "covered (fl \<lparr> fl_sup := s \<rparr>) t i sp = covered fl t i sp" for t i sp by (rule covered_reg) simp
  have "up_to_date (fl \<lparr> fl_sup := s \<rparr>)"
    unfolding up_to_date_def cov fleet_fields
  proof (intro allI impI)
    fix k p i' assume inst: "insts s k = Some p" "heap s p = Some i'" "ik_TenantID k \<noteq> ''_global''"
    then obtain i where "insts (fl_sup fl) k = Some p" "heap (fl_sup fl) p = Some i" "in_spec i = in_spec i'"
      using assms(4) unfolding spec_stable_def by blast
    moreover have "up_to_date fl" using assms(1) by (simp add: fleet_inv_def)
    ultimately show "covered fl (ik_TenantID k) (ik_ServerID k) (in_spec i') \<or> k \<in> set (fl_missed fl)"
      using inst(3) unfolding up_to_date_def by (metis (no_types))
  qed
  then show ?thesis
    using assms(1-3) unfolding fleet_inv_def inflight_ok_def cov by simp
qed

lemma fleet_inv_flush:
  assumes "fleet_inv fl"
  shows "fleet_inv (flush now fl)"
proof -
  let ?r = "fold (apply_call now) (sv_calls (fl_sup fl)) (fl_reg fl)"
  note d = same_defs_calls [of "fl_reg fl" now "sv_calls (fl_sup fl)"]
  have core: "core ((fl_sup fl) \<lparr> sv_calls := [] \<rparr>) = core (fl_sup fl)" by (simp add: core_def)
  have "rows_ok ?r" "rs_subscribers ?r = rs_subscribers (fl_reg fl)"
    using d assms by (simp_all add: same_defs_def fleet_inv_def)
  moreover have "covered (flush now fl) t i sp = covered fl t i sp" for t i sp
    by (rule covered_same) (simp add: flush_def d)
  ultimately show ?thesis
    using assms core_inv [OF core]
    by (simp add: fleet_inv_def up_to_date_def inflight_ok_def flush_def)
qed

lemma covered_tells:
  assumes "aget (rs_subscribers (fl_reg fl)) 0 = Some q" and "tells ev (fl_reg fl) r" and "length (pending fl) < sub_capacity"
    and "covered fl t i sp"
  shows "covered (fl \<lparr> fl_reg := r \<rparr>) t i sp"
proof -
  have subs: "rs_subscribers r = rs_subscribers (reg_publish ev (fl_reg fl))"
    and get: "reg_Get r t i = reg_Get (fl_reg fl) t i \<or> drains ev t i \<or> (\<exists>e. reg_Get (fl_reg fl) t i = Inl e)"
    using assms(2) unfolding tells_def by blast+
  have "pending (fl \<lparr> fl_reg := r \<rparr>) = pending fl @ [ev]"
    using assms(1,3) by (simp add: subs reg_publish_sub pending_def reg_send_room)
  moreover have "\<nexists>e. reg_Get (fl_reg fl) t i = Inl e" if "registered (fl_reg fl) t i sp"
    using that by (auto simp: registered_def ok_opt_def)
  ultimately show ?thesis
    using assms(4) get by (auto simp: covered_def registered_def)
qed

lemma fleet_inv_tells:
  assumes "fleet_inv fl" and "tells ev (fl_reg fl) r" and "length (pending fl) < sub_capacity"
  shows "fleet_inv (fl \<lparr> fl_reg := r \<rparr>)"
proof -
  obtain q where q: "aget (rs_subscribers (fl_reg fl)) 0 = Some q" using assms(1) by (auto simp: fleet_inv_def)
  note cov = covered_tells [OF q assms(2,3)]
  have "rows_ok r" "aget (rs_subscribers r) 0 = Some (q @ [ev])"
    using assms(2,3) q by (auto simp: tells_def reg_publish_sub pending_def reg_send_room)
  moreover have "up_to_date (fl \<lparr> fl_reg := r \<rparr>)"
  proof -
    have "up_to_date fl" using assms(1) by (simp add: fleet_inv_def)
    then show ?thesis unfolding up_to_date_def fleet_fields using cov by blast
  qed
  moreover have "inflight_ok (fl \<lparr> fl_reg := r \<rparr>)"
  proof -
    have "inflight_ok fl" using assms(1) by (simp add: fleet_inv_def)
    then show ?thesis unfolding inflight_ok_def fleet_fields using cov by blast
  qed
  ultimately show ?thesis using assms(1) by (simp add: fleet_inv_def)
qed

lemma dispatch_drain:
  "reactor_dispatch ev s = s \<or> (\<exists>t i. reactor_dispatch ev s = drainServer t i s \<and> drains ev t i)"
  by (auto simp: reactor_dispatch_def OnUpdated_def OnRemoved_def drains_def split: ServerChangeKind.split option.split)

lemma drains_dispatch:
  "drains ev t i \<Longrightarrow> reactor_dispatch ev s = drainServer t i s"
  by (auto simp: reactor_dispatch_def OnUpdated_def OnRemoved_def drains_def split: ServerChangeKind.splits)

lemma drained_gone:
  assumes "sup_inv F s"
  shows "insts (drainServer t i s) k \<noteq> None \<Longrightarrow> \<not> (ik_TenantID k = t \<and> ik_ServerID k = i)"
  using drain_fold [OF assms, of "drain_keys t i s" k]
  by (auto simp: drainServer_def drain_keys_mem affected_def split: if_splits)

lemma fleet_inv_react:
  assumes "fleet_inv fl"
  shows "fleet_inv (react now fl)"
proof (cases "pending fl")
  case Nil
  with assms show ?thesis by (simp add: react_def)
next
  case (Cons ev evs)
  let ?s = "reactor_dispatch ev (fl_sup fl)"
  let ?r = "(fl_reg fl) \<lparr> rs_subscribers := aput 0 evs (rs_subscribers (fl_reg fl)) \<rparr>"
  let ?fl = "(note_drain ev fl) \<lparr> fl_reg := ?r, fl_sup := ?s \<rparr>"
  have inv: "sup_inv {} (fl_sup fl)" "no_start (fl_sup fl)" and up: "up_to_date fl" and ok: "inflight_ok fl"
    using assms by (simp_all add: fleet_inv_def)
  have s: "sup_inv {} ?s" "no_start ?s" "spec_stable (fl_sup fl) ?s"
    using dispatch_drain [of ev "fl_sup fl"] drainServer_inv [OF inv(1)] no_start_drain [OF inv(2)] spec_stable_drain [OF inv(1)] inv
    by auto
  have cov: "covered ?fl t i sp" if "covered fl t i sp" "\<not> drains ev t i" for t i sp
  proof -
    have "registered ?r t i sp = registered (fl_reg fl) t i sp" "pending ?fl = evs"
      by (simp_all add: registered_def reg_Get_def pending_def)
    with that Cons show ?thesis by (auto simp: covered_def)
  qed
  have "covered ?fl (ik_TenantID k) (ik_ServerID k) (in_spec i') \<or> k \<in> set (fl_missed ?fl)"
    if inst: "insts ?s k = Some p" "heap ?s p = Some i'" "ik_TenantID k \<noteq> ''_global''" for k p i'
  proof -
    obtain i where i: "insts (fl_sup fl) k = Some p" "heap (fl_sup fl) p = Some i" "in_spec i = in_spec i'"
      using s(3) inst(1,2) unfolding spec_stable_def by blast
    have kept: "\<not> drains ev (ik_TenantID k) (ik_ServerID k)"
    proof
      assume "drains ev (ik_TenantID k) (ik_ServerID k)"
      from drains_dispatch [OF this] inst(1) drained_gone [OF inv(1)] show False by fastforce
    qed
    have "covered fl (ik_TenantID k) (ik_ServerID k) (in_spec i') \<or> k \<in> set (fl_missed fl)"
      using up i inst(3) unfolding up_to_date_def by metis
    with kept cov show ?thesis by (auto simp: note_drain_def)
  qed
  then have up': "up_to_date ?fl" unfolding up_to_date_def by simp
  have "inflight_ok ?fl"
    unfolding inflight_ok_def
  proof
    fix a assume "a \<in> set (fl_inflight ?fl)"
    then obtain b where b: "b \<in> set (fl_inflight fl)"
        "a = (if drains ev (mr_TenantID (ac_req b)) (mr_ServerID (ac_req b)) then b \<lparr> ac_drained := True \<rparr> else b)"
      by (auto simp: note_drain_def)
    from ok b(1) have "ss_ID (snap_Spec (ac_snap b)) = mr_ServerID (ac_req b)"
        "ac_drained b \<or> covered fl (mr_TenantID (ac_req b)) (mr_ServerID (ac_req b)) (snap_Spec (ac_snap b))"
      unfolding inflight_ok_def by blast+
    with b(2) cov show "ss_ID (snap_Spec (ac_snap a)) = mr_ServerID (ac_req a) \<and>
        (ac_drained a \<or> covered ?fl (mr_TenantID (ac_req a)) (mr_ServerID (ac_req a)) (snap_Spec (ac_snap a)))"
      by (cases "drains ev (mr_TenantID (ac_req b)) (mr_ServerID (ac_req b))") auto
  qed
  with up' assms s have "fleet_inv ?fl" by (simp add: fleet_inv_def rows_ok_def)
  from fleet_inv_flush [OF this] Cons show ?thesis by (simp add: react_def)
qed

lemma manager_read_Inr:
  "manager_read req r = Inr snap \<longleftrightarrow>
    reg_Get r (mr_TenantID req) (mr_ServerID req) = Inr snap \<and> sr_Enabled (snap_Record snap)"
  by (auto simp: manager_read_def split: sum.split)

lemma fleet_inv_read:
  assumes "fleet_inv fl" and "manager_read req (fl_reg fl) = Inr snap"
  shows "fleet_inv (acquire_begin req snap fl)"
proof -
  have get: "reg_Get (fl_reg fl) (mr_TenantID req) (mr_ServerID req) = Inr snap" using assms(2) by (simp add: manager_read_Inr)
  have rows: "rows_ok (fl_reg fl)" using assms(1) by (simp add: fleet_inv_def)
  have "\<exists>row. GetServer (rs_store (fl_reg fl)) (mr_TenantID req) (mr_ServerID req) = Inr row"
    using get by (auto simp: reg_Get_def lift_store_def split: sum.splits)
  then have "ss_ID (snap_Spec snap) = mr_ServerID req" using reg_Get_row [OF rows] get by force
  moreover have "registered (fl_reg fl) (mr_TenantID req) (mr_ServerID req) (snap_Spec snap)"
    using get by (simp add: registered_def ok_opt_def)
  moreover have "covered (acquire_begin req snap fl) t i sp = covered fl t i sp" for t i sp
    by (rule covered_reg) (simp add: acquire_begin_def)
  ultimately show ?thesis
    using assms(1) by (simp add: fleet_inv_def up_to_date_def inflight_ok_def) (simp add: acquire_begin_def covered_def)
qed

text \<open>The second step installs what was read: covered unless a drain came in between.\<close>

lemma fleet_inv_start:
  assumes "fleet_inv fl" and a: "a \<in> set (fl_inflight fl)"
  shows "fleet_inv (acquire_finish env now later a fl)"
proof -
  let ?sp = "snap_Spec (ac_snap a)" and ?opts = "opts_of (ac_req a)"
  obtain res s where acq: "sup_Acquire env now later (Some ?sp) ?opts (fl_sup fl) = (res, s)" by fastforce
  let ?fl = "fl \<lparr> fl_sup := s, fl_inflight := remove1 a (fl_inflight fl), fl_missed := missed_keys a (fl_sup fl) @ fl_missed fl \<rparr>"
  have inv: "sup_inv {} (fl_sup fl)" "no_start (fl_sup fl)" and up: "up_to_date fl" and ok: "inflight_ok fl"
    using assms(1) by (simp_all add: fleet_inv_def)
  have sid: "ss_ID ?sp = mr_ServerID (ac_req a)"
    and cov: "ac_drained a \<or> covered fl (mr_TenantID (ac_req a)) (mr_ServerID (ac_req a)) ?sp"
    using ok a unfolding inflight_ok_def by blast+
  have cov': "covered ?fl t i sp = covered fl t i sp" for t i sp by (rule covered_reg) simp
  have "covered fl (ik_TenantID k) (ik_ServerID k) (in_spec i') \<or> k \<in> set (fl_missed ?fl)"
    if inst: "insts s k = Some p" "heap s p = Some i'" "ik_TenantID k \<noteq> ''_global''" for k p i'
    using Acquire_spec [OF inv(1) acq inst(1,2)]
  proof
    assume "\<exists>i. insts (fl_sup fl) k = Some p \<and> heap (fl_sup fl) p = Some i \<and> in_spec i = in_spec i'"
    then have "covered fl (ik_TenantID k) (ik_ServerID k) (in_spec i') \<or> k \<in> set (fl_missed fl)"
      using up inst(3) unfolding up_to_date_def by metis
    then show ?thesis by auto
  next
    assume new: "KeyForMode (ss_RuntimeMode ?sp) (ss_ID ?sp) ?opts = Inr k \<and> in_spec i' = ?sp \<and> insts (fl_sup fl) k = None"
    then have "ik_ServerID k = mr_ServerID (ac_req a)" "ik_TenantID k = mr_TenantID (ac_req a)"
      using inst(3) sid KeyForMode_Inr [of "ss_RuntimeMode ?sp" "ss_ID ?sp" ?opts k] by (auto simp: opts_of_def)
    with new cov show ?thesis by (auto simp: missed_keys_def Let_def)
  qed
  then have "up_to_date ?fl" unfolding up_to_date_def cov' by simp
  moreover have "inflight_ok ?fl"
    using ok set_remove1_subset [of a "fl_inflight fl"] unfolding inflight_ok_def cov' by auto
  ultimately have "fleet_inv ?fl"
    using assms(1) sup_Acquire_inv [OF inv(1) acq] no_start_Acquire [OF inv acq] by (simp add: fleet_inv_def)
  moreover have "acquire_finish env now later a fl = flush later ?fl"
    using acq by (cases fl) (simp add: acquire_finish_def manager_start_def flush_def)
  ultimately show ?thesis using fleet_inv_flush by simp
qed

text \<open>An acquisition nothing interrupts is the two steps in a row, and misses nothing.\<close>

lemma uninterrupted_acquire:
  "fleet_step\<^sup>*\<^sup>* fl (snd (manager_Acquire env now later req fl)) \<and>
   fl_missed (snd (manager_Acquire env now later req fl)) = fl_missed fl"
proof (cases "manager_read req (fl_reg fl)")
  case (Inl e)
  then show ?thesis by (simp add: manager_Acquire_def)
next
  case (Inr snap)
  let ?a = "\<lparr> ac_req = req, ac_snap = snap, ac_drained = False \<rparr>"
  have fin: "acquire_finish env now later ?a (acquire_begin req snap fl) = snd (manager_Acquire env now later req fl)"
    using Inr by (simp add: acquire_finish_def acquire_begin_def manager_Acquire_def manager_start_def missed_keys_def
        flush_def Let_def split: prod.split sum.split)
  have "fleet_step fl (acquire_begin req snap fl)" using Inr by (rule fleet_step.read)
  moreover have "?a \<in> set (fl_inflight (acquire_begin req snap fl))" by (simp add: acquire_begin_def)
  then have "fleet_step (acquire_begin req snap fl) (snd (manager_Acquire env now later req fl))"
    using fleet_step.start fin by metis
  ultimately show ?thesis
    using Inr by (auto simp: manager_Acquire_def manager_start_def flush_def split: prod.split)
qed

lemma fleet_inv_tick:
  assumes "fleet_inv fl"
  shows "fleet_inv (manager_Tick env now req fl)"
proof -
  have "fleet_inv (fl \<lparr> fl_sup := sup_Tick env now key (fl_sup fl) \<rparr>)" for key
    using assms sup_Tick_inv no_start_Tick spec_stable_Tick by (intro fleet_inv_sup) (auto simp: fleet_inv_def)
  with assms fleet_inv_flush show ?thesis by (simp add: manager_Tick_def split: sum.split)
qed

lemma fleet_step_inv: "fleet_step fl fl' \<Longrightarrow> fleet_inv fl \<Longrightarrow> fleet_inv fl'"
proof (induction rule: fleet_step.induct)
  case (mutate now t m fl so r)
  then have "rows_ok (fl_reg fl)" by (simp add: fleet_inv_def)
  from Apply_tells [OF this mutate.hyps(1)] fleet_inv_tells [OF mutate.prems] mutate.hyps(2) show ?case by blast
next
  case (enable now t i b fl snap r)
  then have "rows_ok (fl_reg fl)" by (simp add: fleet_inv_def)
  from SetEnabled_tells [OF this enable.hyps(1)] fleet_inv_tells [OF enable.prems] enable.hyps(2) enable.prems show ?case
    by (auto simp: fleet_inv_def)
next
  case (timer fl now p)
  then have "fleet_inv (fl \<lparr> fl_sup := timer_fires now p (fl_sup fl) \<rparr>)"
    using timer_fires_inv no_start_timer spec_stable_timer by (intro fleet_inv_sup) (auto simp: fleet_inv_def)
  then show ?case by (rule fleet_inv_flush)
next
  case (probe fl now env p ping)
  then have "fleet_inv (fl \<lparr> fl_sup := probe_tick env p ping (fl_sup fl) \<rparr>)"
    using probe_tick_inv no_start_probe spec_stable_probe by (intro fleet_inv_sup) (auto simp: fleet_inv_def)
  then show ?case by (rule fleet_inv_flush)
qed (auto intro: fleet_inv_react fleet_inv_read fleet_inv_start fleet_inv_tick)

lemma fleet_reach_inv: "fleet_reach fl \<Longrightarrow> fleet_inv fl"
proof -
  assume "fleet_reach fl"
  then obtain tenants fk where "fleet_step\<^sup>*\<^sup>* (init_fleet tenants fk) fl" by (auto simp: fleet_reach_def)
  then show "fleet_inv fl"
  proof (induction rule: rtranclp_induct)
    case base
    have "sup_inv {} NewSupervisor \<and> no_start NewSupervisor" by (rule sup_reachable_inv [OF sup_reachable.init])
    then show ?case
      by (simp add: fleet_inv_def init_fleet_def rows_ok_def up_to_date_def inflight_ok_def) (simp add: NewSupervisor_def)
  next
    case (step y z)
    then show ?case using fleet_step_inv by blast
  qed
qed

lemma pending_react: "fleet_inv fl \<Longrightarrow> pending (react now fl) = tl (pending fl)"
proof (cases "pending fl")
  case (Cons ev evs)
  have "rs_subscribers (fold (apply_call now) cs r) = rs_subscribers r" for cs r
    using same_defs_calls [of r now cs] by (simp add: same_defs_def)
  with Cons show ?thesis by (simp add: react_def flush_def pending_def)
qed (simp add: react_def)

lemma react_all:
  assumes "fleet_inv fl"
  shows "fleet_inv ((react now ^^ n) fl) \<and> pending ((react now ^^ n) fl) = drop n (pending fl)"
proof (induction n)
  case (Suc n)
  then show ?case using fleet_inv_react pending_react by (simp add: drop_Suc tl_drop)
qed (simp add: assms)

lemma reacts_missed: "set (fl_missed ((react now ^^ n) fl)) \<subseteq> set (fl_missed fl)"
proof (induction n)
  case (Suc n)
  have "set (fl_missed (react now f)) \<subseteq> set (fl_missed f)" for f
    by (auto simp: react_def flush_def note_drain_def split: list.split)
  with Suc show ?case by fastforce
qed simp

subsection \<open>Properties\<close>

text \<open>C28: running servers follow the registry.  As long as the reactor's channel does not overflow, every
  instance installed for a tenant runs the definition currently registered for that tenant and server,
  or an event that will drain it is waiting, or it was installed by an acquisition that had read the registry
  before a change and finished after the reactor had drained that change (a drain does not see a start under
  way; \<open>drain_misses_start\<close> shows that this happens).  Once the reactor has worked off the waiting events (one
  step each), every such instance runs the current definition, except those of the last case; working off events
  adds none to them.\<close>

theorem instances_follow_registry:
  assumes "fleet_reach fl" and "ik_TenantID k \<noteq> ''_global''"
  shows "(insts (fl_sup fl) k = Some p \<and> heap (fl_sup fl) p = Some i \<longrightarrow>
      current (fl_reg fl) k (in_spec i) \<or> (\<exists>ev \<in> set (pending fl). drains ev (ik_TenantID k) (ik_ServerID k))
      \<or> k \<in> set (fl_missed fl))
    \<and> (let fl' = (react now ^^ length (pending fl)) fl in
       pending fl' = [] \<and> set (fl_missed fl') \<subseteq> set (fl_missed fl) \<and>
       (insts (fl_sup fl') k = Some p \<and> heap (fl_sup fl') p = Some i \<longrightarrow>
          current (fl_reg fl') k (in_spec i) \<or> k \<in> set (fl_missed fl')))"
proof -
  have inv: "fleet_inv fl" by (rule fleet_reach_inv [OF assms(1)])
  let ?fl = "(react now ^^ length (pending fl)) fl"
  have inv': "fleet_inv ?fl" and none: "pending ?fl = []" using react_all [OF inv, of "length (pending fl)" now] by simp_all
  have "covered f (ik_TenantID k) (ik_ServerID k) (in_spec i) \<or> k \<in> set (fl_missed f)"
    if "fleet_inv f" "insts (fl_sup f) k = Some p" "heap (fl_sup f) p = Some i" for f
    using that assms(2) unfolding fleet_inv_def up_to_date_def by blast
  from this [OF inv] this [OF inv'] show ?thesis
    using none reacts_missed [of "length (pending fl)" now fl] by (auto simp: Let_def covered_def current_def)
qed

definition fleet_spec :: "string \<Rightarrow> ServerSpec" where
  "fleet_spec cmd = (sample_stdio cmd ''per_tenant'') \<lparr> ss_DisplayName := ''gh'' \<rparr>"

definition fleet_put :: "string \<Rightarrow> fleet \<Rightarrow> fleet" where
  "fleet_put cmd fl =
    (case reg_Apply 0 ''acme'' \<lparr> mu_Op = MutOpUpdate, mu_Server = Some (fleet_spec cmd), mu_ServerID = '''' \<rparr> (fl_reg fl) of
       Inl e \<Rightarrow> fl | Inr (so, r) \<Rightarrow> fl \<lparr> fl_reg := r \<rparr>)"

definition fleet_req :: manager_request where
  "fleet_req = \<lparr> mr_TenantID = ''acme'', mr_UserID = '''', mr_SessionID = '''', mr_ServerID = ''github'', mr_AuthEnv = [] \<rparr>"

definition updated_fleet :: fleet where
  "updated_fleet = fleet_put ''v2'' (snd (manager_Acquire working_env 0 0 fleet_req (fleet_put ''v1'' (init_fleet [''acme''] True))))"

lemma fleet_put_step:
  assumes "length (pending fl) < sub_capacity"
  shows "fleet_step\<^sup>*\<^sup>* fl (fleet_put cmd fl)"
  using assms by (auto simp: fleet_put_def split: sum.split intro: fleet_step.mutate)

lemma updated_fleet_reach: "fleet_reach updated_fleet"
proof -
  let ?f0 = "init_fleet [''acme''] True"
  let ?f1 = "fleet_put ''v1'' ?f0"
  let ?f2 = "snd (manager_Acquire working_env 0 0 fleet_req ?f1)"
  have "length (pending ?f0) < sub_capacity" "length (pending ?f2) < sub_capacity" by code_simp+
  then have "fleet_step\<^sup>*\<^sup>* ?f0 ?f1" "fleet_step\<^sup>*\<^sup>* ?f1 ?f2" "fleet_step\<^sup>*\<^sup>* ?f2 (fleet_put ''v2'' ?f2)"
    using fleet_put_step uninterrupted_acquire by blast+
  then show ?thesis unfolding fleet_reach_def updated_fleet_def by (meson rtranclp_trans)
qed

text \<open>After an update the old instance is still there and its drain is waiting; two reactions later it is gone.\<close>

theorem instances_follow_registry_witness:
  "\<exists>k i. insts (fl_sup updated_fleet) k = Some 1 \<and> heap (fl_sup updated_fleet) 1 = Some i
     \<and> \<not> current (fl_reg updated_fleet) k (in_spec i)
     \<and> (\<exists>ev \<in> set (pending updated_fleet). drains ev ''acme'' ''github'')
     \<and> pending ((react 0 ^^ 2) updated_fleet) = [] \<and> fl_missed updated_fleet = []"
proof -
  let ?k = "\<lparr> ik_TenantID = ''acme'', ik_ServerID = ''github'', ik_UserID = '''', ik_SessionID = '''' \<rparr>"
  have "insts (fl_sup updated_fleet) ?k = Some 1 \<and> length (pending updated_fleet) = 2 \<and> fl_missed updated_fleet = []
      \<and> map_option (\<lambda>i. map_option st_Command (ss_Stdio (in_spec i))) (heap (fl_sup updated_fleet) 1) = Some (Some ''v1'')
      \<and> map_option (\<lambda>s. map_option st_Command (ss_Stdio (snap_Spec s))) (ok_opt (reg_Get (fl_reg updated_fleet) ''acme'' ''github''))
         = Some (Some ''v2'')"
    by code_simp
  then obtain i s where i: "insts (fl_sup updated_fleet) ?k = Some 1" "length (pending updated_fleet) = 2" "fl_missed updated_fleet = []"
      "heap (fl_sup updated_fleet) 1 = Some i" "map_option st_Command (ss_Stdio (in_spec i)) = Some ''v1''"
      and s: "ok_opt (reg_Get (fl_reg updated_fleet) ''acme'' ''github'') = Some s"
      "map_option st_Command (ss_Stdio (snap_Spec s)) = Some ''v2''"
    by auto
  have cur: "\<not> current (fl_reg updated_fleet) ?k (in_spec i)"
  proof
    assume "current (fl_reg updated_fleet) ?k (in_spec i)"
    then have "snap_Spec s = in_spec i" using s(1) by (simp add: current_def registered_def)
    with i(5) s(2) have "Some ''v1'' = Some ''v2''" by metis
    then show False by simp
  qed
  from instances_follow_registry [OF updated_fleet_reach, of ?k 1 i 0] i(1-4) cur
  have "(\<exists>ev \<in> set (pending updated_fleet). drains ev ''acme'' ''github'') \<and> pending ((react 0 ^^ 2) updated_fleet) = []"
    by (simp add: Let_def)
  with i cur show ?thesis by blast
qed

text \<open>A drain does not see a start under way: the definition is read, updated and drained before the instance is
  installed.  The old definition then runs and no event is left to stop it.\<close>

definition read_fleet :: fleet where
  "read_fleet = react 0 (fleet_put ''v1'' (init_fleet [''acme''] True))"

definition changed_fleet :: fleet where
  "changed_fleet = react 0 (fleet_put ''v2'' (case manager_read fleet_req (fl_reg read_fleet) of
     Inl e \<Rightarrow> read_fleet | Inr snap \<Rightarrow> acquire_begin fleet_req snap read_fleet))"

definition overtaken_fleet :: fleet where
  "overtaken_fleet = acquire_finish working_env 0 0 (hd (fl_inflight changed_fleet)) changed_fleet"

lemma overtaken_fleet_reach: "fleet_reach overtaken_fleet"
proof -
  let ?f0 = "init_fleet [''acme''] True"
  let ?f2 = "case manager_read fleet_req (fl_reg read_fleet) of
     Inl e \<Rightarrow> read_fleet | Inr snap \<Rightarrow> acquire_begin fleet_req snap read_fleet"
  have room: "length (pending ?f0) < sub_capacity" "length (pending ?f2) < sub_capacity" by code_simp+
  have "fleet_step\<^sup>*\<^sup>* ?f0 read_fleet"
    unfolding read_fleet_def by (rule rtranclp.rtrancl_into_rtrancl [OF fleet_put_step [OF room(1)] fleet_step.react])
  moreover have "fleet_step\<^sup>*\<^sup>* read_fleet ?f2" by (auto split: sum.split intro: fleet_step.read)
  moreover have "fleet_step\<^sup>*\<^sup>* ?f2 changed_fleet"
    unfolding changed_fleet_def by (rule rtranclp.rtrancl_into_rtrancl [OF fleet_put_step [OF room(2)] fleet_step.react])
  moreover have "length (fl_inflight changed_fleet) = 1" by code_simp
  then have "hd (fl_inflight changed_fleet) \<in> set (fl_inflight changed_fleet)" by (cases "fl_inflight changed_fleet") auto
  then have "fleet_step changed_fleet overtaken_fleet" unfolding overtaken_fleet_def by (rule fleet_step.start)
  ultimately show ?thesis unfolding fleet_reach_def by (meson rtranclp.rtrancl_into_rtrancl rtranclp_trans)
qed

lemma drain_misses_start:
  "fleet_reach overtaken_fleet \<and> pending overtaken_fleet = [] \<and> fl_inflight overtaken_fleet = []
   \<and> map_option (\<lambda>i. map_option st_Command (ss_Stdio (in_spec i))) (heap (fl_sup overtaken_fleet) 1) = Some (Some ''v1'')
   \<and> insts (fl_sup overtaken_fleet) \<lparr> ik_TenantID = ''acme'', ik_ServerID = ''github'', ik_UserID = '''', ik_SessionID = '''' \<rparr> = Some 1
   \<and> map_option (\<lambda>s. map_option st_Command (ss_Stdio (snap_Spec s))) (ok_opt (reg_Get (fl_reg overtaken_fleet) ''acme'' ''github''))
      = Some (Some ''v2'')"
  by (intro conjI overtaken_fleet_reach; code_simp)

text \<open>The manager only serves registered, enabled servers.  An acquisition that succeeds found the
  server registered for the caller's tenant and enabled, and returns a client that is open; a server
  that is disabled, removed or registered only for another tenant is refused without any change.\<close>

theorem manager_serves_enabled:
  assumes "fleet_reach fl" and "manager_Acquire env now later req fl = (res, fl')"
  shows "(case res of
      Inr c \<Rightarrow> (\<exists>snap h. reg_Get (fl_reg fl) (mr_TenantID req) (mr_ServerID req) = Inr snap
          \<and> sr_TenantID (snap_Record snap) = mr_TenantID req \<and> ss_ID (snap_Spec snap) = mr_ServerID req
          \<and> sr_Enabled (snap_Record snap) \<and> c = Some h \<and> h \<in> dom (clients (fl_sup fl')))
    | Inl e \<Rightarrow> (\<forall>x. e = MgrRegistry x \<or> e = MgrDisabled \<longrightarrow> fl' = fl))"
proof -
  have inv: "fleet_inv fl" by (rule fleet_reach_inv [OF assms(1)])
  show ?thesis
  proof (cases res)
    case (Inl e)
    then show ?thesis using assms(2) by (auto simp: manager_Acquire_def manager_read_def manager_start_def split: sum.splits if_splits prod.splits)
  next
    case (Inr c)
    then obtain snap s where snap: "reg_Get (fl_reg fl) (mr_TenantID req) (mr_ServerID req) = Inr snap"
        "sr_Enabled (snap_Record snap)"
        and acq: "sup_Acquire env now later (Some (snap_Spec snap)) (opts_of req) (fl_sup fl) = (Inr c, s)"
        and fl': "fl' = flush later (fl \<lparr> fl_sup := s \<rparr>)"
      using assms(2) by (auto simp: manager_Acquire_def manager_read_def manager_start_def split: sum.splits if_splits prod.splits)
    have sinv: "sup_inv {} (fl_sup fl)" "rows_ok (fl_reg fl)" using inv by (simp_all add: fleet_inv_def)
    obtain h p i where h: "c = Some h" "heap s p = Some i" "in_client i = Some h"
      using Acquire_returns_owned [OF sinv(1) acq] by blast
    then have "h \<in> dom (clients s)" using held_open [OF sup_Acquire_inv [OF sinv(1) acq]] by blast
    moreover have "sv_clients (fl_sup fl') = sv_clients s" by (simp add: fl' flush_def)
    moreover obtain row where "GetServer (rs_store (fl_reg fl)) (mr_TenantID req) (mr_ServerID req) = Inr row"
      using snap(1) by (auto simp: reg_Get_def lift_store_def split: sum.splits)
    from reg_Get_row [OF sinv(2) this] snap(1)
    have "sr_TenantID (snap_Record snap) = mr_TenantID req" "ss_ID (snap_Spec snap) = mr_ServerID req" by auto
    ultimately show ?thesis using Inr snap h(1) by auto
  qed
qed

theorem manager_serves_enabled_witness:
  "manager_Acquire working_env 0 0 \<lparr> mr_TenantID = ''acme'', mr_UserID = '''', mr_SessionID = '''', mr_ServerID = ''github'',
      mr_AuthEnv = [] \<rparr> (init_fleet [''acme''] True)
    = (Inl (MgrRegistry (RegStore ErrNotFound)), init_fleet [''acme''] True)"
proof -
  let ?req = "\<lparr> mr_TenantID = ''acme'', mr_UserID = '''', mr_SessionID = '''', mr_ServerID = ''github'', mr_AuthEnv = [] \<rparr>"
  have r: "fleet_reach (init_fleet [''acme''] True)" by (auto simp: fleet_reach_def)
  obtain fl' where m: "manager_Acquire working_env 0 0 ?req (init_fleet [''acme''] True)
      = (Inl (MgrRegistry (RegStore ErrNotFound)), fl')"
    by (simp add: manager_Acquire_def manager_read_def reg_Get_def GetServer_def lift_store_def init_fleet_def)
  from manager_serves_enabled [OF r m] m show ?thesis by simp
qed

end
