(* ===== verification/Supervisor_Concurrency.thy ===== *)
theory Supervisor_Concurrency
  imports Supervisor_Safety
begin

text \<open>
  \<open>Acquire\<close> under concurrency.  Every caller is a thread whose program counter
  says which critical section comes next; a step runs one section of one
  thread, or another operation of the supervisor.  The sections are those the
  locks of \<open>supervisor.go\<close> delimit: looking the key up (and claiming the start),
  installing a started instance, releasing the claim, reading an instance's
  state, detaching its client for a restart, and storing the outcome.
\<close>

datatype pc =
    AtLookup ServerSpec AcquireOpts InstanceKey
  | AtWait ServerSpec AcquireOpts InstanceKey
  | AtStart ServerSpec AcquireOpts InstanceKey
  | AtInstall supervised InstanceKey "(sup_error, nat) result"
  | AtRelease InstanceKey "(sup_error, nat option) result"
  | AtEnsure nat string
  | AtRestart nat string
  | AtRespawn nat
  | AtStore nat "(sup_error, nat) result"
  | AtDone "(sup_error, nat option) result"

record world =
  wo_sup :: supervisor
  wo_threads :: "(nat, pc) amap"

definition goto :: "nat \<Rightarrow> pc \<Rightarrow> world \<Rightarrow> world" where
  "goto th pc w = w \<lparr> wo_threads := aput th pc (wo_threads w) \<rparr>"

definition with_sup :: "supervisor \<Rightarrow> world \<Rightarrow> world" where
  "with_sup s w = w \<lparr> wo_sup := s \<rparr>"

definition ok_client :: "(sup_error, nat) result \<Rightarrow> (sup_error, nat option) result" where
  "ok_client r = (case r of Inl e \<Rightarrow> Inl e | Inr h \<Rightarrow> Inr (Some h))"

text \<open>The next section of a thread.\<close>

definition lookup_section :: "nat \<Rightarrow> ServerSpec \<Rightarrow> AcquireOpts \<Rightarrow> InstanceKey \<Rightarrow> world \<Rightarrow> world" where
  "lookup_section th sp opts key w =
    (case aget (sv_instances (wo_sup w)) key of
       Some p \<Rightarrow> goto th (AtEnsure p (ao_TenantID opts)) w
     | None \<Rightarrow>
         if key \<in> set (sv_starting (wo_sup w)) then goto th (AtWait sp opts key) w
         else goto th (AtStart sp opts key)
                (with_sup ((wo_sup w) \<lparr> sv_starting := sv_starting (wo_sup w) @ [key] \<rparr>) w))"

definition ensure_section :: "time \<Rightarrow> nat \<Rightarrow> nat \<Rightarrow> string \<Rightarrow> world \<Rightarrow> world" where
  "ensure_section now th p t w =
    (case aget (sv_heap (wo_sup w)) p of
       None \<Rightarrow> goto th (AtDone (Inl NoInstance)) w
     | Some i \<Rightarrow>
         (case readiness_of now i of
            Ready c \<Rightarrow> goto th (AtDone (Inr c)) (with_sup (tickIdle now p (wo_sup w)) w)
          | Refused e \<Rightarrow> goto th (AtDone (Inl e)) w
          | NeedsRestart \<Rightarrow> goto th (AtRestart p t) w))"

fun thread_step :: "sup_env \<Rightarrow> time \<Rightarrow> nat \<Rightarrow> pc \<Rightarrow> world \<Rightarrow> world" where
  "thread_step env now th (AtLookup sp opts key) w = lookup_section th sp opts key w"
| "thread_step env now th (AtWait sp opts key) w =
    (if key \<in> set (sv_starting (wo_sup w)) then w else goto th (AtLookup sp opts key) w)"
| "thread_step env now th (AtStart sp opts key) w =
    (let i = new_instance env key sp (ao_TenantID opts) (ao_AuthEnv opts);
         (res, s) = spawnClient env i (wo_sup w) in
     goto th (AtInstall i key res) (with_sup s w))"
| "thread_step env now th (AtInstall i key res) w =
    goto th (AtRelease key (ok_client res)) (with_sup (start_finish env now i res (wo_sup w)) w)"
| "thread_step env now th (AtRelease key res) w =
    goto th (AtDone res)
      (with_sup ((wo_sup w) \<lparr> sv_starting := filter (\<lambda>k. k \<noteq> key) (sv_starting (wo_sup w)) \<rparr>) w)"
| "thread_step env now th (AtEnsure p t) w = ensure_section now th p t w"
| "thread_step env now th (AtRestart p t) w =
    goto th (AtRespawn p) (with_sup (restart_begin p t (wo_sup w)) w)"
| "thread_step env now th (AtRespawn p) w =
    (case aget (sv_heap (wo_sup w)) p of
       None \<Rightarrow> goto th (AtDone (Inl NoInstance)) w
     | Some i \<Rightarrow>
         let (res, s) = spawnClient env i (wo_sup w) in goto th (AtStore p res) (with_sup s w))"
| "thread_step env now th (AtStore p res) w =
    goto th (AtDone (ok_client res)) (with_sup (restart_finish env now p res (wo_sup w)) w)"
| "thread_step env now th (AtDone res) w = w"

text \<open>Timers, probes, stops and drains run as sections of their own.\<close>

inductive wstep :: "world \<Rightarrow> world \<Rightarrow> bool" where
  arrive: "aget (wo_threads w) th = None \<Longrightarrow>
    KeyForMode (ss_RuntimeMode sp) (ss_ID sp) opts = Inr key \<Longrightarrow> wstep w (goto th (AtLookup sp opts key) w)"
| run: "aget (wo_threads w) th = Some pc \<Longrightarrow> wstep w (thread_step env now th pc w)"
| timer: "wstep w (with_sup (timer_fires now p (wo_sup w)) w)"
| probe: "wstep w (with_sup (probe_tick env p ping (wo_sup w)) w)"
| stop: "wstep w (with_sup (snd (sup_Stop k (wo_sup w))) w)"
| drain: "wstep w (with_sup (drainServer t sid (wo_sup w)) w)"

inductive_simps wstep_simps: "wstep w w'"

definition init_world :: world where
  "init_world = \<lparr> wo_sup = \<lparr> sv_heap = [], sv_instances = [], sv_starting = [], sv_clients = [], sv_fresh = 0, sv_probes = [],
      sv_sink = False, sv_pumps = [], sv_stopped = False, sv_calls = [] \<rparr>, wo_threads = [] \<rparr>"

definition wreach :: "world \<Rightarrow> bool" where
  "wreach w = wstep\<^sup>*\<^sup>* init_world w"

subsection \<open>One start per key\<close>

text \<open>The threads that own the claim on a key, in any of the three sections that need it.\<close>

fun claims :: "pc \<Rightarrow> InstanceKey \<Rightarrow> bool" where
  "claims (AtStart sp opts k) key = (k = key)"
| "claims (AtInstall i k res) key = (k = key)"
| "claims (AtRelease k res) key = (k = key)"
| "claims pc key = False"

fun unstarted :: "pc \<Rightarrow> InstanceKey \<Rightarrow> bool" where
  "unstarted (AtStart sp opts k) key = (k = key)"
| "unstarted (AtInstall i k res) key = (k = key)"
| "unstarted pc key = False"

abbreviation pcs :: "world \<Rightarrow> nat \<rightharpoonup> pc" where "pcs w \<equiv> aget (wo_threads w)"

definition claim_inv :: "world \<Rightarrow> bool" where
  "claim_inv w =
    ((\<forall>th th' pc pc' key. pcs w th = Some pc \<longrightarrow> pcs w th' = Some pc' \<longrightarrow> claims pc key \<longrightarrow> claims pc' key \<longrightarrow> th = th')
     \<and> (\<forall>th pc key. pcs w th = Some pc \<longrightarrow> claims pc key \<longrightarrow> key \<in> set (sv_starting (wo_sup w)))
     \<and> (\<forall>th pc key. pcs w th = Some pc \<longrightarrow> unstarted pc key \<longrightarrow> aget (sv_instances (wo_sup w)) key = None)
     \<and> (\<forall>th i k res. pcs w th = Some (AtInstall i k res) \<longrightarrow> in_key i = k))"

text \<open>What the sections do to the claims and to the map: both change only where the code says so.\<close>

lemma starting_basic [simp]:
  "sv_starting (upd p f s) = sv_starting s" "sv_starting (close_client c s) = sv_starting s"
  "sv_starting (call_registry x s) = sv_starting s" "sv_starting (persistInstance env i e s) = sv_starting s"
  "sv_starting (publishStatus sp st d s) = sv_starting s" "sv_starting (health_Track i s) = sv_starting s"
  "sv_starting (health_Untrack y s) = sv_starting s" "sv_starting (notif_Track i s) = sv_starting s"
  "sv_starting (notif_Untrack y s) = sv_starting s"
  by (simp_all add: upd_def close_client_def call_registry_def persistInstance_def publishStatus_def health_Track_def
      health_Untrack_def notif_Track_def notif_Untrack_def split: option.split)

definition same_claims :: "supervisor \<Rightarrow> supervisor \<Rightarrow> bool" where
  "same_claims s s' = (sv_starting s' = sv_starting s \<and> (\<forall>k. insts s k = None \<longrightarrow> insts s' k = None))"

lemma same_claims_refl [simp]: "same_claims s s"
  by (simp add: same_claims_def)

lemma same_claims_trans: "same_claims s s' \<Longrightarrow> same_claims s' s'' \<Longrightarrow> same_claims s s''"
  by (simp add: same_claims_def)

lemma same_claims_ops:
  "same_claims s (tickIdle now p s)" "same_claims s (markIdle p s)" "same_claims s (markCrashed env p e s)"
  "same_claims s (restart_begin p t s)" "same_claims s (restart_finish env now p res s)" "same_claims s (snd (sup_Stop k s))"
  "same_claims s (snd (spawnClient env i s))"
  by (auto simp: same_claims_def tickIdle_def markIdle_def markCrashed_def restart_begin_def restart_finish_def sup_Stop_def
      spawnClient_def Let_def split: option.split sum.split)

lemma same_claims_timer: "same_claims s (timer_fires now p s)"
proof -
  have "same_claims s (upd p f s)" for f by (simp add: same_claims_def)
  then show ?thesis
    unfolding timer_fires_def Let_def
    by (auto split: option.splits prod.splits intro: same_claims_trans [OF _ same_claims_ops(2)])
qed

lemma same_claims_probe: "same_claims s (probe_tick env p ping s)"
proof -
  have "same_claims s (s \<lparr> sv_probes := x \<rparr>)" for x by (simp add: same_claims_def)
  then show ?thesis
    unfolding probe_tick_def Let_def
    by (auto split: option.splits intro: same_claims_trans [OF _ same_claims_ops(3)])
qed

lemma same_claims_drain: "same_claims s (drainServer t sid s)"
proof -
  have "same_claims s (fold (\<lambda>k s. snd (sup_Stop k s)) ks s)" for ks
    by (induction ks arbitrary: s) (auto intro: same_claims_trans [OF same_claims_ops(6)])
  then show ?thesis by (simp add: drainServer_def)
qed

lemma claim_inv_sup:
  assumes "claim_inv w" and "same_claims (wo_sup w) s"
  shows "claim_inv (with_sup s w)"
  using assms unfolding claim_inv_def with_sup_def same_claims_def by simp

text \<open>A thread that moves on without acquiring a claim.\<close>

lemma claim_inv_goto:
  assumes "claim_inv w" and "pcs w th = Some pc" and "\<And>key. claims pc' key \<Longrightarrow> claims pc key"
    and "\<And>key. unstarted pc' key \<Longrightarrow> unstarted pc key" and "\<And>i k res. pc' = AtInstall i k res \<Longrightarrow> in_key i = k"
  shows "claim_inv (goto th pc' w)"
proof -
  have 1: "th1 = th2" if "pcs (goto th pc' w) th1 = Some p1" "pcs (goto th pc' w) th2 = Some p2" "claims p1 key" "claims p2 key"
    for th1 th2 p1 p2 key
    using that assms(1-3) unfolding claim_inv_def goto_def by (fastforce split: if_splits)
  have 2: "key \<in> set (sv_starting (wo_sup w))" if "pcs (goto th pc' w) th1 = Some p1" "claims p1 key" for th1 p1 key
    using that assms(1-3) unfolding claim_inv_def goto_def by (fastforce split: if_splits)
  have 3: "insts (wo_sup w) key = None" if "pcs (goto th pc' w) th1 = Some p1" "unstarted p1 key" for th1 p1 key
    using that assms(1,2,4) unfolding claim_inv_def goto_def by (fastforce split: if_splits)
  have 4: "in_key i = k" if "pcs (goto th pc' w) th1 = Some (AtInstall i k res)" for th1 i k res
    using that assms(1,2,5) unfolding claim_inv_def goto_def by (fastforce split: if_splits)
  have "wo_sup (goto th pc' w) = wo_sup w" by (simp add: goto_def)
  then show ?thesis
    unfolding claim_inv_def by (intro conjI allI impI) (rule 1 | simp only:, rule 2 | simp only:, rule 3 | rule 4 | assumption)+
qed

lemma unstarted_claims: "unstarted pc key \<Longrightarrow> claims pc key"
  by (cases pc) auto

lemma claim_inv_quiet:
  assumes "claim_inv w" and "pcs w th = Some pc" and "\<And>key. \<not> claims pc' key"
  shows "claim_inv (goto th pc' w)"
  by (rule claim_inv_goto [OF assms(1,2)]) (use assms(3) unstarted_claims in \<open>auto dest: assms(3) [THEN notE, rotated]\<close>)

lemma claim_inv_claim:
  assumes "claim_inv w" and "pcs w th = Some pc" and "\<And>k. \<not> claims pc k" and "key \<notin> set (sv_starting (wo_sup w))"
    and "insts (wo_sup w) key = None"
  shows "claim_inv (goto th (AtStart sp opts key)
    (with_sup ((wo_sup w) \<lparr> sv_starting := sv_starting (wo_sup w) @ [key] \<rparr>) w))" (is "claim_inv ?w")
proof -
  have inv: "\<And>t1 t2 p1 p2 k. pcs w t1 = Some p1 \<Longrightarrow> pcs w t2 = Some p2 \<Longrightarrow> claims p1 k \<Longrightarrow> claims p2 k \<Longrightarrow> t1 = t2"
      "\<And>t1 p1 k. pcs w t1 = Some p1 \<Longrightarrow> claims p1 k \<Longrightarrow> k \<in> set (sv_starting (wo_sup w))"
      "\<And>t1 p1 k. pcs w t1 = Some p1 \<Longrightarrow> unstarted p1 k \<Longrightarrow> insts (wo_sup w) k = None"
      "\<And>t1 i k res. pcs w t1 = Some (AtInstall i k res) \<Longrightarrow> in_key i = k"
    using assms(1) unfolding claim_inv_def by blast+
  have w: "pcs ?w t = (if t = th then Some (AtStart sp opts key) else pcs w t)"
    "set (sv_starting (wo_sup ?w)) = insert key (set (sv_starting (wo_sup w)))" "insts (wo_sup ?w) = insts (wo_sup w)" for t
    by (auto simp: goto_def with_sup_def)
  have no: "\<not> claims p1 key" if "pcs w t1 = Some p1" for t1 p1
    using inv(2) [OF that] assms(4) by blast
  show ?thesis
    unfolding claim_inv_def w
    using inv no assms(5) by (intro conjI allI impI) (auto split: if_splits)
qed

lemma start_finish_insts:
  "insts (start_finish env now i res s) k =
    (case res of Inl e \<Rightarrow> insts s k | Inr h \<Rightarrow> if k = in_key i then Some (sv_fresh s) else insts s k)"
  "sv_starting (start_finish env now i res s) = sv_starting s"
  by (simp_all add: start_finish_def Let_def split: sum.split)

lemma claim_inv_install:
  assumes "claim_inv w" and "pcs w th = Some (AtInstall i key res)"
  shows "claim_inv (goto th (AtRelease key r) (with_sup (start_finish env now i res (wo_sup w)) w))" (is "claim_inv ?w")
proof -
  have inv: "\<And>t1 t2 p1 p2 k. pcs w t1 = Some p1 \<Longrightarrow> pcs w t2 = Some p2 \<Longrightarrow> claims p1 k \<Longrightarrow> claims p2 k \<Longrightarrow> t1 = t2"
      "\<And>t1 p1 k. pcs w t1 = Some p1 \<Longrightarrow> claims p1 k \<Longrightarrow> k \<in> set (sv_starting (wo_sup w))"
      "\<And>t1 p1 k. pcs w t1 = Some p1 \<Longrightarrow> unstarted p1 k \<Longrightarrow> insts (wo_sup w) k = None"
      "\<And>t1 i k res. pcs w t1 = Some (AtInstall i k res) \<Longrightarrow> in_key i = k"
    using assms(1) unfolding claim_inv_def by blast+
  have w: "pcs ?w t = (if t = th then Some (AtRelease key r) else pcs w t)"
    "sv_starting (wo_sup ?w) = sv_starting (wo_sup w)"
    "insts (wo_sup ?w) k = (case res of Inl e \<Rightarrow> insts (wo_sup w) k
       | Inr h \<Rightarrow> if k = key then Some (sv_fresh (wo_sup w)) else insts (wo_sup w) k)" for t k
    using inv(4) [OF assms(2)] by (simp_all add: goto_def with_sup_def start_finish_insts)
  have mine: "claims (AtInstall i key res) key" by simp
  have other: "\<not> claims p1 key" if "pcs w t1 = Some p1" "t1 \<noteq> th" for t1 p1
    using inv(1) [OF that(1) assms(2) _ mine] that(2) by blast
  have 3: "insts (wo_sup ?w) k = None" if "pcs ?w t1 = Some p1" "unstarted p1 k" for t1 p1 k
  proof (cases "t1 = th")
    case True
    with that show ?thesis unfolding w by auto
  next
    case False
    with that have t1: "pcs w t1 = Some p1" unfolding w by simp
    have "k \<noteq> key" using other [OF t1 False] unstarted_claims [OF that(2)] by blast
    with inv(3) [OF t1 that(2)] show ?thesis unfolding w by (simp split: sum.split)
  qed
  have 1: "t1 = t2" if "pcs ?w t1 = Some p1" "pcs ?w t2 = Some p2" "claims p1 k" "claims p2 k" for t1 t2 p1 p2 k
    using that inv(1) other unfolding w by (auto split: if_splits)
  have 2: "k \<in> set (sv_starting (wo_sup w))" if "pcs ?w t1 = Some p1" "claims p1 k" for t1 p1 k
    using that inv(2) inv(2) [OF assms(2) mine] unfolding w by (auto split: if_splits)
  have 4: "in_key i' = k" if "pcs ?w t1 = Some (AtInstall i' k res')" for t1 i' k res'
    using that inv(4) unfolding w by (auto split: if_splits)
  show ?thesis
    unfolding claim_inv_def w(2) by (intro conjI allI impI) (rule 1 | rule 2 | rule 3 | rule 4 | assumption)+
qed

lemma claim_inv_release:
  assumes "claim_inv w" and "pcs w th = Some (AtRelease key r)"
  shows "claim_inv (goto th (AtDone r)
    (with_sup ((wo_sup w) \<lparr> sv_starting := filter (\<lambda>k. k \<noteq> key) (sv_starting (wo_sup w)) \<rparr>) w))" (is "claim_inv ?w")
proof -
  have inv: "\<And>t1 t2 p1 p2 k. pcs w t1 = Some p1 \<Longrightarrow> pcs w t2 = Some p2 \<Longrightarrow> claims p1 k \<Longrightarrow> claims p2 k \<Longrightarrow> t1 = t2"
      "\<And>t1 p1 k. pcs w t1 = Some p1 \<Longrightarrow> claims p1 k \<Longrightarrow> k \<in> set (sv_starting (wo_sup w))"
      "\<And>t1 p1 k. pcs w t1 = Some p1 \<Longrightarrow> unstarted p1 k \<Longrightarrow> insts (wo_sup w) k = None"
      "\<And>t1 i k res. pcs w t1 = Some (AtInstall i k res) \<Longrightarrow> in_key i = k"
    using assms(1) unfolding claim_inv_def by blast+
  have w: "pcs ?w t = (if t = th then Some (AtDone r) else pcs w t)"
    "set (sv_starting (wo_sup ?w)) = set (sv_starting (wo_sup w)) - {key}" "insts (wo_sup ?w) = insts (wo_sup w)" for t
    by (auto simp: goto_def with_sup_def)
  have mine: "claims (AtRelease key r) key" by simp
  have other: "\<not> claims p1 key" if "pcs w t1 = Some p1" "t1 \<noteq> th" for t1 p1
    using inv(1) [OF that(1) assms(2) _ mine] that(2) by blast
  show ?thesis
    unfolding claim_inv_def w
    using inv other by (intro conjI allI impI) (auto split: if_splits)
qed

lemma thread_step_claim_inv:
  assumes "claim_inv w" and "pcs w th = Some pc"
  shows "claim_inv (thread_step env now th pc w)"
proof (cases pc)
  case (AtLookup sp opts key)
  then show ?thesis
    using assms claim_inv_claim [OF assms, of key]
    by (auto simp: lookup_section_def split: option.split intro: claim_inv_quiet)
next
  case (AtStart sp opts key)
  let ?i = "new_instance env key sp (ao_TenantID opts) (ao_AuthEnv opts)"
  have c: "claim_inv (with_sup (snd (spawnClient env ?i (wo_sup w))) w)"
    by (rule claim_inv_sup [OF assms(1) same_claims_ops(7)])
  have "claim_inv (goto th (AtInstall ?i key r) (with_sup (snd (spawnClient env ?i (wo_sup w))) w))" for r
    by (rule claim_inv_goto [OF c, of th pc]) (use assms(2) AtStart in \<open>auto simp: with_sup_def new_instance_def\<close>)
  with AtStart show ?thesis by (simp add: Let_def split: prod.split) (metis snd_conv)
next
  case (AtEnsure p t)
  have c: "claim_inv (with_sup (tickIdle now p (wo_sup w)) w)"
    by (rule claim_inv_sup [OF assms(1) same_claims_ops(1)])
  have "claim_inv (goto th (AtDone r) (with_sup (tickIdle now p (wo_sup w)) w))" for r
    by (rule claim_inv_goto [OF c, of th pc]) (use assms(2) in \<open>auto simp: with_sup_def\<close>)
  with AtEnsure show ?thesis
    using claim_inv_quiet [OF assms] by (auto simp: ensure_section_def split: option.split readiness.split)
next
  case (AtRestart p t)
  have c: "claim_inv (with_sup (restart_begin p t (wo_sup w)) w)"
    by (rule claim_inv_sup [OF assms(1) same_claims_ops(4)])
  have "claim_inv (goto th (AtRespawn p) (with_sup (restart_begin p t (wo_sup w)) w))"
    by (rule claim_inv_goto [OF c, of th pc]) (use assms(2) in \<open>auto simp: with_sup_def\<close>)
  with AtRestart show ?thesis by simp
next
  case (AtRespawn p)
  have c: "claim_inv (with_sup (snd (spawnClient env i (wo_sup w))) w)" for i
    by (rule claim_inv_sup [OF assms(1) same_claims_ops(7)])
  have "claim_inv (goto th (AtStore p r) (with_sup (snd (spawnClient env i (wo_sup w))) w))" for r i
    by (rule claim_inv_goto [OF c [of i], of th pc]) (use assms(2) in \<open>auto simp: with_sup_def\<close>)
  with AtRespawn show ?thesis
    using claim_inv_quiet [OF assms] by (auto simp: Let_def split: option.split prod.split) (metis snd_conv)
next
  case (AtStore p res)
  have c: "claim_inv (with_sup (restart_finish env now p res (wo_sup w)) w)"
    by (rule claim_inv_sup [OF assms(1) same_claims_ops(5)])
  have "claim_inv (goto th (AtDone r) (with_sup (restart_finish env now p res (wo_sup w)) w))" for r
    by (rule claim_inv_goto [OF c, of th pc]) (use assms(2) in \<open>auto simp: with_sup_def\<close>)
  with AtStore show ?thesis by simp
qed (use assms claim_inv_install claim_inv_release claim_inv_quiet [OF assms] in auto)

lemma wstep_claim_inv: "wstep w w' \<Longrightarrow> claim_inv w \<Longrightarrow> claim_inv w'"
proof (induction rule: wstep.induct)
  case (arrive w th sp opts key)
  have w: "pcs (goto th (AtLookup sp opts key) w) t = (if t = th then Some (AtLookup sp opts key) else pcs w t)"
    "wo_sup (goto th (AtLookup sp opts key) w) = wo_sup w" for t
    by (simp_all add: goto_def)
  show ?case
    using arrive.prems unfolding claim_inv_def w by (auto split: if_splits)
next
  case (run w th pc env now)
  then show ?case using thread_step_claim_inv by blast
qed (auto intro: claim_inv_sup same_claims_timer same_claims_probe same_claims_ops same_claims_drain)

lemma wreach_claim_inv: "wreach w \<Longrightarrow> claim_inv w"
  unfolding wreach_def
proof (induction rule: rtranclp_induct)
  case base
  then show ?case by (simp add: init_world_def claim_inv_def)
next
  case (step w w')
  then show ?case using wstep_claim_inv by blast
qed

subsection \<open>Running schedules\<close>

datatype move = Arrive nat ServerSpec AcquireOpts InstanceKey | Run nat sup_env time | Fire nat time

fun do_move :: "move \<Rightarrow> world \<Rightarrow> world" where
  "do_move (Arrive th sp opts key) w =
    (if aget (wo_threads w) th = None \<and> KeyForMode (ss_RuntimeMode sp) (ss_ID sp) opts = Inr key
     then goto th (AtLookup sp opts key) w else w)"
| "do_move (Run th env now) w = (case aget (wo_threads w) th of None \<Rightarrow> w | Some pc \<Rightarrow> thread_step env now th pc w)"
| "do_move (Fire p now) w = with_sup (timer_fires now p (wo_sup w)) w"

lemma do_move_wstep: "do_move m w = w \<or> wstep w (do_move m w)"
  by (cases m) (auto split: option.split intro: wstep.intros)

lemma fold_wreach: "wreach w \<Longrightarrow> wreach (fold do_move ms w)"
proof (induction ms arbitrary: w)
  case (Cons m ms)
  have "wreach (do_move m w)"
    using Cons.prems do_move_wstep [of m w] unfolding wreach_def by (metis rtranclp.rtrancl_into_rtrancl)
  with Cons.IH show ?case by simp
qed simp

lemma wreach_init: "wreach init_world"
  by (simp add: wreach_def)

subsection \<open>Properties\<close>

text \<open>C29: concurrent callers share one startup attempt.  However the threads of \<open>Acquire\<close>, the idle
  timers, the probes, the stops and the drains interleave, at most one thread is starting a given
  instance key at any time; while it is, the key is not in the map, so no instance is ever overwritten
  by a second start, and every other caller of the key waits for it.\<close>

theorem single_start_per_key:
  assumes "wreach w" and "pcs w th = Some pc" and "claims pc key"
  shows "(\<forall>th' pc'. pcs w th' = Some pc' \<longrightarrow> claims pc' key \<longrightarrow> th' = th)
    \<and> (unstarted pc key \<longrightarrow> insts (wo_sup w) key = None)
    \<and> (\<forall>th' sp opts. insts (wo_sup w) key = None \<longrightarrow>
         pcs (lookup_section th' sp opts key w) th' = Some (AtWait sp opts key))"
proof -
  note inv = wreach_claim_inv [OF assms(1), unfolded claim_inv_def]
  have "key \<in> set (sv_starting (wo_sup w))" using inv assms(2,3) by blast
  then show ?thesis
    using inv assms(2,3) by (simp add: lookup_section_def goto_def)
qed

definition shared_key :: InstanceKey where
  "shared_key = \<lparr> ik_TenantID = ''acme'', ik_ServerID = ''github'', ik_UserID = '''', ik_SessionID = '''' \<rparr>"

definition race_env :: sup_env where
  "race_env = \<lparr> se_start = (\<lambda>cfg. None), se_traceparent = '''', se_vault = None, se_lookupEnv = (\<lambda>n. None),
     se_error_text = (\<lambda>e. ''''), se_newID = ''inst_1'' \<rparr>"

definition demo_spec :: ServerSpec where
  "demo_spec = sample_spec \<lparr> ss_RuntimeMode := ''per_tenant'',
     ss_Lifecycle := (ss_Lifecycle sample_spec) \<lparr> lc_IdleTimeout := 60 \<rparr> \<rparr>"

definition demo_opts :: AcquireOpts where
  "demo_opts = \<lparr> ao_TenantID = ''acme'', ao_UserID = '''', ao_SessionID = '''', ao_AuthEnv = [] \<rparr>"

abbreviation arrive_demo :: "nat \<Rightarrow> move" where "arrive_demo th \<equiv> Arrive th demo_spec demo_opts shared_key"
abbreviation run_demo :: "nat \<Rightarrow> time \<Rightarrow> move" where "run_demo th now \<equiv> Run th race_env now"

definition two_callers :: "move list" where
  "two_callers = [arrive_demo 1, arrive_demo 2, run_demo 1 0, run_demo 2 0]"

lemma two_callers_state:
  "pcs (fold do_move two_callers init_world) 1 = Some (AtStart demo_spec demo_opts shared_key)
   \<and> pcs (fold do_move two_callers init_world) 2 = Some (AtWait demo_spec demo_opts shared_key)"
  by (simp add: two_callers_def init_world_def KeyForMode_def demo_spec_def demo_opts_def sample_spec_def shared_key_def
      goto_def lookup_section_def with_sup_def)

theorem single_start_per_key_witness:
  "insts (wo_sup (fold do_move two_callers init_world)) shared_key = None"
  using single_start_per_key [OF fold_wreach [OF wreach_init] two_callers_state [THEN conjunct1], of shared_key] by simp

text \<open>Restarts are not serialised that way: two callers that find the same idle instance both restart it,
  and the client of the one that finishes first stays open without an owner.\<close>

definition two_restarts :: "move list" where
  "two_restarts =
    [arrive_demo 1, run_demo 1 0, run_demo 1 0, run_demo 1 0, run_demo 1 0, Fire 1 100,
     arrive_demo 2, arrive_demo 3, run_demo 2 101, run_demo 3 101, run_demo 2 101, run_demo 3 101,
     run_demo 2 101, run_demo 3 101, run_demo 2 102, run_demo 3 102, run_demo 2 103, run_demo 3 104]"

lemma two_restarts_eval:
  "let s = wo_sup (fold do_move two_restarts init_world) in
   map fst (sv_clients s) = [2, 3] \<and> map (\<lambda>(p, i). in_client i) (sv_heap s) = [Some 3]"
  by code_simp

theorem concurrent_restarts_leak:
  "\<exists>w. wreach w \<and> \<not> dom (clients (wo_sup w)) \<subseteq> held (heap (wo_sup w))"
proof (intro exI conjI)
  let ?w = "fold do_move two_restarts init_world"
  let ?s = "wo_sup ?w"
  show "wreach ?w" by (rule fold_wreach [OF wreach_init])
  have cl: "map fst (sv_clients ?s) = [2, 3]" and hp: "map (\<lambda>(p, i). in_client i) (sv_heap ?s) = [Some 3]"
    using two_restarts_eval by (simp_all add: Let_def)
  have "2 \<in> fst ` set (sv_clients ?s)" using cl by (metis list.set_intros(1) list.set_map)
  then have "2 \<in> dom (clients ?s)" by (simp add: dom_map_of_conv_image_fst)
  moreover have "2 \<notin> held (heap ?s)"
  proof
    assume "2 \<in> held (heap ?s)"
    then obtain p i where "(p, i) \<in> set (sv_heap ?s)" "in_client i = Some 2" unfolding held_def by (auto dest: map_of_SomeD)
    then have "Some 2 \<in> set (map (\<lambda>(p, i). in_client i) (sv_heap ?s))" by force
    then show False unfolding hp by simp
  qed
  ultimately show "\<not> dom (clients ?s) \<subseteq> held (heap ?s)" by blast
qed

end
