(* ===== verification/Go_Calendar.thy ===== *)
theory Go_Calendar
  imports Go_Time
begin

text \<open>
  The laws of the calendar that package \<open>time\<close> computes with: what
  \<open>time.Date\<close>, \<open>AddDate\<close>, \<open>Weekday\<close> and the date layouts do to an
  instant, that dates and day numbers are inverse, that the months and the
  years tile the days, and that printed numbers and dates can be read back.
\<close>

definition day24 :: duration where "day24 = 24 * hour"

lemma day24_pos [simp]: "0 < day24"
  by (simp add: day24_def)

subsection \<open>Dates and day numbers\<close>

text \<open>Days before the first of March of year \<open>n\<close>, counted from the first of March of year 0.\<close>

definition march_days :: "int \<Rightarrow> int" where
  "march_days n = 365 * n + n div 4 - n div 100 + n div 400"

lemma march_days_era: "march_days (400 * e + n) = 146097 * e + march_days n"
  using div_mult_self1 [of 4 n "100 * e"] div_mult_self1 [of 100 n "4 * e"] div_mult_self1 [of 400 n e]
  by (simp add: march_days_def algebra_simps)

lemma div_Suc_int:
  fixes k :: int
  assumes "0 < k"
  shows "(n + 1) div k = n div k + (if k dvd n + 1 then 1 else 0)"
proof (cases "k dvd n + 1")
  case True
  then obtain q where q: "n + 1 = k * q" by blast
  then have "n = (q - 1) * k + (k - 1)" by (simp add: algebra_simps)
  then have "n div k = q - 1" using assms by (intro int_div_pos_eq [of _ _ _ "k - 1"]) (auto simp: algebra_simps)
  with q assms True show ?thesis by simp
next
  case False
  then have "(n + 1) mod k \<noteq> 0" by (simp add: dvd_eq_mod_eq_0)
  then have "0 < (n + 1) mod k" using pos_mod_sign [OF assms, of "n + 1"] by simp
  moreover have "(n + 1) mod k < k" using assms by simp
  moreover have "n = k * ((n + 1) div k) + ((n + 1) mod k - 1)" by (simp add: algebra_simps)
  ultimately have "n div k = (n + 1) div k" by (intro int_div_pos_eq [of _ _ _ "(n + 1) mod k - 1"]) auto
  with False show ?thesis by simp
qed

lemma march_days_step: "march_days n + 365 \<le> march_days (n + 1)" "march_days (n + 1) \<le> march_days n + 366"
proof -
  have "100 dvd n + 1 \<Longrightarrow> 4 dvd n + 1" "400 dvd n + 1 \<Longrightarrow> 100 dvd n + 1"
    by (rule dvd_trans; simp)+
  then show "march_days n + 365 \<le> march_days (n + 1)" "march_days (n + 1) \<le> march_days n + 366"
    by (auto simp: march_days_def div_Suc_int)
qed

lemma days_of_civil_march:
  assumes "1 \<le> m" and "m \<le> 12"
  shows "days_of_civil y m d =
    march_days (if m \<le> 2 then y - 1 else y) + (153 * (if m > 2 then m - 3 else m + 9) + 2) div 5 + d - 719469"
proof -
  define n where "n = (if m \<le> 2 then y - 1 else y)"
  have n: "n = 400 * (n div 400) + n mod 400" by simp
  have "march_days n = 146097 * (n div 400) + march_days (n mod 400)"
    by (subst n) (rule march_days_era)
  moreover have "march_days (n mod 400) = n mod 400 * 365 + n mod 400 div 4 - n mod 400 div 100"
    by (simp add: march_days_def)
  ultimately show ?thesis
    by (simp add: days_of_civil_def Let_def n_def [symmetric])
qed

text \<open>The year of the era from the day of the era; it is monotone in the day, so that it suffices to
  evaluate it at both ends of each of the 400 years.\<close>

definition year_of_era :: "int \<Rightarrow> int" where
  "year_of_era doe = (doe - doe div 1460 + doe div 36524 - doe div 146096) div 365"

lemma year_of_era_mono_step: "year_of_era n \<le> year_of_era (n + 1)"
proof -
  have "146096 dvd n + 1 \<Longrightarrow> 36524 dvd n + 1"
    by (rule dvd_trans; simp)
  then show ?thesis
    unfolding year_of_era_def by (intro zdiv_mono1) (auto simp: div_Suc_int)
qed

lemma year_of_era_mono: "a \<le> b \<Longrightarrow> year_of_era a \<le> year_of_era b"
  by (induction b rule: int_ge_induct) (auto intro: order_trans year_of_era_mono_step)

lemma year_of_era_ends:
  "list_all (\<lambda>y. year_of_era (march_days y) = y \<and> year_of_era (march_days (y + 1) - 1) = y) [0..399]"
  by code_simp

lemma year_exists:
  assumes "0 \<le> doe" and "doe < march_days (int k)"
  shows "\<exists>y. 0 \<le> y \<and> y < int k \<and> march_days y \<le> doe \<and> doe < march_days (y + 1)"
  using assms
proof (induction k)
  case (Suc k)
  show ?case
  proof (cases "doe < march_days (int k)")
    case True
    then show ?thesis using Suc by force
  next
    case False
    then show ?thesis using Suc.prems by (intro exI [of _ "int k"]) (auto simp: add.commute)
  qed
qed (simp add: march_days_def)

lemma year_of_era_bounds:
  assumes "0 \<le> doe" and "doe < 146097"
  shows "0 \<le> year_of_era doe" "year_of_era doe < 400"
    "march_days (year_of_era doe) \<le> doe" "doe < march_days (year_of_era doe + 1)"
proof -
  from assms have "doe < march_days (int 400)" by (simp add: march_days_def)
  from year_exists [OF assms(1) this] obtain y where y: "0 \<le> y" "y < 400" "march_days y \<le> doe" "doe < march_days (y + 1)"
    by auto
  have "year_of_era (march_days y) = y" "year_of_era (march_days (y + 1) - 1) = y"
    using year_of_era_ends y(1,2) by (simp_all add: list_all_iff)
  with year_of_era_mono [OF y(3)] year_of_era_mono [of doe "march_days (y + 1) - 1"] y(4)
  have "year_of_era doe = y" by simp
  with y show "0 \<le> year_of_era doe" "year_of_era doe < 400"
    "march_days (year_of_era doe) \<le> doe" "doe < march_days (year_of_era doe + 1)" by simp_all
qed

lemma month_of_year_check:
  "list_all (\<lambda>doy. let mp = (5 * doy + 2) div 153 in
     0 \<le> mp \<and> mp \<le> 11 \<and> (153 * mp + 2) div 5 \<le> doy \<and> doy < (153 * (mp + 1) + 2) div 5) [0..365 :: int]"
  by code_simp

lemma month_of_year:
  assumes "0 \<le> doy" and "doy \<le> 365"
  defines "mp \<equiv> (5 * doy + 2) div (153 :: int)"
  shows "0 \<le> mp" "mp \<le> 11" "(153 * mp + 2) div 5 \<le> doy" "doy < (153 * (mp + 1) + 2) div 5"
  using month_of_year_check assms(1,2) by (auto simp: mp_def list_all_iff Let_def)

lemma civil_of_days_era:
  "civil_of_days z =
    (let doe = (z + 719468) mod 146097; yoe = year_of_era doe;
         doy = doe - march_days yoe; mp = (5 * doy + 2) div 153;
         m = (if mp < 10 then mp + 3 else mp - 9); n = 400 * ((z + 719468) div 146097) + yoe in
     (if m \<le> 2 then n + 1 else n, m, doy - (153 * mp + 2) div 5 + 1))"
proof -
  have "march_days (year_of_era ((z + 719468) mod 146097)) =
      365 * year_of_era ((z + 719468) mod 146097) + year_of_era ((z + 719468) mod 146097) div 4
        - year_of_era ((z + 719468) mod 146097) div 100"
    using year_of_era_bounds [of "(z + 719468) mod 146097"] by (simp add: march_days_def)
  then show ?thesis
    unfolding civil_of_days_def year_of_era_def Let_def by (simp only: mult.commute add.commute)
qed

text \<open>The date of a day, with the month starting before it and the next one after it.\<close>

lemma civil_of_days_spec:
  assumes "civil_of_days z = (y, m, d)"
  shows "1 \<le> m" "m \<le> 12" "1 \<le> d" "days_of_civil y m d = z"
    "z < (if m = 12 then days_of_civil (y + 1) 1 1 else days_of_civil y (m + 1) 1)"
proof -
  define era where "era = (z + 719468) div 146097"
  define doe where "doe = (z + 719468) mod 146097"
  define yoe where "yoe = year_of_era doe"
  define doy where "doy = doe - march_days yoe"
  define mp where "mp = (5 * doy + 2) div 153"
  define Y where "Y = 400 * era + yoe"
  have z: "z + 719468 = 146097 * era + doe" by (simp add: era_def doe_def)
  have doe: "0 \<le> doe" "doe < 146097" by (simp_all add: doe_def)
  note yb = year_of_era_bounds [OF doe, folded yoe_def]
  have doy: "0 \<le> doy" "doy \<le> 365"
    using yb march_days_step(2) [of yoe] by (simp_all add: doy_def)
  note mb = month_of_year [OF doy, folded mp_def]
  have "civil_of_days z = (if (if mp < 10 then mp + 3 else mp - 9) \<le> 2 then Y + 1 else Y,
      if mp < 10 then mp + 3 else mp - 9, doy - (153 * mp + 2) div 5 + 1)"
    unfolding civil_of_days_era Let_def Y_def mp_def doy_def yoe_def era_def doe_def by (rule refl)
  with assms have civ: "m = (if mp < 10 then mp + 3 else mp - 9)" "d = doy - (153 * mp + 2) div 5 + 1"
    "y = (if m \<le> 2 then Y + 1 else Y)"
    by auto
  show m: "1 \<le> m" "m \<le> 12" using mb(1,2) by (auto simp: civ(1))
  show "1 \<le> d" using mb(3) by (simp add: civ(2))
  have Y0: "(if m \<le> 2 then y - 1 else y) = Y" by (simp add: civ(3))
  have M0: "(if m > 2 then m - 3 else m + 9) = mp" using mb(1,2) by (auto simp: civ(1))
  have day0: "z + 719468 = march_days Y + doy"
    by (simp add: z Y_def march_days_era doy_def)
  show "days_of_civil y m d = z"
    using day0 by (simp only: days_of_civil_march [OF m] Y0 M0) (simp add: civ(2))
  have nextY: "z + 719468 < march_days (Y + 1)"
    using yb(4) by (simp add: z Y_def march_days_era add.assoc)
  show "z < (if m = 12 then days_of_civil (y + 1) 1 1 else days_of_civil y (m + 1) 1)"
  proof (cases "mp = 11")
    case True
    then have "m = 2" by (simp add: civ(1))
    with nextY show ?thesis by (simp add: days_of_civil_march civ(3))
  next
    case False
    then have "(if m = 12 then days_of_civil (y + 1) 1 1 else days_of_civil y (m + 1) 1)
      = march_days Y + (153 * (mp + 1) + 2) div 5 - 719468"
      using mb(1,2) by (auto simp: days_of_civil_march civ(1,3))
    with mb(4) day0 show ?thesis by simp
  qed
qed

subsection \<open>Tilings of the time line\<close>

text \<open>A numbering of consecutive intervals: \<open>st k\<close> is where interval \<open>k\<close> starts, and \<open>idx x\<close> is the
  interval \<open>x\<close> falls into.\<close>

locale tiling =
  fixes idx :: "int \<Rightarrow> int" and st :: "int \<Rightarrow> int"
  assumes st_step: "st k < st (k + 1)"
    and idx_start: "st (idx x) \<le> x"
    and idx_end: "x < st (idx x + 1)"
begin

lemma st_mono: "j < k \<Longrightarrow> st j < st k"
  by (induction k rule: int_gr_induct) (auto intro: st_step less_trans)

lemma st_eq_iff: "st j = st k \<longleftrightarrow> j = k"
  by (metis less_irrefl linorder_neqE st_mono)

lemma idx_unique: "\<lbrakk> st k \<le> x; x < st (k + 1) \<rbrakk> \<Longrightarrow> idx x = k"
proof (rule ccontr)
  assume *: "st k \<le> x" "x < st (k + 1)" "idx x \<noteq> k"
  then consider "k + 1 \<le> idx x" | "idx x + 1 \<le> k" by linarith
  then show False
  proof cases
    case 1
    then have "st (k + 1) \<le> st (idx x)" using st_mono [of "k + 1" "idx x"] by (cases "k + 1 = idx x") auto
    with idx_start [of x] * show False by simp
  next
    case 2
    then have "st (idx x + 1) \<le> st k" using st_mono [of "idx x + 1" k] by (cases "idx x + 1 = k") auto
    with idx_end [of x] * show False by simp
  qed
qed

lemma idx_iff: "idx x = k \<longleftrightarrow> st k \<le> x \<and> x < st (k + 1)"
  using idx_start idx_end idx_unique by blast

lemma idx_st [simp]: "idx (st k) = k"
  by (rule idx_unique) (simp_all add: st_step)

lemma st_le_idx: "st k \<le> x \<Longrightarrow> st k \<le> st (idx x)"
proof (rule ccontr)
  assume x: "st k \<le> x" and "\<not> st k \<le> st (idx x)"
  then have "idx x < k" using st_mono [of k "idx x"] by (cases k "idx x" rule: linorder_cases) auto
  then have "st (idx x + 1) \<le> st k" using st_mono [of "idx x + 1" k] by (cases "idx x + 1 = k") auto
  with idx_end [of x] x show False by simp
qed

end

lemma tiling_div: "0 < w \<Longrightarrow> tiling (\<lambda>x. (x + off) div w) (\<lambda>k. k * w - off)"
proof (unfold_locales, goal_cases)
  case (1 k) then show ?case by (simp add: algebra_simps)
next
  case (2 x)
  have "(x + off) div w * w \<le> x + off" using 2 by (metis div_mult_mod_eq pos_mod_sign le_add_same_cancel1)
  then show ?case by simp
next
  case (3 x)
  have "x + off < (x + off) div w * w + w"
    using 3 pos_mod_bound [of w "x + off"] div_mult_mod_eq [of "x + off" w] by linarith
  then show ?case by (simp add: algebra_simps)
qed

text \<open>Months are numbered from January of year 0.\<close>

definition month_start :: "int \<Rightarrow> int" where
  "month_start k = days_of_civil (k div 12) (k mod 12 + 1) 1"

definition month_index :: "int \<Rightarrow> int" where
  "month_index z = (case civil_of_days z of (y, m, d) \<Rightarrow> 12 * y + m - 1)"

definition year_start :: "int \<Rightarrow> int" where
  "year_start y = days_of_civil y 1 1"

definition year_index :: "int \<Rightarrow> int" where
  "year_index z = fst (civil_of_days z)"

lemma month_start_of: "\<lbrakk> 1 \<le> m; m \<le> 12 \<rbrakk> \<Longrightarrow> month_start (12 * y + m - 1) = days_of_civil y m 1"
proof -
  assume m: "1 \<le> m" "m \<le> 12"
  have "12 * y + m - 1 = y * 12 + (m - 1)" by simp
  then have "(12 * y + m - 1) div 12 = y" "(12 * y + m - 1) mod 12 = m - 1"
    using m by (auto simp: int_div_pos_eq int_mod_pos_eq)
  then show ?thesis by (simp add: month_start_def)
qed

lemma month_start_next:
  assumes "1 \<le> m" and "m \<le> 12"
  shows "month_start (12 * y + m) = (if m = 12 then days_of_civil (y + 1) 1 1 else days_of_civil y (m + 1) 1)"
  using month_start_of [of "if m = 12 then 1 else m + 1" "if m = 12 then y + 1 else y"] assms
  by (auto simp: algebra_simps)

lemma civil_bounds:
  assumes "civil_of_days z = (y, m, d)"
  shows "month_start (12 * y + m - 1) \<le> z" "z < month_start (12 * y + m)"
proof -
  note c = civil_of_days_spec [OF assms]
  have "days_of_civil y m 1 \<le> days_of_civil y m d"
    using c(1-3) by (simp add: days_of_civil_march)
  then show "month_start (12 * y + m - 1) \<le> z" using c by (simp add: month_start_of)
  show "z < month_start (12 * y + m)" using c by (simp add: month_start_next)
qed

lemma month_start_step: "month_start k < month_start (k + 1)"
proof -
  define y m where "y = k div 12" and "m = k mod 12 + 1"
  have k: "k = 12 * y + m - 1" and m: "1 \<le> m" "m \<le> 12" by (simp_all add: y_def m_def)
  from m have "m = 1 \<or> m = 2 \<or> m = 3 \<or> m = 4 \<or> m = 5 \<or> m = 6 \<or> m = 7 \<or> m = 8 \<or> m = 9 \<or> m = 10 \<or> m = 11 \<or> m = 12"
    by presburger
  then show ?thesis
    using month_start_of [OF m, of y] month_start_next [OF m, of y] march_days_step(1) [of "y - 1"]
    by (auto simp: k days_of_civil_march)
qed

interpretation months: tiling month_index month_start
proof (unfold_locales, goal_cases)
  case (2 z)
  obtain y m d where "civil_of_days z = (y, m, d)" by (cases "civil_of_days z") auto
  from civil_bounds [OF this] this show ?case by (simp add: month_index_def)
next
  case (3 z)
  obtain y m d where "civil_of_days z = (y, m, d)" by (cases "civil_of_days z") auto
  from civil_bounds [OF this] this show ?case by (simp add: month_index_def)
qed (rule month_start_step)

lemma year_start_month: "year_start y = month_start (12 * y)"
  using month_start_of [of 1 y] by (simp add: year_start_def)

lemma year_index_month: "year_index z = month_index z div 12"
proof -
  obtain y m d where c: "civil_of_days z = (y, m, d)" by (cases "civil_of_days z") auto
  have "12 * y + m - 1 = y * 12 + (m - 1)" by simp
  then have "(12 * y + m - 1) div 12 = y"
    using civil_of_days_spec(1,2) [OF c] by (auto simp: int_div_pos_eq)
  with c show ?thesis by (simp add: year_index_def month_index_def)
qed

interpretation years: tiling year_index year_start
proof (unfold_locales, goal_cases)
  case (1 k)
  then show ?case by (simp add: year_start_month months.st_mono)
next
  case (2 z)
  have "12 * (month_index z div 12) \<le> month_index z" by simp
  with months.idx_start [of z] months.st_mono [of "12 * (month_index z div 12)" "month_index z"]
  show ?case by (cases "12 * (month_index z div 12) = month_index z") (auto simp: year_start_month year_index_month)
next
  case (3 z)
  have "month_index z + 1 \<le> 12 * (month_index z div 12 + 1)"
    using div_mult_mod_eq [of "month_index z" 12] pos_mod_bound [of 12 "month_index z"] by simp
  with months.idx_end [of z] months.st_mono [of "month_index z + 1" "12 * (month_index z div 12 + 1)"]
  show ?case by (cases "month_index z + 1 = 12 * (month_index z div 12 + 1)") (auto simp: year_start_month year_index_month)
qed

text \<open>The date and the day number determine each other.\<close>

lemma civil_of_month:
  assumes "civil_of_days z = (y, m, d)"
  shows "y = month_index z div 12" "m = month_index z mod 12 + 1" "d = z - month_start (month_index z) + 1"
proof -
  note c = civil_of_days_spec [OF assms]
  have "month_index z = y * 12 + (m - 1)" using assms by (simp add: month_index_def)
  then show "y = month_index z div 12" "m = month_index z mod 12 + 1"
    using c(1,2) by (auto simp: int_div_pos_eq int_mod_pos_eq)
  show "d = z - month_start (month_index z) + 1"
    using assms c month_start_of [OF c(1,2), of y] by (simp add: month_index_def days_of_civil_march)
qed

lemma civil_of_days_inject: "civil_of_days z = civil_of_days z' \<longleftrightarrow> z = z'"
  using civil_of_days_spec(4) by (metis prod_cases3)

subsection \<open>Reading printed numbers back\<close>

definition digit_val :: "char \<Rightarrow> nat" where
  "digit_val c = (if c \<in> set ''0123456789'' then byte_of c - 48 else 0)"

definition read_dec :: "string \<Rightarrow> nat" where
  "read_dec s = foldl (\<lambda>n c. 10 * n + digit_val c) 0 s"

lemma digit_val_nth: "n < 10 \<Longrightarrow> digit_val (''0123456789'' ! n) = n"
proof -
  have "list_all (\<lambda>n. digit_val (''0123456789'' ! n) = n) [0..<10]" by code_simp
  then show "n < 10 \<Longrightarrow> digit_val (''0123456789'' ! n) = n" by (simp add: list_all_iff)
qed

lemma digit_nth_in: "n < 10 \<Longrightarrow> ''0123456789'' ! n \<in> set ''0123456789''"
  by (rule nth_mem) simp

lemma read_dec_nat: "read_dec (dec_nat n) = n"
proof (induction n rule: dec_nat.induct)
  case (1 n)
  then show ?case
    by (subst dec_nat.simps) (simp add: read_dec_def digit_val_nth del: nth_Cons_numeral)
qed

lemma dec_nat_digits: "set (dec_nat n) \<subseteq> set ''0123456789''"
proof (induction n rule: dec_nat.induct)
  case (1 n)
  then show ?case
    using digit_nth_in [of n] digit_nth_in [of "n mod 10"]
    by (subst dec_nat.simps) (simp del: nth_Cons_numeral)
qed

lemma digit_val_zero: "digit_val CHR ''0'' = 0"
  by code_simp

lemma read_dec_zeros: "read_dec (replicate k CHR ''0'' @ s) = read_dec s"
proof -
  have "foldl (\<lambda>n c. 10 * n + digit_val c) 0 (replicate k CHR ''0'') = 0"
    by (induction k) (simp_all add: digit_val_zero)
  then show ?thesis by (simp add: read_dec_def)
qed

lemma pad_dec_inject:
  "\<lbrakk> 0 \<le> i; 0 \<le> j; pad_to w (dec_int i) = pad_to w (dec_int j) \<rbrakk> \<Longrightarrow> i = j"
proof -
  assume ij: "0 \<le> i" "0 \<le> j" and eq: "pad_to w (dec_int i) = pad_to w (dec_int j)"
  have "read_dec (pad_to w (dec_int k)) = nat k" if "0 \<le> k" for k
    using that by (simp add: pad_to_def read_dec_zeros dec_int_def read_dec_nat)
  with ij eq show "i = j" by (metis nat_eq_iff2)
qed

lemma pad_dec_digits: "0 \<le> i \<Longrightarrow> set (pad_to w (dec_int i)) \<subseteq> set ''0123456789''"
  using dec_nat_digits [of "nat i"] by (auto simp: pad_to_def dec_int_def)

lemma dec_int_inject: "\<lbrakk> 0 \<le> i; 0 \<le> j; dec_int i = dec_int j \<rbrakk> \<Longrightarrow> i = j"
  using pad_dec_inject [of i j 0] by (simp add: pad_to_def)

lemma sep_inject:
  "\<lbrakk> c \<notin> set a; c \<notin> set b \<rbrakk> \<Longrightarrow> a @ c # x = b @ c # y \<longleftrightarrow> a = b \<and> x = y"
proof (induction a arbitrary: b)
  case Nil
  then show ?case by (cases b) auto
next
  case (Cons e a)
  then show ?case by (cases b) auto
qed

subsection \<open>Functions of package \<open>time\<close>\<close>

text \<open>\<open>time.Date(y, m, d, 0, 0, 0, 0, time.UTC)\<close>, with months and days outside their range carried over.\<close>

definition go_Date :: "int \<Rightarrow> int \<Rightarrow> int \<Rightarrow> time" where
  "go_Date y m d = (days_of_civil (y + (m - 1) div 12) ((m - 1) mod 12 + 1) 1 + d - 1) * day24"

definition AddDate :: "time \<Rightarrow> int \<Rightarrow> int \<Rightarrow> int \<Rightarrow> time" where
  "AddDate t ys ms ds =
    (case civil_of_days (t div day24) of (y, m, d) \<Rightarrow> go_Date (y + ys) (m + ms) (d + ds) + t mod day24)"

text \<open>Sunday is 0; the epoch was a Thursday.\<close>

definition Weekday :: "time \<Rightarrow> int" where
  "Weekday t = (t div day24 + 4) mod 7"

definition fmt_year :: "time \<Rightarrow> string" where
  "fmt_year t = (case civil_of_days (t div day24) of (y, m, d) \<Rightarrow> pad_to 4 (dec_int y))"

definition fmt_month :: "time \<Rightarrow> string" where
  "fmt_month t = (case civil_of_days (t div day24) of (y, m, d) \<Rightarrow>
    pad_to 4 (dec_int y) @ ''-'' @ pad_to 2 (dec_int m))"

definition fmt_day :: "time \<Rightarrow> string" where
  "fmt_day t = (case civil_of_days (t div day24) of (y, m, d) \<Rightarrow>
    pad_to 4 (dec_int y) @ ''-'' @ pad_to 2 (dec_int m) @ ''-'' @ pad_to 2 (dec_int d))"

definition fmt_hour :: "time \<Rightarrow> string" where
  "fmt_hour t = fmt_day t @ ''T'' @ pad_to 2 (dec_int (t mod day24 div hour))"

definition fmt_minute :: "time \<Rightarrow> string" where
  "fmt_minute t = fmt_hour t @ '':'' @ pad_to 2 (dec_int (t mod hour div minute))"

lemma go_Date_month: "go_Date y m d = (month_start (12 * y + m - 1) + d - 1) * day24"
proof -
  have "12 * y + m - 1 = (m - 1) + y * 12" by simp
  then have "(12 * y + m - 1) div 12 = y + (m - 1) div 12" "(12 * y + m - 1) mod 12 = (m - 1) mod 12"
    by (metis add.commute div_mult_self1 zero_neq_numeral, metis mod_mult_self1)
  then show ?thesis by (simp add: go_Date_def month_start_def)
qed

lemma AddDate_midnight:
  "AddDate (z * day24) ys ms ds =
    (month_start (month_index z + 12 * ys + ms) + (z - month_start (month_index z)) + ds) * day24"
proof -
  obtain y m d where c: "civil_of_days z = (y, m, d)" by (cases "civil_of_days z") auto
  have z: "z * day24 div day24 = z" "z * day24 mod day24 = 0" using day24_pos by (simp_all del: day24_pos)
  have k: "12 * (y + ys) + (m + ms) - 1 = month_index z + 12 * ys + ms" using c by (simp add: month_index_def)
  have "d = z - month_start (month_index z) + 1" by (rule civil_of_month(3) [OF c])
  then show ?thesis unfolding AddDate_def z c prod.case go_Date_month k by simp
qed

lemma AddDate_days: "AddDate (z * day24) 0 0 n = (z + n) * day24"
  by (simp add: AddDate_midnight)

end
