(* ===== verification/Json_Print.thy ===== *)
theory Json_Print
  imports Json Go_Calendar
begin

text \<open>
  What \<open>encoding/json\<close> prints: string literals with Go's escapes, including
  those of \<open><\<close>, \<open>>\<close> and \<open>&\<close>, of the two Unicode line separators and of
  bytes that are no UTF-8, and the concatenation of literals into arrays and
  objects.  A printed literal can be read back, so that printing is injective
  on strings of valid UTF-8; the laws are stated once for codes that no other
  code of the same kind extends.
\<close>

subsection \<open>UTF-8\<close>

definition in_range :: "nat \<Rightarrow> nat \<Rightarrow> char \<Rightarrow> bool" where
  "in_range lo hi c \<longleftrightarrow> lo \<le> byte_of c \<and> byte_of c \<le> hi"

definition is_cont :: "char \<Rightarrow> bool" where
  "is_cont c = in_range 0x80 0xBF c"

text \<open>\<open>utf8.DecodeRuneInString\<close>: the length of the encoding at the head of a string, 0 for none.\<close>

fun utf8_len :: "string \<Rightarrow> nat" where
  "utf8_len [] = 0"
| "utf8_len (a # s) =
    (if byte_of a < 0x80 then 1
     else case s of
       [] \<Rightarrow> 0
     | b # s2 \<Rightarrow>
         if in_range 0xC2 0xDF a then (if is_cont b then 2 else 0)
         else case s2 of
           [] \<Rightarrow> 0
         | c # s3 \<Rightarrow>
             if byte_of a = 0xE0 then (if in_range 0xA0 0xBF b \<and> is_cont c then 3 else 0)
             else if byte_of a = 0xED then (if in_range 0x80 0x9F b \<and> is_cont c then 3 else 0)
             else if in_range 0xE1 0xEF a then (if is_cont b \<and> is_cont c then 3 else 0)
             else case s3 of
               [] \<Rightarrow> 0
             | d # s4 \<Rightarrow>
                 if byte_of a = 0xF0 then (if in_range 0x90 0xBF b \<and> is_cont c \<and> is_cont d then 4 else 0)
                 else if byte_of a = 0xF4 then (if in_range 0x80 0x8F b \<and> is_cont c \<and> is_cont d then 4 else 0)
                 else if in_range 0xF1 0xF3 a then (if is_cont b \<and> is_cont c \<and> is_cont d then 4 else 0)
                 else 0)"

lemma utf8_len_le: "utf8_len s \<le> length s"
  by (cases s rule: utf8_len.cases) (auto split: list.splits)

text \<open>The runes of a string: \<open>for _, r := range s\<close>, each given by its bytes; a byte that starts no
  encoding stands alone.\<close>

function utf8_runes :: "string \<Rightarrow> string list" where
  "utf8_runes [] = []"
| "utf8_runes (a # s) =
    (let n = max 1 (utf8_len (a # s)) in take n (a # s) # utf8_runes (drop n (a # s)))"
  by pat_completeness auto
termination by (relation "measure length") auto

definition valid_utf8 :: "string \<Rightarrow> bool" where
  "valid_utf8 s = list_all (\<lambda>r. utf8_len r = length r) (utf8_runes s)"

lemma concat_runes [simp]: "concat (utf8_runes s) = s"
  by (induction s rule: utf8_runes.induct) (simp_all add: Let_def)

subsection \<open>String literals\<close>

definition json_safe :: "char \<Rightarrow> bool" where
  "json_safe c \<longleftrightarrow> 0x20 \<le> byte_of c \<and> byte_of c < 0x80 \<and> c \<notin> set [CHR 0x22, CHR 0x5C, CHR ''<'', CHR ''>'', CHR ''&'']"

definition json_escape :: "char \<Rightarrow> string" where
  "json_escape c =
    (if json_safe c then [c]
     else if c = CHR 0x22 \<or> c = CHR 0x5C then [CHR 0x5C, c]
     else if c = CHR 0x08 then [CHR 0x5C, CHR ''b'']
     else if c = CHR 0x0C then [CHR 0x5C, CHR ''f'']
     else if c = CHR 0x0A then [CHR 0x5C, CHR ''n'']
     else if c = CHR 0x0D then [CHR 0x5C, CHR ''r'']
     else if c = CHR 0x09 then [CHR 0x5C, CHR ''t'']
     else [CHR 0x5C] @ ''u00'' @ [hex_digit (byte_of c div 16), hex_digit (byte_of c mod 16)])"

definition json_rune :: "string \<Rightarrow> string" where
  "json_rune r =
    (if length r = 1 \<and> byte_of (hd r) < 0x80 then json_escape (hd r)
     else if utf8_len r = 0 then [CHR 0x5C] @ ''ufffd''
     else if r = [CHR 0xE2, CHR 0x80, CHR 0xA8] then [CHR 0x5C] @ ''u2028''
     else if r = [CHR 0xE2, CHR 0x80, CHR 0xA9] then [CHR 0x5C] @ ''u2029''
     else r)"

definition json_string :: "string \<Rightarrow> string" where
  "json_string s = [CHR 0x22] @ concat (map json_rune (utf8_runes s)) @ [CHR 0x22]"

lemma json_string_sample:
  "json_string [CHR ''a'', CHR ''<'', CHR 0x22, CHR 0x0A, CHR 0x01, CHR 0xC3, CHR 0xA9, CHR 0xFF] =
    [CHR 0x22, CHR ''a''] @ [CHR 0x5C] @ ''u003c'' @ [CHR 0x5C, CHR 0x22, CHR 0x5C, CHR ''n'', CHR 0x5C] @ ''u0001''
      @ [CHR 0xC3, CHR 0xA9, CHR 0x5C] @ ''ufffd'' @ [CHR 0x22]"
  by code_simp

subsection \<open>Codes that no other code extends\<close>

locale prefix_code =
  fixes enc :: "'a \<Rightarrow> string" and ok :: "'a \<Rightarrow> bool"
  assumes enc_inject: "\<lbrakk> ok a; ok b; enc a @ x = enc b @ y \<rbrakk> \<Longrightarrow> a = b \<and> x = y"
begin

lemma enc_eq_iff: "\<lbrakk> ok a; ok b \<rbrakk> \<Longrightarrow> enc a @ x = enc b @ y \<longleftrightarrow> a = b \<and> x = y"
  using enc_inject by blast

lemma enc_eq: "\<lbrakk> ok a; ok b \<rbrakk> \<Longrightarrow> enc a = enc b \<longleftrightarrow> a = b"
  using enc_inject [of a b "[]" "[]"] by auto

text \<open>A sequence: the elements one after the other, each behind \<open>sep\<close>, and \<open>stop\<close> at the end.\<close>

lemma seq_inject:
  assumes "sep \<noteq> stop" and "list_all ok as" and "list_all ok bs"
    and "concat (map (\<lambda>a. sep # enc a) as) @ stop # x = concat (map (\<lambda>a. sep # enc a) bs) @ stop # y"
  shows "as = bs \<and> x = y"
  using assms(2-4)
proof (induction as arbitrary: bs)
  case Nil
  then show ?case using assms(1) by (cases bs) auto
next
  case (Cons a as)
  then obtain b bs' where bs: "bs = b # bs'" using assms(1) by (cases bs) auto
  with Cons.prems have "enc a @ concat (map (\<lambda>a. sep # enc a) as) @ stop # x
      = enc b @ concat (map (\<lambda>a. sep # enc a) bs') @ stop # y" by simp
  with Cons.prems bs have "a = b" "concat (map (\<lambda>a. sep # enc a) as) @ stop # x = concat (map (\<lambda>a. sep # enc a) bs') @ stop # y"
    using enc_inject by auto
  with Cons.IH [of bs'] Cons.prems bs show ?case by simp
qed

end

subsection \<open>Reading a literal back\<close>

definition hex_val :: "char \<Rightarrow> nat" where
  "hex_val c = (if byte_of c < 0x60 then byte_of c - 0x30 else byte_of c - 0x57)"

lemma hex_val_digit: "n < 16 \<Longrightarrow> hex_val (hex_digit n) = n"
proof -
  have "list_all (\<lambda>n. hex_val (hex_digit n) = n) [0..<16]" by code_simp
  then show "n < 16 \<Longrightarrow> hex_val (hex_digit n) = n" by (simp add: list_all_iff)
qed

definition unicode_bytes :: "nat \<Rightarrow> string" where
  "unicode_bytes v =
    (if v < 0x80 then [char_of v]
     else if v = 0x2028 then [CHR 0xE2, CHR 0x80, CHR 0xA8]
     else if v = 0x2029 then [CHR 0xE2, CHR 0x80, CHR 0xA9]
     else [CHR 0xEF, CHR 0xBF, CHR 0xBD])"

definition short_escape :: "char \<Rightarrow> char" where
  "short_escape c =
    (if c = CHR ''b'' then CHR 0x08 else if c = CHR ''f'' then CHR 0x0C else if c = CHR ''n'' then CHR 0x0A
     else if c = CHR ''r'' then CHR 0x0D else if c = CHR ''t'' then CHR 0x09 else c)"

fun scan_literal :: "string \<Rightarrow> string \<times> string" where
  "scan_literal [] = ([], [])"
| "scan_literal (c # cs) =
    (if c = CHR 0x22 then ([], cs)
     else if c \<noteq> CHR 0x5C then (let (a, r) = scan_literal cs in (c # a, r))
     else case cs of
       [] \<Rightarrow> ([], [])
     | e # ds \<Rightarrow>
         if e \<noteq> CHR ''u'' then (let (a, r) = scan_literal ds in (short_escape e # a, r))
         else case ds of
           h1 # h2 # h3 # h4 # rest \<Rightarrow>
             (let (a, r) = scan_literal rest in
              (unicode_bytes (((hex_val h1 * 16 + hex_val h2) * 16 + hex_val h3) * 16 + hex_val h4) @ a, r))
         | _ \<Rightarrow> ([], []))"

lemma hex_zero: "hex_val CHR ''0'' = 0"
  by code_simp

lemma scan_escape:
  assumes "byte_of c < 0x80"
  shows "scan_literal (json_escape c @ x) = (c # fst (scan_literal x), snd (scan_literal x))"
proof (cases "json_safe c")
  case True
  then have "c \<noteq> CHR 0x22" "c \<noteq> CHR 0x5C" by (auto simp: json_safe_def)
  with True show ?thesis by (simp add: json_escape_def case_prod_beta)
next
  case False
  have "unicode_bytes (hex_val (hex_digit (byte_of c div 16)) * 16 + hex_val (hex_digit (byte_of c mod 16))) = [c]"
    using assms by (simp add: hex_val_digit unicode_bytes_def)
  moreover have "c = CHR 0x22 \<or> c = CHR 0x5C \<Longrightarrow> c \<noteq> CHR ''u''" by auto
  ultimately show ?thesis
    using False by (auto simp: json_escape_def case_prod_beta short_escape_def hex_zero)
qed

lemma high_not_special: "0x80 \<le> byte_of c \<Longrightarrow> c \<noteq> CHR 0x22 \<and> c \<noteq> CHR 0x5C"
  by (auto simp: byte_of_def)

lemma scan_high:
  "list_all (\<lambda>c. 0x80 \<le> byte_of c) r \<Longrightarrow> scan_literal (r @ x) = (r @ fst (scan_literal x), snd (scan_literal x))"
  by (induction r) (auto simp: high_not_special case_prod_beta)

lemma utf8_len_high:
  assumes "utf8_len r = length r" and "\<not> (length r = 1 \<and> byte_of (hd r) < 0x80)"
  shows "list_all (\<lambda>c. 0x80 \<le> byte_of c) r"
  using assms
  by (cases r rule: utf8_len.cases) (auto simp: in_range_def is_cont_def split: list.splits if_splits)

lemma scan_rune:
  assumes "utf8_len r = length r" and "r \<noteq> []"
  shows "scan_literal (json_rune r @ x) = (r @ fst (scan_literal x), snd (scan_literal x))"
proof (cases "length r = 1 \<and> byte_of (hd r) < 0x80")
  case True
  then obtain c where "r = [c]" by (cases r) auto
  with True show ?thesis by (simp add: json_rune_def scan_escape)
next
  case False
  have hex: "hex_val CHR ''2'' = 2" "hex_val CHR ''8'' = 8" "hex_val CHR ''9'' = 9" by code_simp+
  consider "r = [CHR 0xE2, CHR 0x80, CHR 0xA8]" | "r = [CHR 0xE2, CHR 0x80, CHR 0xA9]"
    | "r \<noteq> [CHR 0xE2, CHR 0x80, CHR 0xA8]" "r \<noteq> [CHR 0xE2, CHR 0x80, CHR 0xA9]" by blast
  then show ?thesis
  proof cases
    case 1
    have "json_rune r = [CHR 0x5C] @ ''u2028''" unfolding 1 by code_simp
    then show ?thesis by (simp add: 1 hex hex_zero unicode_bytes_def case_prod_beta)
  next
    case 2
    have "json_rune r = [CHR 0x5C] @ ''u2029''" unfolding 2 by code_simp
    then show ?thesis by (simp add: 2 hex hex_zero unicode_bytes_def case_prod_beta)
  next
    case 3
    with False assms have "json_rune r = r" by (auto simp: json_rune_def)
    then show ?thesis using scan_high [OF utf8_len_high [OF assms(1) False], of x] by simp
  qed
qed

lemma scan_runes:
  "\<lbrakk> list_all (\<lambda>r. utf8_len r = length r) rs; [] \<notin> set rs \<rbrakk> \<Longrightarrow>
    scan_literal (concat (map json_rune rs) @ CHR 0x22 # x) = (concat rs, x)"
  by (induction rs) (auto simp: scan_rune)

lemma runes_nonempty: "[] \<notin> set (utf8_runes s)"
  by (induction s rule: utf8_runes.induct) (auto simp: Let_def max_def split: if_splits)

lemma scan_json_string: "valid_utf8 s \<Longrightarrow> scan_literal (tl (json_string s) @ x) = (s, x)"
  by (simp add: json_string_def scan_runes valid_utf8_def runes_nonempty)

text \<open>String literals of valid UTF-8 are such a code.\<close>

interpretation literals: prefix_code json_string valid_utf8
proof
  fix a b x y
  assume v: "valid_utf8 a" "valid_utf8 b" and eq: "json_string a @ x = json_string b @ y"
  have "tl (json_string c) @ z = tl (json_string c @ z)" for c z by (simp add: json_string_def)
  with eq have "tl (json_string a) @ x = tl (json_string b) @ y" by metis
  then have "scan_literal (tl (json_string a) @ x) = scan_literal (tl (json_string b) @ y)" by (rule arg_cong)
  then show "a = b \<and> x = y" unfolding scan_json_string [OF v(1)] scan_json_string [OF v(2)] by simp
qed

declare scan_literal.simps [simp del]

lemma utf8_ascii: "list_all (\<lambda>c. byte_of c < 0x80) s \<Longrightarrow> utf8_runes s = map (\<lambda>c. [c]) s"
  by (induction s) auto

lemma ascii_valid: "list_all (\<lambda>c. byte_of c < 0x80) s \<Longrightarrow> valid_utf8 s"
  by (auto simp: valid_utf8_def utf8_ascii list_all_iff)

subsection \<open>Arrays and objects\<close>

definition json_array :: "('a \<Rightarrow> string) \<Rightarrow> 'a list \<Rightarrow> string" where
  "json_array enc xs =
    ''['' @ (case xs of [] \<Rightarrow> [] | a # as \<Rightarrow> enc a @ concat (map (\<lambda>a. CHR '','' # enc a) as)) @ '']''"

definition json_key :: "string \<Rightarrow> string" where
  "json_key k = json_string k @ '':''"

text \<open>Elements that do not start with the closing bracket make arrays a code as well.\<close>

locale element_code = prefix_code +
  assumes enc_head: "ok a \<Longrightarrow> \<exists>c cs. enc a = c # cs \<and> c \<noteq> CHR '']''"
begin

lemma array_inject:
  assumes "list_all ok as" and "list_all ok bs" and "json_array enc as @ x = json_array enc bs @ y"
  shows "as = bs \<and> x = y"
proof (cases as)
  case Nil
  show ?thesis
  proof (cases bs)
    case (Cons b bs')
    with assms(2) enc_head [of b] obtain c cs where "enc b = c # cs" "c \<noteq> CHR '']''" by auto
    with assms(3) Nil Cons show ?thesis by (simp add: json_array_def)
  qed (use assms(3) Nil in \<open>simp add: json_array_def\<close>)
next
  case (Cons a as')
  have "bs \<noteq> []"
  proof
    assume "bs = []"
    from assms(1) Cons enc_head [of a] obtain c cs where "enc a = c # cs" "c \<noteq> CHR '']''" by auto
    with assms(3) Cons \<open>bs = []\<close> show False by (simp add: json_array_def)
  qed
  then obtain b bs' where bs: "bs = b # bs'" by (cases bs) auto
  have "enc a @ concat (map (\<lambda>a. CHR '','' # enc a) as') @ CHR '']'' # x
      = enc b @ concat (map (\<lambda>a. CHR '','' # enc a) bs') @ CHR '']'' # y"
    using assms(3) by (simp add: json_array_def Cons bs)
  with enc_inject [of a b] assms(1,2) have ab: "a = b"
    and rest: "concat (map (\<lambda>a. CHR '','' # enc a) as') @ CHR '']'' # x = concat (map (\<lambda>a. CHR '','' # enc a) bs') @ CHR '']'' # y"
    by (auto simp: Cons bs)
  have "as' = bs' \<and> x = y"
    by (rule seq_inject [OF _ _ _ rest]) (use assms(1,2) Cons bs in simp_all)
  with ab show ?thesis by (simp add: Cons bs)
qed

lemma array_code: "prefix_code (json_array enc) (list_all ok)"
  using array_inject by unfold_locales blast

end

interpretation literal_elements: element_code json_string valid_utf8
  by unfold_locales (simp add: json_string_def)

interpretation literal_arrays: prefix_code "json_array json_string" "list_all valid_utf8"
  by (rule literal_elements.array_code)

subsection \<open>Numbers\<close>

lemma dec_int_inject_all: "dec_int i = dec_int j \<Longrightarrow> i = j"
proof -
  have nd: "CHR ''-'' \<notin> set (dec_nat n)" for n using dec_nat_digits [of n] by auto
  assume eq: "dec_int i = dec_int j"
  consider "0 \<le> i" "0 \<le> j" | "i < 0" "j < 0" | "i < 0" "0 \<le> j" | "0 \<le> i" "j < 0" by linarith
  then show "i = j"
  proof cases
    case 1
    then show ?thesis using eq dec_int_inject by blast
  next
    case 2
    with eq have "dec_nat (nat (- i)) = dec_nat (nat (- j))" by (simp add: dec_int_def)
    then have "nat (- i) = nat (- j)" by (metis read_dec_nat)
    with 2 show ?thesis by simp
  next
    case 3
    then have "dec_nat (nat j) = CHR ''-'' # dec_nat (nat (- i))" using eq by (simp add: dec_int_def)
    with nd [of "nat j"] show ?thesis by simp
  next
    case 4
    then have "dec_nat (nat i) = CHR ''-'' # dec_nat (nat (- j))" using eq by (simp add: dec_int_def)
    with nd [of "nat i"] show ?thesis by simp
  qed
qed

lemma dec_int_no: "\<lbrakk> c \<noteq> CHR ''-''; c \<notin> set ''0123456789'' \<rbrakk> \<Longrightarrow> c \<notin> set (dec_int i)"
proof -
  assume c: "c \<noteq> CHR ''-''" "c \<notin> set ''0123456789''"
  have "c \<notin> set (dec_nat n)" for n using dec_nat_digits [of n] c(2) by blast
  with c(1) show "c \<notin> set (dec_int i)" by (simp add: dec_int_def)
qed

end
