(* ===== verification/LLM_Wire.thy ===== *)
theory LLM_Wire
  imports Json_Print
begin

text \<open>
  The OpenAI-compatible wire types of \<open>internal/server/api/handlers_llm_gateway.go\<close> and
  the text a chat response is cached as (\<open>encodeChatResponse\<close>, \<open>decodeChatResponse\<close> of
  \<open>cache_integration.go\<close>).  Encoding prints the fields in the order of the struct.  The
  reader expects that order: the payloads it meets are those the encoder wrote.
\<close>

record openAIMessage =
  om_Role :: string
  om_Content :: string

text \<open>A temperature is the text of its number.\<close>

record openAIChatRequest =
  cq_Model :: string
  cq_Messages :: "openAIMessage list"
  cq_Temperature :: "string option"
  cq_MaxTokens :: "int option"
  cq_Stream :: bool

record openAIUsage =
  ou_PromptTokens :: int
  ou_CompletionTokens :: int
  ou_TotalTokens :: int

record openAIChoice =
  och_Index :: int
  och_Message :: openAIMessage
  och_FinishReason :: string

record openAIChatResponse =
  or_ID :: string
  or_Object :: string
  or_Created :: int
  or_Model :: string
  or_Choices :: "openAIChoice list"
  or_Usage :: openAIUsage

subsection \<open>Printing\<close>

definition message_text :: "openAIMessage \<Rightarrow> string" where
  "message_text m =
    ''{'' @ json_key ''role'' @ json_string (om_Role m) @ '','' @ json_key ''content'' @ json_string (om_Content m) @ ''}''"

definition choice_text :: "openAIChoice \<Rightarrow> string" where
  "choice_text c =
    ''{'' @ json_key ''index'' @ dec_int (och_Index c) @ '','' @ json_key ''message'' @ message_text (och_Message c)
      @ '','' @ json_key ''finish_reason'' @ json_string (och_FinishReason c) @ ''}''"

definition usage_text :: "openAIUsage \<Rightarrow> string" where
  "usage_text u =
    ''{'' @ json_key ''prompt_tokens'' @ dec_int (ou_PromptTokens u) @ '','' @ json_key ''completion_tokens''
      @ dec_int (ou_CompletionTokens u) @ '','' @ json_key ''total_tokens'' @ dec_int (ou_TotalTokens u) @ ''}''"

definition encodeChatResponse :: "openAIChatResponse \<Rightarrow> string" where
  "encodeChatResponse r =
    ''{'' @ json_key ''id'' @ json_string (or_ID r) @ '','' @ json_key ''object'' @ json_string (or_Object r)
      @ '','' @ json_key ''created'' @ dec_int (or_Created r) @ '','' @ json_key ''model'' @ json_string (or_Model r)
      @ '','' @ json_key ''choices'' @ json_array choice_text (or_Choices r)
      @ '','' @ json_key ''usage'' @ usage_text (or_Usage r) @ ''}''"

subsection \<open>Reading\<close>

type_synonym 'a reader = "string \<Rightarrow> ('a \<times> string) option"

definition expect :: "string \<Rightarrow> string \<Rightarrow> string option" where
  "expect w s = (if take (length w) s = w then Some (drop (length w) s) else None)"

definition rd_lit :: "string reader" where
  "rd_lit s = (case s of [] \<Rightarrow> None | q # rest \<Rightarrow> if q = CHR 0x22 then Some (scan_literal rest) else None)"

definition rd_nat :: "nat reader" where
  "rd_nat s = (let ds = takeWhile (\<lambda>c. c \<in> set ''0123456789'') s in
     if ds = [] then None else Some (read_dec ds, drop (length ds) s))"

definition rd_int :: "int reader" where
  "rd_int s = (case s of
     [] \<Rightarrow> None
   | c # t \<Rightarrow> if c = CHR ''-'' then map_option (\<lambda>(n, u). (- int n, u)) (rd_nat t)
              else map_option (\<lambda>(n, u). (int n, u)) (rd_nat s))"

text \<open>A value after a given text.\<close>

definition after :: "string \<Rightarrow> 'a reader \<Rightarrow> 'a reader" where
  "after w rd s = Option.bind (expect w s) rd"

definition rd_message :: "openAIMessage reader" where
  "rd_message s =
    Option.bind (after (''{'' @ json_key ''role'') rd_lit s) (\<lambda>(role, s).
    Option.bind (after ('','' @ json_key ''content'') rd_lit s) (\<lambda>(content, s).
    Option.bind (expect ''}'' s) (\<lambda>s. Some (\<lparr> om_Role = role, om_Content = content \<rparr>, s))))"

definition rd_choice :: "openAIChoice reader" where
  "rd_choice s =
    Option.bind (after (''{'' @ json_key ''index'') rd_int s) (\<lambda>(i, s).
    Option.bind (after ('','' @ json_key ''message'') rd_message s) (\<lambda>(m, s).
    Option.bind (after ('','' @ json_key ''finish_reason'') rd_lit s) (\<lambda>(f, s).
    Option.bind (expect ''}'' s) (\<lambda>s. Some (\<lparr> och_Index = i, och_Message = m, och_FinishReason = f \<rparr>, s)))))"

definition rd_usage :: "openAIUsage reader" where
  "rd_usage s =
    Option.bind (after (''{'' @ json_key ''prompt_tokens'') rd_int s) (\<lambda>(p, s).
    Option.bind (after ('','' @ json_key ''completion_tokens'') rd_int s) (\<lambda>(c, s).
    Option.bind (after ('','' @ json_key ''total_tokens'') rd_int s) (\<lambda>(t, s).
    Option.bind (expect ''}'' s) (\<lambda>s.
      Some (\<lparr> ou_PromptTokens = p, ou_CompletionTokens = c, ou_TotalTokens = t \<rparr>, s)))))"

text \<open>The elements of an array up to its closing bracket; the fuel is the length of the text.\<close>

fun rd_items :: "nat \<Rightarrow> 'a reader \<Rightarrow> 'a list reader" where
  "rd_items 0 rd s = None"
| "rd_items (Suc n) rd s =
    Option.bind (rd s) (\<lambda>(x, s). case s of
        [] \<Rightarrow> None
      | c # s' \<Rightarrow> if c = CHR '','' then map_option (\<lambda>(xs, t). (x # xs, t)) (rd_items n rd s')
                 else if c = CHR '']'' then Some ([x], s') else None)"

definition rd_array :: "'a reader \<Rightarrow> 'a list reader" where
  "rd_array rd s =
    Option.bind (expect ''['' s) (\<lambda>s. case s of
        [] \<Rightarrow> None
      | c # s' \<Rightarrow> if c = CHR '']'' then Some ([], s') else rd_items (length s) rd s)"

definition rd_response :: "openAIChatResponse reader" where
  "rd_response s =
    Option.bind (after (''{'' @ json_key ''id'') rd_lit s) (\<lambda>(i, s).
    Option.bind (after ('','' @ json_key ''object'') rd_lit s) (\<lambda>(ob, s).
    Option.bind (after ('','' @ json_key ''created'') rd_int s) (\<lambda>(cr, s).
    Option.bind (after ('','' @ json_key ''model'') rd_lit s) (\<lambda>(m, s).
    Option.bind (after ('','' @ json_key ''choices'') (rd_array rd_choice) s) (\<lambda>(cs, s).
    Option.bind (after ('','' @ json_key ''usage'') rd_usage s) (\<lambda>(u, s).
    Option.bind (expect ''}'' s) (\<lambda>s.
      Some (\<lparr> or_ID = i, or_Object = ob, or_Created = cr, or_Model = m, or_Choices = cs, or_Usage = u \<rparr>, s))))))))"

definition decodeChatResponse :: "string \<Rightarrow> openAIChatResponse option" where
  "decodeChatResponse payload = (case rd_response payload of Some (r, []) \<Rightarrow> Some r | _ \<Rightarrow> None)"

subsection \<open>What was printed is read back\<close>

definition message_ok :: "openAIMessage \<Rightarrow> bool" where
  "message_ok m \<longleftrightarrow> valid_utf8 (om_Role m) \<and> valid_utf8 (om_Content m)"

definition choice_ok :: "openAIChoice \<Rightarrow> bool" where
  "choice_ok c \<longleftrightarrow> message_ok (och_Message c) \<and> valid_utf8 (och_FinishReason c)"

definition response_ok :: "openAIChatResponse \<Rightarrow> bool" where
  "response_ok r \<longleftrightarrow> valid_utf8 (or_ID r) \<and> valid_utf8 (or_Object r) \<and> valid_utf8 (or_Model r) \<and>
     list_all choice_ok (or_Choices r)"

text \<open>A reader undoes a printer in front of any text a follower admits.\<close>

locale read_print =
  fixes rd :: "'a reader" and pr :: "'a \<Rightarrow> string" and ok :: "'a \<Rightarrow> bool" and follow :: "string \<Rightarrow> bool"
  assumes read_back: "ok x \<Longrightarrow> follow s \<Longrightarrow> rd (pr x @ s) = Some (x, s)"
begin

lemma after_back: "ok x \<Longrightarrow> follow s \<Longrightarrow> after w rd (w @ pr x @ s) = Some (x, s)"
  by (simp add: after_def expect_def read_back)

lemma items_back:
  assumes "\<forall>c s. c \<in> {CHR '','', CHR '']''} \<longrightarrow> follow (c # s)"
  shows "ok x \<Longrightarrow> list_all ok xs \<Longrightarrow> length xs < n \<Longrightarrow>
    rd_items n rd (pr x @ concat (map (\<lambda>x. CHR '','' # pr x) xs) @ CHR '']'' # s) = Some (x # xs, s)"
proof (induction xs arbitrary: x n)
  case Nil
  then show ?case using assms by (cases n) (simp_all add: read_back)
next
  case (Cons y ys)
  then obtain m where n: "n = Suc m" by (cases n) auto
  have "rd_items m rd (pr y @ concat (map (\<lambda>x. CHR '','' # pr x) ys) @ CHR '']'' # s) = Some (y # ys, s)"
    using Cons n by simp
  then show ?case using assms Cons.prems n by (simp add: read_back)
qed

lemma array_back:
  assumes "\<forall>c s. c \<in> {CHR '','', CHR '']''} \<longrightarrow> follow (c # s)" and "\<forall>x. pr x \<noteq> [] \<and> hd (pr x) \<noteq> CHR '']''"
    and "list_all ok xs"
  shows "rd_array rd (json_array pr xs @ s) = Some (xs, s)"
proof (cases xs)
  case (Cons x ys)
  obtain c cs where c: "pr x = c # cs" "c \<noteq> CHR '']''" using assms(2) by (metis list.collapse)
  have "length zs \<le> length (concat (map (\<lambda>x. CHR '','' # pr x) zs))" for zs
    by (induction zs) auto
  then have "length ys < length (pr x @ concat (map (\<lambda>x. CHR '','' # pr x) ys) @ CHR '']'' # s)"
    by (metis length_append length_Cons le_imp_less_Suc trans_le_add1 trans_le_add2 add_Suc_right)
  from items_back [OF assms(1) _ _ this, of x s] show ?thesis
    using assms(3) Cons c by (simp add: rd_array_def json_array_def expect_def)
qed (simp add: rd_array_def json_array_def expect_def)

end

interpretation lit_back: read_print rd_lit json_string valid_utf8 "\<lambda>s. True"
proof
  fix x s :: string assume "valid_utf8 x"
  then show "rd_lit (json_string x @ s) = Some (x, s)"
    using scan_json_string [of x s] by (simp add: rd_lit_def json_string_def)
qed

definition no_digit :: "string \<Rightarrow> bool" where
  "no_digit s \<longleftrightarrow> (case s of [] \<Rightarrow> True | c # t \<Rightarrow> c \<notin> set ''0123456789'')"

lemma rd_nat_back: "no_digit s \<Longrightarrow> rd_nat (dec_nat n @ s) = Some (n, s)"
proof -
  assume s: "no_digit s"
  let ?D = "\<lambda>c. c \<in> set ''0123456789''"
  have all: "\<forall>c \<in> set (dec_nat n). ?D c" using dec_nat_digits [of n] by blast
  have "takeWhile ?D s = []" using s by (cases s) (simp_all add: no_digit_def)
  then have "takeWhile ?D (dec_nat n @ s) = dec_nat n"
    using all takeWhile_append2 [of "dec_nat n" ?D s] by simp
  moreover have "dec_nat n \<noteq> []" by (subst dec_nat.simps) simp
  ultimately show ?thesis by (simp only: rd_nat_def Let_def read_dec_nat if_False append_eq_conv_conj append_Nil2) simp
qed

interpretation int_back: read_print rd_int dec_int "\<lambda>i. True" no_digit
proof
  fix i s assume s: "no_digit s"
  have head: "\<exists>c t. dec_nat n = c # t \<and> c \<noteq> CHR ''-''" for n
    using dec_nat_digits [of n] by (cases "dec_nat n") (auto, subst (asm) dec_nat.simps, simp split: if_splits)
  show "rd_int (dec_int i @ s) = Some (i, s)"
  proof (cases "i < 0")
    case True
    then show ?thesis using rd_nat_back [OF s, of "nat (- i)"] by (simp add: rd_int_def dec_int_def)
  next
    case False
    obtain c t where "dec_nat (nat i) = c # t" "c \<noteq> CHR ''-''" using head by blast
    then show ?thesis using rd_nat_back [OF s, of "nat i"] False by (simp add: rd_int_def dec_int_def)
  qed
qed

lemma expect_back: "expect w (w @ s) = Some s"
  by (simp add: expect_def)

lemma no_digit_seps: "no_digit (CHR '','' # s)" "no_digit (CHR ''}'' # s)"
  by (simp_all add: no_digit_def)

lemmas read_laws = after_def expect_def lit_back.read_back int_back.read_back no_digit_seps

interpretation message_back: read_print rd_message message_text message_ok "\<lambda>s. True"
  by unfold_locales (simp add: rd_message_def message_text_def message_ok_def read_laws)

interpretation choice_back: read_print rd_choice choice_text choice_ok "\<lambda>s. True"
  by unfold_locales (simp add: rd_choice_def choice_text_def choice_ok_def read_laws message_back.read_back)

interpretation usage_back: read_print rd_usage usage_text "\<lambda>u. True" "\<lambda>s. True"
  by unfold_locales (simp add: rd_usage_def usage_text_def read_laws)

lemma choices_back: "list_all choice_ok cs \<Longrightarrow> rd_array rd_choice (json_array choice_text cs @ s) = Some (cs, s)"
  by (rule choice_back.array_back) (simp_all add: choice_text_def)

lemma decode_encode: "response_ok r \<Longrightarrow> decodeChatResponse (encodeChatResponse r) = Some r"
  by (simp add: decodeChatResponse_def rd_response_def encodeChatResponse_def response_ok_def read_laws
      choices_back usage_back.read_back)

end
