(* ===== verification/LLM_Cache.thy ===== *)
theory LLM_Cache
  imports Json_Print Complex_Main
begin

text \<open>
  \<open>internal/llm/cache\<close>: the composed keys of the response cache (\<open>key.go\<close>)
  and the in-memory driver, a bounded LRU list with a map into it
  (\<open>inmem/driver.go\<close>).  An element of the list is identified by its address,
  and the map holds addresses, as in the code; the zero instant is \<^const>\<open>None\<close>.
  SHA-256 is an argument.
\<close>

subsection \<open>Keys\<close>

definition keySep :: char where "keySep = CHR 0x1F"

record cache_key =
  ck_TenantID :: string
  ck_Scope :: string
  ck_ScopeID :: string
  ck_Alias :: string
  ck_NormalizedInput :: string
  ck_Mode :: string
  ck_ExtraSalt :: string

definition Compose :: "(string \<Rightarrow> nat list) \<Rightarrow> cache_key \<Rightarrow> string" where
  "Compose sha256 k =
    (let digest = hex_encode (sha256 (ck_NormalizedInput k @ ck_ExtraSalt k)) in
     ck_TenantID k @ [keySep] @ ck_Scope k @ [keySep] @ ck_ScopeID k @ [keySep] @ ck_Alias k @ [keySep] @ digest)"

definition KeyPrefixForScope :: "string \<Rightarrow> string \<Rightarrow> string \<Rightarrow> string" where
  "KeyPrefixForScope tenantID scp scopeID = tenantID @ [keySep] @ scp @ [keySep] @ scopeID @ [keySep]"

definition KeyPrefixForTenant :: "string \<Rightarrow> string" where
  "KeyPrefixForTenant tenantID = tenantID @ [keySep]"

record NormMessage =
  nm_Role :: string
  nm_Content :: string

definition norm_message_json :: "NormMessage \<Rightarrow> string" where
  "norm_message_json m =
    ''{'' @ json_key ''role'' @ json_string (nm_Role m) @ '','' @ json_key ''content'' @ json_string (nm_Content m) @ ''}''"

text \<open>A temperature is the text of its number.\<close>

definition NormalizeChatInput :: "string \<Rightarrow> NormMessage list \<Rightarrow> string option \<Rightarrow> int option \<Rightarrow> string" where
  "NormalizeChatInput model messages temperature maxTokens =
    ''{'' @ json_key ''model'' @ json_string model @ '','' @ json_key ''messages'' @ json_array norm_message_json messages
      @ (case temperature of None \<Rightarrow> '''' | Some t \<Rightarrow> '','' @ json_key ''temperature'' @ t)
      @ (case maxTokens of None \<Rightarrow> '''' | Some n \<Rightarrow> '','' @ json_key ''max_tokens'' @ dec_int n) @ ''}''"

definition NormalizeEmbeddingInput :: "string \<Rightarrow> string list \<Rightarrow> string" where
  "NormalizeEmbeddingInput model input =
    ''{'' @ json_key ''model'' @ json_string model @ '','' @ json_key ''input'' @ json_array json_string input @ ''}''"

subsection \<open>The in-memory driver\<close>

record cache_entry =
  cen_Payload :: string
  cen_Mode :: string
  cen_CreatedAt :: "time option"
  cen_ExpiresAt :: "time option"
  cen_Tokens :: int
  cen_CostUSD :: rat

record cache_node =
  nd_key :: string
  nd_tenantID :: string
  nd_scope :: string
  nd_scopeID :: string
  nd_alias :: string
  nd_entry :: cache_entry

record mem_cache =
  mc_maxEntries :: int
  mc_ttl :: duration
  mc_items :: "(string, nat) amap"
  mc_ll :: "(nat \<times> cache_node) list"
  mc_next :: nat
  mc_hits :: int
  mc_misses :: int

text \<open>The options of the driver's configuration block, as YAML and JSON decode them.\<close>

datatype opt_value = OptInt int | OptInt64 int | OptFloat rat | OptString string | OptDuration duration

definition intOpt :: "(string \<Rightarrow> int option) \<Rightarrow> (string, opt_value) amap \<Rightarrow> string \<Rightarrow> int \<Rightarrow> int" where
  "intOpt atoi cfg key def =
    (case aget cfg key of
       Some (OptInt t) \<Rightarrow> if 0 < t then t else def
     | Some (OptInt64 t) \<Rightarrow> if 0 < t then t else def
     | Some (OptFloat t) \<Rightarrow> if 0 < t then \<lfloor>t\<rfloor> else def
     | Some (OptString s) \<Rightarrow> (case atoi s of Some n \<Rightarrow> if 0 < n then n else def | None \<Rightarrow> def)
     | _ \<Rightarrow> def)"

definition durOpt :: "(string \<Rightarrow> duration option) \<Rightarrow> (string, opt_value) amap \<Rightarrow> string \<Rightarrow> duration \<Rightarrow> duration" where
  "durOpt parseDuration cfg key def =
    (case aget cfg key of
       Some (OptDuration t) \<Rightarrow> if 0 < t then t else def
     | Some (OptString s) \<Rightarrow> (case parseDuration s of Some d \<Rightarrow> if 0 < d then d else def | None \<Rightarrow> def)
     | Some (OptInt t) \<Rightarrow> if 0 < t then t * second else def
     | Some (OptFloat t) \<Rightarrow> if 0 < t then \<lfloor>t\<rfloor> * second else def
     | _ \<Rightarrow> def)"

definition newDriver ::
  "(string \<Rightarrow> int option) \<Rightarrow> (string \<Rightarrow> duration option) \<Rightarrow> (string, opt_value) amap \<Rightarrow> mem_cache" where
  "newDriver atoi parseDuration cfg = \<lparr>
    mc_maxEntries = intOpt atoi cfg ''max_entries'' 1024,
    mc_ttl = durOpt parseDuration cfg ''default_ttl'' (5 * minute),
    mc_items = [], mc_ll = [], mc_next = 0, mc_hits = 0, mc_misses = 0 \<rparr>"

definition nodeOf :: "mem_cache \<Rightarrow> nat \<Rightarrow> cache_node option" where
  "nodeOf c el = map_of (mc_ll c) el"

definition removeElement :: "nat \<Rightarrow> mem_cache \<Rightarrow> mem_cache" where
  "removeElement el c =
    (case nodeOf c el of
       None \<Rightarrow> c
     | Some n \<Rightarrow> c \<lparr> mc_ll := filter (\<lambda>p. fst p \<noteq> el) (mc_ll c), mc_items := adel (nd_key n) (mc_items c) \<rparr>)"

definition moveToFront :: "nat \<Rightarrow> cache_node \<Rightarrow> mem_cache \<Rightarrow> mem_cache" where
  "moveToFront el n c = c \<lparr> mc_ll := (el, n) # filter (\<lambda>p. fst p \<noteq> el) (mc_ll c) \<rparr>"

definition expired :: "time \<Rightarrow> cache_entry \<Rightarrow> bool" where
  "expired now e = (case cen_ExpiresAt e of None \<Rightarrow> False | Some t \<Rightarrow> t < now)"

definition mem_Lookup ::
  "(string \<Rightarrow> nat list) \<Rightarrow> time \<Rightarrow> cache_key \<Rightarrow> mem_cache \<Rightarrow> cache_entry option \<times> mem_cache" where
  "mem_Lookup sha now key c =
    (let miss = c \<lparr> mc_misses := mc_misses c + 1 \<rparr> in
     if ck_Mode key = ''semantic'' then (None, miss)
     else case aget (mc_items c) (Compose sha key) of
       None \<Rightarrow> (None, miss)
     | Some el \<Rightarrow>
         (case nodeOf c el of
            None \<Rightarrow> (None, miss)
          | Some n \<Rightarrow>
              if expired now (nd_entry n)
              then (None, (removeElement el c) \<lparr> mc_misses := mc_misses c + 1 \<rparr>)
              else if nd_tenantID n \<noteq> ck_TenantID key then (None, miss)
              else (Some (nd_entry n), (moveToFront el n c) \<lparr> mc_hits := mc_hits c + 1 \<rparr>)))"

text \<open>\<open>evictLocked\<close>: a loop that runs until the list fits.\<close>

partial_function (option) evict_loop :: "mem_cache \<Rightarrow> mem_cache option" where
  "evict_loop c =
    (if mc_maxEntries c < int (length (mc_ll c))
     then (if mc_ll c = [] then Some c else evict_loop (removeElement (fst (last (mc_ll c))) c))
     else Some c)"

definition evictLocked :: "mem_cache \<Rightarrow> mem_cache option" where
  "evictLocked c = (if mc_maxEntries c \<le> 0 then Some c else evict_loop c)"

definition entry_defaults :: "time \<Rightarrow> duration \<Rightarrow> cache_entry \<Rightarrow> cache_entry" where
  "entry_defaults now ttl e =
    e \<lparr> cen_ExpiresAt := (case cen_ExpiresAt e of None \<Rightarrow> Some (now + ttl) | t \<Rightarrow> t),
        cen_CreatedAt := (case cen_CreatedAt e of None \<Rightarrow> Some now | t \<Rightarrow> t) \<rparr>"

definition node_for :: "(string \<Rightarrow> nat list) \<Rightarrow> cache_key \<Rightarrow> cache_entry \<Rightarrow> cache_node" where
  "node_for sha key e = \<lparr> nd_key = Compose sha key, nd_tenantID = ck_TenantID key, nd_scope = ck_Scope key,
     nd_scopeID = ck_ScopeID key, nd_alias = ck_Alias key, nd_entry = e \<rparr>"

definition mem_Store ::
  "(string \<Rightarrow> nat list) \<Rightarrow> time \<Rightarrow> cache_key \<Rightarrow> cache_entry \<Rightarrow> mem_cache \<Rightarrow> mem_cache option" where
  "mem_Store sha now key entry0 c =
    (let ck = Compose sha key; entry = entry_defaults now (mc_ttl c) entry0 in
     case aget (mc_items c) ck of
       Some el \<Rightarrow>
         Some (case nodeOf c el of None \<Rightarrow> c | Some n \<Rightarrow> moveToFront el (n \<lparr> nd_entry := entry \<rparr>) c)
     | None \<Rightarrow>
         let el = mc_next c in
         evictLocked (c \<lparr> mc_ll := (el, node_for sha key entry) # mc_ll c,
           mc_items := aput ck el (mc_items c), mc_next := el + 1 \<rparr>))"

record cache_prefix =
  cp_TenantID :: string
  cp_Alias :: string
  cp_ScopeID :: string
  cp_All :: bool

definition matchPrefix :: "cache_node \<Rightarrow> cache_prefix \<Rightarrow> bool" where
  "matchPrefix n p =
    (if cp_All p then True
     else if cp_Alias p \<noteq> '''' then nd_alias n = cp_Alias p
     else if cp_ScopeID p \<noteq> '''' then nd_scopeID n = cp_ScopeID p
     else True)"

text \<open>The walk of \<open>Invalidate\<close> from the back of the list; the elements are those present at its start.\<close>

fun invalidate_walk :: "cache_prefix \<Rightarrow> (nat \<times> cache_node) list \<Rightarrow> nat \<times> mem_cache \<Rightarrow> nat \<times> mem_cache" where
  "invalidate_walk p [] acc = acc"
| "invalidate_walk p ((el, n) # els) (removed, c) =
    (if nd_tenantID n = cp_TenantID p \<and> matchPrefix n p
     then invalidate_walk p els (removed + 1, removeElement el c)
     else invalidate_walk p els (removed, c))"

definition mem_Invalidate :: "cache_prefix \<Rightarrow> mem_cache \<Rightarrow> nat \<times> mem_cache" where
  "mem_Invalidate p c = (if cp_TenantID p = '''' then (0, c) else invalidate_walk p (rev (mc_ll c)) (0, c))"

record cache_stats =
  cst_Entries :: nat
  cst_HitRate :: rat
  cst_Driver :: string

definition mem_Stats :: "time \<Rightarrow> string \<Rightarrow> mem_cache \<Rightarrow> cache_stats" where
  "mem_Stats now tenantID c = \<lparr>
    cst_Entries = length (filter (\<lambda>(el, n). nd_tenantID n = tenantID \<and> \<not> expired now (nd_entry n)) (mc_ll c)),
    cst_HitRate = (let total = mc_hits c + mc_misses c in if 0 < total then of_int (mc_hits c) / of_int total else 0),
    cst_Driver = ''inmem'' \<rparr>"

definition mem_Close :: "mem_cache \<Rightarrow> mem_cache" where
  "mem_Close c = c \<lparr> mc_items := [], mc_ll := [] \<rparr>"

subsection \<open>Keys are unambiguous\<close>

definition bytes_ok :: "nat list \<Rightarrow> bool" where
  "bytes_ok bs = list_all (\<lambda>b. b < 256) bs"

definition key_ok :: "cache_key \<Rightarrow> bool" where
  "key_ok k \<longleftrightarrow> keySep \<notin> set (ck_TenantID k) \<and> keySep \<notin> set (ck_Scope k) \<and> keySep \<notin> set (ck_ScopeID k)"

lemma hex_digit_in: "hex_digit n \<in> set ''0123456789abcdef''"
  unfolding hex_digit_def by (rule nth_mem) simp

lemma hex_encode_chars: "c \<in> set (hex_encode bs) \<Longrightarrow> c \<in> set ''0123456789abcdef''"
proof -
  assume "c \<in> set (hex_encode bs)"
  then have "\<exists>b. c = hex_digit (b div 16) \<or> c = hex_digit (b mod 16)" by (auto simp: hex_encode_def)
  then show ?thesis using hex_digit_in by metis
qed

lemma hex_no_sep: "keySep \<notin> set (hex_encode bs)"
proof
  assume "keySep \<in> set (hex_encode bs)"
  then have "keySep \<in> set ''0123456789abcdef''" by (rule hex_encode_chars)
  then show False by (simp add: keySep_def)
qed

lemma hex_encode_inject: "\<lbrakk> bytes_ok a; bytes_ok b; hex_encode a = hex_encode b \<rbrakk> \<Longrightarrow> a = b"
proof (induction a arbitrary: b)
  case Nil
  then show ?case by (metis hex_encode_eq_Nil)
next
  case (Cons x a)
  then obtain y b' where b: "b = y # b'" by (cases b) (auto simp: hex_encode_def)
  with Cons.prems have eq: "hex_digit (x div 16) = hex_digit (y div 16)" "hex_digit (x mod 16) = hex_digit (y mod 16)"
    "hex_encode a = hex_encode b'" and lt: "x < 256" "y < 256"
    by (simp_all add: hex_encode_def bytes_ok_def)
  have "x div 16 < 16" "y div 16 < 16" "x mod 16 < 16" "y mod 16 < 16" using lt by simp_all
  then have "x div 16 = y div 16" "x mod 16 = y mod 16" using eq(1,2) hex_val_digit by metis+
  then have "x = y" by (metis div_mod_decomp)
  with Cons b eq(3) show ?case by (simp add: bytes_ok_def)
qed

text \<open>Without a separator on the right, the last separator splits the string.\<close>

lemma last_sep_inject:
  assumes "c \<notin> set x" and "c \<notin> set y" and "a @ c # x = b @ c # y"
  shows "a = b \<and> x = y"
proof -
  have "rev x @ c # rev a = rev y @ c # rev b" using arg_cong [OF assms(3), of rev] by simp
  then show ?thesis using sep_inject [of c "rev x" "rev y" "rev a" "rev b"] assms(1,2) by simp
qed

lemma Compose_inject:
  assumes "key_ok k" and "key_ok k'" and "\<forall>s. bytes_ok (sha s)"
  shows "Compose sha k = Compose sha k' \<longleftrightarrow>
    ck_TenantID k = ck_TenantID k' \<and> ck_Scope k = ck_Scope k' \<and> ck_ScopeID k = ck_ScopeID k' \<and> ck_Alias k = ck_Alias k' \<and>
    sha (ck_NormalizedInput k @ ck_ExtraSalt k) = sha (ck_NormalizedInput k' @ ck_ExtraSalt k')"
proof
  assume "Compose sha k = Compose sha k'"
  then have eq: "ck_TenantID k @ keySep # ck_Scope k @ keySep # ck_ScopeID k @ keySep # ck_Alias k @ keySep #
        hex_encode (sha (ck_NormalizedInput k @ ck_ExtraSalt k))
      = ck_TenantID k' @ keySep # ck_Scope k' @ keySep # ck_ScopeID k' @ keySep # ck_Alias k' @ keySep #
        hex_encode (sha (ck_NormalizedInput k' @ ck_ExtraSalt k'))"
    by (simp add: Compose_def Let_def)
  have s: "keySep \<notin> set (ck_TenantID k)" "keySep \<notin> set (ck_Scope k)" "keySep \<notin> set (ck_ScopeID k)"
    "keySep \<notin> set (ck_TenantID k')" "keySep \<notin> set (ck_Scope k')" "keySep \<notin> set (ck_ScopeID k')"
    using assms(1,2) by (simp_all add: key_ok_def)
  from eq have fld: "ck_TenantID k = ck_TenantID k'" "ck_Scope k = ck_Scope k'" "ck_ScopeID k = ck_ScopeID k'"
    and tail: "ck_Alias k @ keySep # hex_encode (sha (ck_NormalizedInput k @ ck_ExtraSalt k))
      = ck_Alias k' @ keySep # hex_encode (sha (ck_NormalizedInput k' @ ck_ExtraSalt k'))"
    by (simp_all only: sep_inject [OF s(1,4)] sep_inject [OF s(2,5)] sep_inject [OF s(3,6)])
  from last_sep_inject [OF hex_no_sep hex_no_sep tail] hex_encode_inject [OF assms(3) [rule_format] assms(3) [rule_format]] fld
  show "ck_TenantID k = ck_TenantID k' \<and> ck_Scope k = ck_Scope k' \<and> ck_ScopeID k = ck_ScopeID k' \<and> ck_Alias k = ck_Alias k' \<and>
    sha (ck_NormalizedInput k @ ck_ExtraSalt k) = sha (ck_NormalizedInput k' @ ck_ExtraSalt k')"
    by blast
qed (simp add: Compose_def)

subsection \<open>The normalised request\<close>

definition msg_ok :: "NormMessage \<Rightarrow> bool" where
  "msg_ok m \<longleftrightarrow> valid_utf8 (nm_Role m) \<and> valid_utf8 (nm_Content m)"

definition number_text :: "string \<Rightarrow> bool" where
  "number_text t \<longleftrightarrow> CHR '','' \<notin> set t \<and> CHR ''}'' \<notin> set t"

lemma message_inject:
  "\<lbrakk> msg_ok a; msg_ok b; norm_message_json a @ x = norm_message_json b @ y \<rbrakk> \<Longrightarrow> a = b \<and> x = y"
  by (cases a; cases b) (simp add: norm_message_json_def msg_ok_def literals.enc_eq_iff)

interpretation messages: element_code norm_message_json msg_ok
proof (unfold_locales, goal_cases)
  case (1 a b x y)
  then show ?case by (rule message_inject)
next
  case (2 a)
  then show ?case by (simp add: norm_message_json_def)
qed

lemma until_inject:
  assumes "\<And>c. c \<in> {p, q} \<Longrightarrow> c \<notin> set a \<and> c \<notin> set b" and "u \<in> {p, q}" and "v \<in> {p, q}" and "a @ u # x = b @ v # y"
  shows "a = b \<and> u # x = v # y"
  using assms
proof (induction a arbitrary: b)
  case Nil
  then show ?case by (cases b) auto
next
  case (Cons c a)
  then show ?case by (cases b) auto
qed

definition max_tail :: "int option \<Rightarrow> string" where
  "max_tail maxTokens =
    (case maxTokens of None \<Rightarrow> '''' | Some n \<Rightarrow> '','' @ json_key ''max_tokens'' @ dec_int n) @ ''}''"

definition chat_tail :: "string option \<Rightarrow> int option \<Rightarrow> string" where
  "chat_tail temperature maxTokens =
    (case temperature of None \<Rightarrow> '''' | Some t \<Rightarrow> '','' @ json_key ''temperature'' @ t) @ max_tail maxTokens"

lemma json_key_lits:
  "json_key ''temperature'' = CHR 0x22 # CHR ''t'' # ''emperature'' @ [CHR 0x22, CHR '':'']"
  "json_key ''max_tokens'' = CHR 0x22 # CHR ''m'' # ''ax_tokens'' @ [CHR 0x22, CHR '':'']"
  by code_simp+

lemma dec_int_number: "number_text (dec_int n)"
  unfolding number_text_def by (intro conjI dec_int_no) simp_all

lemma max_tail_inject: "max_tail m = max_tail m' \<Longrightarrow> m = m'"
  by (cases m; cases m') (auto simp: max_tail_def dest: dec_int_inject_all)

lemma chat_tail_inject:
  assumes "\<And>x. t = Some x \<Longrightarrow> number_text x" and "\<And>x. t' = Some x \<Longrightarrow> number_text x" and "chat_tail t m = chat_tail t' m'"
  shows "t = t' \<and> m = m'"
proof -
  have M: "\<exists>u x. u \<in> {CHR '','', CHR ''}''} \<and> max_tail m = u # x" for m by (cases m) (auto simp: max_tail_def)
  consider "t = None" "t' = None" | x where "t = Some x" "t' = None" | x where "t = None" "t' = Some x"
    | x x' where "t = Some x" "t' = Some x'" by (cases t; cases t') auto
  then show ?thesis
  proof cases
    case 1
    then show ?thesis using assms(3) max_tail_inject [of m m'] by (simp add: chat_tail_def)
  next
    case (2 x)
    then show ?thesis using assms(3) by (cases m') (simp_all add: chat_tail_def max_tail_def json_key_lits)
  next
    case (3 x)
    then show ?thesis using assms(3) by (cases m) (simp_all add: chat_tail_def max_tail_def json_key_lits)
  next
    case (4 x x')
    from M [of m] obtain u z where u: "u \<in> {CHR '','', CHR ''}''}" "max_tail m = u # z" by (elim exE conjE)
    from M [of m'] obtain u' z' where u': "u' \<in> {CHR '','', CHR ''}''}" "max_tail m' = u' # z'" by (elim exE conjE)
    have "x @ u # z = x' @ u' # z'"
      using assms(3) by (simp only: 4 chat_tail_def option.case append_assoc same_append_eq u(2) u'(2))
    moreover have "c \<notin> set x \<and> c \<notin> set x'" if "c \<in> {CHR '','', CHR ''}''}" for c
      using assms(1) [OF 4(1)] assms(2) [OF 4(2)] that by (auto simp: number_text_def)
    ultimately have "x = x' \<and> u # z = u' # z'"
      by (intro until_inject [OF _ u(1) u'(1)]) simp_all
    then have "x = x'" "u # z = u' # z'" by simp_all
    with 4 u u' max_tail_inject [of m m'] show ?thesis by simp
  qed
qed

lemma NormalizeChatInput_inject:
  assumes "valid_utf8 a" "valid_utf8 a'" "list_all msg_ok ms" "list_all msg_ok ms'"
    and "\<And>x. t = Some x \<Longrightarrow> number_text x" and "\<And>x. t' = Some x \<Longrightarrow> number_text x"
  shows "NormalizeChatInput a ms t m = NormalizeChatInput a' ms' t' m' \<longleftrightarrow> a = a' \<and> ms = ms' \<and> t = t' \<and> m = m'"
proof
  assume eq: "NormalizeChatInput a ms t m = NormalizeChatInput a' ms' t' m'"
  have N: "NormalizeChatInput a ms t m = ''{'' @ json_key ''model'' @ json_string a @ '','' @ json_key ''messages''
      @ json_array norm_message_json ms @ chat_tail t m" for a ms t m
    by (simp add: NormalizeChatInput_def chat_tail_def max_tail_def)
  from eq have "json_string a @ '','' @ json_key ''messages'' @ json_array norm_message_json ms @ chat_tail t m
    = json_string a' @ '','' @ json_key ''messages'' @ json_array norm_message_json ms' @ chat_tail t' m'"
    by (simp only: N same_append_eq)
  then have "a = a'" "json_array norm_message_json ms @ chat_tail t m = json_array norm_message_json ms' @ chat_tail t' m'"
    by (simp_all only: literals.enc_eq_iff [OF assms(1,2)] same_append_eq)
  then show "a = a' \<and> ms = ms' \<and> t = t' \<and> m = m'"
    using messages.array_inject [OF assms(3,4)] chat_tail_inject [OF assms(5,6)] by blast
qed simp

subsection \<open>The map and the list agree\<close>

definition links :: "mem_cache \<Rightarrow> bool" where
  "links c \<longleftrightarrow>
    distinct (map fst (mc_ll c)) \<and> distinct (map (nd_key \<circ> snd) (mc_ll c)) \<and>
    (\<forall>k el. aget (mc_items c) k = Some el \<longleftrightarrow> (\<exists>n. (el, n) \<in> set (mc_ll c) \<and> nd_key n = k)) \<and>
    (\<forall>p \<in> set (mc_ll c). fst p < mc_next c)"

definition fits :: "mem_cache \<Rightarrow> bool" where
  "fits c \<longleftrightarrow> (0 < mc_maxEntries c \<longrightarrow> int (length (mc_ll c)) \<le> mc_maxEntries c)"

definition nodes :: "mem_cache \<Rightarrow> cache_node list" where
  "nodes c = map snd (mc_ll c)"

lemma linksD:
  assumes "links c"
  shows "distinct (map fst (mc_ll c))" "distinct (map (nd_key \<circ> snd) (mc_ll c))"
    "aget (mc_items c) k = Some el \<longleftrightarrow> (\<exists>n. (el, n) \<in> set (mc_ll c) \<and> nd_key n = k)"
    "(el, n) \<in> set (mc_ll c) \<Longrightarrow> el < mc_next c"
  using assms by (auto simp: links_def)

lemma nodeOf_mem: "links c \<Longrightarrow> nodeOf c el = Some n \<longleftrightarrow> (el, n) \<in> set (mc_ll c)"
  by (simp add: nodeOf_def links_def)

lemma key_unique: "\<lbrakk> links c; p \<in> set (mc_ll c); q \<in> set (mc_ll c); nd_key (snd p) = nd_key (snd q) \<rbrakk> \<Longrightarrow> p = q"
  using linksD(2) [of c] by (auto simp: distinct_map inj_on_def)

lemma el_unique: "\<lbrakk> links c; p \<in> set (mc_ll c); q \<in> set (mc_ll c); fst p = fst q \<rbrakk> \<Longrightarrow> p = q"
  using linksD(1) [of c] by (auto simp: distinct_map inj_on_def)

lemma find_node:
  assumes "links c"
  shows "(case aget (mc_items c) ck of None \<Rightarrow> None | Some el \<Rightarrow> nodeOf c el) = List.find (\<lambda>n. nd_key n = ck) (nodes c)"
proof (cases "aget (mc_items c) ck")
  case None
  have "nd_key n \<noteq> ck" if "n \<in> set (nodes c)" for n
  proof
    assume "nd_key n = ck"
    moreover from that obtain el where "(el, n) \<in> set (mc_ll c)" by (auto simp: nodes_def)
    ultimately have "aget (mc_items c) ck = Some el" using linksD(3) [OF assms] by blast
    with None show False by simp
  qed
  then have "List.find (\<lambda>n. nd_key n = ck) (nodes c) = None" by (simp add: find_None_all)
  with None show ?thesis by simp
next
  case (Some el)
  then obtain n where n: "(el, n) \<in> set (mc_ll c)" "nd_key n = ck" using linksD(3) [OF assms] by blast
  have "distinct (map nd_key (nodes c))" using linksD(2) [OF assms] by (simp add: nodes_def)
  moreover have "n \<in> set (nodes c)" using n(1) by (force simp: nodes_def)
  ultimately have "List.find (\<lambda>n. nd_key n = ck) (nodes c) = Some n"
    using n(2) find_key [of nd_key "nodes c" ck n] by simp
  with Some nodeOf_mem [OF assms] n(1) show ?thesis by simp
qed

lemma removeElement_fields [simp]:
  "mc_maxEntries (removeElement el c) = mc_maxEntries c" "mc_ttl (removeElement el c) = mc_ttl c"
  "mc_next (removeElement el c) = mc_next c" "mc_hits (removeElement el c) = mc_hits c"
  "mc_misses (removeElement el c) = mc_misses c"
  by (simp_all add: removeElement_def split: option.splits)

lemma removeElement_ll:
  assumes "links c"
  shows "mc_ll (removeElement el c) = filter (\<lambda>p. fst p \<noteq> el) (mc_ll c)"
proof (cases "nodeOf c el")
  case None
  then have "\<forall>p \<in> set (mc_ll c). fst p \<noteq> el" using nodeOf_mem [OF assms] by (auto simp: nodeOf_def map_of_eq_None_iff)
  then show ?thesis using None by (simp add: removeElement_def)
qed (simp add: removeElement_def)

lemma removeElement_links:
  assumes "links c"
  shows "links (removeElement el c)"
proof (cases "nodeOf c el")
  case (Some n)
  then have n: "(el, n) \<in> set (mc_ll c)" using nodeOf_mem [OF assms] by simp
  have items: "mc_items (removeElement el c) = adel (nd_key n) (mc_items c)" using Some by (simp add: removeElement_def)
  have "aget (mc_items (removeElement el c)) k = Some e \<longleftrightarrow>
      (\<exists>m. (e, m) \<in> set (mc_ll (removeElement el c)) \<and> nd_key m = k)" (is "?L \<longleftrightarrow> ?R") for k e
  proof
    assume ?L
    then have k: "k \<noteq> nd_key n" "aget (mc_items c) k = Some e" by (auto simp: items split: if_splits)
    then obtain m where m: "(e, m) \<in> set (mc_ll c)" "nd_key m = k" using linksD(3) [OF assms] by blast
    with k(1) el_unique [OF assms n m(1)] have "e \<noteq> el" by auto
    with m show ?R by (auto simp: removeElement_ll [OF assms])
  next
    assume ?R
    then obtain m where m: "(e, m) \<in> set (mc_ll c)" "e \<noteq> el" "nd_key m = k" by (auto simp: removeElement_ll [OF assms])
    with key_unique [OF assms n m(1)] have "k \<noteq> nd_key n" by auto
    moreover have "aget (mc_items c) k = Some e" using m(1,3) linksD(3) [OF assms] by blast
    ultimately show ?L by (simp add: items)
  qed
  moreover have "distinct (map (nd_key \<circ> snd) (mc_ll (removeElement el c)))" "distinct (map fst (mc_ll (removeElement el c)))"
    using linksD(1,2) [OF assms] by (simp_all add: removeElement_ll [OF assms] distinct_map_filter)
  ultimately show ?thesis
    using linksD(4) [OF assms] by (auto simp: links_def removeElement_ll [OF assms])
qed (use assms in \<open>simp add: removeElement_def\<close>)

lemma moveToFront_links:
  assumes "links c" and "(el, n0) \<in> set (mc_ll c)" and "nd_key n = nd_key n0"
  shows "links (moveToFront el n c)"
proof -
  let ?rest = "filter (\<lambda>p. fst p \<noteq> el) (mc_ll c)"
  have rest: "distinct (map fst ?rest)" "distinct (map (nd_key \<circ> snd) ?rest)"
    using linksD(1,2) [OF assms(1)] by (simp_all add: distinct_map_filter)
  have key: "nd_key (snd p) \<noteq> nd_key n" if "p \<in> set ?rest" for p
    using key_unique [OF assms(1,2), of p] that assms(3) by auto
  have items: "aget (mc_items c) k = Some e \<longleftrightarrow> (\<exists>m. (e, m) \<in> set ((el, n) # ?rest) \<and> nd_key m = k)" (is "?L \<longleftrightarrow> ?R") for k e
  proof
    assume ?L
    then obtain m where m: "(e, m) \<in> set (mc_ll c)" "nd_key m = k" using linksD(3) [OF assms(1)] by blast
    show ?R
    proof (cases "e = el")
      case True
      with el_unique [OF assms(1,2) m(1)] m(2) assms(3) show ?thesis by auto
    next
      case False
      with m show ?thesis by auto
    qed
  next
    assume ?R
    then consider "e = el" "nd_key n = k" | m where "(e, m) \<in> set (mc_ll c)" "nd_key m = k" by auto
    then show ?L
    proof cases
      case 1
      with assms(2,3) linksD(3) [OF assms(1)] show ?thesis by auto
    next
      case (2 m)
      with linksD(3) [OF assms(1)] show ?thesis by auto
    qed
  qed
  have "nd_key n \<notin> (nd_key \<circ> snd) ` set ?rest"
  proof
    assume "nd_key n \<in> (nd_key \<circ> snd) ` set ?rest"
    then obtain p where p: "nd_key n = (nd_key \<circ> snd) p" "p \<in> set ?rest" by (rule imageE)
    from key [OF p(2)] p(1) show False by simp
  qed
  then have dist: "distinct (map fst ((el, n) # ?rest))" "distinct (map (nd_key \<circ> snd) ((el, n) # ?rest))"
    using rest by auto
  have "\<forall>p \<in> set ((el, n) # ?rest). fst p < mc_next c" using linksD(4) [OF assms(1)] assms(2) by auto
  moreover have "mc_ll (moveToFront el n c) = (el, n) # ?rest" "mc_items (moveToFront el n c) = mc_items c"
    "mc_next (moveToFront el n c) = mc_next c" by (simp_all add: moveToFront_def)
  ultimately show ?thesis unfolding links_def using dist items by (simp only: simp_thms)
qed

subsection \<open>Eviction ends\<close>

lemma filter_last:
  "\<lbrakk> distinct (map f xs); xs \<noteq> [] \<rbrakk> \<Longrightarrow> filter (\<lambda>p. f p \<noteq> f (last xs)) xs = butlast xs"
proof (induction xs)
  case (Cons x xs)
  then show ?case by (cases xs) auto
qed simp

lemma evict_loop_take:
  assumes "links c" and "0 < mc_maxEntries c"
  shows "\<exists>c'. evict_loop c = Some c' \<and> links c' \<and> mc_ll c' = take (nat (mc_maxEntries c)) (mc_ll c) \<and>
    mc_maxEntries c' = mc_maxEntries c \<and> mc_ttl c' = mc_ttl c"
  using assms
proof (induction "length (mc_ll c)" arbitrary: c rule: less_induct)
  case less
  show ?case
  proof (cases "mc_maxEntries c < int (length (mc_ll c))")
    case True
    then have ne: "mc_ll c \<noteq> []" using less.prems(2) by auto
    define c1 where "c1 = removeElement (fst (last (mc_ll c))) c"
    have ll: "mc_ll c1 = butlast (mc_ll c)"
      using filter_last [OF linksD(1) [OF less.prems(1)] ne] by (simp add: c1_def removeElement_ll [OF less.prems(1)])
    have "length (mc_ll c1) < length (mc_ll c)" using ne by (simp add: ll)
    from less.hyps [OF this] less.prems(2) removeElement_links [OF less.prems(1)]
    obtain c' where c': "evict_loop c1 = Some c'" "links c'" "mc_ll c' = take (nat (mc_maxEntries c)) (mc_ll c1)"
      "mc_maxEntries c' = mc_maxEntries c" "mc_ttl c' = mc_ttl c"
      by (auto simp: c1_def)
    have "take (nat (mc_maxEntries c)) (butlast (mc_ll c)) = take (nat (mc_maxEntries c)) (mc_ll c)"
      using True less.prems(2) by (intro take_butlast) linarith
    with c' True ne show ?thesis
      by (subst evict_loop.simps) (simp add: c1_def [symmetric] ll)
  next
    case False
    then show ?thesis using less.prems by (subst evict_loop.simps) simp
  qed
qed

text \<open>C38: the eviction loop ends on every consistent cache, and leaves the most recently used entries, as many
  as the capacity admits, with the map and the list still in agreement; with no capacity set it leaves all.\<close>

theorem eviction_terminates:
  assumes "links c"
  shows "\<exists>c'. evictLocked c = Some c' \<and> links c' \<and> fits c' \<and>
    mc_ll c' = (if mc_maxEntries c \<le> 0 then mc_ll c else take (nat (mc_maxEntries c)) (mc_ll c))"
  using evict_loop_take [OF assms] assms by (auto simp: evictLocked_def fits_def)

text \<open>Three entries where two fit: the least recently used one goes.\<close>

definition demo_node :: "string \<Rightarrow> cache_node" where
  "demo_node k = \<lparr> nd_key = k, nd_tenantID = ''acme'', nd_scope = ''tenant'', nd_scopeID = ''acme'', nd_alias = ''fast'',
     nd_entry = \<lparr> cen_Payload = k, cen_Mode = ''exact'', cen_CreatedAt = Some 0, cen_ExpiresAt = None, cen_Tokens = 0, cen_CostUSD = 0 \<rparr> \<rparr>"

definition full_cache :: mem_cache where
  "full_cache = (newDriver (\<lambda>_. None) (\<lambda>_. None) [(''max_entries'', OptInt 2)]) \<lparr>
     mc_items := [(''a'', 0), (''b'', 1), (''c'', 2)],
     mc_ll := [(2, demo_node ''c''), (0, demo_node ''a''), (1, demo_node ''b'')], mc_next := 3 \<rparr>"

theorem eviction_terminates_witness:
  "\<exists>c'. evictLocked full_cache = Some c' \<and> links c' \<and> fits c' \<and> mc_ll c' = [(2, demo_node ''c''), (0, demo_node ''a'')]"
proof -
  have key: "nd_key (demo_node k) = k" for k by (simp add: demo_node_def)
  have "aget (mc_items full_cache) k = Some el \<longleftrightarrow> k = ''a'' \<and> el = 0 \<or> k = ''b'' \<and> el = 1 \<or> k = ''c'' \<and> el = 2" for k el
    by (simp add: full_cache_def) metis
  moreover have "(\<exists>n. (el, n) \<in> set (mc_ll full_cache) \<and> nd_key n = k) \<longleftrightarrow>
      k = ''a'' \<and> el = 0 \<or> k = ''b'' \<and> el = 1 \<or> k = ''c'' \<and> el = 2" for k el
    unfolding full_cache_def by (simp add: ex_disj_distrib conj_disj_distribR key) blast
  ultimately have "links full_cache"
    unfolding links_def by simp (simp add: full_cache_def key)
  from eviction_terminates [OF this] show ?thesis
    by (simp add: full_cache_def newDriver_def intOpt_def)
qed

subsection \<open>Refinement of a plain LRU list\<close>

text \<open>The specification has no addresses and no map: a list of nodes, the most recently used one first.\<close>

definition without :: "string \<Rightarrow> cache_node list \<Rightarrow> cache_node list" where
  "without ck xs = filter (\<lambda>n. nd_key n \<noteq> ck) xs"

definition lru_lookup ::
  "(string \<Rightarrow> nat list) \<Rightarrow> time \<Rightarrow> cache_key \<Rightarrow> cache_node list \<Rightarrow> cache_entry option \<times> cache_node list" where
  "lru_lookup sha now key xs =
    (if ck_Mode key = ''semantic'' then (None, xs)
     else case List.find (\<lambda>n. nd_key n = Compose sha key) xs of
       None \<Rightarrow> (None, xs)
     | Some n \<Rightarrow>
         if expired now (nd_entry n) then (None, without (Compose sha key) xs)
         else if nd_tenantID n \<noteq> ck_TenantID key then (None, xs)
         else (Some (nd_entry n), n # without (Compose sha key) xs))"

definition lru_store ::
  "(string \<Rightarrow> nat list) \<Rightarrow> int \<Rightarrow> duration \<Rightarrow> time \<Rightarrow> cache_key \<Rightarrow> cache_entry \<Rightarrow> cache_node list \<Rightarrow> cache_node list" where
  "lru_store sha cap ttl now key e xs =
    (case List.find (\<lambda>n. nd_key n = Compose sha key) xs of
       Some n \<Rightarrow> n \<lparr> nd_entry := entry_defaults now ttl e \<rparr> # without (Compose sha key) xs
     | None \<Rightarrow>
         let xs' = node_for sha key (entry_defaults now ttl e) # xs in
         if cap \<le> 0 then xs' else take (nat cap) xs')"

definition lru_invalidate :: "cache_prefix \<Rightarrow> cache_node list \<Rightarrow> cache_node list" where
  "lru_invalidate p xs =
    (if cp_TenantID p = '''' then xs
     else filter (\<lambda>n. \<not> (nd_tenantID n = cp_TenantID p \<and> matchPrefix n p)) xs)"

lemma nodes_without:
  assumes "links c" and "(el, n) \<in> set (mc_ll c)"
  shows "map snd (filter (\<lambda>p. fst p \<noteq> el) (mc_ll c)) = without (nd_key n) (nodes c)"
proof -
  have "filter (\<lambda>p. fst p \<noteq> el) (mc_ll c) = filter (\<lambda>p. nd_key (snd p) \<noteq> nd_key n) (mc_ll c)"
  proof (rule filter_cong [OF refl])
    fix p assume p: "p \<in> set (mc_ll c)"
    show "(fst p \<noteq> el) = (nd_key (snd p) \<noteq> nd_key n)"
      using key_unique [OF assms p] el_unique [OF assms p] by (metis fst_conv snd_conv)
  qed
  then show ?thesis by (simp add: without_def nodes_def filter_map o_def)
qed

lemma nodes_remove: "\<lbrakk> links c; (el, n) \<in> set (mc_ll c) \<rbrakk> \<Longrightarrow> nodes (removeElement el c) = without (nd_key n) (nodes c)"
  by (simp add: nodes_def removeElement_ll nodes_without [unfolded nodes_def])

lemma nodes_front: "\<lbrakk> links c; (el, n0) \<in> set (mc_ll c) \<rbrakk> \<Longrightarrow> nodes (moveToFront el n c) = n # without (nd_key n0) (nodes c)"
  by (simp add: nodes_def moveToFront_def nodes_without [unfolded nodes_def])

text \<open>How \<open>Lookup\<close> and \<open>Store\<close> reach a node.\<close>

lemma reach_cases:
  assumes "links c"
  obtains "aget (mc_items c) ck = None" "List.find (\<lambda>n. nd_key n = ck) (nodes c) = None"
  | el n where "aget (mc_items c) ck = Some el" "nodeOf c el = Some n" "(el, n) \<in> set (mc_ll c)" "nd_key n = ck"
      "List.find (\<lambda>n. nd_key n = ck) (nodes c) = Some n"
proof (cases "aget (mc_items c) ck")
  case None
  then show ?thesis using that(1) find_node [OF assms, of ck] by simp
next
  case (Some el)
  then obtain n where n: "(el, n) \<in> set (mc_ll c)" "nd_key n = ck" using linksD(3) [OF assms] by blast
  then have "nodeOf c el = Some n" using nodeOf_mem [OF assms] by simp
  with Some n find_node [OF assms, of ck] show ?thesis by (intro that(2) [of el n]) simp_all
qed

lemma links_counters [simp]:
  "links (c \<lparr> mc_misses := m \<rparr>) = links c" "links (c \<lparr> mc_hits := h \<rparr>) = links c"
  "nodes (c \<lparr> mc_misses := m \<rparr>) = nodes c" "nodes (c \<lparr> mc_hits := h \<rparr>) = nodes c"
  "fits (c \<lparr> mc_misses := m \<rparr>) = fits c" "fits (c \<lparr> mc_hits := h \<rparr>) = fits c"
  by (simp_all add: links_def nodes_def fits_def)

lemma fits_shorter: "\<lbrakk> fits c; length (mc_ll c') \<le> length (mc_ll c); mc_maxEntries c' = mc_maxEntries c \<rbrakk> \<Longrightarrow> fits c'"
  by (auto simp: fits_def)

lemma length_front: "(el, n0) \<in> set (mc_ll c) \<Longrightarrow> length (mc_ll (moveToFront el n c)) \<le> length (mc_ll c)"
proof -
  assume "(el, n0) \<in> set (mc_ll c)"
  then have "length (filter (\<lambda>p. fst p \<noteq> el) (mc_ll c)) < length (mc_ll c)"
    by (intro length_filter_less [of "(el, n0)"]) auto
  then show ?thesis by (simp add: moveToFront_def)
qed

lemma Lookup_refines:
  assumes "links c" and "fits c" and "mem_Lookup sha now key c = (r, c')"
  shows "lru_lookup sha now key (nodes c) = (r, nodes c')" "links c'" "fits c'" "mc_maxEntries c' = mc_maxEntries c"
    "mc_ttl c' = mc_ttl c"
proof -
  have *: "lru_lookup sha now key (nodes c) = (r, nodes c') \<and> links c' \<and> fits c' \<and> mc_maxEntries c' = mc_maxEntries c \<and>
    mc_ttl c' = mc_ttl c"
    using assms(1)
  proof (cases rule: reach_cases [where ck = "Compose sha key"])
    case 1
    then show ?thesis using assms by (auto simp: mem_Lookup_def lru_lookup_def Let_def split: if_splits)
  next
    case (2 el n)
    have sh: "fits (removeElement el c)"
      by (rule fits_shorter [OF assms(2)]) (simp_all add: removeElement_ll [OF assms(1)])
    have fr: "fits (moveToFront el n c)"
      by (rule fits_shorter [OF assms(2) length_front [OF 2(3)]]) (simp add: moveToFront_def)
    show ?thesis
      using assms 2 sh fr removeElement_links [OF assms(1)] moveToFront_links [OF assms(1) 2(3)]
        nodes_remove [OF assms(1) 2(3)] nodes_front [OF assms(1) 2(3)]
      by (auto simp: mem_Lookup_def lru_lookup_def Let_def moveToFront_def [of el n c, THEN arg_cong, of mc_maxEntries]
          moveToFront_def [of el n c, THEN arg_cong, of mc_ttl] split: if_splits)
  qed
  then show "lru_lookup sha now key (nodes c) = (r, nodes c')" "links c'" "fits c'" "mc_maxEntries c' = mc_maxEntries c"
    "mc_ttl c' = mc_ttl c" by simp_all
qed

lemma push_links:
  assumes "links c" and "aget (mc_items c) (nd_key n) = None"
  shows "links (c \<lparr> mc_ll := (mc_next c, n) # mc_ll c, mc_items := aput (nd_key n) (mc_next c) (mc_items c),
    mc_next := mc_next c + 1 \<rparr>)"
proof -
  have new: "(mc_next c, m) \<notin> set (mc_ll c)" for m using linksD(4) [OF assms(1), of "mc_next c" m] by auto
  have key: "nd_key m \<noteq> nd_key n" if "(e, m) \<in> set (mc_ll c)" for e m
    using linksD(3) [OF assms(1), of "nd_key n" e] that assms(2) by auto
  have items: "aget (aput (nd_key n) (mc_next c) (mc_items c)) k = Some e \<longleftrightarrow>
      (\<exists>m. (e, m) \<in> set ((mc_next c, n) # mc_ll c) \<and> nd_key m = k)" for k e
    using linksD(3) [OF assms(1), of k e] key new by (cases "k = nd_key n") auto
  have "mc_next c \<notin> fst ` set (mc_ll c)" "nd_key n \<notin> (nd_key \<circ> snd) ` set (mc_ll c)"
    using new key by fastforce+
  then have "distinct (map fst ((mc_next c, n) # mc_ll c))" "distinct (map (nd_key \<circ> snd) ((mc_next c, n) # mc_ll c))"
    using linksD(1,2) [OF assms(1)] by simp_all
  moreover have "\<forall>p \<in> set ((mc_next c, n) # mc_ll c). fst p < mc_next c + 1"
    using linksD(4) [OF assms(1)] by force
  ultimately show ?thesis using items by (simp add: links_def)
qed

lemma Store_refines:
  assumes "links c" and "fits c"
  shows "\<exists>c'. mem_Store sha now key e c = Some c' \<and> links c' \<and> fits c' \<and>
    nodes c' = lru_store sha (mc_maxEntries c) (mc_ttl c) now key e (nodes c) \<and>
    mc_maxEntries c' = mc_maxEntries c \<and> mc_ttl c' = mc_ttl c"
  using assms(1)
proof (cases rule: reach_cases [where ck = "Compose sha key"])
  case 1
  define c1 where "c1 = c \<lparr> mc_ll := (mc_next c, node_for sha key (entry_defaults now (mc_ttl c) e)) # mc_ll c,
    mc_items := aput (Compose sha key) (mc_next c) (mc_items c), mc_next := mc_next c + 1 \<rparr>"
  have l1: "links c1"
    using push_links [OF assms(1), of "node_for sha key (entry_defaults now (mc_ttl c) e)"] 1 by (simp add: c1_def node_for_def)
  have st: "mem_Store sha now key e c = evictLocked c1" using 1 by (simp add: mem_Store_def c1_def Let_def)
  have n1: "nodes c1 = node_for sha key (entry_defaults now (mc_ttl c) e) # nodes c" "mc_maxEntries c1 = mc_maxEntries c"
    "mc_ttl c1 = mc_ttl c"
    by (simp_all add: c1_def nodes_def)
  show ?thesis
  proof (cases "mc_maxEntries c \<le> 0")
    case True
    then show ?thesis using st l1 n1 1 by (simp add: evictLocked_def lru_store_def fits_def)
  next
    case False
    with evict_loop_take [OF l1] n1 obtain c' where c': "evict_loop c1 = Some c'" "links c'"
      "mc_ll c' = take (nat (mc_maxEntries c)) (mc_ll c1)" "mc_maxEntries c' = mc_maxEntries c" "mc_ttl c' = mc_ttl c"
      by auto
    then have "nodes c' = take (nat (mc_maxEntries c)) (nodes c1)" "fits c'"
      using False by (simp_all add: nodes_def take_map fits_def)
    with st c' n1 1 False show ?thesis by (simp add: evictLocked_def lru_store_def)
  qed
next
  case (2 el n)
  let ?n = "n \<lparr> nd_entry := entry_defaults now (mc_ttl c) e \<rparr>"
  have st: "mem_Store sha now key e c = Some (moveToFront el ?n c)" using 2 by (simp add: mem_Store_def Let_def)
  moreover have "links (moveToFront el ?n c)" using moveToFront_links [OF assms(1) 2(3), of ?n] by simp
  moreover have "fits (moveToFront el ?n c)"
    by (rule fits_shorter [OF assms(2) length_front [OF 2(3)]]) (simp add: moveToFront_def)
  moreover have "nodes (moveToFront el ?n c) = lru_store sha (mc_maxEntries c) (mc_ttl c) now key e (nodes c)"
    using nodes_front [OF assms(1) 2(3), of ?n] 2 by (simp add: lru_store_def)
  moreover have "mc_maxEntries (moveToFront el ?n c) = mc_maxEntries c" "mc_ttl (moveToFront el ?n c) = mc_ttl c"
    by (simp_all add: moveToFront_def)
  ultimately show ?thesis by blast
qed

definition selected :: "cache_prefix \<Rightarrow> cache_node \<Rightarrow> bool" where
  "selected p n \<longleftrightarrow> nd_tenantID n = cp_TenantID p \<and> matchPrefix n p"

lemma invalidate_walk_eq:
  assumes "links c" and "set els \<subseteq> set (mc_ll c)" and "distinct els"
  shows "\<exists>c'. invalidate_walk p els (r, c) = (r + length (filter (selected p \<circ> snd) els), c') \<and> links c' \<and>
    mc_ll c' = filter (\<lambda>x. \<not> (x \<in> set els \<and> selected p (snd x))) (mc_ll c) \<and>
    mc_maxEntries c' = mc_maxEntries c \<and> mc_ttl c' = mc_ttl c"
  using assms
proof (induction els arbitrary: r c)
  case (Cons x els)
  obtain el n where x: "x = (el, n)" by (cases x)
  show ?case
  proof (cases "selected p n")
    case True
    define c1 where "c1 = removeElement el c"
    have l1: "links c1" using removeElement_links [OF Cons.prems(1)] by (simp add: c1_def)
    have ll: "mc_ll c1 = filter (\<lambda>y. y \<noteq> x) (mc_ll c)"
      using el_unique [OF Cons.prems(1), of x] Cons.prems(2)
      by (auto simp: c1_def removeElement_ll [OF Cons.prems(1)] x intro!: filter_cong)
    have "set els \<subseteq> set (mc_ll c1)" using Cons.prems(2,3) by (auto simp: ll)
    from Cons.IH [OF l1 this, of "r + 1"] Cons.prems(3) obtain c' where c':
      "invalidate_walk p els (r + 1, c1) = (r + 1 + length (filter (selected p \<circ> snd) els), c')" "links c'"
      "mc_ll c' = filter (\<lambda>x. \<not> (x \<in> set els \<and> selected p (snd x))) (mc_ll c1)"
      "mc_maxEntries c' = mc_maxEntries c" "mc_ttl c' = mc_ttl c"
      by (auto simp: c1_def o_def)
    have "invalidate_walk p (x # els) (r, c) = invalidate_walk p els (r + 1, c1)"
      using True by (simp add: x c1_def selected_def)
    moreover have "mc_ll c' = filter (\<lambda>y. \<not> (y \<in> set (x # els) \<and> selected p (snd y))) (mc_ll c)"
      unfolding c'(3) ll filter_filter using True by (intro filter_cong) (auto simp: x)
    ultimately show ?thesis using c' True by (simp add: x o_def)
  next
    case False
    with Cons.IH [OF Cons.prems(1), of r] Cons.prems(2,3) obtain c' where c':
      "invalidate_walk p els (r, c) = (r + length (filter (selected p \<circ> snd) els), c')" "links c'"
      "mc_ll c' = filter (\<lambda>x. \<not> (x \<in> set els \<and> selected p (snd x))) (mc_ll c)"
      "mc_maxEntries c' = mc_maxEntries c" "mc_ttl c' = mc_ttl c"
      by (auto simp: o_def)
    have "mc_ll c' = filter (\<lambda>y. \<not> (y \<in> set (x # els) \<and> selected p (snd y))) (mc_ll c)"
      unfolding c'(3) using False by (intro filter_cong) (auto simp: x)
    moreover have "invalidate_walk p (x # els) (r, c) = invalidate_walk p els (r, c)"
      using False by (auto simp: x selected_def)
    ultimately show ?thesis using c' False by (simp add: x o_def)
  qed
qed (simp add: filter_id_conv)

lemma Invalidate_refines:
  assumes "links c" and "fits c" and "mem_Invalidate p c = (n, c')"
  shows "nodes c' = lru_invalidate p (nodes c)" "links c'" "fits c'" "mc_maxEntries c' = mc_maxEntries c" "mc_ttl c' = mc_ttl c"
    "n + length (nodes c') = length (nodes c)"
proof -
  have *: "nodes c' = lru_invalidate p (nodes c) \<and> links c' \<and> fits c' \<and> mc_maxEntries c' = mc_maxEntries c \<and>
    mc_ttl c' = mc_ttl c \<and> n + length (nodes c') = length (nodes c)"
  proof (cases "cp_TenantID p = ''''")
    case True
    then show ?thesis using assms by (simp add: mem_Invalidate_def lru_invalidate_def)
  next
    case False
    have "distinct (rev (mc_ll c))" using linksD(1) [OF assms(1)] by (simp add: distinct_map)
    from invalidate_walk_eq [OF assms(1) _ this, of p 0] assms(3) False
    have c': "links c'" "mc_ll c' = filter (\<lambda>x. \<not> selected p (snd x)) (mc_ll c)" "mc_maxEntries c' = mc_maxEntries c"
      "mc_ttl c' = mc_ttl c" "n = length (filter (selected p \<circ> snd) (rev (mc_ll c)))"
      by (auto simp: mem_Invalidate_def cong: filter_cong)
    have "fits c'" by (rule fits_shorter [OF assms(2)]) (simp_all add: c')
    moreover have "nodes c' = lru_invalidate p (nodes c)"
      using False by (simp add: nodes_def c'(2) lru_invalidate_def selected_def filter_map o_def)
    moreover have "n + length (nodes c') = length (nodes c)"
      using sum_length_filter_compl [of "selected p \<circ> snd" "mc_ll c"]
      by (simp add: c' nodes_def rev_filter [symmetric] o_def)
    ultimately show ?thesis using c' by simp
  qed
  then show "nodes c' = lru_invalidate p (nodes c)" "links c'" "fits c'" "mc_maxEntries c' = mc_maxEntries c"
    "mc_ttl c' = mc_ttl c" "n + length (nodes c') = length (nodes c)" by blast+
qed

text \<open>C36: the map-and-list structure of the driver is an LRU list.  From a consistent cache within its
  capacity, every operation returns, leaves such a cache, answers as the plain list does, and changes the list as
  the plain operation changes it; the count of an invalidation is the number of entries gone.\<close>

theorem cache_refines_lru:
  assumes "links c" and "fits c"
  shows "(\<forall>r c'. mem_Lookup sha now key c = (r, c') \<longrightarrow>
      lru_lookup sha now key (nodes c) = (r, nodes c') \<and> links c' \<and> fits c') \<and>
    (\<exists>c'. mem_Store sha now key e c = Some c' \<and>
      nodes c' = lru_store sha (mc_maxEntries c) (mc_ttl c) now key e (nodes c) \<and> links c' \<and> fits c') \<and>
    (\<forall>n c'. mem_Invalidate p c = (n, c') \<longrightarrow>
      nodes c' = lru_invalidate p (nodes c) \<and> n + length (nodes c') = length (nodes c) \<and> links c' \<and> fits c')"
proof (intro conjI allI impI)
  show "\<exists>c'. mem_Store sha now key e c = Some c' \<and>
      nodes c' = lru_store sha (mc_maxEntries c) (mc_ttl c) now key e (nodes c) \<and> links c' \<and> fits c'"
    using Store_refines [OF assms, of sha now key e] by blast
qed (simp_all add: Lookup_refines [OF assms] Invalidate_refines(2,3) [OF assms] Invalidate_refines(1) [OF assms, symmetric]
    Invalidate_refines(6) [OF assms])

lemma newDriver_links: "links (newDriver atoi parseDuration cfg)" "fits (newDriver atoi parseDuration cfg)"
  by (simp_all add: links_def fits_def newDriver_def)

definition sample_key :: cache_key where
  "sample_key = \<lparr> ck_TenantID = ''acme'', ck_Scope = ''tenant'', ck_ScopeID = '''', ck_Alias = ''gpt'',
     ck_NormalizedInput = ''{}'', ck_Mode = ''exact'', ck_ExtraSalt = '''' \<rparr>"

definition sample_entry :: cache_entry where
  "sample_entry = \<lparr> cen_Payload = ''ok'', cen_Mode = ''exact'', cen_CreatedAt = None, cen_ExpiresAt = None,
     cen_Tokens = 3, cen_CostUSD = 0 \<rparr>"

theorem cache_refines_lru_witness:
  defines "c \<equiv> newDriver (\<lambda>_. None) (\<lambda>_. None) []"
  shows "(\<exists>c'. mem_Store (map byte_of) 0 sample_key sample_entry c = Some c' \<and>
      nodes c' = lru_store (map byte_of) 1024 (5 * minute) 0 sample_key sample_entry [] \<and> links c' \<and> fits c')"
proof -
  have c: "nodes c = []" "mc_maxEntries c = 1024" "mc_ttl c = 5 * minute"
    by (simp_all add: c_def newDriver_def nodes_def intOpt_def durOpt_def)
  have "links c" "fits c" unfolding c_def by (rule newDriver_links)+
  from cache_refines_lru [OF this, where sha = "map byte_of" and now = 0 and key = sample_key and e = sample_entry]
  show ?thesis unfolding c by blast
qed

subsection \<open>A hit is the last response stored under the key\<close>

datatype cache_op =
  OpLookup time cache_key
| OpStore time cache_key cache_entry
| OpInvalidate cache_prefix
| OpClose

text \<open>The answers of a history of operations; \<^const>\<open>None\<close> for the whole if an operation does not return.\<close>

fun cache_step :: "(string \<Rightarrow> nat list) \<Rightarrow> cache_op \<Rightarrow> mem_cache \<Rightarrow> (cache_entry option \<times> mem_cache) option" where
  "cache_step sha (OpLookup now key) c = Some (mem_Lookup sha now key c)"
| "cache_step sha (OpStore now key e) c = map_option (\<lambda>c'. (None, c')) (mem_Store sha now key e c)"
| "cache_step sha (OpInvalidate p) c = Some (None, snd (mem_Invalidate p c))"
| "cache_step sha OpClose c = Some (None, mem_Close c)"

fun cache_run :: "(string \<Rightarrow> nat list) \<Rightarrow> cache_op list \<Rightarrow> mem_cache \<Rightarrow> mem_cache option" where
  "cache_run sha [] c = Some c"
| "cache_run sha (op # ops) c =
    (case cache_step sha op c of None \<Rightarrow> None | Some (r, c') \<Rightarrow> cache_run sha ops c')"

text \<open>The latest response of each composed key that no invalidation and no close removed.\<close>

type_synonym latest_map = "string \<Rightarrow> cache_node option"

fun latest_step :: "(string \<Rightarrow> nat list) \<Rightarrow> duration \<Rightarrow> cache_op \<Rightarrow> latest_map \<Rightarrow> latest_map" where
  "latest_step sha ttl (OpLookup now key) m = m"
| "latest_step sha ttl (OpStore now key e) m = m(Compose sha key \<mapsto> node_for sha key (entry_defaults now ttl e))"
| "latest_step sha ttl (OpInvalidate p) m =
    (\<lambda>ck. case m ck of None \<Rightarrow> None
       | Some n \<Rightarrow> if cp_TenantID p \<noteq> '''' \<and> selected p n then None else Some n)"
| "latest_step sha ttl OpClose m = Map.empty"

definition latest :: "(string \<Rightarrow> nat list) \<Rightarrow> duration \<Rightarrow> cache_op list \<Rightarrow> latest_map" where
  "latest sha ttl ops = fold (latest_step sha ttl) ops Map.empty"

definition op_ok :: "cache_op \<Rightarrow> bool" where
  "op_ok op = (case op of OpStore now key e \<Rightarrow> key_ok key | _ \<Rightarrow> True)"

definition covered :: "cache_node list \<Rightarrow> latest_map \<Rightarrow> bool" where
  "covered xs m \<longleftrightarrow> (\<forall>n \<in> set xs. m (nd_key n) = Some n)"

definition keyed :: "(string \<Rightarrow> nat list) \<Rightarrow> cache_node list \<Rightarrow> bool" where
  "keyed sha xs \<longleftrightarrow> (\<forall>n \<in> set xs. \<exists>k e. key_ok k \<and> n = node_for sha k e)"

lemma without_sub: "set (without ck xs) = {n \<in> set xs. nd_key n \<noteq> ck}"
  by (auto simp: without_def)

lemma lru_lookup_sub: "lru_lookup sha now key xs = (r, ys) \<Longrightarrow> set ys \<subseteq> set xs"
proof (cases "List.find (\<lambda>n. nd_key n = Compose sha key) xs")
  case (Some n)
  moreover have "n \<in> set xs" using find_Some_prop [OF Some] by simp
  moreover assume "lru_lookup sha now key xs = (r, ys)"
  ultimately show ?thesis by (auto simp: lru_lookup_def without_sub split: if_splits)
qed (auto simp: lru_lookup_def split: if_splits)

lemma same_key_node:
  assumes "\<forall>s. bytes_ok (sha s)" and "key_ok k" and "key_ok k'" and "Compose sha k = Compose sha k'"
  shows "(node_for sha k e) \<lparr> nd_entry := e' \<rparr> = node_for sha k' e'"
  using Compose_inject [OF assms(2,3,1)] assms(4) by (simp add: node_for_def)

lemma lru_store_within:
  assumes "\<forall>s. bytes_ok (sha s)" and "key_ok key" and "covered xs m" and "keyed sha xs"
  shows "covered (lru_store sha cap ttl now key e xs) (m(Compose sha key \<mapsto> node_for sha key (entry_defaults now ttl e)))"
    and "keyed sha (lru_store sha cap ttl now key e xs)"
proof -
  let ?n = "node_for sha key (entry_defaults now ttl e)"
  have "set (lru_store sha cap ttl now key e xs) \<subseteq> insert ?n {n \<in> set xs. nd_key n \<noteq> Compose sha key}"
  proof (cases "List.find (\<lambda>n. nd_key n = Compose sha key) xs")
    case None
    then have "\<forall>n \<in> set xs. nd_key n \<noteq> Compose sha key" by (simp add: find_None_all)
    with None show ?thesis by (auto simp: lru_store_def Let_def dest: in_set_takeD)
  next
    case (Some n)
    then have n: "n \<in> set xs" "nd_key n = Compose sha key" using find_Some_prop [OF Some] by simp_all
    then obtain k e0 where k: "key_ok k" "n = node_for sha k e0" using assms(4) by (auto simp: keyed_def)
    with n have "Compose sha k = Compose sha key" by (simp add: node_for_def)
    from same_key_node [OF assms(1) k(1) assms(2) this] k(2)
    have "n \<lparr> nd_entry := entry_defaults now ttl e \<rparr> = ?n" by simp
    with Some show ?thesis by (auto simp: lru_store_def without_sub)
  qed
  moreover have "nd_key ?n = Compose sha key" by (simp add: node_for_def)
  ultimately have "n = ?n \<and> nd_key n = Compose sha key \<or> n \<in> set xs \<and> nd_key n \<noteq> Compose sha key"
    if "n \<in> set (lru_store sha cap ttl now key e xs)" for n
    using that by blast
  with assms(2-4) show "covered (lru_store sha cap ttl now key e xs) (m(Compose sha key \<mapsto> ?n))"
    "keyed sha (lru_store sha cap ttl now key e xs)"
    unfolding covered_def keyed_def by (auto, metis)
qed

definition cache_state_ok :: "(string \<Rightarrow> nat list) \<Rightarrow> duration \<Rightarrow> latest_map \<Rightarrow> mem_cache \<Rightarrow> bool" where
  "cache_state_ok sha ttl m c \<longleftrightarrow>
    links c \<and> fits c \<and> mc_ttl c = ttl \<and> covered (nodes c) m \<and> keyed sha (nodes c)"

lemma covered_sub: "\<lbrakk> covered xs m; set ys \<subseteq> set xs \<rbrakk> \<Longrightarrow> covered ys m"
  by (auto simp: covered_def)

lemma keyed_sub: "\<lbrakk> keyed sha xs; set ys \<subseteq> set xs \<rbrakk> \<Longrightarrow> keyed sha ys"
  by (auto simp: keyed_def)

lemma cache_step_ok:
  assumes "\<forall>s. bytes_ok (sha s)" and "cache_state_ok sha ttl m c" and "op_ok op"
  shows "\<exists>r c'. cache_step sha op c = Some (r, c') \<and> cache_state_ok sha ttl (latest_step sha ttl op m) c'"
proof (cases op)
  case (OpLookup now key)
  obtain r c' where L: "mem_Lookup sha now key c = (r, c')" by (cases "mem_Lookup sha now key c")
  have ok: "links c" "fits c" using assms(2) by (simp_all add: cache_state_ok_def)
  note R = Lookup_refines [OF ok L]
  from lru_lookup_sub [OF R(1)] R assms(2) show ?thesis
    by (auto simp: OpLookup L cache_state_ok_def intro: covered_sub keyed_sub)
next
  case (OpStore now key e)
  have ok: "links c" "fits c" using assms(2) by (simp_all add: cache_state_ok_def)
  have "key_ok key" using assms(3) by (simp add: op_ok_def OpStore)
  with Store_refines [OF ok, of sha now key e] lru_store_within [OF assms(1) this, of "nodes c" m] assms(2) show ?thesis
    by (auto simp: OpStore cache_state_ok_def)
next
  case (OpInvalidate p)
  obtain n c' where I: "mem_Invalidate p c = (n, c')" by (cases "mem_Invalidate p c")
  have ok: "links c" "fits c" using assms(2) by (simp_all add: cache_state_ok_def)
  note R = Invalidate_refines [OF ok I]
  have "set (lru_invalidate p (nodes c)) = {n \<in> set (nodes c). \<not> (cp_TenantID p \<noteq> '''' \<and> selected p n)}"
    by (auto simp: lru_invalidate_def selected_def)
  with R assms(2) show ?thesis
    by (auto simp: OpInvalidate I cache_state_ok_def covered_def keyed_def)
next
  case OpClose
  then show ?thesis using assms(2)
    by (auto simp: mem_Close_def cache_state_ok_def links_def fits_def nodes_def covered_def keyed_def)
qed

lemma cache_run_ok:
  assumes "\<forall>s. bytes_ok (sha s)" and "cache_state_ok sha ttl m c" and "list_all op_ok ops"
  shows "\<exists>c'. cache_run sha ops c = Some c' \<and> cache_state_ok sha ttl (fold (latest_step sha ttl) ops m) c'"
  using assms(2,3)
proof (induction ops arbitrary: m c)
  case (Cons op ops)
  then obtain r c1 where "cache_step sha op c = Some (r, c1)" "cache_state_ok sha ttl (latest_step sha ttl op m) c1"
    using cache_step_ok [OF assms(1), of ttl m c op] by auto
  with Cons show ?case by auto
qed simp

lemma latest_origin:
  "latest sha ttl ops ck = Some n \<Longrightarrow>
    \<exists>now0 k0 e0. OpStore now0 k0 e0 \<in> set ops \<and> Compose sha k0 = ck \<and> n = node_for sha k0 (entry_defaults now0 ttl e0)"
proof (induction ops arbitrary: n rule: rev_induct)
  case (snoc op ops)
  have "latest sha ttl (ops @ [op]) = latest_step sha ttl op (latest sha ttl ops)" by (simp add: latest_def)
  with snoc show ?case
    by (cases op) (auto split: if_splits option.splits)
qed (simp add: latest_def)

lemma Lookup_hit:
  assumes "cache_state_ok sha ttl m c" and "mem_Lookup sha now key c = (Some e, c')"
  shows "\<exists>n. m (Compose sha key) = Some n \<and> nd_entry n = e \<and> nd_tenantID n = ck_TenantID key \<and> \<not> expired now e"
proof -
  have ok: "links c" "fits c" using assms(1) by (simp_all add: cache_state_ok_def)
  note R = Lookup_refines(1) [OF ok assms(2)]
  obtain n where F: "List.find (\<lambda>n. nd_key n = Compose sha key) (nodes c) = Some n"
    using R by (auto simp: lru_lookup_def split: if_splits option.splits)
  with R have n: "nd_entry n = e" "nd_tenantID n = ck_TenantID key" "\<not> expired now e"
    by (auto simp: lru_lookup_def split: if_splits)
  from find_Some_prop [OF F] assms(1) have "m (Compose sha key) = Some n"
    by (auto simp: cache_state_ok_def covered_def)
  with n show ?thesis by blast
qed

text \<open>C37: whatever operations ran before, they all returned, and a hit is never stale, foreign or expired: the
  entry is that of the last store under the composed key, which no invalidation or close removed since, which a
  store of the same tenant, scope, scope id, alias and hashed input wrote, and whose lifetime has not passed.\<close>

theorem cache_hit_is_latest:
  assumes "\<forall>s. bytes_ok (sha s)" and "list_all op_ok ops" and "key_ok key"
  shows "\<exists>c. cache_run sha ops (newDriver atoi parseDuration cfg) = Some c \<and>
    (\<forall>now e c'. mem_Lookup sha now key c = (Some e, c') \<longrightarrow> \<not> expired now e \<and>
      (\<exists>n now0 k0 e0. latest sha (durOpt parseDuration cfg ''default_ttl'' (5 * minute)) ops (Compose sha key) = Some n \<and>
         nd_entry n = e \<and> OpStore now0 k0 e0 \<in> set ops \<and>
         e = entry_defaults now0 (durOpt parseDuration cfg ''default_ttl'' (5 * minute)) e0 \<and>
         ck_TenantID k0 = ck_TenantID key \<and> ck_Scope k0 = ck_Scope key \<and> ck_ScopeID k0 = ck_ScopeID key \<and>
         ck_Alias k0 = ck_Alias key \<and>
         sha (ck_NormalizedInput k0 @ ck_ExtraSalt k0) = sha (ck_NormalizedInput key @ ck_ExtraSalt key)))"
proof -
  let ?ttl = "durOpt parseDuration cfg ''default_ttl'' (5 * minute)"
  have "cache_state_ok sha ?ttl Map.empty (newDriver atoi parseDuration cfg)"
    using newDriver_links by (simp add: cache_state_ok_def covered_def keyed_def nodes_def newDriver_def)
  from cache_run_ok [OF assms(1) this assms(2)] obtain c where
    c: "cache_run sha ops (newDriver atoi parseDuration cfg) = Some c" "cache_state_ok sha ?ttl (latest sha ?ttl ops) c"
    by (auto simp: latest_def)
  have "\<not> expired now e \<and>
      (\<exists>n now0 k0 e0. latest sha ?ttl ops (Compose sha key) = Some n \<and>
         nd_entry n = e \<and> OpStore now0 k0 e0 \<in> set ops \<and> e = entry_defaults now0 ?ttl e0 \<and>
         ck_TenantID k0 = ck_TenantID key \<and> ck_Scope k0 = ck_Scope key \<and> ck_ScopeID k0 = ck_ScopeID key \<and>
         ck_Alias k0 = ck_Alias key \<and>
         sha (ck_NormalizedInput k0 @ ck_ExtraSalt k0) = sha (ck_NormalizedInput key @ ck_ExtraSalt key))"
    if hit: "mem_Lookup sha now key c = (Some e, c')" for now e c'
  proof -
    from Lookup_hit [OF c(2) hit] obtain n where n: "latest sha ?ttl ops (Compose sha key) = Some n" "nd_entry n = e" "\<not> expired now e"
      by blast
    from latest_origin [OF n(1)] obtain now0 k0 e0 where o: "OpStore now0 k0 e0 \<in> set ops" "Compose sha k0 = Compose sha key"
      "n = node_for sha k0 (entry_defaults now0 ?ttl e0)" by blast
    have "key_ok k0" using o(1) assms(2) by (auto simp: list_all_iff op_ok_def)
    from Compose_inject [OF this assms(3,1)] o n show ?thesis by (auto simp: node_for_def)
  qed
  with c(1) show ?thesis by blast
qed

theorem cache_hit_is_latest_witness:
  "\<exists>c. cache_run (map byte_of) [OpStore 0 sample_key sample_entry] (newDriver (\<lambda>_. None) (\<lambda>_. None) []) = Some c \<and>
    (\<forall>now e c'. mem_Lookup (map byte_of) now sample_key c = (Some e, c') \<longrightarrow> \<not> expired now e) \<and>
    fst (mem_Lookup (map byte_of) 1 sample_key c) = Some (entry_defaults 0 (5 * minute) sample_entry)"
proof -
  have h: "\<forall>s. bytes_ok (map byte_of s)" by (simp add: bytes_ok_def list_all_iff)
  have ok: "list_all op_ok [OpStore 0 sample_key sample_entry]" "key_ok sample_key"
    by (simp_all add: op_ok_def key_ok_def sample_key_def keySep_def)
  from cache_hit_is_latest [OF h ok, of "\<lambda>_. None" "\<lambda>_. None" "[]"] obtain c where
    c: "cache_run (map byte_of) [OpStore 0 sample_key sample_entry] (newDriver (\<lambda>_. None) (\<lambda>_. None) []) = Some c"
    and no: "\<forall>now e c'. mem_Lookup (map byte_of) now sample_key c = (Some e, c') \<longrightarrow> \<not> expired now e"
    by blast
  have "evict_loop c1 = Some c1" if "int (length (mc_ll c1)) \<le> mc_maxEntries c1" for c1
    using that by (subst evict_loop.simps) simp
  then have "c = (newDriver (\<lambda>_. None) (\<lambda>_. None) []) \<lparr>
      mc_ll := [(0, node_for (map byte_of) sample_key (entry_defaults 0 (5 * minute) sample_entry))],
      mc_items := [(Compose (map byte_of) sample_key, 0)], mc_next := 1 \<rparr>"
    using c by (simp add: mem_Store_def newDriver_def intOpt_def durOpt_def evictLocked_def Let_def)
  then have "fst (mem_Lookup (map byte_of) 1 sample_key c) = Some (entry_defaults 0 (5 * minute) sample_entry)"
    by (simp add: mem_Lookup_def nodeOf_def node_for_def expired_def entry_defaults_def sample_key_def sample_entry_def
        minute_def second_def Let_def)
  with c no show ?thesis by blast
qed

end
