(* ===== verification/Sql_Rows.thy ===== *)
theory Sql_Rows
  imports Sql_Tables
begin

text \<open>
  Rows of a table with a primary key as a list: insertion with replacement, lookup, update and
  deletion, ordering, and their laws.  The stores of the LLM gateway and of the policy rules are
  built on them.
\<close>

subsection \<open>Rows under a primary key\<close>

text \<open>\<open>INSERT OR REPLACE\<close>: the row with the same key is deleted first.\<close>

definition put_row :: "('r \<Rightarrow> 'k) \<Rightarrow> 'r \<Rightarrow> 'r list \<Rightarrow> 'r list" where
  "put_row key r rows = filter (\<lambda>x. key x \<noteq> key r) rows @ [r]"

definition get_row :: "('r \<Rightarrow> 'k) \<Rightarrow> 'k \<Rightarrow> 'r list \<Rightarrow> 'r option" where
  "get_row key k rows = List.find (\<lambda>x. key x = k) rows"

definition update_row :: "('r \<Rightarrow> 'k) \<Rightarrow> 'k \<Rightarrow> ('r \<Rightarrow> 'r) \<Rightarrow> 'r list \<Rightarrow> 'r list" where
  "update_row key k f rows = map (\<lambda>x. if key x = k then f x else x) rows"

definition delete_row :: "('r \<Rightarrow> 'k) \<Rightarrow> 'k \<Rightarrow> 'r list \<Rightarrow> 'r list" where
  "delete_row key k rows = filter (\<lambda>x. key x \<noteq> k) rows"

text \<open>\<open>ORDER BY k DESC\<close>.\<close>

definition sort_desc :: "('r \<Rightarrow> 'k::linorder) \<Rightarrow> 'r list \<Rightarrow> 'r list" where
  "sort_desc k rows = rev (sort_key k (rev rows))"

subsection \<open>Laws of keyed rows\<close>

lemma distinct_put_row: "distinct (map key rows) \<Longrightarrow> distinct (map key (put_row key r rows))"
  by (auto simp: put_row_def distinct_map_filter)

lemma get_put_row: "get_row key k (put_row key r rows) = (if k = key r then Some r else get_row key k rows)"
  by (induction rows) (auto simp: get_row_def put_row_def)

lemma distinct_delete_row: "distinct (map key rows) \<Longrightarrow> distinct (map key (delete_row key' k rows))"
  by (simp add: delete_row_def distinct_map_filter)

lemma get_delete_row: "get_row key k' (delete_row key k rows) = (if k' = k then None else get_row key k' rows)"
  by (induction rows) (auto simp: get_row_def delete_row_def)

lemma map_update_row:
  "\<forall>x. key x = k \<longrightarrow> key (f x) = k \<Longrightarrow> map key (update_row key k f rows) = map key rows"
  by (induction rows) (auto simp: update_row_def)

lemma get_update_row:
  "\<forall>x. key x = k \<longrightarrow> key (f x) = k \<Longrightarrow>
    get_row key k' (update_row key k f rows) =
      (if k' = k then map_option f (get_row key k rows) else get_row key k' rows)"
  by (induction rows) (auto simp: get_row_def update_row_def)

lemma get_row_append:
  "get_row key k (rows @ [r]) = (case get_row key k rows of None \<Rightarrow> if key r = k then Some r else None | s \<Rightarrow> s)"
  by (induction rows) (auto simp: get_row_def)

lemma get_row_None: "get_row key k rows = None \<longleftrightarrow> k \<notin> key ` set rows"
  by (induction rows) (auto simp: get_row_def)

lemma get_row_Some: "get_row key k rows = Some r \<Longrightarrow> r \<in> set rows \<and> key r = k"
  by (auto simp: get_row_def find_Some_iff)

lemma set_put_row: "set (put_row key r rows) = insert r {x \<in> set rows. key x \<noteq> key r}"
  by (auto simp: put_row_def)

lemma set_delete_row: "set (delete_row key k rows) = {x \<in> set rows. key x \<noteq> k}"
  by (auto simp: delete_row_def)

lemma mem_delete_row: "x \<in> set (delete_row key k rows) \<longleftrightarrow> x \<in> set rows \<and> key x \<noteq> k"
  by (simp add: set_delete_row)

lemma set_update_row: "set (update_row key k f rows) = (\<lambda>x. if key x = k then f x else x) ` set rows"
  by (simp add: update_row_def)

lemma keys_put_row: "key ` set (put_row key r rows) = insert (key r) (key ` set rows)"
  by (auto simp: set_put_row)

lemma keys_delete_row: "key ` set (delete_row key k rows) = key ` set rows - {k}"
  by (auto simp: set_delete_row)

lemma keys_update_row:
  "\<forall>x. key x = k \<longrightarrow> key (f x) = k \<Longrightarrow> key ` set (update_row key k f rows) = key ` set rows"
  using map_update_row [of key k f rows] by (metis set_map)

lemmas row_laws = get_put_row get_delete_row get_update_row get_row_append
lemmas row_sets = set_put_row set_delete_row set_update_row

end
