(* ===== verification/LLM_Store.thy ===== *)
theory LLM_Store
  imports Sql_Rows Complex_Main
begin

text \<open>
  \<open>internal/storage/sqlite/llm_{provider,model,quota,cost,session}_store.go\<close>:
  the tables of the LLM gateway (migrations 0014 to 0018).  \<open>ld_fault\<close> stands
  for a connection on which every statement fails, \<open>ld_fk\<close> for its foreign-key
  enforcement.  Keys go with their provider (ON DELETE CASCADE), models hold
  it (no action), messages go with their chat.  Weights, prices and costs are
  rationals where the code has float64.
\<close>

subsection \<open>The rows\<close>

record LLMProvider =
  lp_TenantID :: string
  lp_Name :: string
  lp_Driver :: string
  lp_ConfigJSON :: string
  lp_CredentialRef :: string
  lp_Enabled :: bool
  lp_CreatedAt :: string
  lp_UpdatedAt :: string

record LLMProviderKey =
  lk_TenantID :: string
  lk_ProviderName :: string
  lk_KeyID :: string
  lk_CredentialRef :: string
  lk_Weight :: rat
  lk_ModelAllowlist :: string
  lk_Enabled :: bool
  lk_CreatedAt :: string

record LLMModel =
  lm_TenantID :: string
  lm_Alias :: string
  lm_ProviderName :: string
  lm_ProviderModel :: string
  lm_DefaultParamsJSON :: string
  lm_Capabilities :: string
  lm_Enabled :: bool
  lm_CreatedAt :: string
  lm_UpdatedAt :: string

record LLMQuota =
  lq_TenantID :: string
  lq_RequestsPerMinute :: int
  lq_TokensPerMinute :: int
  lq_TokensPerDay :: int
  lq_CostUSDPerDay :: rat
  lq_UpdatedAt :: string

record LLMUnitCost =
  uc_ProviderDriver :: string
  uc_ProviderModel :: string
  uc_InputPer1K :: rat
  uc_OutputPer1K :: rat

record LLMCostDaily =
  cd_TenantID :: string
  cd_Day :: string
  cd_Alias :: string
  cd_Requests :: int
  cd_InputTok :: int
  cd_OutputTok :: int
  cd_CostUSD :: rat

record LLMChatSession =
  chs_TenantID :: string
  chs_ChatID :: string
  chs_UserID :: string
  chs_Alias :: string
  chs_StartedAt :: string
  chs_EndedAt :: string
  chs_Summary :: string

record LLMChatMessage =
  chm_TenantID :: string
  chm_ChatID :: string
  chm_Seq :: int
  chm_Role :: string
  chm_ContentJSON :: string
  chm_ToolCallID :: string
  chm_SpanID :: string
  chm_CreatedAt :: string

record llm_db =
  ld_fault :: bool
  ld_fk :: bool
  ld_providers :: "LLMProvider list"
  ld_keys :: "LLMProviderKey list"
  ld_models :: "LLMModel list"
  ld_quotas :: "LLMQuota list"
  ld_unit :: "LLMUnitCost list"
  ld_daily :: "LLMCostDaily list"
  ld_sessions :: "LLMChatSession list"
  ld_messages :: "LLMChatMessage list"

definition provider_key :: "LLMProvider \<Rightarrow> string \<times> string" where
  "provider_key p = (lp_TenantID p, lp_Name p)"

definition pkey_key :: "LLMProviderKey \<Rightarrow> string \<times> string \<times> string" where
  "pkey_key k = (lk_TenantID k, lk_ProviderName k, lk_KeyID k)"

definition model_key :: "LLMModel \<Rightarrow> string \<times> string" where
  "model_key m = (lm_TenantID m, lm_Alias m)"

definition unit_key :: "LLMUnitCost \<Rightarrow> string \<times> string" where
  "unit_key u = (uc_ProviderDriver u, uc_ProviderModel u)"

definition daily_key :: "LLMCostDaily \<Rightarrow> string \<times> string \<times> string" where
  "daily_key d = (cd_TenantID d, cd_Day d, cd_Alias d)"

definition chat_key :: "LLMChatSession \<Rightarrow> string \<times> string" where
  "chat_key s = (chs_TenantID s, chs_ChatID s)"

definition message_chat :: "LLMChatMessage \<Rightarrow> string \<times> string" where
  "message_chat m = (chm_TenantID m, chm_ChatID m)"

definition key_provider :: "LLMProviderKey \<Rightarrow> string \<times> string" where
  "key_provider k = (lk_TenantID k, lk_ProviderName k)"

definition model_provider :: "LLMModel \<Rightarrow> string \<times> string" where
  "model_provider m = (lm_TenantID m, lm_ProviderName m)"

text \<open>The row found, or the \<open>ErrNotFound\<close> of the table.\<close>

definition found :: "'r option \<Rightarrow> (store_error, 'r) result" where
  "found row = (case row of None \<Rightarrow> Inl ErrNotFound | Some r \<Rightarrow> Inr r)"

definition or_text :: "string \<Rightarrow> string \<Rightarrow> string" where
  "or_text s def = (if s = '''' then def else s)"

subsection \<open>Providers\<close>

definition provider_created :: "string \<Rightarrow> LLMProvider \<Rightarrow> LLMProvider" where
  "provider_created now p =
    p \<lparr> lp_ConfigJSON := or_text (lp_ConfigJSON p) ''{}'', lp_CreatedAt := now, lp_UpdatedAt := now \<rparr>"

text \<open>Replacing a provider deletes its row first; with foreign keys on, its keys go with it, while
  the models, checked at the end of the statement, find it again.\<close>

definition CreateProvider :: "string \<Rightarrow> LLMProvider \<Rightarrow> llm_db \<Rightarrow> (store_error, llm_db) result" where
  "CreateProvider now p db =
    (if lp_TenantID p = '''' \<or> lp_Name p = '''' then Inl ErrArgs
     else if ld_fault db then Inl ErrSQL
     else let k = provider_key p; replaced = get_row provider_key k (ld_providers db) \<noteq> None in
       Inr (db \<lparr> ld_providers := put_row provider_key (provider_created now p) (ld_providers db),
                 ld_keys := (if ld_fk db \<and> replaced then delete_row key_provider k (ld_keys db)
                             else ld_keys db) \<rparr>))"

definition GetProvider :: "llm_db \<Rightarrow> string \<Rightarrow> string \<Rightarrow> (store_error, LLMProvider) result" where
  "GetProvider db tenantID name =
    (if ld_fault db then Inl ErrSQL else found (get_row provider_key (tenantID, name) (ld_providers db)))"

definition ListProviders :: "llm_db \<Rightarrow> string \<Rightarrow> (store_error, LLMProvider list) result" where
  "ListProviders db tenantID =
    (if ld_fault db then Inl ErrSQL
     else Inr (sort_key lp_Name (filter (\<lambda>p. lp_TenantID p = tenantID) (ld_providers db))))"

definition provider_updated :: "string \<Rightarrow> LLMProvider \<Rightarrow> LLMProvider" where
  "provider_updated now p = p \<lparr> lp_ConfigJSON := or_text (lp_ConfigJSON p) ''{}'', lp_UpdatedAt := now \<rparr>"

definition UpdateProvider :: "string \<Rightarrow> LLMProvider \<Rightarrow> llm_db \<Rightarrow> (store_error, llm_db) result" where
  "UpdateProvider now p db =
    (if lp_TenantID p = '''' \<or> lp_Name p = '''' then Inl ErrArgs
     else if ld_fault db then Inl ErrSQL
     else if get_row provider_key (provider_key p) (ld_providers db) = None then Inl ErrNotFound
     else Inr (db \<lparr> ld_providers := update_row provider_key (provider_key p)
       (\<lambda>x. (provider_updated now p) \<lparr> lp_CreatedAt := lp_CreatedAt x \<rparr>) (ld_providers db) \<rparr>))"

definition DeleteProvider :: "string \<Rightarrow> string \<Rightarrow> llm_db \<Rightarrow> (store_error, llm_db) result" where
  "DeleteProvider tenantID name db =
    (if ld_fault db then Inl ErrSQL
     else if get_row provider_key (tenantID, name) (ld_providers db) = None then Inl ErrNotFound
     else if ld_fk db \<and> list_ex (\<lambda>m. model_provider m = (tenantID, name)) (ld_models db) then Inl ErrSQL
     else Inr (db \<lparr> ld_providers := delete_row provider_key (tenantID, name) (ld_providers db),
                    ld_keys := (if ld_fk db then delete_row key_provider (tenantID, name) (ld_keys db)
                                else ld_keys db) \<rparr>))"

definition key_added :: "string \<Rightarrow> LLMProviderKey \<Rightarrow> LLMProviderKey" where
  "key_added now k = k \<lparr> lk_ModelAllowlist := or_text (lk_ModelAllowlist k) ''[]'',
     lk_Weight := (if lk_Weight k = 0 then 1 else lk_Weight k), lk_CreatedAt := now \<rparr>"

definition AddKey :: "string \<Rightarrow> LLMProviderKey \<Rightarrow> llm_db \<Rightarrow> (store_error, llm_db) result" where
  "AddKey now k db =
    (if lk_TenantID k = '''' \<or> lk_ProviderName k = '''' \<or> lk_KeyID k = '''' then Inl ErrArgs
     else if lk_CredentialRef k = '''' then Inl ErrArgs
     else if ld_fault db then Inl ErrSQL
     else if ld_fk db \<and> get_row provider_key (key_provider k) (ld_providers db) = None then Inl ErrSQL
     else Inr (db \<lparr> ld_keys := put_row pkey_key (key_added now k) (ld_keys db) \<rparr>))"

definition ListKeys :: "llm_db \<Rightarrow> string \<Rightarrow> string \<Rightarrow> (store_error, LLMProviderKey list) result" where
  "ListKeys db tenantID providerName =
    (if ld_fault db then Inl ErrSQL
     else Inr (sort_key lk_KeyID (filter (\<lambda>k. key_provider k = (tenantID, providerName)) (ld_keys db))))"

definition DeleteKey :: "string \<Rightarrow> string \<Rightarrow> string \<Rightarrow> llm_db \<Rightarrow> (store_error, llm_db) result" where
  "DeleteKey tenantID providerName keyID db =
    (if ld_fault db then Inl ErrSQL
     else if get_row pkey_key (tenantID, providerName, keyID) (ld_keys db) = None then Inl ErrNotFound
     else Inr (db \<lparr> ld_keys := delete_row pkey_key (tenantID, providerName, keyID) (ld_keys db) \<rparr>))"

subsection \<open>Model aliases\<close>

definition model_args_ok :: "LLMModel \<Rightarrow> bool" where
  "model_args_ok m \<longleftrightarrow> lm_TenantID m \<noteq> '''' \<and> lm_Alias m \<noteq> '''' \<and>
     lm_ProviderName m \<noteq> '''' \<and> lm_ProviderModel m \<noteq> ''''"

definition model_defaults :: "LLMModel \<Rightarrow> LLMModel" where
  "model_defaults m = m \<lparr> lm_DefaultParamsJSON := or_text (lm_DefaultParamsJSON m) ''{}'',
     lm_Capabilities := or_text (lm_Capabilities m) ''[]'' \<rparr>"

definition model_created :: "string \<Rightarrow> LLMModel \<Rightarrow> LLMModel" where
  "model_created now m = (model_defaults m) \<lparr> lm_CreatedAt := now, lm_UpdatedAt := now \<rparr>"

definition model_updated :: "string \<Rightarrow> LLMModel \<Rightarrow> LLMModel" where
  "model_updated now m = (model_defaults m) \<lparr> lm_UpdatedAt := now \<rparr>"

definition model_fk_ok :: "llm_db \<Rightarrow> LLMModel \<Rightarrow> bool" where
  "model_fk_ok db m \<longleftrightarrow> (ld_fk db \<longrightarrow> get_row provider_key (model_provider m) (ld_providers db) \<noteq> None)"

definition CreateModel :: "string \<Rightarrow> LLMModel \<Rightarrow> llm_db \<Rightarrow> (store_error, llm_db) result" where
  "CreateModel now m db =
    (if \<not> model_args_ok m then Inl ErrArgs
     else if ld_fault db then Inl ErrSQL
     else if \<not> model_fk_ok db m then Inl ErrSQL
     else Inr (db \<lparr> ld_models := put_row model_key (model_created now m) (ld_models db) \<rparr>))"

definition GetModel :: "llm_db \<Rightarrow> string \<Rightarrow> string \<Rightarrow> (store_error, LLMModel) result" where
  "GetModel db tenantID alias =
    (if ld_fault db then Inl ErrSQL else found (get_row model_key (tenantID, alias) (ld_models db)))"

definition ListModels :: "llm_db \<Rightarrow> string \<Rightarrow> (store_error, LLMModel list) result" where
  "ListModels db tenantID =
    (if ld_fault db then Inl ErrSQL
     else Inr (sort_key lm_Alias (filter (\<lambda>m. lm_TenantID m = tenantID) (ld_models db))))"

definition UpdateModel :: "string \<Rightarrow> LLMModel \<Rightarrow> llm_db \<Rightarrow> (store_error, llm_db) result" where
  "UpdateModel now m db =
    (if \<not> model_args_ok m then Inl ErrArgs
     else if ld_fault db then Inl ErrSQL
     else if get_row model_key (model_key m) (ld_models db) = None then Inl ErrNotFound
     else if \<not> model_fk_ok db m then Inl ErrSQL
     else Inr (db \<lparr> ld_models := update_row model_key (model_key m)
       (\<lambda>x. (model_updated now m) \<lparr> lm_CreatedAt := lm_CreatedAt x \<rparr>) (ld_models db) \<rparr>))"

definition DeleteModel :: "string \<Rightarrow> string \<Rightarrow> llm_db \<Rightarrow> (store_error, llm_db) result" where
  "DeleteModel tenantID alias db =
    (if ld_fault db then Inl ErrSQL
     else if get_row model_key (tenantID, alias) (ld_models db) = None then Inl ErrNotFound
     else Inr (db \<lparr> ld_models := delete_row model_key (tenantID, alias) (ld_models db) \<rparr>))"

subsection \<open>Quotas\<close>

definition DefaultLLMQuota :: "string \<Rightarrow> LLMQuota" where
  "DefaultLLMQuota tenantID = \<lparr> lq_TenantID = tenantID, lq_RequestsPerMinute = 600, lq_TokensPerMinute = 200000,
     lq_TokensPerDay = 4000000, lq_CostUSDPerDay = 100, lq_UpdatedAt = '''' \<rparr>"

definition GetQuota :: "llm_db \<Rightarrow> string \<Rightarrow> (store_error, LLMQuota) result" where
  "GetQuota db tenantID =
    (if ld_fault db then Inl ErrSQL else found (get_row lq_TenantID tenantID (ld_quotas db)))"

definition GetOrDefault :: "llm_db \<Rightarrow> string \<Rightarrow> (store_error, LLMQuota) result" where
  "GetOrDefault db tenantID =
    (case GetQuota db tenantID of
       Inl ErrNotFound \<Rightarrow> Inr (DefaultLLMQuota tenantID)
     | r \<Rightarrow> r)"

definition SetQuota :: "string \<Rightarrow> LLMQuota \<Rightarrow> llm_db \<Rightarrow> (store_error, llm_db) result" where
  "SetQuota now q db =
    (if lq_TenantID q = '''' then Inl ErrArgs
     else if ld_fault db then Inl ErrSQL
     else Inr (db \<lparr> ld_quotas := put_row lq_TenantID (q \<lparr> lq_UpdatedAt := now \<rparr>) (ld_quotas db) \<rparr>))"

definition DeleteQuota :: "string \<Rightarrow> llm_db \<Rightarrow> (store_error, llm_db) result" where
  "DeleteQuota tenantID db =
    (if ld_fault db then Inl ErrSQL
     else if get_row lq_TenantID tenantID (ld_quotas db) = None then Inl ErrNotFound
     else Inr (db \<lparr> ld_quotas := delete_row lq_TenantID tenantID (ld_quotas db) \<rparr>))"

subsection \<open>Prices and daily costs\<close>

definition SetUnitCost :: "LLMUnitCost \<Rightarrow> llm_db \<Rightarrow> (store_error, llm_db) result" where
  "SetUnitCost c db =
    (if uc_ProviderDriver c = '''' \<or> uc_ProviderModel c = '''' then Inl ErrArgs
     else if ld_fault db then Inl ErrSQL
     else Inr (db \<lparr> ld_unit := put_row unit_key c (ld_unit db) \<rparr>))"

definition GetUnitCost :: "llm_db \<Rightarrow> string \<Rightarrow> string \<Rightarrow> (store_error, LLMUnitCost) result" where
  "GetUnitCost db driver model =
    (if ld_fault db then Inl ErrSQL else found (get_row unit_key (driver, model) (ld_unit db)))"

definition ListUnitCosts :: "llm_db \<Rightarrow> (store_error, LLMUnitCost list) result" where
  "ListUnitCosts db =
    (if ld_fault db then Inl ErrSQL
     else Inr (sort_key uc_ProviderDriver (sort_key uc_ProviderModel (ld_unit db))))"

definition AddUsage ::
  "string \<Rightarrow> string \<Rightarrow> string \<Rightarrow> int \<Rightarrow> int \<Rightarrow> int \<Rightarrow> rat \<Rightarrow> llm_db \<Rightarrow> (store_error, llm_db) result" where
  "AddUsage tenantID day alias requests inputTok outputTok costUSD db =
    (if tenantID = '''' \<or> day = '''' \<or> alias = '''' then Inl ErrArgs
     else if ld_fault db then Inl ErrSQL
     else if get_row daily_key (tenantID, day, alias) (ld_daily db) = None
     then Inr (db \<lparr> ld_daily := ld_daily db @ [\<lparr> cd_TenantID = tenantID, cd_Day = day, cd_Alias = alias,
       cd_Requests = requests, cd_InputTok = inputTok, cd_OutputTok = outputTok, cd_CostUSD = costUSD \<rparr>] \<rparr>)
     else Inr (db \<lparr> ld_daily := update_row daily_key (tenantID, day, alias)
       (\<lambda>d. d \<lparr> cd_Requests := cd_Requests d + requests, cd_InputTok := cd_InputTok d + inputTok,
               cd_OutputTok := cd_OutputTok d + outputTok, cd_CostUSD := cd_CostUSD d + costUSD \<rparr>) (ld_daily db) \<rparr>))"

definition ListDaily :: "llm_db \<Rightarrow> string \<Rightarrow> string \<Rightarrow> string \<Rightarrow> (store_error, LLMCostDaily list) result" where
  "ListDaily db tenantID fromDay toDay =
    (if tenantID = '''' then Inl ErrArgs
     else if ld_fault db then Inl ErrSQL
     else Inr (sort_desc cd_Day (sort_key cd_Alias (filter (\<lambda>d. cd_TenantID d = tenantID
       \<and> (fromDay \<noteq> '''' \<longrightarrow> fromDay \<le> cd_Day d) \<and> (toDay \<noteq> '''' \<longrightarrow> cd_Day d \<le> toDay)) (ld_daily db)))))"

subsection \<open>Chat sessions\<close>

definition CreateSession :: "string \<Rightarrow> LLMChatSession \<Rightarrow> llm_db \<Rightarrow> (store_error, llm_db) result" where
  "CreateSession now s db =
    (if chs_TenantID s = '''' \<or> chs_ChatID s = '''' then Inl ErrArgs
     else if chs_Alias s = '''' then Inl ErrArgs
     else if ld_fault db then Inl ErrSQL
     else if get_row chat_key (chat_key s) (ld_sessions db) \<noteq> None then Inl ErrSQL
     else Inr (db \<lparr> ld_sessions := ld_sessions db @ [s \<lparr> chs_StartedAt := or_text (chs_StartedAt s) now \<rparr>] \<rparr>))"

definition GetSession :: "llm_db \<Rightarrow> string \<Rightarrow> string \<Rightarrow> (store_error, LLMChatSession) result" where
  "GetSession db tenantID chatID =
    (if ld_fault db then Inl ErrSQL else found (get_row chat_key (tenantID, chatID) (ld_sessions db)))"

definition ListSessions :: "llm_db \<Rightarrow> string \<Rightarrow> int \<Rightarrow> (store_error, LLMChatSession list) result" where
  "ListSessions db tenantID limit =
    (if tenantID = '''' then Inl ErrArgs
     else if ld_fault db then Inl ErrSQL
     else let rows = sort_desc chs_StartedAt (filter (\<lambda>s. chs_TenantID s = tenantID) (ld_sessions db)) in
       Inr (if 0 < limit then take (nat limit) rows else rows))"

definition EndSession :: "string \<Rightarrow> string \<Rightarrow> string \<Rightarrow> string \<Rightarrow> llm_db \<Rightarrow> (store_error, llm_db) result" where
  "EndSession now tenantID chatID summary db =
    (if tenantID = '''' \<or> chatID = '''' then Inl ErrArgs
     else if ld_fault db then Inl ErrSQL
     else if get_row chat_key (tenantID, chatID) (ld_sessions db) = None then Inl ErrNotFound
     else Inr (db \<lparr> ld_sessions := update_row chat_key (tenantID, chatID)
       (\<lambda>s. s \<lparr> chs_EndedAt := now, chs_Summary := summary \<rparr>) (ld_sessions db) \<rparr>))"

definition chat_messages :: "string \<times> string \<Rightarrow> LLMChatMessage list \<Rightarrow> LLMChatMessage list" where
  "chat_messages k ms = filter (\<lambda>m. message_chat m = k) ms"

text \<open>\<open>COALESCE(MAX(seq), 0)\<close> over a chat.\<close>

definition max_seq :: "string \<times> string \<Rightarrow> LLMChatMessage list \<Rightarrow> int" where
  "max_seq k ms = foldr (\<lambda>m acc. max (chm_Seq m) acc) (chat_messages k ms) 0"

definition AppendMessage ::
  "string \<Rightarrow> LLMChatMessage \<Rightarrow> llm_db \<Rightarrow> (store_error, LLMChatMessage \<times> llm_db) result" where
  "AppendMessage now m db =
    (if chm_TenantID m = '''' \<or> chm_ChatID m = '''' then Inl ErrArgs
     else if chm_Role m = '''' then Inl ErrArgs
     else if chm_ContentJSON m = '''' then Inl ErrArgs
     else if ld_fault db then Inl ErrSQL
     else if ld_fk db \<and> get_row chat_key (message_chat m) (ld_sessions db) = None then Inl ErrSQL
     else let m' = m \<lparr> chm_Seq := max_seq (message_chat m) (ld_messages db) + 1, chm_CreatedAt := now \<rparr> in
       Inr (m', db \<lparr> ld_messages := ld_messages db @ [m'] \<rparr>))"

definition ListMessages :: "llm_db \<Rightarrow> string \<Rightarrow> string \<Rightarrow> (store_error, LLMChatMessage list) result" where
  "ListMessages db tenantID chatID =
    (if tenantID = '''' \<or> chatID = '''' then Inl ErrArgs
     else if ld_fault db then Inl ErrSQL
     else Inr (sort_key chm_Seq (chat_messages (tenantID, chatID) (ld_messages db))))"

subsection \<open>The invariant of the tables\<close>

text \<open>Keys are unique, references hold while they are enforced, and the sequence numbers of a chat
  count its messages from one.\<close>

definition chats_ok :: "LLMChatMessage list \<Rightarrow> bool" where
  "chats_ok ms \<longleftrightarrow> (\<forall>k. map chm_Seq (chat_messages k ms) = [1..int (length (chat_messages k ms))])"

definition unique_keys :: "llm_db \<Rightarrow> bool" where
  "unique_keys db \<longleftrightarrow> distinct (map provider_key (ld_providers db)) \<and> distinct (map pkey_key (ld_keys db)) \<and>
     distinct (map model_key (ld_models db)) \<and> distinct (map lq_TenantID (ld_quotas db)) \<and>
     distinct (map unit_key (ld_unit db)) \<and> distinct (map daily_key (ld_daily db)) \<and>
     distinct (map chat_key (ld_sessions db))"

definition refs_ok :: "llm_db \<Rightarrow> bool" where
  "refs_ok db \<longleftrightarrow> (ld_fk db \<longrightarrow>
     key_provider ` set (ld_keys db) \<subseteq> provider_key ` set (ld_providers db) \<and>
     model_provider ` set (ld_models db) \<subseteq> provider_key ` set (ld_providers db) \<and>
     message_chat ` set (ld_messages db) \<subseteq> chat_key ` set (ld_sessions db))"

definition llm_inv :: "llm_db \<Rightarrow> bool" where
  "llm_inv db \<longleftrightarrow> unique_keys db \<and> refs_ok db \<and> chats_ok (ld_messages db)"

lemma foldr_max_upto: "0 \<le> n \<Longrightarrow> foldr max [1..n] (a::int) = (if n = 0 then a else max n a)"
proof (induction "nat n" arbitrary: n a)
  case (Suc m)
  then have "[1..n] = [1..n - 1] @ [n]"
    by (intro upto_rec2) auto
  with Suc show ?case
    by (cases "n = 1") (auto simp: max_def)
qed simp

lemma max_seq_count:
  assumes "chats_ok ms"
  shows "max_seq k ms = int (length (chat_messages k ms))"
proof -
  have "max_seq k ms = foldr max (map chm_Seq (chat_messages k ms)) 0"
    by (simp add: max_seq_def foldr_map o_def)
  moreover have "map chm_Seq (chat_messages k ms) = [1..int (length (chat_messages k ms))]"
    using assms unfolding chats_ok_def by blast
  ultimately show ?thesis
    by (simp add: foldr_max_upto)
qed

lemma chats_ok_append:
  assumes "chats_ok ms"
  shows "chats_ok (ms @ [m \<lparr> chm_Seq := max_seq (message_chat m) ms + 1, chm_CreatedAt := now \<rparr>])"
proof -
  have upto: "[1..int n + 1] = [1..int n] @ [int n + 1]" for n
    using upto_rec2 [of 1 "int n + 1"] by simp
  show ?thesis
    using assms unfolding chats_ok_def max_seq_count [OF assms]
    by (auto simp: chat_messages_def message_chat_def upto)
qed

subsection \<open>Every operation keeps the invariant\<close>

datatype llm_op =
    OpCreateProvider string LLMProvider
  | OpUpdateProvider string LLMProvider
  | OpDeleteProvider string string
  | OpAddKey string LLMProviderKey
  | OpDeleteKey string string string
  | OpCreateModel string LLMModel
  | OpUpdateModel string LLMModel
  | OpDeleteModel string string
  | OpSetQuota string LLMQuota
  | OpDeleteQuota string
  | OpSetUnitCost LLMUnitCost
  | OpAddUsage string string string int int int rat
  | OpCreateSession string LLMChatSession
  | OpEndSession string string string string
  | OpAppendMessage string LLMChatMessage

fun llm_exec :: "llm_op \<Rightarrow> llm_db \<Rightarrow> (store_error, llm_db) result" where
  "llm_exec (OpCreateProvider now p) db = CreateProvider now p db"
| "llm_exec (OpUpdateProvider now p) db = UpdateProvider now p db"
| "llm_exec (OpDeleteProvider t n) db = DeleteProvider t n db"
| "llm_exec (OpAddKey now k) db = AddKey now k db"
| "llm_exec (OpDeleteKey t n k) db = DeleteKey t n k db"
| "llm_exec (OpCreateModel now m) db = CreateModel now m db"
| "llm_exec (OpUpdateModel now m) db = UpdateModel now m db"
| "llm_exec (OpDeleteModel t a) db = DeleteModel t a db"
| "llm_exec (OpSetQuota now q) db = SetQuota now q db"
| "llm_exec (OpDeleteQuota t) db = DeleteQuota t db"
| "llm_exec (OpSetUnitCost c) db = SetUnitCost c db"
| "llm_exec (OpAddUsage t d a r i o' c) db = AddUsage t d a r i o' c db"
| "llm_exec (OpCreateSession now s) db = CreateSession now s db"
| "llm_exec (OpEndSession now t c s) db = EndSession now t c s db"
| "llm_exec (OpAppendMessage now m) db = res_bind (AppendMessage now m db) (\<lambda>(m', db'). Inr db')"

text \<open>A failed operation leaves the tables as they were.\<close>

fun llm_ops :: "llm_op list \<Rightarrow> llm_db \<Rightarrow> llm_db" where
  "llm_ops [] db = db"
| "llm_ops (q # qs) db = llm_ops qs (case llm_exec q db of Inl e \<Rightarrow> db | Inr db' \<Rightarrow> db')"

definition empty_llm :: "bool \<Rightarrow> llm_db" where
  "empty_llm fk = \<lparr> ld_fault = False, ld_fk = fk, ld_providers = [], ld_keys = [], ld_models = [], ld_quotas = [],
     ld_unit = [], ld_daily = [], ld_sessions = [], ld_messages = [] \<rparr>"

lemmas llm_ops_defs = CreateProvider_def UpdateProvider_def DeleteProvider_def AddKey_def DeleteKey_def
  CreateModel_def UpdateModel_def DeleteModel_def SetQuota_def DeleteQuota_def SetUnitCost_def AddUsage_def
  CreateSession_def EndSession_def AppendMessage_def

lemmas llm_row_defs = provider_created_def provider_updated_def key_added_def model_created_def model_updated_def
  model_defaults_def

lemmas llm_key_defs = provider_key_def pkey_key_def model_key_def unit_key_def daily_key_def chat_key_def
  message_chat_def key_provider_def model_provider_def

lemma keys_of_changed_rows [simp]:
  "provider_key (provider_created now p) = provider_key p"
  "provider_key ((provider_updated now p) \<lparr> lp_CreatedAt := c \<rparr>) = provider_key p"
  "pkey_key (key_added now k) = pkey_key k" "key_provider (key_added now k) = key_provider k"
  "model_key (model_created now m) = model_key m" "model_provider (model_created now m) = model_provider m"
  "model_key ((model_updated now m) \<lparr> lm_CreatedAt := c \<rparr>) = model_key m"
  "model_provider ((model_updated now m) \<lparr> lm_CreatedAt := c \<rparr>) = model_provider m"
  "chat_key (s \<lparr> chs_StartedAt := st \<rparr>) = chat_key s"
  "chat_key (s \<lparr> chs_EndedAt := e, chs_Summary := sm \<rparr>) = chat_key s"
  "message_chat (ms \<lparr> chm_Seq := n, chm_CreatedAt := c \<rparr>) = message_chat ms"
  "daily_key (d \<lparr> cd_Requests := a, cd_InputTok := b, cd_OutputTok := e', cd_CostUSD := f \<rparr>) = daily_key d"
  "daily_key \<lparr> cd_TenantID = t, cd_Day = dy, cd_Alias = al, cd_Requests = a, cd_InputTok = b, cd_OutputTok = e',
     cd_CostUSD = f \<rparr> = (t, dy, al)"
  by (simp_all add: llm_row_defs llm_key_defs)

lemma unique_keys_op: "unique_keys db \<Longrightarrow> llm_exec q db = Inr db' \<Longrightarrow> unique_keys db'"
  by (cases q)
    (auto simp: unique_keys_def llm_ops_defs Let_def distinct_put_row distinct_delete_row map_update_row
      get_row_None simp del: image_iff split: if_splits)

lemma chats_ok_op: "chats_ok (ld_messages db) \<Longrightarrow> llm_exec q db = Inr db' \<Longrightarrow> chats_ok (ld_messages db')"
  by (cases q) (auto simp: llm_ops_defs Let_def chats_ok_append split: if_splits)

lemma refs_ok_op:
  assumes "refs_ok db" and "llm_exec q db = Inr db'"
  shows "refs_ok db'"
proof (cases "ld_fk db")
  case False
  with assms(2) have "\<not> ld_fk db'"
    by (cases q) (auto simp: llm_ops_defs Let_def split: if_splits)
  then show ?thesis by (simp add: refs_ok_def)
next
  case True
  show ?thesis
  proof (cases q)
    case (OpCreateProvider now p)
    with assms True show ?thesis
      by (auto simp: refs_ok_def image_subset_iff CreateProvider_def Let_def keys_put_row set_delete_row split: if_splits)
  next
    case (OpUpdateProvider now p)
    with assms True show ?thesis
      by (auto simp: refs_ok_def image_subset_iff UpdateProvider_def keys_update_row split: if_splits)
  next
    case (OpDeleteProvider t n)
    with assms True show ?thesis
      by (auto simp: refs_ok_def image_subset_iff DeleteProvider_def keys_delete_row mem_delete_row list_ex_iff split: if_splits)
  next
    case (OpAddKey now k)
    with assms True show ?thesis
      by (auto simp: refs_ok_def image_subset_iff AddKey_def get_row_None set_put_row split: if_splits)
  next
    case (OpCreateModel now m)
    with assms True show ?thesis
      by (auto simp: refs_ok_def image_subset_iff CreateModel_def model_fk_ok_def get_row_None set_put_row split: if_splits)
  next
    case (OpUpdateModel now m)
    with assms True show ?thesis
      by (auto simp: refs_ok_def image_subset_iff UpdateModel_def model_fk_ok_def get_row_None set_update_row split: if_splits)
  next
    case (OpEndSession now t c s)
    with assms True show ?thesis
      by (auto simp: refs_ok_def image_subset_iff EndSession_def keys_update_row split: if_splits)
  next
    case (OpAppendMessage now m)
    with assms True show ?thesis
      by (auto simp: refs_ok_def image_subset_iff AppendMessage_def Let_def get_row_None split: if_splits)
  qed (use assms True in \<open>auto simp: refs_ok_def image_subset_iff llm_ops_defs Let_def set_delete_row split: if_splits\<close>)
qed

lemma llm_inv_op: "llm_inv db \<Longrightarrow> llm_exec q db = Inr db' \<Longrightarrow> llm_inv db'"
  unfolding llm_inv_def using unique_keys_op refs_ok_op chats_ok_op by blast

lemma llm_inv_ops: "llm_inv db \<Longrightarrow> llm_inv (llm_ops qs db)"
  by (induction qs arbitrary: db) (auto intro: llm_inv_op split: sum.splits)

lemma llm_inv_empty: "llm_inv (empty_llm fk)"
  by (simp add: llm_inv_def empty_llm_def unique_keys_def refs_ok_def chats_ok_def chat_messages_def)

lemma sorted_chat:
  assumes "chats_ok ms"
  shows "sort_key chm_Seq (chat_messages k ms) = chat_messages k ms"
proof -
  have "map chm_Seq (chat_messages k ms) = [1..int (length (chat_messages k ms))]"
    using assms unfolding chats_ok_def by blast
  then have "sorted (map chm_Seq (chat_messages k ms))"
    by simp
  then show ?thesis
    by (rule sort_key_id_if_sorted)
qed

text \<open>C40: after any sequence of operations on a fresh database, with or without foreign keys, a chat reads
  back its messages in the order of the appends with the sequence numbers 1, 2, 3, \<dots>; while foreign keys are
  enforced every alias and every provider key refers to a provider of its tenant, and every message to
  its chat; primary keys stay unique.\<close>

theorem llm_tables_consistent:
  shows "unique_keys (llm_ops qs (empty_llm fk)) \<and> refs_ok (llm_ops qs (empty_llm fk)) \<and>
    (ListMessages (llm_ops qs (empty_llm fk)) t c = Inr ms \<longrightarrow>
       ms = chat_messages (t, c) (ld_messages (llm_ops qs (empty_llm fk))) \<and> map chm_Seq ms = [1..int (length ms)])"
proof -
  let ?db = "llm_ops qs (empty_llm fk)"
  have inv: "unique_keys ?db" "refs_ok ?db" and chats: "chats_ok (ld_messages ?db)"
    using llm_inv_ops [OF llm_inv_empty] unfolding llm_inv_def by blast+
  moreover have "map chm_Seq (chat_messages (t, c) (ld_messages ?db)) =
      [1..int (length (chat_messages (t, c) (ld_messages ?db)))]"
    using chats unfolding chats_ok_def by blast
  ultimately show ?thesis
    by (auto simp: ListMessages_def sorted_chat split: if_splits)
qed

definition sample_chat :: "llm_op list" where
  "sample_chat = (let msg = (\<lambda>r x. OpAppendMessage ''t'' \<lparr> chm_TenantID = ''acme'', chm_ChatID = ''c1'', chm_Seq = 0,
       chm_Role = r, chm_ContentJSON = x, chm_ToolCallID = '''', chm_SpanID = '''', chm_CreatedAt = '''' \<rparr>) in
     [OpCreateSession ''t'' \<lparr> chs_TenantID = ''acme'', chs_ChatID = ''c1'', chs_UserID = ''u'', chs_Alias = ''fast'',
        chs_StartedAt = '''', chs_EndedAt = '''', chs_Summary = '''' \<rparr>, msg ''user'' ''hi'', msg ''assistant'' ''hello''])"

text \<open>A chat of two messages, read back in order.\<close>

theorem llm_tables_consistent_witness:
  "\<exists>ms. ListMessages (llm_ops sample_chat (empty_llm True)) ''acme'' ''c1'' = Inr ms \<and>
     map chm_Seq ms = [1, 2] \<and> map chm_Role ms = [''user'', ''assistant'']"
proof -
  obtain ms where ms: "ListMessages (llm_ops sample_chat (empty_llm True)) ''acme'' ''c1'' = Inr ms"
      "map chm_Role ms = [''user'', ''assistant'']"
    by (simp add: sample_chat_def empty_llm_def ListMessages_def llm_ops_defs Let_def or_text_def
        llm_key_defs max_seq_def chat_messages_def get_row_def)
  have "length ms = 2"
    using arg_cong [OF ms(2), of length] by simp
  moreover have "map chm_Seq ms = [1..int (length ms)]"
    using llm_tables_consistent [of sample_chat True "''acme''" "''c1''" ms] ms(1) by blast
  ultimately show ?thesis
    using ms by (auto simp: upto_rec1)
qed

subsection \<open>Tenants do not touch each other's rows\<close>

fun op_tenant :: "llm_op \<Rightarrow> string option" where
  "op_tenant (OpCreateProvider now p) = Some (lp_TenantID p)"
| "op_tenant (OpUpdateProvider now p) = Some (lp_TenantID p)"
| "op_tenant (OpDeleteProvider t n) = Some t"
| "op_tenant (OpAddKey now k) = Some (lk_TenantID k)"
| "op_tenant (OpDeleteKey t n k) = Some t"
| "op_tenant (OpCreateModel now m) = Some (lm_TenantID m)"
| "op_tenant (OpUpdateModel now m) = Some (lm_TenantID m)"
| "op_tenant (OpDeleteModel t a) = Some t"
| "op_tenant (OpSetQuota now q) = Some (lq_TenantID q)"
| "op_tenant (OpDeleteQuota t) = Some t"
| "op_tenant (OpSetUnitCost c) = None"
| "op_tenant (OpAddUsage t d a r i o' c) = Some t"
| "op_tenant (OpCreateSession now s) = Some (chs_TenantID s)"
| "op_tenant (OpEndSession now t c s) = Some t"
| "op_tenant (OpAppendMessage now m) = Some (chm_TenantID m)"

definition tenant_view :: "string \<Rightarrow> llm_db \<Rightarrow> llm_db" where
  "tenant_view t db = db \<lparr> ld_providers := filter (\<lambda>p. lp_TenantID p = t) (ld_providers db),
     ld_keys := filter (\<lambda>k. lk_TenantID k = t) (ld_keys db), ld_models := filter (\<lambda>m. lm_TenantID m = t) (ld_models db),
     ld_quotas := filter (\<lambda>q. lq_TenantID q = t) (ld_quotas db), ld_unit := [],
     ld_daily := filter (\<lambda>d. cd_TenantID d = t) (ld_daily db),
     ld_sessions := filter (\<lambda>s. chs_TenantID s = t) (ld_sessions db),
     ld_messages := filter (\<lambda>m. chm_TenantID m = t) (ld_messages db) \<rparr>"

lemma filter_put_row:
  "\<forall>x. key x = key r \<longrightarrow> \<not> P x \<Longrightarrow> filter P (put_row key r rows) = filter P rows"
  by (induction rows) (auto simp: put_row_def)

lemma filter_delete_row:
  "\<forall>x. key x = k \<longrightarrow> \<not> P x \<Longrightarrow> filter P (delete_row key k rows) = filter P rows"
  by (induction rows) (auto simp: delete_row_def)

lemma filter_update_row:
  "\<forall>x. key x = k \<longrightarrow> \<not> P x \<and> \<not> P (f x) \<Longrightarrow> filter P (update_row key k f rows) = filter P rows"
  by (induction rows) (auto simp: update_row_def)

lemma other_tenants_kept:
  assumes "op_tenant q \<noteq> Some t" and "llm_exec q db = Inr db'"
  shows "tenant_view t db' = tenant_view t db"
  using assms
  by (cases q)
    (auto simp: tenant_view_def llm_ops_defs Let_def filter_put_row filter_delete_row filter_update_row llm_key_defs
      llm_row_defs split: if_splits)

subsection \<open>Creating a provider again\<close>

text \<open>Creating a provider under a name that exists drops the keys stored for it while foreign keys are
  enforced.\<close>

lemma create_provider_drops_keys:
  assumes "ld_fk db" and "get_row provider_key (provider_key p) (ld_providers db) \<noteq> None"
    and "CreateProvider now p db = Inr db'"
  shows "ListKeys db' (lp_TenantID p) (lp_Name p) = Inr []"
  using assms
  by (auto simp: CreateProvider_def ListKeys_def Let_def delete_row_def provider_key_def key_provider_def
      filter_empty_conv split: if_splits)

end
