(* ===== verification/LLM_Quota.thy ===== *)
theory LLM_Quota
  imports Go_Time
begin

text \<open>
  \<open>internal/llm/quota/enforcer.go\<close>: the per-tenant rate and token limits of
  the LLM gateway, kept in memory as the instants of the accepted requests of
  the last minute and the token usage of the last day.  The clock is an
  argument of each call, as it is injected into the enforcer; one call runs
  under the enforcer's mutex, so a history of calls is a list of them.
\<close>

record Limits =
  lim_RequestsPerMinute :: int
  lim_TokensPerMinute :: int
  lim_TokensPerDay :: int

record quota_window =
  qw_requests :: "time list"
  qw_tokens :: "(time \<times> int) list"

type_synonym quota_enforcer = "(string, quota_window) amap"

definition windowLocked :: "quota_enforcer \<Rightarrow> string \<Rightarrow> quota_window" where
  "windowLocked e tenantID =
    (case aget e tenantID of Some w \<Rightarrow> w | None \<Rightarrow> \<lparr> qw_requests = [], qw_tokens = [] \<rparr>)"

definition quota_prune :: "time \<Rightarrow> quota_window \<Rightarrow> quota_window" where
  "quota_prune now w = \<lparr>
    qw_requests = filter (\<lambda>t. now - minute < t) (qw_requests w),
    qw_tokens = filter (\<lambda>u. now - 24 * hour < fst u) (qw_tokens w) \<rparr>"

definition quota_sums :: "time \<Rightarrow> quota_window \<Rightarrow> int \<times> int" where
  "quota_sums now w =
    (sum_list (map snd (filter (\<lambda>u. now - minute < fst u) (qw_tokens w))),
     sum_list (map snd (qw_tokens w)))"

text \<open>\<open>Check\<close>: the first breached limit by name, or nothing and the request recorded.\<close>

definition quota_Check :: "time \<Rightarrow> string \<Rightarrow> Limits \<Rightarrow> quota_enforcer \<Rightarrow> string option \<times> quota_enforcer" where
  "quota_Check now tenantID lim e =
    (let w = quota_prune now (windowLocked e tenantID);
         pruned = aput tenantID w e;
         (minuteTokens, dayTokens) = quota_sums now w in
     if 0 < lim_RequestsPerMinute lim \<and> lim_RequestsPerMinute lim \<le> int (length (qw_requests w))
     then (Some ''requests_per_minute'', pruned)
     else if 0 < lim_TokensPerMinute lim \<and> lim_TokensPerMinute lim \<le> minuteTokens
     then (Some ''tokens_per_minute'', pruned)
     else if 0 < lim_TokensPerDay lim \<and> lim_TokensPerDay lim \<le> dayTokens
     then (Some ''tokens_per_day'', pruned)
     else (None, aput tenantID (w \<lparr> qw_requests := qw_requests w @ [now] \<rparr>) e))"

definition RecordUsage :: "time \<Rightarrow> string \<Rightarrow> int \<Rightarrow> quota_enforcer \<Rightarrow> quota_enforcer" where
  "RecordUsage now tenantID tokens e =
    (if tokens \<le> 0 then e
     else let w = windowLocked e tenantID in
       aput tenantID (w \<lparr> qw_tokens := qw_tokens w @ [(now, tokens)] \<rparr>) e)"

subsection \<open>Histories of calls\<close>

datatype quota_call =
  QCheck (qc_at: time) (qc_tenant: string) (qc_limits: Limits)
| QRecord (qc_at: time) (qc_tenant: string) (qc_tokens: int)

text \<open>The answers of a history: for each call, \<^const>\<open>None\<close> for an accepted request and for a record.\<close>

fun quota_run :: "quota_call list \<Rightarrow> quota_enforcer \<Rightarrow> string option list" where
  "quota_run [] e = []"
| "quota_run (QCheck now t lim # cs) e =
    (let (ans, e') = quota_Check now t lim e in ans # quota_run cs e')"
| "quota_run (QRecord now t n # cs) e = None # quota_run cs (RecordUsage now t n e)"

text \<open>The specification keeps everything: the instants of all accepted requests and all recorded
  usage, and decides on what falls into the sliding windows.\<close>

record quota_history =
  qh_accepted :: "(string \<times> time) list"
  qh_usage :: "(string \<times> time \<times> int) list"

definition accepted_since :: "quota_history \<Rightarrow> string \<Rightarrow> time \<Rightarrow> time list" where
  "accepted_since h t since = filter (\<lambda>x. since < x) (map snd (filter (\<lambda>p. fst p = t) (qh_accepted h)))"

definition used_since :: "quota_history \<Rightarrow> string \<Rightarrow> time \<Rightarrow> (time \<times> int) list" where
  "used_since h t since = filter (\<lambda>u. since < fst u) (map snd (filter (\<lambda>p. fst p = t) (qh_usage h)))"

definition spec_decision :: "time \<Rightarrow> string \<Rightarrow> Limits \<Rightarrow> quota_history \<Rightarrow> string option" where
  "spec_decision now t lim h =
    (if 0 < lim_RequestsPerMinute lim \<and> lim_RequestsPerMinute lim \<le> int (length (accepted_since h t (now - minute)))
     then Some ''requests_per_minute''
     else if 0 < lim_TokensPerMinute lim \<and>
       lim_TokensPerMinute lim \<le> sum_list (map snd (used_since h t (now - minute)))
     then Some ''tokens_per_minute''
     else if 0 < lim_TokensPerDay lim \<and>
       lim_TokensPerDay lim \<le> sum_list (map snd (used_since h t (now - 24 * hour)))
     then Some ''tokens_per_day''
     else None)"

fun spec_step :: "quota_call \<Rightarrow> quota_history \<Rightarrow> string option \<times> quota_history" where
  "spec_step (QCheck now t lim) h =
    (let ans = spec_decision now t lim h in
     (ans, if ans = None then h \<lparr> qh_accepted := qh_accepted h @ [(t, now)] \<rparr> else h))"
| "spec_step (QRecord now t n) h =
    (None, if n \<le> 0 then h else h \<lparr> qh_usage := qh_usage h @ [(t, now, n)] \<rparr>)"

fun spec_run :: "quota_call list \<Rightarrow> quota_history \<Rightarrow> string option list" where
  "spec_run [] h = []"
| "spec_run (c # cs) h = (let (ans, h') = spec_step c h in ans # spec_run cs h')"

definition empty_history :: quota_history where
  "empty_history = \<lparr> qh_accepted = [], qh_usage = [] \<rparr>"

subsection \<open>Pruning loses nothing\<close>

text \<open>At any instant from \<open>s\<close> on, the stored window and the full history leave the same entries.\<close>

definition quota_sim :: "time \<Rightarrow> quota_enforcer \<Rightarrow> quota_history \<Rightarrow> bool" where
  "quota_sim s e h \<longleftrightarrow> (\<forall>t now. s \<le> now \<longrightarrow>
     qw_requests (quota_prune now (windowLocked e t)) = accepted_since h t (now - minute) \<and>
     qw_tokens (quota_prune now (windowLocked e t)) = used_since h t (now - 24 * hour))"

lemma windowLocked_put [simp]:
  "windowLocked (aput t w e) t' = (if t' = t then w else windowLocked e t')"
  by (simp add: windowLocked_def)

lemma prune_sel:
  "qw_requests (quota_prune now w) = filter (\<lambda>t. now - minute < t) (qw_requests w)"
  "qw_tokens (quota_prune now w) = filter (\<lambda>u. now - 24 * hour < fst u) (qw_tokens w)"
  by (simp_all add: quota_prune_def)

lemma prune_prune: "s \<le> now \<Longrightarrow> quota_prune now (quota_prune s w) = quota_prune now w"
  unfolding quota_prune_def by (auto intro!: filter_cong)

lemma sim_empty: "quota_sim s [] empty_history"
  by (simp add: quota_sim_def windowLocked_def prune_sel accepted_since_def used_since_def empty_history_def)

lemma sim_later: "\<lbrakk> quota_sim s e h; s \<le> now \<rbrakk> \<Longrightarrow> quota_sim now e h"
  by (simp add: quota_sim_def)

lemma sim_at:
  assumes "quota_sim s e h" and "s \<le> now"
  shows "qw_requests (quota_prune now (windowLocked e t)) = accepted_since h t (now - minute)"
    and "qw_tokens (quota_prune now (windowLocked e t)) = used_since h t (now - 24 * hour)"
  using assms by (simp_all add: quota_sim_def)

lemma sim_pruned:
  assumes "quota_sim now e h"
  shows "quota_sim now (aput t (quota_prune now (windowLocked e t)) e) h"
  using assms by (simp add: quota_sim_def prune_prune)

lemma used_since_shorter:
  "filter (\<lambda>u. now - minute < fst u) (used_since h t (now - 24 * hour)) = used_since h t (now - minute)"
  unfolding used_since_def filter_filter by (rule filter_cong) (auto simp: minute_def hour_def second_def)

lemma check_decision:
  assumes "quota_sim s e h" and "s \<le> now"
  shows "fst (quota_Check now t lim e) = spec_decision now t lim h"
  by (simp add: quota_Check_def spec_decision_def quota_sums_def sim_at [OF assms] used_since_shorter Let_def)

lemma check_state:
  "snd (quota_Check now t lim e) =
    (let w = quota_prune now (windowLocked e t) in
     if fst (quota_Check now t lim e) = None
     then aput t (w \<lparr> qw_requests := qw_requests w @ [now] \<rparr>) e else aput t w e)"
  by (simp add: quota_Check_def Let_def split: prod.splits)

lemma sim_accept:
  assumes "quota_sim now e h"
  shows "quota_sim now (aput t (quota_prune now (windowLocked e t) \<lparr> qw_requests :=
             qw_requests (quota_prune now (windowLocked e t)) @ [now] \<rparr>) e)
           (h \<lparr> qh_accepted := qh_accepted h @ [(t, now)] \<rparr>)"
proof -
  have *: "filter (\<lambda>x. n - minute < x) (accepted_since h t (now - minute)) = accepted_since h t (n - minute)"
    "filter (\<lambda>u. n - 24 * hour < fst u) (used_since h t (now - 24 * hour)) = used_since h t (n - 24 * hour)"
    if "now \<le> n" for n
    using that unfolding accepted_since_def used_since_def filter_filter by (auto intro!: filter_cong)
  show ?thesis
    unfolding quota_sim_def
    using sim_at [OF assms] * by (auto simp: prune_sel accepted_since_def used_since_def)
qed

lemma sim_record:
  assumes "quota_sim now e h"
  shows "quota_sim now (aput t (windowLocked e t \<lparr> qw_tokens := qw_tokens (windowLocked e t) @ [(now, n)] \<rparr>) e)
           (h \<lparr> qh_usage := qh_usage h @ [(t, now, n)] \<rparr>)"
  using assms unfolding quota_sim_def
  by (auto simp: prune_sel accepted_since_def used_since_def)

lemma sim_step_check:
  assumes "quota_sim s e h" and "s \<le> now"
  shows "quota_sim now (snd (quota_Check now t lim e)) (snd (spec_step (QCheck now t lim) h))"
  using sim_pruned [OF sim_later [OF assms]] sim_accept [OF sim_later [OF assms]]
  by (simp add: check_state check_decision [OF assms] Let_def)

lemma run_refines:
  assumes "quota_sim s e h" and "sorted (s # map qc_at cs)"
  shows "quota_run cs e = spec_run cs h"
  using assms
proof (induction cs arbitrary: s e h)
  case (Cons c cs)
  show ?case
  proof (cases c)
    case (QCheck now t lim)
    with Cons.prems have le: "s \<le> now" and ord: "sorted (now # map qc_at cs)" by auto
    from Cons.IH [OF sim_step_check [OF Cons.prems(1) le] ord] check_decision [OF Cons.prems(1) le]
    show ?thesis unfolding QCheck by (simp add: case_prod_beta Let_def)
  next
    case (QRecord now t n)
    with Cons.prems have le: "s \<le> now" and ord: "sorted (now # map qc_at cs)" by auto
    note sim = sim_later [OF Cons.prems(1) le]
    have "quota_sim now (RecordUsage now t n e) (snd (spec_step c h))"
      using sim sim_record [OF sim] by (simp add: QRecord RecordUsage_def Let_def)
    from Cons.IH [OF this ord] show ?thesis unfolding QRecord by simp
  qed
qed simp

text \<open>C34: for every history of calls in time order, the answers of the enforcer, which forgets what left its
  windows, are those of the specification that keeps all accepted requests and all usage of all tenants.\<close>

theorem quota_decisions_exact:
  assumes "sorted (map qc_at cs)"
  shows "quota_run cs [] = spec_run cs empty_history"
proof (cases cs)
  case (Cons c cs')
  with assms have "sorted (qc_at c # map qc_at cs)" by simp
  then show ?thesis by (rule run_refines [OF sim_empty])
qed simp

theorem quota_decisions_exact_witness:
  defines "lim \<equiv> \<lparr> lim_RequestsPerMinute = 2, lim_TokensPerMinute = 100, lim_TokensPerDay = 0 \<rparr>"
  defines "cs \<equiv> [QCheck 0 ''acme'' lim, QRecord (30 * second) ''acme'' 100, QCheck (31 * second) ''acme'' lim,
      QCheck (32 * second) ''evil'' lim, QCheck (91 * second) ''acme'' lim]"
  shows "quota_run cs [] = [None, None, Some ''tokens_per_minute'', None, None] \<and>
    quota_run cs [] = spec_run cs empty_history"
proof -
  have "sorted (map qc_at cs)" by (simp add: cs_def second_def)
  from quota_decisions_exact [OF this] show ?thesis
    by (simp add: cs_def lim_def quota_Check_def windowLocked_def quota_prune_def quota_sums_def
        RecordUsage_def second_def minute_def hour_def)
qed

subsection \<open>The request rate in every sliding minute\<close>

definition accepted_at :: "string \<Rightarrow> quota_call list \<Rightarrow> string option list \<Rightarrow> time list" where
  "accepted_at t cs answers =
    map (\<lambda>(c, a). qc_at c) (filter (\<lambda>(c, a). is_QCheck c \<and> qc_tenant c = t \<and> a = None) (zip cs answers))"

definition in_minute :: "time \<Rightarrow> time list \<Rightarrow> time list" where
  "in_minute a xs = filter (\<lambda>x. a < x \<and> x \<le> a + minute) xs"

definition rate_inv :: "int \<Rightarrow> time \<Rightarrow> time list \<Rightarrow> bool" where
  "rate_inv r now xs \<longleftrightarrow> (\<forall>x \<in> set xs. x \<le> now) \<and> (\<forall>a. int (length (in_minute a xs)) \<le> r)"

lemma rate_inv_later: "\<lbrakk> rate_inv r s xs; s \<le> now \<rbrakk> \<Longrightarrow> rate_inv r now xs"
  by (auto simp: rate_inv_def)

lemma rate_inv_accept:
  assumes "rate_inv r now xs" and "int (length (filter (\<lambda>x. now - minute < x) xs)) < r"
  shows "rate_inv r now (xs @ [now])"
proof -
  have "int (length (in_minute a (xs @ [now]))) \<le> r" for a
  proof (cases "a < now \<and> now \<le> a + minute")
    case True
    then have "length (in_minute a xs) \<le> length (filter (\<lambda>x. now - minute < x) xs)"
      unfolding in_minute_def by (intro length_filter_mono) auto
    with assms(2) True show ?thesis by (simp add: in_minute_def)
  next
    case False
    then show ?thesis using assms(1) by (auto simp: in_minute_def rate_inv_def)
  qed
  with assms(1) show ?thesis by (auto simp: rate_inv_def)
qed

abbreviation tenant_accepted :: "quota_history \<Rightarrow> string \<Rightarrow> time list" where
  "tenant_accepted h t \<equiv> map snd (filter (\<lambda>p. fst p = t) (qh_accepted h))"

lemma spec_run_rate:
  assumes "rate_inv r s (tenant_accepted h t)" and "sorted (s # map qc_at cs)" and "0 < r"
    and "\<forall>c \<in> set cs. is_QCheck c \<and> qc_tenant c = t \<longrightarrow> lim_RequestsPerMinute (qc_limits c) = r"
  shows "int (length (in_minute a (tenant_accepted h t @ accepted_at t cs (spec_run cs h)))) \<le> r"
  using assms
proof (induction cs arbitrary: s h)
  case Nil
  then show ?case by (simp add: accepted_at_def rate_inv_def)
next
  case (Cons c cs)
  from Cons.prems have le: "s \<le> qc_at c" and ord: "sorted (qc_at c # map qc_at cs)" by auto
  note inv = rate_inv_later [OF Cons.prems(1) le]
  have rest: "\<forall>c \<in> set cs. is_QCheck c \<and> qc_tenant c = t \<longrightarrow> lim_RequestsPerMinute (qc_limits c) = r"
    using Cons.prems(4) by simp
  show ?case
  proof (cases "is_QCheck c \<and> qc_tenant c = t \<and> fst (spec_step c h) = None")
    case True
    then obtain lim where c: "c = QCheck (qc_at c) t lim" by (cases c) auto
    have "lim_RequestsPerMinute lim = r"
      using Cons.prems(4) c by (metis True list.set_intros(1) quota_call.sel(5))
    moreover have dec: "spec_decision (qc_at c) t lim h = None"
      using True by (subst (asm) (2) c) (simp add: Let_def)
    ultimately have "int (length (filter (\<lambda>x. qc_at c - minute < x) (tenant_accepted h t))) < r"
      using \<open>0 < r\<close> by (auto simp: spec_decision_def accepted_since_def split: if_splits)
    moreover have acc: "tenant_accepted (snd (spec_step c h)) t = tenant_accepted h t @ [qc_at c]"
      by (subst c) (simp add: dec)
    ultimately have "rate_inv r (qc_at c) (tenant_accepted (snd (spec_step c h)) t)"
      using rate_inv_accept [OF inv] by simp
    from Cons.IH [OF this ord \<open>0 < r\<close> rest] True acc show ?thesis
      by (simp add: accepted_at_def case_prod_beta Let_def)
  next
    case False
    then have same: "tenant_accepted (snd (spec_step c h)) t = tenant_accepted h t"
      by (cases c) (auto simp: Let_def)
    with inv have "rate_inv r (qc_at c) (tenant_accepted (snd (spec_step c h)) t)" by simp
    from Cons.IH [OF this ord \<open>0 < r\<close> rest] False same show ?thesis
      by (auto simp: accepted_at_def case_prod_beta Let_def)
  qed
qed

text \<open>C35: a tenant whose limit is \<open>r\<close> requests per minute has at most \<open>r\<close> accepted requests in every
  interval of one minute, wherever the interval starts, whatever the other tenants and the recorded usage.\<close>

theorem quota_rate_bound:
  assumes "sorted (map qc_at cs)" and "0 < r"
    and "\<forall>c \<in> set cs. is_QCheck c \<and> qc_tenant c = t \<longrightarrow> lim_RequestsPerMinute (qc_limits c) = r"
  shows "int (length (filter (\<lambda>x. a < x \<and> x \<le> a + minute) (accepted_at t cs (quota_run cs [])))) \<le> r"
proof (cases cs)
  case Nil
  then show ?thesis using assms(2) by (simp add: accepted_at_def)
next
  case (Cons c cs')
  with assms(1) have ord: "sorted (qc_at c # map qc_at cs)" by simp
  have "rate_inv r (qc_at c) (tenant_accepted empty_history t)"
    using assms(2) by (simp add: rate_inv_def empty_history_def in_minute_def)
  from spec_run_rate [OF this ord assms(2,3)] run_refines [OF sim_empty ord]
  show ?thesis by (simp add: empty_history_def in_minute_def)
qed

theorem quota_rate_bound_witness:
  defines "lim \<equiv> \<lparr> lim_RequestsPerMinute = 1, lim_TokensPerMinute = 0, lim_TokensPerDay = 0 \<rparr>"
  defines "cs \<equiv> [QCheck 1 ''acme'' lim, QCheck (2 * second) ''acme'' lim, QCheck (3 * second) ''evil'' lim]"
  shows "accepted_at ''acme'' cs (quota_run cs []) = [1] \<and>
    int (length (filter (\<lambda>x. 0 < x \<and> x \<le> 0 + minute) (accepted_at ''acme'' cs (quota_run cs [])))) \<le> 1"
proof -
  have "sorted (map qc_at cs)" by (simp add: cs_def second_def)
  moreover have "\<forall>c \<in> set cs. is_QCheck c \<and> qc_tenant c = ''acme'' \<longrightarrow> lim_RequestsPerMinute (qc_limits c) = 1"
    by (simp add: cs_def lim_def)
  ultimately show ?thesis
    using quota_rate_bound [of cs 1 "''acme''" 0]
    by (simp add: cs_def lim_def accepted_at_def quota_Check_def windowLocked_def quota_prune_def quota_sums_def
        second_def minute_def hour_def)
qed

end
