(* ===== verification/Budget_Window.thy ===== *)
theory Budget_Window
  imports Go_Calendar
begin

text \<open>
  \<open>internal/budgets/window.go\<close>: the time window a budget counts in.  Calendar
  windows follow the civil calendar in UTC, rolling windows are buckets of a
  fixed length counted from the epoch.  Periods and alignments are strings, as
  they come from storage.
\<close>

datatype window_error = ErrUnknownPeriod | ErrUnknownAlignment

record Window =
  win_Key :: string
  win_Start :: time
  win_ResetsAt :: time

definition ParsePeriod :: "string \<Rightarrow> (window_error, string) result" where
  "ParsePeriod s =
    (if s \<in> set [''1m'', ''1h'', ''1d'', ''1w'', ''1M'', ''1Y''] then Inr s else Inl ErrUnknownPeriod)"

definition ParseAlignment :: "string \<Rightarrow> (window_error, string) result" where
  "ParseAlignment s = (if s \<in> set [''calendar'', ''rolling''] then Inr s else Inl ErrUnknownAlignment)"

definition calendarWindow :: "time \<Rightarrow> string \<Rightarrow> (window_error, Window) result" where
  "calendarWindow now period =
    (let (y, m, d) = civil_of_days (now div day24) in
     if period = ''1m'' then
       let start = now div minute * minute in
       Inr \<lparr> win_Key = ''cal:1m:'' @ fmt_minute start, win_Start = start, win_ResetsAt = start + minute \<rparr>
     else if period = ''1h'' then
       let start = now div hour * hour in
       Inr \<lparr> win_Key = ''cal:1h:'' @ fmt_hour start, win_Start = start, win_ResetsAt = start + hour \<rparr>
     else if period = ''1d'' then
       let start = go_Date y m d in
       Inr \<lparr> win_Key = ''cal:1d:'' @ fmt_day start, win_Start = start, win_ResetsAt = AddDate start 0 0 1 \<rparr>
     else if period = ''1w'' then
       let off = (Weekday now + 6) mod 7; day00 = go_Date y m d; start = AddDate day00 0 0 (- off) in
       Inr \<lparr> win_Key = ''cal:1w:'' @ fmt_day start, win_Start = start, win_ResetsAt = AddDate start 0 0 7 \<rparr>
     else if period = ''1M'' then
       let start = go_Date y m 1 in
       Inr \<lparr> win_Key = ''cal:1M:'' @ fmt_month start, win_Start = start, win_ResetsAt = AddDate start 0 1 0 \<rparr>
     else if period = ''1Y'' then
       let start = go_Date y 1 1 in
       Inr \<lparr> win_Key = ''cal:1Y:'' @ fmt_year start, win_Start = start, win_ResetsAt = AddDate start 1 0 0 \<rparr>
     else Inl ErrUnknownPeriod)"

definition rollingDuration :: "string \<Rightarrow> duration option" where
  "rollingDuration period =
    (if period = ''1m'' then Some minute
     else if period = ''1h'' then Some hour
     else if period = ''1d'' then Some (24 * hour)
     else if period = ''1w'' then Some (7 * 24 * hour)
     else if period = ''1M'' then Some (30 * 24 * hour)
     else if period = ''1Y'' then Some (365 * 24 * hour)
     else None)"

text \<open>Division of integers rounds towards zero in Go.\<close>

definition go_div :: "int \<Rightarrow> int \<Rightarrow> int" where
  "go_div a b = (if a < 0 then - (- a div b) else a div b)"

definition rollingWindow :: "time \<Rightarrow> string \<Rightarrow> (window_error, Window) result" where
  "rollingWindow now period =
    (case rollingDuration period of
       None \<Rightarrow> Inl ErrUnknownPeriod
     | Some dur \<Rightarrow>
         let secs = dur div second; bucket = go_div (now div second) secs; start = bucket * secs * second in
         Inr \<lparr> win_Key = ''roll:'' @ period @ '':'' @ dec_int bucket, win_Start = start, win_ResetsAt = start + dur \<rparr>)"

definition WindowFor :: "time \<Rightarrow> string \<Rightarrow> string \<Rightarrow> (window_error, Window) result" where
  "WindowFor now period alignment =
    (if alignment = ''calendar'' then calendarWindow now period
     else if alignment = ''rolling'' then rollingWindow now period
     else Inl ErrUnknownAlignment)"

subsection \<open>The buckets behind the windows\<close>

text \<open>Each period numbers its windows; \<open>bucket_index\<close> is the number of the window of an instant,
  \<open>bucket_start\<close> where a window starts and \<open>bucket_key\<close> its key.\<close>

definition bucket_index :: "string \<Rightarrow> string \<Rightarrow> time \<Rightarrow> int" where
  "bucket_index p a t =
    (if a = ''rolling'' then t div the (rollingDuration p)
     else if p = ''1m'' then t div minute
     else if p = ''1h'' then t div hour
     else if p = ''1d'' then t div day24
     else if p = ''1w'' then (t div day24 + 3) div 7
     else if p = ''1M'' then month_index (t div day24)
     else year_index (t div day24))"

definition bucket_start :: "string \<Rightarrow> string \<Rightarrow> int \<Rightarrow> time" where
  "bucket_start p a k =
    (if a = ''rolling'' then k * the (rollingDuration p)
     else if p = ''1m'' then k * minute
     else if p = ''1h'' then k * hour
     else if p = ''1d'' then k * day24
     else if p = ''1w'' then (k * 7 - 3) * day24
     else if p = ''1M'' then month_start k * day24
     else year_start k * day24)"

definition bucket_stamp :: "string \<Rightarrow> time \<Rightarrow> string" where
  "bucket_stamp p start =
    (if p = ''1m'' then fmt_minute start else if p = ''1h'' then fmt_hour start
     else if p = ''1d'' \<or> p = ''1w'' then fmt_day start
     else if p = ''1M'' then fmt_month start else fmt_year start)"

definition bucket_key :: "string \<Rightarrow> string \<Rightarrow> int \<Rightarrow> string" where
  "bucket_key p a k =
    (if a = ''rolling'' then ''roll:'' @ p @ '':'' @ dec_int k
     else ''cal:'' @ p @ '':'' @ bucket_stamp p (bucket_start p a k))"

definition periods :: "string set" where
  "periods = {''1m'', ''1h'', ''1d'', ''1w'', ''1M'', ''1Y''}"

definition alignments :: "string set" where
  "alignments = {''calendar'', ''rolling''}"

lemma tiling_scale:
  assumes "tiling idx st" and "0 < w"
  shows "tiling (\<lambda>x. idx (x div w)) (\<lambda>k. st k * w)"
proof -
  have w: "tiling (\<lambda>x. (x + 0) div w) (\<lambda>k. k * w - 0)" by (rule tiling_div) (rule assms(2))
  show ?thesis
  proof (unfold_locales, goal_cases)
    case (1 k)
    from tiling.st_step [OF assms(1), of k] assms(2) show ?case by simp
  next
    case (2 x)
    from tiling.idx_start [OF assms(1), of "x div w"] assms(2) have "st (idx (x div w)) * w \<le> x div w * w" by simp
    also have "\<dots> \<le> x" using tiling.idx_start [OF w, of x] by simp
    finally show ?case .
  next
    case (3 x)
    have "x < (x div w + 1) * w" using tiling.idx_end [OF w, of x] by simp
    also have "\<dots> \<le> st (idx (x div w) + 1) * w"
      using tiling.idx_end [OF assms(1), of "x div w"] assms(2) by (intro mult_right_mono) auto
    finally show ?case .
  qed
qed

lemma rollingDuration_pos: "p \<in> periods \<Longrightarrow> \<exists>d. rollingDuration p = Some d \<and> 0 < d"
  by (auto simp: periods_def rollingDuration_def)

lemma buckets_tile:
  assumes "p \<in> periods" and "a \<in> alignments"
  shows "tiling (bucket_index p a) (bucket_start p a)"
proof (cases "a = ''rolling''")
  case True
  obtain d where "rollingDuration p = Some d" "0 < d" using rollingDuration_pos [OF assms(1)] by blast
  with tiling_div [of d 0] True show ?thesis by (simp add: bucket_index_def [abs_def] bucket_start_def [abs_def])
next
  case False
  have days: "tiling (\<lambda>x. (x + 3) div 7) (\<lambda>k. k * 7 - 3)" by (rule tiling_div) simp
  from False assms(1) consider "p = ''1m''" | "p = ''1h''" | "p = ''1d''" | "p = ''1w''" | "p = ''1M''" | "p = ''1Y''"
    by (auto simp: periods_def)
  then show ?thesis
    using False tiling_div [of minute 0] tiling_div [of hour 0] tiling_div [of day24 0]
      tiling_scale [OF days day24_pos] tiling_scale [OF months.tiling_axioms day24_pos]
      tiling_scale [OF years.tiling_axioms day24_pos]
    by cases (simp_all add: bucket_index_def [abs_def] bucket_start_def [abs_def])
qed

lemma go_Date_civil:
  assumes "civil_of_days z = (y, m, d)"
  shows "go_Date y m d = z * day24" "go_Date y m 1 = month_start (month_index z) * day24"
    "go_Date y 1 1 = year_start (year_index z) * day24"
proof -
  have k: "12 * y + m - 1 = month_index z" using assms by (simp add: month_index_def)
  show "go_Date y m d = z * day24" "go_Date y m 1 = month_start (month_index z) * day24"
    using civil_of_month(3) [OF assms] by (simp_all add: go_Date_month k)
  show "go_Date y 1 1 = year_start (year_index z) * day24"
    using assms by (simp add: go_Date_month year_start_month year_index_def)
qed

lemma AddDate_month: "AddDate (month_start k * day24) 0 1 0 = month_start (k + 1) * day24"
  by (simp add: AddDate_midnight)

lemma AddDate_year: "AddDate (year_start k * day24) 1 0 0 = year_start (k + 1) * day24"
proof -
  have "12 * k + 12 = 12 * (k + 1)" by simp
  then show ?thesis by (simp add: AddDate_midnight year_start_month)
qed

lemma week_start: "z - (z + 3) mod 7 = (z + 3) div 7 * 7 - (3 :: int)"
  using div_mult_mod_eq [of "z + 3" 7] by linarith

lemma calendarWindow_bucket:
  assumes "p \<in> periods"
  shows "calendarWindow now p =
    Inr (let k = bucket_index p ''calendar'' now in
         \<lparr> win_Key = bucket_key p ''calendar'' k, win_Start = bucket_start p ''calendar'' k,
           win_ResetsAt = bucket_start p ''calendar'' (k + 1) \<rparr>)"
proof -
  obtain y m d where c: "civil_of_days (now div day24) = (y, m, d)"
    by (cases "civil_of_days (now div day24)") auto
  note dates = go_Date_civil [OF c]
  have wd: "(Weekday now + 6) mod 7 = (now div day24 + 3) mod 7"
    using mod_add_self2 [of "now div day24 + 3" 7] by (simp add: Weekday_def mod_simps add.commute)
  from assms consider "p = ''1m''" | "p = ''1h''" | "p = ''1d''" | "p = ''1w''" | "p = ''1M''" | "p = ''1Y''"
    by (auto simp: periods_def)
  then show ?thesis
    by cases (simp_all add: calendarWindow_def c dates wd week_start bucket_index_def bucket_start_def bucket_key_def bucket_stamp_def Let_def
        AddDate_month AddDate_year AddDate_days distrib_right)
qed

lemma rollingWindow_bucket:
  assumes "p \<in> periods" and "0 \<le> now"
  shows "rollingWindow now p =
    Inr (let k = bucket_index p ''rolling'' now in
         \<lparr> win_Key = bucket_key p ''rolling'' k, win_Start = bucket_start p ''rolling'' k,
           win_ResetsAt = bucket_start p ''rolling'' (k + 1) \<rparr>)"
proof -
  obtain d where d: "rollingDuration p = Some d" using rollingDuration_pos [OF assms(1)] by blast
  then have "second dvd d" "0 < d"
    by (auto simp: rollingDuration_def minute_def hour_def split: if_splits)
  then obtain n where n: "d = second * n" "0 < n"
    by (metis dvdE duration_pos(1) zero_less_mult_pos)
  have "now div second div n = now div d"
    using n by (simp add: zdiv_zmult2_eq)
  with n assms(2) show ?thesis
    by (simp add: rollingWindow_def d go_div_def bucket_index_def bucket_start_def bucket_key_def Let_def
        pos_imp_zdiv_neg_iff algebra_simps)
qed

lemma WindowFor_bucket:
  assumes "p \<in> periods" and "a \<in> alignments" and "0 \<le> now"
  shows "WindowFor now p a =
    Inr (let k = bucket_index p a now in
         \<lparr> win_Key = bucket_key p a k, win_Start = bucket_start p a k, win_ResetsAt = bucket_start p a (k + 1) \<rparr>)"
  using assms by (auto simp: WindowFor_def alignments_def calendarWindow_bucket rollingWindow_bucket)

subsection \<open>Keys name their windows\<close>

lemma not_digit_pad: "\<lbrakk> c \<notin> set ''0123456789''; 0 \<le> i \<rbrakk> \<Longrightarrow> c \<notin> set (pad_to w (dec_int i))"
  using pad_dec_digits by blast

text \<open>The layouts print the years from 0 on unambiguously.\<close>

definition printable :: "time \<Rightarrow> bool" where
  "printable t \<longleftrightarrow> year_start 0 \<le> t div day24"

lemma civil_nonneg: "\<lbrakk> civil_of_days (t div day24) = (y, m, d); printable t \<rbrakk> \<Longrightarrow> 0 \<le> y \<and> 0 \<le> m \<and> 0 \<le> d"
  using civil_of_days_spec(1,3) [of "t div day24" y m d] years.st_le_idx [of 0 "t div day24"]
    years.st_mono [of y 0]
  by (cases y "0 :: int" rule: linorder_cases) (auto simp: printable_def year_index_def)

lemma fmt_year_inject:
  assumes "printable t" "printable t'" "fmt_year t = fmt_year t'"
  shows "year_index (t div day24) = year_index (t' div day24)"
proof -
  obtain y m d where c: "civil_of_days (t div day24) = (y, m, d)" by (cases "civil_of_days (t div day24)") auto
  obtain y' m' d' where c': "civil_of_days (t' div day24) = (y', m', d')" by (cases "civil_of_days (t' div day24)") auto
  from assms civil_nonneg [OF c] civil_nonneg [OF c'] show ?thesis
    by (auto simp: fmt_year_def c c' year_index_def dest: pad_dec_inject)
qed

lemma fmt_month_inject:
  assumes "printable t" "printable t'" "fmt_month t = fmt_month t'"
  shows "month_index (t div day24) = month_index (t' div day24)"
proof -
  obtain y m d where c: "civil_of_days (t div day24) = (y, m, d)" by (cases "civil_of_days (t div day24)") auto
  obtain y' m' d' where c': "civil_of_days (t' div day24) = (y', m', d')" by (cases "civil_of_days (t' div day24)") auto
  from assms(1,2) civil_nonneg [OF c] civil_nonneg [OF c'] have n: "0 \<le> y" "0 \<le> y'" "0 \<le> m" "0 \<le> m'" by simp_all
  from assms(3) sep_inject [OF not_digit_pad [of "CHR ''-''" y 4] not_digit_pad [of "CHR ''-''" y' 4]] n
  have "pad_to 4 (dec_int y) = pad_to 4 (dec_int y')" "pad_to 2 (dec_int m) = pad_to 2 (dec_int m')"
    by (simp_all add: fmt_month_def c c')
  with n have "y = y'" "m = m'" using pad_dec_inject [OF n(1,2)] pad_dec_inject [OF n(3,4)] by simp_all
  then show ?thesis by (simp add: month_index_def c c')
qed

lemma fmt_day_inject:
  assumes "printable t" "printable t'" "fmt_day t = fmt_day t'"
  shows "t div day24 = t' div day24"
proof -
  obtain y m d where c: "civil_of_days (t div day24) = (y, m, d)" by (cases "civil_of_days (t div day24)") auto
  obtain y' m' d' where c': "civil_of_days (t' div day24) = (y', m', d')" by (cases "civil_of_days (t' div day24)") auto
  from assms(1,2) civil_nonneg [OF c] civil_nonneg [OF c'] have n: "0 \<le> y" "0 \<le> y'" "0 \<le> m" "0 \<le> m'" "0 \<le> d" "0 \<le> d'" by simp_all
  from assms(3) n sep_inject [OF not_digit_pad [of "CHR ''-''" y 4] not_digit_pad [of "CHR ''-''" y' 4]]
    sep_inject [OF not_digit_pad [of "CHR ''-''" m 2] not_digit_pad [of "CHR ''-''" m' 2]]
  have "pad_to 4 (dec_int y) = pad_to 4 (dec_int y')" "pad_to 2 (dec_int m) = pad_to 2 (dec_int m')"
    "pad_to 2 (dec_int d) = pad_to 2 (dec_int d')"
    by (simp_all add: fmt_day_def c c')
  with n have "y = y'" "m = m'" "d = d'"
    using pad_dec_inject [OF n(1,2)] pad_dec_inject [OF n(3,4)] pad_dec_inject [OF n(5,6)] by simp_all
  then show ?thesis using civil_of_days_inject c c' by metis
qed

lemma div_split:
  fixes u :: int
  assumes "0 < u"
  shows "x div u = c * (x div (c * u)) + x mod (c * u) div u"
proof -
  have "x = x mod (c * u) + c * (x div (c * u)) * u"
    using mod_div_mult_eq [of x "c * u"] by (simp add: algebra_simps)
  then have "x div u = (x mod (c * u) + c * (x div (c * u)) * u) div u" by (rule arg_cong)
  also have "\<dots> = c * (x div (c * u)) + x mod (c * u) div u" using assms by (intro div_mult_self1) simp
  finally show ?thesis .
qed

lemma fmt_day_no: "\<lbrakk> printable t; c \<notin> set ''0123456789-'' \<rbrakk> \<Longrightarrow> c \<notin> set (fmt_day t)"
proof -
  assume t: "printable t" and nc: "c \<notin> set ''0123456789-''"
  obtain y m d where c: "civil_of_days (t div day24) = (y, m, d)" by (cases "civil_of_days (t div day24)") auto
  from civil_nonneg [OF c t] nc not_digit_pad [of c y 4] not_digit_pad [of c m 2] not_digit_pad [of c d 2]
  show ?thesis by (simp add: fmt_day_def c)
qed

lemma fmt_hour_inject:
  assumes t: "printable t" "printable t'" and eq: "fmt_hour t = fmt_hour t'"
  shows "t div hour = t' div hour"
proof -
  have n: "0 \<le> t mod day24 div hour" "0 \<le> t' mod day24 div hour" by (simp_all add: pos_imp_zdiv_nonneg_iff)
  from eq sep_inject [OF fmt_day_no [of t "CHR ''T''"] fmt_day_no [of t' "CHR ''T''"]] t
  have "fmt_day t = fmt_day t'"
    and "pad_to 2 (dec_int (t mod day24 div hour)) = pad_to 2 (dec_int (t' mod day24 div hour))"
    by (simp_all add: fmt_hour_def)
  then have "t div day24 = t' div day24" "t mod day24 div hour = t' mod day24 div hour"
    using fmt_day_inject [OF t] pad_dec_inject [OF n] by simp_all
  then show ?thesis
    using div_split [of hour t 24] div_split [of hour t' 24] by (simp add: day24_def)
qed

lemma fmt_hour_no: "\<lbrakk> printable t; c \<notin> set ''0123456789-T'' \<rbrakk> \<Longrightarrow> c \<notin> set (fmt_hour t)"
  using fmt_day_no [of t c] not_digit_pad [of c "t mod day24 div hour" 2]
  by (simp add: fmt_hour_def pos_imp_zdiv_nonneg_iff)

lemma fmt_minute_inject:
  assumes t: "printable t" "printable t'" and eq: "fmt_minute t = fmt_minute t'"
  shows "t div minute = t' div minute"
proof -
  have n: "0 \<le> t mod hour div minute" "0 \<le> t' mod hour div minute" by (simp_all add: pos_imp_zdiv_nonneg_iff)
  from eq sep_inject [OF fmt_hour_no [of t "CHR '':''"] fmt_hour_no [of t' "CHR '':''"]] t
  have "fmt_hour t = fmt_hour t'"
    and "pad_to 2 (dec_int (t mod hour div minute)) = pad_to 2 (dec_int (t' mod hour div minute))"
    by (simp_all add: fmt_minute_def)
  then have "t div hour = t' div hour" "t mod hour div minute = t' mod hour div minute"
    using fmt_hour_inject [OF t] pad_dec_inject [OF n] by simp_all
  then show ?thesis
    using div_split [of minute t 60] div_split [of minute t' 60] by (simp add: hour_def)
qed

lemma bucket_start_printable:
  assumes "p \<in> periods" and "a \<in> alignments" and "0 \<le> now"
  shows "printable (bucket_start p a (bucket_index p a now))"
proof -
  have eval: "bucket_start p a (bucket_index p a 0) \<in> {0, - 3 * day24}"
  proof (cases "a = ''rolling''")
    case False
    have *: "month_start (month_index 0) = 0" "year_start (year_index 0) = 0" by code_simp+
    from assms(1) consider "p = ''1m''" | "p = ''1h''" | "p = ''1d''" | "p = ''1w''" | "p = ''1M''" | "p = ''1Y''"
      by (auto simp: periods_def)
    then show ?thesis using False * by cases (simp_all add: bucket_start_def bucket_index_def)
  qed (simp add: bucket_start_def bucket_index_def)
  have "bucket_start p a (bucket_index p a 0) \<le> bucket_start p a (bucket_index p a now)"
    using tiling.idx_start [OF buckets_tile [OF assms(1,2)], of 0] assms(3)
    by (intro tiling.st_le_idx [OF buckets_tile [OF assms(1,2)]]) simp
  with eval day24_pos have "- 3 * day24 \<le> bucket_start p a (bucket_index p a now)" by (auto simp del: day24_pos)
  then have "- 3 * day24 div day24 \<le> bucket_start p a (bucket_index p a now) div day24"
    by (intro zdiv_mono1) simp_all
  moreover have "- 3 * day24 div day24 = -3"
    by (metis day24_pos less_irrefl nonzero_mult_div_cancel_right)
  moreover have "year_start 0 = -719528" by code_simp
  ultimately show ?thesis by (simp add: printable_def)
qed

lemma bucket_key_inject:
  assumes "p \<in> periods" and "a \<in> alignments" and "0 \<le> now" and "0 \<le> now'"
    and "bucket_key p a (bucket_index p a now) = bucket_key p a (bucket_index p a now')"
  shows "bucket_index p a now = bucket_index p a now'"
proof (cases "a = ''rolling''")
  case True
  have "0 \<le> bucket_index p a now" "0 \<le> bucket_index p a now'"
    using True assms(3,4) rollingDuration_pos [OF assms(1)] by (auto simp: bucket_index_def pos_imp_zdiv_nonneg_iff)
  then show ?thesis using assms(5) True dec_int_inject by (simp add: bucket_key_def)
next
  case False
  define s s' where "s = bucket_start p a (bucket_index p a now)" and "s' = bucket_start p a (bucket_index p a now')"
  have pr: "printable s" "printable s'"
    using bucket_start_printable [OF assms(1,2,3)] bucket_start_printable [OF assms(1,2,4)] by (simp_all add: s_def s'_def)
  from assms(1) consider "p = ''1m''" | "p = ''1h''" | "p = ''1d''" | "p = ''1w''" | "p = ''1M''" | "p = ''1Y''"
    by (auto simp: periods_def)
  moreover have "bucket_stamp p s = bucket_stamp p s'"
    using assms(5) False by (simp add: bucket_key_def s_def s'_def)
  ultimately have "bucket_index p a s = bucket_index p a s'"
    using False fmt_minute_inject [OF pr] fmt_hour_inject [OF pr] fmt_day_inject [OF pr]
      fmt_month_inject [OF pr] fmt_year_inject [OF pr]
    by cases (simp_all add: bucket_stamp_def bucket_index_def)
  then show ?thesis
    using tiling.idx_st [OF buckets_tile [OF assms(1,2)]] by (simp add: s_def s'_def)
qed

subsection \<open>Windows partition time\<close>

lemma WindowFor_error: "(\<exists>e. WindowFor now p a = Inl e) \<longleftrightarrow> p \<notin> periods \<or> a \<notin> alignments"
  by (simp add: WindowFor_def calendarWindow_def rollingWindow_def rollingDuration_def periods_def alignments_def Let_def
      split: prod.splits)

text \<open>C33: from the epoch on, every known period and alignment has a window for every instant; the window
  contains the instant; another instant has the same window exactly when it lies in it; and two instants have the
  same key exactly when they have the same window, so that ledger rows of one budget never mix two windows.\<close>

theorem budget_windows_partition:
  assumes "p \<in> periods" and "a \<in> alignments" and "0 \<le> now"
  shows "\<exists>w. WindowFor now p a = Inr w \<and> win_Start w \<le> now \<and> now < win_ResetsAt w \<and>
    (\<forall>now' \<ge> 0. \<exists>w'. WindowFor now' p a = Inr w' \<and>
       (w' = w \<longleftrightarrow> win_Start w \<le> now' \<and> now' < win_ResetsAt w) \<and>
       (win_Key w' = win_Key w \<longleftrightarrow> w' = w))"
proof -
  note T = buckets_tile [OF assms(1,2)]
  note W = WindowFor_bucket [OF assms(1,2)]
  define k where "k = bucket_index p a now"
  have "\<exists>w'. WindowFor now' p a = Inr w' \<and>
       (w' = the_right \<longleftrightarrow> bucket_start p a k \<le> now' \<and> now' < bucket_start p a (k + 1)) \<and>
       (win_Key w' = win_Key the_right \<longleftrightarrow> w' = the_right)"
    if now': "0 \<le> now'" and right: "the_right = \<lparr> win_Key = bucket_key p a k, win_Start = bucket_start p a k,
      win_ResetsAt = bucket_start p a (k + 1) \<rparr>" for now' the_right
  proof -
    define k' where "k' = bucket_index p a now'"
    have "k' = k \<longleftrightarrow> bucket_start p a k \<le> now' \<and> now' < bucket_start p a (k + 1)"
      unfolding k'_def by (rule tiling.idx_iff [OF T])
    moreover have "bucket_start p a k' = bucket_start p a k \<longleftrightarrow> k' = k"
      by (rule tiling.st_eq_iff [OF T])
    moreover have "bucket_key p a k' = bucket_key p a k \<Longrightarrow> k' = k"
      using bucket_key_inject [OF assms(1,2) now' assms(3)] by (simp add: k_def k'_def)
    ultimately show ?thesis
      using W [OF now'] by (auto simp: right Let_def k'_def [symmetric])
  qed
  then show ?thesis
    using W [OF assms(3)] tiling.idx_start [OF T, of now] tiling.idx_end [OF T, of now]
    by (auto simp: Let_def k_def)
qed

theorem budget_windows_partition_witness:
  "\<exists>w. WindowFor (1709210096 * second) ''1M'' ''calendar'' = Inr w \<and> win_Key w = ''cal:1M:2024-02'' \<and>
    win_Start w \<le> 1709210096 * second \<and> 1709210096 * second < win_ResetsAt w \<and>
    WindowFor (1709251199 * second) ''1M'' ''calendar'' = Inr w \<and>
    WindowFor (1709251200 * second) ''1M'' ''calendar'' \<noteq> Inr w"
proof -
  have key: "WindowFor (1709210096 * second) ''1M'' ''calendar'' = Inr \<lparr> win_Key = ''cal:1M:2024-02'',
      win_Start = 1706745600 * second, win_ResetsAt = 1709251200 * second \<rparr>"
  proof -
    have "1709210096 * second div day24 = 19782" by (simp add: second_def day24_def hour_def minute_def)
    moreover have "month_index 19782 = 24289" "month_start 24289 = 19754" "month_start 24290 = 19783"
      "civil_of_days 19754 = (2024, 2, 1)" "pad_to 4 (dec_int 2024) = ''2024''" "pad_to 2 (dec_int 2) = ''02''"
      by code_simp+
    moreover have "19754 * day24 = 1706745600 * second" "19783 * day24 = 1709251200 * second"
      "1706745600 * second div day24 = 19754"
      by (simp_all add: second_def day24_def hour_def minute_def)
    moreover have "day24 \<noteq> 0" by (metis day24_pos less_irrefl)
    ultimately show ?thesis
      by (simp add: WindowFor_def calendarWindow_bucket periods_def bucket_index_def bucket_key_def bucket_stamp_def
          bucket_start_def fmt_month_def Let_def)
  qed
  have "''1M'' \<in> periods" "''calendar'' \<in> alignments" "0 \<le> 1709210096 * second"
    by (simp_all add: periods_def alignments_def second_def)
  from budget_windows_partition [OF this]
  obtain w where w: "WindowFor (1709210096 * second) ''1M'' ''calendar'' = Inr w"
      "win_Start w \<le> 1709210096 * second" "1709210096 * second < win_ResetsAt w"
    and all: "\<And>t. 0 \<le> t \<Longrightarrow> \<exists>w'. WindowFor t ''1M'' ''calendar'' = Inr w' \<and>
       (w' = w \<longleftrightarrow> win_Start w \<le> t \<and> t < win_ResetsAt w)"
    by blast
  have weq: "win_Key w = ''cal:1M:2024-02''" "win_Start w = 1706745600 * second" "win_ResetsAt w = 1709251200 * second"
    using w(1) key by auto
  have "WindowFor (1709251199 * second) ''1M'' ''calendar'' = Inr w"
    using all [of "1709251199 * second"] weq by (auto simp: second_def)
  moreover have "WindowFor (1709251200 * second) ''1M'' ''calendar'' \<noteq> Inr w"
    using all [of "1709251200 * second"] weq by (auto simp: second_def)
  ultimately show ?thesis using w weq by blast
qed

text \<open>Before the epoch the rolling window misses the instant: division rounds towards zero.\<close>

lemma rolling_before_epoch:
  "\<exists>w. WindowFor (- (1 * second)) ''1h'' ''rolling'' = Inr w \<and> - (1 * second) < win_Start w"
  by (simp add: WindowFor_def rollingWindow_def rollingDuration_def go_div_def second_def minute_def hour_def Let_def)

end
