(* ===== verification/Budget_Store.thy ===== *)
theory Budget_Store
  imports Budget_Window Governance_Store Complex_Main
begin

text \<open>
  \<open>internal/storage/sqlite/budget_store.go\<close> over the tables of migration
  0022: the budgets, keyed by tenant and id and unique per scope, metric and
  period, and the ledger of what a budget has used in a window.  Amounts are
  the rationals: a float64 sum of the code is an exact sum here.  \<open>b_fault\<close>
  is a connection on which every statement fails, \<open>b_fk\<close> its foreign-key
  enforcement.
\<close>

record Budget =
  bg_TenantID :: string
  bg_ID :: string
  bg_ScopeKind :: string
  bg_ScopeID :: string
  bg_Metric :: string
  bg_Period :: string
  bg_Alignment :: string
  bg_LimitVal :: rat
  bg_Enabled :: bool
  bg_CreatedAt :: string
  bg_UpdatedAt :: string

record LedgerEntry =
  le_TenantID :: string
  le_BudgetID :: string
  le_WindowKey :: string
  le_Used :: rat
  le_ResetsAt :: string
  le_LastWarningLevel :: int

record LedgerUpdate =
  lu_BudgetID :: string
  lu_WindowKey :: string
  lu_Delta :: rat
  lu_ResetsAt :: string

record budget_db =
  b_fault :: bool
  b_fk :: bool
  b_rows :: "Budget list"
  b_ledger :: "LedgerEntry list"

text \<open>The CHECK clauses of the table.\<close>

definition budget_row_ok :: "Budget \<Rightarrow> bool" where
  "budget_row_ok b \<longleftrightarrow>
    bg_ScopeKind b \<in> set [''vk'', ''team'', ''customer'', ''tenant''] \<and>
    bg_Metric b \<in> set [''requests'', ''tokens'', ''cost_usd''] \<and>
    bg_Period b \<in> set [''1m'', ''1h'', ''1d'', ''1w'', ''1M'', ''1Y''] \<and>
    bg_Alignment b \<in> set [''rolling'', ''calendar'']"

definition same_budget :: "string \<Rightarrow> string \<Rightarrow> Budget \<Rightarrow> bool" where
  "same_budget tenantID i b \<longleftrightarrow> bg_TenantID b = tenantID \<and> bg_ID b = i"

definition budget_slot :: "Budget \<Rightarrow> string \<times> string \<times> string \<times> string \<times> string" where
  "budget_slot b = (bg_TenantID b, bg_ScopeKind b, bg_ScopeID b, bg_Metric b, bg_Period b)"

definition PutBudget :: "string \<Rightarrow> Budget \<Rightarrow> budget_db \<Rightarrow> (store_error, budget_db) result" where
  "PutBudget now b0 db =
    (if bg_TenantID b0 = '''' \<or> bg_ID b0 = '''' \<or> bg_ScopeKind b0 = '''' \<or> bg_ScopeID b0 = ''''
        \<or> bg_Metric b0 = '''' \<or> bg_Period b0 = '''' then Inl ErrArgs
     else
       let b = (if bg_Alignment b0 = '''' then b0 \<lparr> bg_Alignment := ''rolling'' \<rparr> else b0) in
       if b_fault db then Inl ErrSQL
       else
         let same = same_budget (bg_TenantID b) (bg_ID b);
             createdAt = existingCreatedAt (map_option bg_CreatedAt (List.find same (b_rows db))) now;
             new = b \<lparr> bg_CreatedAt := createdAt, bg_UpdatedAt := now \<rparr> in
         if \<not> budget_row_ok b then Inl ErrSQL
         else if (\<exists>x \<in> set (b_rows db). budget_slot x = budget_slot b \<and> bg_ID x \<noteq> bg_ID b) then Inl ErrSQL
         else if List.find same (b_rows db) = None then Inr (db \<lparr> b_rows := b_rows db @ [new] \<rparr>)
         else Inr (db \<lparr> b_rows := map (\<lambda>x. if same x then new \<lparr> bg_CreatedAt := bg_CreatedAt x \<rparr> else x) (b_rows db) \<rparr>))"

definition GetBudget :: "budget_db \<Rightarrow> string \<Rightarrow> string \<Rightarrow> (store_error, Budget) result" where
  "GetBudget db tenantID i =
    (if tenantID = '''' \<or> i = '''' then Inl ErrArgs
     else if b_fault db then Inl ErrSQL
     else case List.find (same_budget tenantID i) (b_rows db) of None \<Rightarrow> Inl ErrNotFound | Some b \<Rightarrow> Inr b)"

definition ListBudgets :: "budget_db \<Rightarrow> string \<Rightarrow> (store_error, Budget list) result" where
  "ListBudgets db tenantID =
    (if tenantID = '''' then Inl ErrArgs
     else if b_fault db then Inl ErrSQL
     else Inr (sort_key bg_ScopeKind (sort_key bg_ScopeID (filter (\<lambda>b. bg_TenantID b = tenantID) (b_rows db)))))"

definition ListBudgetsByScope :: "budget_db \<Rightarrow> string \<Rightarrow> string \<Rightarrow> string \<Rightarrow> (store_error, Budget list) result" where
  "ListBudgetsByScope db tenantID scopeKind scopeID =
    (if tenantID = '''' \<or> scopeKind = '''' \<or> scopeID = '''' then Inl ErrArgs
     else if b_fault db then Inl ErrSQL
     else Inr (sort_key bg_Metric (sort_key bg_Period
       (filter (\<lambda>b. bg_TenantID b = tenantID \<and> bg_ScopeKind b = scopeKind \<and> bg_ScopeID b = scopeID \<and> bg_Enabled b)
         (b_rows db)))))"

definition DeleteBudget :: "string \<Rightarrow> string \<Rightarrow> budget_db \<Rightarrow> (store_error, budget_db) result" where
  "DeleteBudget tenantID i db =
    (if tenantID = '''' \<or> i = '''' then Inl ErrArgs
     else if b_fault db then Inl ErrSQL
     else let rows = filter (\<lambda>b. \<not> same_budget tenantID i b) (b_rows db) in
       if length rows = length (b_rows db) then Inl ErrNotFound
       else Inr (db \<lparr> b_rows := rows,
         b_ledger := (if b_fk db
           then filter (\<lambda>e. \<not> (le_TenantID e = tenantID \<and> le_BudgetID e = i)) (b_ledger db) else b_ledger db) \<rparr>))"

definition same_ledger :: "string \<Rightarrow> string \<Rightarrow> string \<Rightarrow> LedgerEntry \<Rightarrow> bool" where
  "same_ledger tenantID budgetID windowKey e \<longleftrightarrow>
    le_TenantID e = tenantID \<and> le_BudgetID e = budgetID \<and> le_WindowKey e = windowKey"

definition GetLedger ::
  "budget_db \<Rightarrow> string \<Rightarrow> string \<Rightarrow> string \<Rightarrow> (store_error, LedgerEntry option) result" where
  "GetLedger db tenantID budgetID windowKey =
    (if tenantID = '''' \<or> budgetID = '''' \<or> windowKey = '''' then Inl ErrArgs
     else if b_fault db then Inl ErrSQL
     else Inr (List.find (same_ledger tenantID budgetID windowKey) (b_ledger db)))"

text \<open>One upsert of the transaction: a new row starts at the delta, an existing one only gains it.\<close>

definition upsert_ledger ::
  "string \<Rightarrow> LedgerUpdate \<Rightarrow> LedgerEntry list \<Rightarrow> LedgerEntry list" where
  "upsert_ledger tenantID u rows =
    (let same = same_ledger tenantID (lu_BudgetID u) (lu_WindowKey u) in
     if List.find same rows = None
     then rows @ [\<lparr> le_TenantID = tenantID, le_BudgetID = lu_BudgetID u, le_WindowKey = lu_WindowKey u,
                    le_Used = lu_Delta u, le_ResetsAt = lu_ResetsAt u, le_LastWarningLevel = 0 \<rparr>]
     else map (\<lambda>e. if same e then e \<lparr> le_Used := le_Used e + lu_Delta u \<rparr> else e) rows)"

text \<open>The insert of an upsert is checked against the budgets when foreign keys are enforced.\<close>

definition ledger_fk_ok :: "budget_db \<Rightarrow> string \<Rightarrow> string \<Rightarrow> bool" where
  "ledger_fk_ok db tenantID budgetID \<longleftrightarrow> b_fk db \<longrightarrow> List.find (same_budget tenantID budgetID) (b_rows db) \<noteq> None"

fun reconcile_tx ::
  "budget_db \<Rightarrow> string \<Rightarrow> LedgerUpdate list \<Rightarrow> LedgerEntry list \<Rightarrow> (store_error, LedgerEntry list) result" where
  "reconcile_tx db tenantID [] rows = Inr rows"
| "reconcile_tx db tenantID (u # us) rows =
    (if lu_BudgetID u = '''' \<or> lu_WindowKey u = '''' then Inl ErrArgs
     else if List.find (same_ledger tenantID (lu_BudgetID u) (lu_WindowKey u)) rows = None
       \<and> \<not> ledger_fk_ok db tenantID (lu_BudgetID u) then Inl ErrSQL
     else reconcile_tx db tenantID us (upsert_ledger tenantID u rows))"

definition ReconcileUsage :: "string \<Rightarrow> LedgerUpdate list \<Rightarrow> budget_db \<Rightarrow> (store_error, budget_db) result" where
  "ReconcileUsage tenantID updates db =
    (if tenantID = '''' then Inl ErrArgs
     else if updates = [] then Inr db
     else if b_fault db then Inl ErrSQL
     else res_bind (reconcile_tx db tenantID updates (b_ledger db)) (\<lambda>rows. Inr (db \<lparr> b_ledger := rows \<rparr>)))"

definition SetLedgerWarningLevel ::
  "string \<Rightarrow> string \<Rightarrow> string \<Rightarrow> int \<Rightarrow> budget_db \<Rightarrow> (store_error, budget_db) result" where
  "SetLedgerWarningLevel tenantID budgetID windowKey level db =
    (if tenantID = '''' \<or> budgetID = '''' \<or> windowKey = '''' then Inl ErrArgs
     else if b_fault db then Inl ErrSQL
     else let same = same_ledger tenantID budgetID windowKey in
       if List.find same (b_ledger db) = None
       then (if \<not> ledger_fk_ok db tenantID budgetID then Inl ErrSQL
             else Inr (db \<lparr> b_ledger := b_ledger db @ [\<lparr> le_TenantID = tenantID, le_BudgetID = budgetID,
               le_WindowKey = windowKey, le_Used = 0, le_ResetsAt = '''', le_LastWarningLevel = level \<rparr>] \<rparr>))
       else Inr (db \<lparr> b_ledger := map (\<lambda>e. if same e then e \<lparr> le_LastWarningLevel := level \<rparr> else e) (b_ledger db) \<rparr>))"

subsection \<open>Invariant of the tables\<close>

definition ledger_key :: "LedgerEntry \<Rightarrow> string \<times> string \<times> string" where
  "ledger_key e = (le_TenantID e, le_BudgetID e, le_WindowKey e)"

definition budget_key :: "Budget \<Rightarrow> string \<times> string" where
  "budget_key b = (bg_TenantID b, bg_ID b)"

definition budget_inv :: "budget_db \<Rightarrow> bool" where
  "budget_inv db \<longleftrightarrow>
    distinct (map budget_key (b_rows db)) \<and> distinct (map budget_slot (b_rows db)) \<and>
    (\<forall>b \<in> set (b_rows db). budget_row_ok b \<and> bg_TenantID b \<noteq> '''' \<and> bg_ID b \<noteq> '''' \<and> bg_ScopeID b \<noteq> '''') \<and>
    distinct (map ledger_key (b_ledger db)) \<and>
    (b_fk db \<longrightarrow> (\<forall>e \<in> set (b_ledger db). \<exists>b \<in> set (b_rows db). same_budget (le_TenantID e) (le_BudgetID e) b))"

lemma same_budget_key: "same_budget t i b \<longleftrightarrow> budget_key b = (t, i)"
  by (auto simp: same_budget_def budget_key_def)

lemma same_ledger_key: "same_ledger t i k e \<longleftrightarrow> ledger_key e = (t, i, k)"
  by (auto simp: same_ledger_def ledger_key_def)

lemma PutBudget_inv:
  assumes inv: "budget_inv db" and put: "PutBudget now b0 db = Inr db'"
  shows "budget_inv db'"
proof -
  define b where "b = (if bg_Alignment b0 = '''' then b0 \<lparr> bg_Alignment := ''rolling'' \<rparr> else b0)"
  define same where "same = same_budget (bg_TenantID b) (bg_ID b)"
  define new where "new = b \<lparr> bg_CreatedAt := existingCreatedAt (map_option bg_CreatedAt (List.find same (b_rows db))) now,
    bg_UpdatedAt := now \<rparr>"
  have args: "bg_TenantID b \<noteq> ''''" "bg_ID b \<noteq> ''''" "bg_ScopeID b \<noteq> ''''" and ok: "budget_row_ok b"
    and free: "\<And>x. \<lbrakk> x \<in> set (b_rows db); budget_slot x = budget_slot b \<rbrakk> \<Longrightarrow> bg_ID x = bg_ID b"
    and db': "db' = (if List.find same (b_rows db) = None then db \<lparr> b_rows := b_rows db @ [new] \<rparr>
      else db \<lparr> b_rows := map (\<lambda>x. if same x then new \<lparr> bg_CreatedAt := bg_CreatedAt x \<rparr> else x) (b_rows db) \<rparr>)"
    using put unfolding PutBudget_def Let_def b_def [symmetric] same_def [symmetric] new_def [symmetric]
    by (auto split: if_splits simp: b_def)
  have fld: "budget_key (new \<lparr> bg_CreatedAt := c \<rparr>) = budget_key b" "budget_slot (new \<lparr> bg_CreatedAt := c \<rparr>) = budget_slot b"
    "budget_row_ok (new \<lparr> bg_CreatedAt := c \<rparr>)" "bg_TenantID (new \<lparr> bg_CreatedAt := c \<rparr>) = bg_TenantID b"
    "bg_ID (new \<lparr> bg_CreatedAt := c \<rparr>) = bg_ID b" "bg_ScopeID (new \<lparr> bg_CreatedAt := c \<rparr>) = bg_ScopeID b" for c
    using ok by (simp_all add: new_def budget_key_def budget_slot_def budget_row_ok_def)
  have same_iff: "same x \<longleftrightarrow> budget_key x = budget_key b" for x
    by (auto simp: same_def same_budget_key budget_key_def)
  have slot: "same x" if "x \<in> set (b_rows db)" "budget_slot x = budget_slot b" for x
    using free [OF that] that(2) by (auto simp: same_def same_budget_def budget_slot_def)
  note D = inv [unfolded budget_inv_def]
  show ?thesis
  proof (cases "List.find same (b_rows db) = None")
    case True
    then have "\<forall>x \<in> set (b_rows db). budget_key x \<noteq> budget_key b \<and> budget_slot x \<noteq> budget_slot b"
      using slot by (auto simp: find_None_all same_iff)
    moreover have "budget_key new = budget_key b" "budget_slot new = budget_slot b" "budget_row_ok new"
      "bg_TenantID new \<noteq> ''''" "bg_ID new \<noteq> ''''" "bg_ScopeID new \<noteq> ''''"
      using args ok by (simp_all add: new_def budget_key_def budget_slot_def budget_row_ok_def)
    ultimately show ?thesis using D True by (auto simp: budget_inv_def db')
  next
    case False
    define f where "f = (\<lambda>x. if same x then new \<lparr> bg_CreatedAt := bg_CreatedAt x \<rparr> else x)"
    have db'': "db' = db \<lparr> b_rows := map f (b_rows db) \<rparr>" using False by (simp add: db' f_def)
    have key: "budget_key (f x) = budget_key x" for x by (simp add: f_def fld same_iff)
    have "inj_on (budget_slot \<circ> f) (set (b_rows db))"
    proof (rule inj_onI)
      fix x y assume xy: "x \<in> set (b_rows db)" "y \<in> set (b_rows db)" "(budget_slot \<circ> f) x = (budget_slot \<circ> f) y"
      then have "same x \<longleftrightarrow> same y" using slot by (auto simp: f_def fld split: if_splits)
      with xy show "x = y"
        using distinct_map_key [OF conjunct1 [OF D], of x y] distinct_map_key [of budget_slot "b_rows db" x y] D
        by (auto simp: f_def fld same_iff split: if_splits)
    qed
    moreover have "distinct (b_rows db)" using D by (simp add: distinct_map)
    ultimately have "distinct (map budget_slot (map f (b_rows db)))" by (simp add: distinct_map)
    moreover have "distinct (map budget_key (map f (b_rows db)))" using D by (simp add: key o_def)
    moreover have "\<forall>x \<in> set (map f (b_rows db)). budget_row_ok x \<and> bg_TenantID x \<noteq> '''' \<and> bg_ID x \<noteq> '''' \<and> bg_ScopeID x \<noteq> ''''"
      using D args by (auto simp: f_def fld)
    moreover have "(\<exists>x \<in> set (map f (b_rows db)). same_budget t i x) \<longleftrightarrow> (\<exists>x \<in> set (b_rows db). same_budget t i x)" for t i
      by (auto simp: same_budget_key key)
    ultimately show ?thesis using D unfolding db'' budget_inv_def by (simp del: set_map map_map)
  qed
qed

lemma DeleteBudget_inv:
  assumes "budget_inv db" and "DeleteBudget t i db = Inr db'"
  shows "budget_inv db'"
proof -
  have db': "db' = db \<lparr> b_rows := filter (\<lambda>b. \<not> same_budget t i b) (b_rows db),
      b_ledger := (if b_fk db then filter (\<lambda>e. \<not> (le_TenantID e = t \<and> le_BudgetID e = i)) (b_ledger db)
                   else b_ledger db) \<rparr>"
    using assms(2) by (auto simp: DeleteBudget_def Let_def split: if_splits)
  have "\<exists>b \<in> set (b_rows db). \<not> same_budget t i b \<and> same_budget (le_TenantID e) (le_BudgetID e) b"
    if "b_fk db" "e \<in> set (b_ledger db)" "\<not> (le_TenantID e = t \<and> le_BudgetID e = i)" for e
    using assms(1) that by (fastforce simp: budget_inv_def same_budget_def)
  then have "b_fk db \<longrightarrow> (\<forall>e \<in> set (b_ledger db). \<not> (le_TenantID e = t \<and> le_BudgetID e = i) \<longrightarrow>
      (\<exists>b \<in> {b \<in> set (b_rows db). \<not> same_budget t i b}. same_budget (le_TenantID e) (le_BudgetID e) b))"
    by blast
  then show ?thesis
    using assms(1) by (simp add: db' budget_inv_def distinct_map_filter)
qed

lemma find_same_ledger_None:
  "List.find (same_ledger t i k) rows = None \<longleftrightarrow> (t, i, k) \<notin> ledger_key ` set rows"
  by (auto simp: find_None_all same_ledger_key intro: rev_image_eqI)

lemma upsert_ledger_keys:
  "map ledger_key (upsert_ledger t u rows) =
    (if (t, lu_BudgetID u, lu_WindowKey u) \<in> ledger_key ` set rows then map ledger_key rows
     else map ledger_key rows @ [(t, lu_BudgetID u, lu_WindowKey u)])"
  by (auto simp: upsert_ledger_def Let_def find_None_all same_ledger_key ledger_key_def)

definition ledger_ok :: "budget_db \<Rightarrow> LedgerEntry list \<Rightarrow> bool" where
  "ledger_ok db rows \<longleftrightarrow> distinct (map ledger_key rows) \<and>
    (b_fk db \<longrightarrow> (\<forall>(t, i, k) \<in> ledger_key ` set rows. \<exists>b \<in> set (b_rows db). same_budget t i b))"

lemma budget_inv_ledger: "budget_inv db \<Longrightarrow> budget_inv (db \<lparr> b_ledger := rows \<rparr>) \<longleftrightarrow> ledger_ok db rows"
  by (simp add: budget_inv_def ledger_ok_def ledger_key_def)

lemma ledger_ok_init: "budget_inv db \<Longrightarrow> ledger_ok db (b_ledger db)"
  by (simp add: budget_inv_def ledger_ok_def ledger_key_def)

lemma ledger_ok_keys: "map ledger_key rows' = map ledger_key rows \<Longrightarrow> ledger_ok db rows' = ledger_ok db rows"
  by (simp add: ledger_ok_def flip: set_map)

lemma ledger_ok_add:
  assumes "ledger_ok db rows" and "ledger_fk_ok db t i" and "(t, i, k) \<notin> ledger_key ` set rows"
    and "map ledger_key rows' = map ledger_key rows @ [(t, i, k)]"
  shows "ledger_ok db rows'"
proof -
  have "ledger_key ` set rows' = insert (t, i, k) (ledger_key ` set rows)"
    using arg_cong [OF assms(4), of set] by simp
  then show ?thesis
    using assms by (auto simp: ledger_ok_def ledger_fk_ok_def find_None_all simp flip: set_map)
qed

lemma reconcile_tx_ok:
  "\<lbrakk> ledger_ok db rows; reconcile_tx db t us rows = Inr rows' \<rbrakk> \<Longrightarrow> ledger_ok db rows'"
proof (induction db t us rows rule: reconcile_tx.induct)
  case (2 db t u us rows)
  show ?case
  proof (cases "List.find (same_ledger t (lu_BudgetID u) (lu_WindowKey u)) rows = None")
    case True
    then have "(t, lu_BudgetID u, lu_WindowKey u) \<notin> ledger_key ` set rows"
      by (simp add: find_same_ledger_None)
    with 2 True show ?thesis
      using ledger_ok_add [OF "2.prems"(1), of t "lu_BudgetID u" "lu_WindowKey u"]
      by (auto simp: upsert_ledger_keys split: if_splits)
  next
    case False
    then have "(t, lu_BudgetID u, lu_WindowKey u) \<in> ledger_key ` set rows"
      by (simp only: find_same_ledger_None not_not)
    then have "map ledger_key (upsert_ledger t u rows) = map ledger_key rows" by (simp add: upsert_ledger_keys)
    from ledger_ok_keys [OF this] "2.prems"(1) have "ledger_ok db (upsert_ledger t u rows)" by simp
    with 2 False show ?thesis by (simp split: if_splits)
  qed
qed simp

lemma ReconcileUsage_inv:
  assumes "budget_inv db" and "ReconcileUsage t us db = Inr db'"
  shows "budget_inv db'"
  using assms reconcile_tx_ok [OF ledger_ok_init [OF assms(1)]]
  by (auto simp: ReconcileUsage_def budget_inv_ledger split: if_splits)

lemma SetLedgerWarningLevel_inv:
  assumes "budget_inv db" and "SetLedgerWarningLevel t i k l db = Inr db'"
  shows "budget_inv db'"
proof (cases "List.find (same_ledger t i k) (b_ledger db) = None")
  case True
  then have "(t, i, k) \<notin> ledger_key ` set (b_ledger db)" by (auto simp: find_None_all same_ledger_key)
  from ledger_ok_add [OF ledger_ok_init [OF assms(1)] _ this] assms True show ?thesis
    by (auto simp: SetLedgerWarningLevel_def Let_def budget_inv_ledger ledger_key_def split: if_splits)
next
  case False
  with assms have "db' = db \<lparr> b_ledger := map (\<lambda>e. if same_ledger t i k e then e \<lparr> le_LastWarningLevel := l \<rparr> else e) (b_ledger db) \<rparr>"
    by (auto simp: SetLedgerWarningLevel_def Let_def split: if_splits)
  moreover have "ledger_ok db (map (\<lambda>e. if same_ledger t i k e then e \<lparr> le_LastWarningLevel := l \<rparr> else e) (b_ledger db))"
    using ledger_ok_init [OF assms(1)] by (subst ledger_ok_keys [of _ "b_ledger db"]) (simp_all add: ledger_key_def)
  ultimately show ?thesis by (simp only: budget_inv_ledger [OF assms(1)])
qed

lemmas budget_ops_inv = PutBudget_inv DeleteBudget_inv ReconcileUsage_inv SetLedgerWarningLevel_inv

subsection \<open>What the ledger holds\<close>

definition ledger_used :: "LedgerEntry list \<Rightarrow> string \<Rightarrow> string \<Rightarrow> string \<Rightarrow> rat" where
  "ledger_used rows t i k = (case List.find (same_ledger t i k) rows of None \<Rightarrow> 0 | Some e \<Rightarrow> le_Used e)"

definition ledger_level :: "LedgerEntry list \<Rightarrow> string \<Rightarrow> string \<Rightarrow> string \<Rightarrow> int" where
  "ledger_level rows t i k = (case List.find (same_ledger t i k) rows of None \<Rightarrow> 0 | Some e \<Rightarrow> le_LastWarningLevel e)"

lemma find_upsert:
  "List.find (same_ledger t' i' k') (upsert_ledger t u rows) =
    (if t' = t \<and> i' = lu_BudgetID u \<and> k' = lu_WindowKey u
     then Some (case List.find (same_ledger t i' k') rows of
         None \<Rightarrow> \<lparr> le_TenantID = t, le_BudgetID = i', le_WindowKey = k', le_Used = lu_Delta u,
                   le_ResetsAt = lu_ResetsAt u, le_LastWarningLevel = 0 \<rparr>
       | Some e \<Rightarrow> e \<lparr> le_Used := le_Used e + lu_Delta u \<rparr>)
     else List.find (same_ledger t' i' k') rows)"
proof (cases "List.find (same_ledger t (lu_BudgetID u) (lu_WindowKey u)) rows")
  case None
  then show ?thesis
    by (auto simp: upsert_ledger_def Let_def find_append same_ledger_def split: option.splits)
next
  case (Some e)
  have "same_ledger t' i' k' (if same_ledger t (lu_BudgetID u) (lu_WindowKey u) x then x \<lparr> le_Used := le_Used x + lu_Delta u \<rparr> else x)
      = same_ledger t' i' k' x" for x
    by (simp add: same_ledger_def)
  then have "List.find (same_ledger t' i' k') (map (\<lambda>x. if same_ledger t (lu_BudgetID u) (lu_WindowKey u) x
        then x \<lparr> le_Used := le_Used x + lu_Delta u \<rparr> else x) rows)
      = map_option (\<lambda>x. if same_ledger t (lu_BudgetID u) (lu_WindowKey u) x
        then x \<lparr> le_Used := le_Used x + lu_Delta u \<rparr> else x) (List.find (same_ledger t' i' k') rows)"
    by (rule find_map_keep)
  with Some find_Some_prop [of "same_ledger t' i' k'" rows] show ?thesis
    by (cases "List.find (same_ledger t' i' k') rows") (auto simp: upsert_ledger_def Let_def same_ledger_def)
qed

lemma used_upsert:
  "ledger_used (upsert_ledger t u rows) t' i' k' =
    ledger_used rows t' i' k' + (if t' = t \<and> i' = lu_BudgetID u \<and> k' = lu_WindowKey u then lu_Delta u else 0)"
  by (simp add: ledger_used_def find_upsert split: option.splits)

lemma level_upsert: "ledger_level (upsert_ledger t u rows) t' i' k' = ledger_level rows t' i' k'"
  by (simp add: ledger_level_def find_upsert split: option.splits)

definition total_delta :: "LedgerUpdate list \<Rightarrow> string \<Rightarrow> string \<Rightarrow> rat" where
  "total_delta us i k = sum_list (map lu_Delta (filter (\<lambda>u. lu_BudgetID u = i \<and> lu_WindowKey u = k) us))"

lemma reconcile_tx_used:
  "reconcile_tx db t us rows = Inr rows' \<Longrightarrow>
    ledger_used rows' t' i k = ledger_used rows t' i k + (if t' = t then total_delta us i k else 0) \<and>
    ledger_level rows' t' i k = ledger_level rows t' i k"
  by (induction db t us rows rule: reconcile_tx.induct)
    (auto simp: total_delta_def used_upsert level_upsert split: if_splits)

end
