(* ===== verification/Budgets.thy ===== *)
theory Budgets
  imports Budget_Store
begin

text \<open>
  \<open>internal/budgets/{enforcer,reconcile,status}.go\<close>: the enforcer of the
  hierarchical budgets.  A call is checked against every enabled budget of
  its scopes before it is dispatched (\<open>PreCheck\<close>) and booked on all of them
  in one transaction afterwards (\<open>Reconcile\<close>), which also yields the
  warnings of the thresholds crossed; \<open>Headroom\<close> reports what is left.
\<close>

record Scope =
  bsc_Kind :: string
  bsc_ID :: string

record Usage =
  us_Requests :: rat
  us_Tokens :: rat
  us_CostUSD :: rat

definition metric :: "Usage \<Rightarrow> string \<Rightarrow> rat" where
  "metric u m =
    (if m = ''requests'' then us_Requests u
     else if m = ''tokens'' then us_Tokens u
     else if m = ''cost_usd'' then us_CostUSD u
     else 0)"

record Violation =
  vi_Level :: string
  vi_Metric :: string
  vi_BudgetID :: string
  vi_Limit :: rat
  vi_Used :: rat
  vi_Would :: rat

datatype budget_error = BudgetStoreError store_error | BudgetWindowError window_error

definition store_res :: "(store_error, 'a) result \<Rightarrow> (budget_error, 'a) result" where
  "store_res r = map_sum BudgetStoreError id r"

definition window_res :: "(window_error, 'a) result \<Rightarrow> (budget_error, 'a) result" where
  "window_res r = map_sum BudgetWindowError id r"

definition usedFor :: "budget_db \<Rightarrow> string \<Rightarrow> string \<Rightarrow> string \<Rightarrow> (budget_error, rat) result" where
  "usedFor db tenantID budgetID windowKey =
    res_bind (store_res (GetLedger db tenantID budgetID windowKey))
      (\<lambda>row. Inr (case row of None \<Rightarrow> 0 | Some le \<Rightarrow> le_Used le))"

text \<open>A budget of one virtual key: \<open>limit\<close> requests in each hour.\<close>

definition sample_budget :: "rat \<Rightarrow> Budget" where
  "sample_budget limit = \<lparr> bg_TenantID = ''acme'', bg_ID = ''b1'', bg_ScopeKind = ''vk'', bg_ScopeID = ''k1'',
     bg_Metric = ''requests'', bg_Period = ''1h'', bg_Alignment = ''rolling'', bg_LimitVal = limit, bg_Enabled = True,
     bg_CreatedAt = '''', bg_UpdatedAt = '''' \<rparr>"

definition sample_books :: "rat \<Rightarrow> budget_db" where
  "sample_books limit = \<lparr> b_fault = False, b_fk = True, b_rows = [sample_budget limit], b_ledger = [] \<rparr>"

subsection \<open>Before the call\<close>

fun precheck_budgets ::
  "budget_db \<Rightarrow> string \<Rightarrow> Scope \<Rightarrow> time \<Rightarrow> Usage \<Rightarrow> Budget list \<Rightarrow> (budget_error, Violation option) result" where
  "precheck_budgets db tenantID sc now amount [] = Inr None"
| "precheck_budgets db tenantID sc now amount (b # bs) =
    (let amt = metric amount (bg_Metric b) in
     if amt \<le> 0 then precheck_budgets db tenantID sc now amount bs
     else
       res_bind (window_res (WindowFor now (bg_Period b) (bg_Alignment b))) (\<lambda>win.
       res_bind (usedFor db tenantID (bg_ID b) (win_Key win)) (\<lambda>used.
         if bg_LimitVal b < used + amt
         then Inr (Some \<lparr> vi_Level = bsc_Kind sc, vi_Metric = bg_Metric b, vi_BudgetID = bg_ID b,
                          vi_Limit = bg_LimitVal b, vi_Used = used, vi_Would = used + amt \<rparr>)
         else precheck_budgets db tenantID sc now amount bs)))"

fun PreCheck ::
  "budget_db \<Rightarrow> string \<Rightarrow> Scope list \<Rightarrow> time \<Rightarrow> Usage \<Rightarrow> (budget_error, Violation option) result" where
  "PreCheck db tenantID [] now amount = Inr None"
| "PreCheck db tenantID (sc # scs) now amount =
    res_bind (store_res (ListBudgetsByScope db tenantID (bsc_Kind sc) (bsc_ID sc))) (\<lambda>bs.
    res_bind (precheck_budgets db tenantID sc now amount bs) (\<lambda>v.
      if v \<noteq> None then Inr v else PreCheck db tenantID scs now amount))"

subsection \<open>After the call\<close>

record Warning =
  wn_Level :: string
  wn_Metric :: string
  wn_BudgetID :: string
  wn_Pct :: int
  wn_Used :: rat
  wn_Limit :: rat

definition warnThresholds :: "int list" where
  "warnThresholds = [100, 95, 80]"

definition highestCrossed :: "int \<Rightarrow> int" where
  "highestCrossed pct = (case List.find (\<lambda>th. th \<le> pct) warnThresholds of None \<Rightarrow> 0 | Some th \<Rightarrow> th)"

text \<open>Conversion of a float to an int drops the fraction.\<close>

definition go_trunc :: "rat \<Rightarrow> int" where
  "go_trunc x = (if x < 0 then - \<lfloor>- x\<rfloor> else \<lfloor>x\<rfloor>)"

record touched =
  tc_budget :: Budget
  tc_level :: string
  tc_windowKey :: string

fun collect_budgets ::
  "Scope \<Rightarrow> time \<Rightarrow> Usage \<Rightarrow> Budget list \<Rightarrow> (budget_error, (LedgerUpdate \<times> touched) list) result" where
  "collect_budgets sc now actual [] = Inr []"
| "collect_budgets sc now actual (b # bs) =
    (let amt = metric actual (bg_Metric b) in
     if amt \<le> 0 then collect_budgets sc now actual bs
     else
       res_bind (window_res (WindowFor now (bg_Period b) (bg_Alignment b))) (\<lambda>win.
       res_bind (collect_budgets sc now actual bs) (\<lambda>rest.
         Inr ((\<lparr> lu_BudgetID = bg_ID b, lu_WindowKey = win_Key win, lu_Delta = amt,
                 lu_ResetsAt = rfc3339 (win_ResetsAt win) \<rparr>,
               \<lparr> tc_budget = b, tc_level = bsc_Kind sc, tc_windowKey = win_Key win \<rparr>) # rest))))"

fun collect_scopes ::
  "budget_db \<Rightarrow> string \<Rightarrow> Scope list \<Rightarrow> time \<Rightarrow> Usage \<Rightarrow> (budget_error, (LedgerUpdate \<times> touched) list) result" where
  "collect_scopes db tenantID [] now actual = Inr []"
| "collect_scopes db tenantID (sc # scs) now actual =
    res_bind (store_res (ListBudgetsByScope db tenantID (bsc_Kind sc) (bsc_ID sc))) (\<lambda>bs.
    res_bind (collect_budgets sc now actual bs) (\<lambda>here.
    res_bind (collect_scopes db tenantID scs now actual) (\<lambda>rest. Inr (here @ rest))))"

text \<open>The second loop: the warnings so far survive an error.\<close>

fun warn_loop ::
  "string \<Rightarrow> touched list \<Rightarrow> Warning list \<Rightarrow> budget_db \<Rightarrow> Warning list \<times> budget_error option \<times> budget_db" where
  "warn_loop tenantID [] ws db = (ws, None, db)"
| "warn_loop tenantID (t # ts) ws db =
    (let b = tc_budget t in
     case GetLedger db tenantID (bg_ID b) (tc_windowKey t) of
       Inl e \<Rightarrow> (ws, Some (BudgetStoreError e), db)
     | Inr None \<Rightarrow> warn_loop tenantID ts ws db
     | Inr (Some le) \<Rightarrow>
         if bg_LimitVal b \<le> 0 then warn_loop tenantID ts ws db
         else
           let crossed = highestCrossed (go_trunc (le_Used le / bg_LimitVal b * 100)) in
           if crossed = 0 \<or> crossed \<le> le_LastWarningLevel le then warn_loop tenantID ts ws db
           else case SetLedgerWarningLevel tenantID (bg_ID b) (tc_windowKey t) crossed db of
               Inl e \<Rightarrow> (ws, Some (BudgetStoreError e), db)
             | Inr db' \<Rightarrow> warn_loop tenantID ts
                 (ws @ [\<lparr> wn_Level = tc_level t, wn_Metric = bg_Metric b, wn_BudgetID = bg_ID b,
                          wn_Pct = crossed, wn_Used = le_Used le, wn_Limit = bg_LimitVal b \<rparr>]) db')"

definition Reconcile ::
  "string \<Rightarrow> Scope list \<Rightarrow> time \<Rightarrow> Usage \<Rightarrow> budget_db \<Rightarrow> Warning list \<times> budget_error option \<times> budget_db" where
  "Reconcile tenantID scopes now actual db =
    (case collect_scopes db tenantID scopes now actual of
       Inl e \<Rightarrow> ([], Some e, db)
     | Inr found \<Rightarrow>
         if found = [] then ([], None, db)
         else case ReconcileUsage tenantID (map fst found) db of
             Inl e \<Rightarrow> ([], Some (BudgetStoreError e), db)
           | Inr db' \<Rightarrow> warn_loop tenantID (map snd found) [] db')"

subsection \<open>Live status\<close>

record LevelStatus =
  lst_Level :: string
  lst_Metric :: string
  lst_BudgetID :: string
  lst_Period :: string
  lst_Used :: rat
  lst_Limit :: rat
  lst_ResetsAt :: string
  lst_HeadroomPct :: rat

definition headroomPct :: "rat \<Rightarrow> rat \<Rightarrow> rat" where
  "headroomPct used limit =
    (if limit \<le> 0 then 0
     else let pct = (1 - used / limit) * 100 in
       if pct < 0 then 0 else if 100 < pct then 100 else pct)"

fun headroom_budgets ::
  "budget_db \<Rightarrow> string \<Rightarrow> Scope \<Rightarrow> time \<Rightarrow> Budget list \<Rightarrow> (budget_error, LevelStatus list) result" where
  "headroom_budgets db tenantID sc now [] = Inr []"
| "headroom_budgets db tenantID sc now (b # bs) =
    res_bind (window_res (WindowFor now (bg_Period b) (bg_Alignment b))) (\<lambda>win.
    res_bind (usedFor db tenantID (bg_ID b) (win_Key win)) (\<lambda>used.
    res_bind (headroom_budgets db tenantID sc now bs) (\<lambda>rest.
      Inr (\<lparr> lst_Level = bsc_Kind sc, lst_Metric = bg_Metric b, lst_BudgetID = bg_ID b, lst_Period = bg_Period b,
             lst_Used = used, lst_Limit = bg_LimitVal b, lst_ResetsAt = rfc3339 (win_ResetsAt win),
             lst_HeadroomPct = headroomPct used (bg_LimitVal b) \<rparr> # rest))))"

fun Headroom ::
  "budget_db \<Rightarrow> string \<Rightarrow> Scope list \<Rightarrow> time \<Rightarrow> (budget_error, LevelStatus list) result" where
  "Headroom db tenantID [] now = Inr []"
| "Headroom db tenantID (sc # scs) now =
    res_bind (store_res (ListBudgetsByScope db tenantID (bsc_Kind sc) (bsc_ID sc))) (\<lambda>bs.
    res_bind (headroom_budgets db tenantID sc now bs) (\<lambda>here.
    res_bind (Headroom db tenantID scs now) (\<lambda>rest. Inr (here @ rest))))"

subsection \<open>Budgets of a scope and their windows\<close>

definition healthy :: "budget_db \<Rightarrow> bool" where
  "healthy db \<longleftrightarrow> budget_inv db \<and> \<not> b_fault db"

definition scopes_ok :: "Scope list \<Rightarrow> bool" where
  "scopes_ok scopes \<longleftrightarrow> (\<forall>sc \<in> set scopes. bsc_Kind sc \<noteq> '''' \<and> bsc_ID sc \<noteq> '''')"

definition applies :: "string \<Rightarrow> Scope \<Rightarrow> Budget \<Rightarrow> bool" where
  "applies t sc b \<longleftrightarrow>
    bg_TenantID b = t \<and> bg_ScopeKind b = bsc_Kind sc \<and> bg_ScopeID b = bsc_ID sc \<and> bg_Enabled b"

definition window_key :: "time \<Rightarrow> Budget \<Rightarrow> string" where
  "window_key now b = (case WindowFor now (bg_Period b) (bg_Alignment b) of Inr w \<Rightarrow> win_Key w | Inl e \<Rightarrow> '''')"

definition exceeds :: "budget_db \<Rightarrow> string \<Rightarrow> time \<Rightarrow> Usage \<Rightarrow> Budget \<Rightarrow> bool" where
  "exceeds db t now amount b \<longleftrightarrow>
    0 < metric amount (bg_Metric b) \<and>
    bg_LimitVal b < ledger_used (b_ledger db) t (bg_ID b) (window_key now b) + metric amount (bg_Metric b)"

lemma row_window:
  assumes "budget_row_ok b" and "0 \<le> now"
  obtains w where "WindowFor now (bg_Period b) (bg_Alignment b) = Inr w" "win_Key w = window_key now b" "win_Key w \<noteq> ''''"
proof -
  have "bg_Period b \<in> periods" "bg_Alignment b \<in> alignments"
    using assms(1) by (auto simp: budget_row_ok_def periods_def alignments_def)
  note W = WindowFor_bucket [OF this assms(2), unfolded Let_def]
  have "bucket_key (bg_Period b) (bg_Alignment b) k \<noteq> ''''" for k by (simp add: bucket_key_def)
  with W show ?thesis by (intro that [OF W]) (simp_all add: window_key_def)
qed

lemma healthyD:
  assumes "healthy db"
  shows "budget_inv db" "\<not> b_fault db" "distinct (map budget_key (b_rows db))"
    "b \<in> set (b_rows db) \<Longrightarrow> budget_row_ok b" "b \<in> set (b_rows db) \<Longrightarrow> bg_ID b \<noteq> ''''"
  using assms by (auto simp: healthy_def budget_inv_def)

lemma list_scope:
  assumes "healthy db" and "t \<noteq> ''''" and "bsc_Kind sc \<noteq> ''''" and "bsc_ID sc \<noteq> ''''"
  obtains bs where "ListBudgetsByScope db t (bsc_Kind sc) (bsc_ID sc) = Inr bs"
    "set bs = {b \<in> set (b_rows db). applies t sc b}" "distinct bs"
proof -
  have "distinct (b_rows db)" using healthyD(3) [OF assms(1)] by (simp add: distinct_map)
  moreover define bs where "bs = sort_key bg_Metric (sort_key bg_Period (filter (applies t sc) (b_rows db)))"
  moreover have "ListBudgetsByScope db t (bsc_Kind sc) (bsc_ID sc) = Inr bs"
    using assms by (simp add: ListBudgetsByScope_def healthy_def applies_def [abs_def] bs_def)
  ultimately show ?thesis by (intro that [of bs]) simp_all
qed

lemma usedFor_healthy:
  "\<lbrakk> healthy db; t \<noteq> ''''; i \<noteq> ''''; k \<noteq> '''' \<rbrakk> \<Longrightarrow> usedFor db t i k = Inr (ledger_used (b_ledger db) t i k)"
  by (simp add: usedFor_def GetLedger_def healthy_def store_res_def ledger_used_def)

subsection \<open>The pre-check finds the first exceeded budget\<close>

definition violation :: "budget_db \<Rightarrow> string \<Rightarrow> Scope \<Rightarrow> time \<Rightarrow> Usage \<Rightarrow> Budget \<Rightarrow> Violation" where
  "violation db t sc now amount b =
    (let used = ledger_used (b_ledger db) t (bg_ID b) (window_key now b); amt = metric amount (bg_Metric b) in
     \<lparr> vi_Level = bsc_Kind sc, vi_Metric = bg_Metric b, vi_BudgetID = bg_ID b,
       vi_Limit = bg_LimitVal b, vi_Used = used, vi_Would = used + amt \<rparr>)"

lemma precheck_budgets_find:
  assumes "healthy db" and "t \<noteq> ''''" and "0 \<le> now" and "set bs \<subseteq> set (b_rows db)"
  shows "precheck_budgets db t sc now amount bs =
    Inr (map_option (violation db t sc now amount) (List.find (exceeds db t now amount) bs))"
  using assms(4)
proof (induction bs)
  case (Cons b bs)
  then have b: "b \<in> set (b_rows db)" by simp
  obtain w where w: "WindowFor now (bg_Period b) (bg_Alignment b) = Inr w" "win_Key w = window_key now b" "win_Key w \<noteq> ''''"
    using row_window [OF healthyD(4) [OF assms(1) b] assms(3)] .
  from w have "usedFor db t (bg_ID b) (window_key now b) = Inr (ledger_used (b_ledger db) t (bg_ID b) (window_key now b))"
    using usedFor_healthy [OF assms(1,2) healthyD(5) [OF assms(1) b]] by simp
  with Cons w show ?case
    by (simp add: window_res_def exceeds_def violation_def Let_def)
qed simp

definition exceeded_at :: "budget_db \<Rightarrow> string \<Rightarrow> time \<Rightarrow> Usage \<Rightarrow> Scope \<Rightarrow> Budget \<Rightarrow> bool" where
  "exceeded_at db t now amount sc b \<longleftrightarrow> b \<in> set (b_rows db) \<and> applies t sc b \<and> exceeds db t now amount b"

lemma PreCheck_step:
  assumes "healthy db" and "t \<noteq> ''''" and "0 \<le> now" and "bsc_Kind sc \<noteq> ''''" and "bsc_ID sc \<noteq> ''''"
  shows "(\<exists>b. exceeded_at db t now amount sc b \<and> PreCheck db t (sc # scs) now amount = Inr (Some (violation db t sc now amount b)))
    \<or> (\<forall>b. \<not> exceeded_at db t now amount sc b) \<and> PreCheck db t (sc # scs) now amount = PreCheck db t scs now amount"
proof -
  obtain bs where bs: "ListBudgetsByScope db t (bsc_Kind sc) (bsc_ID sc) = Inr bs"
      "set bs = {b \<in> set (b_rows db). applies t sc b}"
    using list_scope [OF assms(1,2,4,5)] by metis
  then have sub: "set bs \<subseteq> set (b_rows db)" by blast
  note P = precheck_budgets_find [OF assms(1,2,3) sub]
  show ?thesis
  proof (cases "List.find (exceeds db t now amount) bs")
    case None
    then have "\<forall>b \<in> set bs. \<not> exceeds db t now amount b" by (simp only: find_None_all)
    then show ?thesis using None bs P by (intro disjI2) (auto simp: store_res_def exceeded_at_def)
  next
    case (Some b)
    with find_Some_prop [OF this] bs P show ?thesis by (auto simp: store_res_def exceeded_at_def)
  qed
qed

lemma PreCheck_cases:
  assumes "healthy db" and "t \<noteq> ''''" and "0 \<le> now" and "scopes_ok scopes"
  shows "PreCheck db t scopes now amount = Inr None \<and> (\<forall>sc \<in> set scopes. \<forall>b. \<not> exceeded_at db t now amount sc b) \<or>
    (\<exists>outer sc inner b. scopes = outer @ sc # inner \<and> exceeded_at db t now amount sc b \<and>
       (\<forall>sc' \<in> set outer. \<forall>b'. \<not> exceeded_at db t now amount sc' b') \<and>
       PreCheck db t scopes now amount = Inr (Some (violation db t sc now amount b)))"
  using assms(4)
proof (induction scopes)
  case (Cons sc scs)
  then have ok: "bsc_Kind sc \<noteq> ''''" "bsc_ID sc \<noteq> ''''" "scopes_ok scs" by (simp_all add: scopes_ok_def)
  from PreCheck_step [OF assms(1,2,3) ok(1,2), of amount scs] show ?case
  proof
    assume "\<exists>b. exceeded_at db t now amount sc b \<and>
      PreCheck db t (sc # scs) now amount = Inr (Some (violation db t sc now amount b))"
    then show ?thesis by (intro disjI2) (rule exI [of _ "[]"], auto)
  next
    assume here: "(\<forall>b. \<not> exceeded_at db t now amount sc b) \<and> PreCheck db t (sc # scs) now amount = PreCheck db t scs now amount"
    from Cons.IH [OF ok(3)] show ?thesis
    proof
      assume "PreCheck db t scs now amount = Inr None \<and> (\<forall>sc \<in> set scs. \<forall>b. \<not> exceeded_at db t now amount sc b)"
      with here show ?thesis by simp
    next
      assume "\<exists>outer sc' inner b. scs = outer @ sc' # inner \<and> exceeded_at db t now amount sc' b \<and>
        (\<forall>sc'' \<in> set outer. \<forall>b'. \<not> exceeded_at db t now amount sc'' b') \<and>
        PreCheck db t scs now amount = Inr (Some (violation db t sc' now amount b))"
      then obtain outer sc' inner b where "scs = outer @ sc' # inner" "exceeded_at db t now amount sc' b"
        "\<forall>sc'' \<in> set outer. \<forall>b'. \<not> exceeded_at db t now amount sc'' b'"
        "PreCheck db t scs now amount = Inr (Some (violation db t sc' now amount b))" by blast
      with here show ?thesis
        by (intro disjI2 exI [of _ "sc # outer"] exI [of _ sc'] exI [of _ inner] exI [of _ b]) auto
    qed
  qed
qed simp

text \<open>C30: on a consistent database the pre-check always decides; it admits the call exactly when no enabled
  budget of any scope would be exceeded, and otherwise reports an exceeded budget of the first (most specific)
  scope that has one, with the usage and the limit it was judged on.\<close>

theorem precheck_hierarchy:
  assumes "healthy db" and "t \<noteq> ''''" and "0 \<le> now" and "scopes_ok scopes"
  shows "PreCheck db t scopes now amount = Inr None \<and> (\<forall>sc \<in> set scopes. \<forall>b. \<not> exceeded_at db t now amount sc b) \<or>
    (\<exists>outer sc inner b. scopes = outer @ sc # inner \<and> exceeded_at db t now amount sc b \<and>
       (\<forall>sc' \<in> set outer. \<forall>b'. \<not> exceeded_at db t now amount sc' b') \<and>
       PreCheck db t scopes now amount = Inr (Some (violation db t sc now amount b)))"
  by (rule PreCheck_cases [OF assms])

lemma sample_healthy: "healthy (sample_books limit)"
  by (simp add: healthy_def budget_inv_def sample_books_def sample_budget_def budget_row_ok_def)

definition sample_scopes :: "Scope list" where
  "sample_scopes = [\<lparr> bsc_Kind = ''vk'', bsc_ID = ''k1'' \<rparr>, \<lparr> bsc_Kind = ''tenant'', bsc_ID = ''acme'' \<rparr>]"

definition one_request :: Usage where
  "one_request = \<lparr> us_Requests = 1, us_Tokens = 0, us_CostUSD = 0 \<rparr>"

lemma sample_scopes_ok: "scopes_ok sample_scopes" "distinct sample_scopes"
  by (simp_all add: scopes_ok_def sample_scopes_def)

lemma sample_window: "window_key 0 (sample_budget limit) = ''roll:1h:0''"
  by (simp add: window_key_def sample_budget_def WindowFor_def rollingWindow_def rollingDuration_def go_div_def Let_def
      dec_int_def dec_nat.simps)

theorem precheck_hierarchy_witness:
  "(PreCheck (sample_books 1) ''acme'' sample_scopes 0 one_request = Inr None \<and>
      (\<forall>sc \<in> set sample_scopes. \<forall>b. \<not> exceeded_at (sample_books 1) ''acme'' 0 one_request sc b) \<or>
    (\<exists>outer sc inner b. sample_scopes = outer @ sc # inner \<and> exceeded_at (sample_books 1) ''acme'' 0 one_request sc b \<and>
       (\<forall>sc' \<in> set outer. \<forall>b'. \<not> exceeded_at (sample_books 1) ''acme'' 0 one_request sc' b') \<and>
       PreCheck (sample_books 1) ''acme'' sample_scopes 0 one_request
         = Inr (Some (violation (sample_books 1) ''acme'' sc 0 one_request b)))) \<and>
   \<not> exceeds (sample_books 1) ''acme'' 0 one_request (sample_budget 1)"
proof -
  have "''acme'' \<noteq> ''''" "(0 :: int) \<le> 0" by simp_all
  from precheck_hierarchy [OF sample_healthy this sample_scopes_ok(1), of 1 one_request] show ?thesis
    by (simp add: exceeds_def sample_window sample_books_def ledger_used_def metric_def one_request_def)
      (simp add: sample_budget_def)
qed

subsection \<open>The booking\<close>

definition booking :: "time \<Rightarrow> Usage \<Rightarrow> Scope \<Rightarrow> Budget \<Rightarrow> LedgerUpdate \<times> touched" where
  "booking now actual sc b =
    (\<lparr> lu_BudgetID = bg_ID b, lu_WindowKey = window_key now b, lu_Delta = metric actual (bg_Metric b),
       lu_ResetsAt = (case WindowFor now (bg_Period b) (bg_Alignment b) of Inr w \<Rightarrow> rfc3339 (win_ResetsAt w) | Inl e \<Rightarrow> '''') \<rparr>,
     \<lparr> tc_budget = b, tc_level = bsc_Kind sc, tc_windowKey = window_key now b \<rparr>)"

definition consumed :: "Usage \<Rightarrow> Budget list \<Rightarrow> Budget list" where
  "consumed actual bs = filter (\<lambda>b. 0 < metric actual (bg_Metric b)) bs"

lemma collect_budgets_eq:
  assumes "healthy db" and "0 \<le> now" and "set bs \<subseteq> set (b_rows db)"
  shows "collect_budgets sc now actual bs = Inr (map (booking now actual sc) (consumed actual bs))"
  using assms(3)
proof (induction bs)
  case (Cons b bs)
  then have b: "b \<in> set (b_rows db)" by simp
  obtain w where w: "WindowFor now (bg_Period b) (bg_Alignment b) = Inr w" "win_Key w = window_key now b"
    using row_window [OF healthyD(4) [OF assms(1) b] assms(2)] by metis
  with Cons show ?case
    by (simp add: window_res_def booking_def consumed_def Let_def)
qed (simp add: consumed_def)

definition scope_budgets :: "budget_db \<Rightarrow> string \<Rightarrow> Scope \<Rightarrow> Budget list" where
  "scope_budgets db t sc = sort_key bg_Metric (sort_key bg_Period (filter (applies t sc) (b_rows db)))"

lemma scope_budgets_set [simp]: "set (scope_budgets db t sc) = {b \<in> set (b_rows db). applies t sc b}"
  by (auto simp: scope_budgets_def)

lemma scope_budgets_list:
  "\<lbrakk> healthy db; t \<noteq> ''''; bsc_Kind sc \<noteq> ''''; bsc_ID sc \<noteq> '''' \<rbrakk> \<Longrightarrow>
    ListBudgetsByScope db t (bsc_Kind sc) (bsc_ID sc) = Inr (scope_budgets db t sc)"
  by (simp add: ListBudgetsByScope_def healthy_def applies_def [abs_def] scope_budgets_def)

definition bookings :: "budget_db \<Rightarrow> string \<Rightarrow> Scope list \<Rightarrow> time \<Rightarrow> Usage \<Rightarrow> (LedgerUpdate \<times> touched) list" where
  "bookings db t scopes now actual =
    concat (map (\<lambda>sc. map (booking now actual sc) (consumed actual (scope_budgets db t sc))) scopes)"

lemma collect_scopes_eq:
  assumes "healthy db" and "t \<noteq> ''''" and "0 \<le> now" and "scopes_ok scopes"
  shows "collect_scopes db t scopes now actual = Inr (bookings db t scopes now actual)"
  using assms(4)
proof (induction scopes)
  case (Cons sc scs)
  then have "collect_budgets sc now actual (scope_budgets db t sc)
      = Inr (map (booking now actual sc) (consumed actual (scope_budgets db t sc)))"
    by (intro collect_budgets_eq [OF assms(1,3)]) auto
  moreover have "ListBudgetsByScope db t (bsc_Kind sc) (bsc_ID sc) = Inr (scope_budgets db t sc)"
    using Cons.prems assms by (intro scope_budgets_list) (simp_all add: scopes_ok_def)
  moreover have "scopes_ok scs" using Cons.prems by (simp add: scopes_ok_def)
  ultimately show ?case
    using Cons.IH by (simp add: store_res_def bookings_def)
qed (simp add: bookings_def)

lemma booked_budget:
  assumes "(u, tc) \<in> set (bookings db t scopes now actual)"
  obtains sc b where "sc \<in> set scopes" "b \<in> set (b_rows db)" "applies t sc b" "0 < metric actual (bg_Metric b)"
    "(u, tc) = booking now actual sc b"
  using assms by (fastforce simp: bookings_def consumed_def)

lemma reconcile_tx_total:
  assumes "healthy db"
    and "\<forall>u \<in> set us. lu_WindowKey u \<noteq> '''' \<and> (\<exists>b \<in> set (b_rows db). same_budget t (lu_BudgetID u) b)"
  shows "\<exists>rows'. reconcile_tx db t us rows = Inr rows'"
  using assms(2)
proof (induction us arbitrary: rows)
  case (Cons u us)
  then obtain b where b: "b \<in> set (b_rows db)" "same_budget t (lu_BudgetID u) b" by auto
  then have "lu_BudgetID u \<noteq> ''''" using healthyD(5) [OF assms(1), of b] by (auto simp: same_budget_def)
  moreover have "ledger_fk_ok db t (lu_BudgetID u)" using b by (auto simp: ledger_fk_ok_def find_None_iff)
  ultimately show ?case using Cons by simp
qed simp

lemma bookings_valid:
  assumes "healthy db" and "0 \<le> now"
  shows "\<forall>u \<in> set (map fst (bookings db t scopes now actual)).
    lu_WindowKey u \<noteq> '''' \<and> (\<exists>b \<in> set (b_rows db). same_budget t (lu_BudgetID u) b)"
proof
  fix u assume "u \<in> set (map fst (bookings db t scopes now actual))"
  then obtain tc where "(u, tc) \<in> set (bookings db t scopes now actual)" by auto
  then obtain sc b where b: "b \<in> set (b_rows db)" "applies t sc b" "(u, tc) = booking now actual sc b"
    by (rule booked_budget)
  obtain w :: Window where "win_Key w = window_key now b" "win_Key w \<noteq> ''''"
    using row_window [OF healthyD(4) [OF assms(1) b(1)] assms(2)] by metis
  with b show "lu_WindowKey u \<noteq> '''' \<and> (\<exists>b \<in> set (b_rows db). same_budget t (lu_BudgetID u) b)"
    by (auto simp: booking_def same_budget_def applies_def)
qed

lemma ReconcileUsage_total:
  assumes "healthy db" and "t \<noteq> ''''" and "0 \<le> now"
  obtains rows where "ReconcileUsage t (map fst (bookings db t scopes now actual)) db = Inr (db \<lparr> b_ledger := rows \<rparr>)"
    "\<And>t' i k. ledger_used rows t' i k = ledger_used (b_ledger db) t' i k
       + (if t' = t then total_delta (map fst (bookings db t scopes now actual)) i k else 0)"
    "\<And>t' i k. ledger_level rows t' i k = ledger_level (b_ledger db) t' i k"
proof -
  let ?us = "map fst (bookings db t scopes now actual)"
  obtain rows where rows: "reconcile_tx db t ?us (b_ledger db) = Inr rows"
    using reconcile_tx_total [OF assms(1) bookings_valid [OF assms(1,3)]] by blast
  show ?thesis
  proof (rule that)
    show "ReconcileUsage t ?us db = Inr (db \<lparr> b_ledger := rows \<rparr>)"
      using rows assms by (auto simp: ReconcileUsage_def healthy_def)
  qed (use reconcile_tx_used [OF rows] in auto)
qed

text \<open>What one call adds to the ledger of one budget: its metric, once, if one of the scopes is the budget's.\<close>

definition scope_of :: "Budget \<Rightarrow> Scope" where
  "scope_of b = \<lparr> bsc_Kind = bg_ScopeKind b, bsc_ID = bg_ScopeID b \<rparr>"

definition booked :: "Scope list \<Rightarrow> time \<Rightarrow> Usage \<Rightarrow> Budget \<Rightarrow> string \<Rightarrow> rat" where
  "booked scopes now actual b k =
    (if bg_Enabled b \<and> scope_of b \<in> set scopes \<and> 0 < metric actual (bg_Metric b) \<and> window_key now b = k
     then metric actual (bg_Metric b) else 0)"

lemma sum_list_single:
  "distinct xs \<Longrightarrow> sum_list (map (\<lambda>x. if x = a then (v :: rat) else 0) xs) = (if a \<in> set xs then v else 0)"
  by (induction xs) auto

lemma total_delta_concat: "total_delta (concat xss) i k = sum_list (map (\<lambda>us. total_delta us i k) xss)"
  by (induction xss) (simp_all add: total_delta_def)

lemma total_delta_scope:
  assumes "healthy db" and "b \<in> set (b_rows db)" and "bg_TenantID b = t"
  shows "total_delta (map fst (map (booking now actual sc) (consumed actual (scope_budgets db t sc)))) (bg_ID b) k =
    (if sc = scope_of b then (if bg_Enabled b \<and> 0 < metric actual (bg_Metric b) \<and> window_key now b = k
        then metric actual (bg_Metric b) else 0) else 0)"
proof -
  let ?xs = "consumed actual (scope_budgets db t sc)"
  have dist: "distinct ?xs"
    using healthyD(3) [OF assms(1)] by (simp add: consumed_def scope_budgets_def distinct_map)
  have uniq: "y = b" if "y \<in> set ?xs" "bg_ID y = bg_ID b" for y
    using that assms distinct_map_key [OF healthyD(3) [OF assms(1)], of y b]
    by (auto simp: consumed_def budget_key_def applies_def)
  have "filter (\<lambda>x. bg_ID x = bg_ID b) ?xs = (if b \<in> set ?xs then [b] else [])"
    using filter_unique [OF dist, of "\<lambda>x. bg_ID x = bg_ID b" b] uniq by simp
  moreover have "total_delta (map fst (map (booking now actual sc) ?xs)) (bg_ID b) k =
      sum_list (map (\<lambda>x. metric actual (bg_Metric x)) (filter (\<lambda>x. window_key now x = k) (filter (\<lambda>x. bg_ID x = bg_ID b) ?xs)))"
    by (simp add: total_delta_def filter_map o_def booking_def conj_commute)
  moreover have "b \<in> set ?xs \<longleftrightarrow> sc = scope_of b \<and> bg_Enabled b \<and> 0 < metric actual (bg_Metric b)"
    using assms(2,3) by (auto simp: consumed_def applies_def scope_of_def)
  ultimately show ?thesis by simp
qed

lemma total_delta_booked:
  assumes "healthy db" and "b \<in> set (b_rows db)" and "bg_TenantID b = t" and "distinct scopes"
  shows "total_delta (map fst (bookings db t scopes now actual)) (bg_ID b) k = booked scopes now actual b k"
proof -
  have "total_delta (map fst (bookings db t scopes now actual)) (bg_ID b) k =
    sum_list (map (\<lambda>sc. if sc = scope_of b then (if bg_Enabled b \<and> 0 < metric actual (bg_Metric b) \<and> window_key now b = k
        then metric actual (bg_Metric b) else 0) else 0) scopes)"
    unfolding bookings_def map_concat total_delta_concat map_map o_def
    using total_delta_scope [OF assms(1,2,3)] by (simp add: o_def)
  also have "\<dots> = booked scopes now actual b k"
    unfolding sum_list_single [OF assms(4)] by (simp add: booked_def)
  finally show ?thesis .
qed

subsection \<open>Warnings\<close>

lemma find_set_level:
  assumes "SetLedgerWarningLevel t i k l db = Inr db'"
  shows "ledger_used (b_ledger db') t' i' k' = ledger_used (b_ledger db) t' i' k'"
    "ledger_level (b_ledger db') t' i' k' =
      (if t' = t \<and> i' = i \<and> k' = k then l else ledger_level (b_ledger db) t' i' k')"
    "b_rows db' = b_rows db" "b_fault db' = b_fault db" "b_fk db' = b_fk db"
proof -
  have F: "List.find (same_ledger t' i' k') (b_ledger db') =
    (if t' = t \<and> i' = i \<and> k' = k
     then Some (case List.find (same_ledger t i k) (b_ledger db) of
         None \<Rightarrow> \<lparr> le_TenantID = t, le_BudgetID = i, le_WindowKey = k, le_Used = 0, le_ResetsAt = '''', le_LastWarningLevel = l \<rparr>
       | Some e \<Rightarrow> e \<lparr> le_LastWarningLevel := l \<rparr>)
     else List.find (same_ledger t' i' k') (b_ledger db))"
  proof (cases "List.find (same_ledger t i k) (b_ledger db)")
    case None
    with assms show ?thesis
      by (auto simp: SetLedgerWarningLevel_def Let_def find_append same_ledger_def split: if_splits option.splits)
  next
    case (Some e)
    have "List.find (same_ledger t' i' k') (map (\<lambda>e. if same_ledger t i k e then e \<lparr> le_LastWarningLevel := l \<rparr> else e) (b_ledger db))
      = map_option (\<lambda>e. if same_ledger t i k e then e \<lparr> le_LastWarningLevel := l \<rparr> else e) (List.find (same_ledger t' i' k') (b_ledger db))"
      by (rule find_map_keep) (simp add: same_ledger_def)
    with Some assms find_Some_prop [of "same_ledger t' i' k'" "b_ledger db"] show ?thesis
      by (cases "List.find (same_ledger t' i' k') (b_ledger db)")
        (auto simp: SetLedgerWarningLevel_def Let_def same_ledger_def split: if_splits)
  qed
  show "ledger_used (b_ledger db') t' i' k' = ledger_used (b_ledger db) t' i' k'"
    "ledger_level (b_ledger db') t' i' k' = (if t' = t \<and> i' = i \<and> k' = k then l else ledger_level (b_ledger db) t' i' k')"
    by (simp_all add: ledger_used_def ledger_level_def F split: option.splits)
  show "b_rows db' = b_rows db" "b_fault db' = b_fault db" "b_fk db' = b_fk db"
    using assms by (auto simp: SetLedgerWarningLevel_def Let_def split: if_splits)
qed

definition same_books :: "budget_db \<Rightarrow> budget_db \<Rightarrow> bool" where
  "same_books db db' \<longleftrightarrow> b_rows db' = b_rows db \<and> b_fault db' = b_fault db \<and> b_fk db' = b_fk db \<and>
    (\<forall>t i k. ledger_used (b_ledger db') t i k = ledger_used (b_ledger db) t i k)"

lemma same_books_refl [simp]: "same_books db db"
  by (simp add: same_books_def)

lemma same_books_trans: "\<lbrakk> same_books a b; same_books b c \<rbrakk> \<Longrightarrow> same_books a c"
  by (simp add: same_books_def)

text \<open>The percentages of the warnings for one budget.\<close>

definition pcts :: "string \<Rightarrow> Warning list \<Rightarrow> int list" where
  "pcts i ws = map wn_Pct (filter (\<lambda>w. wn_BudgetID w = i) ws)"

lemma pcts_append [simp]: "pcts i (xs @ ys) = pcts i xs @ pcts i ys"
  by (simp add: pcts_def)

lemma highestCrossed_cases: "highestCrossed p = (if 100 \<le> p then 100 else if 95 \<le> p then 95 else if 80 \<le> p then 80 else 0)"
  by (simp add: highestCrossed_def warnThresholds_def)

lemma GetLedger_level:
  "GetLedger db t i k = Inr row \<Longrightarrow>
    ledger_level (b_ledger db) t i k = (case row of None \<Rightarrow> 0 | Some le \<Rightarrow> le_LastWarningLevel le) \<and>
    ledger_used (b_ledger db) t i k = (case row of None \<Rightarrow> 0 | Some le \<Rightarrow> le_Used le)"
  by (auto simp: GetLedger_def ledger_level_def ledger_used_def split: if_splits)

definition crossing :: "budget_db \<Rightarrow> string \<Rightarrow> Budget \<Rightarrow> string \<Rightarrow> int" where
  "crossing db t b k =
    (if bg_LimitVal b \<le> 0 then 0
     else highestCrossed (go_trunc (ledger_used (b_ledger db) t (bg_ID b) k / bg_LimitVal b * 100)))"

text \<open>One round of the loop either leaves the ledger alone or raises one level and warns with it.\<close>

lemma warn_loop_step:
  assumes "warn_loop t (tc # ts) ws db = (ws', e, db')"
  obtains "e \<noteq> None" "ws' = ws" "db' = db"
      "(\<exists>err. GetLedger db t (bg_ID (tc_budget tc)) (tc_windowKey tc) = Inl err) \<or>
       (\<exists>l err. SetLedgerWarningLevel t (bg_ID (tc_budget tc)) (tc_windowKey tc) l db = Inl err)"
  | "warn_loop t ts ws db = (ws', e, db')"
      "crossing db t (tc_budget tc) (tc_windowKey tc) \<le>
        max 0 (ledger_level (b_ledger db) t (bg_ID (tc_budget tc)) (tc_windowKey tc))"
  | l w db1 where "warn_loop t ts (ws @ [w]) db1 = (ws', e, db')"
      "SetLedgerWarningLevel t (bg_ID (tc_budget tc)) (tc_windowKey tc) l db = Inr db1"
      "wn_Pct w = l" "wn_BudgetID w = bg_ID (tc_budget tc)" "l \<in> {80, 95, 100}"
      "ledger_level (b_ledger db) t (bg_ID (tc_budget tc)) (tc_windowKey tc) < l"
      "l = crossing db t (tc_budget tc) (tc_windowKey tc)"
proof -
  let ?b = "tc_budget tc" and ?k = "tc_windowKey tc"
  show ?thesis
  proof (cases "GetLedger db t (bg_ID ?b) ?k")
    case (Inl err)
    with assms show ?thesis by (intro that(1)) auto
  next
    case (Inr row)
    show ?thesis
    proof (cases row)
      case None
      with assms Inr GetLedger_level [OF Inr] show ?thesis
        by (intro that(2)) (auto simp: crossing_def go_trunc_def highestCrossed_cases)
    next
      case (Some le)
      define crossed where "crossed = highestCrossed (go_trunc (le_Used le / bg_LimitVal ?b * 100))"
      show ?thesis
      proof (cases "bg_LimitVal ?b \<le> 0 \<or> crossed = 0 \<or> crossed \<le> le_LastWarningLevel le")
        case True
        with assms Inr Some GetLedger_level [OF Inr] show ?thesis
          by (intro that(2)) (auto simp: Let_def crossed_def crossing_def split: if_splits)
      next
        case False
        then have lv: "crossed \<in> {80, 95, 100}" "ledger_level (b_ledger db) t (bg_ID ?b) ?k < crossed"
          using GetLedger_level [OF Inr] Some by (auto simp: crossed_def highestCrossed_cases split: if_splits)
        show ?thesis
        proof (cases "SetLedgerWarningLevel t (bg_ID ?b) ?k crossed db")
          case (Inl err)
          with assms Inr Some False \<open>GetLedger db t (bg_ID ?b) ?k = Inr row\<close> show ?thesis
            by (intro that(1)) (auto simp: Let_def crossed_def)
        next
          case set: (Inr db1)
          with assms Inr Some False lv GetLedger_level [OF Inr] show ?thesis
            by (intro that(3) [of "\<lparr> wn_Level = tc_level tc, wn_Metric = bg_Metric ?b, wn_BudgetID = bg_ID ?b,
                wn_Pct = crossed, wn_Used = le_Used le, wn_Limit = bg_LimitVal ?b \<rparr>" db1 crossed])
              (auto simp: Let_def crossed_def crossing_def)
        qed
      qed
    qed
  qed
qed

lemma warn_loop_books:
  "\<lbrakk> warn_loop t ts ws db = (ws', e, db'); budget_inv db \<rbrakk> \<Longrightarrow> same_books db db' \<and> budget_inv db'"
proof (induction ts arbitrary: ws db)
  case (Cons tc ts)
  from Cons.prems(1) show ?case
  proof (cases rule: warn_loop_step)
    case (3 l w db1)
    have "same_books db db1" "budget_inv db1"
      using find_set_level [OF 3(2)] SetLedgerWarningLevel_inv [OF Cons.prems(2) 3(2)] by (simp_all add: same_books_def)
    with Cons.IH [OF 3(1)] show ?thesis using same_books_trans by blast
  qed (use Cons in auto)
qed simp

lemma warn_loop_levels:
  assumes "warn_loop t ts ws db = (ws', e, db')"
    and "\<forall>tc \<in> set ts. bg_ID (tc_budget tc) = i \<longrightarrow> tc_windowKey tc = k"
  shows "\<exists>new. ws' = ws @ new \<and> set (pcts i new) \<subseteq> {80, 95, 100} \<and>
    sorted_wrt (<) (ledger_level (b_ledger db) t i k # pcts i new) \<and>
    ledger_level (b_ledger db') t i k = last (ledger_level (b_ledger db) t i k # pcts i new)"
  using assms
proof (induction ts arbitrary: ws db)
  case Nil
  then show ?case by (simp add: pcts_def)
next
  case (Cons tc ts)
  from Cons.prems(2) have keys: "\<forall>tc \<in> set ts. bg_ID (tc_budget tc) = i \<longrightarrow> tc_windowKey tc = k" by simp
  from Cons.prems(1) show ?case
  proof (cases rule: warn_loop_step)
    case 1
    then show ?thesis by (simp add: pcts_def)
  next
    case 2
    from Cons.IH [OF 2(1) keys] show ?thesis .
  next
    case (3 l w db1)
    from Cons.IH [OF 3(1) keys] obtain new where new: "ws' = ws @ w # new" "set (pcts i new) \<subseteq> {80, 95, 100}"
      "sorted_wrt (<) (ledger_level (b_ledger db1) t i k # pcts i new)"
      "ledger_level (b_ledger db') t i k = last (ledger_level (b_ledger db1) t i k # pcts i new)"
      by auto
    show ?thesis
    proof (cases "bg_ID (tc_budget tc) = i")
      case True
      with Cons.prems(2) have "tc_windowKey tc = k" by simp
      with True 3 find_set_level(2) [OF 3(2)] have "ledger_level (b_ledger db1) t i k = l"
        "ledger_level (b_ledger db) t i k < l" "pcts i (w # new) = l # pcts i new" "l \<in> {80, 95, 100}"
        by (auto simp: pcts_def)
      with new show ?thesis by (intro exI [of _ "w # new"]) auto
    next
      case False
      with 3 find_set_level(2) [OF 3(2)] have "ledger_level (b_ledger db1) t i k = ledger_level (b_ledger db) t i k"
        "pcts i (w # new) = pcts i new"
        by (auto simp: pcts_def)
      with new show ?thesis by (intro exI [of _ "w # new"]) simp
    qed
  qed
qed

lemma warn_loop_mono:
  "warn_loop t ts ws db = (ws', e, db') \<Longrightarrow> ledger_level (b_ledger db) t i k \<le> ledger_level (b_ledger db') t i k"
proof (induction ts arbitrary: ws db)
  case (Cons tc ts)
  from Cons.prems show ?case
  proof (cases rule: warn_loop_step)
    case (3 l w db1)
    have "ledger_level (b_ledger db) t i k \<le> ledger_level (b_ledger db1) t i k"
      using find_set_level(2) [OF 3(2), of t i k] 3 by auto
    with Cons.IH [OF 3(1)] show ?thesis by simp
  qed (use Cons in auto)
qed simp

lemma crossing_books: "same_books db db' \<Longrightarrow> crossing db' t b k = crossing db t b k"
  by (simp add: crossing_def same_books_def)

lemma warn_loop_reaches:
  assumes "warn_loop t ts ws db = (ws', None, db')" and "budget_inv db" and "tc \<in> set ts"
    and "0 \<le> ledger_level (b_ledger db) t (bg_ID (tc_budget tc)) (tc_windowKey tc)"
  shows "crossing db t (tc_budget tc) (tc_windowKey tc) \<le> ledger_level (b_ledger db') t (bg_ID (tc_budget tc)) (tc_windowKey tc)"
  using assms
proof (induction ts arbitrary: ws db)
  case (Cons tc' ts)
  let ?lv = "\<lambda>db. ledger_level (b_ledger db) t (bg_ID (tc_budget tc)) (tc_windowKey tc)"
  from Cons.prems(1) show ?case
  proof (cases rule: warn_loop_step)
    case 2
    show ?thesis
    proof (cases "tc = tc'")
      case True
      with 2 Cons.prems(4) warn_loop_mono [OF 2(1), of "bg_ID (tc_budget tc)" "tc_windowKey tc"] show ?thesis by auto
    next
      case False
      with Cons 2 show ?thesis by auto
    qed
  next
    case (3 l w db1)
    have books: "same_books db db1" "budget_inv db1"
      using find_set_level [OF 3(2)] SetLedgerWarningLevel_inv [OF Cons.prems(2) 3(2)] by (simp_all add: same_books_def)
    show ?thesis
    proof (cases "tc = tc'")
      case True
      with 3 find_set_level(2) [OF 3(2), of t "bg_ID (tc_budget tc)" "tc_windowKey tc"]
        warn_loop_mono [OF 3(1), of "bg_ID (tc_budget tc)" "tc_windowKey tc"] show ?thesis by simp
    next
      case False
      have "0 \<le> ?lv db1"
        using find_set_level(2) [OF 3(2), of t "bg_ID (tc_budget tc)" "tc_windowKey tc"] 3 Cons.prems(4) by auto
      with Cons.IH [OF 3(1) books(2)] False Cons.prems(3) crossing_books [OF books(1)] show ?thesis by simp
    qed
  qed simp
qed simp

lemma warn_loop_total:
  assumes "healthy db" and "t \<noteq> ''''"
    and "\<forall>tc \<in> set ts. tc_windowKey tc \<noteq> '''' \<and> (\<exists>b \<in> set (b_rows db). same_budget t (bg_ID (tc_budget tc)) b)"
  shows "\<exists>ws' db'. warn_loop t ts ws db = (ws', None, db')"
  using assms
proof (induction ts arbitrary: ws db)
  case (Cons tc ts)
  let ?i = "bg_ID (tc_budget tc)" and ?k = "tc_windowKey tc"
  from Cons.prems(3) obtain b where b: "b \<in> set (b_rows db)" "same_budget t ?i b" and k: "?k \<noteq> ''''" by auto
  then have i: "?i \<noteq> ''''" using healthyD(5) [OF Cons.prems(1), of b] by (auto simp: same_budget_def)
  have "ledger_fk_ok db t ?i" using b by (auto simp: ledger_fk_ok_def find_None_iff)
  then have set: "\<exists>db1. SetLedgerWarningLevel t ?i ?k l db = Inr db1" for l
    using i k Cons.prems(1,2) by (auto simp: SetLedgerWarningLevel_def healthy_def Let_def)
  have get: "\<exists>row. GetLedger db t ?i ?k = Inr row"
    using i k Cons.prems(1,2) by (simp add: GetLedger_def healthy_def)
  obtain ws' e db' where run: "warn_loop t (tc # ts) ws db = (ws', e, db')" by (cases "warn_loop t (tc # ts) ws db") auto
  from this show ?case
  proof (cases rule: warn_loop_step)
    case 1
    with get set show ?thesis by (metis Inl_Inr_False)
  next
    case 2
    with Cons.IH [OF Cons.prems(1,2)] Cons.prems(3) run show ?thesis by (metis list.set_intros(2) prod.inject)
  next
    case (3 l w db1)
    have "healthy db1" "b_rows db1 = b_rows db"
      using find_set_level [OF 3(2)] SetLedgerWarningLevel_inv [OF healthyD(1) [OF Cons.prems(1)] 3(2)] Cons.prems(1)
      by (simp_all add: healthy_def)
    with Cons.IH [OF this(1) Cons.prems(2), of "ws @ [w]"] Cons.prems(3) run 3(1) show ?thesis
      by (metis list.set_intros(2) prod.inject)
  qed
qed simp

lemma booking_touches:
  assumes "healthy db" and "0 \<le> now"
  shows "\<forall>tc \<in> set (map snd (bookings db t scopes now actual)).
    tc_windowKey tc \<noteq> '''' \<and> (\<exists>b \<in> set (b_rows db). same_budget t (bg_ID (tc_budget tc)) b)"
proof
  fix tc assume "tc \<in> set (map snd (bookings db t scopes now actual))"
  then obtain u where u: "(u, tc) \<in> set (bookings db t scopes now actual)" by auto
  from bookings_valid [OF assms, of t scopes actual] u
  have "lu_WindowKey u \<noteq> ''''" "\<exists>b \<in> set (b_rows db). same_budget t (lu_BudgetID u) b" by force+
  with u show "tc_windowKey tc \<noteq> '''' \<and> (\<exists>b \<in> set (b_rows db). same_budget t (bg_ID (tc_budget tc)) b)"
    by (auto elim!: booked_budget simp: booking_def)
qed

subsection \<open>Reconciliation books every level exactly once\<close>

lemma Reconcile_split:
  assumes "healthy db" and "t \<noteq> ''''" and "0 \<le> now" and "scopes_ok scopes"
  obtains db1 ws db' where "Reconcile t scopes now actual db = (ws, None, db')"
    "warn_loop t (map snd (bookings db t scopes now actual)) [] db1 = (ws, None, db')"
    "healthy db1" "b_rows db1 = b_rows db" "b_fk db1 = b_fk db"
    "\<And>t' i k. ledger_used (b_ledger db1) t' i k = ledger_used (b_ledger db) t' i k
       + (if t' = t then total_delta (map fst (bookings db t scopes now actual)) i k else 0)"
    "\<And>t' i k. ledger_level (b_ledger db1) t' i k = ledger_level (b_ledger db) t' i k"
proof -
  let ?bk = "bookings db t scopes now actual"
  obtain rows where r: "ReconcileUsage t (map fst ?bk) db = Inr (db \<lparr> b_ledger := rows \<rparr>)"
    "\<And>t' i k. ledger_used rows t' i k = ledger_used (b_ledger db) t' i k + (if t' = t then total_delta (map fst ?bk) i k else 0)"
    "\<And>t' i k. ledger_level rows t' i k = ledger_level (b_ledger db) t' i k"
    using ReconcileUsage_total [OF assms(1,2,3), of scopes actual] by metis
  define db1 where "db1 = db \<lparr> b_ledger := rows \<rparr>"
  have h1: "healthy db1" "b_rows db1 = b_rows db" "b_fk db1 = b_fk db"
    using ReconcileUsage_inv [OF healthyD(1) [OF assms(1)] r(1)] assms(1) by (simp_all add: db1_def healthy_def)
  obtain ws db' where w: "warn_loop t (map snd ?bk) [] db1 = (ws, None, db')"
    using warn_loop_total [OF h1(1) assms(2), of "map snd ?bk" "[]"] booking_touches [OF assms(1,3)] h1(2) by auto
  have "?bk = [] \<Longrightarrow> db1 = db"
    using r(1) assms(2) by (auto simp: ReconcileUsage_def db1_def)
  then have "Reconcile t scopes now actual db = (ws, None, db')"
    using w r(1) by (auto simp: Reconcile_def collect_scopes_eq [OF assms] db1_def [symmetric])
  with w h1 r(2,3) show ?thesis by (intro that [of ws db' db1]) (simp_all add: db1_def)
qed

lemma Reconcile_books:
  assumes "healthy db" and "t \<noteq> ''''" and "0 \<le> now" and "scopes_ok scopes" and "distinct scopes"
  shows "\<exists>ws db'. Reconcile t scopes now actual db = (ws, None, db') \<and> healthy db' \<and> b_rows db' = b_rows db \<and>
    (\<forall>b k. b \<in> set (b_rows db) \<and> bg_TenantID b = t \<longrightarrow>
       ledger_used (b_ledger db') t (bg_ID b) k = ledger_used (b_ledger db) t (bg_ID b) k + booked scopes now actual b k) \<and>
    (\<forall>t' i k. t' \<noteq> t \<longrightarrow> ledger_used (b_ledger db') t' i k = ledger_used (b_ledger db) t' i k)"
proof -
  obtain db1 ws db' where R: "Reconcile t scopes now actual db = (ws, None, db')"
    and w: "warn_loop t (map snd (bookings db t scopes now actual)) [] db1 = (ws, None, db')"
    and h1: "healthy db1" "b_rows db1 = b_rows db"
    and used: "\<And>t' i k. ledger_used (b_ledger db1) t' i k = ledger_used (b_ledger db) t' i k
       + (if t' = t then total_delta (map fst (bookings db t scopes now actual)) i k else 0)"
    using Reconcile_split [OF assms(1-4), of actual] by metis
  from warn_loop_books [OF w healthyD(1) [OF h1(1)]] h1 have "healthy db'" "b_rows db' = b_rows db"
    "\<And>t' i k. ledger_used (b_ledger db') t' i k = ledger_used (b_ledger db1) t' i k"
    by (auto simp: same_books_def healthy_def)
  with R used total_delta_booked [OF assms(1) _ _ assms(5)] show ?thesis by auto
qed

text \<open>C31: on a consistent database \<open>Reconcile\<close> succeeds, keeps the database consistent, and adds the call's
  usage to the current window of exactly the enabled budgets of its scopes that count a metric the call consumed,
  each once; every other ledger row, of this tenant or another, keeps its amount.\<close>

theorem reconcile_conservation:
  assumes "healthy db" and "t \<noteq> ''''" and "0 \<le> now" and "scopes_ok scopes" and "distinct scopes"
  shows "\<exists>ws db'. Reconcile t scopes now actual db = (ws, None, db') \<and> healthy db' \<and> b_rows db' = b_rows db \<and>
    (\<forall>b k. b \<in> set (b_rows db) \<and> bg_TenantID b = t \<longrightarrow>
       ledger_used (b_ledger db') t (bg_ID b) k = ledger_used (b_ledger db) t (bg_ID b) k + booked scopes now actual b k) \<and>
    (\<forall>t' i k. t' \<noteq> t \<longrightarrow> ledger_used (b_ledger db') t' i k = ledger_used (b_ledger db) t' i k)"
  by (rule Reconcile_books [OF assms])

theorem reconcile_conservation_witness:
  "\<exists>ws db'. Reconcile ''acme'' sample_scopes 0 one_request (sample_books 1) = (ws, None, db') \<and> healthy db' \<and>
    ledger_used (b_ledger db') ''acme'' ''b1'' ''roll:1h:0'' = 1"
proof -
  have ne: "''acme'' \<noteq> ''''" "(0 :: int) \<le> 0" by simp_all
  have b: "sample_budget 1 \<in> set (b_rows (sample_books 1))" "bg_TenantID (sample_budget 1) = ''acme''"
    "bg_ID (sample_budget 1) = ''b1''"
    by (simp_all add: sample_books_def sample_budget_def)
  have bk: "booked sample_scopes 0 one_request (sample_budget 1) ''roll:1h:0'' = 1"
    unfolding booked_def sample_window
    by (simp add: sample_budget_def scope_of_def sample_scopes_def metric_def one_request_def)
  have z: "ledger_used (b_ledger (sample_books 1)) ''acme'' ''b1'' ''roll:1h:0'' = 0"
    by (simp add: sample_books_def ledger_used_def)
  from reconcile_conservation [OF sample_healthy [of 1] ne sample_scopes_ok, of one_request]
  obtain ws db' where R: "Reconcile ''acme'' sample_scopes 0 one_request (sample_books 1) = (ws, None, db')" "healthy db'"
    and U: "\<And>b k. \<lbrakk> b \<in> set (b_rows (sample_books 1)); bg_TenantID b = ''acme'' \<rbrakk> \<Longrightarrow>
      ledger_used (b_ledger db') ''acme'' (bg_ID b) k = ledger_used (b_ledger (sample_books 1)) ''acme'' (bg_ID b) k
        + booked sample_scopes 0 one_request b k"
    by blast
  from U [OF b(1,2), of "''roll:1h:0''"] have "ledger_used (b_ledger db') ''acme'' ''b1'' ''roll:1h:0'' = 1"
    unfolding b(3) bk z by simp
  with R show ?thesis by blast
qed

subsection \<open>Serial calls stay within their budgets\<close>

text \<open>A call: its instant, its scopes, the estimate the pre-check sees and what is booked afterwards.\<close>

record budget_call =
  bc_now :: time
  bc_scopes :: "Scope list"
  bc_estimate :: Usage
  bc_actual :: Usage

fun serve_calls :: "string \<Rightarrow> budget_call list \<Rightarrow> budget_db \<Rightarrow> budget_db" where
  "serve_calls t [] db = db"
| "serve_calls t (c # cs) db =
    (if PreCheck db t (bc_scopes c) (bc_now c) (bc_estimate c) = Inr None
     then serve_calls t cs (snd (snd (Reconcile t (bc_scopes c) (bc_now c) (bc_actual c) db)))
     else serve_calls t cs db)"

definition call_ok :: "budget_call \<Rightarrow> bool" where
  "call_ok c \<longleftrightarrow> 0 \<le> bc_now c \<and> scopes_ok (bc_scopes c) \<and> distinct (bc_scopes c)"

definition estimate_covers :: "string \<Rightarrow> budget_call \<Rightarrow> bool" where
  "estimate_covers m c \<longleftrightarrow> metric (bc_actual c) m \<le> metric (bc_estimate c) m"

lemma serve_calls_step:
  assumes "healthy db" and "t \<noteq> ''''" and "call_ok c"
    and "b \<in> set (b_rows db)" and "bg_TenantID b = t" and "estimate_covers (bg_Metric b) c"
    and "\<forall>k. ledger_used (b_ledger db) t (bg_ID b) k \<le> max 0 (bg_LimitVal b)"
    and "PreCheck db t (bc_scopes c) (bc_now c) (bc_estimate c) = Inr None"
  defines "db' \<equiv> snd (snd (Reconcile t (bc_scopes c) (bc_now c) (bc_actual c) db))"
  shows "healthy db'" "b_rows db' = b_rows db"
    "\<forall>k. ledger_used (b_ledger db') t (bg_ID b) k \<le> max 0 (bg_LimitVal b)"
proof -
  from assms(3) have c: "0 \<le> bc_now c" "scopes_ok (bc_scopes c)" "distinct (bc_scopes c)" by (simp_all add: call_ok_def)
  from Reconcile_books [OF assms(1,2) c, of "bc_actual c"] assms(4,5)
  have R: "healthy db'" "b_rows db' = b_rows db"
    "\<And>k. ledger_used (b_ledger db') t (bg_ID b) k
       = ledger_used (b_ledger db) t (bg_ID b) k + booked (bc_scopes c) (bc_now c) (bc_actual c) b k"
    by (auto simp: db'_def)
  show "healthy db'" "b_rows db' = b_rows db" by (fact R)+
  have noex: "\<not> exceeds db t (bc_now c) (bc_estimate c) b" if "bg_Enabled b" "scope_of b \<in> set (bc_scopes c)"
    using PreCheck_cases [OF assms(1,2) c(1,2), of "bc_estimate c"] assms(4,5,8) that
    by (auto simp: exceeded_at_def applies_def scope_of_def)
  show "\<forall>k. ledger_used (b_ledger db') t (bg_ID b) k \<le> max 0 (bg_LimitVal b)"
  proof
    fix k
    show "ledger_used (b_ledger db') t (bg_ID b) k \<le> max 0 (bg_LimitVal b)"
    proof (cases "booked (bc_scopes c) (bc_now c) (bc_actual c) b k = 0")
      case True
      then show ?thesis using R(3) assms(7) by simp
    next
      case False
      then have *: "bg_Enabled b" "scope_of b \<in> set (bc_scopes c)" "0 < metric (bc_actual c) (bg_Metric b)"
        "window_key (bc_now c) b = k" "booked (bc_scopes c) (bc_now c) (bc_actual c) b k = metric (bc_actual c) (bg_Metric b)"
        by (auto simp: booked_def split: if_splits)
      from noex [OF *(1,2)] *(3,4,5) assms(6) R(3) [of k] show ?thesis
        by (auto simp: exceeds_def estimate_covers_def not_less max_def)
    qed
  qed
qed

text \<open>C32: if calls are checked and booked one after the other and the estimate of each covers what it then
  consumes of a budget's metric, the budget's ledger never passes its limit in any window, however many calls
  are made and at whatever instants.\<close>

theorem budgets_hold_serially:
  assumes "healthy db" and "t \<noteq> ''''" and "list_all call_ok cs"
    and "b \<in> set (b_rows db)" and "bg_TenantID b = t" and "list_all (estimate_covers (bg_Metric b)) cs"
    and "\<forall>k. ledger_used (b_ledger db) t (bg_ID b) k \<le> max 0 (bg_LimitVal b)"
  shows "ledger_used (b_ledger (serve_calls t cs db)) t (bg_ID b) k \<le> max 0 (bg_LimitVal b)"
  using assms
proof (induction cs arbitrary: db)
  case (Cons c cs)
  show ?case
  proof (cases "PreCheck db t (bc_scopes c) (bc_now c) (bc_estimate c) = Inr None")
    case True
    have c: "call_ok c" "estimate_covers (bg_Metric b) c" and cs: "list_all call_ok cs" "list_all (estimate_covers (bg_Metric b)) cs"
      using Cons.prems by auto
    note S = serve_calls_step [OF Cons.prems(1,2) c(1) Cons.prems(4,5) c(2) Cons.prems(7) True]
    from Cons.IH [OF S(1) Cons.prems(2) cs(1) _ Cons.prems(5) cs(2) S(3)] S(2) Cons.prems(4) True
    show ?thesis by simp
  next
    case False
    with Cons show ?thesis by simp
  qed
qed simp

definition sample_call :: budget_call where
  "sample_call = \<lparr> bc_now = 0, bc_scopes = sample_scopes, bc_estimate = one_request, bc_actual = one_request \<rparr>"

lemma sample_call_ok: "call_ok sample_call" "estimate_covers m sample_call"
  using sample_scopes_ok by (simp_all add: call_ok_def estimate_covers_def sample_call_def)

theorem budgets_hold_serially_witness:
  "ledger_used (b_ledger (serve_calls ''acme'' [sample_call, sample_call, sample_call] (sample_books 2))) ''acme'' ''b1'' ''roll:1h:0'' \<le> 2"
proof -
  have b: "sample_budget 2 \<in> set (b_rows (sample_books 2))" "bg_TenantID (sample_budget 2) = ''acme''"
    "bg_ID (sample_budget 2) = ''b1''" "bg_LimitVal (sample_budget 2) = 2"
    by (simp_all add: sample_books_def sample_budget_def)
  have "\<forall>k. ledger_used (b_ledger (sample_books 2)) ''acme'' (bg_ID (sample_budget 2)) k \<le> max 0 (bg_LimitVal (sample_budget 2))"
    unfolding b by (simp add: sample_books_def ledger_used_def)
  from budgets_hold_serially [OF sample_healthy _ _ b(1,2) _ this, of "[sample_call, sample_call, sample_call]" "''roll:1h:0''"]
  show ?thesis unfolding b(3,4) using sample_call_ok by simp
qed

subsection \<open>Each threshold warns once\<close>

lemma highestCrossed_mono: "p \<le> q \<Longrightarrow> highestCrossed p \<le> highestCrossed q"
  by (simp add: highestCrossed_cases)

lemma go_trunc_mono:
  assumes "x \<le> y"
  shows "go_trunc x \<le> go_trunc y"
proof (cases "x < 0 \<and> 0 \<le> y")
  case True
  then have "0 \<le> \<lfloor>- x\<rfloor>" "0 \<le> \<lfloor>y\<rfloor>" by simp_all
  then have "- \<lfloor>- x\<rfloor> \<le> \<lfloor>y\<rfloor>" by linarith
  with True show ?thesis by (simp add: go_trunc_def)
next
  case False
  moreover have "\<lfloor>- y\<rfloor> \<le> \<lfloor>- x\<rfloor>" "\<lfloor>x\<rfloor> \<le> \<lfloor>y\<rfloor>" using assms by (simp_all add: floor_mono)
  ultimately show ?thesis using assms by (auto simp: go_trunc_def)
qed

lemma crossing_mono:
  assumes "ledger_used (b_ledger db) t (bg_ID b) k \<le> ledger_used (b_ledger db') t (bg_ID b) k"
  shows "crossing db t b k \<le> crossing db' t b k"
proof (cases "bg_LimitVal b \<le> 0")
  case False
  then have "ledger_used (b_ledger db) t (bg_ID b) k / bg_LimitVal b * 100 \<le> ledger_used (b_ledger db') t (bg_ID b) k / bg_LimitVal b * 100"
    using assms by (simp add: divide_right_mono)
  then show ?thesis
    using False by (simp add: crossing_def highestCrossed_mono go_trunc_mono)
qed (simp add: crossing_def)

lemma crossing_nonneg: "0 \<le> crossing db t b k"
  by (simp add: crossing_def highestCrossed_cases)

lemma warn_loop_pcts:
  assumes "warn_loop t ts ws db = (ws', e, db')" and "budget_inv db"
  shows "\<exists>new. ws' = ws @ new \<and>
    (\<forall>p \<in> set (pcts i new). \<exists>tc \<in> set ts. bg_ID (tc_budget tc) = i \<and> p = crossing db t (tc_budget tc) (tc_windowKey tc))"
  using assms
proof (induction ts arbitrary: ws db)
  case (Cons tc ts)
  from Cons.prems(1) show ?case
  proof (cases rule: warn_loop_step)
    case 1
    then show ?thesis by (simp add: pcts_def)
  next
    case 2
    from Cons.IH [OF 2(1) Cons.prems(2)] show ?thesis by fastforce
  next
    case (3 l w db1)
    have books: "same_books db db1" "budget_inv db1"
      using find_set_level [OF 3(2)] SetLedgerWarningLevel_inv [OF Cons.prems(2) 3(2)] by (simp_all add: same_books_def)
    from Cons.IH [OF 3(1) books(2)] obtain new where new: "ws' = ws @ w # new"
      "\<forall>p \<in> set (pcts i new). \<exists>tc \<in> set ts. bg_ID (tc_budget tc) = i \<and> p = crossing db t (tc_budget tc) (tc_windowKey tc)"
      by (auto simp: crossing_books [OF books(1)])
    moreover have "p \<in> set (pcts i (w # new)) \<Longrightarrow>
        p \<in> set (pcts i new) \<or> bg_ID (tc_budget tc) = i \<and> p = crossing db t (tc_budget tc) (tc_windowKey tc)" for p
      using 3 by (auto simp: pcts_def split: if_splits)
    ultimately show ?thesis by (intro exI [of _ "w # new"]) fastforce
  qed
qed (simp add: pcts_def)

text \<open>The touched entries with the id of a budget are that budget in its current window.\<close>

lemma touched_budget:
  assumes "healthy db" and "b \<in> set (b_rows db)" and "bg_TenantID b = t"
    and "tc \<in> set (map snd (bookings db t scopes now actual))" and "bg_ID (tc_budget tc) = bg_ID b"
  shows "tc_budget tc = b" "tc_windowKey tc = window_key now b"
proof -
  from assms(4) obtain u where "(u, tc) \<in> set (bookings db t scopes now actual)" by auto
  then obtain sc b' where b': "b' \<in> set (b_rows db)" "applies t sc b'" "(u, tc) = booking now actual sc b'"
    by (rule booked_budget)
  then have "b' = b"
    using assms(2,3,5) distinct_map_key [OF healthyD(3) [OF assms(1)], of b' b]
    by (auto simp: booking_def budget_key_def applies_def)
  with b' show "tc_budget tc = b" "tc_windowKey tc = window_key now b" by (auto simp: booking_def)
qed

lemma Reconcile_warns:
  assumes "healthy db" and "t \<noteq> ''''" and "call_ok c" and "b \<in> set (b_rows db)" and "bg_TenantID b = t"
    and "ledger_level (b_ledger db) t (bg_ID b) k = crossing db t b k" and "window_key (bc_now c) b = k"
    and "Reconcile t (bc_scopes c) (bc_now c) (bc_actual c) db = (ws, e, db')"
  shows "set (pcts (bg_ID b) ws) \<subseteq> {80, 95, 100}"
    "sorted_wrt (<) (crossing db t b k # pcts (bg_ID b) ws)"
    "last (crossing db t b k # pcts (bg_ID b) ws) = crossing db' t b k"
    "ledger_level (b_ledger db') t (bg_ID b) k = crossing db' t b k"
proof -
  from assms(3) have c: "0 \<le> bc_now c" "scopes_ok (bc_scopes c)" "distinct (bc_scopes c)" by (simp_all add: call_ok_def)
  let ?bk = "bookings db t (bc_scopes c) (bc_now c) (bc_actual c)"
  obtain db1 where w: "warn_loop t (map snd ?bk) [] db1 = (ws, None, db')" and h1: "healthy db1"
    and used: "\<And>t' i k. ledger_used (b_ledger db1) t' i k = ledger_used (b_ledger db) t' i k
       + (if t' = t then total_delta (map fst ?bk) i k else 0)"
    and level: "\<And>t' i k. ledger_level (b_ledger db1) t' i k = ledger_level (b_ledger db) t' i k"
    by (rule Reconcile_split [OF assms(1,2) c(1,2), of "bc_actual c"]) (use assms(8) in simp)
  have keys: "\<forall>tc \<in> set (map snd ?bk). bg_ID (tc_budget tc) = bg_ID b \<longrightarrow> tc_windowKey tc = k"
    using touched_budget(2) [OF assms(1,4,5)] assms(7) by blast
  have sub: "set (pcts (bg_ID b) ws) \<subseteq> {80, 95, 100}"
    and srt: "sorted_wrt (<) (crossing db t b k # pcts (bg_ID b) ws)"
    and lst: "ledger_level (b_ledger db') t (bg_ID b) k = last (crossing db t b k # pcts (bg_ID b) ws)"
    using warn_loop_levels [OF w keys] by (auto simp: level assms(6))
  have books: "same_books db1 db'" using warn_loop_books [OF w healthyD(1) [OF h1]] by simp
  have cr: "\<forall>p \<in> set (pcts (bg_ID b) ws). p = crossing db1 t b k"
  proof
    fix p assume "p \<in> set (pcts (bg_ID b) ws)"
    moreover have "\<forall>p \<in> set (pcts (bg_ID b) ws). \<exists>tc \<in> set (map snd ?bk). bg_ID (tc_budget tc) = bg_ID b \<and>
        p = crossing db1 t (tc_budget tc) (tc_windowKey tc)"
      using warn_loop_pcts [OF w healthyD(1) [OF h1], of "bg_ID b"] by (simp del: set_map)
    ultimately obtain tc where tc: "tc \<in> set (map snd ?bk)"
      "bg_ID (tc_budget tc) = bg_ID b" "p = crossing db1 t (tc_budget tc) (tc_windowKey tc)" by blast
    with touched_budget [OF assms(1,4,5) tc(1,2)] assms(7) show "p = crossing db1 t b k" by simp
  qed
  have "booked (bc_scopes c) (bc_now c) (bc_actual c) b k \<ge> 0" by (simp add: booked_def)
  then have "crossing db t b k \<le> crossing db1 t b k"
    using used [of t "bg_ID b" k] total_delta_booked [OF assms(1,4,5) c(3), of "bc_now c" "bc_actual c" k]
    by (intro crossing_mono) simp
  moreover have "crossing db1 t b k \<le> ledger_level (b_ledger db') t (bg_ID b) k"
    if "booked (bc_scopes c) (bc_now c) (bc_actual c) b k \<noteq> 0"
  proof -
    from that have sc: "applies t (scope_of b) b" "scope_of b \<in> set (bc_scopes c)" "0 < metric (bc_actual c) (bg_Metric b)"
      using assms(5) by (auto simp: booked_def applies_def scope_of_def split: if_splits)
    then have "snd (booking (bc_now c) (bc_actual c) (scope_of b) b) \<in> set (map snd ?bk)"
      using assms(4) by (force simp: bookings_def consumed_def)
    from warn_loop_reaches [OF w healthyD(1) [OF h1] this] show ?thesis
      using level assms(6,7) crossing_nonneg by (simp add: booking_def)
  qed
  moreover have "crossing db1 t b k = crossing db t b k" if "booked (bc_scopes c) (bc_now c) (bc_actual c) b k = 0"
    using used [of t "bg_ID b" k] total_delta_booked [OF assms(1,4,5) c(3), of "bc_now c" "bc_actual c" k] that
    by (simp add: crossing_def)
  moreover have "last (crossing db t b k # pcts (bg_ID b) ws) \<in> {crossing db t b k, crossing db1 t b k}"
    using cr by (cases "pcts (bg_ID b) ws" rule: rev_cases) auto
  ultimately have "last (crossing db t b k # pcts (bg_ID b) ws) = crossing db1 t b k"
    using lst by (cases "booked (bc_scopes c) (bc_now c) (bc_actual c) b k = 0") auto
  with sub srt lst crossing_books [OF books] show "set (pcts (bg_ID b) ws) \<subseteq> {80, 95, 100}"
    "sorted_wrt (<) (crossing db t b k # pcts (bg_ID b) ws)"
    "last (crossing db t b k # pcts (bg_ID b) ws) = crossing db' t b k"
    "ledger_level (b_ledger db') t (bg_ID b) k = crossing db' t b k" by simp_all
qed

fun reconcile_all :: "string \<Rightarrow> budget_call list \<Rightarrow> budget_db \<Rightarrow> Warning list \<times> budget_db" where
  "reconcile_all t [] db = ([], db)"
| "reconcile_all t (c # cs) db =
    (let (ws, e, db1) = Reconcile t (bc_scopes c) (bc_now c) (bc_actual c) db;
         (ws', db') = reconcile_all t cs db1 in (ws @ ws', db'))"

lemma sorted_last_append:
  "\<lbrakk> sorted_wrt (<) (a # xs); sorted_wrt (<) (last (a # xs) # ys) \<rbrakk> \<Longrightarrow> sorted_wrt (<) (a # xs @ (ys :: int list))"
proof (induction xs arbitrary: a)
  case (Cons x xs)
  have "sorted_wrt (<) (x # xs @ ys)"
    by (rule Cons.IH) (use Cons.prems in simp_all)
  moreover have "a < x" using Cons.prems(1) by simp
  ultimately show ?case by (metis append_Cons sorted_wrt2 transp_on_less)
qed simp

lemma last_last_append: "last (a # xs @ ys) = last (last (a # xs) # ys)"
  by (cases ys) simp_all

text \<open>Over any history of reconciliations in one window of a budget, the warnings for it are strictly
  increasing thresholds out of 80, 95 and 100 per cent, so that none is given twice, and the last of them is the
  highest threshold the ledger has reached, so that none is missed.\<close>

theorem budget_warnings_once:
  assumes "healthy db" and "t \<noteq> ''''" and "b \<in> set (b_rows db)" and "bg_TenantID b = t"
    and "list_all (\<lambda>c. call_ok c \<and> window_key (bc_now c) b = k) cs"
    and "ledger_level (b_ledger db) t (bg_ID b) k = crossing db t b k"
    and "reconcile_all t cs db = (ws, db')"
  shows "set (pcts (bg_ID b) ws) \<subseteq> {80, 95, 100} \<and> sorted_wrt (<) (crossing db t b k # pcts (bg_ID b) ws) \<and>
    last (crossing db t b k # pcts (bg_ID b) ws) = crossing db' t b k"
  using assms
proof (induction cs arbitrary: db ws)
  case Nil
  then show ?case by (simp add: pcts_def)
next
  case (Cons c cs)
  from Cons.prems(5) have c: "call_ok c" "window_key (bc_now c) b = k" and cs: "list_all (\<lambda>c. call_ok c \<and> window_key (bc_now c) b = k) cs"
    by simp_all
  obtain ws1 e db1 where R: "Reconcile t (bc_scopes c) (bc_now c) (bc_actual c) db = (ws1, e, db1)"
    by (cases "Reconcile t (bc_scopes c) (bc_now c) (bc_actual c) db") auto
  obtain ws2 where rest: "reconcile_all t cs db1 = (ws2, db')" and ws: "ws = ws1 @ ws2"
    using Cons.prems(7) R by (auto split: prod.splits)
  note W = Reconcile_warns [OF Cons.prems(1,2) c(1) Cons.prems(3,4,6) c(2) R]
  have "0 \<le> bc_now c" "scopes_ok (bc_scopes c)" "distinct (bc_scopes c)" using c(1) by (simp_all add: call_ok_def)
  from Reconcile_books [OF Cons.prems(1,2) this, of "bc_actual c"] R
  have h: "healthy db1" "b_rows db1 = b_rows db" by simp_all
  have "b \<in> set (b_rows db1)" using h(2) Cons.prems(3) by simp
  from Cons.IH [OF h(1) Cons.prems(2) this Cons.prems(4) cs W(4) rest]
  have I: "set (pcts (bg_ID b) ws2) \<subseteq> {80, 95, 100}" "sorted_wrt (<) (crossing db1 t b k # pcts (bg_ID b) ws2)"
    "last (crossing db1 t b k # pcts (bg_ID b) ws2) = crossing db' t b k" by simp_all
  have "sorted_wrt (<) (crossing db t b k # pcts (bg_ID b) ws1 @ pcts (bg_ID b) ws2)"
    by (rule sorted_last_append [OF W(2)]) (use I(2) W(3) in simp)
  moreover have "last (crossing db t b k # pcts (bg_ID b) ws1 @ pcts (bg_ID b) ws2) = crossing db' t b k"
    by (simp only: last_last_append W(3) I(3))
  ultimately show ?case using W(1) I(1) by (simp add: ws)
qed

theorem budget_warnings_once_witness:
  "\<exists>ws db'. reconcile_all ''acme'' [sample_call] (sample_books 1) = (ws, db') \<and>
     set (pcts ''b1'' ws) \<subseteq> {80, 95, 100} \<and> sorted_wrt (<) (0 # pcts ''b1'' ws) \<and>
     last (0 # pcts ''b1'' ws) = crossing db' ''acme'' (sample_budget 1) ''roll:1h:0''"
proof -
  obtain ws db' where run: "reconcile_all ''acme'' [sample_call] (sample_books 1) = (ws, db')"
    by (cases "reconcile_all ''acme'' [sample_call] (sample_books 1)") auto
  have b: "sample_budget 1 \<in> set (b_rows (sample_books 1))" "bg_TenantID (sample_budget 1) = ''acme''"
    "bg_ID (sample_budget 1) = ''b1''"
    by (simp_all add: sample_books_def sample_budget_def)
  have c: "crossing (sample_books 1) ''acme'' (sample_budget 1) ''roll:1h:0'' = 0"
    by (simp add: crossing_def sample_books_def ledger_used_def go_trunc_def highestCrossed_cases)
  have l: "ledger_level (b_ledger (sample_books 1)) ''acme'' (bg_ID (sample_budget 1)) ''roll:1h:0''
      = crossing (sample_books 1) ''acme'' (sample_budget 1) ''roll:1h:0''"
    unfolding c by (simp add: sample_books_def ledger_level_def)
  have k: "list_all (\<lambda>c. call_ok c \<and> window_key (bc_now c) (sample_budget 1) = ''roll:1h:0'') [sample_call]"
    using sample_call_ok(1) sample_window by (simp add: sample_call_def)
  from budget_warnings_once [OF sample_healthy _ b(1,2) k l run] run show ?thesis unfolding b(3) c by auto
qed

subsection \<open>Headroom\<close>

lemma headroomPct_range: "0 \<le> headroomPct used limit \<and> headroomPct used limit \<le> 100"
  by (simp add: headroomPct_def Let_def)

lemma headroomPct_zero: "0 < limit \<Longrightarrow> headroomPct used limit = 0 \<longleftrightarrow> limit \<le> used"
  by (auto simp: headroomPct_def Let_def field_simps)

lemma headroomPct_antimono: "u \<le> v \<Longrightarrow> headroomPct v limit \<le> headroomPct u limit"
  by (auto simp: headroomPct_def Let_def field_simps split: if_splits)

end
