(* ===== verification/LLM_Gateway.thy ===== *)
theory LLM_Gateway
  imports LLM_Wire LLM_Cache LLM_Store LLM_Quota Budgets Redactor Tenant_Auth Profiles Audit_Events
begin

text \<open>
  The data plane of the LLM gateway in \<open>internal/server/api\<close>: chat completions,
  streaming and embeddings, with the gates in front of the engine (scope, agent
  profile, model alias, virtual key, cache, quota, budgets) and the bookkeeping
  behind it (quota tokens, daily cost, budget ledgers, recorded sessions, cache).
  The engine is a set of functions in the environment of a request, together
  with the clock, the fresh chat id and SHA-256; a request reads the clock once.
  The state keeps every request handed to the engine in \<open>gw_sent\<close>.
\<close>

subsection \<open>The engine seam\<close>

record ChatRequest =
  xr_TenantID :: string
  xr_Provider :: string
  xr_ProviderModel :: string
  xr_Messages :: "openAIMessage list"
  xr_Temperature :: "string option"
  xr_MaxTokens :: "int option"
  xr_Stream :: bool

record ChatResponse =
  xp_ID :: string
  xp_Message :: openAIMessage
  xp_Usage :: openAIUsage

record ChatChunk =
  xk_Delta :: string
  xk_Done :: bool
  xk_Err :: "string option"

record EmbeddingRequest =
  xe_TenantID :: string
  xe_Provider :: string
  xe_ProviderModel :: string
  xe_Input :: "string list"

record EmbeddingResponse =
  xb_Embeddings :: "rat list list"
  xb_Usage :: openAIUsage

record llm_env =
  lv_now :: time
  lv_ulid :: string
  lv_sha :: "string \<Rightarrow> nat list"
  lv_float :: "rat \<Rightarrow> string"
  lv_flusher :: bool
  lv_chat :: "ChatRequest \<Rightarrow> (string, ChatResponse) result"
  lv_stream :: "ChatRequest \<Rightarrow> (string, ChatChunk list) result"
  lv_embed :: "EmbeddingRequest \<Rightarrow> (string, EmbeddingResponse) result"

text \<open>Which of the optional dependencies are wired.\<close>

record llm_deps =
  lg_engine :: bool
  lg_models :: bool
  lg_providers :: bool
  lg_quotas :: bool
  lg_quota :: bool
  lg_costs :: bool
  lg_sessions :: bool
  lg_budgets :: bool
  lg_governance :: bool
  lg_cache :: bool
  lg_cacheScope :: string
  lg_cacheTTL :: duration
  lg_redactor :: "Redactor option"
  lg_audit :: bool

datatype upstream = ToChat string ChatRequest | ToStream string ChatRequest | ToEmbedding string EmbeddingRequest

record llm_gw =
  gw_db :: llm_db
  gw_gov :: gov_db
  gw_budgets :: budget_db
  gw_quota :: quota_enforcer
  gw_cache :: mem_cache
  gw_events :: "Event list"
  gw_sent :: "upstream list"

text \<open>What a handler reads of a request besides its body.\<close>

record http_ctx =
  hx_Identity :: Identity
  hx_Profile :: "Profile option"
  hx_VK :: "Resolved option"
  hx_CacheControl :: string
  hx_NoStore :: string
  hx_NoCache :: string

datatype sse = SseDelta string | SseFinal | SseDone | SseError string

record openAIEmbeddingResponse =
  oe_Data :: "(int \<times> rat list) list"
  oe_Model :: string
  oe_Usage :: openAIUsage

datatype llm_reply =
    HttpError nat string
  | ChatReply openAIChatResponse bool
  | StreamReply "sse list"
  | EmbeddingReply openAIEmbeddingResponse
  | ModelsReply "string list"

definition orDefault :: "string \<Rightarrow> string \<Rightarrow> string" where
  "orDefault s def = (if s = '''' then def else s)"

definition num_json :: "llm_env \<Rightarrow> rat \<Rightarrow> json" where
  "num_json env x = JNum (lv_float env x)"

text \<open>\<open>emitWithActor\<close> of \<open>audit_helpers.go\<close>.\<close>

definition emitWithActor ::
  "llm_deps \<Rightarrow> http_ctx \<Rightarrow> string \<Rightarrow> string \<Rightarrow> (string, json) amap \<Rightarrow> llm_gw \<Rightarrow> llm_gw" where
  "emitWithActor d r eventType target payload st =
    (if \<not> lg_audit d then st
     else
       let own = id_TenantID (hx_Identity r);
           tenantID = (if target \<noteq> '''' then target else own);
           payload' = (if own \<noteq> '''' \<and> own \<noteq> tenantID
             then aput ''target_tenant_id'' (JStr tenantID) (aput ''acting_tenant_id'' (JStr own) payload) else payload) in
       st \<lparr> gw_events := gw_events st @ [\<lparr> ev_Type = eventType, ev_TenantID = tenantID, ev_SessionID = '''',
              ev_UserID = id_UserID (hx_Identity r), ev_Payload = payload' \<rparr>] \<rparr>)"

subsection \<open>Gates\<close>

definition ScopeLLMInvoke :: string where "ScopeLLMInvoke = ''llm:invoke''"

definition may_invoke :: "Identity \<Rightarrow> bool" where
  "may_invoke i \<longleftrightarrow> HasScope i ScopeLLMInvoke \<or> HasScope i ''admin''"

definition aliasAllowedByProfile :: "http_ctx \<Rightarrow> string \<Rightarrow> bool" where
  "aliasAllowedByProfile r alias =
    (case hx_Profile r of None \<Rightarrow> True | Some p \<Rightarrow> p_IsDefault p \<or> AllowsAlias (Some p) alias)"

definition filterAliasesByProfile :: "http_ctx \<Rightarrow> ('a \<Rightarrow> string) \<Rightarrow> 'a list \<Rightarrow> 'a list" where
  "filterAliasesByProfile r aliasOf items =
    (case hx_Profile r of
       None \<Rightarrow> items
     | Some p \<Rightarrow> if p_IsDefault p then items else filter (\<lambda>it. AllowsAlias (Some p) (aliasOf it)) items)"

definition vkAllowsLLM :: "http_ctx \<Rightarrow> string \<Rightarrow> string \<Rightarrow> bool" where
  "vkAllowsLLM r alias providerDriver =
    (case hx_VK r of
       None \<Rightarrow> True
     | Some res \<Rightarrow> if \<not> vk_AllowsModel res alias then False
                  else if \<not> vk_AllowsProvider res providerDriver then False else True)"

definition resolveLLMTarget ::
  "llm_db \<Rightarrow> http_ctx \<Rightarrow> string \<Rightarrow> string \<Rightarrow> (llm_reply, LLMProvider \<times> LLMModel) result" where
  "resolveLLMTarget db r tenantID alias =
    (case GetModel db tenantID alias of
       Inl ErrNotFound \<Rightarrow> Inl (HttpError 404 ''model_not_found'')
     | Inl e \<Rightarrow> Inl (HttpError 500 ''resolve_failed'')
     | Inr model \<Rightarrow>
         if \<not> lm_Enabled model then Inl (HttpError 403 ''model_disabled'')
         else case GetProvider db tenantID (lm_ProviderName model) of
             Inl e \<Rightarrow> Inl (HttpError 500 ''provider_missing'')
           | Inr prov \<Rightarrow>
               if \<not> vkAllowsLLM r alias (lp_Driver prov) then Inl (HttpError 403 ''vk_scope_violation'')
               else Inr (prov, model))"

definition checkQuota ::
  "llm_env \<Rightarrow> llm_deps \<Rightarrow> http_ctx \<Rightarrow> string \<Rightarrow> string \<Rightarrow> llm_gw \<Rightarrow> llm_reply option \<times> llm_gw" where
  "checkQuota env d r tenantID model st =
    (if \<not> lg_quota d \<or> \<not> lg_quotas d then (None, st)
     else case GetOrDefault (gw_db st) tenantID of
         Inl e \<Rightarrow> (None, st)
       | Inr q \<Rightarrow>
           let lim = \<lparr> lim_RequestsPerMinute = lq_RequestsPerMinute q, lim_TokensPerMinute = lq_TokensPerMinute q,
                       lim_TokensPerDay = lq_TokensPerDay q \<rparr>;
               (breach, e) = quota_Check (lv_now env) tenantID lim (gw_quota st);
               st' = st \<lparr> gw_quota := e \<rparr> in
           (case breach of
              None \<Rightarrow> (None, st')
            | Some limit \<Rightarrow>
                (Some (HttpError 429 ''quota_exceeded''),
                 emitWithActor d r ''llm.quota_exceeded'' tenantID [(''limit'', JStr limit), (''model'', JStr model)] st')))"

definition maxTokensOrZero :: "int option \<Rightarrow> int" where
  "maxTokensOrZero p = (case p of None \<Rightarrow> 0 | Some n \<Rightarrow> n)"

definition unitCostUSD :: "llm_deps \<Rightarrow> llm_db \<Rightarrow> string \<Rightarrow> string \<Rightarrow> int \<Rightarrow> int \<Rightarrow> rat" where
  "unitCostUSD d db driver providerModel inputTok outputTok =
    (if \<not> lg_costs d then 0
     else case GetUnitCost db driver providerModel of
         Inl e \<Rightarrow> 0
       | Inr uc \<Rightarrow> of_int inputTok / 1000 * uc_InputPer1K uc + of_int outputTok / 1000 * uc_OutputPer1K uc)"

definition budgetScopeChain :: "llm_deps \<Rightarrow> gov_db \<Rightarrow> string \<Rightarrow> Resolved option \<Rightarrow> Scope list" where
  "budgetScopeChain d gov tenantID vk =
    (case vk of
       None \<Rightarrow> []
     | Some res \<Rightarrow>
         [\<lparr> bsc_Kind = ''vk'', bsc_ID = rv_VKID res \<rparr>] @
         (if rv_ParentKind res = ''team'' then
            [\<lparr> bsc_Kind = ''team'', bsc_ID = rv_ParentID res \<rparr>] @
            (if \<not> lg_governance d then []
             else case GetTeam gov tenantID (rv_ParentID res) of
                 Inl e \<Rightarrow> []
               | Inr tm \<Rightarrow> if tm_CustomerID tm = '''' then []
                           else [\<lparr> bsc_Kind = ''customer'', bsc_ID = tm_CustomerID tm \<rparr>])
          else if rv_ParentKind res = ''customer'' then [\<lparr> bsc_Kind = ''customer'', bsc_ID = rv_ParentID res \<rparr>]
          else []))
     @ [\<lparr> bsc_Kind = ''tenant'', bsc_ID = tenantID \<rparr>]"

definition checkBudget ::
  "llm_env \<Rightarrow> llm_deps \<Rightarrow> http_ctx \<Rightarrow> string \<Rightarrow> string \<Rightarrow> string \<Rightarrow> int \<Rightarrow> llm_gw \<Rightarrow> llm_reply option" where
  "checkBudget env d r tenantID driver providerModel maxTokens st =
    (if \<not> lg_budgets d then None
     else
       let chain = budgetScopeChain d (gw_gov st) tenantID (hx_VK r);
           est = \<lparr> us_Requests = 1, us_Tokens = of_int maxTokens,
                   us_CostUSD = unitCostUSD d (gw_db st) driver providerModel 0 maxTokens \<rparr> in
       case PreCheck (gw_budgets st) tenantID chain (lv_now env) est of
         Inl e \<Rightarrow> None
       | Inr None \<Rightarrow> None
       | Inr (Some v) \<Rightarrow> Some (HttpError 429 ''budget_exceeded''))"

subsection \<open>Cache\<close>

record cacheBypass =
  by_noStore :: bool
  by_noRead :: bool

definition substr :: "string \<Rightarrow> string \<Rightarrow> bool" where
  "substr w s \<longleftrightarrow> list_ex (\<lambda>i. take (length w) (drop i s) = w) [0..<Suc (length s)]"

text \<open>No rune beyond ASCII lowers to a letter of the words compared here.\<close>

definition parseCacheBypass :: "http_ctx \<Rightarrow> cacheBypass" where
  "parseCacheBypass r =
    (let cc = map to_lower_byte (hx_CacheControl r);
         ns = map to_lower_byte (hx_NoStore r);
         nc = map to_lower_byte (hx_NoCache r);
         noStore = (substr ''no-store'' cc \<or> ns = ''true'' \<or> ns = ''1'') in
     \<lparr> by_noStore = noStore,
       by_noRead = (noStore \<or> substr ''no-cache'' cc \<or> nc = ''true'' \<or> nc = ''1'') \<rparr>)"

definition norm_messages :: "openAIMessage list \<Rightarrow> NormMessage list" where
  "norm_messages msgs = map (\<lambda>m. \<lparr> nm_Role = om_Role m, nm_Content = om_Content m \<rparr>) msgs"

definition cacheKeyFor :: "llm_deps \<Rightarrow> http_ctx \<Rightarrow> string \<Rightarrow> openAIChatRequest \<Rightarrow> cache_key" where
  "cacheKeyFor d r tenantID req =
    (let scope0 = (if lg_cacheScope d = '''' then ''tenant'' else lg_cacheScope d);
         (scope, scopeID) = (if scope0 = ''vk''
           then (case hx_VK r of Some vk \<Rightarrow> (scope0, rv_VKID vk) | None \<Rightarrow> (''tenant'', ''''))
           else (scope0, '''')) in
     \<lparr> ck_TenantID = tenantID, ck_Scope = scope, ck_ScopeID = scopeID, ck_Alias = cq_Model req,
       ck_NormalizedInput = NormalizeChatInput (cq_Model req) (norm_messages (cq_Messages req))
         (cq_Temperature req) (cq_MaxTokens req),
       ck_Mode = ''exact'', ck_ExtraSalt = '''' \<rparr>)"

definition age_seconds :: "time \<Rightarrow> time option \<Rightarrow> int" where
  "age_seconds now created = (case created of None \<Rightarrow> 0 | Some t \<Rightarrow> go_div (now - t) second)"

definition serveChatFromCache ::
  "llm_env \<Rightarrow> llm_deps \<Rightarrow> http_ctx \<Rightarrow> string \<Rightarrow> openAIChatRequest \<Rightarrow> llm_gw \<Rightarrow> llm_reply option \<times> llm_gw" where
  "serveChatFromCache env d r tenantID req st =
    (if \<not> lg_cache d \<or> cq_Stream req then (None, st)
     else if by_noRead (parseCacheBypass r) then (None, st)
     else
       let (hit, c) = mem_Lookup (lv_sha env) (lv_now env) (cacheKeyFor d r tenantID req) (gw_cache st);
           st' = st \<lparr> gw_cache := c \<rparr> in
       case hit of
         None \<Rightarrow> (None, st')
       | Some entry \<Rightarrow>
           (case decodeChatResponse (cen_Payload entry) of
              None \<Rightarrow> (None, st')
            | Some resp \<Rightarrow>
                (Some (ChatReply (resp \<lparr> or_Model := cq_Model req \<rparr>) True),
                 emitWithActor d r ''llm.cache_hit'' tenantID
                   [(''alias'', JStr (cq_Model req)), (''mode'', JStr (cen_Mode entry)),
                    (''age_s'', JNum (dec_int (age_seconds (lv_now env) (cen_CreatedAt entry))))] st')))"

definition responseHasToolCalls :: "openAIChatResponse \<Rightarrow> bool" where
  "responseHasToolCalls resp = False"

definition cached_entry :: "llm_env \<Rightarrow> llm_deps \<Rightarrow> openAIChatResponse \<Rightarrow> rat \<Rightarrow> cache_entry" where
  "cached_entry env d resp costUSD =
    (let ttl = (if lg_cacheTTL d \<le> 0 then 5 * minute else lg_cacheTTL d) in
     \<lparr> cen_Payload = encodeChatResponse resp, cen_Mode = ''exact'', cen_CreatedAt = Some (lv_now env),
       cen_ExpiresAt = Some (lv_now env + ttl), cen_Tokens = ou_TotalTokens (or_Usage resp), cen_CostUSD = costUSD \<rparr>)"

text \<open>The eviction behind a store always ends (\<open>eviction_terminates\<close>), so the \<open>None\<close> of the loop does not arise.\<close>

definition storeChatInCache ::
  "llm_env \<Rightarrow> llm_deps \<Rightarrow> http_ctx \<Rightarrow> string \<Rightarrow> openAIChatRequest \<Rightarrow> openAIChatResponse \<Rightarrow> rat \<Rightarrow> llm_gw \<Rightarrow> llm_gw" where
  "storeChatInCache env d r tenantID req resp costUSD st =
    (if \<not> lg_cache d \<or> cq_Stream req then st
     else if by_noStore (parseCacheBypass r) then st
     else if responseHasToolCalls resp then st
     else case mem_Store (lv_sha env) (lv_now env) (cacheKeyFor d r tenantID req) (cached_entry env d resp costUSD)
            (gw_cache st) of
         None \<Rightarrow> st
       | Some c \<Rightarrow> st \<lparr> gw_cache := c \<rparr>)"

subsection \<open>Bookkeeping\<close>

definition recordQuotaUsage :: "llm_env \<Rightarrow> llm_deps \<Rightarrow> string \<Rightarrow> int \<Rightarrow> llm_gw \<Rightarrow> llm_gw" where
  "recordQuotaUsage env d tenantID tokens st =
    (if \<not> lg_quota d then st else st \<lparr> gw_quota := RecordUsage (lv_now env) tenantID tokens (gw_quota st) \<rparr>)"

definition recordCost ::
  "llm_env \<Rightarrow> llm_deps \<Rightarrow> string \<Rightarrow> string \<Rightarrow> string \<Rightarrow> string \<Rightarrow> int \<Rightarrow> int \<Rightarrow> llm_gw \<Rightarrow> llm_gw" where
  "recordCost env d tenantID alias driver providerModel inputTok outputTok st =
    (if \<not> lg_costs d then st
     else
       let costUSD = (case GetUnitCost (gw_db st) driver providerModel of
             Inl e \<Rightarrow> 0
           | Inr uc \<Rightarrow> of_int inputTok / 1000 * uc_InputPer1K uc + of_int outputTok / 1000 * uc_OutputPer1K uc) in
       case AddUsage tenantID (fmt_day (lv_now env)) alias 1 inputTok outputTok costUSD (gw_db st) of
         Inl e \<Rightarrow> st
       | Inr db \<Rightarrow> st \<lparr> gw_db := db \<rparr>)"

definition emitBudgetWarning :: "llm_env \<Rightarrow> llm_deps \<Rightarrow> http_ctx \<Rightarrow> string \<Rightarrow> Warning \<Rightarrow> llm_gw \<Rightarrow> llm_gw" where
  "emitBudgetWarning env d r tenantID wn st =
    emitWithActor d r (if 95 \<le> wn_Pct wn then ''llm.budget_critical'' else ''llm.budget_warning'') tenantID
      [(''level'', JStr (wn_Level wn)), (''metric'', JStr (wn_Metric wn)), (''budget_id'', JStr (wn_BudgetID wn)),
       (''pct'', JNum (dec_int (wn_Pct wn))), (''used'', num_json env (wn_Used wn)),
       (''limit'', num_json env (wn_Limit wn))] st"

definition recordBudgetUsage ::
  "llm_env \<Rightarrow> llm_deps \<Rightarrow> http_ctx \<Rightarrow> string \<Rightarrow> string \<Rightarrow> string \<Rightarrow> int \<Rightarrow> int \<Rightarrow> llm_gw \<Rightarrow> llm_gw" where
  "recordBudgetUsage env d r tenantID driver providerModel inputTok outputTok st =
    (if \<not> lg_budgets d then st
     else
       let chain = budgetScopeChain d (gw_gov st) tenantID (hx_VK r);
           actual = \<lparr> us_Requests = 1, us_Tokens = of_int (inputTok + outputTok),
                      us_CostUSD = unitCostUSD d (gw_db st) driver providerModel inputTok outputTok \<rparr>;
           (warnings, err, db) = Reconcile tenantID chain (lv_now env) actual (gw_budgets st);
           st' = st \<lparr> gw_budgets := db \<rparr> in
       if err \<noteq> None then st' else fold (emitBudgetWarning env d r tenantID) warnings st')"

text \<open>\<open>sessionSummaryMaxRunes\<close>, and the runes of a truncated text: a byte that is no UTF-8 becomes U+FFFD.\<close>

definition sessionSummaryMaxRunes :: nat where "sessionSummaryMaxRunes = 120"

definition truncateRunes :: "string \<Rightarrow> nat \<Rightarrow> string" where
  "truncateRunes s n =
    (let rs = utf8_runes s in
     if length rs \<le> n then s
     else concat (map (\<lambda>r. if utf8_len r = 0 then [CHR 0xEF, CHR 0xBF, CHR 0xBD] else r) (take n rs)))"

definition redactContent :: "Redactor \<Rightarrow> string \<Rightarrow> string" where
  "redactContent red s =
    (if s = '''' then s
     else case aget (Redact (Some red) [(''v'', AnyStr s)]) ''v'' of Some (AnyStr rv) \<Rightarrow> rv | _ \<Rightarrow> s)"

definition appendMsg :: "llm_env \<Rightarrow> Redactor \<Rightarrow> string \<Rightarrow> openAIMessage \<Rightarrow> llm_db \<Rightarrow> llm_db" where
  "appendMsg env red tenantID m db =
    (case AppendMessage (rfc3339 (lv_now env)) \<lparr> chm_TenantID = tenantID, chm_ChatID = lv_ulid env, chm_Seq = 0,
            chm_Role = om_Role m, chm_ContentJSON = redactContent red (om_Content m), chm_ToolCallID = '''',
            chm_SpanID = '''', chm_CreatedAt = '''' \<rparr> db of
       Inl e \<Rightarrow> db
     | Inr (m', db') \<Rightarrow> db')"

definition first_user :: "openAIMessage list \<Rightarrow> string" where
  "first_user msgs =
    (case List.find (\<lambda>m. om_Role m = ''user'' \<and> om_Content m \<noteq> '''') msgs of None \<Rightarrow> '''' | Some m \<Rightarrow> om_Content m)"

definition recordChatSession ::
  "llm_env \<Rightarrow> llm_deps \<Rightarrow> http_ctx \<Rightarrow> string \<Rightarrow> openAIMessage list \<Rightarrow> openAIMessage \<Rightarrow> llm_gw \<Rightarrow> llm_gw" where
  "recordChatSession env d r alias reqMsgs respMsg st =
    (if \<not> lg_sessions d then st
     else
       let tenantID = id_TenantID (hx_Identity r); now = rfc3339 (lv_now env);
           red = (case lg_redactor d of None \<Rightarrow> NewDefaultRedactor | Some rd \<Rightarrow> rd) in
       case CreateSession now \<lparr> chs_TenantID = tenantID, chs_ChatID = lv_ulid env,
              chs_UserID = id_UserID (hx_Identity r), chs_Alias = alias, chs_StartedAt = '''', chs_EndedAt = '''',
              chs_Summary = '''' \<rparr> (gw_db st) of
         Inl e \<Rightarrow> st
       | Inr db \<Rightarrow>
           let db1 = fold (appendMsg env red tenantID) (reqMsgs @ [respMsg]) db;
               summary = redactContent red (truncateRunes (first_user reqMsgs) sessionSummaryMaxRunes);
               db2 = (case EndSession now tenantID (lv_ulid env) summary db1 of Inl e \<Rightarrow> db1 | Inr db' \<Rightarrow> db') in
           st \<lparr> gw_db := db2 \<rparr>)"

subsection \<open>Streaming\<close>

fun stream_loop :: "ChatChunk list \<Rightarrow> sse list" where
  "stream_loop [] = [SseFinal, SseDone]"
| "stream_loop (c # cs) =
    (case xk_Err c of
       Some e \<Rightarrow> [SseError ''stream_error'']
     | None \<Rightarrow> (if xk_Delta c \<noteq> '''' then [SseDelta (xk_Delta c)] else []) @
               (if xk_Done c then [SseFinal, SseDone] else stream_loop cs))"

definition engine_request :: "string \<Rightarrow> LLMProvider \<Rightarrow> LLMModel \<Rightarrow> openAIChatRequest \<Rightarrow> bool \<Rightarrow> ChatRequest" where
  "engine_request tenantID prov model req stream = \<lparr> xr_TenantID = tenantID, xr_Provider = lp_Driver prov,
     xr_ProviderModel = lm_ProviderModel model, xr_Messages = cq_Messages req, xr_Temperature = cq_Temperature req,
     xr_MaxTokens = cq_MaxTokens req, xr_Stream = stream \<rparr>"

definition send_up :: "upstream \<Rightarrow> llm_gw \<Rightarrow> llm_gw" where
  "send_up u st = st \<lparr> gw_sent := gw_sent st @ [u] \<rparr>"

definition streamChatCompletion ::
  "llm_env \<Rightarrow> string \<Rightarrow> LLMProvider \<Rightarrow> LLMModel \<Rightarrow> openAIChatRequest \<Rightarrow> llm_gw \<Rightarrow> llm_reply \<times> llm_gw" where
  "streamChatCompletion env tenantID prov model req st =
    (if \<not> lv_flusher env then (HttpError 500 ''streaming_unsupported'', st)
     else
       let up = engine_request tenantID prov model req True;
           st' = send_up (ToStream (cq_Model req) up) st in
       case lv_stream env up of
         Inl e \<Rightarrow> (StreamReply [SseError ''upstream_error''], st')
       | Inr chunks \<Rightarrow> (StreamReply (stream_loop chunks), st'))"

subsection \<open>Handlers\<close>

definition chat_reply :: "llm_env \<Rightarrow> openAIChatRequest \<Rightarrow> ChatResponse \<Rightarrow> openAIChatResponse" where
  "chat_reply env req resp = \<lparr> or_ID = orDefault (xp_ID resp) ''chatcmpl-portico'', or_Object = ''chat.completion'',
     or_Created = lv_now env div second, or_Model = cq_Model req,
     or_Choices = [\<lparr> och_Index = 0,
       och_Message = \<lparr> om_Role = orDefault (om_Role (xp_Message resp)) ''assistant'', om_Content = om_Content (xp_Message resp) \<rparr>,
       och_FinishReason = ''stop'' \<rparr>],
     or_Usage = xp_Usage resp \<rparr>"

text \<open>What follows a successful dispatch.\<close>

definition chat_bookkeeping ::
  "llm_env \<Rightarrow> llm_deps \<Rightarrow> http_ctx \<Rightarrow> string \<Rightarrow> LLMProvider \<Rightarrow> LLMModel \<Rightarrow> openAIChatRequest \<Rightarrow> ChatResponse \<Rightarrow> llm_gw \<Rightarrow> llm_gw" where
  "chat_bookkeeping env d r tenantID prov model req resp st =
    (let u = xp_Usage resp; driver = lp_Driver prov; pm = lm_ProviderModel model;
         st1 = recordQuotaUsage env d tenantID (ou_TotalTokens u) st;
         st2 = recordCost env d tenantID (cq_Model req) driver pm (ou_PromptTokens u) (ou_CompletionTokens u) st1;
         st3 = recordBudgetUsage env d r tenantID driver pm (ou_PromptTokens u) (ou_CompletionTokens u) st2;
         st4 = recordChatSession env d r (cq_Model req) (cq_Messages req)
           \<lparr> om_Role = orDefault (om_Role (xp_Message resp)) ''assistant'', om_Content = om_Content (xp_Message resp) \<rparr> st3 in
     storeChatInCache env d r tenantID req (chat_reply env req resp)
       (unitCostUSD d (gw_db st4) driver pm (ou_PromptTokens u) (ou_CompletionTokens u)) st4)"

definition chat_dispatch ::
  "llm_env \<Rightarrow> llm_deps \<Rightarrow> http_ctx \<Rightarrow> string \<Rightarrow> LLMProvider \<Rightarrow> LLMModel \<Rightarrow> openAIChatRequest \<Rightarrow> llm_gw \<Rightarrow> llm_reply \<times> llm_gw" where
  "chat_dispatch env d r tenantID prov model req st =
    (if cq_Stream req then streamChatCompletion env tenantID prov model req st
     else
       let up = engine_request tenantID prov model req False;
           st' = send_up (ToChat (cq_Model req) up) st in
       case lv_chat env up of
         Inl e \<Rightarrow> (HttpError 502 ''upstream_error'', st')
       | Inr resp \<Rightarrow> (ChatReply (chat_reply env req resp) False, chat_bookkeeping env d r tenantID prov model req resp st'))"

definition chatCompletionsHandler ::
  "llm_env \<Rightarrow> llm_deps \<Rightarrow> http_ctx \<Rightarrow> openAIChatRequest option \<Rightarrow> llm_gw \<Rightarrow> llm_reply \<times> llm_gw" where
  "chatCompletionsHandler env d r body st =
    (if \<not> lg_engine d \<or> \<not> lg_models d \<or> \<not> lg_providers d then (HttpError 503 ''llm_not_configured'', st)
     else if \<not> may_invoke (hx_Identity r) then (HttpError 403 ''forbidden'', st)
     else case body of
         None \<Rightarrow> (HttpError 400 ''invalid_json'', st)
       | Some req \<Rightarrow>
           let tenantID = id_TenantID (hx_Identity r) in
           if cq_Model req = '''' \<or> cq_Messages req = [] then (HttpError 400 ''invalid_request'', st)
           else if \<not> aliasAllowedByProfile r (cq_Model req) then (HttpError 403 ''agent_profile_violation'', st)
           else case resolveLLMTarget (gw_db st) r tenantID (cq_Model req) of
               Inl e \<Rightarrow> (e, st)
             | Inr (prov, model) \<Rightarrow>
                 (case serveChatFromCache env d r tenantID req st of
                    (Some reply, st1) \<Rightarrow> (reply, st1)
                  | (None, st1) \<Rightarrow>
                      (case checkQuota env d r tenantID (cq_Model req) st1 of
                         (Some e, st2) \<Rightarrow> (e, st2)
                       | (None, st2) \<Rightarrow>
                           (case checkBudget env d r tenantID (lp_Driver prov) (lm_ProviderModel model)
                                   (maxTokensOrZero (cq_MaxTokens req)) st2 of
                              Some e \<Rightarrow> (e, st2)
                            | None \<Rightarrow> chat_dispatch env d r tenantID prov model req st2))))"

text \<open>\<open>parseEmbeddingInput\<close>: a string or an array of strings; \<open>null\<close> decodes into the empty string, an absent
  field is an error.\<close>

definition parseEmbeddingInput :: "json option \<Rightarrow> string list option" where
  "parseEmbeddingInput raw =
    (case raw of
       Some JNull \<Rightarrow> Some ['''']
     | Some (JStr s) \<Rightarrow> Some [s]
     | Some (JArr vs) \<Rightarrow>
         if list_all (\<lambda>v. case v of JNull \<Rightarrow> True | JStr s \<Rightarrow> True | _ \<Rightarrow> False) vs
         then Some (map (\<lambda>v. case v of JStr s \<Rightarrow> s | _ \<Rightarrow> '''') vs) else None
     | _ \<Rightarrow> None)"

record openAIEmbeddingRequest =
  eq_Model :: string
  eq_Input :: "json option"

definition embeddingsHandler ::
  "llm_env \<Rightarrow> llm_deps \<Rightarrow> http_ctx \<Rightarrow> openAIEmbeddingRequest option \<Rightarrow> llm_gw \<Rightarrow> llm_reply \<times> llm_gw" where
  "embeddingsHandler env d r body st =
    (if \<not> lg_engine d \<or> \<not> lg_models d \<or> \<not> lg_providers d then (HttpError 503 ''llm_not_configured'', st)
     else if \<not> may_invoke (hx_Identity r) then (HttpError 403 ''forbidden'', st)
     else case body of
         None \<Rightarrow> (HttpError 400 ''invalid_json'', st)
       | Some req \<Rightarrow>
           let tenantID = id_TenantID (hx_Identity r) in
           if eq_Model req = '''' then (HttpError 400 ''invalid_request'', st)
           else if \<not> aliasAllowedByProfile r (eq_Model req) then (HttpError 403 ''agent_profile_violation'', st)
           else case parseEmbeddingInput (eq_Input req) of
               None \<Rightarrow> (HttpError 400 ''invalid_request'', st)
             | Some [] \<Rightarrow> (HttpError 400 ''invalid_request'', st)
             | Some inputs \<Rightarrow>
                 (case resolveLLMTarget (gw_db st) r tenantID (eq_Model req) of
                    Inl e \<Rightarrow> (e, st)
                  | Inr (prov, model) \<Rightarrow>
                      (case checkQuota env d r tenantID (eq_Model req) st of
                         (Some e, st1) \<Rightarrow> (e, st1)
                       | (None, st1) \<Rightarrow>
                           let up = \<lparr> xe_TenantID = tenantID, xe_Provider = lp_Driver prov,
                                      xe_ProviderModel = lm_ProviderModel model, xe_Input = inputs \<rparr>;
                               st2 = send_up (ToEmbedding (eq_Model req) up) st1 in
                           case lv_embed env up of
                             Inl e \<Rightarrow> (HttpError 502 ''upstream_error'', st2)
                           | Inr resp \<Rightarrow>
                               (EmbeddingReply \<lparr> oe_Data = zip (map int [0..<length (xb_Embeddings resp)]) (xb_Embeddings resp),
                                  oe_Model = eq_Model req, oe_Usage = (xb_Usage resp) \<lparr> ou_CompletionTokens := 0 \<rparr> \<rparr>,
                                recordCost env d tenantID (eq_Model req) (lp_Driver prov) (lm_ProviderModel model)
                                  (ou_PromptTokens (xb_Usage resp)) 0
                                  (recordQuotaUsage env d tenantID (ou_TotalTokens (xb_Usage resp)) st2)))))"

definition listModelsHandler :: "llm_deps \<Rightarrow> http_ctx \<Rightarrow> llm_gw \<Rightarrow> llm_reply" where
  "listModelsHandler d r st =
    (if \<not> lg_models d then HttpError 503 ''llm_not_configured''
     else case ListModels (gw_db st) (id_TenantID (hx_Identity r)) of
         Inl e \<Rightarrow> HttpError 500 ''list_failed''
       | Inr models \<Rightarrow> ModelsReply (map lm_Alias (filter lm_Enabled (filterAliasesByProfile r lm_Alias models))))"

end
