(* ===== verification/Vault.thy ===== *)
theory Vault
  imports Go_Calendar "HOL-Library.Char_ord" "HOL-Library.List_Lexorder"
begin

text \<open>
  The credential vault of \<open>internal/secrets/stubvault.go\<close>: an encrypted file with a key per value.
  HKDF and AES-256-GCM are a record of functions; nonces, fresh random values in the code, are
  arguments; the vault file is what YAML decodes it to.
\<close>

subsection \<open>Package encoding/base64: StdEncoding and URLEncoding\<close>

definition std_char :: "char \<Rightarrow> char" where
  "std_char c = (if c = CHR ''-'' then CHR ''+'' else if c = CHR ''_'' then CHR ''/'' else c)"

definition url_char :: "char \<Rightarrow> char option" where
  "url_char c = (if c = CHR ''+'' then Some (CHR ''-'') else if c = CHR ''/'' then Some (CHR ''_'')
     else if c = CHR ''-'' \<or> c = CHR ''_'' then None else Some c)"

definition b64_padding :: "string \<Rightarrow> string" where
  "b64_padding s = replicate ((3 - length s mod 3) mod 3) (CHR ''='')"

definition std_encode :: "string \<Rightarrow> string" where
  "std_encode s = map std_char (raw_url_encode s) @ b64_padding s"

definition url_encode :: "string \<Rightarrow> string" where
  "url_encode s = raw_url_encode s @ b64_padding s"

definition b64_strip :: "string \<Rightarrow> string" where
  "b64_strip s = (case rev s of
     a # b # t \<Rightarrow> if a = CHR ''='' then (if b = CHR ''='' then rev t else rev (b # t)) else s
   | _ \<Rightarrow> s)"

definition std_decode :: "string \<Rightarrow> string option" where
  "std_decode s =
    (let cs = filter (\<lambda>c. c \<noteq> CHR 0x0A \<and> c \<noteq> CHR 0x0D) s in
     if length cs mod 4 \<noteq> 0 then None
     else let us = map url_char (b64_strip cs) in
       if list_all (\<lambda>u. u \<noteq> None) us then raw_url_decode (map the us) else None)"

lemma raw_length: "length (b64_encode_bytes bs) = (4 * length bs + 2) div 3"
  by (induction bs rule: b64_encode_bytes.induct) auto

lemma raw_chars: "c \<in> set (raw_url_encode s) \<Longrightarrow> c \<in> set b64_url_alphabet"
proof -
  assume "c \<in> set (raw_url_encode s)"
  moreover obtain vs where "b64_encode_bytes (map byte_of s) = map b64_char vs"
    using b64_encode_vals [of "map byte_of s"] by auto
  ultimately obtain v where "c = b64_char v" by (auto simp: raw_url_encode_def)
  moreover have "v mod 64 < length b64_url_alphabet" by (simp add: b64_url_alphabet_def)
  ultimately show ?thesis unfolding b64_char_def by (metis nth_mem)
qed

lemma std_chars:
  "list_all (\<lambda>c. std_char c \<noteq> CHR 0x0A \<and> std_char c \<noteq> CHR 0x0D \<and> std_char c \<noteq> CHR ''='' \<and> url_char (std_char c) = Some c) b64_url_alphabet"
  by code_simp

lemma raw_std:
  "c \<in> set (raw_url_encode s) \<Longrightarrow> std_char c \<noteq> CHR 0x0A \<and> std_char c \<noteq> CHR 0x0D \<and> std_char c \<noteq> CHR ''='' \<and>
     url_char (std_char c) = Some c"
  using raw_chars std_chars by (auto simp: list_all_iff)

lemma padded_length: "((4 * n + 2) div 3 + (3 - n mod 3) mod 3) mod 4 = (0::nat)"
proof -
  obtain q r where n: "n = r + 3 * q" "r < 3" by (metis mod_less_divisor mod_mult_div_eq zero_less_numeral)
  have "4 * n + 2 = (4 * r + 2) + (4 * q) * 3" using n(1) by simp
  then have "(4 * n + 2) div 3 = 4 * q + (4 * r + 2) div 3" by (simp only: div_mult_self3)
  moreover have "n mod 3 = r" using n by simp
  moreover have "r = 0 \<or> r = 1 \<or> r = 2" using n(2) by linarith
  ultimately show ?thesis by auto
qed

lemma strip_padded:
  assumes "CHR ''='' \<notin> set xs" and "ps = [] \<or> xs \<noteq> [] \<and> (ps = [CHR ''=''] \<or> ps = [CHR ''='', CHR ''=''])"
  shows "b64_strip (xs @ ps) = xs"
proof (cases xs rule: rev_cases)
  case Nil
  then show ?thesis using assms(2) by (simp add: b64_strip_def)
next
  case (snoc ys y)
  then have "y \<noteq> CHR ''=''" using assms(1) by auto
  with snoc assms(2) show ?thesis by (cases ys rule: rev_cases) (auto simp: b64_strip_def)
qed

lemma std_roundtrip [simp]: "std_decode (std_encode s) = Some s"
proof -
  let ?r = "raw_url_encode s"
  have "c \<noteq> CHR 0x0A \<and> c \<noteq> CHR 0x0D" if "c \<in> set (std_encode s)" for c
  proof -
    from that consider d where "d \<in> set ?r" "c = std_char d" | "c = CHR ''=''"
      unfolding std_encode_def b64_padding_def set_append set_map set_replicate_conv_if by (auto split: if_splits)
    then show ?thesis using raw_std [of _ s] by cases simp_all
  qed
  then have f: "filter (\<lambda>c. c \<noteq> CHR 0x0A \<and> c \<noteq> CHR 0x0D) (std_encode s) = std_encode s"
    by (intro filter_True) blast
  have len: "length (std_encode s) mod 4 = 0"
    using padded_length [of "length s"] unfolding std_encode_def b64_padding_def raw_url_encode_def length_append length_map raw_length length_replicate .
  have "CHR ''='' \<notin> set (map std_char ?r)" using raw_std by fastforce
  moreover have "b64_padding s = [] \<or> map std_char ?r \<noteq> [] \<and> (b64_padding s = [CHR ''=''] \<or> b64_padding s = [CHR ''='', CHR ''=''])"
  proof (cases "length s mod 3 = 0")
    case False
    then have "length s mod 3 = 1 \<or> length s mod 3 = 2" by presburger
    then show ?thesis using False
      by (auto simp: b64_padding_def raw_url_encode_def numeral_2_eq_2 simp flip: length_greater_0_conv simp: raw_length)
  qed (simp add: b64_padding_def)
  ultimately have "b64_strip (std_encode s) = map std_char ?r"
    unfolding std_encode_def by (rule strip_padded)
  moreover have "map (the \<circ> (url_char \<circ> std_char)) ?r = ?r" using raw_std by (intro map_idI) simp
  ultimately show ?thesis
    using len raw_std unfolding std_decode_def f by (simp add: list_all_iff Let_def)
qed


subsection \<open>Entries and layout\<close>

record fileEntry =
  fe_Ciphertext :: string
  fe_Nonce :: string
  fe_Scheme :: string

type_synonym vault_entries = "(string, (string, fileEntry) amap) amap"

record fileLayout =
  fl_Version :: int
  fl_Entries :: vault_entries

record FileVault =
  fv_path :: string
  fv_key :: string
  fv_data :: fileLayout

text \<open>HKDF-SHA256 of a master key and an info text, and AES-256-GCM: \<open>Seal\<close> and \<open>Open\<close> take key, nonce, text and
  additional data.\<close>

record vault_crypto =
  vc_hkdf :: "string \<Rightarrow> string \<Rightarrow> string"
  vc_seal :: "string \<Rightarrow> string \<Rightarrow> string \<Rightarrow> string \<Rightarrow> string"
  vc_open :: "string \<Rightarrow> string \<Rightarrow> string \<Rightarrow> string \<Rightarrow> string option"

text \<open>\<open>VaultPanic\<close>: GCM panics when the nonce has not its size.\<close>

datatype vault_error = VaultCanceled | VaultArgs | VaultNotFound | VaultDecode | VaultScheme | VaultDecrypt
  | VaultKeyLength | VaultRead | VaultParse | VaultWrite | VaultPanic

text \<open>The file at the path of the vault.\<close>

datatype vault_file = NoFile | UnreadableFile | BlankFile | BrokenFile | LayoutFile fileLayout

subsection \<open>Encryption\<close>

definition schemeV1 :: string where "schemeV1 = ''v1''"

definition hkdfInfoPrefix :: string where "hkdfInfoPrefix = ''portico/v1/''"

definition deriveKey :: "vault_crypto \<Rightarrow> string \<Rightarrow> string \<Rightarrow> string \<Rightarrow> string" where
  "deriveKey cr masterKey tenantID name = vc_hkdf cr masterKey (hkdfInfoPrefix @ tenantID @ ''/'' @ name)"

definition aadFor :: "string \<Rightarrow> string \<Rightarrow> string" where
  "aadFor tenantID name = tenantID @ ''/'' @ name"

definition gcmNonceSize :: nat where "gcmNonceSize = 12"

definition encryptV1 :: "vault_crypto \<Rightarrow> string \<Rightarrow> string \<Rightarrow> string \<Rightarrow> string \<Rightarrow> string \<Rightarrow> fileEntry" where
  "encryptV1 cr nonce tenantID name plaintext masterKey =
    (let ct = vc_seal cr (deriveKey cr masterKey tenantID name) nonce plaintext (aadFor tenantID name) in
     \<lparr> fe_Ciphertext = std_encode ct, fe_Nonce = std_encode nonce, fe_Scheme = schemeV1 \<rparr>)"

definition decryptGCM :: "vault_crypto \<Rightarrow> string \<Rightarrow> string \<Rightarrow> string \<Rightarrow> string \<Rightarrow> (vault_error, string) result" where
  "decryptGCM cr key nonce ct aad =
    (if length nonce \<noteq> gcmNonceSize then Inl VaultPanic
     else case vc_open cr key nonce ct aad of None \<Rightarrow> Inl VaultDecrypt | Some pt \<Rightarrow> Inr pt)"

definition decryptEntry ::
  "vault_crypto \<Rightarrow> string \<Rightarrow> string \<Rightarrow> fileEntry \<Rightarrow> string \<Rightarrow> (vault_error, string) result" where
  "decryptEntry cr tenantID name e masterKey =
    (case std_decode (fe_Ciphertext e) of
       None \<Rightarrow> Inl VaultDecode
     | Some ct \<Rightarrow>
         (case std_decode (fe_Nonce e) of
            None \<Rightarrow> Inl VaultDecode
          | Some nonce \<Rightarrow>
              if fe_Scheme e = schemeV1
              then decryptGCM cr (deriveKey cr masterKey tenantID name) nonce ct (aadFor tenantID name)
              else if fe_Scheme e = '''' then decryptGCM cr masterKey nonce ct ''''
              else Inl VaultScheme))"

subsection \<open>The file\<close>

definition empty_layout :: fileLayout where
  "empty_layout = \<lparr> fl_Version = 1, fl_Entries = [] \<rparr>"

definition flushLayout :: "bool \<Rightarrow> string \<Rightarrow> fileLayout \<Rightarrow> vault_file \<Rightarrow> (vault_error, vault_file) result" where
  "flushLayout writable path layout fl =
    (if path = '''' then Inr fl else if writable then Inr (LayoutFile layout) else Inl VaultWrite)"

definition vault_load :: "string \<Rightarrow> vault_file \<Rightarrow> (vault_error, fileLayout) result" where
  "vault_load path fl =
    (if path = '''' then Inr empty_layout
     else case fl of
         NoFile \<Rightarrow> Inr empty_layout
       | UnreadableFile \<Rightarrow> Inl VaultRead
       | BlankFile \<Rightarrow> Inr empty_layout
       | BrokenFile \<Rightarrow> Inl VaultParse
       | LayoutFile l \<Rightarrow> Inr (l \<lparr> fl_Version := (if fl_Version l = 0 then 1 else fl_Version l) \<rparr>))"

definition NewFileVault :: "string \<Rightarrow> string \<Rightarrow> vault_file \<Rightarrow> (vault_error, FileVault) result" where
  "NewFileVault path key fl =
    (if length key \<noteq> 32 then Inl VaultKeyLength
     else res_bind (vault_load path fl) (\<lambda>l. Inr \<lparr> fv_path = path, fv_key = key, fv_data = l \<rparr>))"

subsection \<open>Operations\<close>

definition entry_of :: "fileLayout \<Rightarrow> string \<Rightarrow> string \<Rightarrow> fileEntry option" where
  "entry_of l tenantID name = (case aget (fl_Entries l) tenantID of None \<Rightarrow> None | Some es \<Rightarrow> aget es name)"

definition vault_Get :: "vault_crypto \<Rightarrow> bool \<Rightarrow> string \<Rightarrow> string \<Rightarrow> FileVault \<Rightarrow> (vault_error, string) result" where
  "vault_Get cr canceled tenantID name v =
    (if canceled then Inl VaultCanceled
     else if tenantID = '''' \<or> name = '''' then Inl VaultArgs
     else case entry_of (fv_data v) tenantID name of
         None \<Rightarrow> Inl VaultNotFound
       | Some e \<Rightarrow> decryptEntry cr tenantID name e (fv_key v))"

text \<open>\<open>Put\<close> encrypts first and takes the lock afterwards.  The part under the lock: a failed write leaves the new
  entry in memory.\<close>

definition put_entry ::
  "bool \<Rightarrow> string \<Rightarrow> string \<Rightarrow> fileEntry \<Rightarrow> FileVault \<times> vault_file \<Rightarrow> vault_error option \<times> FileVault \<times> vault_file" where
  "put_entry writable tenantID name entry w =
    (let (v, fl) = w;
         es = (case aget (fl_Entries (fv_data v)) tenantID of None \<Rightarrow> [] | Some es \<Rightarrow> es);
         l = (fv_data v) \<lparr> fl_Entries := aput tenantID (aput name entry es) (fl_Entries (fv_data v)) \<rparr>;
         v' = v \<lparr> fv_data := l \<rparr> in
     case flushLayout writable (fv_path v) l fl of
       Inl e \<Rightarrow> (Some e, v', fl)
     | Inr fl' \<Rightarrow> (None, v', fl'))"

text \<open>The whole operation when nothing happens between the two parts.\<close>

definition vault_Put ::
  "vault_crypto \<Rightarrow> bool \<Rightarrow> bool \<Rightarrow> string \<Rightarrow> string \<Rightarrow> string \<Rightarrow> string \<Rightarrow> FileVault \<times> vault_file
    \<Rightarrow> vault_error option \<times> FileVault \<times> vault_file" where
  "vault_Put cr canceled writable nonce tenantID name value w =
    (if canceled then (Some VaultCanceled, w)
     else if tenantID = '''' \<or> name = '''' then (Some VaultArgs, w)
     else put_entry writable tenantID name (encryptV1 cr nonce tenantID name value (fv_key (fst w))) w)"

definition vault_Delete ::
  "bool \<Rightarrow> bool \<Rightarrow> string \<Rightarrow> string \<Rightarrow> FileVault \<times> vault_file \<Rightarrow> vault_error option \<times> FileVault \<times> vault_file" where
  "vault_Delete canceled writable tenantID name w =
    (if canceled then (Some VaultCanceled, w)
     else
       let (v, fl) = w in
       case aget (fl_Entries (fv_data v)) tenantID of
         None \<Rightarrow> (Some VaultNotFound, w)
       | Some es \<Rightarrow>
           if aget es name = None then (Some VaultNotFound, w)
           else
             let l = (fv_data v) \<lparr> fl_Entries := aput tenantID (adel name es) (fl_Entries (fv_data v)) \<rparr>;
                 v' = v \<lparr> fv_data := l \<rparr> in
             case flushLayout writable (fv_path v) l fl of
               Inl e \<Rightarrow> (Some e, v', fl)
             | Inr fl' \<Rightarrow> (None, v', fl'))"

definition vault_List :: "bool \<Rightarrow> string \<Rightarrow> FileVault \<Rightarrow> (vault_error, string list) result" where
  "vault_List canceled tenantID v =
    (if canceled then Inl VaultCanceled
     else case aget (fl_Entries (fv_data v)) tenantID of
         None \<Rightarrow> Inr []
       | Some es \<Rightarrow> Inr (sort (akeys es)))"

text \<open>Rotation builds the new layout first; \<open>nonces\<close> gives the fresh nonce of each entry.\<close>

fun rotate_entries ::
  "vault_crypto \<Rightarrow> (string \<Rightarrow> string) \<Rightarrow> string \<Rightarrow> string \<Rightarrow> string \<Rightarrow> (string, fileEntry) amap
    \<Rightarrow> (vault_error, (string, fileEntry) amap) result" where
  "rotate_entries cr nonces oldKey newKey tenantID [] = Inr []"
| "rotate_entries cr nonces oldKey newKey tenantID ((name, e) # es) =
    res_bind (decryptEntry cr tenantID name e oldKey) (\<lambda>plaintext.
    res_bind (rotate_entries cr nonces oldKey newKey tenantID es) (\<lambda>es'.
      Inr ((name, encryptV1 cr (nonces name) tenantID name plaintext newKey) # es')))"

fun rotate_tenants ::
  "vault_crypto \<Rightarrow> (string \<Rightarrow> string \<Rightarrow> string) \<Rightarrow> string \<Rightarrow> string \<Rightarrow> vault_entries \<Rightarrow> (vault_error, vault_entries) result" where
  "rotate_tenants cr nonces oldKey newKey [] = Inr []"
| "rotate_tenants cr nonces oldKey newKey ((tenantID, es) # rest) =
    res_bind (rotate_entries cr (nonces tenantID) oldKey newKey tenantID es) (\<lambda>es'.
    res_bind (rotate_tenants cr nonces oldKey newKey rest) (\<lambda>rest'. Inr ((tenantID, es') # rest')))"

definition RotateKey ::
  "vault_crypto \<Rightarrow> bool \<Rightarrow> bool \<Rightarrow> (string \<Rightarrow> string \<Rightarrow> string) \<Rightarrow> string \<Rightarrow> FileVault \<times> vault_file
    \<Rightarrow> vault_error option \<times> FileVault \<times> vault_file" where
  "RotateKey cr canceled writable nonces newKey w =
    (if canceled then (Some VaultCanceled, w)
     else if length newKey \<noteq> 32 then (Some VaultKeyLength, w)
     else
       let (v, fl) = w; ver = fl_Version (fv_data v) in
       case rotate_tenants cr nonces (fv_key v) newKey (fl_Entries (fv_data v)) of
         Inl e \<Rightarrow> (Some e, w)
       | Inr entries \<Rightarrow>
           let rotated = \<lparr> fl_Version = (if ver = 0 then 1 else ver), fl_Entries = entries \<rparr> in
           case flushLayout writable (fv_path v) rotated fl of
             Inl e \<Rightarrow> (Some e, w)
           | Inr fl' \<Rightarrow> (None, v \<lparr> fv_data := rotated, fv_key := newKey \<rparr>, fl'))"


subsection \<open>The vault as a map of secrets\<close>

type_synonym secret_map = "string \<times> string \<Rightarrow> string option"

datatype vault_op =
    VGet string string
  | VPut string string string string
  | VDelete string string
  | VList string
  | VRotate "string \<Rightarrow> string \<Rightarrow> string" string
  | VReopen

datatype vault_answer =
    ASecret "(vault_error, string) result"
  | ADone "vault_error option"
  | ANames "(vault_error, string list) result"

text \<open>An operation while no context is cancelled and the file can be written; \<open>VReopen\<close> is a restart of the process.\<close>

fun vault_exec :: "vault_crypto \<Rightarrow> vault_op \<Rightarrow> FileVault \<times> vault_file \<Rightarrow> vault_answer \<times> FileVault \<times> vault_file" where
  "vault_exec cr (VGet t n) w = (ASecret (vault_Get cr False t n (fst w)), w)"
| "vault_exec cr (VPut nonce t n s) w = (let (e, w') = vault_Put cr False True nonce t n s w in (ADone e, w'))"
| "vault_exec cr (VDelete t n) w = (let (e, w') = vault_Delete False True t n w in (ADone e, w'))"
| "vault_exec cr (VList t) w = (ANames (vault_List False t (fst w)), w)"
| "vault_exec cr (VRotate nonces key) w = (let (e, w') = RotateKey cr False True nonces key w in (ADone e, w'))"
| "vault_exec cr VReopen w =
    (case NewFileVault (fv_path (fst w)) (fv_key (fst w)) (snd w) of
       Inl e \<Rightarrow> (ADone (Some e), w)
     | Inr v \<Rightarrow> (ADone None, v, snd w))"

fun vault_run :: "vault_crypto \<Rightarrow> vault_op list \<Rightarrow> FileVault \<times> vault_file \<Rightarrow> vault_answer list" where
  "vault_run cr [] w = []"
| "vault_run cr (q # qs) w = (let (a, w') = vault_exec cr q w in a # vault_run cr qs w')"

fun secret_exec :: "vault_op \<Rightarrow> secret_map \<Rightarrow> vault_answer \<times> secret_map" where
  "secret_exec (VGet t n) m =
    (ASecret (if t = '''' \<or> n = '''' then Inl VaultArgs else case m (t, n) of None \<Rightarrow> Inl VaultNotFound | Some s \<Rightarrow> Inr s), m)"
| "secret_exec (VPut nonce t n s) m =
    (if t = '''' \<or> n = '''' then (ADone (Some VaultArgs), m) else (ADone None, m((t, n) \<mapsto> s)))"
| "secret_exec (VDelete t n) m =
    (if m (t, n) = None then (ADone (Some VaultNotFound), m) else (ADone None, m((t, n) := None)))"
| "secret_exec (VList t) m = (ANames (Inr (sorted_list_of_set {n. m (t, n) \<noteq> None})), m)"
| "secret_exec (VRotate nonces key) m = (ADone (if length key \<noteq> 32 then Some VaultKeyLength else None), m)"
| "secret_exec VReopen m = (ADone None, m)"

fun secret_run :: "vault_op list \<Rightarrow> secret_map \<Rightarrow> vault_answer list" where
  "secret_run [] m = []"
| "secret_run (q # qs) m = (let (a, m') = secret_exec q m in a # secret_run qs m')"

fun nonces_ok :: "vault_op \<Rightarrow> bool" where
  "nonces_ok (VPut nonce t n s) \<longleftrightarrow> length nonce = gcmNonceSize"
| "nonces_ok (VRotate nonces key) \<longleftrightarrow> (\<forall>t n. length (nonces t n) = gcmNonceSize)"
| "nonces_ok q \<longleftrightarrow> True"

definition sound_cipher :: "vault_crypto \<Rightarrow> bool" where
  "sound_cipher cr \<longleftrightarrow> (\<forall>k nonce pt aad. length nonce = gcmNonceSize \<longrightarrow> vc_open cr k nonce (vc_seal cr k nonce pt aad) aad = Some pt)"

definition secrets_of :: "vault_crypto \<Rightarrow> FileVault \<Rightarrow> secret_map" where
  "secrets_of cr v = (\<lambda>(t, n). case entry_of (fv_data v) t n of None \<Rightarrow> None
     | Some e \<Rightarrow> (case decryptEntry cr t n e (fv_key v) of Inl x \<Rightarrow> None | Inr pt \<Rightarrow> Some pt))"

text \<open>Every entry can be read, and the file holds what is in memory.\<close>

definition entries_ok :: "vault_crypto \<Rightarrow> string \<Rightarrow> vault_entries \<Rightarrow> bool" where
  "entries_ok cr key ts \<longleftrightarrow> amap_ok ts \<and> (\<forall>t es. aget ts t = Some es \<longrightarrow> amap_ok es \<and>
     (\<forall>n e. aget es n = Some e \<longrightarrow> (\<exists>pt. decryptEntry cr t n e key = Inr pt)))"

definition vault_ok :: "vault_crypto \<Rightarrow> FileVault \<times> vault_file \<Rightarrow> bool" where
  "vault_ok cr w \<longleftrightarrow> fv_path (fst w) \<noteq> '''' \<and> length (fv_key (fst w)) = 32 \<and> fl_Version (fv_data (fst w)) \<noteq> 0 \<and>
     vault_load (fv_path (fst w)) (snd w) = Inr (fv_data (fst w)) \<and> entries_ok cr (fv_key (fst w)) (fl_Entries (fv_data (fst w)))"

lemma decrypt_encrypt:
  "\<lbrakk> sound_cipher cr; length nonce = gcmNonceSize \<rbrakk> \<Longrightarrow> decryptEntry cr t n (encryptV1 cr nonce t n pt k) k = Inr pt"
  by (simp add: decryptEntry_def encryptV1_def decryptGCM_def sound_cipher_def Let_def)

lemma entry_of_put:
  "entry_of (l \<lparr> fl_Entries := aput t es (fl_Entries l) \<rparr>) t' n' = (if t' = t then aget es n' else entry_of l t' n')"
  by (simp add: entry_of_def)

lemma entry_readable:
  "\<lbrakk> entries_ok cr k (fl_Entries l); entry_of l t n = Some e \<rbrakk> \<Longrightarrow> \<exists>pt. decryptEntry cr t n e k = Inr pt"
  by (auto simp: entries_ok_def entry_of_def split: option.splits)

lemma secrets_of_Some:
  assumes "entries_ok cr (fv_key v) (fl_Entries (fv_data v))"
  shows "secrets_of cr v (t, n) = None \<longleftrightarrow> entry_of (fv_data v) t n = None"
  using entry_readable [OF assms, of t n] by (auto simp: secrets_of_def split: option.splits sum.splits)

lemma load_flushed: "\<lbrakk> path \<noteq> ''''; fl_Version l \<noteq> 0 \<rbrakk> \<Longrightarrow> vault_load path (LayoutFile l) = Inr l"
  by (simp add: vault_load_def)

lemma get_refines:
  assumes "vault_ok cr w" and "t \<noteq> ''''" and "n \<noteq> ''''"
  shows "vault_Get cr False t n (fst w) = (case secrets_of cr (fst w) (t, n) of None \<Rightarrow> Inl VaultNotFound | Some s \<Rightarrow> Inr s)"
proof -
  have ok: "entries_ok cr (fv_key (fst w)) (fl_Entries (fv_data (fst w)))" using assms(1) by (simp add: vault_ok_def)
  show ?thesis using entry_readable [OF ok, of t n] assms(2,3)
    by (auto simp: vault_Get_def secrets_of_def split: option.splits sum.splits)
qed

lemma put_refines:
  assumes "sound_cipher cr" "vault_ok cr w" "length nonce = gcmNonceSize" "t \<noteq> ''''" "n \<noteq> ''''"
  shows "\<exists>w'. vault_Put cr False True nonce t n s w = (None, w') \<and> vault_ok cr w' \<and>
    secrets_of cr (fst w') = (secrets_of cr (fst w))((t, n) \<mapsto> s)"
proof -
  obtain v fl where w: "w = (v, fl)" by (cases w)
  define es where "es = (case aget (fl_Entries (fv_data v)) t of None \<Rightarrow> [] | Some es \<Rightarrow> es)"
  define e where "e = encryptV1 cr nonce t n s (fv_key v)"
  define l where "l = (fv_data v) \<lparr> fl_Entries := aput t (aput n e es) (fl_Entries (fv_data v)) \<rparr>"
  have put: "vault_Put cr False True nonce t n s w = (None, v \<lparr> fv_data := l \<rparr>, LayoutFile l)"
    using assms by (simp add: vault_Put_def put_entry_def w es_def e_def l_def Let_def flushLayout_def vault_ok_def)
  have e: "decryptEntry cr t n e (fv_key v) = Inr s" unfolding e_def by (rule decrypt_encrypt [OF assms(1,3)])
  have old: "entries_ok cr (fv_key v) (fl_Entries (fv_data v))" using assms(2) w by (simp add: vault_ok_def)
  then have "amap_ok es" unfolding es_def entries_ok_def by (auto split: option.splits)
  moreover have "\<exists>pt. decryptEntry cr t n' e' (fv_key v) = Inr pt" if "aget es n' = Some e'" for n' e'
    using that old unfolding es_def entries_ok_def by (auto split: option.splits)
  ultimately have "entries_ok cr (fv_key v) (fl_Entries l)"
    using old e unfolding entries_ok_def l_def by auto
  then have ok: "vault_ok cr (v \<lparr> fv_data := l \<rparr>, LayoutFile l)"
    using assms(2) w by (simp add: vault_ok_def load_flushed l_def)
  have of_es: "aget es n' = entry_of (fv_data v) t n'" for n'
    unfolding es_def entry_of_def by (auto split: option.splits)
  have "secrets_of cr (v \<lparr> fv_data := l \<rparr>) = (secrets_of cr v)((t, n) \<mapsto> s)"
    by (simp add: fun_eq_iff secrets_of_def l_def entry_of_put e of_es split: option.split)
  with put ok w show ?thesis by auto
qed


lemma delete_refines:
  assumes "vault_ok cr w" and "secrets_of cr (fst w) (t, n) \<noteq> None"
  shows "\<exists>w'. vault_Delete False True t n w = (None, w') \<and> vault_ok cr w' \<and>
    secrets_of cr (fst w') = (secrets_of cr (fst w))((t, n) := None)"
proof -
  obtain v fl where w: "w = (v, fl)" by (cases w)
  have old: "entries_ok cr (fv_key v) (fl_Entries (fv_data v))" using assms(1) w by (simp add: vault_ok_def)
  then obtain es e where es: "aget (fl_Entries (fv_data v)) t = Some es" "aget es n = Some e"
    using assms(2) w secrets_of_Some [OF old, of t n] by (auto simp: entry_of_def split: option.splits)
  define l where "l = (fv_data v) \<lparr> fl_Entries := aput t (adel n es) (fl_Entries (fv_data v)) \<rparr>"
  have del: "vault_Delete False True t n w = (None, v \<lparr> fv_data := l \<rparr>, LayoutFile l)"
    using assms(1) es by (simp add: vault_Delete_def w l_def Let_def flushLayout_def vault_ok_def)
  have "entries_ok cr (fv_key v) (fl_Entries l)" using old es unfolding entries_ok_def l_def by (auto split: if_splits)
  then have ok: "vault_ok cr (v \<lparr> fv_data := l \<rparr>, LayoutFile l)"
    using assms(1) w by (simp add: vault_ok_def load_flushed l_def)
  have "secrets_of cr (v \<lparr> fv_data := l \<rparr>) = (secrets_of cr v)((t, n) := None)"
    using es by (simp add: fun_eq_iff secrets_of_def l_def entry_of_put entry_of_def split: option.split)
  with del ok w show ?thesis by auto
qed

lemma delete_absent:
  assumes "vault_ok cr w" and "secrets_of cr (fst w) (t, n) = None"
  shows "vault_Delete False True t n w = (Some VaultNotFound, w)"
proof -
  obtain v fl where w: "w = (v, fl)" by (cases w)
  have "entries_ok cr (fv_key v) (fl_Entries (fv_data v))" using assms(1) w by (simp add: vault_ok_def)
  from secrets_of_Some [OF this, of t n] assms(2) w show ?thesis
    by (auto simp: vault_Delete_def entry_of_def Let_def split: option.splits)
qed

lemma list_refines:
  assumes "vault_ok cr w"
  shows "vault_List False t (fst w) = Inr (sorted_list_of_set {n. secrets_of cr (fst w) (t, n) \<noteq> None})"
proof -
  obtain v fl where w: "w = (v, fl)" by (cases w)
  have ok: "entries_ok cr (fv_key v) (fl_Entries (fv_data v))" using assms w by (simp add: vault_ok_def)
  note s = secrets_of_Some [OF ok]
  show ?thesis
  proof (cases "aget (fl_Entries (fv_data v)) t")
    case None
    then show ?thesis using s w by (simp add: vault_List_def entry_of_def)
  next
    case (Some es)
    then have "{n. secrets_of cr v (t, n) \<noteq> None} = set (akeys es)"
      using s by (auto simp: entry_of_def map_of_eq_None_iff)
    moreover have "distinct (akeys es)" using ok Some by (simp add: entries_ok_def amap_ok_def)
    ultimately show ?thesis using Some w sorted_list_of_set_sort_remdups [of "akeys es"]
      by (simp add: vault_List_def distinct_remdups_id)
  qed
qed

lemma rotate_entries_ok:
  assumes "sound_cipher cr" "\<forall>n. length (nonces n) = gcmNonceSize" and "\<forall>(n, e) \<in> set es. \<exists>pt. decryptEntry cr t n e k = Inr pt"
  shows "\<exists>es'. rotate_entries cr nonces k k' t es = Inr es' \<and> akeys es' = akeys es \<and>
    (\<forall>n. (aget es' n = None \<longleftrightarrow> aget es n = None) \<and>
       (\<forall>e e'. aget es n = Some e \<longrightarrow> aget es' n = Some e' \<longrightarrow> decryptEntry cr t n e' k' = decryptEntry cr t n e k))"
  using assms(3)
proof (induction es)
  case (Cons ne es)
  obtain n e where ne: "ne = (n, e)" by (cases ne)
  obtain pt where pt: "decryptEntry cr t n e k = Inr pt" using Cons.prems ne by auto
  have "decryptEntry cr t n (encryptV1 cr (nonces n) t n pt k') k' = Inr pt"
    by (rule decrypt_encrypt [OF assms(1)]) (simp add: assms(2))
  moreover from Cons obtain es' where "rotate_entries cr nonces k k' t es = Inr es'" "akeys es' = akeys es"
      "\<forall>n. (aget es' n = None \<longleftrightarrow> aget es n = None) \<and>
       (\<forall>e e'. aget es n = Some e \<longrightarrow> aget es' n = Some e' \<longrightarrow> decryptEntry cr t n e' k' = decryptEntry cr t n e k)" by auto
  ultimately show ?case using pt ne by auto
qed simp

definition rotated_as :: "vault_crypto \<Rightarrow> string \<Rightarrow> string \<Rightarrow> vault_entries \<Rightarrow> vault_entries \<Rightarrow> bool" where
  "rotated_as cr k k' ts ts' \<longleftrightarrow> akeys ts' = akeys ts \<and> (\<forall>t es es'. aget ts t = Some es \<longrightarrow> aget ts' t = Some es' \<longrightarrow>
     akeys es' = akeys es \<and> (\<forall>n. (aget es' n = None \<longleftrightarrow> aget es n = None) \<and>
       (\<forall>e e'. aget es n = Some e \<longrightarrow> aget es' n = Some e' \<longrightarrow> decryptEntry cr t n e' k' = decryptEntry cr t n e k)))"

lemma rotate_tenants_ok:
  assumes "sound_cipher cr" "\<forall>t n. length (nonces t n) = gcmNonceSize"
    and "\<forall>(t, es) \<in> set ts. \<forall>(n, e) \<in> set es. \<exists>pt. decryptEntry cr t n e k = Inr pt"
  shows "\<exists>ts'. rotate_tenants cr nonces k k' ts = Inr ts' \<and> rotated_as cr k k' ts ts'"
  using assms(3)
proof (induction ts)
  case (Cons te ts)
  obtain t es where te: "te = (t, es)" by (cases te)
  have "\<forall>(n, e) \<in> set es. \<exists>pt. decryptEntry cr t n e k = Inr pt" using Cons.prems te by auto
  from rotate_entries_ok [OF assms(1) _ this, of "nonces t" k'] assms(2) Cons te show ?case
    by (auto simp: rotated_as_def)
qed (simp add: rotated_as_def)


lemma same_keys: "akeys a = akeys b \<Longrightarrow> aget a k = None \<longleftrightarrow> aget b k = None"
  by (metis list.set_map map_of_eq_None_iff)

lemma rotated_keys: "rotated_as cr k k' ts ts' \<Longrightarrow> aget ts' t = None \<longleftrightarrow> aget ts t = None"
  unfolding rotated_as_def by (rule same_keys) (rule conjunct1)

lemma rotated_entry:
  assumes "rotated_as cr k k' (fl_Entries l) (fl_Entries l')"
  shows "(entry_of l' t n = None \<longleftrightarrow> entry_of l t n = None) \<and>
    (\<forall>e e'. entry_of l t n = Some e \<longrightarrow> entry_of l' t n = Some e' \<longrightarrow> decryptEntry cr t n e' k' = decryptEntry cr t n e k)"
proof (cases "aget (fl_Entries l) t")
  case None
  then have "aget (fl_Entries l') t = None"
    using rotated_keys [OF assms] by blast
  then show ?thesis using None by (simp add: entry_of_def)
next
  case (Some es)
  then obtain es' where "aget (fl_Entries l') t = Some es'"
    using rotated_keys [OF assms, of t] by auto
  with Some assms show ?thesis by (simp add: rotated_as_def entry_of_def)
qed

lemma rotated_ok:
  assumes "entries_ok cr k ts" "rotated_as cr k k' ts ts'"
  shows "entries_ok cr k' ts'"
proof -
  have "amap_ok ts'" using assms by (simp add: entries_ok_def rotated_as_def amap_ok_def)
  moreover have "amap_ok es' \<and> (\<forall>n e'. aget es' n = Some e' \<longrightarrow> (\<exists>pt. decryptEntry cr t n e' k' = Inr pt))"
    if ts': "aget ts' t = Some es'" for t es'
  proof -
    obtain es where es: "aget ts t = Some es"
      using ts' rotated_keys [OF assms(2), of t] by auto
    with that assms have "akeys es' = akeys es" "amap_ok es" by (simp_all add: rotated_as_def entries_ok_def)
    moreover have "\<exists>pt. decryptEntry cr t n e' k' = Inr pt" if e': "aget es' n = Some e'" for n e'
    proof -
      have same: "(aget es' n = None \<longleftrightarrow> aget es n = None) \<and>
          (\<forall>e e'. aget es n = Some e \<longrightarrow> aget es' n = Some e' \<longrightarrow> decryptEntry cr t n e' k' = decryptEntry cr t n e k)"
        using assms(2) es ts' unfolding rotated_as_def by blast
      then obtain e where e: "aget es n = Some e" using e' by (cases "aget es n") simp_all
      have "decryptEntry cr t n e' k' = decryptEntry cr t n e k" using same e e' by blast
      with e es assms(1) show ?thesis by (simp add: entries_ok_def)
    qed
    ultimately show ?thesis by (simp add: amap_ok_def)
  qed
  ultimately show ?thesis by (simp add: entries_ok_def)
qed

lemma rotate_refines:
  assumes "sound_cipher cr" "vault_ok cr w" "\<forall>t n. length (nonces t n) = gcmNonceSize" "length key = 32"
  shows "\<exists>w'. RotateKey cr False True nonces key w = (None, w') \<and> vault_ok cr w' \<and> secrets_of cr (fst w') = secrets_of cr (fst w)"
proof -
  obtain v fl where w: "w = (v, fl)" by (cases w)
  let ?ts = "fl_Entries (fv_data v)"
  have old: "entries_ok cr (fv_key v) ?ts" using assms(2) w by (simp add: vault_ok_def)
  then have "\<forall>(t, es) \<in> set ?ts. \<forall>(n, e) \<in> set es. \<exists>pt. decryptEntry cr t n e (fv_key v) = Inr pt"
    unfolding entries_ok_def by (auto simp: aget_iff_mem)
  from rotate_tenants_ok [OF assms(1,3) this, of key] obtain ts' where
    ts': "rotate_tenants cr nonces (fv_key v) key ?ts = Inr ts'" "rotated_as cr (fv_key v) key ?ts ts'" by blast
  define l where "l = \<lparr> fl_Version = fl_Version (fv_data v), fl_Entries = ts' \<rparr>"
  have rot: "RotateKey cr False True nonces key w = (None, v \<lparr> fv_data := l, fv_key := key \<rparr>, LayoutFile l)"
    using assms(2,4) w ts'(1) by (simp add: RotateKey_def l_def Let_def flushLayout_def vault_ok_def)
  have ok: "vault_ok cr (v \<lparr> fv_data := l, fv_key := key \<rparr>, LayoutFile l)"
    using assms(2,4) w rotated_ok [OF old ts'(2)] by (simp add: vault_ok_def load_flushed l_def)
  have "rotated_as cr (fv_key v) key ?ts (fl_Entries l)" using ts'(2) by (simp add: l_def)
  note r = rotated_entry [OF this]
  have "secrets_of cr (v \<lparr> fv_data := l, fv_key := key \<rparr>) (t, n) = secrets_of cr v (t, n)" for t n
    using r [of t n] by (cases "entry_of (fv_data v) t n"; cases "entry_of l t n") (simp_all add: secrets_of_def)
  with rot ok w show ?thesis by (auto simp: fun_eq_iff)
qed

lemma reopen_refines:
  assumes "vault_ok cr w"
  shows "vault_exec cr VReopen w = (ADone None, w)"
  using assms by (cases w) (simp add: vault_ok_def NewFileVault_def)

lemma exec_refines:
  assumes "sound_cipher cr" "vault_ok cr w" "nonces_ok q"
  shows "\<exists>w'. vault_exec cr q w = (fst (secret_exec q (secrets_of cr (fst w))), w') \<and> vault_ok cr w' \<and>
    secrets_of cr (fst w') = snd (secret_exec q (secrets_of cr (fst w)))"
proof (cases q)
  case (VGet t n)
  show ?thesis
  proof (cases "t = '''' \<or> n = ''''")
    case True
    then show ?thesis using VGet assms(2) by (auto simp: vault_Get_def)
  next
    case False
    then show ?thesis using VGet assms(2) get_refines [OF assms(2)] by (simp split: option.splits)
  qed
next
  case (VPut nonce t n s)
  show ?thesis
  proof (cases "t = '''' \<or> n = ''''")
    case True
    then show ?thesis using VPut assms(2) by (auto simp: vault_Put_def put_entry_def)
  next
    case False
    then show ?thesis using VPut assms(3) put_refines [OF assms(1,2), of nonce t n s] by auto
  qed
next
  case (VDelete t n)
  then show ?thesis
    using delete_absent [OF assms(2), of t n] delete_refines [OF assms(2), of t n] assms(2)
    by (cases w; cases "secrets_of cr (fst w) (t, n) = None") auto
next
  case (VList t)
  then show ?thesis using list_refines [OF assms(2)] assms(2) by simp
next
  case (VRotate nonces key)
  show ?thesis
  proof (cases "length key = 32")
    case True
    then show ?thesis using VRotate assms(3) rotate_refines [OF assms(1,2), of nonces key] by auto
  next
    case False
    then show ?thesis using VRotate assms(2) by (simp add: RotateKey_def)
  qed
next
  case VReopen
  then show ?thesis using reopen_refines [OF assms(2)] assms(2) by (simp del: vault_exec.simps)
qed

lemma vault_run_refines:
  assumes "sound_cipher cr" "vault_ok cr w" "list_all nonces_ok qs"
  shows "vault_run cr qs w = secret_run qs (secrets_of cr (fst w))"
  using assms(2,3)
proof (induction qs arbitrary: w)
  case (Cons q qs)
  then obtain w' where "vault_exec cr q w = (fst (secret_exec q (secrets_of cr (fst w))), w')" "vault_ok cr w'"
      "secrets_of cr (fst w') = snd (secret_exec q (secrets_of cr (fst w)))"
    using exec_refines [OF assms(1) Cons.prems(1), of q] by auto
  with Cons show ?case by (simp add: split_beta)
qed simp

text \<open>C11: to its callers the encrypted vault file is a map from tenant and name to a secret: over any history of reads,
  writes, deletions, listings, key rotations and restarts on a new file, every answer is that of the plain map; rotations
  and restarts lose nothing and show nothing else.  The operations of a history run one after the other; a write that
  overlaps a rotation is outside of it (\<open>put_overtaken_by_rotation\<close>).\<close>

theorem vault_refines_map:
  assumes "sound_cipher cr" and "list_all nonces_ok qs" and "path \<noteq> ''''" and "NewFileVault path key NoFile = Inr v"
  shows "vault_run cr qs (v, NoFile) = secret_run qs Map.empty"
proof -
  have "vault_ok cr (v, NoFile)"
    using assms(3,4) by (auto simp: NewFileVault_def vault_load_def vault_ok_def empty_layout_def entries_ok_def split: if_splits)
  moreover have "secrets_of cr v = Map.empty"
    using assms(3,4) by (auto simp: NewFileVault_def vault_load_def empty_layout_def secrets_of_def entry_of_def split: if_splits)
  ultimately show ?thesis using vault_run_refines [OF assms(1) _ assms(2)] by fastforce
qed


text \<open>A cipher to try the laws on: the text after a prefix that names key and additional data.\<close>

definition demo_prefix :: "string \<Rightarrow> string \<Rightarrow> string" where
  "demo_prefix k a = dec_nat (length k) @ '':'' @ dec_nat (length a) @ '':'' @ k @ a"

definition demo_crypto :: vault_crypto where
  "demo_crypto = \<lparr> vc_hkdf = (\<lambda>m i. m @ i), vc_seal = (\<lambda>k nonce pt a. demo_prefix k a @ pt),
     vc_open = (\<lambda>k nonce ct a. if take (length (demo_prefix k a)) ct = demo_prefix k a
       then Some (drop (length (demo_prefix k a)) ct) else None) \<rparr>"

lemma demo_sound: "sound_cipher demo_crypto"
  by (simp add: sound_cipher_def demo_crypto_def)

definition demo_ops :: "vault_op list" where
  "demo_ops = [VPut (replicate 12 CHR ''n'') ''acme'' ''db'' ''s3cret'', VRotate (\<lambda>t n. replicate 12 CHR ''m'') (replicate 32 CHR ''k''),
     VReopen, VGet ''acme'' ''db'', VGet ''other'' ''db'', VList ''acme'', VDelete ''acme'' ''db'', VGet ''acme'' ''db'']"

theorem vault_refines_map_witness:
  "\<exists>v. NewFileVault ''/v'' (replicate 32 CHR ''0'') NoFile = Inr v \<and> vault_run demo_crypto demo_ops (v, NoFile) =
     [ADone None, ADone None, ADone None, ASecret (Inr ''s3cret''), ASecret (Inl VaultNotFound), ANames (Inr [''db'']),
      ADone None, ASecret (Inl VaultNotFound)]"
proof -
  obtain v where v: "NewFileVault ''/v'' (replicate 32 CHR ''0'') NoFile = Inr v"
    by (simp add: NewFileVault_def vault_load_def)
  have "list_all nonces_ok demo_ops" by (simp add: demo_ops_def gcmNonceSize_def)
  from vault_refines_map [OF demo_sound this _ v] v show ?thesis by (simp add: demo_ops_def)
qed

text \<open>A rotation between the two parts of a write leaves an entry under the old key: the write is reported as done, the
  secret cannot be read, and every later rotation fails.\<close>

lemma put_overtaken_by_rotation:
  fixes k0 k1 k2
  defines "v \<equiv> \<lparr> fv_path = ''/v'', fv_key = k0, fv_data = empty_layout \<rparr>"
    and "nonce \<equiv> replicate 12 CHR ''n''"
  assumes "k0 = replicate 32 CHR ''0''" and "k1 = replicate 32 CHR ''1''" and "k2 = replicate 32 CHR ''2''"
  shows "\<exists>w1 w2. RotateKey demo_crypto False True (\<lambda>t n. nonce) k1 (v, NoFile) = (None, w1) \<and>
    put_entry True ''acme'' ''db'' (encryptV1 demo_crypto nonce ''acme'' ''db'' ''s3cret'' (fv_key v)) w1 = (None, w2) \<and>
    vault_Get demo_crypto False ''acme'' ''db'' (fst w2) = Inl VaultDecrypt \<and>
    fst (RotateKey demo_crypto False True (\<lambda>t n. nonce) k2 w2) = Some VaultDecrypt"
proof -
  define w1 where "w1 = snd (RotateKey demo_crypto False True (\<lambda>t n. replicate 12 CHR ''n'') (replicate 32 CHR ''1'')
    (\<lparr> fv_path = ''/v'', fv_key = replicate 32 CHR ''0'', fv_data = empty_layout \<rparr>, NoFile))"
  define w2 where "w2 = snd (put_entry True ''acme'' ''db''
    (encryptV1 demo_crypto (replicate 12 CHR ''n'') ''acme'' ''db'' ''s3cret'' (replicate 32 CHR ''0'')) w1)"
  have "fst (RotateKey demo_crypto False True (\<lambda>t n. replicate 12 CHR ''n'') (replicate 32 CHR ''1'')
      (\<lparr> fv_path = ''/v'', fv_key = replicate 32 CHR ''0'', fv_data = empty_layout \<rparr>, NoFile)) = None"
    "fst (put_entry True ''acme'' ''db''
      (encryptV1 demo_crypto (replicate 12 CHR ''n'') ''acme'' ''db'' ''s3cret'' (replicate 32 CHR ''0'')) w1) = None"
    "vault_Get demo_crypto False ''acme'' ''db'' (fst w2) = Inl VaultDecrypt"
    "fst (RotateKey demo_crypto False True (\<lambda>t n. replicate 12 CHR ''n'') (replicate 32 CHR ''2'') w2) = Some VaultDecrypt"
    unfolding w1_def w2_def by code_simp+
  then show ?thesis
    unfolding assms v_def nonce_def by (intro exI [of _ w1] exI [of _ w2]) (simp add: prod_eq_iff w1_def w2_def)
qed

subsection \<open>Entries are bound to their place\<close>

text \<open>An authenticated text opens only under its key and additional data.\<close>

definition binding_cipher :: "vault_crypto \<Rightarrow> bool" where
  "binding_cipher cr \<longleftrightarrow> (\<forall>k nonce pt a k' a' pt'. vc_open cr k' nonce (vc_seal cr k nonce pt a) a' = Some pt' \<longrightarrow>
     k' = k \<and> a' = a \<and> pt' = pt)"

lemma aadFor_inject:
  assumes "CHR ''/'' \<notin> set t" "CHR ''/'' \<notin> set t'" "aadFor t n = aadFor t' n'"
  shows "t = t' \<and> n = n'"
  using assms(3) sep_inject [OF assms(1,2), of n n'] unfolding aadFor_def by simp

text \<open>An entry read anywhere but where it was written gives no secret.  If an entry that \<open>Put\<close> stored for one
  tenant and name is moved to another place of the file, reading it there fails, for all tenants whose ids contain no
  slash.\<close>

theorem moved_entry_unreadable:
  assumes "binding_cipher cr" and "length nonce = gcmNonceSize" and "CHR ''/'' \<notin> set t" and "CHR ''/'' \<notin> set t'" and "(t', n') \<noteq> (t, n)"
  shows "decryptEntry cr t' n' (encryptV1 cr nonce t n pt k) k = Inl VaultDecrypt"
proof -
  have "aadFor t' n' \<noteq> aadFor t n" using aadFor_inject [OF assms(4,3)] assms(5) by blast
  then have "vc_open cr (deriveKey cr k t' n') nonce (vc_seal cr (deriveKey cr k t n) nonce pt (aadFor t n)) (aadFor t' n') = None"
    using assms(1) unfolding binding_cipher_def
    by (cases "vc_open cr (deriveKey cr k t' n') nonce (vc_seal cr (deriveKey cr k t n) nonce pt (aadFor t n)) (aadFor t' n')") blast+
  then show ?thesis using assms(2) by (simp add: decryptEntry_def encryptV1_def decryptGCM_def Let_def)
qed


lemma demo_binding: "binding_cipher demo_crypto"
proof -
  have "k' = k \<and> a' = a" if "demo_prefix k a @ pt = demo_prefix k' a' @ pt'" for k a k' a' pt pt'
  proof -
    have no: "CHR '':'' \<notin> set (dec_nat i)" for i using dec_nat_digits [of i] by auto
    from that have "dec_nat (length k) @ CHR '':'' # (dec_nat (length a) @ CHR '':'' # k @ a @ pt) =
        dec_nat (length k') @ CHR '':'' # (dec_nat (length a') @ CHR '':'' # k' @ a' @ pt')" by (simp add: demo_prefix_def)
    then have "dec_nat (length k) = dec_nat (length k')" "dec_nat (length a) = dec_nat (length a')" "k @ a @ pt = k' @ a' @ pt'"
      by (simp_all only: sep_inject [OF no no])
    moreover from this(1,2) have "length k = length k'" "length a = length a'" by (metis read_dec_nat)+
    ultimately show ?thesis by simp
  qed
  note inj = this
  have "k' = k \<and> a' = a" if "take (length (demo_prefix k' a')) (demo_prefix k a @ pt) = demo_prefix k' a'" for k a k' a' pt
  proof (rule inj)
    show "demo_prefix k a @ pt = demo_prefix k' a' @ drop (length (demo_prefix k' a')) (demo_prefix k a @ pt)"
      using append_take_drop_id [of "length (demo_prefix k' a')" "demo_prefix k a @ pt", symmetric] unfolding that .
  qed
  note here = this
  show ?thesis unfolding binding_cipher_def
  proof (intro allI impI)
    fix k nonce pt a k' a' pt'
    assume "vc_open demo_crypto k' nonce (vc_seal demo_crypto k nonce pt a) a' = Some pt'"
    then have t: "take (length (demo_prefix k' a')) (demo_prefix k a @ pt) = demo_prefix k' a'"
        "drop (length (demo_prefix k' a')) (demo_prefix k a @ pt) = pt'"
      by (simp_all add: demo_crypto_def split: if_splits)
    from here [OF t(1)] t(2) show "k' = k \<and> a' = a \<and> pt' = pt" by simp
  qed
qed

theorem moved_entry_unreadable_witness:
  "decryptEntry demo_crypto ''other'' ''db'' (encryptV1 demo_crypto (replicate 12 CHR ''n'') ''acme'' ''db'' ''s3cret'' (replicate 32 CHR ''0''))
     (replicate 32 CHR ''0'') = Inl VaultDecrypt"
  by (rule moved_entry_unreadable [OF demo_binding]) (simp_all add: gcmNonceSize_def)

text \<open>With a slash in a tenant id the texts that separate the keys of two entries coincide.\<close>

lemma slash_shares_key:
  "deriveKey cr k ''a'' ''b/c'' = deriveKey cr k ''a/b'' ''c'' \<and> aadFor ''a'' ''b/c'' = aadFor ''a/b'' ''c''"
  by (simp add: deriveKey_def aadFor_def)

text \<open>A write that fails is still visible to this process.\<close>

lemma failed_put_visible:
  assumes "sound_cipher cr" "length nonce = gcmNonceSize" "t \<noteq> ''''" "n \<noteq> ''''" "fv_path v \<noteq> ''''"
  shows "\<exists>v'. vault_Put cr False False nonce t n s (v, fl) = (Some VaultWrite, v', fl) \<and> vault_Get cr False t n v' = Inr s"
  using assms decrypt_encrypt [OF assms(1,2)]
  by (simp add: vault_Put_def put_entry_def vault_Get_def Let_def flushLayout_def entry_of_put)

end
