(* ===== verification/Reveal.thy ===== *)
theory Reveal
  imports Vault
begin

text \<open>
  \<open>internal/secrets/reveal.go\<close>: one-shot tokens that show a secret of the vault to an operator.  The
  random bytes of a token are an argument; the vault is the function the manager calls of it.
\<close>

subsection \<open>Reveal tokens\<close>

record revealEntry =
  re_tenant :: string
  re_name :: string
  re_actorID :: string
  re_expiresAt :: time

type_synonym reveal_tokens = "(string, revealEntry) amap"

datatype reveal_error = RevealCanceled | RevealNotConfigured | RevealArgs | RevealVault vault_error | RevealUnknown | RevealExpired

text \<open>What the manager calls of its vault.\<close>

type_synonym vault_get = "string \<Rightarrow> string \<Rightarrow> (vault_error, string) result"

definition RevealTokenTTL :: duration where "RevealTokenTTL = 60 * second"

definition gcLocked :: "time \<Rightarrow> reveal_tokens \<Rightarrow> reveal_tokens" where
  "gcLocked now ts = filter (\<lambda>(k, e). \<not> re_expiresAt e < now) ts"

definition IssueRevealToken ::
  "vault_get option \<Rightarrow> bool \<Rightarrow> time \<Rightarrow> string \<Rightarrow> string \<Rightarrow> string \<Rightarrow> string \<Rightarrow> reveal_tokens
    \<Rightarrow> (reveal_error, string \<times> time) result \<times> reveal_tokens" where
  "IssueRevealToken vlt canceled now raw tenantID name actorID ts =
    (if canceled then (Inl RevealCanceled, ts)
     else case vlt of
         None \<Rightarrow> (Inl RevealNotConfigured, ts)
       | Some get \<Rightarrow>
           if tenantID = '''' \<or> name = '''' then (Inl RevealArgs, ts)
           else case get tenantID name of
               Inl e \<Rightarrow> (Inl (RevealVault e), ts)
             | Inr s \<Rightarrow>
                 let token = url_encode raw; expires = now + RevealTokenTTL in
                 (Inr (token, expires),
                  aput token \<lparr> re_tenant = tenantID, re_name = name, re_actorID = actorID, re_expiresAt = expires \<rparr>
                    (gcLocked now ts)))"

text \<open>The scan compares every token and deletes the matching one.\<close>

definition ConsumeReveal ::
  "vault_get option \<Rightarrow> bool \<Rightarrow> time \<Rightarrow> string \<Rightarrow> reveal_tokens
    \<Rightarrow> (reveal_error, string \<times> string \<times> string \<times> string) result \<times> reveal_tokens" where
  "ConsumeReveal vlt canceled now token ts =
    (if canceled then (Inl RevealCanceled, ts)
     else case vlt of
         None \<Rightarrow> (Inl RevealNotConfigured, ts)
       | Some get \<Rightarrow>
           if token = '''' then (Inl RevealArgs, ts)
           else case aget ts token of
               None \<Rightarrow> (Inl RevealUnknown, ts)
             | Some found \<Rightarrow>
                 (if re_expiresAt found < now then Inl RevealExpired
                  else case get (re_tenant found) (re_name found) of
                      Inl e \<Rightarrow> Inl (RevealVault e)
                    | Inr pt \<Rightarrow> Inr (pt, re_tenant found, re_name found, re_actorID found), adel token ts))"

datatype reveal_step =
    StepIssue "vault_get option" bool time string string string string
  | StepConsume "vault_get option" bool time string

fun reveal_next :: "reveal_step \<Rightarrow> reveal_tokens \<Rightarrow> reveal_tokens" where
  "reveal_next (StepIssue vlt c now raw t n a) ts = snd (IssueRevealToken vlt c now raw t n a ts)"
| "reveal_next (StepConsume vlt c now tok) ts = snd (ConsumeReveal vlt c now tok ts)"

definition reveal_run :: "reveal_step list \<Rightarrow> reveal_tokens" where
  "reveal_run steps = fold reveal_next steps []"

text \<open>A step that shows the secret of a token.\<close>

fun shows_secret :: "string \<Rightarrow> reveal_step \<Rightarrow> reveal_tokens \<Rightarrow> bool" where
  "shows_secret tok (StepConsume vlt c now tok') ts \<longleftrightarrow> tok' = tok \<and> (\<exists>x. fst (ConsumeReveal vlt c now tok' ts) = Inr x)"
| "shows_secret tok (StepIssue vlt c now raw t n a) ts \<longleftrightarrow> False"

text \<open>The last issue of a token, with no showing of it since.\<close>

definition pending_issue :: "reveal_step list \<Rightarrow> string \<Rightarrow> revealEntry \<Rightarrow> bool" where
  "pending_issue steps tok e \<longleftrightarrow> (\<exists>before vlt now raw after. steps = before @ StepIssue vlt False now raw (re_tenant e) (re_name e) (re_actorID e) # after \<and>
     url_encode raw = tok \<and> re_expiresAt e = now + RevealTokenTTL \<and>
     (\<forall>i < length after. \<not> shows_secret tok (after ! i) (reveal_run (before @ StepIssue vlt False now raw (re_tenant e) (re_name e) (re_actorID e) # take i after))))"

lemma pending_later:
  assumes "pending_issue steps tok e" "\<not> shows_secret tok s (reveal_run steps)"
  shows "pending_issue (steps @ [s]) tok e"
proof -
  obtain before vlt now raw after where p: "steps = before @ StepIssue vlt False now raw (re_tenant e) (re_name e) (re_actorID e) # after"
     "url_encode raw = tok" "re_expiresAt e = now + RevealTokenTTL"
     "\<forall>i < length after. \<not> shows_secret tok (after ! i) (reveal_run (before @ StepIssue vlt False now raw (re_tenant e) (re_name e) (re_actorID e) # take i after))"
    using assms(1) unfolding pending_issue_def by blast
  have "\<forall>i < length (after @ [s]). \<not> shows_secret tok ((after @ [s]) ! i)
      (reveal_run (before @ StepIssue vlt False now raw (re_tenant e) (re_name e) (re_actorID e) # take i (after @ [s])))"
    using p(1,4) assms(2) by (auto simp: nth_append less_Suc_eq)
  with p(1,2,3) show ?thesis unfolding pending_issue_def by (intro exI [of _ before] exI [of _ vlt] exI [of _ now] exI [of _ raw] exI [of _ "after @ [s]"]) simp
qed

lemma reveal_run_snoc: "reveal_run (steps @ [s]) = reveal_next s (reveal_run steps)"
  by (simp add: reveal_run_def)

lemma consume_gone:
  assumes "fst (ConsumeReveal vlt c now tok ts) = Inr x"
  shows "aget (snd (ConsumeReveal vlt c now tok ts)) tok = None"
  using assms by (auto simp: ConsumeReveal_def split: if_splits option.splits)

lemma consume_keeps: "aget (snd (ConsumeReveal vlt c now tok ts)) k = Some e \<Longrightarrow> aget ts k = Some e"
  by (auto simp: ConsumeReveal_def split: if_splits option.splits)

lemma gc_keeps: "amap_ok ts \<Longrightarrow> aget (gcLocked now ts) k = Some e \<Longrightarrow> aget ts k = Some e"
  by (auto simp: gcLocked_def aget_filter split: option.splits if_splits)

lemma reveal_amap_ok: "amap_ok (reveal_run steps)"
proof (induction steps rule: rev_induct)
  case (snoc s steps)
  then show ?case
    by (cases s) (auto simp: reveal_run_snoc IssueRevealToken_def ConsumeReveal_def gcLocked_def Let_def split: option.splits sum.splits)
qed (simp add: reveal_run_def)

lemma stored_pending: "aget (reveal_run steps) tok = Some e \<Longrightarrow> pending_issue steps tok e"
proof (induction steps arbitrary: e rule: rev_induct)
  case (snoc s steps)
  show ?case
  proof (cases s)
    case (StepConsume vlt c now tok')
    with snoc.prems have k: "aget (snd (ConsumeReveal vlt c now tok' (reveal_run steps))) tok = Some e" by (simp add: reveal_run_snoc)
    have "\<not> shows_secret tok s (reveal_run steps)"
    proof
      assume "shows_secret tok s (reveal_run steps)"
      then show False using StepConsume k consume_gone [of vlt c now tok] by auto
    qed
    with consume_keeps [OF k] show ?thesis by (intro pending_later snoc.IH)
  next
    case (StepIssue vlt c now raw t n a)
    show ?thesis
    proof (cases "aget (reveal_run steps) tok = Some e")
      case True
      then show ?thesis using pending_later [OF snoc.IH [OF True]] StepIssue by simp
    next
      case False
      with snoc.prems StepIssue have "\<not> c" "url_encode raw = tok"
          "e = \<lparr> re_tenant = t, re_name = n, re_actorID = a, re_expiresAt = now + RevealTokenTTL \<rparr>"
        using gc_keeps [OF reveal_amap_ok]
        by (auto simp: reveal_run_snoc IssueRevealToken_def Let_def split: if_splits option.splits sum.splits)
      then show ?thesis unfolding pending_issue_def StepIssue
        by (intro exI [of _ steps] exI [of _ vlt] exI [of _ now] exI [of _ raw] exI [of _ "[]"]) simp
    qed
  qed
qed (simp add: reveal_run_def)

text \<open>C14: a reveal token shows a secret at most once, no later than its lifetime after the last time it was issued, and only
  the secret of the tenant and name it was issued for, with the operator who asked for it; what it shows is what the vault
  holds when it is used.\<close>

theorem reveal_once:
  assumes "fst (ConsumeReveal vlt c now tok (reveal_run steps)) = Inr (pt, t, n, actor)"
  shows "(\<exists>get e. vlt = Some get \<and> get t n = Inr pt \<and> pending_issue steps tok e \<and> re_tenant e = t \<and> re_name e = n \<and>
      re_actorID e = actor \<and> now \<le> re_expiresAt e) \<and>
    (\<forall>vlt' c' now' x. fst (ConsumeReveal vlt' c' now' tok (snd (ConsumeReveal vlt c now tok (reveal_run steps)))) \<noteq> Inr x)"
proof -
  obtain get e where "vlt = Some get" "aget (reveal_run steps) tok = Some e" "get t n = Inr pt" "re_tenant e = t" "re_name e = n"
      "re_actorID e = actor" "now \<le> re_expiresAt e"
    using assms by (auto simp: ConsumeReveal_def split: if_splits option.splits sum.splits)
  moreover have "aget (snd (ConsumeReveal vlt c now tok (reveal_run steps))) tok = None"
    by (rule consume_gone [OF assms])
  then have "fst (ConsumeReveal vlt' c' now' tok (snd (ConsumeReveal vlt c now tok (reveal_run steps)))) \<noteq> Inr x" for vlt' c' now' x
    by (simp add: ConsumeReveal_def [of vlt'] split: option.splits)
  ultimately show ?thesis using stored_pending by blast
qed


theorem reveal_once_witness:
  defines "steps \<equiv> [StepIssue (Some (\<lambda>t n. Inr ''s3cret'')) False 0 ''abc'' ''acme'' ''db'' ''op'']"
  shows "fst (ConsumeReveal (Some (\<lambda>t n. Inr ''s3cret'')) False 5 (url_encode ''abc'') (reveal_run steps)) =
      Inr (''s3cret'', ''acme'', ''db'', ''op'') \<and>
    fst (ConsumeReveal (Some (\<lambda>t n. Inr ''s3cret'')) False 6 (url_encode ''abc'')
      (snd (ConsumeReveal (Some (\<lambda>t n. Inr ''s3cret'')) False 5 (url_encode ''abc'') (reveal_run steps)))) \<noteq>
      Inr (''s3cret'', ''acme'', ''db'', ''op'')"
proof -
  have "url_encode ''abc'' \<noteq> ''''" by code_simp
  then have "fst (ConsumeReveal (Some (\<lambda>t n. Inr ''s3cret'')) False 5 (url_encode ''abc'') (reveal_run steps)) =
      Inr (''s3cret'', ''acme'', ''db'', ''op'')"
    by (simp add: steps_def reveal_run_def IssueRevealToken_def ConsumeReveal_def gcLocked_def RevealTokenTTL_def second_def Let_def)
  with reveal_once [OF this] show ?thesis by blast
qed

end
