(* ===== verification/Policy_Rules.thy ===== *)
theory Policy_Rules
  imports Complex_Main Policy_Engine Go_Calendar Json "HOL-Library.Product_Lexorder" "HOL-Library.Multiset"
begin

text \<open>
  The editable policy rules of \<open>internal/policy\<close>: their data and validation (\<open>editor.go\<close>), the
  dry run that evaluates a rule set on a call (\<open>dryrun.go\<close>), and the rule store with its change
  feed (\<open>store.go\<close> and the SQL store below it).  The JSON columns of the store are what
  they decode to; \<open>fmt.Sprintf("%v", x)\<close> on numbers, arrays and objects is an argument.
\<close>

subsection \<open>Rules\<close>

record TimeRange =
  tr_From :: string
  tr_To :: string

record Match =
  mt_Tools :: "string list"
  mt_Servers :: "string list"
  mt_Tenants :: "string list"
  mt_ArgsExpr :: string
  mt_TimeRange :: TimeRange
  mt_Profiles :: "string list"
  mt_ProfileIncludesServer :: string
  mt_ProfileIncludesAlias :: string
  mt_VKs :: "string list"
  mt_VKScopes :: "string list"
  mt_VKTeam :: string
  mt_VKCustomer :: string
  mt_CacheWouldHit :: "bool option"
  mt_BudgetHeadroomBelowPct :: "rat option"

record Actions =
  ac_Allow :: bool
  ac_Deny :: bool
  ac_RequireApproval :: bool
  ac_LogLevel :: string
  ac_AnnotateRiskClass :: string
  ac_RequireProfileMembership :: "string list"
  ac_DenyOnCacheMiss :: bool
  ac_ForceCacheBypass :: bool
  ac_ClampToCustomerBudget :: bool

record Rule =
  ru_ID :: string
  ru_Priority :: int
  ru_Enabled :: bool
  ru_RiskClass :: string
  ru_Match :: Match
  ru_Actions :: Actions
  ru_Notes :: string
  ru_UpdatedAt :: "time option"
  ru_UpdatedBy :: string

subsection \<open>Validation\<close>

definition digit_at :: "string \<Rightarrow> nat \<Rightarrow> bool" where
  "digit_at s i \<longleftrightarrow> i < length s \<and> s ! i \<in> set ''0123456789''"

text \<open>\<open>time.Parse("15:04", s)\<close>: the hour may have one digit, the minute has two.\<close>

definition parse_clock :: "string \<Rightarrow> (nat \<times> nat) option" where
  "parse_clock s =
    (if \<not> digit_at s 0 then None
     else
       let n = (if digit_at s 1 then 2 else 1);
           h = read_dec (take n s); rest = drop n s in
       if 24 \<le> h then None
       else case rest of
           [] \<Rightarrow> None
         | c # m \<Rightarrow>
             if c \<noteq> CHR '':'' \<or> \<not> digit_at m 0 \<or> \<not> digit_at m 1 \<or> length m \<noteq> 2 then None
             else if 60 \<le> read_dec m then None
             else Some (h, read_dec m))"

datatype rule_error = RuleIDRequired | RuleRiskClass | RuleActionsExclusive | RuleTimeFrom | RuleTimeTo

definition Validate :: "Rule \<Rightarrow> rule_error option" where
  "Validate r =
    (let a = ru_Actions r; tr = mt_TimeRange (ru_Match r);
         count = (\<lambda>b. if b then (1::nat) else 0) in
     if ru_ID r = '''' then Some RuleIDRequired
     else if ru_RiskClass r \<noteq> '''' \<and> ru_RiskClass r \<notin> set validRiskClasses then Some RuleRiskClass
     else if 1 < count (ac_Allow a) + count (ac_Deny a) + count (ac_RequireApproval a) + count (0 < length (ac_RequireProfileMembership a))
     then Some RuleActionsExclusive
     else if tr_From tr \<noteq> '''' \<and> parse_clock (tr_From tr) = None then Some RuleTimeFrom
     else if tr_To tr \<noteq> '''' \<and> parse_clock (tr_To tr) = None then Some RuleTimeTo
     else None)"

subsection \<open>Calls\<close>

record ProfileView =
  pv_ID :: string
  pv_Name :: string
  pv_Servers :: "string list"
  pv_Aliases :: "string list"

record VKView =
  vv_ID :: string
  vv_Scopes :: "string list"
  vv_Team :: string
  vv_Customer :: string

record ToolCallShape =
  tc_TenantID :: string
  tc_Server :: string
  tc_Tool :: string
  tc_Args :: "(string, json) amap"
  tc_Now :: "time option"
  tc_Profile :: "ProfileView option"
  tc_VK :: "VKView option"
  tc_CacheWouldHit :: "bool option"
  tc_LowestHeadroomPct :: "rat option"

definition isMember :: "ProfileView option \<Rightarrow> string list \<Rightarrow> bool" where
  "isMember p ls = (case p of None \<Rightarrow> False | Some v \<Rightarrow> pv_ID v \<in> set ls \<or> (pv_Name v \<noteq> '''' \<and> pv_Name v \<in> set ls))"

subsection \<open>Conditions\<close>

fun globMatchAny :: "string list \<Rightarrow> string \<Rightarrow> bool" where
  "globMatchAny [] name = False"
| "globMatchAny (p # ps) name =
    (if p = '''' then globMatchAny ps name
     else if p = ''*'' \<or> p = name then True
     else if path_match p name = Some True then True
     else if has_suffix_star p \<and> has_prefix name (butlast p) then True
     else globMatchAny ps name)"

text \<open>The clock of a UTC time as \<open>HH:MM\<close>.\<close>

definition hhmm :: "time \<Rightarrow> string" where
  "hhmm t = pad_to 2 (dec_int (t mod day24 div hour)) @ '':'' @ pad_to 2 (dec_int (t mod hour div minute))"

definition inTimeRange :: "time \<Rightarrow> string \<Rightarrow> string \<Rightarrow> bool" where
  "inTimeRange now fromStr toStr =
    (let clock = hhmm now;
         from = (if fromStr = '''' then ''00:00'' else fromStr);
         to = (if toStr = '''' then ''23:59'' else toStr) in
     if from \<le> to then from \<le> clock \<and> clock \<le> to else from \<le> clock \<or> clock \<le> to)"

definition stringify :: "(json \<Rightarrow> string) \<Rightarrow> json \<Rightarrow> string" where
  "stringify sprint v = (case v of JStr s \<Rightarrow> s | JBool b \<Rightarrow> (if b then ''true'' else ''false'') | _ \<Rightarrow> sprint v)"

fun split_commas :: "string \<Rightarrow> string list" where
  "split_commas [] = [[]]"
| "split_commas (c # s) = (if c = CHR '','' then [] # split_commas s
    else case split_commas s of [] \<Rightarrow> [[c]] | w # ws \<Rightarrow> (c # w) # ws)"

definition term_matches :: "(json \<Rightarrow> string) \<Rightarrow> (string, json) amap \<Rightarrow> string \<Rightarrow> bool" where
  "term_matches sprint args t0 =
    (let t = trim_space t0 in
     if t = '''' then True
     else
       let eq = index_byte t (CHR ''='') in
       if eq < 1 then False
       else case aget args (trim_space (take (nat eq) t)) of
           None \<Rightarrow> False
         | Some got \<Rightarrow> stringify sprint got = trim_space (drop (nat eq + 1) t))"

definition argsExprMatches :: "(json \<Rightarrow> string) \<Rightarrow> string \<Rightarrow> (string, json) amap \<Rightarrow> bool" where
  "argsExprMatches sprint expr args = list_all (term_matches sprint args) (split_commas expr)"

definition anyContains :: "string list \<Rightarrow> string list \<Rightarrow> bool" where
  "anyContains have_ls want = list_ex (\<lambda>h. h \<in> set want) have_ls"

definition vkConditionsMatch :: "Match \<Rightarrow> VKView option \<Rightarrow> bool" where
  "vkConditionsMatch m vk =
    (if mt_VKs m \<noteq> [] \<and> (case vk of None \<Rightarrow> True | Some v \<Rightarrow> vv_ID v \<notin> set (mt_VKs m)) then False
     else if mt_VKScopes m \<noteq> [] \<and> (case vk of None \<Rightarrow> True | Some v \<Rightarrow> \<not> anyContains (vv_Scopes v) (mt_VKScopes m)) then False
     else if mt_VKTeam m \<noteq> '''' \<and> (case vk of None \<Rightarrow> True | Some v \<Rightarrow> vv_Team v \<noteq> mt_VKTeam m) then False
     else if mt_VKCustomer m \<noteq> '''' \<and> (case vk of None \<Rightarrow> True | Some v \<Rightarrow> vv_Customer v \<noteq> mt_VKCustomer m) then False
     else True)"

definition cacheBudgetConditionsMatch :: "Match \<Rightarrow> ToolCallShape \<Rightarrow> bool" where
  "cacheBudgetConditionsMatch m call =
    (if (case mt_CacheWouldHit m of None \<Rightarrow> False | Some w \<Rightarrow> tc_CacheWouldHit call \<noteq> Some w) then False
     else if (case mt_BudgetHeadroomBelowPct m of None \<Rightarrow> False
        | Some pct \<Rightarrow> (case tc_LowestHeadroomPct call of None \<Rightarrow> True | Some low \<Rightarrow> pct \<le> low)) then False
     else True)"

definition governanceConditionsMatch :: "Match \<Rightarrow> ToolCallShape \<Rightarrow> bool" where
  "governanceConditionsMatch m call = (vkConditionsMatch m (tc_VK call) \<and> cacheBudgetConditionsMatch m call)"

definition profileConditionsMatch :: "Match \<Rightarrow> ProfileView option \<Rightarrow> bool" where
  "profileConditionsMatch m p =
    (if mt_Profiles m \<noteq> [] \<and> \<not> isMember p (mt_Profiles m) then False
     else if mt_ProfileIncludesServer m \<noteq> '''' \<and> (case p of None \<Rightarrow> True | Some v \<Rightarrow> mt_ProfileIncludesServer m \<notin> set (pv_Servers v)) then False
     else if mt_ProfileIncludesAlias m \<noteq> '''' \<and> (case p of None \<Rightarrow> True | Some v \<Rightarrow> mt_ProfileIncludesAlias m \<notin> set (pv_Aliases v)) then False
     else True)"

text \<open>The zero time reads 00:00, like time 0 here.\<close>

definition call_clock :: "ToolCallShape \<Rightarrow> time" where
  "call_clock call = (case tc_Now call of None \<Rightarrow> 0 | Some t \<Rightarrow> t)"

definition ruleMatches :: "(json \<Rightarrow> string) \<Rightarrow> Rule \<Rightarrow> ToolCallShape \<Rightarrow> bool" where
  "ruleMatches sprint r call =
    (let m = ru_Match r;
         full = (if tc_Server call \<noteq> '''' \<and> CHR ''.'' \<notin> set (tc_Tool call) then tc_Server call @ ''.'' @ tc_Tool call else tc_Tool call) in
     if mt_Tenants m \<noteq> [] \<and> tc_TenantID call \<notin> set (mt_Tenants m) then False
     else if mt_Servers m \<noteq> [] \<and> tc_Server call \<notin> set (mt_Servers m) then False
     else if mt_Tools m \<noteq> [] \<and> \<not> globMatchAny (mt_Tools m) full \<and> \<not> globMatchAny (mt_Tools m) (tc_Tool call) then False
     else if (tr_From (mt_TimeRange m) \<noteq> '''' \<or> tr_To (mt_TimeRange m) \<noteq> '''') \<and>
        \<not> inTimeRange (call_clock call) (tr_From (mt_TimeRange m)) (tr_To (mt_TimeRange m)) then False
     else if mt_ArgsExpr m \<noteq> '''' \<and> \<not> argsExprMatches sprint (mt_ArgsExpr m) (tc_Args call) then False
     else if \<not> profileConditionsMatch m (tc_Profile call) then False
     else governanceConditionsMatch m call)"

subsection \<open>The dry run\<close>

record RuleMatch =
  rm_RuleID :: string
  rm_Priority :: int
  rm_Reason :: string

record DryRunResult =
  dr_MatchedRules :: "RuleMatch list"
  dr_LosingRules :: "RuleMatch list"
  dr_FinalAction :: Actions
  dr_FinalRisk :: string

definition zero_Actions :: Actions where
  "zero_Actions = \<lparr> ac_Allow = False, ac_Deny = False, ac_RequireApproval = False, ac_LogLevel = '''', ac_AnnotateRiskClass = '''',
     ac_RequireProfileMembership = [], ac_DenyOnCacheMiss = False, ac_ForceCacheBypass = False, ac_ClampToCustomerBudget = False \<rparr>"

fun join_comma :: "string list \<Rightarrow> string" where
  "join_comma [] = ''''"
| "join_comma [x] = x"
| "join_comma (x # y # xs) = x @ '', '' @ join_comma (y # xs)"

definition matchReason :: "Rule \<Rightarrow> ToolCallShape \<Rightarrow> string" where
  "matchReason r call =
    (let m = ru_Match r;
         parts = (if mt_Tools m \<noteq> [] then [''tool='' @ tc_Tool call] else []) @
           (if mt_Servers m \<noteq> [] then [''server='' @ tc_Server call] else []) @
           (if mt_Tenants m \<noteq> [] then [''tenant='' @ tc_TenantID call] else []) @
           (if tr_From (mt_TimeRange m) \<noteq> '''' \<or> tr_To (mt_TimeRange m) \<noteq> '''' then [''time-range''] else []) @
           (case tc_Profile call of Some p \<Rightarrow> if mt_Profiles m \<noteq> [] then [''profile='' @ pv_ID p] else [] | None \<Rightarrow> []) @
           (if mt_ProfileIncludesServer m \<noteq> '''' then [''profile-includes-server='' @ mt_ProfileIncludesServer m] else []) @
           (if mt_ProfileIncludesAlias m \<noteq> '''' then [''profile-includes-alias='' @ mt_ProfileIncludesAlias m] else []) in
     if parts = [] then ''default match (no conditions)'' else join_comma parts)"

definition match_of :: "ToolCallShape \<Rightarrow> Rule \<Rightarrow> RuleMatch" where
  "match_of call r = \<lparr> rm_RuleID = ru_ID r, rm_Priority = ru_Priority r, rm_Reason = matchReason r call \<rparr>"

text \<open>\<open>orderedRules\<close>: the insertion sort carries each rule left past the rules that come after it; the part
  already sorted is kept reversed here.\<close>

definition rule_before :: "Rule \<Rightarrow> Rule \<Rightarrow> bool" where
  "rule_before a b \<longleftrightarrow> ru_Priority a < ru_Priority b \<or> (ru_Priority a = ru_Priority b \<and> ru_ID a \<le> ru_ID b)"

fun carry_left :: "Rule \<Rightarrow> Rule list \<Rightarrow> Rule list" where
  "carry_left b [] = [b]"
| "carry_left b (a # as) = (if rule_before a b then b # a # as else a # carry_left b as)"

definition orderedRules :: "Rule list \<Rightarrow> Rule list" where
  "orderedRules rules = rev (fold carry_left rules [])"

definition first_match :: "ToolCallShape \<Rightarrow> Rule \<Rightarrow> DryRunResult \<Rightarrow> DryRunResult" where
  "first_match call r res =
    (let a = ru_Actions r;
         fa = (if ac_RequireProfileMembership a \<noteq> [] \<and> \<not> isMember (tc_Profile call) (ac_RequireProfileMembership a)
               then a \<lparr> ac_Deny := True \<rparr> else a);
         risk = (if ru_RiskClass r \<noteq> '''' then ru_RiskClass r else dr_FinalRisk res);
         risk' = (if ac_AnnotateRiskClass a \<noteq> '''' then ac_AnnotateRiskClass a else risk) in
     res \<lparr> dr_MatchedRules := dr_MatchedRules res @ [match_of call r], dr_FinalAction := fa, dr_FinalRisk := risk' \<rparr>)"

definition later_match :: "ToolCallShape \<Rightarrow> Rule \<Rightarrow> DryRunResult \<Rightarrow> DryRunResult" where
  "later_match call r res =
    (let a = ru_Actions r; fa = dr_FinalAction res;
         logs = (ac_LogLevel a \<noteq> '''' \<and> ac_LogLevel fa = '''');
         stuck = (ac_RequireApproval a \<or> ac_AnnotateRiskClass a \<noteq> '''' \<or> logs);
         fa1 = (if ac_RequireApproval a then fa \<lparr> ac_RequireApproval := True \<rparr> else fa);
         fa2 = (if ac_AnnotateRiskClass a \<noteq> '''' then fa1 \<lparr> ac_AnnotateRiskClass := ac_AnnotateRiskClass a \<rparr> else fa1);
         fa3 = (if logs then fa2 \<lparr> ac_LogLevel := ac_LogLevel a \<rparr> else fa2);
         risk = (if ac_AnnotateRiskClass a \<noteq> '''' then ac_AnnotateRiskClass a else dr_FinalRisk res);
         res1 = res \<lparr> dr_FinalAction := fa3, dr_FinalRisk := risk \<rparr> in
     if stuck then res1 \<lparr> dr_MatchedRules := dr_MatchedRules res @ [match_of call r] \<rparr>
     else res1 \<lparr> dr_LosingRules := dr_LosingRules res @ [match_of call r] \<rparr>)"

definition dry_step :: "(json \<Rightarrow> string) \<Rightarrow> ToolCallShape \<Rightarrow> Rule \<Rightarrow> DryRunResult \<Rightarrow> DryRunResult" where
  "dry_step sprint call r res =
    (if \<not> ru_Enabled r then res
     else if \<not> ruleMatches sprint r call then res
     else if dr_MatchedRules res = [] then first_match call r res
     else later_match call r res)"

definition DryRun :: "(json \<Rightarrow> string) \<Rightarrow> time \<Rightarrow> Rule list \<Rightarrow> ToolCallShape \<Rightarrow> DryRunResult" where
  "DryRun sprint now rules call0 =
    (let call = call0 \<lparr> tc_Now := Some (case tc_Now call0 of None \<Rightarrow> now | Some t \<Rightarrow> t) \<rparr>;
         res = fold (dry_step sprint call) (orderedRules rules)
           \<lparr> dr_MatchedRules = [], dr_LosingRules = [], dr_FinalAction = zero_Actions, dr_FinalRisk = '''' \<rparr> in
     if dr_FinalRisk res = '''' then res \<lparr> dr_FinalRisk := RiskWrite \<rparr> else res)"

subsection \<open>The sort\<close>

definition rule_key :: "Rule \<Rightarrow> int \<times> string" where
  "rule_key r = (ru_Priority r, ru_ID r)"

lemma rule_before_key: "rule_before a b \<longleftrightarrow> rule_key a \<le> rule_key b"
  by (auto simp: rule_before_def rule_key_def less_eq_prod_def)

lemma carry_left_mset [simp]: "mset (carry_left b xs) = add_mset b (mset xs)"
  by (induction xs) auto

lemma carry_left_set [simp]: "set (carry_left b xs) = insert b (set xs)"
  by (induction xs) auto

lemma carry_left_sorted:
  "sorted (map rule_key (rev xs)) \<Longrightarrow> sorted (map rule_key (rev (carry_left b xs)))"
proof (induction xs)
  case (Cons a xs)
  then show ?case by (auto simp: sorted_append rule_before_key)
qed simp

lemma carry_left_filter:
  assumes "sorted (map rule_key (rev xs))"
  shows "filter (\<lambda>x. k = rule_key x) (rev (carry_left b xs)) = filter (\<lambda>x. k = rule_key x) (rev xs @ [b])"
  using assms
proof (induction xs)
  case (Cons a xs)
  then show ?case by (auto simp: sorted_append rule_before_key filter_empty_conv)
qed simp

lemma ordered_fold:
  assumes "sorted (map rule_key (rev acc))"
  shows "sorted (map rule_key (rev (fold carry_left xs acc))) \<and> mset (fold carry_left xs acc) = mset xs + mset acc \<and>
    filter (\<lambda>x. k = rule_key x) (rev (fold carry_left xs acc)) = filter (\<lambda>x. k = rule_key x) (rev acc @ xs)"
  using assms
proof (induction xs arbitrary: acc)
  case (Cons x xs)
  from Cons.IH [OF carry_left_sorted [OF Cons.prems, of x]] carry_left_filter [OF Cons.prems, of k x]
  show ?case by auto
qed simp

lemma orderedRules_sort: "orderedRules rules = sort_key rule_key rules"
proof (rule properties_for_sort_key [symmetric])
  show "mset (orderedRules rules) = mset rules" using ordered_fold [of "[]" rules] by (simp add: orderedRules_def)
  show "filter (\<lambda>x. rule_key k = rule_key x) (orderedRules rules) = filter (\<lambda>x. rule_key k = rule_key x) rules" for k
    using ordered_fold [of "[]" rules "rule_key k"] by (simp add: orderedRules_def)
  show "sorted (map rule_key (orderedRules rules))" using ordered_fold [of "[]" rules] by (simp add: orderedRules_def)
qed

subsection \<open>What a dry run decides\<close>

text \<open>The rules that apply to a call, most important first.\<close>

definition applying :: "(json \<Rightarrow> string) \<Rightarrow> ToolCallShape \<Rightarrow> Rule list \<Rightarrow> Rule list" where
  "applying sprint call rules = filter (\<lambda>r. ru_Enabled r \<and> ruleMatches sprint r call) (sort_key rule_key rules)"

fun first_text :: "string list \<Rightarrow> string" where
  "first_text [] = ''''"
| "first_text (x # xs) = (if x \<noteq> '''' then x else first_text xs)"

definition log_levels :: "Rule list \<Rightarrow> string list" where
  "log_levels rs = map (ac_LogLevel \<circ> ru_Actions) rs"

definition annotations :: "Rule list \<Rightarrow> string list" where
  "annotations rs = map (ac_AnnotateRiskClass \<circ> ru_Actions) rs"

text \<open>The verdict: the first rule decides on allow and deny, any rule asks for approval, the first log level and the last
  annotation hold.\<close>

definition verdict :: "ToolCallShape \<Rightarrow> Rule list \<Rightarrow> Actions \<times> string" where
  "verdict call rs = (case rs of [] \<Rightarrow> (zero_Actions, RiskWrite)
     | w # rest \<Rightarrow>
        let a = ru_Actions w; note_text = first_text (rev (annotations rs)) in
        (a \<lparr> ac_Deny := ac_Deny a \<or> ac_RequireProfileMembership a \<noteq> [] \<and> \<not> isMember (tc_Profile call) (ac_RequireProfileMembership a),
             ac_RequireApproval := list_ex (\<lambda>r. ac_RequireApproval (ru_Actions r)) rs,
             ac_LogLevel := first_text (log_levels rs), ac_AnnotateRiskClass := note_text \<rparr>,
         if note_text \<noteq> '''' then note_text else if ru_RiskClass w \<noteq> '''' then ru_RiskClass w else RiskWrite))"

lemma first_text_append: "first_text (xs @ ys) = (if first_text xs \<noteq> '''' then first_text xs else first_text ys)"
  by (induction xs) auto

lemma later_fields:
  "dr_FinalRisk (later_match call r res) = (if ac_AnnotateRiskClass (ru_Actions r) \<noteq> '''' then ac_AnnotateRiskClass (ru_Actions r) else dr_FinalRisk res)"
  "dr_FinalAction (later_match call r res) = (dr_FinalAction res) \<lparr>
     ac_RequireApproval := ac_RequireApproval (dr_FinalAction res) \<or> ac_RequireApproval (ru_Actions r),
     ac_LogLevel := first_text [ac_LogLevel (dr_FinalAction res), ac_LogLevel (ru_Actions r)],
     ac_AnnotateRiskClass := first_text [ac_AnnotateRiskClass (ru_Actions r), ac_AnnotateRiskClass (dr_FinalAction res)] \<rparr>"
  "mset (dr_MatchedRules (later_match call r res) @ dr_LosingRules (later_match call r res)) =
     mset (dr_MatchedRules res @ dr_LosingRules res @ [match_of call r])"
  by (simp_all add: later_match_def Let_def)

lemma later_nonempty: "dr_MatchedRules res \<noteq> [] \<Longrightarrow> dr_MatchedRules (later_match call r res) \<noteq> []"
  by (simp add: later_match_def Let_def)

lemma fold_later:
  "fold (later_match call) rs res = res' \<Longrightarrow>
    dr_FinalRisk res' = first_text (rev (annotations rs) @ [dr_FinalRisk res]) \<and>
    dr_FinalAction res' = (dr_FinalAction res) \<lparr>
      ac_RequireApproval := ac_RequireApproval (dr_FinalAction res) \<or> list_ex (\<lambda>r. ac_RequireApproval (ru_Actions r)) rs,
      ac_LogLevel := first_text (ac_LogLevel (dr_FinalAction res) # log_levels rs),
      ac_AnnotateRiskClass := first_text (rev (annotations rs) @ [ac_AnnotateRiskClass (dr_FinalAction res)]) \<rparr> \<and>
    mset (dr_MatchedRules res' @ dr_LosingRules res') = mset (dr_MatchedRules res @ dr_LosingRules res @ map (match_of call) rs)"
proof (induction rs arbitrary: res)
  case (Cons r rs)
  from Cons.IH [of "later_match call r res"] Cons.prems later_fields(3) [of call r res] show ?case
    by (auto simp: later_fields(1,2) annotations_def log_levels_def first_text_append)
qed (simp add: annotations_def log_levels_def)

lemma dry_filter:
  "fold (dry_step sprint call) rs res =
    fold (\<lambda>r res. if dr_MatchedRules res = [] then first_match call r res else later_match call r res)
      (filter (\<lambda>r. ru_Enabled r \<and> ruleMatches sprint r call) rs) res"
  by (induction rs arbitrary: res) (auto simp: dry_step_def)

lemma fold_nonempty:
  "dr_MatchedRules res \<noteq> [] \<Longrightarrow>
    fold (\<lambda>r res. if dr_MatchedRules res = [] then first_match call r res else later_match call r res) rs res =
    fold (later_match call) rs res"
  by (induction rs arbitrary: res) (simp_all add: later_nonempty)

lemma dry_run_verdict:
  fixes sprint now call0 rules
  defines "call \<equiv> call0 \<lparr> tc_Now := Some (case tc_Now call0 of None \<Rightarrow> now | Some t \<Rightarrow> t) \<rparr>"
  shows "(dr_FinalAction (DryRun sprint now rules call0), dr_FinalRisk (DryRun sprint now rules call0)) =
      verdict call (applying sprint call rules) \<and>
    mset (dr_MatchedRules (DryRun sprint now rules call0) @ dr_LosingRules (DryRun sprint now rules call0)) =
      mset (map (match_of call) (applying sprint call rules))"
proof -
  let ?rs = "applying sprint call rules"
  let ?z = "\<lparr> dr_MatchedRules = [], dr_LosingRules = [], dr_FinalAction = zero_Actions, dr_FinalRisk = '''' \<rparr>"
  define res where "res = fold (dry_step sprint call) (orderedRules rules) ?z"
  have D: "DryRun sprint now rules call0 = (if dr_FinalRisk res = '''' then res \<lparr> dr_FinalRisk := RiskWrite \<rparr> else res)"
    by (simp add: DryRun_def res_def call_def Let_def)
  have r: "res = fold (\<lambda>r res. if dr_MatchedRules res = [] then first_match call r res else later_match call r res) ?rs ?z"
    unfolding res_def dry_filter orderedRules_sort applying_def ..
  show ?thesis
  proof (cases ?rs)
    case Nil
    then show ?thesis using r D by (simp add: verdict_def)
  next
    case (Cons w rest)
    define r1 where "r1 = first_match call w ?z"
    have ne: "dr_MatchedRules r1 \<noteq> []" by (simp add: r1_def first_match_def Let_def)
    have "fold (later_match call) rest r1 = res" using r Cons fold_nonempty [OF ne, of call rest] by (simp add: r1_def)
    note f = fold_later [OF this]
    have r1: "dr_FinalRisk r1 = first_text [ac_AnnotateRiskClass (ru_Actions w), ru_RiskClass w]"
        "dr_FinalAction r1 = (ru_Actions w) \<lparr> ac_Deny := ac_Deny (ru_Actions w) \<or> ac_RequireProfileMembership (ru_Actions w) \<noteq> [] \<and>
           \<not> isMember (tc_Profile call) (ac_RequireProfileMembership (ru_Actions w)) \<rparr>"
        "dr_MatchedRules r1 = [match_of call w]" "dr_LosingRules r1 = []"
      by (auto simp: r1_def first_match_def Let_def)
    have "dr_FinalAction (DryRun sprint now rules call0) = dr_FinalAction res"
        "dr_MatchedRules (DryRun sprint now rules call0) = dr_MatchedRules res" "dr_LosingRules (DryRun sprint now rules call0) = dr_LosingRules res"
        "dr_FinalRisk (DryRun sprint now rules call0) = (if dr_FinalRisk res = '''' then RiskWrite else dr_FinalRisk res)"
      by (simp_all add: D)
    then show ?thesis using f unfolding Cons r1
      by (simp add: verdict_def Let_def annotations_def log_levels_def first_text_append)
  qed
qed

lemma sort_same_rules:
  assumes "mset rules' = mset rules" "distinct (map rule_key rules)"
  shows "sort_key rule_key rules' = sort_key rule_key rules"
proof (rule sort_key_inj_key_eq [symmetric])
  show "inj_on rule_key (set rules)" using assms(2) by (simp add: distinct_map)
qed (simp_all add: assms(1))

text \<open>Two consequences the documentation states otherwise.  A rule that only annotates still is the first match: behind
  it no other rule's verdict counts, a denial included.  And of the modifiers (deny on a cache miss, cache bypass, clamp to
  the customer's budget) only those of the first match survive.\<close>

lemma annotation_only_wins:
  fixes sprint now call0 rules
  defines "call \<equiv> call0 \<lparr> tc_Now := Some (case tc_Now call0 of None \<Rightarrow> now | Some t \<Rightarrow> t) \<rparr>"
  assumes "applying sprint call rules = w # rest" and "\<not> ac_Allow (ru_Actions w)" and "\<not> ac_Deny (ru_Actions w)"
    and "ac_RequireProfileMembership (ru_Actions w) = []"
  shows "\<not> ac_Allow (dr_FinalAction (DryRun sprint now rules call0)) \<and> \<not> ac_Deny (dr_FinalAction (DryRun sprint now rules call0))"
  using dry_run_verdict [of sprint now rules call0] assms(2-5) unfolding call_def
  by (simp add: verdict_def Let_def)

lemma later_modifiers_dropped:
  fixes sprint now call0 rules
  defines "call \<equiv> call0 \<lparr> tc_Now := Some (case tc_Now call0 of None \<Rightarrow> now | Some t \<Rightarrow> t) \<rparr>"
    and "fa \<equiv> dr_FinalAction (DryRun sprint now rules call0)"
  assumes "applying sprint call rules = w # rest"
  shows "ac_DenyOnCacheMiss fa = ac_DenyOnCacheMiss (ru_Actions w) \<and> ac_ForceCacheBypass fa = ac_ForceCacheBypass (ru_Actions w) \<and>
    ac_ClampToCustomerBudget fa = ac_ClampToCustomerBudget (ru_Actions w)"
  using dry_run_verdict [of sprint now rules call0] assms(3) unfolding call_def fa_def
  by (simp add: verdict_def Let_def)

text \<open>C12: a dry run is decided by the rules that are enabled and match the call, by priority and then id: the first of
  them decides on allow and deny (a required profile membership that fails denies), approval is required when any of them
  asks for it, the first log level and the last annotation hold, the other actions are those of the first, and each of them
  is reported once as matched or losing.  The first of them decides even if it only annotates, and modifiers of later
  rules are dropped.
  The order in which the rules are given does not matter.\<close>

theorem dry_run_decides:
  fixes sprint now call0
  defines "call \<equiv> call0 \<lparr> tc_Now := Some (case tc_Now call0 of None \<Rightarrow> now | Some t \<Rightarrow> t) \<rparr>"
  assumes "mset rules' = mset rules" and "distinct (map rule_key rules)"
  shows "DryRun sprint now rules' call0 = DryRun sprint now rules call0 \<and>
    (dr_FinalAction (DryRun sprint now rules call0), dr_FinalRisk (DryRun sprint now rules call0)) =
      verdict call (applying sprint call rules) \<and>
    mset (dr_MatchedRules (DryRun sprint now rules call0) @ dr_LosingRules (DryRun sprint now rules call0)) =
      mset (map (match_of call) (applying sprint call rules))"
proof -
  have "DryRun sprint now rules' call0 = DryRun sprint now rules call0"
    unfolding DryRun_def orderedRules_sort sort_same_rules [OF assms(2,3)] ..
  with dry_run_verdict [of sprint now rules call0] show ?thesis unfolding call_def by blast
qed

definition any_match :: Match where
  "any_match = \<lparr> mt_Tools = [], mt_Servers = [], mt_Tenants = [], mt_ArgsExpr = '''', mt_TimeRange = \<lparr> tr_From = '''', tr_To = '''' \<rparr>,
     mt_Profiles = [], mt_ProfileIncludesServer = '''', mt_ProfileIncludesAlias = '''', mt_VKs = [], mt_VKScopes = [], mt_VKTeam = '''',
     mt_VKCustomer = '''', mt_CacheWouldHit = None, mt_BudgetHeadroomBelowPct = None \<rparr>"

definition demo_rule :: "string \<Rightarrow> int \<Rightarrow> Match \<Rightarrow> Actions \<Rightarrow> Rule" where
  "demo_rule i p m a = \<lparr> ru_ID = i, ru_Priority = p, ru_Enabled = True, ru_RiskClass = '''', ru_Match = m, ru_Actions = a,
     ru_Notes = '''', ru_UpdatedAt = None, ru_UpdatedBy = '''' \<rparr>"

definition demo_call :: ToolCallShape where
  "demo_call = \<lparr> tc_TenantID = ''acme'', tc_Server = ''github'', tc_Tool = ''delete_repo'', tc_Args = [], tc_Now = Some 0,
     tc_Profile = None, tc_VK = None, tc_CacheWouldHit = None, tc_LowestHeadroomPct = None \<rparr>"

definition demo_rules :: "Rule list" where
  "demo_rules = [demo_rule ''allow-all'' 100 any_match (zero_Actions \<lparr> ac_Allow := True, ac_RequireApproval := True \<rparr>),
     demo_rule ''no-github'' 10 (any_match \<lparr> mt_Servers := [''github''] \<rparr>) (zero_Actions \<lparr> ac_Deny := True \<rparr>)]"

theorem dry_run_decides_witness:
  "DryRun (\<lambda>_. '''') 0 (rev demo_rules) demo_call = DryRun (\<lambda>_. '''') 0 demo_rules demo_call \<and>
   ac_Deny (dr_FinalAction (DryRun (\<lambda>_. '''') 0 demo_rules demo_call)) \<and> \<not> ac_Allow (dr_FinalAction (DryRun (\<lambda>_. '''') 0 demo_rules demo_call)) \<and>
   ac_RequireApproval (dr_FinalAction (DryRun (\<lambda>_. '''') 0 demo_rules demo_call))"
proof -
  have d: "distinct (map rule_key demo_rules)" by (simp add: demo_rules_def demo_rule_def rule_key_def)
  have c: "demo_call \<lparr> tc_Now := Some (case tc_Now demo_call of None \<Rightarrow> 0 | Some t \<Rightarrow> t) \<rparr> = demo_call" by (simp add: demo_call_def)
  have s: "applying (\<lambda>_. '''') demo_call demo_rules = rev demo_rules"
    by (simp add: applying_def demo_rules_def demo_rule_def rule_key_def ruleMatches_def demo_call_def any_match_def
        profileConditionsMatch_def governanceConditionsMatch_def vkConditionsMatch_def cacheBudgetConditionsMatch_def Let_def)
  from dry_run_decides [OF _ d, of "rev demo_rules" "\<lambda>_. ''''" 0 demo_call] show ?thesis
    unfolding c s by (simp add: verdict_def demo_rules_def demo_rule_def zero_Actions_def Let_def)
qed

text \<open>A rule that only sets a log level shields the call from the denial behind it.\<close>

lemma annotation_rule_shields:
  "\<not> ac_Deny (dr_FinalAction (DryRun (\<lambda>_. '''') 0
      (demo_rule ''log-all'' 1 any_match (zero_Actions \<lparr> ac_LogLevel := ''debug'' \<rparr>) # demo_rules) demo_call))"
proof -
  let ?log = "demo_rule ''log-all'' 1 any_match (zero_Actions \<lparr> ac_LogLevel := ''debug'' \<rparr>)"
  have c: "demo_call \<lparr> tc_Now := Some (case tc_Now demo_call of None \<Rightarrow> 0 | Some t \<Rightarrow> t) \<rparr> = demo_call" by (simp add: demo_call_def)
  have "applying (\<lambda>_. '''') demo_call (?log # demo_rules) = ?log # rev demo_rules"
    by (simp add: applying_def demo_rules_def demo_rule_def rule_key_def ruleMatches_def demo_call_def any_match_def
        profileConditionsMatch_def governanceConditionsMatch_def vkConditionsMatch_def cacheBudgetConditionsMatch_def Let_def)
  then show ?thesis
    using annotation_only_wins [of "\<lambda>_. ''''" 0 demo_call "?log # demo_rules" ?log "rev demo_rules"]
    unfolding c by (simp add: demo_rule_def zero_Actions_def)
qed

subsection \<open>Time ranges\<close>

definition dec_digit :: "char \<Rightarrow> bool" where
  "dec_digit c \<longleftrightarrow> c \<in> set ''0123456789''"

text \<open>A clock written with two digits each.\<close>

definition clock_text :: "string \<Rightarrow> nat \<Rightarrow> nat \<Rightarrow> bool" where
  "clock_text s h m \<longleftrightarrow> m < 60 \<and> (\<exists>a b c d. s = [a, b, CHR '':'', c, d] \<and> dec_digit a \<and> dec_digit b \<and> dec_digit c \<and> dec_digit d \<and>
     h = 10 * digit_val a + digit_val b \<and> m = 10 * digit_val c + digit_val d)"

lemma digit_order:
  "list_all (\<lambda>a. digit_val a < 10 \<and> list_all (\<lambda>b. (a < b \<longleftrightarrow> digit_val a < digit_val b) \<and> (a = b \<longleftrightarrow> digit_val a = digit_val b)) ''0123456789'') ''0123456789''"
  by code_simp

lemma digit_cmp:
  assumes "dec_digit a" "dec_digit b"
  shows "a < b \<longleftrightarrow> digit_val a < digit_val b" "a = b \<longleftrightarrow> digit_val a = digit_val b"
  using digit_order assms unfolding list_all_iff dec_digit_def by blast+

lemma digit_bound: "dec_digit a \<Longrightarrow> digit_val a < 10"
  using digit_order unfolding list_all_iff dec_digit_def by blast

lemma clock_le:
  assumes "clock_text s h m" "clock_text s' h' m'"
  shows "s \<le> s' \<longleftrightarrow> 60 * h + m \<le> 60 * h' + m'"
proof -
  obtain a b c d where s: "s = [a, b, CHR '':'', c, d]" "dec_digit a" "dec_digit b" "dec_digit c" "dec_digit d"
      "h = 10 * digit_val a + digit_val b" "m = 10 * digit_val c + digit_val d" "m < 60"
    using assms(1) unfolding clock_text_def by blast
  obtain a' b' c' d' where s': "s' = [a', b', CHR '':'', c', d']" "dec_digit a'" "dec_digit b'" "dec_digit c'" "dec_digit d'"
      "h' = 10 * digit_val a' + digit_val b'" "m' = 10 * digit_val c' + digit_val d'" "m' < 60"
    using assms(2) unfolding clock_text_def by blast
  have "s \<le> s' \<longleftrightarrow> a < a' \<or> a = a' \<and> (b < b' \<or> b = b' \<and> (c < c' \<or> c = c' \<and> (d < d' \<or> d = d')))"
    unfolding s(1) s'(1) by (simp only: Cons_le_Cons Nil_le_Cons simp_thms less_irrefl)
  then show ?thesis
    using s(6,7,8) s'(6,7,8) digit_bound [OF s(3)] digit_bound [OF s(5)] digit_bound [OF s'(3)] digit_bound [OF s'(5)]
    unfolding digit_cmp [OF s(2) s'(2)] digit_cmp [OF s(3) s'(3)] digit_cmp [OF s(4) s'(4)] digit_cmp [OF s(5) s'(5)]
    by linarith
qed

lemma two_digits:
  assumes "0 \<le> i" "i < 100"
  shows "\<exists>a b. pad_to 2 (dec_int i) = [a, b] \<and> dec_digit a \<and> dec_digit b \<and> nat i = 10 * digit_val a + digit_val b"
proof -
  let ?s = "pad_to 2 (dec_int i)"
  have "list_all (\<lambda>n. length (pad_to 2 (dec_nat n)) = 2) [0..<100]" by code_simp
  then have "length ?s = 2" using assms by (simp add: list_all_iff dec_int_def)
  then obtain a b where ab: "?s = [a, b]" by (auto simp: numeral_2_eq_2 length_Suc_conv)
  have "read_dec ?s = nat i" using assms by (simp add: pad_to_def read_dec_zeros dec_int_def read_dec_nat)
  moreover have "set ?s \<subseteq> set ''0123456789''" by (rule pad_dec_digits [OF assms(1)])
  ultimately show ?thesis using ab by (simp add: read_dec_def dec_digit_def)
qed

definition minute_of_day :: "time \<Rightarrow> nat" where
  "minute_of_day t = nat (t mod day24 div minute)"

lemma split_div_mod:
  assumes "0 < (M::int)"
  shows "u mod (60 * M) div M = u div M mod 60" "u div (60 * M) = u div M div 60"
proof -
  have "u mod (M * 60) = M * (u div M mod 60) + u mod M" using assms by (simp add: zmod_zmult2_eq)
  moreover have "u mod M div M = 0" using assms by simp
  ultimately show "u mod (60 * M) div M = u div M mod 60" using assms by (simp add: mult.commute)
  show "u div (60 * M) = u div M div 60" using assms by (simp add: zdiv_zmult2_eq mult.commute [of 60])
qed

lemma clock_of_time: "\<exists>h m. clock_text (hhmm t) h m \<and> minute_of_day t = 60 * h + m"
proof -
  define x where "x = t mod day24 div minute"
  have c: "day24 = 24 * hour" "hour = 60 * minute" "0 < minute" by (simp_all add: day24_def hour_def minute_def second_def)
  have x: "0 \<le> x" "x < 1440"
  proof -
    have d: "0 < day24" using c by simp
    have u: "0 \<le> t mod day24" "t mod day24 < 1440 * minute"
      using pos_mod_bound [OF d, of t] pos_mod_sign [OF d, of t] c(1,2) by linarith+
    show "0 \<le> x" using u(1) c(3) by (simp add: x_def pos_imp_zdiv_nonneg_iff)
    have "x * minute \<le> t mod day24"
      using div_mult_mod_eq [of "t mod day24" minute] pos_mod_sign [OF c(3), of "t mod day24"] unfolding x_def by linarith
    with u(2) have "x * minute < 1440 * minute" by linarith
    then show "x < 1440" using c(3) by (simp only: mult_less_cancel_right_pos)
  qed
  have "t mod day24 div hour = x div 60" using split_div_mod(2) [OF c(3), of "t mod day24"] c(2) by (simp add: x_def)
  moreover have "t mod hour = t mod day24 mod hour" unfolding c(1) by (simp add: mod_mod_cancel)
  then have "t mod hour div minute = x mod 60" using split_div_mod(1) [OF c(3), of "t mod day24"] c(2) by (simp add: x_def)
  ultimately have hm: "hhmm t = pad_to 2 (dec_int (x div 60)) @ '':'' @ pad_to 2 (dec_int (x mod 60))" by (simp add: hhmm_def)
  have d60: "0 \<le> x div 60" "x div 60 < 100" "0 \<le> x mod 60" "x mod 60 < 100" using x by linarith+
  obtain a b where ab: "pad_to 2 (dec_int (x div 60)) = [a, b]" "dec_digit a" "dec_digit b" "nat (x div 60) = 10 * digit_val a + digit_val b"
    using two_digits [of "x div 60"] d60 by blast
  obtain c d where cd: "pad_to 2 (dec_int (x mod 60)) = [c, d]" "dec_digit c" "dec_digit d" "nat (x mod 60) = 10 * digit_val c + digit_val d"
    using two_digits [of "x mod 60"] d60 by blast
  have "clock_text (hhmm t) (nat (x div 60)) (nat (x mod 60))"
    unfolding clock_text_def hm ab(1) cd(1) using ab cd by (auto simp: nat_less_iff)
  moreover have "minute_of_day t = 60 * nat (x div 60) + nat (x mod 60)"
  proof -
    have "int (60 * nat (x div 60) + nat (x mod 60)) = x" using d60 by simp
    then show ?thesis unfolding minute_of_day_def x_def [symmetric] by linarith
  qed
  ultimately show ?thesis by blast
qed

text \<open>With both ends written as two digits each, a time range holds exactly the minutes of the day from its first to its
  last, over midnight when the first is later than the last; an end left out is the end of the day.\<close>

theorem time_range_exact:
  assumes "fromStr = '''' \<and> h = 0 \<and> m = 0 \<or> clock_text fromStr h m" and "toStr = '''' \<and> h' = 23 \<and> m' = 59 \<or> clock_text toStr h' m'"
  shows "inTimeRange now fromStr toStr \<longleftrightarrow>
    (let a = 60 * h + m; b = 60 * h' + m'; x = minute_of_day now in
     if a \<le> b then a \<le> x \<and> x \<le> b else a \<le> x \<or> x \<le> b)"
proof -
  have ends: "clock_text ''00:00'' 0 0" "clock_text ''23:59'' 23 59"
    by (simp_all add: clock_text_def dec_digit_def digit_val_def byte_of_def)
  have f: "clock_text (if fromStr = '''' then ''00:00'' else fromStr) h m"
    using assms(1) ends(1) by (auto simp: clock_text_def)
  have t: "clock_text (if toStr = '''' then ''23:59'' else toStr) h' m'"
    using assms(2) ends(2) by (auto simp: clock_text_def)
  obtain ch cm where n: "clock_text (hhmm now) ch cm" "minute_of_day now = 60 * ch + cm" using clock_of_time by blast
  show ?thesis
    unfolding inTimeRange_def Let_def clock_le [OF f t] clock_le [OF f n(1)] clock_le [OF n(1) t] n(2) ..
qed

theorem time_range_exact_witness:
  "\<not> inTimeRange (12 * hour) ''22:00'' ''06:00'' \<and> inTimeRange (23 * hour) ''22:00'' ''06:00''"
proof -
  have "clock_text ''22:00'' 22 0" "clock_text ''06:00'' 6 0"
    by (simp_all add: clock_text_def dec_digit_def digit_val_def byte_of_def)
  moreover have "minute_of_day (12 * hour) = 720" "minute_of_day (23 * hour) = 1380" by code_simp+
  ultimately show ?thesis
    using time_range_exact [of "''22:00''" 22 0 "''06:00''" 6 0] by (simp add: Let_def)
qed

text \<open>A range from 9:30 to 17:00 passes the validation, and then holds at 3 in the morning.\<close>

lemma one_digit_hour:
  "Validate (demo_rule ''r'' 1 (any_match \<lparr> mt_TimeRange := \<lparr> tr_From = ''9:30'', tr_To = ''17:00'' \<rparr> \<rparr>) zero_Actions) = None"
  "inTimeRange (3 * hour) ''9:30'' ''17:00''"
proof -
  have "parse_clock ''9:30'' = Some (9, 30)" "parse_clock ''17:00'' = Some (17, 0)" by code_simp+
  then show "Validate (demo_rule ''r'' 1 (any_match \<lparr> mt_TimeRange := \<lparr> tr_From = ''9:30'', tr_To = ''17:00'' \<rparr> \<rparr>) zero_Actions) = None"
    by (simp add: Validate_def demo_rule_def any_match_def zero_Actions_def Let_def)
  have "hhmm (3 * hour) = ''03:00''" "\<not> ''9:30'' \<le> ''17:00''" "''03:00'' \<le> ''17:00''" by code_simp+
  then show "inTimeRange (3 * hour) ''9:30'' ''17:00''" by (simp add: inTimeRange_def)
qed

end
