(* ===== verification/Rule_Store.thy ===== *)
theory Rule_Store
  imports Policy_Rules Sql_Rows
begin

text \<open>
  The policy rule store: \<open>internal/storage/sqlite/policy_rules_store.go\<close> (rows by tenant and rule id) and
  \<open>internal/policy/store.go\<close> (validation in front of the writes, a change feed behind them).  The
  canonical JSON of conditions and actions is what it decodes to; \<open>ru_fault\<close> stands for a failing
  database.  The feed is one bounded buffer per watcher.
\<close>

subsection \<open>Rows\<close>

type_synonym rule_row = "string \<times> Rule"

definition row_key :: "rule_row \<Rightarrow> string \<times> string" where
  "row_key x = (fst x, ru_ID (snd x))"

definition dated :: "time \<Rightarrow> Rule \<Rightarrow> Rule" where
  "dated now r = r \<lparr> ru_UpdatedAt := Some (case ru_UpdatedAt r of None \<Rightarrow> now | Some t \<Rightarrow> t) \<rparr>"

text \<open>The column keeps milliseconds.\<close>

definition stored_rule :: "time \<Rightarrow> Rule \<Rightarrow> Rule" where
  "stored_rule now r = r \<lparr> ru_UpdatedAt := Some (to_ms (case ru_UpdatedAt r of None \<Rightarrow> now | Some t \<Rightarrow> t)) \<rparr>"

definition rows_List :: "bool \<Rightarrow> rule_row list \<Rightarrow> string \<Rightarrow> (store_error, Rule list) result" where
  "rows_List fault rows tenantID =
    (if fault then Inl ErrSQL
     else Inr (sort_key rule_key (map snd (filter (\<lambda>x. fst x = tenantID) rows))))"

definition rows_Get :: "bool \<Rightarrow> rule_row list \<Rightarrow> string \<Rightarrow> string \<Rightarrow> (store_error, Rule) result" where
  "rows_Get fault rows tenantID ruleID =
    (if fault then Inl ErrSQL
     else case get_row row_key (tenantID, ruleID) rows of None \<Rightarrow> Inl ErrNotFound | Some x \<Rightarrow> Inr (snd x))"

definition rows_Upsert :: "bool \<Rightarrow> time \<Rightarrow> string \<Rightarrow> Rule \<Rightarrow> rule_row list \<Rightarrow> (store_error, rule_row list) result" where
  "rows_Upsert fault now tenantID r rows =
    (if tenantID = '''' \<or> ru_ID r = '''' then Inl ErrArgs
     else if fault then Inl ErrSQL
     else
       let x = (tenantID, stored_rule now r) in
       Inr (if get_row row_key (row_key x) rows = None then rows @ [x] else update_row row_key (row_key x) (\<lambda>_. x) rows))"

definition rows_Delete :: "bool \<Rightarrow> string \<Rightarrow> string \<Rightarrow> rule_row list \<Rightarrow> (store_error, rule_row list) result" where
  "rows_Delete fault tenantID ruleID rows =
    (if fault then Inl ErrSQL
     else if get_row row_key (tenantID, ruleID) rows = None then Inl ErrNotFound
     else Inr (delete_row row_key (tenantID, ruleID) rows))"

text \<open>The transaction of \<open>ReplaceAll\<close>: a repeated id violates the primary key and rolls everything back.\<close>

fun insert_rules :: "time \<Rightarrow> string \<Rightarrow> Rule list \<Rightarrow> rule_row list \<Rightarrow> (store_error, rule_row list) result" where
  "insert_rules now tenantID [] rows = Inr rows"
| "insert_rules now tenantID (r # rs) rows =
    (if get_row row_key (tenantID, ru_ID r) rows \<noteq> None then Inl ErrSQL
     else insert_rules now tenantID rs (rows @ [(tenantID, stored_rule now r)]))"

definition rows_ReplaceAll :: "bool \<Rightarrow> time \<Rightarrow> string \<Rightarrow> Rule list \<Rightarrow> rule_row list \<Rightarrow> (store_error, rule_row list) result" where
  "rows_ReplaceAll fault now tenantID rules rows =
    (if fault then Inl ErrSQL
     else insert_rules now tenantID rules (filter (\<lambda>x. fst x \<noteq> tenantID) rows))"

subsection \<open>The store\<close>

datatype rule_op_kind = OpUpsert | OpDelete | OpReplace

record RuleChange =
  rc_Tenant :: string
  rc_RuleID :: string
  rc_Op :: rule_op_kind
  rc_At :: time

record RuleStore =
  ru_fault :: bool
  ru_rows :: "rule_row list"
  ru_subs :: "(nat, RuleChange list) amap"
  ru_next :: nat

datatype rule_store_error = RuleInvalid rule_error | RuleStoreErr store_error

definition watch_size :: nat where "watch_size = 16"

text \<open>A send on a full channel drops its oldest element first.\<close>

definition offer :: "RuleChange \<Rightarrow> RuleChange list \<Rightarrow> RuleChange list" where
  "offer ev buf = (if length buf < watch_size then buf @ [ev] else tl buf @ [ev])"

definition rule_publish :: "RuleChange \<Rightarrow> RuleStore \<Rightarrow> RuleStore" where
  "rule_publish ev s = s \<lparr> ru_subs := map (\<lambda>(c, buf). (c, offer ev buf)) (ru_subs s) \<rparr>"

definition rule_List :: "RuleStore \<Rightarrow> string \<Rightarrow> (store_error, Rule list) result" where
  "rule_List s tenantID = rows_List (ru_fault s) (ru_rows s) tenantID"

definition rule_Get :: "RuleStore \<Rightarrow> string \<Rightarrow> string \<Rightarrow> (store_error, Rule) result" where
  "rule_Get s tenantID ruleID = rows_Get (ru_fault s) (ru_rows s) tenantID ruleID"

definition rule_Upsert :: "time \<Rightarrow> string \<Rightarrow> Rule \<Rightarrow> RuleStore \<Rightarrow> (rule_store_error, Rule) result \<times> RuleStore" where
  "rule_Upsert now tenantID r s =
    (case Validate r of
       Some e \<Rightarrow> (Inl (RuleInvalid e), s)
     | None \<Rightarrow>
         let r' = dated now r in
         case rows_Upsert (ru_fault s) now tenantID r' (ru_rows s) of
           Inl e \<Rightarrow> (Inl (RuleStoreErr e), s)
         | Inr rows \<Rightarrow>
             (Inr r', rule_publish \<lparr> rc_Tenant = tenantID, rc_RuleID = ru_ID r, rc_Op = OpUpsert, rc_At = now \<rparr> (s \<lparr> ru_rows := rows \<rparr>)))"

definition rule_Delete :: "time \<Rightarrow> string \<Rightarrow> string \<Rightarrow> RuleStore \<Rightarrow> rule_store_error option \<times> RuleStore" where
  "rule_Delete now tenantID ruleID s =
    (case rows_Delete (ru_fault s) tenantID ruleID (ru_rows s) of
       Inl e \<Rightarrow> (Some (RuleStoreErr e), s)
     | Inr rows \<Rightarrow>
         (None, rule_publish \<lparr> rc_Tenant = tenantID, rc_RuleID = ruleID, rc_Op = OpDelete, rc_At = now \<rparr> (s \<lparr> ru_rows := rows \<rparr>)))"

definition rule_ReplaceAll :: "time \<Rightarrow> string \<Rightarrow> Rule list \<Rightarrow> RuleStore \<Rightarrow> rule_store_error option \<times> RuleStore" where
  "rule_ReplaceAll now tenantID rules s =
    (case List.find (\<lambda>r. Validate r \<noteq> None) rules of
       Some r \<Rightarrow> (Some (RuleInvalid (the (Validate r))), s)
     | None \<Rightarrow>
         (case rows_ReplaceAll (ru_fault s) now tenantID (map (dated now) rules) (ru_rows s) of
            Inl e \<Rightarrow> (Some (RuleStoreErr e), s)
          | Inr rows \<Rightarrow>
              (None, rule_publish \<lparr> rc_Tenant = tenantID, rc_RuleID = '''', rc_Op = OpReplace, rc_At = now \<rparr> (s \<lparr> ru_rows := rows \<rparr>))))"

definition rule_Watch :: "RuleStore \<Rightarrow> nat \<times> RuleStore" where
  "rule_Watch s = (ru_next s, s \<lparr> ru_subs := ru_subs s @ [(ru_next s, [])], ru_next := Suc (ru_next s) \<rparr>)"

definition rule_Unwatch :: "nat \<Rightarrow> RuleStore \<Rightarrow> RuleStore" where
  "rule_Unwatch c s = s \<lparr> ru_subs := adel c (ru_subs s) \<rparr>"


subsection \<open>Every history keeps valid, ordered rule sets\<close>

datatype rule_op =
    RUpsert time string Rule
  | RDelete time string string
  | RReplace time string "Rule list"
  | RWatch
  | RUnwatch nat

fun rule_exec :: "rule_op \<Rightarrow> RuleStore \<Rightarrow> RuleStore" where
  "rule_exec (RUpsert now t r) s = snd (rule_Upsert now t r s)"
| "rule_exec (RDelete now t i) s = snd (rule_Delete now t i s)"
| "rule_exec (RReplace now t rs) s = snd (rule_ReplaceAll now t rs s)"
| "rule_exec RWatch s = snd (rule_Watch s)"
| "rule_exec (RUnwatch c) s = rule_Unwatch c s"

definition empty_rules :: RuleStore where
  "empty_rules = \<lparr> ru_fault = False, ru_rows = [], ru_subs = [], ru_next = 0 \<rparr>"

definition rows_ok :: "rule_row list \<Rightarrow> bool" where
  "rows_ok rows \<longleftrightarrow> distinct (map row_key rows) \<and> (\<forall>x \<in> set rows. Validate (snd x) = None)"

lemma Validate_stored [simp]: "Validate (stored_rule now r) = Validate r" "Validate (dated now r) = Validate r"
  by (simp_all add: Validate_def stored_rule_def dated_def Let_def)

lemma ids_stored [simp]: "ru_ID (stored_rule now r) = ru_ID r" "ru_ID (dated now r) = ru_ID r"
    "stored_rule now (dated now r) = stored_rule now r"
  by (simp_all add: stored_rule_def dated_def)

lemma publish_rows [simp]: "ru_rows (rule_publish ev s) = ru_rows s" "ru_fault (rule_publish ev s) = ru_fault s"
  by (simp_all add: rule_publish_def)

lemma insert_rules_ok:
  "\<lbrakk> insert_rules now t rs rows = Inr rows'; rows_ok rows; \<forall>r \<in> set rs. Validate r = None \<rbrakk> \<Longrightarrow>
    rows_ok rows' \<and> rows' = rows @ map (\<lambda>r. (t, stored_rule now r)) rs"
proof (induction rs arbitrary: rows)
  case (Cons r rs)
  from Cons.prems(1) have "get_row row_key (t, ru_ID r) rows = None" "insert_rules now t rs (rows @ [(t, stored_rule now r)]) = Inr rows'"
    by (simp_all del: not_None_eq split: if_splits)
  moreover from this(1) Cons.prems(2,3) have "rows_ok (rows @ [(t, stored_rule now r)])"
    by (auto simp: rows_ok_def get_row_None row_key_def)
  ultimately show ?case using Cons.IH Cons.prems(3) by fastforce
qed simp

lemma rows_ok_filter: "rows_ok rows \<Longrightarrow> rows_ok (filter P rows)"
  by (auto simp: rows_ok_def distinct_map_filter)

lemma upsert_ok:
  assumes "rows_ok rows" "Validate r = None" "rows_Upsert fault now t r rows = Inr rows'"
  shows "rows_ok rows'"
proof -
  let ?x = "(t, stored_rule now r)"
  have "rows' = (if get_row row_key (row_key ?x) rows = None then rows @ [?x] else update_row row_key (row_key ?x) (\<lambda>_. ?x) rows)"
    using assms(3) by (auto simp: rows_Upsert_def Let_def split: if_splits)
  then show ?thesis using assms(1,2) map_update_row [of row_key "row_key ?x" "\<lambda>_. ?x" rows]
    by (auto simp: rows_ok_def get_row_None set_update_row)
qed

lemma exec_ok: "rows_ok (ru_rows s) \<Longrightarrow> rows_ok (ru_rows (rule_exec q s))"
proof (cases q)
  case (RUpsert now t r)
  assume "rows_ok (ru_rows s)"
  then show ?thesis using RUpsert upsert_ok [of "ru_rows s" "dated now r"]
    by (auto simp: rule_Upsert_def Let_def split: option.splits sum.splits)
next
  case (RDelete now t i)
  assume "rows_ok (ru_rows s)"
  then show ?thesis using RDelete rows_ok_filter
    by (auto simp: rule_Delete_def rows_Delete_def delete_row_def split: sum.splits if_splits)
next
  case (RReplace now t rs)
  assume ok: "rows_ok (ru_rows s)"
  show ?thesis
  proof (cases "List.find (\<lambda>r. Validate r \<noteq> None) rs")
    case None
    then have "\<forall>r \<in> set (map (dated now) rs). Validate r = None" by (auto simp: find_None_iff)
    then show ?thesis using RReplace None ok insert_rules_ok [OF _ rows_ok_filter [OF ok]]
      by (auto simp: rule_ReplaceAll_def rows_ReplaceAll_def split: sum.splits if_splits)
  qed (use RReplace ok in \<open>simp add: rule_ReplaceAll_def\<close>)
qed (simp_all add: rule_Watch_def rule_Unwatch_def)

lemma run_ok: "rows_ok (ru_rows s) \<Longrightarrow> rows_ok (ru_rows (fold rule_exec qs s))"
  by (induction qs arbitrary: s) (simp_all add: exec_ok)

lemma listed_ids:
  assumes "rows_ok rows"
  shows "distinct (map ru_ID (map snd (filter (\<lambda>x. fst x = t) rows)))"
proof -
  have "distinct (map row_key (filter (\<lambda>x. fst x = t) rows))" using rows_ok_filter [OF assms] by (simp add: rows_ok_def)
  moreover have "map row_key (filter (\<lambda>x. fst x = t) rows) = map (\<lambda>i. (t, i)) (map ru_ID (map snd (filter (\<lambda>x. fst x = t) rows)))"
    by (simp add: row_key_def)
  ultimately have "distinct (map (\<lambda>i. (t, i)) (map ru_ID (map snd (filter (\<lambda>x. fst x = t) rows))))" by metis
  then show ?thesis by (simp only: distinct_map [of "\<lambda>i. (t, i)"])
qed

text \<open>C13: whatever sequence of writes and watches ran before, the rules a tenant lists are valid, have distinct ids and stand in the
  order of the evaluation; replacing the rules of a tenant either changes nothing or leaves exactly the new ones, and
  never those of another tenant.\<close>

theorem rule_store_sound:
  assumes s_def: "s = fold rule_exec qs empty_rules"
  shows "(rule_List s t = Inr rules \<longrightarrow> orderedRules rules = rules \<and> distinct (map ru_ID rules) \<and> (\<forall>r \<in> set rules. Validate r = None)) \<and>
    (rule_ReplaceAll now t' new s = (err, s') \<longrightarrow>
       (if err \<noteq> None then s' = s
        else rule_List s' t' = Inr (sort_key rule_key (map (stored_rule now) new)) \<and> (t \<noteq> t' \<longrightarrow> rule_List s' t = rule_List s t)))"
proof (intro conjI impI)
  have ok: "rows_ok (ru_rows s)" unfolding s_def by (rule run_ok) (simp add: empty_rules_def rows_ok_def)
  assume "rule_List s t = Inr rules"
  then have r: "rules = sort_key rule_key (map snd (filter (\<lambda>x. fst x = t) (ru_rows s)))"
    by (auto simp: rule_List_def rows_List_def split: if_splits)
  show "orderedRules rules = rules" unfolding orderedRules_sort r by (rule sort_key_id_if_sorted) (rule sorted_sort_key)
  have "mset (map ru_ID rules) = mset (map ru_ID (map snd (filter (\<lambda>x. fst x = t) (ru_rows s))))" unfolding r by (simp add: image_mset.compositionality)
  then show "distinct (map ru_ID rules)" using listed_ids [OF ok, of t] mset_eq_imp_distinct_iff by blast
  show "\<forall>r \<in> set rules. Validate r = None" using ok unfolding r rows_ok_def by auto
next
  have ok: "rows_ok (ru_rows s)" unfolding s_def by (rule run_ok) (simp add: empty_rules_def rows_ok_def)
  assume R: "rule_ReplaceAll now t' new s = (err, s')"
  show "if err \<noteq> None then s' = s else rule_List s' t' = Inr (sort_key rule_key (map (stored_rule now) new)) \<and>
      (t \<noteq> t' \<longrightarrow> rule_List s' t = rule_List s t)"
  proof (cases err)
    case None
    with R have v: "\<forall>r \<in> set (map (dated now) new). Validate r = None" and f: "\<not> ru_fault s"
      by (auto simp: rule_ReplaceAll_def rows_ReplaceAll_def find_None_iff split: option.splits sum.splits if_splits)
    with R None obtain rows where i: "insert_rules now t' (map (dated now) new) (filter (\<lambda>x. fst x \<noteq> t') (ru_rows s)) = Inr rows"
        "ru_rows s' = rows" "ru_fault s' = ru_fault s"
      by (auto simp: rule_ReplaceAll_def rows_ReplaceAll_def split: option.splits sum.splits if_splits)
    have "rows = filter (\<lambda>x. fst x \<noteq> t') (ru_rows s) @ map (\<lambda>r. (t', stored_rule now r)) new"
      using insert_rules_ok [OF i(1) rows_ok_filter [OF ok] v] by (simp add: comp_def)
    then show ?thesis using None i f
      by (auto simp: rule_List_def rows_List_def comp_def filter_empty_conv intro!: arg_cong [where f = "sort_key rule_key"] arg_cong [where f = "map snd"] filter_cong)
  qed (use R in \<open>auto simp: rule_ReplaceAll_def split: option.splits sum.splits\<close>)
qed

definition late_rule :: Rule where "late_rule = demo_rule ''a'' 1 any_match zero_Actions"

definition early_rule :: Rule where "early_rule = demo_rule ''b'' 0 any_match zero_Actions"

theorem rule_store_sound_witness:
  "rule_List (snd (rule_ReplaceAll 0 ''t'' [late_rule, early_rule] (fold rule_exec [RUpsert 0 ''u'' late_rule, RUpsert 0 ''t'' early_rule] empty_rules))) ''t'' =
     Inr [stored_rule 0 early_rule, stored_rule 0 late_rule] \<and>
   rule_List (snd (rule_ReplaceAll 0 ''t'' [late_rule, early_rule] (fold rule_exec [RUpsert 0 ''u'' late_rule, RUpsert 0 ''t'' early_rule] empty_rules))) ''u'' =
     rule_List (fold rule_exec [RUpsert 0 ''u'' late_rule, RUpsert 0 ''t'' early_rule] empty_rules) ''u''"
proof -
  let ?s = "fold rule_exec [RUpsert 0 ''u'' late_rule, RUpsert 0 ''t'' early_rule] empty_rules"
  have v: "Validate late_rule = None" "Validate early_rule = None"
    by (simp_all add: late_rule_def early_rule_def Validate_def demo_rule_def any_match_def zero_Actions_def Let_def)
  have i: "ru_ID late_rule = ''a''" "ru_ID early_rule = ''b''" "ru_Priority late_rule = 1" "ru_Priority early_rule = 0" by (simp_all add: late_rule_def early_rule_def demo_rule_def)
  have "fst (rule_ReplaceAll 0 ''t'' [late_rule, early_rule] ?s) = None"
    using v i by (simp add: rule_ReplaceAll_def rows_ReplaceAll_def rule_Upsert_def rows_Upsert_def Let_def empty_rules_def rule_publish_def
        get_row_def row_key_def)
  then show ?thesis using rule_store_sound [of ?s "[RUpsert 0 ''u'' late_rule, RUpsert 0 ''t'' early_rule]" "''u''" _ 0 "''t''" "[late_rule, early_rule]"] i
    by (cases "rule_ReplaceAll 0 ''t'' [late_rule, early_rule] ?s") (simp add: rule_key_def stored_rule_def)
qed

end
