(* ===== verification/Canonical_Json.thy ===== *)
theory Canonical_Json
  imports Json_Print Complex_Main "HOL-Library.Multiset"
begin

text \<open>
  \<open>internal/catalog/snapshots/canonical.go\<close>: the deterministic JSON encoder behind every fingerprint.
  It takes any Go value: maps, slices and scalars as they are, raw messages after decoding, everything else
  through \<open>encoding/json\<close>.  A \<^typ>\<open>json\<close> here is what \<open>json.Unmarshal\<close> puts into an \<open>any\<close>.
  The library's decoder, its removal of white space from raw messages and its number formats are arguments.
\<close>

subsection \<open>Values\<close>

record json_lib =
  jl_unmarshal :: "string \<Rightarrow> json option"
  jl_compact :: "string \<Rightarrow> string"
  jl_float :: "string \<Rightarrow> rat"
  jl_marshal_float :: "rat \<Rightarrow> string"
  jl_g :: "rat \<Rightarrow> string"

text \<open>\<open>GOther\<close> is a value of any other type, given by what marshalling and unmarshalling it yields.\<close>

datatype goval =
    GNil
  | GBool bool
  | GStr string
  | GNumber string
  | GFloat rat
  | GInt int
  | GMap "(string \<times> goval) list"
  | GList "goval list"
  | GRaw string
  | GOther "json option"

fun go_of :: "json_lib \<Rightarrow> json \<Rightarrow> goval" where
  "go_of L JNull = GNil"
| "go_of L (JBool b) = GBool b"
| "go_of L (JNum t) = GFloat (jl_float L t)"
| "go_of L (JStr s) = GStr s"
| "go_of L (JArr vs) = GList (map (go_of L) vs)"
| "go_of L (JObj kvs) = GMap (map (\<lambda>kv. (fst kv, go_of L (snd kv))) kvs)"

subsection \<open>The encoder\<close>

definition commas :: "string list \<Rightarrow> string" where
  "commas xs = (case xs of [] \<Rightarrow> [] | a # as \<Rightarrow> a @ concat (map (\<lambda>a. CHR '','' # a) as))"

definition small_int :: "rat \<Rightarrow> bool" where
  "small_int x \<longleftrightarrow> x = of_int \<lfloor>x\<rfloor> \<and> - (10 ^ 15) \<le> x \<and> x \<le> 10 ^ 15"

definition write_float :: "json_lib \<Rightarrow> rat \<Rightarrow> string" where
  "write_float L x = (if small_int x then dec_int \<lfloor>x\<rfloor> else jl_g L x)"

definition live_members :: "(string \<times> goval) list \<Rightarrow> (string \<times> goval) list" where
  "live_members m = sort_key fst (filter (\<lambda>kv. snd kv \<noteq> GNil) m)"

text \<open>How many values still have to be decoded.\<close>

fun opaque_parts :: "goval \<Rightarrow> nat" where
  "opaque_parts (GMap m) = sum_list (map (\<lambda>kv. opaque_parts (snd kv)) m)"
| "opaque_parts (GList vs) = sum_list (map opaque_parts vs)"
| "opaque_parts (GRaw s) = 1"
| "opaque_parts (GOther j) = 1"
| "opaque_parts v = 0"

lemma opaque_go_of [simp]: "opaque_parts (go_of L j) = 0"
  by (induction L j rule: go_of.induct) (simp_all add: comp_def)

lemma live_set: "kv \<in> set (live_members m) \<Longrightarrow> kv \<in> set m"
  by (simp add: live_members_def)

lemma opaque_member: "kv \<in> set m \<Longrightarrow> opaque_parts (snd kv) \<le> sum_list (map (\<lambda>kv. opaque_parts (snd kv)) m)"
  by (rule member_le_sum_list) auto

lemma opaque_element: "v \<in> set vs \<Longrightarrow> opaque_parts v \<le> sum_list (map opaque_parts vs)"
  by (rule member_le_sum_list) auto

lemma size_member: "kv \<in> set m \<Longrightarrow> size (snd kv) < Suc (size_list (size_prod (\<lambda>x. 0) size) m)"
  by (induction m) auto

function canonicalWrite :: "json_lib \<Rightarrow> goval \<Rightarrow> string option" where
  "canonicalWrite L GNil = Some ''null''"
| "canonicalWrite L (GBool b) = Some (if b then ''true'' else ''false'')"
| "canonicalWrite L (GStr s) = Some (json_string s)"
| "canonicalWrite L (GNumber t) = Some t"
| "canonicalWrite L (GFloat x) = Some (write_float L x)"
| "canonicalWrite L (GInt i) = Some (dec_int i)"
| "canonicalWrite L (GMap m) =
    map_option (\<lambda>parts. ''{'' @ commas parts @ ''}'')
      (those (map (\<lambda>kv. map_option (\<lambda>w. json_key (fst kv) @ w) (canonicalWrite L (snd kv))) (live_members m)))"
| "canonicalWrite L (GList vs) = map_option (\<lambda>parts. ''['' @ commas parts @ '']'') (those (map (canonicalWrite L) vs))"
| "canonicalWrite L (GRaw s) =
    (if s = '''' then Some ''null''
     else case jl_unmarshal L s of None \<Rightarrow> None | Some j \<Rightarrow> canonicalWrite L (go_of L j))"
| "canonicalWrite L (GOther r) = (case r of None \<Rightarrow> None | Some j \<Rightarrow> canonicalWrite L (go_of L j))"
  by pat_completeness auto
termination
proof (relation "measures [\<lambda>(L, v). opaque_parts v, \<lambda>(L, v). size v]", goal_cases)
  case (2 L m kv)
  then have "kv \<in> set m" by (rule live_set)
  from opaque_member [OF this] size_member [OF this] show ?case by auto
next
  case (3 L vs v)
  from opaque_element [OF 3] size_list_estimation' [OF 3, of "size v" size] show ?case by auto
qed auto

text \<open>\<open>canonicalEncode\<close>: a top-level value that is neither map, slice, string, bool, number text nor raw message is
  marshalled first.\<close>

definition canonicalEncode :: "json_lib \<Rightarrow> goval \<Rightarrow> string option" where
  "canonicalEncode L v =
    (case v of
       GNil \<Rightarrow> Some ''null''
     | GFloat x \<Rightarrow> canonicalWrite L (GFloat (jl_float L (jl_marshal_float L x)))
     | GInt i \<Rightarrow> canonicalWrite L (GFloat (jl_float L (dec_int i)))
     | GOther None \<Rightarrow> None
     | GOther (Some j) \<Rightarrow> canonicalWrite L (go_of L j)
     | _ \<Rightarrow> canonicalWrite L v)"

subsection \<open>The bytes of decoded documents\<close>

fun canonical_text :: "json_lib \<Rightarrow> json \<Rightarrow> string" where
  "canonical_text L JNull = ''null''"
| "canonical_text L (JBool b) = (if b then ''true'' else ''false'')"
| "canonical_text L (JNum t) = write_float L (jl_float L t)"
| "canonical_text L (JStr s) = json_string s"
| "canonical_text L (JArr vs) = ''['' @ commas (map (canonical_text L) vs) @ '']''"
| "canonical_text L (JObj m) =
    ''{'' @ commas (map (\<lambda>kv. json_key (fst kv) @ canonical_text L (snd kv)) (sort_key fst (filter (\<lambda>kv. snd kv \<noteq> JNull) m))) @ ''}''"

lemma those_Some: "those (map (\<lambda>x. Some (f x)) xs) = Some (map f xs)"
  by (induction xs) simp_all

lemma map_insort_fst: "map (\<lambda>kv. (fst kv, g (snd kv))) (insort_key fst x xs) = insort_key fst (fst x, g (snd x)) (map (\<lambda>kv. (fst kv, g (snd kv))) xs)"
  by (induction xs) auto

lemma map_sort_fst: "map (\<lambda>kv. (fst kv, g (snd kv))) (sort_key fst xs) = sort_key fst (map (\<lambda>kv. (fst kv, g (snd kv))) xs)"
  by (induction xs) (simp_all add: map_insort_fst)

lemma go_of_nil: "go_of L j = GNil \<longleftrightarrow> j = JNull"
  by (cases j) auto

lemma live_decoded:
  "live_members (map (\<lambda>kv. (fst kv, go_of L (snd kv))) m) =
    map (\<lambda>kv. (fst kv, go_of L (snd kv))) (sort_key fst (filter (\<lambda>kv. snd kv \<noteq> JNull) m))"
  by (simp add: live_members_def map_sort_fst filter_map comp_def go_of_nil)

lemma write_decoded: "canonicalWrite L (go_of L j) = Some (canonical_text L j)"
proof (induction L j rule: canonical_text.induct)
  case (5 L vs)
  then have "map (canonicalWrite L \<circ> go_of L) vs = map (\<lambda>v. Some (canonical_text L v)) vs" by simp
  then have "those (map (canonicalWrite L \<circ> go_of L) vs) = Some (map (canonical_text L) vs)" by (simp only: those_Some)
  then show ?case by simp
next
  case (6 L m)
  let ?s = "sort_key fst (filter (\<lambda>kv. snd kv \<noteq> JNull) m)"
  have "map (\<lambda>kv. map_option (\<lambda>w. json_key (fst kv) @ w) (canonicalWrite L (go_of L (snd kv)))) ?s =
      map (\<lambda>kv. Some (json_key (fst kv) @ canonical_text L (snd kv))) ?s"
    using 6 by simp
  then have "those (map (\<lambda>kv. map_option (\<lambda>w. json_key (fst kv) @ w) (canonicalWrite L (go_of L (snd kv)))) ?s) =
      Some (map (\<lambda>kv. json_key (fst kv) @ canonical_text L (snd kv)) ?s)" by (simp only: those_Some)
  then show ?case by (simp add: live_decoded comp_def)
qed simp_all

subsection \<open>What the bytes denote\<close>

text \<open>A document up to the order of members and up to members that are null.\<close>

datatype doc =
    DNull
  | DBool bool
  | DNum rat
  | DStr string
  | DArr "doc list"
  | DObj "string \<Rightarrow> doc option"

fun doc_of :: "json_lib \<Rightarrow> json \<Rightarrow> doc" where
  "doc_of L JNull = DNull"
| "doc_of L (JBool b) = DBool b"
| "doc_of L (JNum t) = DNum (jl_float L t)"
| "doc_of L (JStr s) = DStr s"
| "doc_of L (JArr vs) = DArr (map (doc_of L) vs)"
| "doc_of L (JObj m) = DObj (map_of (map (\<lambda>kv. (fst kv, doc_of L (snd kv))) (filter (\<lambda>kv. snd kv \<noteq> JNull) m)))"

text \<open>What the decoder yields: valid UTF-8 and no repeated member.\<close>

fun json_ok :: "json \<Rightarrow> bool" where
  "json_ok (JStr s) = valid_utf8 s"
| "json_ok (JArr vs) = list_all json_ok vs"
| "json_ok (JObj m) \<longleftrightarrow> distinct (map fst m) \<and> list_all (\<lambda>kv. valid_utf8 (fst kv) \<and> json_ok (snd kv)) m"
| "json_ok _ = True"

definition num_char :: "char \<Rightarrow> bool" where
  "num_char c \<longleftrightarrow> c \<in> set ''0123456789+-.e''"

text \<open>\<open>FormatFloat\<close> with format g: sign, digits, point and exponent; different floats have different texts, and none that is
  printed this way looks like an integer printed by \<open>FormatInt\<close>.\<close>

definition float_text :: "json_lib \<Rightarrow> bool" where
  "float_text L \<longleftrightarrow> (\<forall>s. let x = jl_float L s in \<not> small_int x \<longrightarrow>
     jl_g L x \<noteq> [] \<and> list_all num_char (jl_g L x) \<and> (\<forall>i. jl_g L x \<noteq> dec_int i) \<and>
     (\<forall>t. \<not> small_int (jl_float L t) \<and> jl_g L (jl_float L t) = jl_g L x \<longrightarrow> jl_float L t = x))"

definition delimited :: "string \<Rightarrow> bool" where
  "delimited x \<longleftrightarrow> (case x of [] \<Rightarrow> True | c # _ \<Rightarrow> \<not> num_char c)"

lemma digit_chars: "list_all num_char ''0123456789''" "num_char CHR ''-''"
  by code_simp+

lemma dec_int_chars: "list_all num_char (dec_int i)" "dec_int i \<noteq> []"
proof -
  have "list_all num_char (dec_nat n)" for n
    unfolding list_all_iff by (rule ballI) (rule bspec [OF digit_chars(1) [unfolded list_all_iff] subsetD [OF dec_nat_digits]])
  then show "list_all num_char (dec_int i)" using digit_chars(2) by (simp add: dec_int_def)
  have "dec_nat n \<noteq> []" for n by (cases n rule: dec_nat.cases) (auto simp: dec_nat.simps)
  then show "dec_int i \<noteq> []" by (simp add: dec_int_def)
qed

lemma write_float_chars:
  assumes "float_text L"
  shows "list_all num_char (write_float L (jl_float L t))" "write_float L (jl_float L t) \<noteq> []"
  using assms dec_int_chars by (auto simp: write_float_def float_text_def Let_def)

lemma write_float_inject:
  assumes "float_text L" "write_float L (jl_float L s) = write_float L (jl_float L t)"
  shows "jl_float L s = jl_float L t"
proof -
  have "x = y" if "small_int x" "small_int y" "dec_int \<lfloor>x\<rfloor> = dec_int \<lfloor>y\<rfloor>" for x y
    using that dec_int_inject_all unfolding small_int_def by metis
  moreover have "\<And>i. \<not> small_int (jl_float L t) \<Longrightarrow> jl_g L (jl_float L t) \<noteq> dec_int i" for t
    using assms(1) unfolding float_text_def Let_def by blast
  moreover have "\<lbrakk> \<not> small_int (jl_float L s); \<not> small_int (jl_float L t); jl_g L (jl_float L s) = jl_g L (jl_float L t) \<rbrakk> \<Longrightarrow> ?thesis"
    using assms(1) unfolding float_text_def Let_def by blast
  ultimately show ?thesis using assms(2) by (auto simp: write_float_def split: if_splits dest: sym)
qed

lemma number_boundary:
  assumes "list_all num_char u" "list_all num_char v" "delimited x" "delimited y" "u @ x = v @ y"
  shows "u = v \<and> x = y"
proof -
  have "takeWhile num_char (w @ z) = w" if "list_all num_char w" "delimited z" for w z
    using that by (cases z) (auto simp: delimited_def list_all_iff takeWhile_tail)
  then have "u = v" using assms by metis
  with assms(5) show ?thesis by simp
qed

lemma no_num_char: "\<not> num_char CHR '',''" "\<not> num_char CHR '']''" "\<not> num_char CHR ''}''" "\<not> num_char CHR ''n''"
    "\<not> num_char CHR ''t''" "\<not> num_char CHR ''f''" "\<not> num_char CHR 0x22" "\<not> num_char CHR ''[''" "\<not> num_char CHR ''{''"
  by code_simp+

lemma delimited_Cons: "\<not> num_char c \<Longrightarrow> delimited (c # x)"
  by (simp add: delimited_def)

text \<open>Sequences of elements that can be told apart when a delimiter follows.\<close>

lemma seq_texts_inject:
  assumes one: "\<And>a b x y. \<lbrakk> a \<in> A; b \<in> B; delimited x; delimited y; f a @ x = f b @ y \<rbrakk> \<Longrightarrow> g a = g b \<and> x = y"
    and stop: "stop \<noteq> CHR '',''" "\<not> num_char stop"
  shows "\<lbrakk> set as \<subseteq> A; set bs \<subseteq> B; concat (map (\<lambda>a. CHR '','' # f a) as) @ stop # x = concat (map (\<lambda>a. CHR '','' # f a) bs) @ stop # y \<rbrakk> \<Longrightarrow>
    map g as = map g bs \<and> x = y"
proof (induction as arbitrary: bs)
  case Nil
  then show ?case using stop(1) by (cases bs) auto
next
  case (Cons a as)
  then obtain b bs' where bs: "bs = b # bs'" using stop(1) by (cases bs) auto
  have rest: "delimited (concat (map (\<lambda>a. CHR '','' # f a) zs) @ stop # z)" for zs z
    using stop(2) no_num_char(1) by (cases zs) (simp_all add: delimited_def)
  from Cons.prems bs have "f a @ concat (map (\<lambda>a. CHR '','' # f a) as) @ stop # x = f b @ concat (map (\<lambda>a. CHR '','' # f a) bs') @ stop # y" by simp
  from one [OF _ _ rest rest this] Cons.prems bs Cons.IH [of bs'] show ?case by auto
qed

lemma commas_inject:
  assumes one: "\<And>a b x y. \<lbrakk> a \<in> A; b \<in> B; delimited x; delimited y; f a @ x = f b @ y \<rbrakk> \<Longrightarrow> g a = g b \<and> x = y"
    and head: "\<And>a. a \<in> A \<union> B \<Longrightarrow> f a \<noteq> [] \<and> hd (f a) \<noteq> stop"
    and stop: "stop \<noteq> CHR '',''" "\<not> num_char stop"
    and sub: "set as \<subseteq> A" "set bs \<subseteq> B"
    and eq: "commas (map f as) @ stop # x = commas (map f bs) @ stop # y"
  shows "map g as = map g bs \<and> x = y"
proof -
  have no: False if "a \<in> A \<union> B" "f a @ u = stop # v" for a u v
    using head [OF that(1)] that(2) by (cases "f a") auto
  consider "as = []" "bs = []" | a as' where "as = a # as'" "bs = []" | b bs' where "as = []" "bs = b # bs'"
    | a as' b bs' where "as = a # as'" "bs = b # bs'" by (cases as; cases bs) auto
  then show ?thesis
  proof cases
    case 1
    then show ?thesis using eq by (simp add: commas_def)
  next
    case (2 a as')
    then show ?thesis using eq sub no [of a] by (fastforce simp: commas_def)
  next
    case (3 b bs')
    then show ?thesis using eq sub no [of b, OF _ sym] by (fastforce simp: commas_def)
  next
    case (4 a as' b bs')
    then have "concat (map (\<lambda>a. CHR '','' # f a) as) @ stop # x = concat (map (\<lambda>a. CHR '','' # f a) bs) @ stop # y"
      using eq by (simp add: commas_def comp_def)
    from seq_texts_inject [OF one stop sub this] show ?thesis .
  qed
qed

text \<open>The first byte tells the kind of a value.\<close>

fun kind_of :: "json \<Rightarrow> nat" where
  "kind_of JNull = 0"
| "kind_of (JBool b) = (if b then 1 else 2)"
| "kind_of (JNum t) = 3"
| "kind_of (JStr s) = 4"
| "kind_of (JArr vs) = 5"
| "kind_of (JObj m) = 6"

definition head_kind :: "char \<Rightarrow> nat" where
  "head_kind c = (if num_char c then 3 else if c = CHR ''n'' then 0 else if c = CHR ''t'' then 1 else if c = CHR ''f'' then 2
     else if c = CHR 0x22 then 4 else if c = CHR ''['' then 5 else 6)"

lemma text_kind:
  assumes "float_text L"
  shows "canonical_text L j \<noteq> [] \<and> head_kind (hd (canonical_text L j)) = kind_of j"
proof (cases j)
  case (JNum t)
  then show ?thesis using write_float_chars [OF assms, of t]
    by (cases "write_float L (jl_float L t)") (auto simp: head_kind_def)
qed (simp_all add: head_kind_def no_num_char json_string_def)

lemma same_kind:
  assumes "float_text L" "canonical_text L a @ x = canonical_text L b @ y"
  shows "kind_of a = kind_of b"
proof -
  have "hd (canonical_text L a @ x) = hd (canonical_text L b @ y)" using assms(2) by simp
  then show ?thesis using text_kind [OF assms(1), of a] text_kind [OF assms(1), of b] by (metis hd_append2)
qed

lemma head_not_close: "float_text L \<Longrightarrow> hd (canonical_text L j) \<noteq> CHR '']''"
proof
  assume f: "float_text L" and "hd (canonical_text L j) = CHR '']''"
  then have "hd (canonical_text L j) = CHR '']''" "kind_of j = 6" using text_kind [OF f, of j] by (auto simp: head_kind_def no_num_char)
  then show False by (cases j) (auto split: if_splits)
qed

abbreviation live :: "(string \<times> json) list \<Rightarrow> (string \<times> json) list" where
  "live m \<equiv> sort_key fst (filter (\<lambda>kv. snd kv \<noteq> JNull) m)"

lemma distinct_live: "distinct (map fst m) \<Longrightarrow> distinct (map fst (live m))"
proof -
  assume "distinct (map fst m)"
  then have "distinct (map fst (filter (\<lambda>kv. snd kv \<noteq> JNull) m))" by (rule distinct_map_filter)
  moreover have "mset (map fst (live m)) = mset (map fst (filter (\<lambda>kv. snd kv \<noteq> JNull) m))" by simp
  ultimately show ?thesis by (metis mset_eq_imp_distinct_iff)
qed

text \<open>A map with its members in key order is determined by the function it stands for.\<close>

lemma members_of_map:
  assumes "distinct (map fst m)"
  shows "map_of (map (\<lambda>kv. (fst kv, g (snd kv))) (filter (\<lambda>kv. snd kv \<noteq> JNull) m)) = map_of (map (\<lambda>kv. (fst kv, g (snd kv))) (live m))"
proof (rule map_of_inject_set [THEN iffD2])
  show "distinct (map fst (map (\<lambda>kv. (fst kv, g (snd kv))) (filter (\<lambda>kv. snd kv \<noteq> JNull) m)))"
    using assms by (simp add: comp_def distinct_map_filter)
  show "distinct (map fst (map (\<lambda>kv. (fst kv, g (snd kv))) (live m)))"
    using distinct_live [OF assms] by (simp add: comp_def)
qed simp

lemma sorted_members_unique:
  fixes xs ys :: "(string \<times> 'a) list"
  assumes "sorted (map fst xs)" "distinct (map fst xs)" "sorted (map fst ys)" "distinct (map fst ys)" "map_of xs = map_of ys"
  shows "xs = ys"
proof -
  have "set xs = set ys" using assms(2,4,5) map_of_inject_set by blast
  with assms(1-4) show ?thesis
    by (intro map_sorted_distinct_set_unique [of fst]) (auto simp: distinct_map)
qed

lemma live_member: "kv \<in> set (live m) \<longleftrightarrow> kv \<in> set m \<and> snd kv \<noteq> JNull"
  by simp

lemma member_text_inject:
  assumes "valid_utf8 k" "valid_utf8 l" "(json_key k @ v) @ x = (json_key l @ w) @ y"
  shows "k = l \<and> v @ x = w @ y"
proof -
  have "json_string k @ ('':'' @ v @ x) = json_string l @ ('':'' @ w @ y)" using assms(3) by (simp add: json_key_def)
  from literals.enc_inject [OF assms(1,2) this] show ?thesis by simp
qed

lemma text_inject:
  assumes f: "float_text L"
  shows "\<lbrakk> json_ok a; json_ok b; delimited x; delimited y; canonical_text L a @ x = canonical_text L b @ y \<rbrakk> \<Longrightarrow>
    doc_of L a = doc_of L b \<and> x = y"
proof (induction a arbitrary: b x y)
  case JNull
  with same_kind [OF f JNull.prems(5)] show ?case by (cases b) (auto split: if_splits)
next
  case (JBool c)
  with same_kind [OF f JBool.prems(5)] show ?case by (cases b) (auto split: if_splits)
next
  case (JNum s)
  with same_kind [OF f JNum.prems(5)] obtain t where "b = JNum t" by (cases b) (auto split: if_splits)
  with JNum.prems number_boundary [OF write_float_chars(1) write_float_chars(1), OF f f, of x y s t] write_float_inject [OF f, of s t]
  show ?case by simp
next
  case (JStr s)
  with same_kind [OF f JStr.prems(5)] obtain t where "b = JStr t" by (cases b) (auto split: if_splits)
  with JStr.prems literals.enc_inject [of s t x y] show ?case by simp
next
  case (JArr vs)
  with same_kind [OF f JArr.prems(5)] obtain ws where b: "b = JArr ws" by (cases b) (auto split: if_splits)
  have "map (doc_of L) vs = map (doc_of L) ws \<and> x = y"
  proof (rule commas_inject [of "set vs" "set ws" "canonical_text L" _ "CHR '']''"])
    show "commas (map (canonical_text L) vs) @ CHR '']'' # x = commas (map (canonical_text L) ws) @ CHR '']'' # y"
      using JArr.prems(5) b by simp
    show "doc_of L v = doc_of L w \<and> u = z"
      if "v \<in> set vs" "w \<in> set ws" "delimited u" "delimited z" "canonical_text L v @ u = canonical_text L w @ z" for v w u z
      using that JArr.IH [OF that(1) _ _ that(3-5)] JArr.prems(1,2) b by (simp add: list_all_iff)
  qed (use text_kind [OF f] head_not_close [OF f] no_num_char in auto)
  with b show ?case by simp
next
  case (JObj m)
  with same_kind [OF f JObj.prems(5)] obtain n where b: "b = JObj n" by (cases b) (auto split: if_splits)
  let ?f = "\<lambda>kv. json_key (fst kv) @ canonical_text L (snd kv)" and ?g = "\<lambda>kv. (fst kv, doc_of L (snd kv))"
  have "map ?g (live m) = map ?g (live n) \<and> x = y"
  proof (rule commas_inject [of "set (live m)" "set (live n)" ?f _ "CHR ''}''"])
    show "commas (map ?f (live m)) @ CHR ''}'' # x = commas (map ?f (live n)) @ CHR ''}'' # y"
      using JObj.prems(5) b by simp
    show "?g v = ?g w \<and> u = z"
      if "v \<in> set (live m)" "w \<in> set (live n)" "delimited u" "delimited z" "?f v @ u = ?f w @ z" for v w u z
    proof -
      have in_m: "v \<in> set m" "w \<in> set n" using that(1,2) by simp_all
      then have ok: "valid_utf8 (fst v)" "valid_utf8 (fst w)" "json_ok (snd v)" "json_ok (snd w)"
        using JObj.prems(1,2) b by (auto simp: list_all_iff)
      from member_text_inject [OF ok(1,2) that(5)]
      have "fst v = fst w" "canonical_text L (snd v) @ u = canonical_text L (snd w) @ z" by auto
      with JObj.IH [OF in_m(1) _ ok(3,4) that(3,4)] show ?thesis by (auto simp: snds.simps)
    qed
  qed (auto simp: json_key_def json_string_def no_num_char)
  moreover have "distinct (map fst m)" "distinct (map fst n)" using JObj.prems(1,2) b by simp_all
  ultimately show ?case using b by (simp add: members_of_map [of m] members_of_map [of n] del: set_sort set_filter)
qed

lemma text_determined:
  assumes f: "float_text L"
  shows "\<lbrakk> json_ok a; json_ok b; doc_of L a = doc_of L b \<rbrakk> \<Longrightarrow> canonical_text L a = canonical_text L b"
proof (induction a arbitrary: b)
  case (JArr vs)
  then obtain ws where b: "b = JArr ws" "map (doc_of L) vs = map (doc_of L) ws" by (cases b) auto
  then have len: "length vs = length ws" by (metis length_map)
  have "map (canonical_text L) vs = map (canonical_text L) ws"
  proof (rule nth_equalityI)
    fix i assume "i < length (map (canonical_text L) vs)"
    then have i: "i < length vs" by simp
    moreover have "doc_of L (vs ! i) = doc_of L (ws ! i)" using b(2) i len by (metis nth_map)
    ultimately show "map (canonical_text L) vs ! i = map (canonical_text L) ws ! i"
      using JArr.IH [of "vs ! i" "ws ! i"] JArr.prems(1,2) b(1) len by (auto simp: list_all_length)
  qed (use len in simp)
  then show ?case using b(1) by simp
next
  case (JObj m)
  then obtain n where b: "b = JObj n" by (cases b) auto
  let ?g = "\<lambda>kv. (fst kv, doc_of L (snd kv))"
  have d: "distinct (map fst m)" "distinct (map fst n)" using JObj.prems(1,2) b by simp_all
  have "map_of (map ?g (live m)) = map_of (map ?g (live n))"
    using JObj.prems(3) b by (simp add: members_of_map [OF d(1)] members_of_map [OF d(2)])
  then have eq: "map ?g (live m) = map ?g (live n)"
    by (intro sorted_members_unique) (use distinct_live [OF d(1)] distinct_live [OF d(2)] in \<open>simp_all add: comp_def\<close>)
  have len: "length (live m) = length (live n)" using arg_cong [OF eq, of length] by (simp only: length_map)
  let ?f = "\<lambda>kv. json_key (fst kv) @ canonical_text L (snd kv)"
  have "map ?f (live m) = map ?f (live n)"
  proof (rule nth_equalityI)
    fix i assume "i < length (map ?f (live m))"
    then have i: "i < length (live m)" "i < length (live n)" using len by simp_all
    have g: "?g (live m ! i) = ?g (live n ! i)" using arg_cong [OF eq, of "\<lambda>xs. xs ! i"] i by simp
    have "live m ! i \<in> set m" "live n ! i \<in> set n" using nth_mem [OF i(1)] nth_mem [OF i(2)] by simp_all
    then have "json_ok (snd (live m ! i))" "json_ok (snd (live n ! i))" "snd (live m ! i) \<in> Basic_BNFs.snds (live m ! i)"
      using JObj.prems(1,2) b by (auto simp: list_all_iff intro: snds.intros)
    moreover have "doc_of L (snd (live m ! i)) = doc_of L (snd (live n ! i))" using g by simp
    ultimately have "canonical_text L (snd (live m ! i)) = canonical_text L (snd (live n ! i))"
      using JObj.IH [OF \<open>live m ! i \<in> set m\<close>] by blast
    with g i show "map ?f (live m) ! i = map ?f (live n) ! i" by simp
  qed (use len in simp)
  then show ?case using b by simp
next
  case (JNum s)
  then show ?case by (cases b) auto
next
  case (JStr s)
  then show ?case by (cases b) auto
next
  case (JBool c)
  then show ?case by (cases b) auto
next
  case JNull
  then show ?case by (cases b) auto
qed

text \<open>C15: canonical bytes denote exactly the document.  Whatever the decoder yields is encoded without error, and two
  documents have the same bytes exactly if they are equal up to the order of the members of objects and up to members
  that are null, with numbers compared by value.\<close>

theorem canonical_bytes_exact:
  assumes "float_text L" and "json_ok a" and "json_ok b"
  shows "canonicalWrite L (go_of L a) \<noteq> None \<and>
    (canonicalWrite L (go_of L a) = canonicalWrite L (go_of L b) \<longleftrightarrow> doc_of L a = doc_of L b)"
  using text_inject [OF assms, of "[]" "[]"] text_determined [OF assms] by (auto simp: write_decoded delimited_def)

definition nat_lib :: json_lib where
  "nat_lib = \<lparr> jl_unmarshal = (\<lambda>s. None), jl_compact = (\<lambda>s. s), jl_float = (\<lambda>t. of_nat (read_dec t)), jl_marshal_float = (\<lambda>x. dec_int \<lfloor>x\<rfloor>),
     jl_g = (\<lambda>x. dec_int \<lfloor>x\<rfloor> @ ''e+0'') \<rparr>"

lemma nat_lib_text: "float_text nat_lib"
proof -
  have e: "list_all num_char ''e+0''" by code_simp
  have "CHR ''e'' \<notin> set (dec_int i)" for i by (rule dec_int_no) code_simp+
  then have "dec_int j @ ''e+0'' \<noteq> dec_int i" for i j
    by (metis append_Cons in_set_conv_decomp)
  moreover have "x = y" if "dec_int (int x) = dec_int (int y)" for x y
    using dec_int_inject_all [OF that] by simp
  ultimately show ?thesis using dec_int_chars e by (auto simp: float_text_def nat_lib_def Let_def)
qed

theorem canonical_bytes_exact_witness:
  "canonicalWrite nat_lib (go_of nat_lib (JObj [(''b'', JNum ''07''), (''x'', JNull), (''a'', JArr [JStr ''q'', JNull])])) =
     canonicalWrite nat_lib (go_of nat_lib (JObj [(''a'', JArr [JStr ''q'', JNull]), (''b'', JNum ''7'')])) \<and>
   canonicalWrite nat_lib (go_of nat_lib (JObj [(''a'', JArr [])])) \<noteq>
     canonicalWrite nat_lib (go_of nat_lib (JObj [(''a'', JArr [JNull])]))"
proof -
  have u: "valid_utf8 ''a''" "valid_utf8 ''b''" "valid_utf8 ''x''" "valid_utf8 ''q''" by code_simp+
  have n: "jl_float nat_lib ''07'' = jl_float nat_lib ''7''" by (simp add: nat_lib_def) code_simp
  show ?thesis
    using canonical_bytes_exact [OF nat_lib_text, of "JObj [(''b'', JNum ''07''), (''x'', JNull), (''a'', JArr [JStr ''q'', JNull])]"
        "JObj [(''a'', JArr [JStr ''q'', JNull]), (''b'', JNum ''7'')]"]
      canonical_bytes_exact [OF nat_lib_text, of "JObj [(''a'', JArr [])]" "JObj [(''a'', JArr [JNull])]"]
    by (simp add: u n fun_eq_iff)
qed

end
