(* ===== verification/Snapshots.thy ===== *)
theory Snapshots
  imports Canonical_Json Vault
begin

text \<open>
  \<open>internal/catalog/snapshots/snapshot.go\<close> and \<open>fingerprint.go\<close>: the frozen view of a tenant's catalogue, its
  fingerprints over canonical JSON, and the difference of two snapshots.  A raw schema is its text; the digest
  (SHA-256 in hexadecimal) is an argument.  \<open>sort.Slice\<close> is a sort by the key that leaves equal keys in
  place.
\<close>

subsection \<open>Protocol types\<close>

record ToolAnnotations =
  ta_Title :: string
  ta_ReadOnlyHint :: "bool option"
  ta_DestructiveHint :: "bool option"
  ta_IdempotentHint :: "bool option"
  ta_OpenWorldHint :: "bool option"

record Icon =
  ic_Source :: string
  ic_Sizes :: string
  ic_Type :: string
  ic_Tag :: string

record Tool =
  tl_Name :: string
  tl_Description :: string
  tl_InputSchema :: string
  tl_Annotations :: "ToolAnnotations option"
  tl_Icons :: "Icon list"

record PromptArgument =
  pa_Name :: string
  pa_Description :: string
  pa_Required :: bool

subsection \<open>The snapshot\<close>

record ServerInfo =
  si_ID :: string
  si_DisplayName :: string
  si_Transport :: string
  si_RuntimeMode :: string
  si_SchemaHash :: string
  si_Health :: string

record ToolInfo =
  ti_NamespacedName :: string
  ti_ServerID :: string
  ti_Description :: string
  ti_InputSchema :: string
  ti_Annotations :: "ToolAnnotations option"
  ti_RiskClass :: string
  ti_RequiresApproval :: bool
  ti_SkillID :: string
  ti_Hash :: string

record ResourceInfo =
  ri_URI :: string
  ri_UpstreamURI :: string
  ri_ServerID :: string
  ri_MIMEType :: string

record PromptInfo =
  pi_NamespacedName :: string
  pi_ServerID :: string
  pi_Arguments :: "PromptArgument list"

record SkillInfo =
  ki_ID :: string
  ki_Version :: string
  ki_EnabledForSession :: bool
  ki_MissingTools :: "string list"

record PoliciesInfo =
  po_AllowList :: "string list"
  po_DenyList :: "string list"
  po_ApprovalTimeout :: duration
  po_DefaultRiskClass :: string

record CredentialInfo =
  ci_ServerID :: string
  ci_Strategy :: string
  ci_SecretRefs :: "string list"

record CatalogSnapshot =
  cs_ID :: string
  cs_TenantID :: string
  cs_SessionID :: string
  cs_CreatedAt :: time
  cs_Servers :: "ServerInfo list"
  cs_Tools :: "ToolInfo list"
  cs_Resources :: "ResourceInfo list"
  cs_Prompts :: "PromptInfo list"
  cs_Skills :: "SkillInfo list"
  cs_Policies :: PoliciesInfo
  cs_Credentials :: "CredentialInfo list"
  cs_Warnings :: "string list"
  cs_OverallHash :: string

record ModifiedTool =
  md_Name :: string
  md_FieldsChanged :: "string list"
  md_OldHash :: string
  md_NewHash :: string

record ToolDiff =
  td_Added :: "string list"
  td_Removed :: "string list"
  td_Modified :: "ModifiedTool list"

record NameDiff =
  nd_Added :: "string list"
  nd_Removed :: "string list"

record Diff =
  df_Tools :: ToolDiff
  df_Resources :: NameDiff
  df_Prompts :: NameDiff
  df_Skills :: NameDiff

definition IsEmpty :: "Diff \<Rightarrow> bool" where
  "IsEmpty d \<longleftrightarrow> td_Added (df_Tools d) = [] \<and> td_Removed (df_Tools d) = [] \<and> td_Modified (df_Tools d) = [] \<and>
     nd_Added (df_Resources d) = [] \<and> nd_Removed (df_Resources d) = [] \<and>
     nd_Added (df_Prompts d) = [] \<and> nd_Removed (df_Prompts d) = [] \<and>
     nd_Added (df_Skills d) = [] \<and> nd_Removed (df_Skills d) = []"

subsection \<open>Structs as documents\<close>

text \<open>What a struct becomes when it is marshalled and decoded again: invalid UTF-8 is replaced, fields marked
  \<open>omitempty\<close> are left out when empty.\<close>

definition utf8_replaced :: "string \<Rightarrow> string" where
  "utf8_replaced s = concat (map (\<lambda>r. if utf8_len r = 0 then [CHR 0xEF, CHR 0xBF, CHR 0xBD] else r) (utf8_runes s))"

definition text_json :: "string \<Rightarrow> json" where
  "text_json s = JStr (utf8_replaced s)"

definition omit_text :: "string \<Rightarrow> string \<Rightarrow> (string \<times> json) list" where
  "omit_text k s = (if s = '''' then [] else [(k, text_json s)])"

definition omit_flag :: "string \<Rightarrow> bool option \<Rightarrow> (string \<times> json) list" where
  "omit_flag k b = (case b of None \<Rightarrow> [] | Some c \<Rightarrow> [(k, JBool c)])"

definition omit_list :: "string \<Rightarrow> json list \<Rightarrow> (string \<times> json) list" where
  "omit_list k vs = (if vs = [] then [] else [(k, JArr vs)])"

definition list_json :: "json list \<Rightarrow> json" where
  "list_json vs = (if vs = [] then JNull else JArr vs)"

definition annotations_json :: "ToolAnnotations \<Rightarrow> json" where
  "annotations_json a = JObj (omit_text ''title'' (ta_Title a) @ omit_flag ''readOnlyHint'' (ta_ReadOnlyHint a) @
     omit_flag ''destructiveHint'' (ta_DestructiveHint a) @ omit_flag ''idempotentHint'' (ta_IdempotentHint a) @
     omit_flag ''openWorldHint'' (ta_OpenWorldHint a))"

definition icon_json :: "Icon \<Rightarrow> json" where
  "icon_json i = JObj ([(''source'', text_json (ic_Source i))] @ omit_text ''sizes'' (ic_Sizes i) @ omit_text ''type'' (ic_Type i) @
     omit_text ''tag'' (ic_Tag i))"

text \<open>A nil raw message is marshalled as null; text that is no JSON makes the marshaller fail.\<close>

definition raw_json :: "json_lib \<Rightarrow> string \<Rightarrow> json option" where
  "raw_json L raw = (if raw = '''' then Some JNull else jl_unmarshal L raw)"

definition tool_json :: "json_lib \<Rightarrow> Tool \<Rightarrow> json option" where
  "tool_json L t =
    (case raw_json L (tl_InputSchema t) of
       None \<Rightarrow> None
     | Some schema \<Rightarrow> Some (JObj ([(''name'', text_json (tl_Name t))] @ omit_text ''description'' (tl_Description t) @
         [(''inputSchema'', schema)] @
         (case tl_Annotations t of None \<Rightarrow> [] | Some a \<Rightarrow> [(''annotations'', annotations_json a)]) @
         omit_list ''icons'' (map icon_json (tl_Icons t)))))"

definition resource_json :: "ResourceInfo \<Rightarrow> json" where
  "resource_json r = JObj ([(''uri'', text_json (ri_URI r))] @ omit_text ''upstream_uri'' (ri_UpstreamURI r) @
     [(''server_id'', text_json (ri_ServerID r))] @ omit_text ''mime_type'' (ri_MIMEType r))"

definition argument_json :: "PromptArgument \<Rightarrow> json" where
  "argument_json a = JObj ([(''name'', text_json (pa_Name a))] @ omit_text ''description'' (pa_Description a) @
     (if pa_Required a then [(''required'', JBool True)] else []))"

definition prompt_json :: "PromptInfo \<Rightarrow> json" where
  "prompt_json p = JObj ([(''namespaced_name'', text_json (pi_NamespacedName p)), (''server_id'', text_json (pi_ServerID p))] @
     omit_list ''arguments'' (map argument_json (pi_Arguments p)))"

definition server_json :: "ServerInfo \<Rightarrow> json" where
  "server_json s = JObj ([(''id'', text_json (si_ID s))] @ omit_text ''display_name'' (si_DisplayName s) @
     [(''transport'', text_json (si_Transport s))] @ omit_text ''runtime_mode'' (si_RuntimeMode s) @
     [(''schema_hash'', text_json (si_SchemaHash s)), (''health'', text_json (si_Health s))])"

definition skill_json :: "SkillInfo \<Rightarrow> json" where
  "skill_json k = JObj ([(''id'', text_json (ki_ID k)), (''version'', text_json (ki_Version k)),
     (''enabled_for_session'', JBool (ki_EnabledForSession k))] @ omit_list ''missing_tools'' (map text_json (ki_MissingTools k)))"

definition policies_json :: "PoliciesInfo \<Rightarrow> json" where
  "policies_json p = JObj (omit_list ''allow_list'' (map text_json (po_AllowList p)) @
     omit_list ''deny_list'' (map text_json (po_DenyList p)) @
     (if po_ApprovalTimeout p = 0 then [] else [(''approval_timeout'', JNum (dec_int (po_ApprovalTimeout p)))]) @
     omit_text ''default_risk_class'' (po_DefaultRiskClass p))"

definition credential_json :: "CredentialInfo \<Rightarrow> json" where
  "credential_json c = JObj ([(''server_id'', text_json (ci_ServerID c))] @ omit_text ''strategy'' (ci_Strategy c) @
     omit_list ''secret_refs'' (map text_json (ci_SecretRefs c)))"

subsection \<open>Fingerprints\<close>

type_synonym digest = "string \<Rightarrow> string"

text \<open>An encoding error leaves no bytes, and the digest of no bytes is taken.\<close>

definition fingerprint :: "json_lib \<Rightarrow> digest \<Rightarrow> goval \<Rightarrow> string" where
  "fingerprint L sha v = sha (case canonicalEncode L v of None \<Rightarrow> '''' | Some b \<Rightarrow> b)"

text \<open>\<open>rawJSONOrNil\<close> hands on a byte slice, which \<open>encoding/json\<close> prints in base64.\<close>

definition rawJSONOrNil :: "string \<Rightarrow> goval" where
  "rawJSONOrNil b = (if b = '''' then GNil else GOther (Some (JStr (std_encode b))))"

definition ToolFingerprint :: "json_lib \<Rightarrow> digest \<Rightarrow> ToolInfo \<Rightarrow> string" where
  "ToolFingerprint L sha t = fingerprint L sha (GMap
    [(''namespaced_name'', GStr (ti_NamespacedName t)),
     (''server_id'', GStr (ti_ServerID t)),
     (''description'', GStr (ti_Description t)),
     (''input_schema'', rawJSONOrNil (ti_InputSchema t)),
     (''annotations'', GOther (Some (case ti_Annotations t of None \<Rightarrow> JNull | Some a \<Rightarrow> annotations_json a))),
     (''risk_class'', GStr (ti_RiskClass t)),
     (''requires_approval'', GBool (ti_RequiresApproval t)),
     (''skill_id'', GStr (ti_SkillID t))])"

definition ServerToolsFingerprint :: "json_lib \<Rightarrow> digest \<Rightarrow> Tool list \<Rightarrow> string" where
  "ServerToolsFingerprint L sha tools =
    fingerprint L sha (GOther (map_option list_json (those (map (tool_json L) (sort_key tl_Name tools)))))"

definition ResourcesFingerprint :: "json_lib \<Rightarrow> digest \<Rightarrow> ResourceInfo list \<Rightarrow> string" where
  "ResourcesFingerprint L sha rs = fingerprint L sha (GOther (Some (list_json (map resource_json (sort_key ri_URI rs)))))"

definition PromptsFingerprint :: "json_lib \<Rightarrow> digest \<Rightarrow> PromptInfo list \<Rightarrow> string" where
  "PromptsFingerprint L sha ps = fingerprint L sha (GOther (Some (list_json (map prompt_json (sort_key pi_NamespacedName ps)))))"

definition sortedSkills :: "SkillInfo list \<Rightarrow> SkillInfo list" where
  "sortedSkills ks = sort_key ki_ID ks"

definition sortedCreds :: "CredentialInfo list \<Rightarrow> CredentialInfo list" where
  "sortedCreds cs = sort_key ci_ServerID cs"

definition OverallFingerprint :: "json_lib \<Rightarrow> digest \<Rightarrow> CatalogSnapshot \<Rightarrow> string" where
  "OverallFingerprint L sha s =
    (let tHashes = map (\<lambda>t. ti_NamespacedName t @ '':'' @ ti_Hash t) (sort_key ti_NamespacedName (cs_Tools s)) in
     fingerprint L sha (GMap
      [(''servers'', GOther (Some (list_json (map server_json (sort_key si_ID (cs_Servers s)))))),
       (''tool_hashes'', GOther (Some (JArr (map text_json tHashes)))),
       (''resources_hash'', GStr (ResourcesFingerprint L sha (cs_Resources s))),
       (''prompts_hash'', GStr (PromptsFingerprint L sha (cs_Prompts s))),
       (''skills'', GOther (Some (list_json (map skill_json (sortedSkills (cs_Skills s)))))),
       (''policies'', GOther (Some (policies_json (cs_Policies s)))),
       (''credentials'', GOther (Some (list_json (map credential_json (sortedCreds (cs_Credentials s))))))]))"

subsection \<open>Differences\<close>

definition indexToolsByName :: "ToolInfo list \<Rightarrow> (string, ToolInfo) amap" where
  "indexToolsByName ts = fold (\<lambda>t m. aput (ti_NamespacedName t) t m) ts []"

definition equalAnnotations :: "json_lib \<Rightarrow> ToolAnnotations option \<Rightarrow> ToolAnnotations option \<Rightarrow> bool" where
  "equalAnnotations L a b =
    (case (a, b) of
       (None, None) \<Rightarrow> True
     | (Some x, Some y) \<Rightarrow>
         (case canonicalEncode L (GOther (Some (annotations_json x))) of None \<Rightarrow> '''' | Some t \<Rightarrow> t) =
         (case canonicalEncode L (GOther (Some (annotations_json y))) of None \<Rightarrow> '''' | Some t \<Rightarrow> t)
     | _ \<Rightarrow> False)"

definition changedFields :: "json_lib \<Rightarrow> ToolInfo \<Rightarrow> ToolInfo \<Rightarrow> string list" where
  "changedFields L a b =
    (if ti_InputSchema a \<noteq> ti_InputSchema b then [''input_schema''] else []) @
    (if ti_Description a \<noteq> ti_Description b then [''description''] else []) @
    (if \<not> equalAnnotations L (ti_Annotations a) (ti_Annotations b) then [''annotations''] else []) @
    (if ti_RiskClass a \<noteq> ti_RiskClass b then [''risk_class''] else []) @
    (if ti_RequiresApproval a \<noteq> ti_RequiresApproval b then [''requires_approval''] else []) @
    (if ti_SkillID a \<noteq> ti_SkillID b then [''skill_id''] else [])"

definition modified_tool :: "json_lib \<Rightarrow> string \<Rightarrow> ToolInfo \<Rightarrow> ToolInfo \<Rightarrow> ModifiedTool" where
  "modified_tool L name oldTool newTool =
    \<lparr> md_Name = name, md_FieldsChanged = changedFields L oldTool newTool, md_OldHash = ti_Hash oldTool, md_NewHash = ti_Hash newTool \<rparr>"

definition setOf :: "('a \<Rightarrow> string) \<Rightarrow> 'a list \<Rightarrow> string list" where
  "setOf key xs = remdups (map key xs)"

definition sortedDiff :: "string list \<Rightarrow> string list \<Rightarrow> string list" where
  "sortedDiff a b = sort (filter (\<lambda>k. k \<notin> set b) a)"

definition name_diff :: "('a \<Rightarrow> string) \<Rightarrow> 'a list \<Rightarrow> 'a list \<Rightarrow> NameDiff" where
  "name_diff key a b = \<lparr> nd_Added = sortedDiff (setOf key b) (setOf key a), nd_Removed = sortedDiff (setOf key a) (setOf key b) \<rparr>"

definition modified_in :: "json_lib \<Rightarrow> (string, ToolInfo) amap \<Rightarrow> string \<times> ToolInfo \<Rightarrow> ModifiedTool list" where
  "modified_in L bTools e =
    (case aget bTools (fst e) of
       None \<Rightarrow> []
     | Some newTool \<Rightarrow> if ti_Hash (snd e) \<noteq> ti_Hash newTool then [modified_tool L (fst e) (snd e) newTool] else [])"

definition DiffSnapshots :: "json_lib \<Rightarrow> CatalogSnapshot \<Rightarrow> CatalogSnapshot \<Rightarrow> Diff" where
  "DiffSnapshots L a b =
    (let aTools = indexToolsByName (cs_Tools a); bTools = indexToolsByName (cs_Tools b) in
     \<lparr> df_Tools =
         \<lparr> td_Added = sort (filter (\<lambda>n. aget aTools n = None) (akeys bTools)),
           td_Removed = sort (filter (\<lambda>n. aget bTools n = None) (akeys aTools)),
           td_Modified = sort_key md_Name (concat (map (modified_in L bTools) aTools)) \<rparr>,
       df_Resources = name_diff ri_URI (cs_Resources a) (cs_Resources b),
       df_Prompts = name_diff pi_NamespacedName (cs_Prompts a) (cs_Prompts b),
       df_Skills = name_diff ki_ID (cs_Skills a) (cs_Skills b) \<rparr>)"

subsection \<open>Differences are exact\<close>

text \<open>The last tool of a name counts.\<close>

definition tool_named :: "ToolInfo list \<Rightarrow> string \<Rightarrow> ToolInfo option" where
  "tool_named ts n = List.find (\<lambda>t. ti_NamespacedName t = n) (rev ts)"

lemma index_snoc: "indexToolsByName (ts @ [t]) = aput (ti_NamespacedName t) t (indexToolsByName ts)"
  by (simp add: indexToolsByName_def)

lemma aget_index: "aget (indexToolsByName ts) n = tool_named ts n"
  by (induction ts rule: rev_induct)
    (simp_all add: index_snoc tool_named_def del: fold_append, simp add: indexToolsByName_def)

lemma distinct_index: "distinct (akeys (indexToolsByName ts))"
  by (induction ts rule: rev_induct) (simp_all add: index_snoc distinct_update, simp add: indexToolsByName_def)

lemma tool_named_None: "tool_named ts n = None \<longleftrightarrow> n \<notin> ti_NamespacedName ` set ts"
  by (auto simp: tool_named_def find_None_iff)

lemma index_keys: "set (akeys (indexToolsByName ts)) = ti_NamespacedName ` set ts"
proof -
  have "n \<in> set (akeys (indexToolsByName ts)) \<longleftrightarrow> n \<in> ti_NamespacedName ` set ts" for n
    using map_of_eq_None_iff [of "indexToolsByName ts" n] tool_named_None [of ts n] by (auto simp: aget_index)
  then show ?thesis by blast
qed

lemma sortedDiff_exact:
  "set (sortedDiff (setOf key a) (setOf key b)) = key ` set a - key ` set b"
  "sorted (sortedDiff (setOf key a) (setOf key b))" "distinct (sortedDiff (setOf key a) (setOf key b))"
  by (auto simp: sortedDiff_def setOf_def)

lemma name_diff_exact:
  "set (nd_Added (name_diff key p q)) = key ` set q - key ` set p"
  "set (nd_Removed (name_diff key p q)) = key ` set p - key ` set q"
  by (simp_all add: name_diff_def sortedDiff_exact)

text \<open>What a pair of added and removed names promises: exactly the names only one side has, each once and in order.\<close>

definition names_exact :: "NameDiff \<Rightarrow> string set \<Rightarrow> string set \<Rightarrow> bool" where
  "names_exact nd P Q \<longleftrightarrow> set (nd_Added nd) = Q - P \<and> set (nd_Removed nd) = P - Q \<and>
     sorted (nd_Added nd) \<and> sorted (nd_Removed nd) \<and> distinct (nd_Added nd) \<and> distinct (nd_Removed nd)"

lemma name_diff_names: "names_exact (name_diff key p q) (key ` set p) (key ` set q)"
  by (simp add: names_exact_def name_diff_def sortedDiff_exact)

lemma name_diff_empty:
  "nd_Added (name_diff key p q) = [] \<longleftrightarrow> key ` set q \<subseteq> key ` set p"
  "nd_Removed (name_diff key p q) = [] \<longleftrightarrow> key ` set p \<subseteq> key ` set q"
  using name_diff_exact [of key p q] by (auto simp flip: set_empty)

lemma modified_exact:
  "set (concat (map (modified_in L (indexToolsByName bs)) (indexToolsByName as))) =
    {modified_tool L n s t | n s t. tool_named as n = Some s \<and> tool_named bs n = Some t \<and> ti_Hash s \<noteq> ti_Hash t}"
proof -
  have ok: "amap_ok (indexToolsByName as)" using distinct_index by (simp add: amap_ok_def)
  have m: "set (modified_in L (indexToolsByName bs) (n, s)) = {modified_tool L n s t | t. tool_named bs n = Some t \<and> ti_Hash s \<noteq> ti_Hash t}"
    for n s by (auto simp: modified_in_def aget_index split: option.splits if_splits)
  have "set (concat (map (modified_in L (indexToolsByName bs)) (indexToolsByName as))) =
      (\<Union>(n, s) \<in> set (indexToolsByName as). set (modified_in L (indexToolsByName bs) (n, s)))" by auto
  also have "\<dots> = {modified_tool L n s t | n s t. (n, s) \<in> set (indexToolsByName as) \<and> tool_named bs n = Some t \<and> ti_Hash s \<noteq> ti_Hash t}"
    unfolding m by blast
  finally show ?thesis by (simp add: aget_iff_mem [OF ok, symmetric] aget_index)
qed

lemma same_hashes:
  "map_option ti_Hash \<circ> tool_named as = map_option ti_Hash \<circ> tool_named bs \<longleftrightarrow>
    ti_NamespacedName ` set as = ti_NamespacedName ` set bs \<and>
    (\<forall>n s t. tool_named as n = Some s \<and> tool_named bs n = Some t \<longrightarrow> ti_Hash s = ti_Hash t)"
proof -
  have one: "map_option ti_Hash p = map_option ti_Hash q \<longleftrightarrow>
      (p = None \<longleftrightarrow> q = None) \<and> (\<forall>s t. p = Some s \<and> q = Some t \<longrightarrow> ti_Hash s = ti_Hash t)" for p q
    by (cases p; cases q) auto
  have "ti_NamespacedName ` set as = ti_NamespacedName ` set bs \<longleftrightarrow> (\<forall>n. tool_named as n = None \<longleftrightarrow> tool_named bs n = None)"
    unfolding tool_named_None by blast
  then show ?thesis by (simp only: fun_eq_iff comp_def one all_conj_distrib)
qed

text \<open>C18: the difference of two snapshots lists exactly the tools that only one of them has and the tools whose hashes differ,
  and for resources, prompts and skills exactly the names only one of them has, each list in order and without
  repetition (prompts and skills of the same name are not compared further); it is empty exactly if both have the same names
  everywhere and every tool has the same hash.\<close>

theorem diff_exact:
  fixes L a b
  defines "d \<equiv> DiffSnapshots L a b"
  shows "set (td_Added (df_Tools d)) = ti_NamespacedName ` set (cs_Tools b) - ti_NamespacedName ` set (cs_Tools a) \<and>
    set (td_Removed (df_Tools d)) = ti_NamespacedName ` set (cs_Tools a) - ti_NamespacedName ` set (cs_Tools b) \<and>
    set (td_Modified (df_Tools d)) = {modified_tool L n s t | n s t. tool_named (cs_Tools a) n = Some s \<and>
      tool_named (cs_Tools b) n = Some t \<and> ti_Hash s \<noteq> ti_Hash t} \<and>
    sorted (td_Added (df_Tools d)) \<and> sorted (td_Removed (df_Tools d)) \<and> sorted (map md_Name (td_Modified (df_Tools d))) \<and>
    distinct (td_Added (df_Tools d)) \<and> distinct (td_Removed (df_Tools d)) \<and>
    names_exact (df_Resources d) (ri_URI ` set (cs_Resources a)) (ri_URI ` set (cs_Resources b)) \<and>
    names_exact (df_Prompts d) (pi_NamespacedName ` set (cs_Prompts a)) (pi_NamespacedName ` set (cs_Prompts b)) \<and>
    names_exact (df_Skills d) (ki_ID ` set (cs_Skills a)) (ki_ID ` set (cs_Skills b)) \<and>
    (IsEmpty d \<longleftrightarrow> map_option ti_Hash \<circ> tool_named (cs_Tools a) = map_option ti_Hash \<circ> tool_named (cs_Tools b) \<and>
      ri_URI ` set (cs_Resources a) = ri_URI ` set (cs_Resources b) \<and>
      pi_NamespacedName ` set (cs_Prompts a) = pi_NamespacedName ` set (cs_Prompts b) \<and>
      ki_ID ` set (cs_Skills a) = ki_ID ` set (cs_Skills b))"
proof -
  have added: "set (td_Added (df_Tools d)) = ti_NamespacedName ` set (cs_Tools b) - ti_NamespacedName ` set (cs_Tools a)"
    and removed: "set (td_Removed (df_Tools d)) = ti_NamespacedName ` set (cs_Tools a) - ti_NamespacedName ` set (cs_Tools b)"
    by (auto simp: d_def DiffSnapshots_def Let_def aget_index tool_named_None set_diff_eq index_keys simp del: set_map)
  have modified: "set (td_Modified (df_Tools d)) = {modified_tool L n s t | n s t. tool_named (cs_Tools a) n = Some s \<and>
      tool_named (cs_Tools b) n = Some t \<and> ti_Hash s \<noteq> ti_Hash t}"
    unfolding d_def DiffSnapshots_def Let_def using modified_exact [of L "cs_Tools b" "cs_Tools a"] by (simp only: ToolDiff.simps Diff.simps set_sort)
  have fields: "df_Resources d = name_diff ri_URI (cs_Resources a) (cs_Resources b)"
      "df_Prompts d = name_diff pi_NamespacedName (cs_Prompts a) (cs_Prompts b)" "df_Skills d = name_diff ki_ID (cs_Skills a) (cs_Skills b)"
    by (simp_all add: d_def DiffSnapshots_def Let_def)
  define M where "M \<longleftrightarrow> (\<forall>n s t. tool_named (cs_Tools a) n = Some s \<and> tool_named (cs_Tools b) n = Some t \<longrightarrow> ti_Hash s = ti_Hash t)"
  have "td_Modified (df_Tools d) = [] \<longleftrightarrow> M" using modified unfolding M_def by (auto simp flip: set_empty)
  moreover have "xs = [] \<longleftrightarrow> A \<subseteq> B" if "set xs = A - B" for xs :: "string list" and A B using that by (auto simp flip: set_empty)
  note this [OF added] this [OF removed]
  ultimately have "IsEmpty d \<longleftrightarrow> map_option ti_Hash \<circ> tool_named (cs_Tools a) = map_option ti_Hash \<circ> tool_named (cs_Tools b) \<and>
      ri_URI ` set (cs_Resources a) = ri_URI ` set (cs_Resources b) \<and>
      pi_NamespacedName ` set (cs_Prompts a) = pi_NamespacedName ` set (cs_Prompts b) \<and>
      ki_ID ` set (cs_Skills a) = ki_ID ` set (cs_Skills b)"
    unfolding IsEmpty_def same_hashes fields M_def [symmetric] by (simp only: name_diff_empty set_eq_subset conj_ac)
  with added removed modified show ?thesis unfolding fields by (simp add: name_diff_names d_def DiffSnapshots_def Let_def distinct_index)
qed

subsection \<open>Tool fingerprints are exact\<close>

lemma replaced_valid: "valid_utf8 s \<Longrightarrow> utf8_replaced s = s"
proof -
  assume v: "valid_utf8 s"
  have "map (\<lambda>r. if utf8_len r = 0 then [CHR 0xEF, CHR 0xBF, CHR 0xBD] else r) (utf8_runes s) = utf8_runes s"
    using v runes_nonempty [of s] by (intro map_idI) (auto simp: valid_utf8_def list_all_iff)
  then show ?thesis unfolding utf8_replaced_def by (simp only: concat_runes)
qed

lemma std_encode_ascii: "valid_utf8 (std_encode s)"
proof (rule ascii_valid)
  have "list_all (\<lambda>c. byte_of (std_char c) < 0x80) b64_url_alphabet" by code_simp
  then have "byte_of (std_char c) < 0x80" if "c \<in> set (raw_url_encode s)" for c
    using raw_chars [OF that] unfolding list_all_iff by blast
  then show "list_all (\<lambda>c. byte_of c < 0x80) (std_encode s)"
    by (auto simp: std_encode_def b64_padding_def list_all_iff byte_of_def)
qed

lemma std_encode_inject: "std_encode a = std_encode b \<Longrightarrow> a = b"
  by (metis std_roundtrip option.inject)

text \<open>The members of the hashed map in the order of their names.\<close>

definition annotations_value :: "ToolInfo \<Rightarrow> json" where
  "annotations_value t = (case ti_Annotations t of None \<Rightarrow> JNull | Some a \<Rightarrow> annotations_json a)"

definition tool_fields :: "ToolInfo \<Rightarrow> (string \<times> json) list" where
  "tool_fields t =
    [(''annotations'', annotations_value t), (''description'', JStr (ti_Description t))] @
    (if ti_InputSchema t = '''' then [] else [(''input_schema'', JStr (std_encode (ti_InputSchema t)))]) @
    [(''namespaced_name'', JStr (ti_NamespacedName t)), (''requires_approval'', JBool (ti_RequiresApproval t)),
     (''risk_class'', JStr (ti_RiskClass t)), (''server_id'', JStr (ti_ServerID t)), (''skill_id'', JStr (ti_SkillID t))]"

definition tool_map :: "ToolInfo \<Rightarrow> (string \<times> goval) list" where
  "tool_map t =
    [(''namespaced_name'', GStr (ti_NamespacedName t)), (''server_id'', GStr (ti_ServerID t)), (''description'', GStr (ti_Description t)),
     (''input_schema'', rawJSONOrNil (ti_InputSchema t)), (''annotations'', GOther (Some (annotations_value t))),
     (''risk_class'', GStr (ti_RiskClass t)), (''requires_approval'', GBool (ti_RequiresApproval t)), (''skill_id'', GStr (ti_SkillID t))]"

definition tool_live :: "ToolInfo \<Rightarrow> (string \<times> goval) list" where
  "tool_live t =
    [(''annotations'', GOther (Some (annotations_value t))), (''description'', GStr (ti_Description t))] @
    (if ti_InputSchema t = '''' then [] else [(''input_schema'', GOther (Some (JStr (std_encode (ti_InputSchema t)))))]) @
    [(''namespaced_name'', GStr (ti_NamespacedName t)), (''requires_approval'', GBool (ti_RequiresApproval t)),
     (''risk_class'', GStr (ti_RiskClass t)), (''server_id'', GStr (ti_ServerID t)), (''skill_id'', GStr (ti_SkillID t))]"

lemma sort_key_unique:
  fixes xs ys :: "('k::linorder \<times> 'v) list"
  assumes "distinct (map fst xs)" "set xs = set ys" "distinct (map fst ys)" "sorted (map fst ys)"
  shows "sort_key fst xs = ys"
proof (rule map_sorted_distinct_set_unique [of fst])
  show "inj_on fst (set (sort_key fst xs) \<union> set ys)" using assms(2,3) by (simp add: distinct_map)
  have "mset (map fst (sort_key fst xs)) = mset (map fst xs)" by simp
  then show "distinct (map fst (sort_key fst xs))" using assms(1) by (metis mset_eq_imp_distinct_iff)
qed (use assms in simp_all)

lemma tool_keys_sorted:
  "sorted [''annotations'', ''description'', ''input_schema'', ''namespaced_name'', ''requires_approval'', ''risk_class'', ''server_id'', ''skill_id'']"
  "sorted [''annotations'', ''description'', ''namespaced_name'', ''requires_approval'', ''risk_class'', ''server_id'', ''skill_id'']"
  by code_simp+

lemma live_tool: "live_members (tool_map t) = tool_live t"
  unfolding live_members_def
proof (rule sort_key_unique)
  show "distinct (akeys (filter (\<lambda>kv. snd kv \<noteq> GNil) (tool_map t)))"
    by (rule distinct_map_filter) (simp add: tool_map_def)
  show "set (filter (\<lambda>kv. snd kv \<noteq> GNil) (tool_map t)) = set (tool_live t)"
    by (auto simp: tool_map_def tool_live_def rawJSONOrNil_def)
  show "distinct (akeys (tool_live t))" by (simp add: tool_live_def)
  show "sorted (akeys (tool_live t))" using tool_keys_sorted by (simp add: tool_live_def del: sorted_simps)
qed

lemma tool_bytes:
  "canonicalEncode L (GMap (tool_map t)) =
    Some (''{'' @ commas (map (\<lambda>kv. json_key (fst kv) @ canonical_text L (snd kv)) (tool_fields t)) @ ''}'')"
proof -
  have "map (\<lambda>kv. map_option (\<lambda>w. json_key (fst kv) @ w) (canonicalWrite L (snd kv))) (tool_live t) =
      map (\<lambda>kv. Some (json_key (fst kv) @ canonical_text L (snd kv))) (tool_fields t)"
    by (simp add: tool_live_def tool_fields_def write_decoded del: go_of.simps)
  then have "those (map (\<lambda>kv. map_option (\<lambda>w. json_key (fst kv) @ w) (canonicalWrite L (snd kv))) (tool_live t)) =
      Some (map (\<lambda>kv. json_key (fst kv) @ canonical_text L (snd kv)) (tool_fields t))" by (simp only: those_Some)
  then show ?thesis by (simp add: canonicalEncode_def live_tool)
qed

lemma tool_fingerprint_map: "ToolFingerprint L sha t = fingerprint L sha (GMap (tool_map t))"
  by (simp add: ToolFingerprint_def tool_map_def annotations_value_def)

definition texts_ok :: "ToolInfo \<Rightarrow> bool" where
  "texts_ok t \<longleftrightarrow> list_all valid_utf8 [ti_NamespacedName t, ti_ServerID t, ti_Description t, ti_RiskClass t, ti_SkillID t] \<and>
     (case ti_Annotations t of None \<Rightarrow> True | Some a \<Rightarrow> valid_utf8 (ta_Title a))"

lemma hint_names_ok: "list_all valid_utf8 [''title'', ''readOnlyHint'', ''destructiveHint'', ''idempotentHint'', ''openWorldHint'']"
  by code_simp

lemma field_names_ok: "list_all valid_utf8 [''annotations'', ''description'', ''input_schema'', ''namespaced_name'', ''requires_approval'',
    ''risk_class'', ''server_id'', ''skill_id'']"
  by code_simp

lemma omit_keys: "fst ` set (omit_text k s) \<subseteq> {k}" "fst ` set (omit_flag k b) \<subseteq> {k}" "distinct (map fst (omit_text k s))"
    "distinct (map fst (omit_flag k b))"
  by (auto simp: omit_text_def omit_flag_def split: option.splits)

lemma annotations_ok:
  assumes "valid_utf8 (ta_Title a)"
  shows "json_ok (annotations_json a)"
  using assms hint_names_ok
  by (cases "ta_ReadOnlyHint a"; cases "ta_DestructiveHint a"; cases "ta_IdempotentHint a"; cases "ta_OpenWorldHint a")
    (simp_all add: annotations_json_def omit_text_def omit_flag_def text_json_def replaced_valid)

lemma map_of_omit:
  "k' \<notin> fst ` set rest \<Longrightarrow> map_of (map (\<lambda>kv. (fst kv, f (snd kv))) (filter P rest)) k' = None"
  by (force simp: map_of_eq_None_iff)

lemma annotations_inject:
  assumes "valid_utf8 (ta_Title a)" "valid_utf8 (ta_Title b)" "doc_of L (annotations_json a) = doc_of L (annotations_json b)"
  shows "a = b"
proof -
  define m where "m = (\<lambda>c :: ToolAnnotations. map_of (map (\<lambda>kv. (fst kv, doc_of L (snd kv))) (filter (\<lambda>kv. snd kv \<noteq> JNull)
    (omit_text ''title'' (ta_Title c) @ omit_flag ''readOnlyHint'' (ta_ReadOnlyHint c) @ omit_flag ''destructiveHint'' (ta_DestructiveHint c) @
     omit_flag ''idempotentHint'' (ta_IdempotentHint c) @ omit_flag ''openWorldHint'' (ta_OpenWorldHint c)))))"
  have eq: "m a = m b" using assms(3) by (simp add: m_def annotations_json_def)
  have title: "m c ''title'' = (if ta_Title c = '''' then None else Some (DStr (utf8_replaced (ta_Title c))))" for c
    by (auto simp: m_def omit_text_def omit_flag_def text_json_def split: option.splits)
  have hints: "m c ''readOnlyHint'' = map_option DBool (ta_ReadOnlyHint c)" "m c ''destructiveHint'' = map_option DBool (ta_DestructiveHint c)"
      "m c ''idempotentHint'' = map_option DBool (ta_IdempotentHint c)" "m c ''openWorldHint'' = map_option DBool (ta_OpenWorldHint c)" for c
    by (auto simp: m_def omit_text_def omit_flag_def text_json_def split: option.splits)
  have "ta_Title a = ta_Title b"
    using fun_cong [OF eq, of "''title''"] assms(1,2) by (auto simp: title replaced_valid split: if_splits)
  moreover have "map_option DBool p = map_option DBool q \<Longrightarrow> p = q" for p q by (cases p; cases q) auto
  ultimately show ?thesis
    using fun_cong [OF eq, of "''readOnlyHint''"] fun_cong [OF eq, of "''destructiveHint''"] fun_cong [OF eq, of "''idempotentHint''"]
      fun_cong [OF eq, of "''openWorldHint''"] unfolding hints by (intro ToolAnnotations.equality) auto
qed

lemma fields_ok: "texts_ok t \<Longrightarrow> kv \<in> set (tool_fields t) \<Longrightarrow> valid_utf8 (fst kv) \<and> json_ok (snd kv)"
proof -
  assume t: "texts_ok t"
  have "json_ok (annotations_value t)" using t annotations_ok by (auto simp: texts_ok_def annotations_value_def split: option.splits)
  then have "list_all (\<lambda>kv. valid_utf8 (fst kv) \<and> json_ok (snd kv)) (tool_fields t)"
    using t field_names_ok std_encode_ascii by (simp add: tool_fields_def texts_ok_def)
  then show "kv \<in> set (tool_fields t) \<Longrightarrow> valid_utf8 (fst kv) \<and> json_ok (snd kv)" by (simp add: list_all_iff)
qed

lemma fields_inject:
  assumes f: "float_text L" and ok: "texts_ok s" "texts_ok t"
    and eq: "commas (map (\<lambda>kv. json_key (fst kv) @ canonical_text L (snd kv)) (tool_fields s)) @ ''}'' =
      commas (map (\<lambda>kv. json_key (fst kv) @ canonical_text L (snd kv)) (tool_fields t)) @ ''}''"
  shows "map (\<lambda>kv. (fst kv, doc_of L (snd kv))) (tool_fields s) = map (\<lambda>kv. (fst kv, doc_of L (snd kv))) (tool_fields t)"
proof -
  let ?f = "\<lambda>kv. json_key (fst kv) @ canonical_text L (snd kv)" and ?g = "\<lambda>kv. (fst kv, doc_of L (snd kv))"
  have "map ?g (tool_fields s) = map ?g (tool_fields t) \<and> [] = ([] :: string)"
  proof (rule commas_inject [of "set (tool_fields s)" "set (tool_fields t)" ?f _ "CHR ''}''"])
    show "?g v = ?g w \<and> x = y"
      if "v \<in> set (tool_fields s)" "w \<in> set (tool_fields t)" "delimited x" "delimited y" "?f v @ x = ?f w @ y" for v w x y
      using member_text_inject [OF _ _ that(5)] text_inject [OF f _ _ that(3,4), of "snd v" "snd w"] fields_ok [OF ok(1) that(1)]
        fields_ok [OF ok(2) that(2)] by auto
    show "commas (map ?f (tool_fields s)) @ CHR ''}'' # [] = commas (map ?f (tool_fields t)) @ CHR ''}'' # []" using eq by simp
  qed (auto simp: json_key_def json_string_def no_num_char)
  then show ?thesis by simp
qed

lemma fingerprint_iff:
  assumes "float_text L" and "inj sha" and "texts_ok s" and "texts_ok t"
  shows "ToolFingerprint L sha s = ToolFingerprint L sha t \<longleftrightarrow> s \<lparr> ti_Hash := '''' \<rparr> = t \<lparr> ti_Hash := '''' \<rparr>"
proof
  assume "ToolFingerprint L sha s = ToolFingerprint L sha t"
  then have "commas (map (\<lambda>kv. json_key (fst kv) @ canonical_text L (snd kv)) (tool_fields s)) @ ''}'' =
      commas (map (\<lambda>kv. json_key (fst kv) @ canonical_text L (snd kv)) (tool_fields t)) @ ''}''"
    using assms(2) by (simp add: tool_fingerprint_map fingerprint_def tool_bytes inj_eq)
  then have eq: "map (\<lambda>kv. (fst kv, doc_of L (snd kv))) (tool_fields s) = map (\<lambda>kv. (fst kv, doc_of L (snd kv))) (tool_fields t)"
    by (rule fields_inject [OF assms(1,3,4)])
  then have schema: "ti_InputSchema s = ti_InputSchema t" and doc: "doc_of L (annotations_value s) = doc_of L (annotations_value t)"
    by (auto simp: tool_fields_def dest: std_encode_inject split: if_splits)
  have "ti_Annotations s = ti_Annotations t"
    using doc assms(3,4) annotations_inject
    by (auto simp: annotations_value_def texts_ok_def annotations_json_def split: option.splits)
  with eq schema show "s \<lparr> ti_Hash := '''' \<rparr> = t \<lparr> ti_Hash := '''' \<rparr>"
    by (intro ToolInfo.equality) (simp_all add: tool_fields_def split: if_splits)
next
  assume eq: "s \<lparr> ti_Hash := '''' \<rparr> = t \<lparr> ti_Hash := '''' \<rparr>"
  have "tool_map u = tool_map (u \<lparr> ti_Hash := '''' \<rparr>)" for u :: ToolInfo by (simp add: tool_map_def annotations_value_def)
  then have "tool_map s = tool_map t" using eq by metis
  then show "ToolFingerprint L sha s = ToolFingerprint L sha t" by (simp add: tool_fingerprint_map)
qed

text \<open>C17: with a digest that has no collisions the fingerprint of a tool changes exactly when something a session sees of it
  changes: its names, description, the text of its schema, annotations, risk class, approval requirement or owning skill.\<close>

theorem tool_fingerprint_exact:
  assumes "float_text L" and "inj sha" and "texts_ok s" and "texts_ok t"
  shows "ToolFingerprint L sha s = ToolFingerprint L sha t \<longleftrightarrow> s \<lparr> ti_Hash := '''' \<rparr> = t \<lparr> ti_Hash := '''' \<rparr>"
  by (rule fingerprint_iff [OF assms])

definition plain_tool :: "string \<Rightarrow> ToolInfo" where
  "plain_tool risk = \<lparr> ti_NamespacedName = ''gh.search'', ti_ServerID = ''gh'', ti_Description = '''', ti_InputSchema = ''{}'',
     ti_Annotations = None, ti_RiskClass = risk, ti_RequiresApproval = False, ti_SkillID = '''', ti_Hash = '''' \<rparr>"

theorem tool_fingerprint_exact_witness:
  "ToolFingerprint nat_lib (\<lambda>s. s) (plain_tool ''write'') \<noteq> ToolFingerprint nat_lib (\<lambda>s. s) (plain_tool '''')"
proof -
  have "list_all valid_utf8 [''gh.search'', ''gh'', '''', ''write'']" by code_simp
  then have "texts_ok (plain_tool ''write'')" "texts_ok (plain_tool '''')" by (simp_all add: texts_ok_def plain_tool_def)
  from tool_fingerprint_exact [OF nat_lib_text _ this, of "\<lambda>s. s"] show ?thesis by (simp add: plain_tool_def)
qed

end
