(* ===== verification/Drift.thy ===== *)
theory Drift
  imports Snapshots Sql_Rows Audit_Events
begin

text \<open>
  The snapshot service and the drift detector: \<open>internal/storage/sqlite/snapshot_store.go\<close> with its adapter
  (\<open>store_adapter.go\<close>), \<open>Service\<close> (\<open>service.go\<close>), \<open>Detector\<close> (\<open>drift.go\<close>) and the binding of
  snapshots to sessions (\<open>internal/server/mcpgw/snapshot_binder.go\<close>).  What the probes answer is an argument; the
  payload column is what it decodes to; \<open>sd_fault\<close> stands for a failing database.
\<close>

subsection \<open>Tables\<close>

record SnapshotRecord =
  sr_ID :: string
  sr_TenantID :: string
  sr_SessionID :: string
  sr_OverallHash :: string
  sr_Payload :: CatalogSnapshot
  sr_CreatedAt :: time

record FingerprintRecord =
  fr_TenantID :: string
  fr_ServerID :: string
  fr_Hash :: string
  fr_ToolsCount :: nat
  fr_SeenAt :: time

record session_row =
  sw_ID :: string
  sw_TenantID :: string
  sw_SnapshotID :: string
  sw_StartedAt :: time
  sw_EndedAt :: "time option"

record SnapshotDb =
  sd_fault :: bool
  sd_snapshots :: "SnapshotRecord list"
  sd_sessions :: "session_row list"
  sd_fingerprints :: "FingerprintRecord list"

record SnapshotListQuery =
  lq_Since :: "time option"
  lq_Until :: "time option"
  lq_Limit :: int
  lq_Cursor :: string

definition snap_Insert :: "SnapshotRecord \<Rightarrow> SnapshotDb \<Rightarrow> (store_error, SnapshotDb) result" where
  "snap_Insert r db =
    (if sr_ID r = '''' \<or> sr_TenantID r = '''' then Inl ErrArgs
     else if sd_fault db \<or> get_row sr_ID (sr_ID r) (sd_snapshots db) \<noteq> None then Inl ErrSQL
     else Inr (db \<lparr> sd_snapshots := sd_snapshots db @ [r \<lparr> sr_CreatedAt := to_ms (sr_CreatedAt r) \<rparr>] \<rparr>))"

definition snap_Get :: "SnapshotDb \<Rightarrow> string \<Rightarrow> (store_error, SnapshotRecord) result" where
  "snap_Get db i =
    (if sd_fault db then Inl ErrSQL
     else case get_row sr_ID i (sd_snapshots db) of None \<Rightarrow> Inl ErrNotFound | Some r \<Rightarrow> Inr r)"

definition list_limit :: "SnapshotListQuery \<Rightarrow> nat" where
  "list_limit q = nat (if lq_Limit q \<le> 0 \<or> 200 < lq_Limit q then 50 else lq_Limit q)"

definition list_where :: "string \<Rightarrow> SnapshotListQuery \<Rightarrow> SnapshotRecord \<Rightarrow> bool" where
  "list_where tenantID q r \<longleftrightarrow> sr_TenantID r = tenantID \<and>
     (case lq_Since q of None \<Rightarrow> True | Some t \<Rightarrow> to_ms t \<le> sr_CreatedAt r) \<and>
     (case lq_Until q of None \<Rightarrow> True | Some t \<Rightarrow> sr_CreatedAt r < to_ms t) \<and>
     (lq_Cursor q = '''' \<or> sr_ID r < lq_Cursor q)"

definition snap_List :: "SnapshotDb \<Rightarrow> string \<Rightarrow> SnapshotListQuery \<Rightarrow> (store_error, SnapshotRecord list \<times> string) result" where
  "snap_List db tenantID q =
    (if sd_fault db then Inl ErrSQL
     else
       let out = take (list_limit q) (sort_desc sr_ID (filter (list_where tenantID q) (sd_snapshots db))) in
       Inr (out, if length out = list_limit q then sr_ID (last out) else ''''))"

definition StampSession :: "time \<Rightarrow> string \<Rightarrow> string \<Rightarrow> SnapshotDb \<Rightarrow> (store_error, SnapshotDb) result" where
  "StampSession now sessionID snapshotID db =
    (if sessionID = '''' \<or> snapshotID = '''' then Inl ErrArgs
     else case snap_Get db snapshotID of
         Inl e \<Rightarrow> Inl e
       | Inr r \<Rightarrow>
           Inr (db \<lparr> sd_sessions :=
             (if get_row sw_ID sessionID (sd_sessions db) = None
              then sd_sessions db @ [\<lparr> sw_ID = sessionID, sw_TenantID = sr_TenantID r, sw_SnapshotID = snapshotID,
                     sw_StartedAt = to_ms now, sw_EndedAt = None \<rparr>]
              else update_row sw_ID sessionID (\<lambda>w. w \<lparr> sw_SnapshotID := snapshotID \<rparr>) (sd_sessions db)) \<rparr>))"

definition print_key :: "FingerprintRecord \<Rightarrow> string \<times> string \<times> string" where
  "print_key r = (fr_TenantID r, fr_ServerID r, fr_Hash r)"

definition UpsertFingerprint :: "time \<Rightarrow> string \<Rightarrow> string \<Rightarrow> string \<Rightarrow> nat \<Rightarrow> SnapshotDb \<Rightarrow> (store_error, SnapshotDb) result" where
  "UpsertFingerprint now tenantID serverID hash toolsCount db =
    (if sd_fault db then Inl ErrSQL
     else Inr (db \<lparr> sd_fingerprints := put_row print_key
       \<lparr> fr_TenantID = tenantID, fr_ServerID = serverID, fr_Hash = hash, fr_ToolsCount = toolsCount, fr_SeenAt = to_ms now \<rparr>
       (sd_fingerprints db) \<rparr>))"

definition snap_LatestFingerprint :: "SnapshotDb \<Rightarrow> string \<Rightarrow> string \<Rightarrow> (store_error, FingerprintRecord) result" where
  "snap_LatestFingerprint db tenantID serverID =
    (if sd_fault db then Inl ErrSQL
     else case sort_desc fr_SeenAt (filter (\<lambda>r. fr_TenantID r = tenantID \<and> fr_ServerID r = serverID) (sd_fingerprints db)) of
         [] \<Rightarrow> Inl ErrNotFound
       | r # _ \<Rightarrow> Inr r)"

definition ActiveSessions :: "SnapshotDb \<Rightarrow> time \<Rightarrow> (store_error, session_row list) result" where
  "ActiveSessions db since =
    (if sd_fault db then Inl ErrSQL
     else Inr (filter (\<lambda>w. sw_EndedAt w = None \<and> to_ms since \<le> sw_StartedAt w) (sd_sessions db)))"

definition CloseSession :: "time \<Rightarrow> string \<Rightarrow> SnapshotDb \<Rightarrow> (store_error, SnapshotDb) result" where
  "CloseSession now sessionID db =
    (if sd_fault db then Inl ErrSQL
     else Inr (db \<lparr> sd_sessions := update_row sw_ID sessionID
       (\<lambda>w. if sw_EndedAt w = None then w \<lparr> sw_EndedAt := Some (to_ms now) \<rparr> else w) (sd_sessions db) \<rparr>))"

subsection \<open>The adapter\<close>

text \<open>The payload is marshalled: a schema that is no JSON is an error, and the others lose their white space.\<close>

definition marshal_snapshot :: "json_lib \<Rightarrow> CatalogSnapshot \<Rightarrow> CatalogSnapshot option" where
  "marshal_snapshot L s =
    (if list_all (\<lambda>t. raw_json L (ti_InputSchema t) \<noteq> None) (cs_Tools s)
     then Some (s \<lparr> cs_Tools := map (\<lambda>t. t \<lparr> ti_InputSchema :=
       if ti_InputSchema t = '''' then '''' else jl_compact L (ti_InputSchema t) \<rparr>) (cs_Tools s) \<rparr>)
     else None)"

definition adapter_Insert :: "json_lib \<Rightarrow> CatalogSnapshot \<Rightarrow> SnapshotDb \<Rightarrow> (store_error, SnapshotDb) result" where
  "adapter_Insert L s db =
    (case marshal_snapshot L s of
       None \<Rightarrow> Inl ErrArgs
     | Some body \<Rightarrow> snap_Insert \<lparr> sr_ID = cs_ID s, sr_TenantID = cs_TenantID s, sr_SessionID = cs_SessionID s,
         sr_OverallHash = cs_OverallHash s, sr_Payload = body, sr_CreatedAt = cs_CreatedAt s \<rparr> db)"

definition decodeSnapshot :: "SnapshotRecord \<Rightarrow> CatalogSnapshot" where
  "decodeSnapshot r =
    (let s = sr_Payload r in
     s \<lparr> cs_ID := if cs_ID s = '''' then sr_ID r else cs_ID s,
         cs_TenantID := if cs_TenantID s = '''' then sr_TenantID r else cs_TenantID s,
         cs_SessionID := if cs_SessionID s = '''' then sr_SessionID r else cs_SessionID s,
         cs_OverallHash := if cs_OverallHash s = '''' then sr_OverallHash r else cs_OverallHash s \<rparr>)"

definition adapter_Get :: "SnapshotDb \<Rightarrow> string \<Rightarrow> (store_error, CatalogSnapshot) result" where
  "adapter_Get db i = (case snap_Get db i of Inl e \<Rightarrow> Inl e | Inr r \<Rightarrow> Inr (decodeSnapshot r))"

definition adapter_List :: "SnapshotDb \<Rightarrow> string \<Rightarrow> SnapshotListQuery \<Rightarrow> (store_error, CatalogSnapshot list \<times> string) result" where
  "adapter_List db tenantID q =
    (case snap_List db tenantID q of Inl e \<Rightarrow> Inl e | Inr (rs, next) \<Rightarrow> Inr (map decodeSnapshot rs, next))"

definition adapter_LatestFingerprint :: "SnapshotDb \<Rightarrow> string \<Rightarrow> string \<Rightarrow> (store_error, string) result" where
  "adapter_LatestFingerprint db tenantID serverID =
    (case snap_LatestFingerprint db tenantID serverID of
       Inl ErrNotFound \<Rightarrow> Inr ''''
     | Inl e \<Rightarrow> Inl e
     | Inr r \<Rightarrow> Inr (fr_Hash r))"

subsection \<open>The service\<close>

record NamespacedTool =
  nt_NamespacedName :: string
  nt_ServerID :: string
  nt_Tool :: Tool

record CatalogProbe =
  cp_ServerInfos :: "ServerInfo list \<times> string option"
  cp_ListTools :: "NamespacedTool list \<times> string option"
  cp_ListResources :: "ResourceInfo list \<times> string option"
  cp_ListPrompts :: "PromptInfo list \<times> string option"
  cp_SkillInfos :: "SkillInfo list \<times> string option"
  cp_CredentialInfos :: "CredentialInfo list \<times> string option"
  cp_PoliciesInfo :: PoliciesInfo
  cp_ResolveToolPolicy :: "string \<Rightarrow> string \<times> bool \<times> string"

definition warn :: "string \<Rightarrow> string option \<Rightarrow> string list" where
  "warn what err = (case err of None \<Rightarrow> [] | Some e \<Rightarrow> [what @ '': '' @ e])"

definition serverTools :: "NamespacedTool list \<Rightarrow> string \<Rightarrow> Tool list" where
  "serverTools all serverID = map nt_Tool (filter (\<lambda>t. nt_ServerID t = serverID) all)"

definition countServerTools :: "NamespacedTool list \<Rightarrow> string \<Rightarrow> nat" where
  "countServerTools all serverID = length (filter (\<lambda>t. nt_ServerID t = serverID) all)"

definition tool_info :: "json_lib \<Rightarrow> digest \<Rightarrow> CatalogProbe \<Rightarrow> NamespacedTool \<Rightarrow> ToolInfo" where
  "tool_info L sha probe t =
    (let (risk, requires, skillID) = cp_ResolveToolPolicy probe (nt_NamespacedName t);
         ti = \<lparr> ti_NamespacedName = nt_NamespacedName t, ti_ServerID = nt_ServerID t, ti_Description = tl_Description (nt_Tool t),
           ti_InputSchema = tl_InputSchema (nt_Tool t), ti_Annotations = tl_Annotations (nt_Tool t), ti_RiskClass = risk,
           ti_RequiresApproval = requires, ti_SkillID = skillID, ti_Hash = '''' \<rparr> in
     ti \<lparr> ti_Hash := ToolFingerprint L sha ti \<rparr>)"

definition build_snapshot :: "json_lib \<Rightarrow> digest \<Rightarrow> time \<Rightarrow> string \<Rightarrow> CatalogProbe \<Rightarrow> string \<Rightarrow> string \<Rightarrow> CatalogSnapshot" where
  "build_snapshot L sha now newID probe tenantID sessionID =
    (let tools = fst (cp_ListTools probe);
         s = \<lparr> cs_ID = newID, cs_TenantID = tenantID, cs_SessionID = sessionID, cs_CreatedAt = now,
           cs_Servers = map (\<lambda>sv. sv \<lparr> si_SchemaHash := ServerToolsFingerprint L sha (serverTools tools (si_ID sv)) \<rparr>) (fst (cp_ServerInfos probe)),
           cs_Tools = map (tool_info L sha probe) tools, cs_Resources = fst (cp_ListResources probe),
           cs_Prompts = fst (cp_ListPrompts probe), cs_Skills = fst (cp_SkillInfos probe), cs_Policies = cp_PoliciesInfo probe,
           cs_Credentials = fst (cp_CredentialInfos probe),
           cs_Warnings = warn ''server_infos'' (snd (cp_ServerInfos probe)) @ warn ''list_tools'' (snd (cp_ListTools probe)) @
             warn ''list_resources'' (snd (cp_ListResources probe)) @ warn ''list_prompts'' (snd (cp_ListPrompts probe)) @
             warn ''skill_infos'' (snd (cp_SkillInfos probe)) @ warn ''credential_infos'' (snd (cp_CredentialInfos probe)),
           cs_OverallHash = '''' \<rparr> in
     s \<lparr> cs_OverallHash := OverallFingerprint L sha s \<rparr>)"

definition or_same :: "('e, 'a) result \<Rightarrow> 'a \<Rightarrow> 'a" where
  "or_same r old = (case r of Inl _ \<Rightarrow> old | Inr new \<Rightarrow> new)"

definition created_event :: "CatalogSnapshot \<Rightarrow> Event" where
  "created_event s = \<lparr> ev_Type = ''snapshot.created'', ev_TenantID = cs_TenantID s, ev_SessionID = cs_SessionID s, ev_UserID = '''',
     ev_Payload = [(''snapshot_id'', JStr (cs_ID s)), (''overall_hash'', JStr (cs_OverallHash s)),
       (''tools_count'', JNum (dec_nat (length (cs_Tools s)))), (''servers'', JNum (dec_nat (length (cs_Servers s))))] \<rparr>"

definition service_Create ::
  "json_lib \<Rightarrow> digest \<Rightarrow> time \<Rightarrow> string \<Rightarrow> CatalogProbe \<Rightarrow> string \<Rightarrow> string \<Rightarrow> SnapshotDb \<Rightarrow> (store_error, CatalogSnapshot) result \<times> SnapshotDb \<times> Event list" where
  "service_Create L sha now newID probe tenantID sessionID db =
    (let s = build_snapshot L sha now newID probe tenantID sessionID in
     case adapter_Insert L s db of
       Inl e \<Rightarrow> (Inl e, db, [])
     | Inr db1 \<Rightarrow>
         let db2 = (if sessionID = '''' then db1 else or_same (StampSession now sessionID (cs_ID s) db1) db1);
             db3 = fold (\<lambda>sv d. or_same (UpsertFingerprint now tenantID (si_ID sv) (si_SchemaHash sv)
                     (countServerTools (fst (cp_ListTools probe)) (si_ID sv)) d) d) (cs_Servers s) db2 in
         (Inr s, db3, [created_event s]))"

definition service_Diff :: "json_lib \<Rightarrow> SnapshotDb \<Rightarrow> string \<Rightarrow> string \<Rightarrow> (store_error, Diff) result" where
  "service_Diff L db idA idB =
    (case adapter_Get db idA of
       Inl e \<Rightarrow> Inl e
     | Inr a \<Rightarrow> (case adapter_Get db idB of Inl e \<Rightarrow> Inl e | Inr b \<Rightarrow> Inr (DiffSnapshots L a b)))"

subsection \<open>The drift detector\<close>

text \<open>What a tenant's servers list now; None when the listing failed.\<close>

type_synonym live_probe = "string \<Rightarrow> (string, Tool list) amap option"

definition new_tool :: "json_lib \<Rightarrow> digest \<Rightarrow> string \<Rightarrow> Tool \<Rightarrow> ToolInfo" where
  "new_tool L sha serverID t =
    (let ti = \<lparr> ti_NamespacedName = serverID @ ''.'' @ tl_Name t, ti_ServerID = serverID, ti_Description = tl_Description t,
           ti_InputSchema = tl_InputSchema t, ti_Annotations = tl_Annotations t, ti_RiskClass = '''', ti_RequiresApproval = False,
           ti_SkillID = '''', ti_Hash = '''' \<rparr> in
     ti \<lparr> ti_Hash := ToolFingerprint L sha ti \<rparr>)"

definition indexNewTools :: "json_lib \<Rightarrow> digest \<Rightarrow> Tool list \<Rightarrow> string \<Rightarrow> (string, ToolInfo) amap" where
  "indexNewTools L sha tools serverID = indexToolsByName (map (new_tool L sha serverID) tools)"

definition diffTools :: "json_lib \<Rightarrow> (string, ToolInfo) amap \<Rightarrow> (string, ToolInfo) amap \<Rightarrow> string \<Rightarrow> ToolDiff" where
  "diffTools L oldRefs newRefs serverID =
    (let mine = filter (\<lambda>e. ti_ServerID (snd e) = serverID) oldRefs in
     \<lparr> td_Added = filter (\<lambda>n. aget oldRefs n = None) (akeys newRefs),
       td_Removed = filter (\<lambda>n. aget newRefs n = None) (akeys mine),
       td_Modified = concat (map (modified_in L newRefs) mine) \<rparr>)"

definition modified_json :: "ModifiedTool \<Rightarrow> json" where
  "modified_json m = JObj [(''name'', text_json (md_Name m)), (''fields_changed'', JArr (map text_json (md_FieldsChanged m))),
     (''old_hash'', text_json (md_OldHash m)), (''new_hash'', text_json (md_NewHash m))]"

definition tooldiff_json :: "ToolDiff \<Rightarrow> json" where
  "tooldiff_json d = JObj (omit_list ''added'' (map text_json (td_Added d)) @ omit_list ''removed'' (map text_json (td_Removed d)) @
     omit_list ''modified'' (map modified_json (td_Modified d)))"

definition drift_event :: "session_row \<Rightarrow> CatalogSnapshot \<Rightarrow> ServerInfo \<Rightarrow> string \<Rightarrow> ToolDiff \<Rightarrow> Event" where
  "drift_event sess snap sv currentHash diff =
    \<lparr> ev_Type = ''schema.drift'', ev_TenantID = sw_TenantID sess, ev_SessionID = sw_ID sess, ev_UserID = '''',
      ev_Payload = [(''snapshot_id'', JStr (cs_ID snap)), (''server_id'', JStr (si_ID sv)), (''old_hash'', JStr (si_SchemaHash sv)),
        (''new_hash'', JStr currentHash), (''diff'', JObj [(''tools'', tooldiff_json diff)])] \<rparr>"

record Detector =
  de_lastEmitted :: "(string, string) amap"
  de_db :: SnapshotDb
  de_events :: "Event list"

definition emitKey :: "session_row \<Rightarrow> ServerInfo \<Rightarrow> string" where
  "emitKey sess sv = sw_ID sess @ ''|'' @ si_ID sv"

definition live_tools :: "live_probe \<Rightarrow> string \<Rightarrow> string \<Rightarrow> Tool list" where
  "live_tools probe tenantID serverID =
    (case probe tenantID of None \<Rightarrow> [] | Some m \<Rightarrow> (case aget m serverID of None \<Rightarrow> [] | Some ts \<Rightarrow> ts))"

definition sweep_server :: "json_lib \<Rightarrow> digest \<Rightarrow> time \<Rightarrow> live_probe \<Rightarrow> session_row \<Rightarrow> CatalogSnapshot \<Rightarrow> ServerInfo \<Rightarrow> Detector \<Rightarrow> Detector" where
  "sweep_server L sha now probe sess snap sv d =
    (let tools = live_tools probe (sw_TenantID sess) (si_ID sv);
         currentHash = ServerToolsFingerprint L sha tools in
     if currentHash = si_SchemaHash sv then d
     else if (case aget (de_lastEmitted d) (emitKey sess sv) of None \<Rightarrow> '''' | Some h \<Rightarrow> h) = currentHash then d
     else
       let diff = diffTools L (indexToolsByName (cs_Tools snap)) (indexNewTools L sha tools (si_ID sv)) (si_ID sv) in
       d \<lparr> de_events := de_events d @ [drift_event sess snap sv currentHash diff],
           de_lastEmitted := aput (emitKey sess sv) currentHash (de_lastEmitted d),
           de_db := or_same (UpsertFingerprint now (sw_TenantID sess) (si_ID sv) currentHash (length tools) (de_db d)) (de_db d) \<rparr>)"

definition sweep_session :: "json_lib \<Rightarrow> digest \<Rightarrow> time \<Rightarrow> live_probe \<Rightarrow> session_row \<Rightarrow> Detector \<Rightarrow> Detector" where
  "sweep_session L sha now probe sess d =
    (if sw_SnapshotID sess = '''' then d
     else case adapter_Get (de_db d) (sw_SnapshotID sess) of
         Inl _ \<Rightarrow> d
       | Inr snap \<Rightarrow> fold (sweep_server L sha now probe sess snap) (cs_Servers snap) d)"

definition sweep :: "json_lib \<Rightarrow> digest \<Rightarrow> time \<Rightarrow> live_probe \<Rightarrow> Detector \<Rightarrow> store_error option \<times> Detector" where
  "sweep L sha now probe d =
    (case ActiveSessions (de_db d) (now - 24 * hour) of
       Inl e \<Rightarrow> (Some e, d)
     | Inr active \<Rightarrow> (None, fold (sweep_session L sha now probe) active d))"

subsection \<open>Drift is reported once per change\<close>

definition payload_text :: "Event \<Rightarrow> string \<Rightarrow> string" where
  "payload_text e k = (case aget (ev_Payload e) k of Some (JStr s) \<Rightarrow> s | _ \<Rightarrow> '''')"

text \<open>The hashes reported for one session and server, in order.\<close>

definition reported :: "Event list \<Rightarrow> string \<Rightarrow> string list" where
  "reported es k = map (\<lambda>e. payload_text e ''new_hash'') (filter (\<lambda>e. ev_SessionID e @ ''|'' @ payload_text e ''server_id'' = k) es)"

lemma reported_drift:
  "reported (es @ [drift_event sess snap sv h diff]) k = reported es k @ (if emitKey sess sv = k then [h] else [])"
  by (simp add: reported_def payload_text_def drift_event_def emitKey_def)

definition live_hash :: "json_lib \<Rightarrow> digest \<Rightarrow> live_probe \<Rightarrow> session_row \<Rightarrow> ServerInfo \<Rightarrow> string" where
  "live_hash L sha probe sess sv = ServerToolsFingerprint L sha (live_tools probe (sw_TenantID sess) (si_ID sv))"

text \<open>The detector remembers the last hash it reported for each key.\<close>

definition detector_ok :: "Detector \<Rightarrow> bool" where
  "detector_ok d \<longleftrightarrow> (\<forall>k. aget (de_lastEmitted d) k = (if reported (de_events d) k = [] then None else Some (last (reported (de_events d) k))) \<and>
     distinct_adj (reported (de_events d) k)) \<and>
     (\<forall>e \<in> set (de_events d). payload_text e ''new_hash'' \<noteq> payload_text e ''old_hash'')"

lemma distinct_adj_snoc: "distinct_adj (xs @ [x]) \<longleftrightarrow> distinct_adj xs \<and> (xs = [] \<or> last xs \<noteq> x)"
  by (simp add: distinct_adj_append_iff)

lemma sweep_server_cases:
  obtains "sweep_server L sha now probe sess snap sv d = d"
  | diff db where "sweep_server L sha now probe sess snap sv d =
        d \<lparr> de_events := de_events d @ [drift_event sess snap sv (live_hash L sha probe sess sv) diff],
            de_lastEmitted := aput (emitKey sess sv) (live_hash L sha probe sess sv) (de_lastEmitted d), de_db := db \<rparr>"
      "live_hash L sha probe sess sv \<noteq> si_SchemaHash sv"
      "aget (de_lastEmitted d) (emitKey sess sv) \<noteq> Some (live_hash L sha probe sess sv)"
proof (cases "live_hash L sha probe sess sv = si_SchemaHash sv \<or>
    (case aget (de_lastEmitted d) (emitKey sess sv) of None \<Rightarrow> '''' | Some h \<Rightarrow> h) = live_hash L sha probe sess sv")
  case True
  then have "sweep_server L sha now probe sess snap sv d = d" by (auto simp: sweep_server_def live_hash_def Let_def)
  then show ?thesis by (rule that(1))
next
  case False
  have eq: "sweep_server L sha now probe sess snap sv d =
      (let tools = live_tools probe (sw_TenantID sess) (si_ID sv);
           diff = diffTools L (indexToolsByName (cs_Tools snap)) (indexNewTools L sha tools (si_ID sv)) (si_ID sv) in
       d \<lparr> de_events := de_events d @ [drift_event sess snap sv (live_hash L sha probe sess sv) diff],
           de_lastEmitted := aput (emitKey sess sv) (live_hash L sha probe sess sv) (de_lastEmitted d),
           de_db := or_same (UpsertFingerprint now (sw_TenantID sess) (si_ID sv) (live_hash L sha probe sess sv) (length tools) (de_db d)) (de_db d) \<rparr>)"
    using False by (simp add: sweep_server_def live_hash_def Let_def)
  show ?thesis by (rule that(2) [OF eq [unfolded Let_def]]) (use False in auto)
qed

lemma server_ok:
  assumes ok: "detector_ok d"
  shows "detector_ok (sweep_server L sha now probe sess snap sv d)"
proof (cases rule: sweep_server_cases [of L sha now probe sess snap sv d])
  case 1
  then show ?thesis using ok by simp
next
  case (2 diff db)
  let ?h = "live_hash L sha probe sess sv" and ?r = "reported (de_events d)"
  have last: "?r (emitKey sess sv) = [] \<or> last (?r (emitKey sess sv)) \<noteq> ?h"
    using ok 2(3) by (auto simp: detector_ok_def)
  have "payload_text (drift_event sess snap sv ?h diff) ''new_hash'' = ?h"
      "payload_text (drift_event sess snap sv ?h diff) ''old_hash'' = si_SchemaHash sv"
    by (simp_all add: payload_text_def drift_event_def)
  with ok 2(2) last show ?thesis unfolding 2(1) detector_ok_def by (simp add: reported_drift distinct_adj_snoc)
qed

lemma server_same_tables:
  "sd_snapshots (de_db (sweep_server L sha now probe sess snap sv d)) = sd_snapshots (de_db d)"
  "sd_sessions (de_db (sweep_server L sha now probe sess snap sv d)) = sd_sessions (de_db d)"
  "sd_fault (de_db (sweep_server L sha now probe sess snap sv d)) = sd_fault (de_db d)"
  by (simp_all add: sweep_server_def Let_def or_same_def UpsertFingerprint_def)

definition same_tables :: "SnapshotDb \<Rightarrow> SnapshotDb \<Rightarrow> bool" where
  "same_tables a b \<longleftrightarrow> sd_snapshots a = sd_snapshots b \<and> sd_sessions a = sd_sessions b \<and> sd_fault a = sd_fault b"

lemma same_tables_Get: "same_tables a b \<Longrightarrow> adapter_Get a i = adapter_Get b i"
  by (simp add: same_tables_def adapter_Get_def snap_Get_def)

text \<open>The servers a sweep visits.\<close>

definition servers_of :: "SnapshotDb \<Rightarrow> session_row \<Rightarrow> (session_row \<times> CatalogSnapshot \<times> ServerInfo) list" where
  "servers_of db sess =
    (if sw_SnapshotID sess = '''' then []
     else case adapter_Get db (sw_SnapshotID sess) of Inl _ \<Rightarrow> [] | Inr snap \<Rightarrow> map (\<lambda>sv. (sess, snap, sv)) (cs_Servers snap))"

abbreviation visit :: "json_lib \<Rightarrow> digest \<Rightarrow> time \<Rightarrow> live_probe \<Rightarrow> session_row \<times> CatalogSnapshot \<times> ServerInfo \<Rightarrow> Detector \<Rightarrow> Detector" where
  "visit L sha now probe \<equiv> (\<lambda>(sess, snap, sv). sweep_server L sha now probe sess snap sv)"

lemma visits_same_tables: "same_tables (de_db (fold (visit L sha now probe) ws d)) (de_db d)"
proof (induction ws arbitrary: d)
  case (Cons w ws)
  have "same_tables (de_db (visit L sha now probe w d)) (de_db d)"
    by (cases w) (simp add: same_tables_def server_same_tables)
  with Cons.IH [of "visit L sha now probe w d"] show ?case by (simp add: same_tables_def)
qed (simp add: same_tables_def)

lemma session_visits: "sweep_session L sha now probe sess d = fold (visit L sha now probe) (servers_of (de_db d) sess) d"
  by (simp add: sweep_session_def servers_of_def fold_map comp_def split: sum.split)

lemma sweep_visits:
  "same_tables (de_db d) db \<Longrightarrow>
    fold (sweep_session L sha now probe) active d = fold (visit L sha now probe) (concat (map (servers_of db) active)) d"
proof (induction active arbitrary: d)
  case (Cons sess active)
  have "servers_of (de_db d) sess = servers_of db sess" using same_tables_Get [OF Cons.prems] by (simp add: servers_of_def)
  then have "sweep_session L sha now probe sess d = fold (visit L sha now probe) (servers_of db sess) d" by (simp add: session_visits)
  moreover have "same_tables (de_db (fold (visit L sha now probe) (servers_of db sess) d)) db"
    using visits_same_tables [of L sha now probe "servers_of db sess" d] Cons.prems by (simp add: same_tables_def)
  ultimately show ?case using Cons.IH by simp
qed simp

lemma visits_ok: "detector_ok d \<Longrightarrow> detector_ok (fold (visit L sha now probe) ws d)"
  by (induction ws arbitrary: d) (auto simp: server_ok)

text \<open>After a visit the detector has reported the server's hash, unless it is the recorded one.\<close>

definition settled :: "json_lib \<Rightarrow> digest \<Rightarrow> live_probe \<Rightarrow> session_row \<Rightarrow> ServerInfo \<Rightarrow> Detector \<Rightarrow> bool" where
  "settled L sha probe sess sv d \<longleftrightarrow> live_hash L sha probe sess sv = si_SchemaHash sv \<or>
     aget (de_lastEmitted d) (emitKey sess sv) = Some (live_hash L sha probe sess sv)"

lemma visit_settles:
  assumes "\<And>s. sha s \<noteq> ''''"
  shows "settled L sha probe sess sv (sweep_server L sha now probe sess snap sv d)"
proof -
  have "live_hash L sha probe sess sv \<noteq> ''''" using assms by (simp add: live_hash_def ServerToolsFingerprint_def fingerprint_def)
  then show ?thesis by (auto simp: settled_def sweep_server_def Let_def live_hash_def split: option.splits)
qed

lemma visit_keeps:
  assumes "settled L sha probe sess sv d"
    and "emitKey sess' sv' = emitKey sess sv \<Longrightarrow> live_hash L sha probe sess' sv' = live_hash L sha probe sess sv"
  shows "settled L sha probe sess sv (sweep_server L sha now probe sess' snap' sv' d)"
  using assms by (auto simp: settled_def sweep_server_def Let_def live_hash_def)

lemma visits_settle:
  assumes sha: "\<And>s. sha s \<noteq> ''''"
    and same: "\<And>a b c a' b' c'. \<lbrakk> (a, b, c) \<in> set ws; (a', b', c') \<in> set ws; emitKey a' c' = emitKey a c \<rbrakk> \<Longrightarrow>
      live_hash L sha probe a' c' = live_hash L sha probe a c"
    and "(sess, snap, sv) \<in> set ws"
  shows "settled L sha probe sess sv (fold (visit L sha now probe) ws d)"
  using assms(2,3)
proof (induction ws arbitrary: d rule: rev_induct)
  case (snoc w ws)
  obtain a b c where w: "w = (a, b, c)" by (cases w)
  show ?case
  proof (cases "(sess, snap, sv) \<in> set ws")
    case True
    have "settled L sha probe sess sv (fold (visit L sha now probe) ws d)"
    proof (rule snoc.IH [OF _ True])
      show "live_hash L sha probe a' c' = live_hash L sha probe a c"
        if "(a, b, c) \<in> set ws" "(a', b', c') \<in> set ws" "emitKey a' c' = emitKey a c" for a b c a' b' c'
        using snoc.prems(1) [of a b c a' b' c'] that by simp
    qed
    then have "settled L sha probe sess sv (sweep_server L sha now probe a b c (fold (visit L sha now probe) ws d))"
      by (rule visit_keeps) (use snoc.prems(1) [OF snoc.prems(2), of a b c] w in simp)
    then show ?thesis using w by simp
  next
    case False
    then have "w = (sess, snap, sv)" using snoc.prems(2) by simp
    then show ?thesis using visit_settles [OF sha] by simp
  qed
qed simp

datatype drift_step =
    DSweep time live_probe
  | DStore SnapshotDb

fun drift_next :: "json_lib \<Rightarrow> digest \<Rightarrow> drift_step \<Rightarrow> Detector \<Rightarrow> Detector" where
  "drift_next L sha (DSweep now probe) d = snd (sweep L sha now probe d)"
| "drift_next L sha (DStore db) d = d \<lparr> de_db := db \<rparr>"

definition NewDetector :: "SnapshotDb \<Rightarrow> Detector" where
  "NewDetector db = \<lparr> de_lastEmitted = [], de_db = db, de_events = [] \<rparr>"

definition drift_run :: "json_lib \<Rightarrow> digest \<Rightarrow> drift_step list \<Rightarrow> SnapshotDb \<Rightarrow> Detector" where
  "drift_run L sha steps db = fold (drift_next L sha) steps (NewDetector db)"

lemma sweep_result:
  assumes "sweep L sha now probe d = (None, d')"
  shows "d' = fold (visit L sha now probe) (concat (map (servers_of (de_db d))
    (filter (\<lambda>w. sw_EndedAt w = None \<and> to_ms (now - 24 * hour) \<le> sw_StartedAt w) (sd_sessions (de_db d))))) d"
  using assms by (auto simp: sweep_def ActiveSessions_def same_tables_def sweep_visits [of d "de_db d"] split: if_splits)

lemma sweep_ok: "detector_ok d \<Longrightarrow> detector_ok (snd (sweep L sha now probe d))"
proof (cases "fst (sweep L sha now probe d)")
  case None
  assume ok: "detector_ok d"
  have "sweep L sha now probe d = (None, snd (sweep L sha now probe d))" using None by (cases "sweep L sha now probe d") simp
  from sweep_result [OF this] show ?thesis by (rule ssubst) (rule visits_ok [OF ok])
next
  case (Some e)
  assume "detector_ok d"
  then show ?thesis using Some by (auto simp: sweep_def split: sum.splits)
qed

lemma run_detector_ok: "detector_ok (drift_run L sha steps db)"
proof -
  have step: "detector_ok d \<Longrightarrow> detector_ok (drift_next L sha q d)" for q d
    by (cases q) (simp_all add: sweep_ok, simp add: detector_ok_def)
  have "detector_ok d \<Longrightarrow> detector_ok (fold (drift_next L sha) steps d)" for d
    by (induction steps arbitrary: d) (simp_all add: step)
  moreover have "detector_ok (NewDetector db)" by (simp add: NewDetector_def detector_ok_def reported_def)
  ultimately show ?thesis unfolding drift_run_def by blast
qed

lemma same_key_same_hash:
  assumes "distinct (map sw_ID (sd_sessions db))" "\<forall>w \<in> set (sd_sessions db). CHR ''|'' \<notin> set (sw_ID w)"
    and "a \<in> set (sd_sessions db)" "b \<in> set (sd_sessions db)" "emitKey b sv' = emitKey a sv"
  shows "live_hash L sha probe b sv' = live_hash L sha probe a sv"
proof -
  have "sw_ID b = sw_ID a \<and> si_ID sv' = si_ID sv"
    using assms(2-5) sep_inject [of "CHR ''|''" "sw_ID b" "sw_ID a" "si_ID sv'" "si_ID sv"] by (simp add: emitKey_def)
  moreover from this have "b = a" using assms(1,3,4) by (simp add: distinct_map inj_on_def)
  ultimately show ?thesis by (simp add: live_hash_def)
qed

text \<open>C16: after any history of sweeps and changes of the database, a sweep that reaches the database leaves no drift
  unreported and none reported twice: for every active session and every server of its snapshot the server's tools have
  the recorded hash, or the last event of that session and server carries their hash; events of one session and server never
  repeat the hash of the one before, and none carries the recorded hash.\<close>

theorem drift_reported_once:
  assumes "\<forall>s. sha s \<noteq> ''''" and "d = drift_run L sha steps db0" and "sweep L sha now probe d = (None, d')"
    and "distinct (map sw_ID (sd_sessions (de_db d)))" and "\<forall>w \<in> set (sd_sessions (de_db d)). CHR ''|'' \<notin> set (sw_ID w)"
  shows "distinct_adj (reported (de_events d') k) \<and>
    (\<forall>e \<in> set (de_events d'). payload_text e ''new_hash'' \<noteq> payload_text e ''old_hash'') \<and>
    (\<forall>sess snap sv. sess \<in> set (sd_sessions (de_db d)) \<and> sw_EndedAt sess = None \<and> to_ms (now - 24 * hour) \<le> sw_StartedAt sess \<and>
        sw_SnapshotID sess \<noteq> '''' \<and> adapter_Get (de_db d) (sw_SnapshotID sess) = Inr snap \<and> sv \<in> set (cs_Servers snap) \<longrightarrow>
      live_hash L sha probe sess sv = si_SchemaHash sv \<or>
      reported (de_events d') (emitKey sess sv) \<noteq> [] \<and> last (reported (de_events d') (emitKey sess sv)) = live_hash L sha probe sess sv)"
proof (intro conjI allI impI)
  define ws where "ws = concat (map (servers_of (de_db d))
    (filter (\<lambda>w. sw_EndedAt w = None \<and> to_ms (now - 24 * hour) \<le> sw_StartedAt w) (sd_sessions (de_db d))))"
  have d': "d' = fold (visit L sha now probe) ws d" unfolding ws_def by (rule sweep_result [OF assms(3)])
  have ok: "detector_ok d'" unfolding d' assms(2) by (rule visits_ok [OF run_detector_ok])
  then show "distinct_adj (reported (de_events d') k)" "\<forall>e \<in> set (de_events d'). payload_text e ''new_hash'' \<noteq> payload_text e ''old_hash''"
    by (simp_all add: detector_ok_def)
  have row: "a \<in> set (sd_sessions (de_db d))" if "(a, b, c) \<in> set ws" for a b c
    using that by (auto simp: ws_def servers_of_def split: if_splits sum.splits)
  fix sess snap sv
  assume A: "sess \<in> set (sd_sessions (de_db d)) \<and> sw_EndedAt sess = None \<and> to_ms (now - 24 * hour) \<le> sw_StartedAt sess \<and>
    sw_SnapshotID sess \<noteq> '''' \<and> adapter_Get (de_db d) (sw_SnapshotID sess) = Inr snap \<and> sv \<in> set (cs_Servers snap)"
  then have "(sess, snap, sv) \<in> set (servers_of (de_db d) sess)" by (simp add: servers_of_def)
  with A have "(sess, snap, sv) \<in> set ws" by (auto simp: ws_def)
  then have "settled L sha probe sess sv d'" unfolding d'
    by (intro visits_settle) (use assms(1) same_key_same_hash [OF assms(4,5)] row in \<open>blast+\<close>)
  with ok show "live_hash L sha probe sess sv = si_SchemaHash sv \<or>
      reported (de_events d') (emitKey sess sv) \<noteq> [] \<and> last (reported (de_events d') (emitKey sess sv)) = live_hash L sha probe sess sv"
    by (auto simp: settled_def detector_ok_def split: if_splits)
qed

definition demo_session :: session_row where
  "demo_session = \<lparr> sw_ID = ''s1'', sw_TenantID = ''acme'', sw_SnapshotID = ''snap_1'', sw_StartedAt = 0, sw_EndedAt = None \<rparr>"

definition demo_server :: ServerInfo where
  "demo_server = \<lparr> si_ID = ''gh'', si_DisplayName = '''', si_Transport = ''stdio'', si_RuntimeMode = '''', si_SchemaHash = ''old'', si_Health = '''' \<rparr>"

definition demo_snapshot :: CatalogSnapshot where
  "demo_snapshot = \<lparr> cs_ID = ''snap_1'', cs_TenantID = ''acme'', cs_SessionID = ''s1'', cs_CreatedAt = 0,
     cs_Servers = [demo_server], cs_Tools = [], cs_Resources = [], cs_Prompts = [], cs_Skills = [],
     cs_Policies = \<lparr> po_AllowList = [], po_DenyList = [], po_ApprovalTimeout = 0, po_DefaultRiskClass = '''' \<rparr>,
     cs_Credentials = [], cs_Warnings = [], cs_OverallHash = ''o'' \<rparr>"

definition drifted_db :: SnapshotDb where
  "drifted_db = \<lparr> sd_fault = False,
     sd_snapshots = [\<lparr> sr_ID = ''snap_1'', sr_TenantID = ''acme'', sr_SessionID = ''s1'', sr_OverallHash = ''o'', sr_Payload = demo_snapshot,
       sr_CreatedAt = 0 \<rparr>],
     sd_sessions = [demo_session], sd_fingerprints = [] \<rparr>"

theorem drift_reported_once_witness:
  "reported (de_events (snd (sweep nat_lib (\<lambda>s. ''x'' @ s) 0 (\<lambda>_. Some []) (drift_run nat_lib (\<lambda>s. ''x'' @ s) [] drifted_db)))) ''s1|gh'' \<noteq> []"
proof -
  let ?sha = "\<lambda>s. ''x'' @ s" and ?p = "\<lambda>_. Some []"
  define d where "d = drift_run nat_lib ?sha [] drifted_db"
  have db: "de_db d = drifted_db" by (simp add: d_def drift_run_def NewDetector_def)
  have "fst (sweep nat_lib ?sha 0 ?p d) = None" unfolding sweep_def db ActiveSessions_def by (simp add: drifted_db_def)
  then obtain d' where d': "sweep nat_lib ?sha 0 ?p d = (None, d')" by (metis prod.collapse)
  have sha: "\<forall>s. ?sha s \<noteq> ''''" by simp
  have rows: "distinct (map sw_ID (sd_sessions (de_db d)))" "\<forall>w \<in> set (sd_sessions (de_db d)). CHR ''|'' \<notin> set (sw_ID w)"
    unfolding db by (simp_all add: drifted_db_def demo_session_def)
  have "to_ms (0 - 24 * hour) \<le> 0" by code_simp
  then have active: "demo_session \<in> set (sd_sessions (de_db d)) \<and> sw_EndedAt demo_session = None \<and>
      to_ms (0 - 24 * hour) \<le> sw_StartedAt demo_session \<and> sw_SnapshotID demo_session \<noteq> '''' \<and>
      adapter_Get (de_db d) (sw_SnapshotID demo_session) = Inr demo_snapshot \<and> demo_server \<in> set (cs_Servers demo_snapshot)"
    unfolding db by (simp add: drifted_db_def demo_session_def adapter_Get_def snap_Get_def get_row_def decodeSnapshot_def demo_snapshot_def Let_def)
  have "live_hash nat_lib ?sha ?p demo_session demo_server \<noteq> si_SchemaHash demo_server"
    by (simp add: live_hash_def ServerToolsFingerprint_def fingerprint_def demo_server_def)
  with drift_reported_once [OF sha d_def d' rows, THEN conjunct2, THEN conjunct2, rule_format, OF active]
  have "reported (de_events d') (emitKey demo_session demo_server) \<noteq> []" by blast
  moreover have "emitKey demo_session demo_server = ''s1|gh''" by (simp add: emitKey_def demo_session_def demo_server_def)
  ultimately show ?thesis unfolding d_def [symmetric] d' by simp
qed

subsection \<open>What the reports miss\<close>

text \<open>A drift that goes away and comes back is not reported again.\<close>

lemma drift_not_rearmed:
  assumes "live_hash L sha again sess sv \<noteq> si_SchemaHash sv" "live_hash L sha calm sess sv = si_SchemaHash sv"
    and "live_hash L sha again sess sv \<noteq> ''''"
    and d1_def: "d1 = sweep_server L sha now again sess snap sv d"
  shows "sweep_server L sha now2 again sess snap sv (sweep_server L sha now1 calm sess snap sv d1) = d1"
proof -
  have "aget (de_lastEmitted d1) (emitKey sess sv) = Some (live_hash L sha again sess sv)"
    using assms(1,3) unfolding d1_def
    by (auto simp: sweep_server_def live_hash_def Let_def split: option.splits)
  moreover have "sweep_server L sha now1 calm sess snap sv d1 = d1"
    using assms(2) by (simp add: sweep_server_def live_hash_def Let_def)
  ultimately show ?thesis by (simp add: sweep_server_def live_hash_def Let_def)
qed

text \<open>A tenant whose listing fails gets a report that every tool is gone.\<close>

lemma failed_listing_reported:
  assumes "probe (sw_TenantID sess) = None" "si_SchemaHash sv \<noteq> ServerToolsFingerprint L sha []"
    and "aget (de_lastEmitted d) (emitKey sess sv) = None" "ServerToolsFingerprint L sha [] \<noteq> ''''"
  shows "de_events (sweep_server L sha now probe sess snap sv d) = de_events d @
    [drift_event sess snap sv (ServerToolsFingerprint L sha [])
      \<lparr> td_Added = [], td_Removed = map fst (filter (\<lambda>e. ti_ServerID (snd e) = si_ID sv) (indexToolsByName (cs_Tools snap))), td_Modified = [] \<rparr>]"
proof -
  have none: "concat (map (modified_in L []) es) = []" for es by (simp add: modified_in_def)
  show ?thesis
    using assms by (simp add: none sweep_server_def live_tools_def Let_def diffTools_def indexNewTools_def indexToolsByName_def [of "[]"])
qed

text \<open>A tool that did not change is reported as modified with every drift of its server: the detector hashes it without its
  risk class.\<close>

lemma unchanged_tool_reported:
  assumes "float_text L" "inj sha" and "fst (cp_ResolveToolPolicy probe (nt_NamespacedName t)) \<noteq> ''''"
    and "texts_ok (tool_info L sha probe t)" "texts_ok (new_tool L sha serverID (nt_Tool t))"
  shows "ti_Hash (tool_info L sha probe t) \<noteq> ti_Hash (new_tool L sha serverID (nt_Tool t))"
proof -
  obtain risk req skill where p: "cp_ResolveToolPolicy probe (nt_NamespacedName t) = (risk, req, skill)" by (cases "cp_ResolveToolPolicy probe (nt_NamespacedName t)")
  have hash: "ti_Hash u = ToolFingerprint L sha (u \<lparr> ti_Hash := '''' \<rparr>)" if "u = tool_info L sha probe t \<or> u = new_tool L sha serverID (nt_Tool t)" for u
    using that by (auto simp: tool_info_def new_tool_def p Let_def)
  have "texts_ok (u \<lparr> ti_Hash := '''' \<rparr>) = texts_ok u" for u :: ToolInfo by (simp add: texts_ok_def)
  moreover have "tool_info L sha probe t \<lparr> ti_Hash := '''' \<rparr> \<noteq> new_tool L sha serverID (nt_Tool t) \<lparr> ti_Hash := '''' \<rparr>"
    using assms(3) by (simp add: tool_info_def new_tool_def p Let_def)
  ultimately show ?thesis
    using fingerprint_iff [OF assms(1,2), of "tool_info L sha probe t \<lparr> ti_Hash := '''' \<rparr>" "new_tool L sha serverID (nt_Tool t) \<lparr> ti_Hash := '''' \<rparr>"] assms(4,5)
    unfolding hash [OF disjI1 [OF refl]] hash [OF disjI2 [OF refl]] by simp
qed

subsection \<open>Snapshots bound to sessions\<close>

text \<open>\<open>SnapshotBinder.Get\<close> in its critical sections: the bindings are read under one lock, the right to create is
  claimed under another; the creation itself runs under neither.\<close>

record SnapshotBinder =
  bi_bindings :: "(string, CatalogSnapshot) amap"
  bi_pending :: "string list"

definition binder_Lookup :: "string \<Rightarrow> SnapshotBinder \<Rightarrow> CatalogSnapshot option" where
  "binder_Lookup sessionID b = aget (bi_bindings b) sessionID"

definition binder_claim :: "string \<Rightarrow> SnapshotBinder \<Rightarrow> bool \<times> SnapshotBinder" where
  "binder_claim sessionID b =
    (if sessionID \<in> set (bi_pending b) then (False, b) else (True, b \<lparr> bi_pending := sessionID # bi_pending b \<rparr>))"

definition binder_finish :: "string \<Rightarrow> (store_error, CatalogSnapshot) result \<Rightarrow> SnapshotBinder \<Rightarrow> SnapshotBinder" where
  "binder_finish sessionID res b =
    (case res of
       Inl _ \<Rightarrow> b \<lparr> bi_pending := removeAll sessionID (bi_pending b) \<rparr>
     | Inr snap \<Rightarrow> b \<lparr> bi_bindings := aput sessionID snap (bi_bindings b), bi_pending := removeAll sessionID (bi_pending b) \<rparr>)"

definition binder_Forget :: "string \<Rightarrow> SnapshotBinder \<Rightarrow> SnapshotBinder" where
  "binder_Forget sessionID b = b \<lparr> bi_bindings := adel sessionID (bi_bindings b) \<rparr>"

text \<open>One caller at a time holds the claim, and a bound snapshot stays until it is forgotten or another creation ends.\<close>

lemma binder_claim_once: "fst (binder_claim i b) \<Longrightarrow> \<not> fst (binder_claim i (snd (binder_claim i b)))"
  by (simp add: binder_claim_def split: if_splits)

lemma binder_finish_binds:
  "binder_Lookup j (binder_finish i res b) = (case res of Inl _ \<Rightarrow> binder_Lookup j b | Inr s \<Rightarrow> if j = i then Some s else binder_Lookup j b)"
  by (simp add: binder_finish_def binder_Lookup_def split: sum.split)

text \<open>Two callers of one session can still get different snapshots: a caller that read the bindings before the first creation
  ended and claims afterwards creates a second one, which replaces the first.\<close>

lemma binder_creates_twice:
  assumes "binder_Lookup i b = None" "i \<notin> set (bi_pending b)"
  shows "let b1 = snd (binder_claim i b); b2 = binder_finish i (Inr s) b1; b3 = snd (binder_claim i b2); b4 = binder_finish i (Inr t) b3 in
    binder_Lookup i b = None \<and> fst (binder_claim i b) \<and> binder_Lookup i b2 = Some s \<and> fst (binder_claim i b2) \<and> binder_Lookup i b4 = Some t"
  using assms by (simp add: binder_claim_def binder_finish_def binder_Lookup_def Let_def)

text \<open>A caller that waited for a creation that failed finds no snapshot, and no error.\<close>

lemma binder_waiter_empty_handed:
  "binder_Lookup i b = None \<Longrightarrow> binder_Lookup i (binder_finish i (Inl e) (snd (binder_claim i b))) = None"
  by (simp add: binder_claim_def binder_finish_def binder_Lookup_def)

end
