(* ===== verification/Spec2Isabelle.thy ===== *)
theory Spec2Isabelle
  imports Profile_Resolver Tenant_Auth Gateway_Safety Log_Ring Server_Fleet Supervisor_Concurrency
    LLM_Gateway_Safety Reveal Rule_Store Drift
begin

text \<open>
  \<^bold>\<open>Verification library of the Portico gateway.\<close>

  \<^bold>\<open>The program.\<close>  Portico is a multi-tenant gateway written in Go.  Requests are authenticated
  (virtual keys, JWTs, dev mode), the caller's agent profile is resolved, and then one of three data planes takes
  them: MCP tool calls, which are checked against profile, virtual key, policy and approvals, get credentials
  injected and go to a southbound server whose process the supervisor runs; A2A requests to registered peers; and
  LLM calls, which pass quota and budget checks and a response cache before they reach the engine.  Around them
  stand the registry of servers with its change feed, the stores in SQLite, the audit trail with its redactor, the
  credential vault, and the editable policy rules with their dry run.

  \<^bold>\<open>How the model is written.\<close>  Go structs are records, enums and errors are datatypes, a fallible
  function returns a sum whose left side is its error, maps are association lists with distinct keys (\<open>amap\<close>),
  strings are lists of bytes, instants and durations are integers of nanoseconds.  A method that changes a struct
  returns the changed struct.  Every guard and early return is a branch.  A definition has the name of the function it
  models, with a prefix where several packages use the same name (\<open>vk_Resolve\<close>, \<open>profile_Resolve\<close>).

  \<^bold>\<open>Theories and sources.\<close>

  \<^item> \<^bold>\<open>Language and library.\<close>  \<open>Prelude\<close>: results, association lists and the lemma collections;
    \<open>Go_Strings\<close>, \<open>Go_Time\<close>, \<open>Go_Calendar\<close>, \<open>Go_URL\<close>, \<open>Go_Path_Match\<close>, \<open>Json\<close>,
    \<open>Json_Print\<close>: the routines of the standard library the code calls (trimming, decimal and base64 text,
    civil dates, URL parsing, \<open>path.Match\<close>, string literals of \<open>encoding/json\<close>) with their laws.
    \<open>Sql_Tables\<close>, \<open>Sql_Rows\<close>: what the SQLite stores share.  \<open>TTL_Cache\<close>, \<open>Egress\<close>: the
    contracts of expiring caches and of governed outbound calls, as locales.
  \<^item> \<^bold>\<open>Names.\<close>  \<open>Namespace\<close> models \<open>internal/catalog/namespace\<close>: qualified tool and prompt names
    and rewritten resource URIs; both directions are inverse, for URIs that are not taken for rewritten ones already.
  \<^item> \<^bold>\<open>Profiles.\<close>  \<open>Profiles\<close> (\<open>internal/profiles\<close>: what a profile admits), \<open>Profile_Store\<close>
    (\<open>agent_profile_store.go\<close>), \<open>Profile_Resolver\<close> (\<open>resolver.go\<close> and the request middleware): a
    resolved profile is a recent answer of the store for that principal.
  \<^item> \<^bold>\<open>Authentication.\<close>  \<open>Governance_Store\<close>, \<open>Virtual_Keys\<close> (\<open>internal/auth/virtual_keys\<close>:
    token format, life cycle, caching resolver), \<open>Tenant_Auth\<close> (\<open>internal/auth/tenant\<close>, \<open>scope\<close>,
    \<open>jwt\<close>): where identities come from, revocation, age of cached resolutions, what the header and the claims
    of an accepted token show.
  \<^item> \<^bold>\<open>Servers.\<close>  \<open>Registry_Spec\<close>, \<open>Registry_Store\<close>, \<open>Server_Registry\<close>
    (\<open>internal/registry\<close>), \<open>Supervisor\<close>, \<open>Supervisor_Safety\<close>, \<open>Supervisor_Lifecycle\<close>,
    \<open>Supervisor_Concurrency\<close> (\<open>internal/runtime/process\<close>), \<open>Server_Fleet\<close> (registry, reactor,
    supervisor and southbound manager together), \<open>Log_Ring\<close>: ownership of clients, circuit breaker, single start
    per key under interleaving, instances follow the registry (an acquisition reads the registry and installs its
    instance in two steps, and a drain between them misses it).
  \<^item> \<^bold>\<open>Policy.\<close>  \<open>Skills\<close> (\<open>internal/skills\<close>: catalogue and enablement), \<open>Policy_Engine\<close>
    (\<open>engine.go\<close>), \<open>Approvals\<close> (\<open>internal/policy/approval\<close>), \<open>Policy_Rules\<close> (\<open>editor.go\<close>,
    \<open>dryrun.go\<close>), \<open>Rule_Store\<close> (\<open>store.go\<close> and its table): the decision refines an abstract rule,
    approvals are granted only for the call they were asked for (without a bound in time), a dry run is decided by the
    matching rules in order.
  \<^item> \<^bold>\<open>Credentials.\<close>  \<open>Secret_Refs\<close> (\<open>internal/secrets/inject\<close> and the environment of processes),
    \<open>Vault\<close> (\<open>stubvault.go\<close>), \<open>Reveal\<close> (\<open>reveal.go\<close>): the vault is a map of secrets,
    entries are bound to their place, tokens show a secret once.
  \<^item> \<^bold>\<open>MCP gateway.\<close>  \<open>Gateway\<close> (\<open>internal/server/mcpgw\<close>: dispatcher, policy pipeline, gates,
    bridge), \<open>Gateway_Safety\<close>: every southbound and bridged call over any history passed its gates and is audited.
    \<open>Audit_Events\<close>, \<open>Redactor\<close> (\<open>internal/audit\<close>; the redactor walks strings, \<open>map[string]any\<close> and
    \<open>[]any\<close> and leaves values of any other Go type as they are, in the model as in the code; the event payloads of the
    gateway and of drift are recorded as they are emitted, before the audit store redacts them).  \<open>A2A_Dispatch\<close>
    (\<open>internal/a2a/dispatch\<close>, client pool, peer table).
  \<^item> \<^bold>\<open>Catalogue snapshots.\<close>  \<open>Canonical_Json\<close> (\<open>canonical.go\<close>), \<open>Snapshots\<close>
    (\<open>internal/catalog/snapshots\<close> and its table): canonical bytes denote the document, differences are exact,
    drift is reported once per change.
  \<^item> \<^bold>\<open>LLM gateway.\<close>  \<open>Budget_Window\<close>, \<open>Budget_Store\<close>, \<open>Budgets\<close> (\<open>internal/budgets\<close>),
    \<open>LLM_Quota\<close>, \<open>LLM_Cache\<close> (\<open>internal/llm\<close>), \<open>LLM_Store\<close> (the five tables), \<open>LLM_Wire\<close>
    (request and response text), \<open>LLM_Gateway\<close> (the handlers of \<open>internal/server/api\<close>),
    \<open>LLM_Gateway_Safety\<close>: which calls reach the engine, what the cache may serve, what is booked and recorded.
    Quota and budget checks fail open when they are not wired or their store fails, and the statements say so.

  \<^bold>\<open>Interfaces.\<close>  Contracts between components are locales, interpreted on the definitions of the model:
  \<open>ttl_cache\<close> by both resolvers, \<open>governed_egress\<close> by tool calls, bridge calls and A2A dispatch,
  \<open>approval_contract\<close> and \<open>binding_store\<close> by the SQLite stores, \<open>allow_gate\<close> by the profile gates,
  \<open>name_codec\<close> by tool and prompt names, \<open>prefix_code\<close>, \<open>element_code\<close> and \<open>read_print\<close> by
  the printed JSON, \<open>tiling\<close> by months and years, \<open>enablement_rules\<close> by the skills table, \<open>marking\<close>
  by the redaction patterns.

  \<^bold>\<open>Arguments.\<close>  Code outside the repository is an argument: hashes, HMAC, HKDF and AES-GCM, random bytes, the
  JWT library, the LLM engine, southbound clients and their answers, the process environment, the verbs of \<open>fmt\<close>
  on arbitrary values.  What a property needs of them is a named hypothesis (an injective hash, a cipher that opens
  what it sealed), and its witness instantiates them.

  \<^bold>\<open>Idealisations.\<close>  Amounts of money and percentages are rationals where the code has \<open>float64\<close>; rounding
  is not represented.  A flag stands for a failing database and another for enforced foreign keys.  The clock is read
  once per operation.  Histories are sequences of operations, each atomic, except in \<open>Supervisor_Concurrency\<close>,
  where threads interleave between critical sections, in \<open>Approvals\<close>, where other requests run while the client is
  asked, in \<open>Log_Ring\<close>, where publication has its two lock sections, and in \<open>Server_Fleet\<close>, where an
  acquisition reads the registry and installs an instance in separate steps.  Races outside of these are shown by
  lemmas on the parts of an operation (\<open>put_overtaken_by_rotation\<close> in \<open>Vault\<close>).  JSON columns and the vault file are what
  they decode to.  Loops are structural recursion or have a termination proof; the reader of printed items in
  \<open>LLM_Wire\<close> takes the length of its text as fuel, and every item consumes at least one byte.

  \<^bold>\<open>Not modelled.\<close>  Transports and sockets (northbound HTTP, southbound HTTP and stdio clients, A2A wire), start-up
  wiring and configuration files, the Code Mode sandbox and its catalogue, the playground, session bundles, telemetry and
  the span store, skill sources (git, HTTP, directories) and the skill loader, OAuth token exchange, the redis cache and
  embeddings, the Bifrost adapter of the LLM engine, and the administrative handlers that only move a request body into a
  store operation; in histories these handlers appear as the store operations they call.
\<close>

end
